(* ===== verification/Prelude.thy ===== *)
theory Prelude
  imports Main "HOL-Library.AList" "HOL-Library.Multiset" "HOL-Library.Char_ord"
    "HOL-Library.List_Lexorder" "HOL-Library.Product_Lexorder"
begin

text \<open>
  Shared vocabulary of the development: the Python idioms the components use, and their laws.

  \<^item> a Python \<open>dict\<close> whose insertion order matters is an association list with distinct keys
    (\<open>AList.update\<close> keeps the position of a key that is already there and appends a new one,
    exactly as \<open>d[k] = v\<close> does; \<open>AList.delete\<close> is \<open>del d[k]\<close> / \<open>d.pop(k, None)\<close>);
  \<^item> \<open>max(xs, key=f, default=None)\<close> is \<open>max_by f xs\<close>: the FIRST element of largest key;
  \<^item> \<open>xs.pop(i)\<close> at the first or last index that satisfies a test is \<open>pop_first\<close> / \<open>pop_last\<close>;
  \<^item> \<open>d.setdefault(key(x), []).append(x)\<close> over a list is \<open>bucket\<close>, and
    \<open>d[k] = d.get(k, 0) + n\<close> is \<open>bump\<close>.

  Instants and durations (\<open>datetime\<close>, \<open>timedelta\<close>) are integers counting microseconds, the
  resolution of both Python and PostgreSQL; a UUID is the number it encodes, because its bytes and
  its hexadecimal text both order the way that number does.
\<close>

named_theorems dict_simps "lookups after dictionary updates"

type_synonym instant = int
type_synonym duration = int
type_synonym uuid = nat
type_synonym ('k, 'v) odict = "('k \<times> 'v) list"

definition seconds :: "int \<Rightarrow> duration" where
  "seconds n = n * 1000000"

lemma seconds_mono [simp]: "seconds a \<le> seconds b \<longleftrightarrow> a \<le> b"
  by (simp add: seconds_def)

lemma seconds_0 [simp]: "seconds 0 = 0"
  by (simp add: seconds_def)

subsection \<open>Dictionaries: the interface, and association lists as its implementation\<close>

text \<open>What a client of a dictionary relies on: a lookup after a store, and after a delete.\<close>

locale dictionary =
  fixes empty :: "'d"
    and lookup :: "'d \<Rightarrow> 'k \<Rightarrow> 'v option"
    and store :: "'k \<Rightarrow> 'v \<Rightarrow> 'd \<Rightarrow> 'd"
    and remove :: "'k \<Rightarrow> 'd \<Rightarrow> 'd"
  assumes lookup_empty: "lookup empty k = None"
    and lookup_store: "lookup (store k v d) k' = (if k' = k then Some v else lookup d k')"
    and lookup_remove: "lookup (remove k d) k' = (if k' = k then None else lookup d k')"
begin

lemma store_store: "lookup (store k v (store k w d)) = lookup (store k v d)"
  by (rule ext) (simp add: lookup_store)

lemma remove_store: "lookup (remove k (store k v d)) = lookup (remove k d)"
  by (rule ext) (simp add: lookup_store lookup_remove)

text \<open>Storing a list of pairs one after the other: the last store of a key is the one that stays.\<close>

lemma lookup_fold_store:
  "lookup (fold (\<lambda>(k, v). store k v) kvs d) k =
     (case map_of (rev kvs) k of Some v \<Rightarrow> Some v | None \<Rightarrow> lookup d k)"
  by (induction kvs arbitrary: d) (auto simp: lookup_store map_add_def split: option.splits)

end

interpretation od: dictionary "[]" map_of AList.update AList.delete
  by unfold_locales (auto simp: update_conv' delete_conv' restrict_map_def)

lemmas od_laws [dict_simps] = od.lookup_store od.lookup_remove

lemma update_keys: "map fst (AList.update k v d) = (if k \<in> set (map fst d) then map fst d else map fst d @ [k])"
  by (induction d) auto

lemma distinct_update_keys: "distinct (map fst d) \<Longrightarrow> distinct (map fst (AList.update k v d))"
  by (rule distinct_update)

lemma distinct_delete_keys: "distinct (map fst d) \<Longrightarrow> distinct (map fst (AList.delete k d))"
  by (rule distinct_delete)

lemma set_delete: "set (AList.delete k d) = {p \<in> set d. fst p \<noteq> k}"
  by (induction d) auto

lemma set_update: "distinct (map fst d) \<Longrightarrow> set (AList.update k v d) = insert (k, v) {p \<in> set d. fst p \<noteq> k}"
  by (induction d) force+

lemma ball_update: "\<forall>p \<in> set d. P p \<Longrightarrow> P (k, v) \<Longrightarrow> \<forall>p \<in> set (AList.update k v d). P p"
  by (induction d) auto

lemma ball_delete: "\<forall>p \<in> set d. P p \<Longrightarrow> \<forall>p \<in> set (AList.delete k d). P p"
  by (simp add: set_delete)

lemma ball_lookup: "\<forall>p \<in> set d. P p \<Longrightarrow> map_of d k = Some v \<Longrightarrow> P (k, v)"
  by (auto dest: map_of_SomeD)

lemma in_update: "p \<in> set (AList.update k v d) \<Longrightarrow> p = (k, v) \<or> p \<in> set d"
  by (induction d) (auto split: if_splits)

lemma in_delete: "p \<in> set (AList.delete k d) \<Longrightarrow> p \<in> set d \<and> fst p \<noteq> k"
  by (simp add: set_delete)

lemma in_update_distinct:
  "distinct (map fst d) \<Longrightarrow> p \<in> set (AList.update k v d) \<Longrightarrow> p = (k, v) \<or> p \<in> set d \<and> fst p \<noteq> k"
  by (auto simp: set_update)

lemma mset_values_update_new: "map_of d k = None \<Longrightarrow> image_mset snd (mset (AList.update k v d)) = add_mset v (image_mset snd (mset d))"
  by (induction d) (auto split: if_splits)

lemma mset_values_delete:
  "distinct (map fst d) \<Longrightarrow> map_of d k = Some v
   \<Longrightarrow> image_mset snd (mset d) = add_mset v (image_mset snd (mset (AList.delete k d)))"
proof (induction d)
  case (Cons p d)
  show ?case
  proof (cases "fst p = k")
    case True
    with Cons.prems have "k \<notin> fst ` set d" by auto
    then have "AList.delete k d = d" by (rule delete_id)
    with True Cons.prems show ?thesis by (cases p) auto
  next
    case False
    with Cons show ?thesis by (cases p) auto
  qed
qed simp

lemma map_of_filter_key: "map_of (filter (\<lambda>(k, v). P k) d) k = (if P k then map_of d k else None)"
  by (induction d) auto

subsection \<open>Grouping and counting into a dictionary\<close>

definition bucket_add :: "('a \<Rightarrow> 'k) \<Rightarrow> 'a \<Rightarrow> ('k, 'a list) odict \<Rightarrow> ('k, 'a list) odict" where
  "bucket_add key x d = AList.update (key x) ((case map_of d (key x) of None \<Rightarrow> [] | Some ys \<Rightarrow> ys) @ [x]) d"

definition bucket :: "('a \<Rightarrow> 'k) \<Rightarrow> 'a list \<Rightarrow> ('k, 'a list) odict" where
  "bucket key xs = fold (bucket_add key) xs []"

definition bump :: "'k \<Rightarrow> nat \<Rightarrow> ('k, nat) odict \<Rightarrow> ('k, nat) odict" where
  "bump k n d = AList.update k ((case map_of d k of None \<Rightarrow> 0 | Some c \<Rightarrow> c) + n) d"

definition count_of :: "('k, nat) odict \<Rightarrow> 'k \<Rightarrow> nat" where
  "count_of d k = (case map_of d k of None \<Rightarrow> 0 | Some c \<Rightarrow> c)"

lemma count_of_bump [simp]: "count_of (bump k n d) k' = count_of d k' + (if k' = k then n else 0)"
  by (simp add: count_of_def bump_def od_laws)

lemma count_of_Nil [simp]: "count_of [] k = 0"
  by (simp add: count_of_def)

lemma count_of_fold_bump: "count_of (fold (\<lambda>k. bump k 1) ks d) k = count_of d k + count_list ks k"
  by (induction ks arbitrary: d) auto

lemma lookup_fold_bucket_add:
  "map_of (fold (bucket_add key) xs d) k =
     (case filter (\<lambda>x. key x = k) xs of [] \<Rightarrow> map_of d k
      | ys \<Rightarrow> Some ((case map_of d k of None \<Rightarrow> [] | Some zs \<Rightarrow> zs) @ ys))"
  by (induction xs arbitrary: d)
    (auto simp: bucket_add_def od_laws split: option.splits list.splits)

lemma lookup_bucket:
  "map_of (bucket key xs) k = (if k \<in> key ` set xs then Some (filter (\<lambda>x. key x = k) xs) else None)"
proof (cases "filter (\<lambda>x. key x = k) xs")
  case Nil
  then have "k \<notin> key ` set xs" by (auto simp: filter_empty_conv)
  with Nil show ?thesis by (simp add: bucket_def lookup_fold_bucket_add)
next
  case (Cons y ys)
  then have "y \<in> set (filter (\<lambda>x. key x = k) xs)" by simp
  then have "k \<in> key ` set xs" by auto
  with Cons show ?thesis by (simp add: bucket_def lookup_fold_bucket_add)
qed

lemma distinct_bucket: "distinct (map fst (bucket key xs))"
proof -
  have "distinct (map fst d) \<Longrightarrow> distinct (map fst (fold (bucket_add key) xs d))" for d
    by (induction xs arbitrary: d) (auto simp: bucket_add_def distinct_update_keys)
  then show ?thesis by (simp add: bucket_def)
qed

lemma set_keys_bucket: "set (map fst (bucket key xs)) = key ` set xs"
proof -
  have "k \<in> set (map fst (bucket key xs)) \<longleftrightarrow> k \<in> key ` set xs" for k
  proof -
    have "k \<in> set (map fst (bucket key xs)) \<longleftrightarrow> map_of (bucket key xs) k \<noteq> None"
      by (simp add: map_of_eq_None_iff)
    also have "\<dots> \<longleftrightarrow> k \<in> key ` set xs" by (simp add: lookup_bucket)
    finally show ?thesis .
  qed
  then show ?thesis by blast
qed

lemma bucket_group:
  assumes "(k, ys) \<in> set (bucket key xs)"
  shows "ys = filter (\<lambda>x. key x = k) xs" and "ys \<noteq> []"
proof -
  from assms have "map_of (bucket key xs) k = Some ys" by (simp add: distinct_bucket)
  then show "ys = filter (\<lambda>x. key x = k) xs" and "ys \<noteq> []"
    by (auto simp: lookup_bucket filter_empty_conv split: if_splits)
qed

subsection \<open>The first largest element, and popping one element out of a list\<close>

definition better :: "('a \<Rightarrow> 'b::linorder) \<Rightarrow> 'a \<Rightarrow> 'a \<Rightarrow> 'a" where
  "better f best y = (if f best < f y then y else best)"

fun max_by :: "('a \<Rightarrow> 'b::linorder) \<Rightarrow> 'a list \<Rightarrow> 'a option" where
  "max_by f [] = None"
| "max_by f (x # xs) = Some (foldl (better f) x xs)"

lemma better_cases: "better f x y \<in> {x, y}" "f x \<le> f (better f x y)" "f y \<le> f (better f x y)"
  by (auto simp: better_def)

lemma foldl_better:
  fixes f :: "'a \<Rightarrow> 'b::linorder"
  shows "foldl (better f) x xs \<in> insert x (set xs)
    \<and> (\<forall>y \<in> insert x (set xs). f y \<le> f (foldl (better f) x xs))"
proof (induction xs arbitrary: x)
  case (Cons y ys)
  define m where "m = foldl (better f) (better f x y) ys"
  from Cons.IH [of "better f x y"] have "m \<in> insert (better f x y) (set ys)"
    and ge: "f (better f x y) \<le> f m" "\<forall>w \<in> set ys. f w \<le> f m"
    by (simp_all add: m_def)
  moreover have "f x \<le> f m" and "f y \<le> f m"
    using better_cases(2,3) [where f = f and x = x and y = y] ge(1) by (auto intro: order.trans)
  ultimately show ?case using better_cases(1) [of f x y] by (auto simp: m_def [symmetric])
qed simp

lemma max_by_None [simp]: "max_by f xs = None \<longleftrightarrow> xs = []"
  by (cases xs) auto

lemma max_by_in: "max_by f xs = Some x \<Longrightarrow> x \<in> set xs"
  using foldl_better by (cases xs) fastforce+

lemma max_by_ge: "max_by f xs = Some x \<Longrightarrow> y \<in> set xs \<Longrightarrow> f y \<le> f x"
  using foldl_better by (cases xs) fastforce+

fun pop_first :: "('a \<Rightarrow> bool) \<Rightarrow> 'a list \<Rightarrow> ('a \<times> 'a list) option" where
  "pop_first P [] = None"
| "pop_first P (x # xs) = (if P x then Some (x, xs) else map_option (\<lambda>(y, ys). (y, x # ys)) (pop_first P xs))"

definition pop_last :: "('a \<Rightarrow> bool) \<Rightarrow> 'a list \<Rightarrow> ('a \<times> 'a list) option" where
  "pop_last P xs = map_option (\<lambda>(y, ys). (y, rev ys)) (pop_first P (rev xs))"

fun pop_preferring :: "('a \<Rightarrow> bool) list \<Rightarrow> 'a list \<Rightarrow> ('a \<times> 'a list) option" where
  "pop_preferring [] xs = None"
| "pop_preferring (P # Ps) xs = (case pop_last P xs of Some r \<Rightarrow> Some r | None \<Rightarrow> pop_preferring Ps xs)"

lemma pop_first_Some: "pop_first P xs = Some (y, ys) \<Longrightarrow> P y \<and> mset xs = add_mset y (mset ys)"
  by (induction xs arbitrary: ys) (auto split: if_splits)

lemma pop_last_Some: "pop_last P xs = Some (y, ys) \<Longrightarrow> P y \<and> mset xs = add_mset y (mset ys)"
  by (auto simp: pop_last_def dest!: pop_first_Some)

lemma pop_preferring_Some:
  "pop_preferring Ps xs = Some (y, ys) \<Longrightarrow> (\<exists>P \<in> set Ps. P y) \<and> mset xs = add_mset y (mset ys)"
  by (induction Ps) (auto split: option.splits dest: pop_last_Some)

lemma pop_first_None: "pop_first P xs = None \<longleftrightarrow> (\<forall>x \<in> set xs. \<not> P x)"
  by (induction xs) auto

lemma pop_last_None: "pop_last P xs = None \<longleftrightarrow> (\<forall>x \<in> set xs. \<not> P x)"
  by (simp add: pop_last_def pop_first_None)

lemma mset_popped_subset: "mset xs = add_mset y (mset ys) \<Longrightarrow> y \<in> set xs \<and> set ys \<subseteq> set xs"
  by (metis in_multiset_in_set insert_subset set_mset_add_mset_insert set_mset_mset subset_insertI union_single_eq_member)

lemma mset_concat_cong: "mset xss = mset yss \<Longrightarrow> mset (concat xss) = mset (concat yss)"
proof -
  have "mset (concat zss) = sum_mset (image_mset mset (mset zss))" for zss :: "'a list list"
    by (simp add: mset_concat sum_mset_sum_list [symmetric])
  then show "mset xss = mset yss \<Longrightarrow> mset (concat xss) = mset (concat yss)" by metis
qed

subsection \<open>State machines: what every step keeps, a run keeps\<close>

locale machine =
  fixes step :: "'e \<Rightarrow> 's \<Rightarrow> 's"
    and inv :: "'s \<Rightarrow> bool"
  assumes step_inv: "inv s \<Longrightarrow> inv (step e s)"
begin

lemma run_inv: "inv s \<Longrightarrow> inv (fold step es s)"
  by (induction es arbitrary: s) (auto intro: step_inv)

end

subsection \<open>Text\<close>

fun join :: "string \<Rightarrow> string list \<Rightarrow> string" where
  "join sep [] = []"
| "join sep [x] = x"
| "join sep (x # xs) = x @ sep @ join sep xs"

definition before_first :: "char \<Rightarrow> string \<Rightarrow> string" where
  "before_first c s = takeWhile (\<lambda>x. x \<noteq> c) s"

definition after_last :: "char \<Rightarrow> string \<Rightarrow> string" where
  "after_last c s = rev (takeWhile (\<lambda>x. x \<noteq> c) (rev s))"

definition rstrip_char :: "char \<Rightarrow> string \<Rightarrow> string" where
  "rstrip_char c s = rev (dropWhile (\<lambda>x. x = c) (rev s))"

definition is_space :: "char \<Rightarrow> bool" where
  "is_space c \<longleftrightarrow> (let n = of_char c :: int in 9 \<le> n \<and> n \<le> 13 \<or> 28 \<le> n \<and> n \<le> 32 \<or> n = 133 \<or> n = 160)"

definition strip :: "string \<Rightarrow> string" where
  "strip s = rev (dropWhile is_space (rev (dropWhile is_space s)))"

definition lower_char :: "char \<Rightarrow> char" where
  "lower_char c = (let n = of_char c :: int
     in if 65 \<le> n \<and> n \<le> 90 \<or> 192 \<le> n \<and> n \<le> 222 \<and> n \<noteq> 215 then char_of (n + 32) else c)"

definition lower :: "string \<Rightarrow> string" where
  "lower s = map lower_char s"

definition digit_char :: "nat \<Rightarrow> char" where
  "digit_char d = char_of (48 + int d)"

fun nat_str :: "nat \<Rightarrow> string" where
  "nat_str n = (if n < 10 then [digit_char n] else nat_str (n div 10) @ [digit_char (n mod 10)])"

declare nat_str.simps [simp del]

definition int_str :: "int \<Rightarrow> string" where
  "int_str i = (if i < 0 then ''-'' @ nat_str (nat (- i)) else nat_str (nat i))"

definition is_digit :: "char \<Rightarrow> bool" where
  "is_digit c \<longleftrightarrow> (let n = of_char c :: int in 48 \<le> n \<and> n \<le> 57)"

definition starts_with :: "string \<Rightarrow> string \<Rightarrow> bool" where
  "starts_with p s \<longleftrightarrow> take (length p) s = p"

end
