(* ===== verification/Entries.thy ===== *)
theory Entries
  imports Prelude
begin

text \<open>
  One stored log line (\<open>app/persistence/models/log_entry.py\<close>) and the readings Stage 2 takes of it
  (\<open>app/services/mnp_log_ingestion/pipeline/derive_transactions.py\<close>): the request id a line carries,
  its user, its server, its position in the tenant's stream.

  \<open>entry_fields\<close> (\<open>fields\<close> in the source) is the JSON object of the row. A JSON float is represented by the text of its Python
  \<open>repr\<close>, which determines it. A user or a request id read out of JSON may be any JSON value, so
  users are JSON values and \<open>JNull\<close> is Python's \<open>None\<close>. \<open>params\<close> of a request or of an M3 call is
  the object the parser writes there; where it is neither absent nor an object the Python raises, and
  \<open>obj_of\<close> reads it as empty: those lines are outside the model.
\<close>

subsection \<open>JSON values, Python truth and Python text\<close>

datatype json =
    JNull
  | JBool bool
  | JInt int
  | JFloat string
  | JStr string
  | JList "json list"
  | JObj "(string \<times> json) list"

fun truthy :: "json \<Rightarrow> bool" where
  "truthy JNull = False"
| "truthy (JBool b) = b"
| "truthy (JInt i) = (i \<noteq> 0)"
| "truthy (JFloat t) = (t \<noteq> ''0.0'' \<and> t \<noteq> ''-0.0'')"
| "truthy (JStr s) = (s \<noteq> [])"
| "truthy (JList xs) = (xs \<noteq> [])"
| "truthy (JObj kvs) = (kvs \<noteq> [])"

text \<open>Python's \<open>a or b\<close>, on JSON values.\<close>

definition py_or :: "json \<Rightarrow> json \<Rightarrow> json" where
  "py_or a b = (if truthy a then a else b)"

text \<open>\<open>d.get(k)\<close>: \<open>None\<close> for a missing key.\<close>

definition jget :: "(string \<times> json) list \<Rightarrow> string \<Rightarrow> json" where
  "jget d k = (case map_of d k of None \<Rightarrow> JNull | Some v \<Rightarrow> v)"

fun obj_of :: "json \<Rightarrow> (string \<times> json) list" where
  "obj_of (JObj kvs) = kvs"
| "obj_of _ = []"

fun is_obj :: "json \<Rightarrow> bool" where
  "is_obj (JObj _) = True"
| "is_obj _ = False"

definition opt_str :: "string option \<Rightarrow> json" where
  "opt_str s = (case s of None \<Rightarrow> JNull | Some t \<Rightarrow> JStr t)"

definition hex_char :: "int \<Rightarrow> char" where
  "hex_char d = char_of (if d < 10 then 48 + d else 87 + d)"

definition repr_char :: "char \<Rightarrow> char \<Rightarrow> string" where
  "repr_char quote c =
     (let n = of_char c :: int
      in if c = quote \<or> n = 92 then [char_of (92::int), c]
         else if n = 10 then [char_of (92::int), CHR ''n'']
         else if n = 13 then [char_of (92::int), CHR ''r'']
         else if n = 9 then [char_of (92::int), CHR ''t'']
         else if n < 32 \<or> 127 \<le> n \<and> n \<le> 160 \<or> n = 173
           then [char_of (92::int), CHR ''x'', hex_char (n div 16), hex_char (n mod 16)]
         else [c])"

definition repr_str :: "string \<Rightarrow> string" where
  "repr_str s =
     (let quote = (if char_of (39::int) \<in> set s \<and> char_of (34::int) \<notin> set s then char_of (34::int) else char_of (39::int))
      in [quote] @ concat (map (repr_char quote) s) @ [quote])"

fun py_repr :: "json \<Rightarrow> string" where
  "py_repr JNull = ''None''"
| "py_repr (JBool b) = (if b then ''True'' else ''False'')"
| "py_repr (JInt i) = int_str i"
| "py_repr (JFloat t) = t"
| "py_repr (JStr s) = repr_str s"
| "py_repr (JList xs) = ''['' @ join '', '' (map py_repr xs) @ '']''"
| "py_repr (JObj kvs) = ''{'' @ join '', '' (map (\<lambda>(k, v). repr_str k @ '': '' @ py_repr v) kvs) @ ''}''"

text \<open>Python's \<open>str(v)\<close>.\<close>

fun py_str :: "json \<Rightarrow> string" where
  "py_str (JStr s) = s"
| "py_str v = py_repr v"

subsection \<open>The stored line\<close>

datatype entry_type = Request | RequestBody | MiCall | MiResult | Sql | Response | Info | ErrorLine

record log_entry =
  entry_id :: uuid
  job_id :: uuid
  customer_code :: string
  entry_hash :: "string option"
  source_file :: string
  line_number :: "int option"
  timestamp :: "instant option"
  level :: "string option"
  thread :: "string option"
  user_ctx :: "string option"
  entry_type :: entry_type
  result_status :: "string option"
  message :: "string option"
  entry_fields :: "(string \<times> json) list"

definition text_of :: "string option \<Rightarrow> string" where
  "text_of s = (case s of None \<Rightarrow> [] | Some t \<Rightarrow> t)"

subsection \<open>What Stage 2 reads off a line\<close>

definition params_of :: "log_entry \<Rightarrow> (string \<times> json) list" where
  "params_of e = obj_of (jget (entry_fields e) ''params'')"

definition stamped_reqid :: "log_entry \<Rightarrow> string option" where
  "stamped_reqid e = (let v = jget (entry_fields e) ''reqid'' in if truthy v then Some (py_str v) else None)"

fun stamped_reqid_of :: "log_entry list \<Rightarrow> string option" where
  "stamped_reqid_of [] = None"
| "stamped_reqid_of (e # es) =
     (case stamped_reqid e of
        Some v \<Rightarrow> if v \<noteq> [] then Some v else stamped_reqid_of es
      | None \<Rightarrow> stamped_reqid_of es)"

fun first_truthy :: "(string \<times> json) list \<Rightarrow> string list \<Rightarrow> string option" where
  "first_truthy d [] = None"
| "first_truthy d (k # ks) = (let v = jget d k in if truthy v then Some (py_str v) else first_truthy d ks)"

definition entry_reqid :: "log_entry \<Rightarrow> string option" where
  "entry_reqid e =
     (let f = entry_fields e; v = jget f ''reqid''
      in if truthy v then Some (py_str v)
         else let p = (if is_obj (jget f ''params'') then obj_of (jget f ''params'') else []);
                  names = [''ReqID'', ''ReqId'', ''reqid'']
              in case first_truthy p names of Some r \<Rightarrow> Some r | None \<Rightarrow> first_truthy f names)"

definition entry_user :: "log_entry \<Rightarrow> json" where
  "entry_user e =
     (case entry_type e of
        Request \<Rightarrow> py_or (jget (params_of e) ''User'') (jget (params_of e) ''m3user'')
      | RequestBody \<Rightarrow> jget (entry_fields e) ''User''
      | MiCall \<Rightarrow> jget (params_of e) ''m3user''
      | _ \<Rightarrow> JNull)"

definition entry_server :: "log_entry \<Rightarrow> string" where
  "entry_server e = before_first CHR ''/'' (source_file e)"

text \<open>\<open>r.user_ctx or _entry_user(r)\<close>: the user of a pending request.\<close>

definition req_user :: "log_entry \<Rightarrow> json" where
  "req_user r = py_or (opt_str (user_ctx r)) (entry_user r)"

lemma stamped_is_reqid: "stamped_reqid e = Some v \<Longrightarrow> entry_reqid e = Some v"
  by (auto simp: stamped_reqid_def entry_reqid_def Let_def split: if_splits)

subsection \<open>Stream positions, and the reversed order of the tie-break\<close>

text \<open>
  A position is \<open>(timestamp is None, timestamp, source file, line number)\<close>, compared as Python
  compares tuples. Two positions that agree on the flag either both have an instant or both have
  none, so a missing instant can stand as 0 without ever deciding a comparison.
\<close>

type_synonym pos = "bool \<times> instant \<times> string \<times> int"

definition ts_or_0 :: "instant option \<Rightarrow> instant" where
  "ts_or_0 t = (case t of None \<Rightarrow> 0 | Some i \<Rightarrow> i)"

definition line_or_0 :: "int option \<Rightarrow> int" where
  "line_or_0 l = (case l of None \<Rightarrow> 0 | Some n \<Rightarrow> n)"

definition stream_pos :: "log_entry \<Rightarrow> pos" where
  "stream_pos e = (timestamp e = None, ts_or_0 (timestamp e), source_file e, line_or_0 (line_number e))"

text \<open>\<open>datetime.min\<close> in UTC, in microseconds from the epoch.\<close>

definition datetime_min :: instant where
  "datetime_min = - 62135596800000000"

definition no_pos :: pos where
  "no_pos = (False, datetime_min, [], -1)"

definition entry_stream_order :: "log_entry \<Rightarrow> bool \<times> instant \<times> int" where
  "entry_stream_order e = (timestamp e = None, ts_or_0 (timestamp e), line_or_0 (line_number e))"

datatype reversed = Reversed (unreversed: pos)

instantiation reversed :: linorder
begin

definition less_eq_reversed :: "reversed \<Rightarrow> reversed \<Rightarrow> bool" where
  "less_eq_reversed a b \<longleftrightarrow> unreversed b \<le> unreversed a"

definition less_reversed :: "reversed \<Rightarrow> reversed \<Rightarrow> bool" where
  "less_reversed a b \<longleftrightarrow> unreversed b < unreversed a"

instance
  by standard (auto simp: less_eq_reversed_def less_reversed_def intro: reversed.expand)

end

end
