(* ===== verification/Grouper.thy ===== *)
theory Grouper
  imports Entries
begin

text \<open>
  \<open>_group\<close> of \<open>derive_transactions.py\<close>: the state machine that cuts a tenant's ordered stream of log
  lines into conversations. Builders are mutable objects shared between the maps of the function
  (an open builder sits in \<open>open_by_key\<close>, maybe in \<open>open_by_reqid\<close> and in several slots; a closed one
  can still be reached through \<open>recently_closed\<close> and grow), so they live in a heap and the maps hold
  addresses. Every nested function of \<open>_group\<close> is one definition here, in the source's order.
\<close>

subsection \<open>Builders and the state\<close>

record builder =
  entries :: "log_entry list"
  open_pos :: pos
  reqid :: "string option"

definition new_builder :: builder where
  "new_builder = \<lparr>entries = [], open_pos = no_pos, reqid = None\<rparr>"

text \<open>
  A key of \<open>open_by_key\<close>: \<open>(server, thread, user)\<close>, or \<open>(server, thread, None, i)\<close> for a stream no
  line of which has named a user. \<open>slot_of\<close> is \<open>key[:2]\<close> and \<open>named_of\<close> is \<open>key[:3]\<close>.
\<close>

datatype skey =
    Named string "string option" json
  | Anon string "string option" nat

fun slot_of :: "skey \<Rightarrow> string \<times> string option" where
  "slot_of (Named srv th u) = (srv, th)"
| "slot_of (Anon srv th i) = (srv, th)"

fun named_of :: "skey \<Rightarrow> skey" where
  "named_of (Named srv th u) = Named srv th u"
| "named_of (Anon srv th i) = Named srv th JNull"

abbreviation server_of :: "skey \<Rightarrow> string" where
  "server_of k \<equiv> fst (slot_of k)"

record gstate =
  heap :: "builder list"
  builders :: "nat list"
  open_by_key :: "(skey, nat) odict"
  current_by_thread :: "(string \<times> string option, skey) odict"
  open_by_reqid :: "(string \<times> string, nat) odict"
  pending_reqs :: "log_entry list"
  recently_closed :: "(skey, nat \<times> instant) odict"

definition init_gstate :: gstate where
  "init_gstate = \<lparr>heap = [], builders = [], open_by_key = [], current_by_thread = [],
     open_by_reqid = [], pending_reqs = [], recently_closed = []\<rparr>"

definition alloc :: "builder \<Rightarrow> gstate \<Rightarrow> nat \<times> gstate" where
  "alloc b s = (length (heap s), s\<lparr>heap := heap s @ [b]\<rparr>)"

definition add_to :: "nat \<Rightarrow> log_entry \<Rightarrow> gstate \<Rightarrow> gstate" where
  "add_to b e s = s\<lparr>heap := (heap s)[b := (heap s ! b)\<lparr>entries := entries (heap s ! b) @ [e]\<rparr>]\<rparr>"

definition set_open_pos :: "nat \<Rightarrow> pos \<Rightarrow> gstate \<Rightarrow> gstate" where
  "set_open_pos b p s = s\<lparr>heap := (heap s)[b := (heap s ! b)\<lparr>open_pos := p\<rparr>]\<rparr>"

definition emit :: "nat \<Rightarrow> gstate \<Rightarrow> gstate" where
  "emit b s = s\<lparr>builders := builders s @ [b]\<rparr>"

definition open_stream :: "skey \<Rightarrow> nat \<Rightarrow> gstate \<Rightarrow> gstate" where
  "open_stream key b s =
     s\<lparr>open_by_key := AList.update key b (open_by_key s),
       current_by_thread := AList.update (slot_of key) key (current_by_thread s)\<rparr>"

subsection \<open>Taking a pending request\<close>

definition pend :: "gstate \<Rightarrow> (log_entry \<times> log_entry list) option \<Rightarrow> log_entry option \<times> gstate" where
  "pend s r = (case r of None \<Rightarrow> (None, s) | Some (x, rest) \<Rightarrow> (Some x, s\<lparr>pending_reqs := rest\<rparr>))"

definition take_by_reqid :: "string option \<Rightarrow> string \<Rightarrow> gstate \<Rightarrow> log_entry option \<times> gstate" where
  "take_by_reqid rid srv s =
     (case rid of
        None \<Rightarrow> (None, s)
      | Some i \<Rightarrow> pend s (pop_first (\<lambda>r. entry_server r = srv \<and> entry_reqid r = Some i) (pending_reqs s)))"

definition take_post_request :: "string \<Rightarrow> string option \<Rightarrow> json \<Rightarrow> gstate \<Rightarrow> log_entry option \<times> gstate" where
  "take_post_request srv th user s =
     (let idless = (\<lambda>r. entry_server r = srv \<and> entry_reqid r = None);
          preferences =
            (if truthy user
             then [\<lambda>r. thread r = th \<and> req_user r = user, \<lambda>r. req_user r = user] else []) @ [\<lambda>r. True]
      in pend s (pop_preferring (map (\<lambda>accept r. idless r \<and> accept r) preferences) (pending_reqs s)))"

definition take_by_user :: "json \<Rightarrow> string \<Rightarrow> string option \<Rightarrow> gstate \<Rightarrow> log_entry option \<times> gstate" where
  "take_by_user user srv th s =
     (if \<not> truthy user then (None, s)
      else let mine = (\<lambda>r. entry_server r = srv \<and> req_user r = user);
               preferences = (if th \<noteq> None then [\<lambda>r. thread r = th] else []) @ [\<lambda>r. True]
           in pend s (pop_preferring (map (\<lambda>accept r. mine r \<and> accept r) preferences) (pending_reqs s)))"

definition take_anonymous_request :: "string \<Rightarrow> string option \<Rightarrow> gstate \<Rightarrow> log_entry option \<times> gstate" where
  "take_anonymous_request srv th s =
     (if th = None then (None, s)
      else pend s (pop_last (\<lambda>r. entry_server r = srv \<and> thread r = th \<and> req_user r = JNull) (pending_reqs s)))"

subsection \<open>Readings of a builder\<close>

fun bound_user_in :: "log_entry list \<Rightarrow> json" where
  "bound_user_in [] = JNull"
| "bound_user_in (e # es) = (if truthy (entry_user e) then entry_user e else bound_user_in es)"

definition bound_user :: "builder \<Rightarrow> json" where
  "bound_user b = bound_user_in (entries b)"

definition has_request :: "builder \<Rightarrow> bool" where
  "has_request b = list_ex (\<lambda>e. entry_type e = Request) (entries b)"

definition txn_user :: "builder \<Rightarrow> json" where
  "txn_user b =
     (case find (\<lambda>e. truthy (opt_str (user_ctx e))) (entries b) of
        Some e \<Rightarrow> opt_str (user_ctx e) | None \<Rightarrow> bound_user b)"

definition is_id_builder :: "builder \<Rightarrow> bool" where
  "is_id_builder b = (reqid b \<noteq> None)"

definition last_ts :: "builder \<Rightarrow> instant option" where
  "last_ts b = (case find (\<lambda>e. timestamp e \<noteq> None) (rev (entries b)) of Some e \<Rightarrow> timestamp e | None \<Rightarrow> None)"

definition awaiting_m3 :: "builder \<Rightarrow> bool" where
  "awaiting_m3 b = (entries b \<noteq> [] \<and> entry_type (last (entries b)) = MiCall)"

type_synonym rank = "bool \<times> instant \<times> reversed"

definition rank_builder :: "builder \<Rightarrow> rank" where
  "rank_builder b = (last_ts b \<noteq> None, ts_or_0 (last_ts b), Reversed (open_pos b))"

definition rank_request :: "log_entry \<Rightarrow> rank" where
  "rank_request r = (timestamp r \<noteq> None, ts_or_0 (timestamp r), Reversed (stream_pos r))"

subsection \<open>Late work: conversations closed a moment ago\<close>

definition late_work_window :: duration where
  "late_work_window = 250000"

definition remember_closed :: "skey \<Rightarrow> nat \<Rightarrow> log_entry \<Rightarrow> gstate \<Rightarrow> gstate" where
  "remember_closed key b e s =
     (case timestamp e of
        None \<Rightarrow> s
      | Some t \<Rightarrow> s\<lparr>recently_closed := AList.update key (b, t) (recently_closed s)\<rparr>)"

definition rejoin_late_work :: "skey \<Rightarrow> log_entry \<Rightarrow> gstate \<Rightarrow> nat option \<times> gstate" where
  "rejoin_late_work key e s =
     (case (map_of (recently_closed s) key, timestamp e) of
        (Some (b, closed_at), Some t) \<Rightarrow>
          (if t - closed_at > late_work_window
           then (None, s\<lparr>recently_closed := AList.delete key (recently_closed s)\<rparr>)
           else (Some b, s))
      | _ \<Rightarrow> (None, s))"

subsection \<open>Closing\<close>

definition forget_id :: "nat \<Rightarrow> gstate \<Rightarrow> gstate" where
  "forget_id b s = s\<lparr>open_by_reqid := filter (\<lambda>(k, bb). bb \<noteq> b) (open_by_reqid s)\<rparr>"

definition drop_current :: "skey \<Rightarrow> gstate \<Rightarrow> gstate" where
  "drop_current key s =
     (if map_of (current_by_thread s) (slot_of key) = Some key
      then s\<lparr>current_by_thread := AList.delete (slot_of key) (current_by_thread s)\<rparr> else s)"

definition close_key :: "skey \<Rightarrow> gstate \<Rightarrow> nat option \<times> gstate" where
  "close_key key s =
     (case map_of (open_by_key s) key of
        None \<Rightarrow> (None, s)
      | Some b \<Rightarrow>
          (Some b, forget_id b (drop_current key (s\<lparr>open_by_key := AList.delete key (open_by_key s)\<rparr>))))"

subsection \<open>The stamped-id path\<close>

definition absorb :: "nat \<Rightarrow> nat \<Rightarrow> gstate \<Rightarrow> gstate" where
  "absorb b prior s =
     (let s1 = fold (add_to b) (entries (heap s ! prior)) s
      in set_open_pos b
           (if open_pos (heap s1 ! b) \<noteq> no_pos then min (open_pos (heap s1 ! b)) (open_pos (heap s1 ! prior))
            else open_pos (heap s1 ! prior)) s1)"

text \<open>The open conversation of \<open>(server, id)\<close>, created from this line if none is open.\<close>

definition id_builder :: "string \<Rightarrow> string \<Rightarrow> log_entry \<Rightarrow> gstate \<Rightarrow> nat \<times> gstate" where
  "id_builder srv rid e s =
     (case map_of (open_by_reqid s) (srv, rid) of
        Some b \<Rightarrow> (b, s)
      | None \<Rightarrow>
          (let (b, s') = alloc \<lparr>entries = [], open_pos = stream_pos e, reqid = Some rid\<rparr> s
           in (b, s'\<lparr>open_by_reqid := AList.update (srv, rid) b (open_by_reqid s')\<rparr>)))"

text \<open>
  What the stamped conversation finds in the slot it takes: headless work with no id of its own is
  merged into it and dropped from the slot; anything else is left to be overwritten.
\<close>

definition adopt_prior :: "skey \<Rightarrow> nat \<Rightarrow> gstate \<Rightarrow> gstate" where
  "adopt_prior key b s =
     (case map_of (open_by_key s) key of
        Some prior \<Rightarrow>
          (if prior \<noteq> b \<and> \<not> is_id_builder (heap s ! prior) \<and> \<not> has_request (heap s ! prior)
           then (absorb b prior s)\<lparr>open_by_key := AList.delete key (open_by_key s)\<rparr>
           else s)
      | None \<Rightarrow> s)"

definition open_id_builder :: "string \<Rightarrow> string \<Rightarrow> log_entry \<Rightarrow> gstate \<Rightarrow> nat \<times> gstate" where
  "open_id_builder srv rid e s =
     (let key = Named srv (thread e) (opt_str (user_ctx e));
          (b, s1) = id_builder srv rid e s
      in (b, open_stream key b (adopt_prior key b s1)))"

definition close_id_builder :: "string \<Rightarrow> string \<Rightarrow> gstate \<Rightarrow> nat option \<times> gstate" where
  "close_id_builder srv rid s =
     (case map_of (open_by_reqid s) (srv, rid) of
        None \<Rightarrow> (None, s)
      | Some b \<Rightarrow>
          (Some b,
           fold (\<lambda>k s. drop_current k (s\<lparr>open_by_key := AList.delete k (open_by_key s)\<rparr>))
             (map fst (filter (\<lambda>(k, bb). bb = b) (open_by_key s)))
             (s\<lparr>open_by_reqid := AList.delete (srv, rid) (open_by_reqid s)\<rparr>)))"

subsection \<open>Evicting what has been quiet for longer than the gap\<close>

definition older :: "instant \<Rightarrow> instant option \<Rightarrow> bool" where
  "older horizon t = (case t of None \<Rightarrow> False | Some i \<Rightarrow> i < horizon)"

definition evict_key :: "skey \<Rightarrow> gstate \<Rightarrow> gstate" where
  "evict_key k s = (case close_key k s of (None, s') \<Rightarrow> s' | (Some b, s') \<Rightarrow> emit b s')"

definition evict_reqid :: "string \<times> string \<Rightarrow> gstate \<Rightarrow> gstate" where
  "evict_reqid k s =
     (case map_of (open_by_reqid s) k of
        None \<Rightarrow> s
      | Some b \<Rightarrow> emit b (s\<lparr>open_by_reqid := AList.delete k (open_by_reqid s)\<rparr>))"

definition evict_request :: "log_entry \<Rightarrow> gstate \<Rightarrow> gstate" where
  "evict_request r s =
     (let (b, s') = alloc \<lparr>entries = [r], open_pos = stream_pos r, reqid = None\<rparr>
                      (s\<lparr>pending_reqs := remove1 r (pending_reqs s)\<rparr>)
      in emit b s')"

definition evict_stale :: "duration \<Rightarrow> instant \<Rightarrow> gstate \<Rightarrow> gstate" where
  "evict_stale gap now s =
     (let horizon = now - gap;
          s1 = fold evict_key
                 (map fst (filter (\<lambda>(k, b). older horizon (last_ts (heap s ! b))) (open_by_key s))) s;
          s2 = fold evict_reqid
                 (map fst (filter (\<lambda>(k, b). older horizon (last_ts (heap s1 ! b))) (open_by_reqid s1))) s1
      in fold evict_request (filter (\<lambda>r. older horizon (timestamp r)) (pending_reqs s2)) s2)"

subsection \<open>One line\<close>

text \<open>A line that carries a stamped id, or the body of a stamped request.\<close>

definition route_stamped :: "string \<Rightarrow> log_entry \<Rightarrow> gstate \<Rightarrow> gstate" where
  "route_stamped rid e s =
     (let srv = entry_server e
      in if entry_type e = Response
         then (let (found, s1) = close_id_builder srv rid s;
                   (b, s2) = (case found of
                                Some b \<Rightarrow> (b, s1)
                              | None \<Rightarrow> alloc \<lparr>entries = [], open_pos = stream_pos e, reqid = None\<rparr> s1);
                   s3 = emit b (add_to b e s2);
                   head = hd (entries (heap s3 ! b))
               in remember_closed (Named srv (thread head) (opt_str (user_ctx head))) b e s3)
         else (let (b, s1) = open_id_builder srv rid e s in add_to b e s1))"

definition route_request :: "log_entry \<Rightarrow> gstate \<Rightarrow> gstate" where
  "route_request e s = s\<lparr>pending_reqs := pending_reqs s @ [e]\<rparr>"

definition route_body :: "log_entry \<Rightarrow> gstate \<Rightarrow> gstate" where
  "route_body e s =
     (let srv = entry_server e;
          u = py_or (opt_str (user_ctx e)) (entry_user e);
          key = Named srv (thread e) u;
          s1 = (case close_key key s of (None, s') \<Rightarrow> s' | (Some b, s') \<Rightarrow> emit b s');
          (req, s2) =
            (case take_by_reqid (entry_reqid e) srv s1 of
               (Some r, s') \<Rightarrow> (Some r, s')
             | (None, s') \<Rightarrow> take_post_request srv (thread e) u s');
          (b, s3) =
            (case req of
               Some r \<Rightarrow> alloc \<lparr>entries = [r, e], open_pos = stream_pos r, reqid = None\<rparr> s2
             | None \<Rightarrow> alloc \<lparr>entries = [e], open_pos = stream_pos e, reqid = None\<rparr> s2)
      in open_stream key b s3)"

text \<open>
  The work lines (\<open>_INTERNAL\<close>). \<open>find_work\<close> is the choice of the builder; a late line joins a closed
  conversation and is done, any other line is added to an open one, which then may bind a GET
  request of its user.
\<close>

definition open_work :: "skey \<Rightarrow> log_entry \<Rightarrow> gstate \<Rightarrow> nat \<times> gstate" where
  "open_work key e s =
     (let (b, s1) = alloc \<lparr>entries = [], open_pos = stream_pos e, reqid = None\<rparr> s
      in (b, s1\<lparr>open_by_key := AList.update key b (open_by_key s1)\<rparr>))"

definition set_current :: "skey \<Rightarrow> gstate \<Rightarrow> gstate" where
  "set_current key s = s\<lparr>current_by_thread := AList.update (slot_of key) key (current_by_thread s)\<rparr>"

text \<open>
  The closed conversation a line of user \<open>u\<close> is the tail of: none while a fresh request of that user
  waits on the thread.
\<close>

definition tail_of :: "skey \<Rightarrow> string \<Rightarrow> log_entry \<Rightarrow> gstate \<Rightarrow> nat option \<times> gstate" where
  "tail_of key u e s =
     (if list_ex (\<lambda>r. entry_server r = entry_server e \<and> thread r = thread e \<and> req_user r = JStr u) (pending_reqs s)
      then (None, s) else rejoin_late_work key e s)"

text \<open>\<open>work_of_user\<close>: \<open>Inl\<close> the closed conversation the line rejoins, or \<open>Inr\<close> the open builder.\<close>

definition work_of_user :: "skey \<Rightarrow> string \<Rightarrow> log_entry \<Rightarrow> gstate \<Rightarrow> (nat + nat) \<times> gstate" where
  "work_of_user key u e s =
     (case map_of (open_by_key s) key of
        Some b \<Rightarrow> (Inr b, set_current key s)
      | None \<Rightarrow>
          (case tail_of key u e s of
             (Some b, s1) \<Rightarrow> (Inl b, s1)
           | (None, s1) \<Rightarrow> (let (b, s2) = open_work key e s1 in (Inr b, set_current key s2))))"

definition open_anonymous :: "skey \<Rightarrow> log_entry \<Rightarrow> gstate \<Rightarrow> nat \<times> gstate" where
  "open_anonymous key e s =
     (let (b, s1) = open_work key e s;
          (req, s2) = take_anonymous_request (entry_server e) (thread e) (set_current key s1)
      in case req of
           None \<Rightarrow> (b, s2)
         | Some r \<Rightarrow> (b, set_open_pos b (stream_pos r) (add_to b r s2)))"

definition work_of_thread :: "nat \<Rightarrow> log_entry \<Rightarrow> gstate \<Rightarrow> nat \<times> gstate" where
  "work_of_thread i e s =
     (case (case map_of (current_by_thread s) (entry_server e, thread e) of
              None \<Rightarrow> None | Some key \<Rightarrow> map_of (open_by_key s) key) of
        Some b \<Rightarrow> (b, s)
      | None \<Rightarrow> open_anonymous (Anon (entry_server e) (thread e) i) e s)"

definition bind_request :: "nat \<Rightarrow> log_entry \<Rightarrow> gstate \<Rightarrow> gstate" where
  "bind_request b e s =
     (let bu = py_or (opt_str (user_ctx e)) (entry_user e)
      in if truthy bu \<and> \<not> has_request (heap s ! b)
         then (case take_by_user bu (entry_server e) (thread e) s of
                 (None, s') \<Rightarrow> s'
               | (Some r, s') \<Rightarrow> set_open_pos b (stream_pos r) (add_to b r s'))
         else s)"

definition route_work :: "nat \<Rightarrow> log_entry \<Rightarrow> gstate \<Rightarrow> gstate" where
  "route_work i e s =
     (case user_ctx e of
        Some u \<Rightarrow>
          (case work_of_user (Named (entry_server e) (thread e) (JStr u)) u e s of
             (Inl late, s1) \<Rightarrow> add_to late e s1
           | (Inr b, s1) \<Rightarrow> bind_request b e (add_to b e s1))
      | None \<Rightarrow> (let (b, s1) = work_of_thread i e s in bind_request b e (add_to b e s1)))"

subsection \<open>A response that carries no id\<close>

text \<open>The candidates: the open builders' keys and the pending requests the response may close.\<close>

definition response_candidates :: "log_entry \<Rightarrow> gstate \<Rightarrow> skey list \<times> log_entry list" where
  "response_candidates e s =
     (let srv = entry_server e;
          at = (\<lambda>k. heap s ! the (map_of (open_by_key s) k));
          ru = opt_str (user_ctx e);
          keys = filter (\<lambda>k. server_of k = srv \<and> \<not> is_id_builder (at k)) (map fst (open_by_key s));
          srv_reqs = filter (\<lambda>r. entry_server r = srv) (pending_reqs s);
          mine_keys = filter (\<lambda>k. txn_user (at k) = ru) keys;
          mine_reqs = filter (\<lambda>r. req_user r = ru) srv_reqs;
          (u_keys, u_reqs) = (if mine_keys = [] \<and> mine_reqs = [] then (keys, srv_reqs) else (mine_keys, mine_reqs));
          settled = filter (\<lambda>k. \<not> awaiting_m3 (at k)) u_keys
      in (if settled \<noteq> [] \<or> u_reqs \<noteq> [] then settled else u_keys, u_reqs))"

datatype owner = OwnedBy skey | Asked log_entry | Orphan

definition response_owner :: "log_entry \<Rightarrow> gstate \<Rightarrow> owner" where
  "response_owner e s =
     (let at = (\<lambda>k. heap s ! the (map_of (open_by_key s) k));
          (u_keys, u_reqs) = response_candidates e s;
          best_key = max_by (\<lambda>k. rank_builder (at k)) u_keys;
          best_req = max_by rank_request u_reqs
      in case (best_key, best_req) of
           (Some k, None) \<Rightarrow> OwnedBy k
         | (Some k, Some r) \<Rightarrow> (if rank_request r \<le> rank_builder (at k) then OwnedBy k else Asked r)
         | (None, Some r) \<Rightarrow> Asked r
         | (None, None) \<Rightarrow> Orphan)"

definition route_response :: "log_entry \<Rightarrow> gstate \<Rightarrow> gstate" where
  "route_response e s =
     (case response_owner e s of
        OwnedBy k \<Rightarrow>
          (case close_key k s of
             (Some b, s1) \<Rightarrow> remember_closed (named_of k) b e (emit b (add_to b e s1))
           | (None, s1) \<Rightarrow> s1)
      | Asked r \<Rightarrow>
          (let (b, s1) = alloc \<lparr>entries = [r, e], open_pos = stream_pos r, reqid = None\<rparr>
                           (s\<lparr>pending_reqs := remove1 r (pending_reqs s)\<rparr>)
           in emit b (remember_closed (Named (entry_server e) (thread r) (req_user r)) b e s1))
      | Orphan \<Rightarrow>
          (let (b, s1) = alloc \<lparr>entries = [e], open_pos = stream_pos e, reqid = None\<rparr> s in emit b s1))"

subsection \<open>The loop\<close>

text \<open>The id a line is routed by: its stamp, or for a body the id of an open stamped conversation.\<close>

definition routing_id :: "log_entry \<Rightarrow> gstate \<Rightarrow> string option" where
  "routing_id e s =
     (case stamped_reqid e of
        Some rid \<Rightarrow> Some rid
      | None \<Rightarrow>
          (if entry_type e = RequestBody
           then (case entry_reqid e of
                   Some rid \<Rightarrow> (if map_of (open_by_reqid s) (entry_server e, rid) \<noteq> None then Some rid else None)
                 | None \<Rightarrow> None)
           else None))"

definition evict_now :: "duration \<Rightarrow> log_entry \<Rightarrow> gstate \<Rightarrow> gstate" where
  "evict_now gap e s = (case timestamp e of None \<Rightarrow> s | Some t \<Rightarrow> evict_stale gap t s)"

definition route :: "nat \<Rightarrow> log_entry \<Rightarrow> gstate \<Rightarrow> gstate" where
  "route i e s =
     (case routing_id e s of
        Some rid \<Rightarrow> route_stamped rid e s
      | None \<Rightarrow>
          (case entry_type e of
             Request \<Rightarrow> route_request e s
           | RequestBody \<Rightarrow> route_body e s
           | Response \<Rightarrow> route_response e s
           | _ \<Rightarrow> route_work i e s))"

definition group_step :: "duration \<Rightarrow> uuid list \<Rightarrow> nat \<times> log_entry \<Rightarrow> gstate \<Rightarrow> gstate" where
  "group_step gap seeded ie s =
     (if entry_id (snd ie) \<in> set seeded then s else route (fst ie) (snd ie) (evict_now gap (snd ie) s))"

text \<open>
  After the loop: every open builder, a stamped one once per REQUEST ID (\<open>emitted_ids\<close> holds ids, not
  \<open>(server, id)\<close> pairs), then every request nothing ever answered.
\<close>

fun emit_open :: "nat list \<Rightarrow> string list \<Rightarrow> gstate \<Rightarrow> gstate" where
  "emit_open [] ids s = s"
| "emit_open (b # bs) ids s =
     (case reqid (heap s ! b) of
        None \<Rightarrow> emit_open bs ids (emit b s)
      | Some rid \<Rightarrow> (if rid \<in> set ids then emit_open bs ids s else emit_open bs (rid # ids) (emit b s)))"

definition emit_lone_request :: "log_entry \<Rightarrow> gstate \<Rightarrow> gstate" where
  "emit_lone_request r s =
     (let (b, s') = alloc \<lparr>entries = [r], open_pos = stream_pos r, reqid = None\<rparr> s in emit b s')"

definition finish :: "gstate \<Rightarrow> gstate" where
  "finish s =
     fold emit_lone_request (pending_reqs s)
       (emit_open (map snd (open_by_key s) @ map snd (open_by_reqid s)) [] s)"

subsection \<open>Seeding from stored streams\<close>

record seed_stream =
  seed_thread :: "string option"
  seed_user_ctx :: "string option"
  seed_current :: bool
  seed_pos :: pos
  seed_entries :: "log_entry list"

record seed_state =
  seed_streams :: "seed_stream list"
  seed_pending :: "log_entry list"

definition no_seed :: seed_state where
  "no_seed = \<lparr>seed_streams = [], seed_pending = []\<rparr>"

definition seed_one :: "seed_stream \<Rightarrow> gstate \<Rightarrow> gstate" where
  "seed_one st s =
     (case seed_entries st of
        [] \<Rightarrow> s
      | first # _ \<Rightarrow>
          (let srv = entry_server first;
               key = Named srv (seed_thread st) (opt_str (seed_user_ctx st));
               rid = stamped_reqid_of (seed_entries st);
               (b, s1) = alloc \<lparr>entries = seed_entries st, open_pos = seed_pos st, reqid = rid\<rparr> s;
               s2 = s1\<lparr>open_by_key := AList.update key b (open_by_key s1)\<rparr>;
               s3 = (if seed_current st then set_current key s2 else s2)
           in case rid of
                None \<Rightarrow> s3
              | Some r \<Rightarrow> s3\<lparr>open_by_reqid := AList.update (srv, r) b (open_by_reqid s3)\<rparr>))"

definition seeded_state :: "seed_state \<Rightarrow> gstate" where
  "seeded_state sd = (fold seed_one (seed_streams sd) init_gstate)\<lparr>pending_reqs := seed_pending sd\<rparr>"

definition seeded_ids :: "seed_state \<Rightarrow> uuid list" where
  "seeded_ids sd = concat (map (\<lambda>st. map entry_id (seed_entries st)) (seed_streams sd))"

text \<open>The state after the lines \<open>es\<close>, and after the emission that follows the loop.\<close>

definition stream_state :: "duration \<Rightarrow> seed_state \<Rightarrow> log_entry list \<Rightarrow> gstate" where
  "stream_state gap sd es = fold (group_step gap (seeded_ids sd)) (enumerate 0 es) (seeded_state sd)"

definition group_state :: "duration \<Rightarrow> seed_state \<Rightarrow> log_entry list \<Rightarrow> gstate" where
  "group_state gap sd es = finish (stream_state gap sd es)"

definition group_entries :: "duration \<Rightarrow> seed_state \<Rightarrow> log_entry list \<Rightarrow> builder list" where
  "group_entries gap sd es = (let s = group_state gap sd es in map (\<lambda>b. heap s ! b) (builders s))"

end
