(* ===== verification/GrouperInvariant.thy ===== *)
theory GrouperInvariant
  imports Grouper
begin

text \<open>
  What every line of the stream keeps true of the grouper: each builder belongs to one server, no open
  builder holds a response and none ever holds two, an unstamped builder sits in exactly one slot. The
  frame lemmas of the primitive steps come first; each routing step then has one lemma.
\<close>

subsection \<open>What the primitive steps leave alone\<close>

lemma nth_update_iff: "xs[b := v] ! i = (if i = b \<and> b < length xs then v else xs ! i)"
  by (cases "b < length xs"; cases "i = b") (simp_all add: list_update_beyond)

lemma heap_add_to [simp]:
  "length (heap (add_to b e s)) = length (heap s)"
  "entries (heap (add_to b e s) ! i) = entries (heap s ! i) @ (if i = b \<and> b < length (heap s) then [e] else [])"
  "open_pos (heap (add_to b e s) ! i) = open_pos (heap s ! i)"
  "reqid (heap (add_to b e s) ! i) = reqid (heap s ! i)"
  by (simp_all add: add_to_def nth_update_iff)

lemma frame_add_to [simp]:
  "builders (add_to b e s) = builders s"
  "open_by_key (add_to b e s) = open_by_key s"
  "current_by_thread (add_to b e s) = current_by_thread s"
  "open_by_reqid (add_to b e s) = open_by_reqid s"
  "pending_reqs (add_to b e s) = pending_reqs s"
  "recently_closed (add_to b e s) = recently_closed s"
  by (simp_all add: add_to_def)

lemma heap_set_open_pos [simp]:
  "length (heap (set_open_pos b p s)) = length (heap s)"
  "entries (heap (set_open_pos b p s) ! i) = entries (heap s ! i)"
  "reqid (heap (set_open_pos b p s) ! i) = reqid (heap s ! i)"
  by (simp_all add: set_open_pos_def nth_update_iff)

lemma frame_set_open_pos [simp]:
  "builders (set_open_pos b p s) = builders s"
  "open_by_key (set_open_pos b p s) = open_by_key s"
  "current_by_thread (set_open_pos b p s) = current_by_thread s"
  "open_by_reqid (set_open_pos b p s) = open_by_reqid s"
  "pending_reqs (set_open_pos b p s) = pending_reqs s"
  "recently_closed (set_open_pos b p s) = recently_closed s"
  by (simp_all add: set_open_pos_def)

lemma frame_drop_current [simp]:
  "heap (drop_current k s) = heap s"
  "builders (drop_current k s) = builders s"
  "open_by_key (drop_current k s) = open_by_key s"
  "open_by_reqid (drop_current k s) = open_by_reqid s"
  "pending_reqs (drop_current k s) = pending_reqs s"
  "recently_closed (drop_current k s) = recently_closed s"
  by (simp_all add: drop_current_def)

lemma frame_set_current [simp]:
  "heap (set_current k s) = heap s"
  "builders (set_current k s) = builders s"
  "open_by_key (set_current k s) = open_by_key s"
  "open_by_reqid (set_current k s) = open_by_reqid s"
  "pending_reqs (set_current k s) = pending_reqs s"
  "recently_closed (set_current k s) = recently_closed s"
  by (simp_all add: set_current_def)

lemma frame_emit [simp]:
  "heap (emit b s) = heap s"
  "builders (emit b s) = builders s @ [b]"
  "open_by_key (emit b s) = open_by_key s"
  "current_by_thread (emit b s) = current_by_thread s"
  "open_by_reqid (emit b s) = open_by_reqid s"
  "pending_reqs (emit b s) = pending_reqs s"
  "recently_closed (emit b s) = recently_closed s"
  by (simp_all add: emit_def)

lemma frame_forget_id [simp]:
  "heap (forget_id b s) = heap s"
  "builders (forget_id b s) = builders s"
  "open_by_key (forget_id b s) = open_by_key s"
  "open_by_reqid (forget_id b s) = filter (\<lambda>(k, bb). bb \<noteq> b) (open_by_reqid s)"
  "pending_reqs (forget_id b s) = pending_reqs s"
  "recently_closed (forget_id b s) = recently_closed s"
  by (simp_all add: forget_id_def)

lemma frame_open_stream [simp]:
  "heap (open_stream k b s) = heap s"
  "builders (open_stream k b s) = builders s"
  "open_by_key (open_stream k b s) = AList.update k b (open_by_key s)"
  "open_by_reqid (open_stream k b s) = open_by_reqid s"
  "pending_reqs (open_stream k b s) = pending_reqs s"
  "recently_closed (open_stream k b s) = recently_closed s"
  by (simp_all add: open_stream_def)

lemma frame_remember_closed [simp]:
  "heap (remember_closed k b e s) = heap s"
  "builders (remember_closed k b e s) = builders s"
  "open_by_key (remember_closed k b e s) = open_by_key s"
  "open_by_reqid (remember_closed k b e s) = open_by_reqid s"
  "pending_reqs (remember_closed k b e s) = pending_reqs s"
  "recently_closed (remember_closed k b e s) =
     (case timestamp e of None \<Rightarrow> recently_closed s | Some t \<Rightarrow> AList.update k (b, t) (recently_closed s))"
  by (simp_all add: remember_closed_def split: option.splits)

lemma allocE:
  assumes "alloc bl s = (b, s')"
  obtains "b = length (heap s)" and "s' = s\<lparr>heap := heap s @ [bl]\<rparr>"
  using assms by (simp add: alloc_def)

lemma fold_add_to [simp]:
  "length (heap (fold (add_to b) es s)) = length (heap s)"
  "entries (heap (fold (add_to b) es s) ! i) = entries (heap s ! i) @ (if i = b \<and> b < length (heap s) then es else [])"
  "open_pos (heap (fold (add_to b) es s) ! i) = open_pos (heap s ! i)"
  "reqid (heap (fold (add_to b) es s) ! i) = reqid (heap s ! i)"
  "builders (fold (add_to b) es s) = builders s"
  "open_by_key (fold (add_to b) es s) = open_by_key s"
  "current_by_thread (fold (add_to b) es s) = current_by_thread s"
  "open_by_reqid (fold (add_to b) es s) = open_by_reqid s"
  "pending_reqs (fold (add_to b) es s) = pending_reqs s"
  "recently_closed (fold (add_to b) es s) = recently_closed s"
  by (induction es arbitrary: s) simp_all

subsection \<open>The structural invariant\<close>

definition responses :: "log_entry list \<Rightarrow> nat" where
  "responses es = length (filter (\<lambda>e. entry_type e = Response) es)"

lemma responses_simps [simp]:
  "responses [] = 0"
  "responses (e # es) = (if entry_type e = Response then 1 else 0) + responses es"
  "responses (xs @ ys) = responses xs + responses ys"
  by (simp_all add: responses_def)

text \<open>
  \<open>ss\<close> names, for every builder of the heap, the server it belongs to. A stamped builder may sit in
  several slots; any other builder sits in one. No open builder holds a response.
\<close>

definition g_heap :: "string list \<Rightarrow> gstate \<Rightarrow> bool" where
  "g_heap ss s \<longleftrightarrow>
     length ss = length (heap s)
     \<and> (\<forall>b < length (heap s). (\<forall>e \<in> set (entries (heap s ! b)). entry_server e = ss ! b)
                        \<and> responses (entries (heap s ! b)) \<le> 1)
     \<and> (\<forall>r \<in> set (pending_reqs s). entry_type r = Request)
     \<and> (\<forall>p \<in> set (current_by_thread s). slot_of (snd p) = fst p)
     \<and> (\<forall>p \<in> set (recently_closed s). fst (snd p) < length (heap s) \<and> ss ! fst (snd p) = server_of (fst p))
     \<and> (\<forall>b \<in> set (builders s). b < length (heap s))"

definition g_open :: "string list \<Rightarrow> gstate \<Rightarrow> bool" where
  "g_open ss s \<longleftrightarrow>
     distinct (map fst (open_by_key s))
     \<and> (\<forall>p \<in> set (open_by_key s). snd p < length (heap s) \<and> ss ! snd p = server_of (fst p)
          \<and> responses (entries (heap s ! snd p)) = 0)
     \<and> (\<forall>p \<in> set (open_by_key s). \<forall>q \<in> set (open_by_key s).
          snd p = snd q \<longrightarrow> reqid (heap s ! snd p) = None \<longrightarrow> p = q)
     \<and> (\<forall>p \<in> set (open_by_reqid s). snd p < length (heap s) \<and> ss ! snd p = fst (fst p)
          \<and> reqid (heap s ! snd p) = Some (snd (fst p)) \<and> responses (entries (heap s ! snd p)) = 0)"

definition g_ok :: "string list \<Rightarrow> gstate \<Rightarrow> bool" where
  "g_ok ss s \<longleftrightarrow> g_heap ss s \<and> g_open ss s"

definition g_inv :: "gstate \<Rightarrow> bool" where
  "g_inv s \<longleftrightarrow> (\<exists>ss. g_ok ss s)"

definition unlisted :: "nat \<Rightarrow> gstate \<Rightarrow> bool" where
  "unlisted b s \<longleftrightarrow> (\<forall>p \<in> set (open_by_key s). snd p \<noteq> b) \<and> (\<forall>p \<in> set (open_by_reqid s). snd p \<noteq> b)"

lemma g_ok_init: "g_ok [] init_gstate"
  by (simp add: g_ok_def g_heap_def g_open_def init_gstate_def)

lemma g_ok_frames [simp]: "g_ok ss (set_open_pos b p s) = g_ok ss s"
  by (simp add: g_ok_def g_heap_def g_open_def)

lemma g_ok_current:
  "g_ok ss s \<Longrightarrow> (\<And>p. p \<in> set c \<Longrightarrow> slot_of (snd p) = fst p) \<Longrightarrow> g_ok ss (s\<lparr>current_by_thread := c\<rparr>)"
  by (simp add: g_ok_def g_heap_def g_open_def)

lemma g_ok_current_in: "g_ok ss s \<Longrightarrow> p \<in> set (current_by_thread s) \<Longrightarrow> slot_of (snd p) = fst p"
  by (simp add: g_ok_def g_heap_def)

lemma g_ok_drop_current: "g_ok ss s \<Longrightarrow> g_ok ss (drop_current k s)"
  unfolding drop_current_def
  by (simp, rule impI, rule g_ok_current, assumption, drule in_delete) (blast intro: g_ok_current_in)

lemma g_ok_set_current: "g_ok ss s \<Longrightarrow> g_ok ss (set_current k s)"
  unfolding set_current_def
  by (rule g_ok_current, assumption, drule in_update) (metis fst_conv g_ok_current_in snd_conv)

lemma g_ok_key:
  "g_ok ss s \<Longrightarrow> map_of (open_by_key s) k = Some b
   \<Longrightarrow> b < length (heap s) \<and> ss ! b = server_of k \<and> responses (entries (heap s ! b)) = 0"
  by (auto simp: g_ok_def g_open_def dest: ball_lookup)

lemma g_ok_reqid:
  "g_ok ss s \<Longrightarrow> map_of (open_by_reqid s) k = Some b
   \<Longrightarrow> b < length (heap s) \<and> ss ! b = fst k \<and> reqid (heap s ! b) = Some (snd k) \<and> responses (entries (heap s ! b)) = 0"
  by (auto simp: g_ok_def g_open_def dest: ball_lookup)

lemma g_ok_recent:
  "g_ok ss s \<Longrightarrow> map_of (recently_closed s) k = Some (b, t) \<Longrightarrow> b < length (heap s) \<and> ss ! b = server_of k"
  by (auto simp: g_ok_def g_heap_def dest: ball_lookup)

lemma g_ok_add:
  "g_ok ss s \<Longrightarrow> b < length (heap s) \<Longrightarrow> ss ! b = entry_server e \<Longrightarrow> entry_type e \<noteq> Response
   \<Longrightarrow> g_ok ss (add_to b e s)"
  by (auto simp: g_ok_def g_heap_def g_open_def)

lemma g_ok_add_response:
  "g_ok ss s \<Longrightarrow> b < length (heap s) \<Longrightarrow> ss ! b = entry_server e \<Longrightarrow> unlisted b s
   \<Longrightarrow> responses (entries (heap s ! b)) = 0 \<Longrightarrow> g_ok ss (add_to b e s)"
  by (auto simp: g_ok_def g_heap_def g_open_def unlisted_def)

lemma g_ok_alloc:
  assumes ok: "g_ok ss s" and srv: "\<forall>e \<in> set (entries bl). entry_server e = srv"
    and resp: "responses (entries bl) \<le> 1" and eq: "alloc bl s = (b, s')"
  shows "g_ok (ss @ [srv]) s' \<and> b < length (heap s') \<and> (ss @ [srv]) ! b = srv
    \<and> entries (heap s' ! b) = entries bl \<and> reqid (heap s' ! b) = reqid bl \<and> unlisted b s'"
proof -
  have s': "s' = s\<lparr>heap := heap s @ [bl]\<rparr>" and b: "b = length (heap s)" and len: "length ss = length (heap s)"
    using eq ok by (auto simp: alloc_def g_ok_def g_heap_def)
  have "g_heap (ss @ [srv]) s'"
    using ok srv resp by (auto simp: s' g_ok_def g_heap_def nth_append less_Suc_eq)
  moreover have "g_open (ss @ [srv]) s'"
    using ok by (auto simp: s' g_ok_def g_heap_def g_open_def nth_append)
  moreover have "unlisted b s'"
    using ok by (auto simp: s' b g_ok_def g_open_def unlisted_def)
  ultimately show ?thesis using b len by (simp add: g_ok_def s' nth_append)
qed


lemma g_ok_pending: "g_ok ss s \<Longrightarrow> \<forall>r \<in> set ps. entry_type r = Request \<Longrightarrow> g_ok ss (s\<lparr>pending_reqs := ps\<rparr>)"
  by (simp add: g_ok_def g_heap_def g_open_def)

lemma g_ok_pending_requests: "g_ok ss s \<Longrightarrow> r \<in> set (pending_reqs s) \<Longrightarrow> entry_type r = Request"
  by (simp add: g_ok_def g_heap_def)

lemma g_ok_emit: "g_ok ss s \<Longrightarrow> b < length (heap s) \<Longrightarrow> g_ok ss (emit b s)"
  by (simp add: g_ok_def g_heap_def g_open_def)

lemma g_ok_put_key:
  assumes "g_ok ss s" and "b < length (heap s)" and "ss ! b = server_of k"
    and "responses (entries (heap s ! b)) = 0"
    and "reqid (heap s ! b) = None \<Longrightarrow> (\<forall>p \<in> set (open_by_key s). snd p \<noteq> b)"
  shows "g_ok ss (s\<lparr>open_by_key := AList.update k b (open_by_key s)\<rparr>)"
proof -
  let ?d = "AList.update k b (open_by_key s)"
  have old: "g_heap ss s" "g_open ss s" using assms(1) by (simp_all add: g_ok_def)
  have dist: "distinct (map fst (open_by_key s))" using old(2) by (simp add: g_open_def)
  have new: "p = (k, b) \<or> p \<in> set (open_by_key s) \<and> fst p \<noteq> k" if "p \<in> set ?d" for p
    using in_update_distinct [OF dist that] .
  have "g_heap ss (s\<lparr>open_by_key := ?d\<rparr>)" using old(1) by (simp add: g_heap_def)
  moreover have "\<forall>p \<in> set ?d. snd p < length (heap s) \<and> ss ! snd p = server_of (fst p)
      \<and> responses (entries (heap s ! snd p)) = 0"
    using new old(2) assms(2-4) unfolding g_open_def by fastforce
  moreover have "p = q" if "p \<in> set ?d" "q \<in> set ?d" "snd p = snd q" "reqid (heap s ! snd p) = None" for p q
    using new [OF that(1)] new [OF that(2)] that(3,4) assms(5) old(2) unfolding g_open_def by (metis snd_conv)
  ultimately show ?thesis using old(2) dist
    by (simp add: g_ok_def g_open_def distinct_update_keys)
qed

lemma g_ok_open_stream:
  assumes "g_ok ss s" and "b < length (heap s)" and "ss ! b = server_of k"
    and "responses (entries (heap s ! b)) = 0"
    and "reqid (heap s ! b) = None \<Longrightarrow> (\<forall>p \<in> set (open_by_key s). snd p \<noteq> b)"
  shows "g_ok ss (open_stream k b s)"
proof -
  have "open_stream k b s = set_current k (s\<lparr>open_by_key := AList.update k b (open_by_key s)\<rparr>)"
    by (simp add: open_stream_def set_current_def)
  then show ?thesis using g_ok_put_key [OF assms] by (simp add: g_ok_set_current)
qed

lemma g_ok_put_reqid:
  "g_ok ss s \<Longrightarrow> b < length (heap s) \<Longrightarrow> ss ! b = srv \<Longrightarrow> reqid (heap s ! b) = Some rid
   \<Longrightarrow> responses (entries (heap s ! b)) = 0
   \<Longrightarrow> g_ok ss (s\<lparr>open_by_reqid := AList.update (srv, rid) b (open_by_reqid s)\<rparr>)"
  unfolding g_ok_def g_heap_def g_open_def by (auto dest!: in_update)

lemma g_ok_recently:
  "g_ok ss s \<Longrightarrow> (\<And>p. p \<in> set d \<Longrightarrow> fst (snd p) < length (heap s) \<and> ss ! fst (snd p) = server_of (fst p))
   \<Longrightarrow> g_ok ss (s\<lparr>recently_closed := d\<rparr>)"
  by (simp add: g_ok_def g_heap_def g_open_def)

lemma g_ok_recent_in:
  "g_ok ss s \<Longrightarrow> p \<in> set (recently_closed s) \<Longrightarrow> fst (snd p) < length (heap s) \<and> ss ! fst (snd p) = server_of (fst p)"
  by (simp add: g_ok_def g_heap_def)

lemma g_ok_remember:
  assumes ok: "g_ok ss s" and b: "b < length (heap s)" "ss ! b = server_of k"
  shows "g_ok ss (remember_closed k b e s)"
proof (cases "timestamp e")
  case (Some t)
  have "g_ok ss (s\<lparr>recently_closed := AList.update k (b, t) (recently_closed s)\<rparr>)"
    using ok by (rule g_ok_recently) (use b g_ok_recent_in [OF ok] in \<open>fastforce dest!: in_update\<close>)
  with Some show ?thesis by (simp add: remember_closed_def)
qed (simp add: remember_closed_def ok)

lemma g_ok_unique:
  "g_ok ss s \<Longrightarrow> p \<in> set (open_by_key s) \<Longrightarrow> q \<in> set (open_by_key s) \<Longrightarrow> snd p = snd q
   \<Longrightarrow> reqid (heap s ! snd p) = None \<Longrightarrow> p = q"
  by (simp add: g_ok_def g_open_def)

lemma g_ok_key_in:
  "g_ok ss s \<Longrightarrow> p \<in> set (open_by_key s)
   \<Longrightarrow> snd p < length (heap s) \<and> ss ! snd p = server_of (fst p) \<and> responses (entries (heap s ! snd p)) = 0"
  by (simp add: g_ok_def g_open_def)

lemma g_ok_reqid_in:
  "g_ok ss s \<Longrightarrow> p \<in> set (open_by_reqid s)
   \<Longrightarrow> snd p < length (heap s) \<and> ss ! snd p = fst (fst p) \<and> reqid (heap s ! snd p) = Some (snd (fst p))
     \<and> responses (entries (heap s ! snd p)) = 0"
  by (simp add: g_ok_def g_open_def)

lemma g_ok_subset_key:
  assumes ok: "g_ok ss s" and d: "distinct (map fst d)" "set d \<subseteq> set (open_by_key s)"
  shows "g_ok ss (s\<lparr>open_by_key := d\<rparr>)"
proof -
  have "p = q" if "p \<in> set d" "q \<in> set d" "snd p = snd q" "reqid (heap s ! snd p) = None" for p q
    using g_ok_unique [OF ok] that d(2) by blast
  moreover have "\<forall>p \<in> set d. snd p < length (heap s) \<and> ss ! snd p = server_of (fst p)
      \<and> responses (entries (heap s ! snd p)) = 0"
    using g_ok_key_in [OF ok] d(2) by blast
  ultimately show ?thesis using ok d(1) by (simp add: g_ok_def g_heap_def g_open_def)
qed

lemma g_ok_del_key: "g_ok ss s \<Longrightarrow> g_ok ss (s\<lparr>open_by_key := AList.delete k (open_by_key s)\<rparr>)"
  by (rule g_ok_subset_key) (auto simp: g_ok_def g_open_def distinct_delete_keys set_delete)

lemma g_ok_subset_reqid:
  assumes ok: "g_ok ss s" and d: "set d \<subseteq> set (open_by_reqid s)"
  shows "g_ok ss (s\<lparr>open_by_reqid := d\<rparr>)"
proof -
  have "\<forall>p \<in> set d. snd p < length (heap s) \<and> ss ! snd p = fst (fst p)
      \<and> reqid (heap s ! snd p) = Some (snd (fst p)) \<and> responses (entries (heap s ! snd p)) = 0"
    using g_ok_reqid_in [OF ok] d by blast
  then show ?thesis using ok by (simp add: g_ok_def g_heap_def g_open_def)
qed

lemma g_ok_forget_id: "g_ok ss s \<Longrightarrow> g_ok ss (forget_id b s)"
  unfolding forget_id_def by (rule g_ok_subset_reqid) auto

lemma g_ok_del_recent:
  "g_ok ss s \<Longrightarrow> g_ok ss (s\<lparr>recently_closed := AList.delete k (recently_closed s)\<rparr>)"
  by (rule g_ok_recently) (auto simp: set_delete dest: g_ok_recent_in)

lemma g_ok_close:
  assumes ok: "g_ok ss s" and eq: "close_key k s = (r, s')"
  shows "g_ok ss s' \<and> heap s' = heap s \<and> pending_reqs s' = pending_reqs s
    \<and> (\<forall>b. r = Some b \<longrightarrow> b < length (heap s) \<and> ss ! b = server_of k \<and> responses (entries (heap s ! b)) = 0
          \<and> (reqid (heap s ! b) = None \<longrightarrow> unlisted b s'))"
proof (cases "map_of (open_by_key s) k")
  case None
  with ok eq show ?thesis by (auto simp: close_key_def)
next
  case (Some b)
  let ?s1 = "drop_current k (s\<lparr>open_by_key := AList.delete k (open_by_key s)\<rparr>)"
  have r: "r = Some b" and s': "s' = forget_id b ?s1" using Some eq by (auto simp: close_key_def)
  have "g_ok ss s'" unfolding s' by (intro g_ok_forget_id g_ok_drop_current g_ok_del_key ok)
  moreover have "unlisted b s'" if none: "reqid (heap s ! b) = None"
    unfolding unlisted_def
  proof (intro conjI ballI)
    fix p assume "p \<in> set (open_by_key s')"
    then have p: "p \<in> set (open_by_key s)" "fst p \<noteq> k" by (auto simp: s' set_delete)
    have "(k, b) \<in> set (open_by_key s)" using Some by (rule map_of_SomeD)
    with p none show "snd p \<noteq> b" using g_ok_unique [OF ok, of p "(k, b)"] by (metis fst_conv snd_conv)
  next
    fix p assume "p \<in> set (open_by_reqid s')"
    then show "snd p \<noteq> b" by (auto simp: s')
  qed
  ultimately show ?thesis using g_ok_key [OF ok Some] by (simp add: r s')
qed

lemma g_ok_evict_key: "g_ok ss s \<Longrightarrow> g_ok ss (evict_key k s)"
  using g_ok_close [of ss s k "fst (close_key k s)" "snd (close_key k s)"]
  by (cases "close_key k s"; cases "fst (close_key k s)") (auto simp: evict_key_def intro: g_ok_emit)

lemma g_ok_evict_reqid: "g_ok ss s \<Longrightarrow> g_ok ss (evict_reqid k s)"
proof (cases "map_of (open_by_reqid s) k")
  case (Some b)
  assume ok: "g_ok ss s"
  have "g_ok ss (s\<lparr>open_by_reqid := AList.delete k (open_by_reqid s)\<rparr>)"
    using ok by (rule g_ok_subset_reqid) (auto simp: set_delete)
  with Some g_ok_reqid [OF ok Some] show ?thesis by (simp add: evict_reqid_def g_ok_emit)
qed (simp add: evict_reqid_def)

lemma g_inv_evict_request: "g_inv s \<Longrightarrow> r \<in> set (pending_reqs s) \<or> entry_type r = Request \<Longrightarrow> g_inv (evict_request r s)"
proof -
  assume "g_inv s" and r: "r \<in> set (pending_reqs s) \<or> entry_type r = Request"
  then obtain ss where ok: "g_ok ss s" by (auto simp: g_inv_def)
  let ?s1 = "s\<lparr>pending_reqs := remove1 r (pending_reqs s)\<rparr>"
  have ok1: "g_ok ss ?s1" using ok by (intro g_ok_pending) (auto dest: g_ok_pending_requests notin_set_remove1 set_remove1_subset [THEN subsetD])
  obtain b s' where al: "alloc \<lparr>entries = [r], open_pos = stream_pos r, reqid = None\<rparr> ?s1 = (b, s')" by fastforce
  from g_ok_alloc [OF ok1 _ _ al, of "entry_server r"]
  have "g_ok (ss @ [entry_server r]) (emit b s')" by (auto intro!: g_ok_emit split: if_splits)
  then show ?thesis by (auto simp: evict_request_def al g_inv_def)
qed


lemma g_ok_fold:
  assumes "\<And>x s. x \<in> set xs \<Longrightarrow> g_ok ss s \<Longrightarrow> g_ok ss (f x s)" and "g_ok ss s"
  shows "g_ok ss (fold f xs s)"
  using assms by (induction xs arbitrary: s) auto

lemma g_inv_evict_requests:
  "g_inv s \<Longrightarrow> \<forall>r \<in> set rs. entry_type r = Request \<Longrightarrow> g_inv (fold evict_request rs s)"
  by (induction rs arbitrary: s) (auto intro: g_inv_evict_request)

lemma g_inv_evict_stale: "g_inv s \<Longrightarrow> g_inv (evict_stale gap now s)"
proof -
  assume "g_inv s"
  then obtain ss where ok: "g_ok ss s" by (auto simp: g_inv_def)
  define h where "h = now - gap"
  define s1 where "s1 = fold evict_key (map fst (filter (\<lambda>(k, b). older h (last_ts (heap s ! b))) (open_by_key s))) s"
  define s2 where "s2 = fold evict_reqid (map fst (filter (\<lambda>(k, b). older h (last_ts (heap s1 ! b))) (open_by_reqid s1))) s1"
  have "g_ok ss s1" unfolding s1_def by (rule g_ok_fold) (auto intro: g_ok_evict_key ok)
  then have ok2: "g_ok ss s2" unfolding s2_def by (rule g_ok_fold [rotated]) (auto intro: g_ok_evict_reqid)
  have "g_inv (fold evict_request (filter (\<lambda>r. older h (timestamp r)) (pending_reqs s2)) s2)"
    using ok2 by (intro g_inv_evict_requests) (auto simp: g_inv_def dest: g_ok_pending_requests)
  then show ?thesis by (simp add: evict_stale_def Let_def s1_def s2_def h_def)
qed

subsection \<open>Taking a pending request\<close>

text \<open>\<open>taken srv s r s'\<close>: the request \<open>r\<close> of server \<open>srv\<close> left the pending pool, or nothing changed.\<close>

definition taken :: "string \<Rightarrow> gstate \<Rightarrow> log_entry option \<Rightarrow> gstate \<Rightarrow> bool" where
  "taken srv s r s' \<longleftrightarrow>
     (case r of
        None \<Rightarrow> s' = s
      | Some x \<Rightarrow> entry_server x = srv
          \<and> (\<exists>ps. s' = s\<lparr>pending_reqs := ps\<rparr> \<and> mset (pending_reqs s) = add_mset x (mset ps)))"

lemma taken_pend:
  assumes "\<And>x ps. found = Some (x, ps) \<Longrightarrow> entry_server x = srv \<and> mset (pending_reqs s) = add_mset x (mset ps)"
    and "pend s found = (r, s')"
  shows "taken srv s r s'"
  using assms by (cases found) (auto simp: pend_def taken_def)

lemma taken_first:
  "pend s (pop_first P (pending_reqs s)) = (r, s') \<Longrightarrow> \<forall>x. P x \<longrightarrow> entry_server x = srv \<Longrightarrow> taken srv s r s'"
  by (erule taken_pend [rotated]) (auto dest!: pop_first_Some)

lemma taken_last:
  "pend s (pop_last P (pending_reqs s)) = (r, s') \<Longrightarrow> \<forall>x. P x \<longrightarrow> entry_server x = srv \<Longrightarrow> taken srv s r s'"
  by (erule taken_pend [rotated]) (auto dest!: pop_last_Some)

lemma taken_preferring:
  "pend s (pop_preferring Ps (pending_reqs s)) = (r, s') \<Longrightarrow> \<forall>P \<in> set Ps. \<forall>x. P x \<longrightarrow> entry_server x = srv
   \<Longrightarrow> taken srv s r s'"
  by (erule taken_pend [rotated]) (auto dest!: pop_preferring_Some)

lemma taken_None: "(None, s) = (r, s') \<Longrightarrow> taken srv s r s'"
  by (auto simp: taken_def)

lemma taken_by_reqid: "take_by_reqid rid srv s = (r, s') \<Longrightarrow> taken srv s r s'"
  by (cases rid) (auto simp: take_by_reqid_def intro: taken_None taken_first)

lemma taken_post: "take_post_request srv th u s = (r, s') \<Longrightarrow> taken srv s r s'"
  unfolding take_post_request_def Let_def by (erule taken_preferring) auto

lemma taken_by_user: "take_by_user u srv th s = (r, s') \<Longrightarrow> taken srv s r s'"
  unfolding take_by_user_def Let_def
  by (cases "truthy u") (auto intro: taken_None elim!: taken_preferring)

lemma taken_anonymous: "take_anonymous_request srv th s = (r, s') \<Longrightarrow> taken srv s r s'"
  by (cases th) (auto simp: take_anonymous_request_def intro: taken_None elim!: taken_last)

lemma taken_frame:
  "taken srv s r s' \<Longrightarrow> heap s' = heap s \<and> builders s' = builders s \<and> open_by_key s' = open_by_key s
     \<and> current_by_thread s' = current_by_thread s \<and> open_by_reqid s' = open_by_reqid s
     \<and> recently_closed s' = recently_closed s"
  by (auto simp: taken_def split: option.splits)

lemma taken_ok:
  assumes "g_ok ss s" and "taken srv s r s'"
  shows "g_ok ss s' \<and> (\<forall>x. r = Some x \<longrightarrow> entry_server x = srv \<and> entry_type x = Request)"
proof (cases r)
  case (Some x)
  with assms(2) obtain ps where s': "s' = s\<lparr>pending_reqs := ps\<rparr>" and srv: "entry_server x = srv"
    and m: "mset (pending_reqs s) = add_mset x (mset ps)" by (auto simp: taken_def)
  have "x \<in> set (pending_reqs s)" "set ps \<subseteq> set (pending_reqs s)"
    using mset_popped_subset [OF m] by auto
  then show ?thesis using assms(1) srv Some s' by (auto intro!: g_ok_pending dest: g_ok_pending_requests)
qed (use assms in \<open>simp add: taken_def\<close>)


subsection \<open>Every line keeps the invariant\<close>

lemma g_ok_close_stamped:
  assumes ok: "g_ok ss s" and eq: "close_id_builder srv rid s = (r, s')"
  shows "g_ok ss s' \<and> heap s' = heap s
    \<and> (\<forall>b. r = Some b \<longrightarrow> b < length (heap s) \<and> ss ! b = srv \<and> responses (entries (heap s ! b)) = 0 \<and> unlisted b s')"
proof (cases "map_of (open_by_reqid s) (srv, rid)")
  case None
  with ok eq show ?thesis by (auto simp: close_id_builder_def)
next
  case (Some b)
  define drop where "drop = (\<lambda>k s. drop_current k (s\<lparr>open_by_key := AList.delete k (open_by_key s)\<rparr>))"
  define ks where "ks = map fst (filter (\<lambda>(k, bb). bb = b) (open_by_key s))"
  define s1 where "s1 = s\<lparr>open_by_reqid := AList.delete (srv, rid) (open_by_reqid s)\<rparr>"
  have r: "r = Some b" and s': "s' = fold drop ks s1"
    using Some eq by (auto simp: close_id_builder_def drop_def ks_def s1_def)
  have "g_ok ss s1" unfolding s1_def using ok by (rule g_ok_subset_reqid) (auto simp: set_delete)
  then have ok': "g_ok ss s'" unfolding s' by (rule g_ok_fold [rotated]) (simp add: drop_def g_ok_drop_current g_ok_del_key)
  have frame: "heap (fold drop xs t) = heap t \<and> open_by_reqid (fold drop xs t) = open_by_reqid t
      \<and> set (open_by_key (fold drop xs t)) = {p \<in> set (open_by_key t). fst p \<notin> set xs}" for xs t
    by (induction xs arbitrary: t) (auto simp: drop_def set_delete)
  have "unlisted b s'"
    unfolding unlisted_def
  proof (intro conjI ballI)
    fix p assume "p \<in> set (open_by_key s')"
    then have p: "p \<in> set (open_by_key s)" "fst p \<notin> set ks" using frame [of ks s1] by (auto simp: s' s1_def)
    show "snd p \<noteq> b"
    proof
      assume "snd p = b"
      with p(1) have "p \<in> set (filter (\<lambda>(k, bb). bb = b) (open_by_key s))" by (simp add: case_prod_beta)
      then have "fst p \<in> set ks" by (simp only: ks_def set_map) (rule imageI)
      with p(2) show False by simp
    qed
  next
    fix p assume "p \<in> set (open_by_reqid s')"
    then have p: "p \<in> set (open_by_reqid s)" "fst p \<noteq> (srv, rid)"
      using frame [of ks s1] by (auto simp: s' s1_def set_delete)
    show "snd p \<noteq> b"
    proof
      assume "snd p = b"
      then have "fst (fst p) = srv \<and> snd (fst p) = rid"
        using g_ok_reqid_in [OF ok p(1)] g_ok_reqid [OF ok Some] by simp
      with p(2) show False by (metis prod.collapse)
    qed
  qed
  moreover have "heap s' = heap s" using frame [of ks s1] by (simp add: s' s1_def)
  ultimately show ?thesis using ok' g_ok_reqid [OF ok Some] by (simp add: r)
qed

lemma g_ok_absorb:
  assumes ok: "g_ok ss s" and b: "b < length (heap s)" "ss ! b = srv" "b \<noteq> prior"
    and prior: "prior < length (heap s)" "ss ! prior = srv" "responses (entries (heap s ! prior)) = 0"
  shows "g_ok ss (absorb b prior s)"
proof -
  have adds: "g_ok ss (fold (add_to b) es s)"
    if "\<forall>e \<in> set es. entry_server e = srv" "responses es = 0" for es
    using that ok b(1)
  proof (induction es arbitrary: s)
    case (Cons e es)
    then have "g_ok ss (add_to b e s)" by (intro g_ok_add) (auto simp: b(2) split: if_splits)
    with Cons show ?case by simp
  qed simp
  have "\<forall>e \<in> set (entries (heap s ! prior)). entry_server e = srv"
    using ok prior by (auto simp: g_ok_def g_heap_def)
  then show ?thesis using adds [of "entries (heap s ! prior)"] prior(3) by (simp add: absorb_def Let_def)
qed

lemma absorb_frame [simp]:
  "length (heap (absorb b prior s)) = length (heap s)"
  "reqid (heap (absorb b prior s) ! i) = reqid (heap s ! i)"
  "entries (heap (absorb b prior s) ! i) =
     entries (heap s ! i) @ (if i = b \<and> b < length (heap s) then entries (heap s ! prior) else [])"
  "open_by_key (absorb b prior s) = open_by_key s"
  "open_by_reqid (absorb b prior s) = open_by_reqid s"
  by (simp_all add: absorb_def Let_def)


lemma g_id_builder:
  assumes ok: "g_ok ss s" and eq: "id_builder srv rid e s = (b, s')"
  shows "\<exists>ss'. g_ok ss' s' \<and> b < length (heap s') \<and> ss' ! b = srv
    \<and> responses (entries (heap s' ! b)) = 0 \<and> reqid (heap s' ! b) = Some rid"
proof (cases "map_of (open_by_reqid s) (srv, rid)")
  case (Some b0)
  with eq g_ok_reqid [OF ok Some] ok show ?thesis by (auto simp: id_builder_def)
next
  case None
  obtain b0 s0 where al: "alloc \<lparr>entries = [], open_pos = stream_pos e, reqid = Some rid\<rparr> s = (b0, s0)" by fastforce
  note new = g_ok_alloc [OF ok _ _ al, of srv, simplified]
  have "g_ok (ss @ [srv]) (s0\<lparr>open_by_reqid := AList.update (srv, rid) b0 (open_by_reqid s0)\<rparr>)"
    using new by (intro g_ok_put_reqid) auto
  with None eq al new show ?thesis by (intro exI [of _ "ss @ [srv]"]) (auto simp: id_builder_def)
qed

lemma g_adopt_prior:
  assumes ok: "g_ok ss s" and b: "b < length (heap s)" "ss ! b = server_of key" "responses (entries (heap s ! b)) = 0"
    and rid: "reqid (heap s ! b) = Some rid"
  shows "g_ok ss (adopt_prior key b s) \<and> length (heap (adopt_prior key b s)) = length (heap s)
    \<and> responses (entries (heap (adopt_prior key b s) ! b)) = 0 \<and> reqid (heap (adopt_prior key b s) ! b) = Some rid"
proof (cases "map_of (open_by_key s) key")
  case (Some prior)
  note p = g_ok_key [OF ok Some]
  have "g_ok ss ((absorb b prior s)\<lparr>open_by_key := AList.delete key (open_by_key s)\<rparr>)" if "prior \<noteq> b"
  proof -
    have "g_ok ss (absorb b prior s)" using that p b ok by (intro g_ok_absorb) auto
    from g_ok_del_key [OF this] show ?thesis by simp
  qed
  with Some p b rid ok show ?thesis by (auto simp: adopt_prior_def)
qed (use assms in \<open>simp add: adopt_prior_def\<close>)

lemma g_open_id:
  assumes ok: "g_ok ss s" and eq: "open_id_builder srv rid e s = (b, s')"
  shows "\<exists>ss'. g_ok ss' s' \<and> b < length (heap s') \<and> ss' ! b = srv"
proof -
  define key where "key = Named srv (thread e) (opt_str (user_ctx e))"
  obtain s1 where ib: "id_builder srv rid e s = (b, s1)" and s': "s' = open_stream key b (adopt_prior key b s1)"
    using eq by (auto simp: open_id_builder_def key_def Let_def split: prod.splits)
  obtain ss1 where ok1: "g_ok ss1 s1" "b < length (heap s1)" "ss1 ! b = srv" "responses (entries (heap s1 ! b)) = 0"
    "reqid (heap s1 ! b) = Some rid" using g_id_builder [OF ok ib] by blast
  have "ss1 ! b = server_of key" using ok1(3) by (simp add: key_def)
  note a = g_adopt_prior [OF ok1(1,2) this ok1(4,5)]
  have "g_ok ss1 s'" unfolding s' using a ok1 by (intro g_ok_open_stream) (auto simp: key_def)
  with a ok1 show ?thesis unfolding s' by auto
qed

lemma g_inv_route_stamped:
  assumes inv: "g_inv s"
  shows "g_inv (route_stamped rid e s)"
proof -
  from inv obtain ss where ok: "g_ok ss s" by (auto simp: g_inv_def)
  show ?thesis
  proof (cases "entry_type e = Response")
    case False
    obtain b s1 where op: "open_id_builder (entry_server e) rid e s = (b, s1)" by fastforce
    from g_open_id [OF ok op] obtain ss' where "g_ok ss' s1" "b < length (heap s1)" "ss' ! b = entry_server e" by blast
    then have "g_ok ss' (add_to b e s1)" using False by (intro g_ok_add) auto
    with False op show ?thesis by (auto simp: route_stamped_def g_inv_def)
  next
    case True
    obtain found s1 where cl: "close_id_builder (entry_server e) rid s = (found, s1)" by fastforce
    note closed = g_ok_close_stamped [OF ok cl]
    obtain b s2 where got: "(case found of Some b \<Rightarrow> (b, s1)
        | None \<Rightarrow> alloc \<lparr>entries = [], open_pos = stream_pos e, reqid = None\<rparr> s1) = (b, s2)" by fastforce
    obtain ss2 where ok2: "g_ok ss2 s2" "b < length (heap s2)" "ss2 ! b = entry_server e"
      "responses (entries (heap s2 ! b)) = 0" "unlisted b s2"
    proof (cases found)
      case None
      with got have al: "alloc \<lparr>entries = [], open_pos = stream_pos e, reqid = None\<rparr> s1 = (b, s2)" by simp
      have "g_ok ss s1" using closed by blast
      from g_ok_alloc [OF this _ _ al, of "entry_server e"] show ?thesis
        by (intro that [of "ss @ [entry_server e]"]) auto
    next
      case (Some b')
      with got closed show ?thesis by (intro that [of ss]) auto
    qed
    let ?s3 = "emit b (add_to b e s2)"
    have ok3: "g_ok ss2 ?s3" using ok2 by (intro g_ok_emit g_ok_add_response) auto
    have "hd (entries (heap ?s3 ! b)) \<in> set (entries (heap ?s3 ! b))"
      by (intro hd_in_set) (use ok2(2) in simp)
    then have "entry_server (hd (entries (heap ?s3 ! b))) = entry_server e"
      using ok3 ok2(2,3) unfolding g_ok_def g_heap_def by auto
    then have "g_ok ss2 (remember_closed (Named (entry_server e) t u) b e ?s3)" for t u
      using ok3 ok2 by (intro g_ok_remember) auto
    with True cl got show ?thesis by (auto simp: route_stamped_def g_inv_def Let_def)
  qed
qed


lemma g_inv_route_body:
  assumes inv: "g_inv s" and ty: "entry_type e = RequestBody"
  shows "g_inv (route_body e s)"
proof -
  from inv obtain ss where ok: "g_ok ss s" by (auto simp: g_inv_def)
  define u where "u = py_or (opt_str (user_ctx e)) (entry_user e)"
  define key where "key = Named (entry_server e) (thread e) u"
  obtain c s0 where cl: "close_key key s = (c, s0)" by fastforce
  define s1 where "s1 = (case c of None \<Rightarrow> s0 | Some b \<Rightarrow> emit b s0)"
  have "g_ok ss s1" using g_ok_close [OF ok cl] by (auto simp: s1_def intro: g_ok_emit split: option.splits)
  moreover obtain req s2 where tk: "(case take_by_reqid (entry_reqid e) (entry_server e) s1 of
      (Some r, s') \<Rightarrow> (Some r, s') | (None, s') \<Rightarrow> take_post_request (entry_server e) (thread e) u s') = (req, s2)"
    by fastforce
  have "taken (entry_server e) s1 req s2"
    using tk taken_by_reqid [of "entry_reqid e" "entry_server e" s1] taken_post [of "entry_server e" "thread e" u s1 req s2]
    by (auto simp: taken_def split: prod.splits option.splits)
  ultimately have ok2: "g_ok ss s2" and req: "\<And>x. req = Some x \<Longrightarrow> entry_server x = entry_server e \<and> entry_type x = Request"
    using taken_ok by blast+
  define bl where "bl = (case req of Some r \<Rightarrow> \<lparr>entries = [r, e], open_pos = stream_pos r, reqid = None\<rparr>
      | None \<Rightarrow> \<lparr>entries = [e], open_pos = stream_pos e, reqid = None\<rparr>)"
  obtain b s3 where al: "alloc bl s2 = (b, s3)" by fastforce
  have bl: "\<forall>x \<in> set (entries bl). entry_server x = entry_server e" "responses (entries bl) = 0" "reqid bl = None"
    using req ty by (auto simp: bl_def split: option.splits)
  have new: "g_ok (ss @ [entry_server e]) s3 \<and> b < length (heap s3) \<and> (ss @ [entry_server e]) ! b = entry_server e
      \<and> entries (heap s3 ! b) = entries bl \<and> reqid (heap s3 ! b) = reqid bl \<and> unlisted b s3"
    using ok2 bl(1) _ al by (rule g_ok_alloc) (simp add: bl)
  have "g_ok (ss @ [entry_server e]) (open_stream key b s3)"
    using new bl(2) by (intro g_ok_open_stream) (auto simp: key_def unlisted_def)
  moreover have "route_body e s = open_stream key b s3"
    using cl tk al by (auto simp: route_body_def Let_def u_def [symmetric] key_def [symmetric] s1_def bl_def
        split: option.splits prod.splits)
  ultimately show ?thesis by (auto simp: g_inv_def)
qed

lemma g_open_work:
  assumes ok: "g_ok ss s" and key: "server_of key = srv" and eq: "open_work key e s = (b, s')"
  shows "g_ok (ss @ [srv]) s' \<and> b < length (heap s') \<and> (ss @ [srv]) ! b = srv"
proof -
  obtain s1 where al: "alloc \<lparr>entries = [], open_pos = stream_pos e, reqid = None\<rparr> s = (b, s1)"
    and s': "s' = s1\<lparr>open_by_key := AList.update key b (open_by_key s1)\<rparr>"
    using eq by (auto simp: open_work_def split: prod.splits)
  note new = g_ok_alloc [OF ok _ _ al, of srv, simplified]
  have "g_ok (ss @ [srv]) s'" unfolding s' using new key by (intro g_ok_put_key) (auto simp: unlisted_def)
  with new show ?thesis by (simp add: s')
qed

lemma g_rejoin:
  assumes ok: "g_ok ss s" and eq: "rejoin_late_work key e s = (r, s')"
  shows "g_ok ss s' \<and> heap s' = heap s \<and> (\<forall>b. r = Some b \<longrightarrow> b < length (heap s) \<and> ss ! b = server_of key)"
  using eq ok
  by (auto simp: rejoin_late_work_def intro: g_ok_del_recent dest: g_ok_recent split: option.splits prod.splits if_splits)

lemma g_tail_of:
  assumes ok: "g_ok ss s" and eq: "tail_of key u e s = (r, s')"
  shows "g_ok ss s' \<and> heap s' = heap s \<and> (\<forall>b. r = Some b \<longrightarrow> b < length (heap s) \<and> ss ! b = server_of key)"
  using eq g_rejoin [OF ok] ok unfolding tail_of_def by (auto split: if_splits)

lemma g_work_of_user:
  assumes ok: "g_ok ss s" and key: "server_of key = entry_server e" and eq: "work_of_user key u e s = (r, s')"
  shows "\<exists>ss'. g_ok ss' s' \<and> (case r of Inl b \<Rightarrow> b | Inr b \<Rightarrow> b) < length (heap s')
    \<and> ss' ! (case r of Inl b \<Rightarrow> b | Inr b \<Rightarrow> b) = entry_server e"
proof (cases "map_of (open_by_key s) key")
  case (Some b)
  with eq g_ok_key [OF ok Some] ok key show ?thesis
    by (intro exI [of _ ss]) (auto simp: work_of_user_def g_ok_set_current)
next
  case None
  obtain late s1 where l: "tail_of key u e s = (late, s1)" by fastforce
  note tail = g_tail_of [OF ok l]
  obtain b s2 where ow: "open_work key e s1 = (b, s2)" by fastforce
  show ?thesis
  proof (cases late)
    case (Some b')
    with eq None l tail key show ?thesis by (intro exI [of _ ss]) (auto simp: work_of_user_def)
  next
    case None2: None
    have ok1: "g_ok ss s1" using tail by blast
    from eq None l None2 ow g_open_work [OF ok1 key ow] show ?thesis
      by (intro exI [of _ "ss @ [entry_server e]"]) (auto simp: work_of_user_def g_ok_set_current)
  qed
qed

lemma g_open_anonymous:
  assumes ok: "g_ok ss s" and key: "server_of key = entry_server e" and eq: "open_anonymous key e s = (b, s')"
  shows "g_ok (ss @ [entry_server e]) s' \<and> b < length (heap s') \<and> (ss @ [entry_server e]) ! b = entry_server e"
proof -
  let ?ss = "ss @ [entry_server e]"
  obtain s1 req s2 where ow: "open_work key e s = (b, s1)"
    and tk: "take_anonymous_request (entry_server e) (thread e) (set_current key s1) = (req, s2)"
    and s': "s' = (case req of None \<Rightarrow> s2 | Some r \<Rightarrow> set_open_pos b (stream_pos r) (add_to b r s2))"
    using eq by (auto simp: open_anonymous_def split: prod.splits option.splits)
  note new = g_open_work [OF ok key ow]
  have "g_ok ?ss (set_current key s1)" using new by (simp add: g_ok_set_current)
  from taken_ok [OF this taken_anonymous [OF tk]] taken_frame [OF taken_anonymous [OF tk]] new
  show ?thesis by (auto simp: s' intro!: g_ok_add split: option.splits)
qed

lemma g_work_of_thread:
  assumes ok: "g_ok ss s" and eq: "work_of_thread i e s = (b, s')"
  shows "\<exists>ss'. g_ok ss' s' \<and> b < length (heap s') \<and> ss' ! b = entry_server e"
proof (cases "case map_of (current_by_thread s) (entry_server e, thread e) of
                None \<Rightarrow> None | Some key \<Rightarrow> map_of (open_by_key s) key")
  case None
  with eq g_open_anonymous [OF ok, of "Anon (entry_server e) (thread e) i" e b s'] show ?thesis
    by (auto simp: work_of_thread_def)
next
  case (Some b0)
  then obtain key where "map_of (current_by_thread s) (entry_server e, thread e) = Some key"
    and k: "map_of (open_by_key s) key = Some b0" by (auto split: option.splits)
  then have "slot_of key = (entry_server e, thread e)" using g_ok_current_in [OF ok] by (fastforce dest: map_of_SomeD)
  with g_ok_key [OF ok k] Some eq ok show ?thesis by (auto simp: work_of_thread_def)
qed

lemma g_bind_request:
  assumes ok: "g_ok ss s" and b: "b < length (heap s)" "ss ! b = entry_server e"
  shows "g_ok ss (bind_request b e s)"
proof -
  obtain req s1 where tk: "take_by_user (py_or (opt_str (user_ctx e)) (entry_user e)) (entry_server e) (thread e) s = (req, s1)"
    by fastforce
  from taken_ok [OF ok taken_by_user [OF tk]] taken_frame [OF taken_by_user [OF tk]] tk ok b show ?thesis
    by (auto simp: bind_request_def Let_def intro!: g_ok_add split: option.splits)
qed

lemma g_inv_route_work:
  assumes inv: "g_inv s" and ty: "entry_type e \<noteq> Response"
  shows "g_inv (route_work i e s)"
proof -
  from inv obtain ss where ok: "g_ok ss s" by (auto simp: g_inv_def)
  have added: "g_inv (bind_request b e (add_to b e s1)) \<and> g_inv (add_to b e s1)"
    if "g_ok ss' s1" "b < length (heap s1)" "ss' ! b = entry_server e" for ss' s1 b
  proof -
    have "g_ok ss' (add_to b e s1)" using that ty by (intro g_ok_add) auto
    then show ?thesis using that by (auto simp: g_inv_def intro!: exI [of _ ss'] g_bind_request)
  qed
  show ?thesis
  proof (cases "user_ctx e")
    case None
    obtain b s1 where w: "work_of_thread i e s = (b, s1)" by fastforce
    from None w g_work_of_thread [OF ok w] show ?thesis by (auto simp: route_work_def dest: added)
  next
    case (Some u)
    obtain r s1 where w: "work_of_user (Named (entry_server e) (thread e) (JStr u)) u e s = (r, s1)" by fastforce
    from Some w g_work_of_user [OF ok _ w] show ?thesis
      by (cases r) (auto simp: route_work_def dest: added)
  qed
qed


lemma response_owner_key:
  assumes "response_owner e s = OwnedBy k"
  shows "k \<in> set (map fst (open_by_key s)) \<and> server_of k = entry_server e
    \<and> \<not> is_id_builder (heap s ! the (map_of (open_by_key s) k))"
proof -
  obtain ks rs where c: "response_candidates e s = (ks, rs)" by fastforce
  from assms c have "max_by (\<lambda>k. rank_builder (heap s ! the (map_of (open_by_key s) k))) ks = Some k"
    by (auto simp: response_owner_def Let_def split: option.splits if_splits)
  then have "k \<in> set ks" by (rule max_by_in)
  with c show ?thesis by (auto simp: response_candidates_def Let_def split: if_splits)
qed

lemma response_owner_request:
  assumes "response_owner e s = Asked r"
  shows "r \<in> set (pending_reqs s) \<and> entry_server r = entry_server e"
proof -
  obtain ks rs where c: "response_candidates e s = (ks, rs)" by fastforce
  from assms c have "max_by rank_request rs = Some r"
    by (auto simp: response_owner_def Let_def split: option.splits if_splits)
  then have "r \<in> set rs" by (rule max_by_in)
  with c show ?thesis by (auto simp: response_candidates_def Let_def split: if_splits)
qed

lemma g_inv_route_response:
  assumes inv: "g_inv s" and ty: "entry_type e = Response"
  shows "g_inv (route_response e s)"
proof -
  from inv obtain ss where ok: "g_ok ss s" by (auto simp: g_inv_def)
  show ?thesis
  proof (cases "response_owner e s")
    case (OwnedBy k)
    note k = response_owner_key [OF OwnedBy]
    obtain r s1 where cl: "close_key k s = (r, s1)" by fastforce
    note closed = g_ok_close [OF ok cl]
    show ?thesis
    proof (cases r)
      case None
      with OwnedBy cl closed show ?thesis by (auto simp: route_response_def g_inv_def)
    next
      case (Some b)
      then have "map_of (open_by_key s) k = Some b" using cl by (auto simp: close_key_def split: option.splits)
      then have "unlisted b s1" using Some closed k by (auto simp: is_id_builder_def)
      then have "g_ok ss (add_to b e s1)" using Some closed k by (intro g_ok_add_response) auto
      then have "g_ok ss (remember_closed (named_of k) b e (emit b (add_to b e s1)))"
        using Some closed by (intro g_ok_remember g_ok_emit) (cases k; auto)+
      with OwnedBy cl Some show ?thesis by (auto simp: route_response_def g_inv_def)
    qed
  next
    case (Asked r)
    note r = response_owner_request [OF Asked]
    let ?s1 = "s\<lparr>pending_reqs := remove1 r (pending_reqs s)\<rparr>"
    let ?bl = "\<lparr>entries = [r, e], open_pos = stream_pos r, reqid = None\<rparr>"
    have ok1: "g_ok ss ?s1" using ok by (intro g_ok_pending) (auto dest: g_ok_pending_requests notin_set_remove1 set_remove1_subset [THEN subsetD])
    obtain b s2 where al: "alloc ?bl ?s1 = (b, s2)" by fastforce
    have "entry_type r = Request" using r ok by (auto dest: g_ok_pending_requests)
    then have new: "g_ok (ss @ [entry_server e]) s2 \<and> b < length (heap s2) \<and> (ss @ [entry_server e]) ! b = entry_server e"
      using g_ok_alloc [OF ok1 _ _ al, of "entry_server e"] r by simp
    then have "g_ok (ss @ [entry_server e]) (emit b (remember_closed (Named (entry_server e) (thread r) (req_user r)) b e s2))"
      by (intro g_ok_emit g_ok_remember) auto
    with Asked al show ?thesis by (auto simp: route_response_def g_inv_def)
  next
    case Orphan
    obtain b s1 where al: "alloc \<lparr>entries = [e], open_pos = stream_pos e, reqid = None\<rparr> s = (b, s1)" by fastforce
    from g_ok_alloc [OF ok _ _ al, of "entry_server e"] have "g_ok (ss @ [entry_server e]) (emit b s1)"
      by (auto intro!: g_ok_emit)
    with Orphan al show ?thesis by (auto simp: route_response_def g_inv_def)
  qed
qed

lemma g_inv_route: "g_inv s \<Longrightarrow> g_inv (route i e s)"
proof -
  assume inv: "g_inv s"
  show ?thesis
  proof (cases "routing_id e s")
    case (Some rid)
    with inv show ?thesis by (simp add: route_def g_inv_route_stamped)
  next
    case None
    have "g_inv (route_request e s)" if "entry_type e = Request"
    proof -
      from inv obtain ss where "g_ok ss s" by (auto simp: g_inv_def)
      then have "g_ok ss (route_request e s)" unfolding route_request_def
        using that by (intro g_ok_pending) (auto dest: g_ok_pending_requests)
      then show ?thesis by (auto simp: g_inv_def)
    qed
    with None inv show ?thesis
      by (cases "entry_type e")
        (simp_all add: route_def g_inv_route_body g_inv_route_work g_inv_route_response)
  qed
qed

lemma g_inv_evict_now: "g_inv s \<Longrightarrow> g_inv (evict_now gap e s)"
  by (auto simp: evict_now_def g_inv_evict_stale split: option.splits)

interpretation grouper: machine "group_step gap seeded" g_inv for gap seeded
  by unfold_locales (auto simp: group_step_def g_inv_route g_inv_evict_now)

lemma emit_open_frame:
  "heap (emit_open bs ids s) = heap s \<and> pending_reqs (emit_open bs ids s) = pending_reqs s
   \<and> set (builders (emit_open bs ids s)) \<subseteq> set (builders s) \<union> set bs"
proof (induction bs ids s rule: emit_open.induct)
  case (2 b bs ids s)
  show ?case
  proof (cases "reqid (heap s ! b)")
    case None
    then show ?thesis using "2.IH"(1) by auto
  next
    case (Some rid)
    then show ?thesis using "2.IH"(2,3) [OF Some] by (cases "rid \<in> set ids") auto
  qed
qed simp

definition lone :: "log_entry \<Rightarrow> builder" where
  "lone r = \<lparr>entries = [r], open_pos = stream_pos r, reqid = None\<rparr>"

lemma lone_simps [simp]: "entries (lone r) = [r]" "reqid (lone r) = None"
  by (simp_all add: lone_def)

lemma emit_lone_requests:
  "heap (fold emit_lone_request rs t) = heap t @ map lone rs
   \<and> builders (fold emit_lone_request rs t) = builders t @ [length (heap t)..<length (heap t) + length rs]"
proof (induction rs arbitrary: t)
  case (Cons r rs)
  have "[n..<n + length (r # rs)] = n # [Suc n..<Suc n + length rs]" for n
    by (simp add: upt_conv_Cons del: upt_Suc)
  with Cons show ?case by (simp add: emit_lone_request_def alloc_def lone_def del: upt_Suc)
qed simp

text \<open>What a builder of the result can look like: the two halves of the invariant that survive.\<close>

definition one_server_one_response :: "builder \<Rightarrow> bool" where
  "one_server_one_response b \<longleftrightarrow>
     (\<forall>x \<in> set (entries b). \<forall>y \<in> set (entries b). entry_server x = entry_server y) \<and> responses (entries b) \<le> 1"

lemma finish_result:
  assumes inv: "g_inv s" and b: "b \<in> set (builders (finish s))"
  shows "one_server_one_response (heap (finish s) ! b)"
proof -
  from inv obtain ss where ok: "g_ok ss s" by (auto simp: g_inv_def)
  define s1 where "s1 = emit_open (map snd (open_by_key s) @ map snd (open_by_reqid s)) [] s"
  have heap1: "heap s1 = heap s" and pend1: "pending_reqs s1 = pending_reqs s"
    and sub: "set (builders s1) \<subseteq> set (builders s) \<union> snd ` set (open_by_key s) \<union> snd ` set (open_by_reqid s)"
    using emit_open_frame [of "map snd (open_by_key s) @ map snd (open_by_reqid s)" "[]" s]
    by (auto simp: s1_def)
  have bs1: "\<forall>b \<in> set (builders s1). b < length (heap s)"
  proof
    fix b assume "b \<in> set (builders s1)"
    then consider "b \<in> set (builders s)" | p where "p \<in> set (open_by_key s)" "b = snd p"
      | p where "p \<in> set (open_by_reqid s)" "b = snd p" using sub by blast
    then show "b < length (heap s)"
      by cases (use ok g_ok_key_in [OF ok] g_ok_reqid_in [OF ok] in \<open>auto simp: g_ok_def g_heap_def\<close>)
  qed
  have fin: "heap (finish s) = heap s @ map lone (pending_reqs s)"
    and bs: "builders (finish s) = builders s1 @ [length (heap s)..<length (heap s) + length (pending_reqs s)]"
    using emit_lone_requests [of "pending_reqs s" s1] by (simp_all add: finish_def s1_def [symmetric] heap1 pend1)
  consider "b < length (heap s)" | "b \<ge> length (heap s)" "b < length (heap s) + length (pending_reqs s)"
    using b bs bs1 by fastforce
  then show ?thesis
  proof cases
    case 1
    with ok show ?thesis by (auto simp: fin nth_append one_server_one_response_def g_ok_def g_heap_def)
  next
    case 2
    then show ?thesis by (auto simp: fin nth_append one_server_one_response_def)
  qed
qed

lemma g_inv_stream: "g_inv (stream_state gap no_seed es)"
proof -
  have "g_inv init_gstate" using g_ok_init by (auto simp: g_inv_def)
  then show ?thesis unfolding stream_state_def
    by (intro grouper.run_inv) (simp add: seeded_state_def no_seed_def init_gstate_def)
qed

lemma group_result:
  assumes "b \<in> set (group_entries gap no_seed es)"
  shows "one_server_one_response b"
  using assms g_inv_stream by (auto simp: group_entries_def group_state_def Let_def intro: finish_result)

end
