(* ===== verification/GrouperConservation.thy ===== *)
theory GrouperConservation
  imports GrouperInvariant
begin

text \<open>
  Conservation: on a stream of old-format lines (none carries a stamped id) the grouper neither drops
  nor duplicates a line. \<open>lines s\<close> is the multiset of the lines the state holds; each routing step adds
  exactly the line it routes, and at the end every line is in exactly one emitted builder.
\<close>

definition lines :: "gstate \<Rightarrow> log_entry multiset" where
  "lines s = mset (concat (map entries (heap s))) + mset (pending_reqs s)"

text \<open>
  \<open>placed n m s\<close>: every builder is in exactly one slot or emitted exactly once, but for the builders
  \<open>m\<close> in hand; nothing is stamped; anonymous keys carry indices below \<open>n\<close>.
\<close>

definition placed :: "nat \<Rightarrow> nat multiset \<Rightarrow> gstate \<Rightarrow> bool" where
  "placed n m s \<longleftrightarrow>
     open_by_reqid s = []
     \<and> (\<forall>b < length (heap s). reqid (heap s ! b) = None)
     \<and> distinct (map fst (open_by_key s))
     \<and> image_mset snd (mset (open_by_key s)) + mset (builders s) + m = mset [0..<length (heap s)]
     \<and> (\<forall>p \<in> set (recently_closed s). fst (snd p) < length (heap s))
     \<and> (\<forall>k \<in> set (map fst (open_by_key s)). \<forall>srv th i. k = Anon srv th i \<longrightarrow> i < n)"

lemma placed_mono: "placed n m s \<Longrightarrow> n \<le> n' \<Longrightarrow> placed n' m s"
  by (fastforce simp: placed_def)

lemma placed_init: "placed 0 {#} init_gstate"
  by (simp add: placed_def init_gstate_def)

lemma placed_member: "placed n m s \<Longrightarrow> b \<in># image_mset snd (mset (open_by_key s)) + mset (builders s) + m \<Longrightarrow> b < length (heap s)"
  by (simp add: placed_def)

lemma placed_key: "placed n m s \<Longrightarrow> map_of (open_by_key s) k = Some b \<Longrightarrow> b < length (heap s)"
  by (rule placed_member) (auto dest!: map_of_SomeD intro: rev_image_eqI)

lemma placed_hand: "placed n (add_mset b m) s \<Longrightarrow> b < length (heap s)"
  by (erule placed_member) (metis union_iff union_single_eq_member)

lemma mset_concat_update:
  assumes "b < length h" and "entries x = entries (h ! b) @ ys"
  shows "mset (concat (map entries (h[b := x]))) = mset (concat (map entries h)) + mset ys"
proof -
  have "h = take b h @ h ! b # drop (Suc b) h" using assms(1) by (rule id_take_nth_drop)
  then have "mset (concat (map entries h)) = mset (concat (map entries (take b h))) + mset (entries (h ! b))
      + mset (concat (map entries (drop (Suc b) h)))"
    by (metis (no_types, lifting) concat.simps(2) concat_append list.simps(9) map_append mset_append union_assoc)
  moreover have "mset (concat (map entries (h[b := x]))) = mset (concat (map entries (take b h))) + mset (entries x)
      + mset (concat (map entries (drop (Suc b) h)))"
    using assms(1) by (simp add: upd_conv_take_nth_drop)
  ultimately show ?thesis using assms(2) by simp
qed

lemma lines_add_to [simp]: "b < length (heap s) \<Longrightarrow> lines (add_to b e s) = add_mset e (lines s)"
  using mset_concat_update [of b "heap s" "(heap s ! b)\<lparr>entries := entries (heap s ! b) @ [e]\<rparr>" "[e]"]
  by (simp add: lines_def add_to_def)

lemma lines_set_open_pos [simp]: "lines (set_open_pos b p s) = lines s"
proof (cases "b < length (heap s)")
  case True
  then show ?thesis
    using mset_concat_update [of b "heap s" "(heap s ! b)\<lparr>open_pos := p\<rparr>" "[]"] by (simp add: lines_def set_open_pos_def)
qed (simp add: lines_def set_open_pos_def list_update_beyond)

lemma lines_frames [simp]:
  "lines (drop_current k s) = lines s"
  "lines (set_current k s) = lines s"
  "lines (emit b s) = lines s"
  "lines (forget_id b s) = lines s"
  "lines (open_stream k b s) = lines s"
  "lines (remember_closed k b e s) = lines s"
  "lines (s\<lparr>open_by_key := d\<rparr>) = lines s"
  "lines (s\<lparr>recently_closed := r\<rparr>) = lines s"
  by (simp_all add: lines_def)

lemma placed_frames [simp]:
  "placed n m (drop_current k s) = placed n m s"
  "placed n m (set_current k s) = placed n m s"
  "placed n m (s\<lparr>pending_reqs := ps\<rparr>) = placed n m s"
  "placed n m (add_to b e s) = placed n m s"
  "placed n m (set_open_pos b p s) = placed n m s"
  by (simp_all add: placed_def)

lemma placed_forget [simp]: "placed n m s \<Longrightarrow> placed n m (forget_id b s)"
  by (simp add: placed_def)

lemma placed_emit: "placed n (add_mset b m) s \<Longrightarrow> placed n m (emit b s)"
  by (simp add: placed_def)

lemma placed_remember: "placed n m s \<Longrightarrow> b < length (heap s) \<Longrightarrow> placed n m (remember_closed k b e s)"
  by (auto simp: placed_def split: option.splits dest!: in_update)

lemma placed_alloc:
  "placed n m s \<Longrightarrow> reqid bl = None \<Longrightarrow> alloc bl s = (b, s')
   \<Longrightarrow> placed n (add_mset b m) s' \<and> lines s' = lines s + mset (entries bl) \<and> b < length (heap s')
     \<and> open_by_key s' = open_by_key s \<and> pending_reqs s' = pending_reqs s"
proof -
  assume p: "placed n m s" and none: "reqid bl = None" and "alloc bl s = (b, s')"
  then have b: "b = length (heap s)" and s': "s' = s\<lparr>heap := heap s @ [bl]\<rparr>" by (simp_all add: alloc_def)
  have "mset_set {0..<Suc (length (heap s))} = add_mset (length (heap s)) (mset_set {0..<length (heap s)})"
    by (simp add: atLeast0_lessThan_Suc)
  moreover have "\<forall>p \<in> set (recently_closed s). fst (snd p) < Suc (length (heap s))"
    using p by (auto simp: placed_def intro: less_SucI)
  ultimately have "placed n (add_mset b m) s'"
    using p none by (simp add: placed_def s' b nth_append less_Suc_eq)
  then show ?thesis by (simp add: s' b lines_def)
qed

lemma placed_close:
  assumes p: "placed n m s" and eq: "close_key k s = (r, s')"
  shows "lines s' = lines s \<and> heap s' = heap s \<and> pending_reqs s' = pending_reqs s \<and> map_of (open_by_key s') k = None
    \<and> (case r of None \<Rightarrow> s' = s | Some b \<Rightarrow> placed n (add_mset b m) s')"
proof (cases "map_of (open_by_key s) k")
  case None
  with eq show ?thesis by (auto simp: close_key_def)
next
  case (Some b)
  have d: "distinct (map fst (open_by_key s))" using p by (simp add: placed_def)
  from mset_values_delete [OF d Some]
  have "placed n (add_mset b m) (s\<lparr>open_by_key := AList.delete k (open_by_key s)\<rparr>)"
    using p by (auto simp: placed_def distinct_delete_keys set_delete image_iff)
  moreover have "r = Some b" using Some eq by (auto simp: close_key_def)
  ultimately show ?thesis using Some eq by (auto simp: close_key_def delete_conv')
qed

lemma placed_open:
  "placed n (add_mset b m) s \<Longrightarrow> map_of (open_by_key s) k = None \<Longrightarrow> (\<And>srv th i. k = Anon srv th i \<Longrightarrow> i < n)
   \<Longrightarrow> placed n m (s\<lparr>open_by_key := AList.update k b (open_by_key s)\<rparr>)"
  by (auto simp: placed_def distinct_update_keys mset_values_update_new update_keys)

lemma taken_lines:
  assumes "taken srv s r s'"
  shows "placed n m s' = placed n m s \<and> lines s = lines s' + (case r of None \<Rightarrow> {#} | Some x \<Rightarrow> {#x#})"
  using assms by (auto simp: taken_def lines_def split: option.splits)


lemma placed_evict_key: "placed n {#} s \<Longrightarrow> placed n {#} (evict_key k s) \<and> lines (evict_key k s) = lines s"
  using placed_close [of n "{#}" s k "fst (close_key k s)" "snd (close_key k s)"]
  by (cases "close_key k s"; cases "fst (close_key k s)") (auto simp: evict_key_def intro: placed_emit)

lemma placed_evict_request:
  assumes "placed n {#} s" and "r \<in># mset (pending_reqs s)"
  shows "placed n {#} (evict_request r s) \<and> lines (evict_request r s) = lines s
    \<and> mset (pending_reqs (evict_request r s)) = mset (pending_reqs s) - {#r#}"
proof -
  let ?s1 = "s\<lparr>pending_reqs := remove1 r (pending_reqs s)\<rparr>"
  obtain b s2 where al: "alloc \<lparr>entries = [r], open_pos = stream_pos r, reqid = None\<rparr> ?s1 = (b, s2)" by fastforce
  have "placed n {#} ?s1" using assms(1) by simp
  note new = placed_alloc [OF this _ al, simplified]
  have "lines ?s1 + {#r#} = lines s" using assms(2) by (simp add: lines_def)
  then show ?thesis using new al by (auto simp: evict_request_def intro: placed_emit)
qed

lemma placed_evict_requests:
  "placed n {#} s \<Longrightarrow> mset rs \<subseteq># mset (pending_reqs s)
   \<Longrightarrow> placed n {#} (fold evict_request rs s) \<and> lines (fold evict_request rs s) = lines s"
proof (induction rs arbitrary: s)
  case (Cons r rs)
  have r: "r \<in># mset (pending_reqs s)" using Cons.prems(2) by (auto dest: mset_subset_eqD)
  note step = placed_evict_request [OF Cons.prems(1) r]
  have "mset rs \<subseteq># mset (pending_reqs (evict_request r s))"
    using step Cons.prems(2) by (simp add: insert_subset_eq_iff)
  with step Cons.IH [of "evict_request r s"] show ?case by simp
qed simp

lemma placed_evict_stale:
  assumes "placed n {#} s"
  shows "placed n {#} (evict_stale gap now s) \<and> lines (evict_stale gap now s) = lines s"
proof -
  define h where "h = now - gap"
  have keys: "placed n {#} (fold evict_key ks s) \<and> lines (fold evict_key ks s) = lines s" for ks
    using assms
  proof (induction ks arbitrary: s)
    case (Cons k ks)
    from placed_evict_key [OF Cons.prems, of k] Cons.IH [of "evict_key k s"] show ?case by simp
  qed simp
  define s1 where "s1 = fold evict_key (map fst (filter (\<lambda>(k, b). older h (last_ts (heap s ! b))) (open_by_key s))) s"
  have s1: "placed n {#} s1 \<and> lines s1 = lines s" using keys by (simp add: s1_def)
  then have "open_by_reqid s1 = []" by (simp add: placed_def)
  then have "evict_stale gap now s = fold evict_request (filter (\<lambda>r. older h (timestamp r)) (pending_reqs s1)) s1"
    by (simp add: evict_stale_def Let_def s1_def h_def)
  moreover have "mset (filter (\<lambda>r. older h (timestamp r)) (pending_reqs s1)) \<subseteq># mset (pending_reqs s1)"
    by (simp add: multiset_filter_subset)
  ultimately show ?thesis using placed_evict_requests [of n s1] s1 by simp
qed

subsection \<open>Each line adds itself, once\<close>

definition adds :: "nat \<Rightarrow> log_entry \<Rightarrow> gstate \<Rightarrow> gstate \<Rightarrow> bool" where
  "adds n e s s' \<longleftrightarrow> placed n {#} s' \<and> lines s' = add_mset e (lines s)"

lemma adds_body:
  assumes p: "placed n {#} s"
  shows "adds n e s (route_body e s)"
proof -
  define u where "u = py_or (opt_str (user_ctx e)) (entry_user e)"
  define key where "key = Named (entry_server e) (thread e) u"
  obtain c s0 where cl: "close_key key s = (c, s0)" by fastforce
  define s1 where "s1 = (case c of None \<Rightarrow> s0 | Some b \<Rightarrow> emit b s0)"
  have s1: "placed n {#} s1 \<and> lines s1 = lines s \<and> map_of (open_by_key s1) key = None"
    using placed_close [OF p cl] p by (auto simp: s1_def intro: placed_emit split: option.splits)
  obtain req s2 where tk: "(case take_by_reqid (entry_reqid e) (entry_server e) s1 of
      (Some r, s') \<Rightarrow> (Some r, s') | (None, s') \<Rightarrow> take_post_request (entry_server e) (thread e) u s') = (req, s2)"
    by fastforce
  have taken: "taken (entry_server e) s1 req s2"
    using tk taken_by_reqid [of "entry_reqid e" "entry_server e" s1] taken_post [of "entry_server e" "thread e" u s1 req s2]
    by (auto simp: taken_def split: prod.splits option.splits)
  note t = taken_lines [OF taken, of n "{#}"] taken_frame [OF taken]
  define bl where "bl = (case req of Some r \<Rightarrow> \<lparr>entries = [r, e], open_pos = stream_pos r, reqid = None\<rparr>
      | None \<Rightarrow> \<lparr>entries = [e], open_pos = stream_pos e, reqid = None\<rparr>)"
  have bl: "reqid bl = None" "mset (entries bl) = add_mset e (case req of None \<Rightarrow> {#} | Some x \<Rightarrow> {#x#})"
    by (auto simp: bl_def split: option.splits)
  obtain b s3 where al: "alloc bl s2 = (b, s3)" by fastforce
  have "placed n {#} s2" using t s1 by simp
  note new = placed_alloc [OF this bl(1) al]
  have "placed n {#} (open_stream key b s3)"
  proof -
    have "open_stream key b s3 = set_current key (s3\<lparr>open_by_key := AList.update key b (open_by_key s3)\<rparr>)"
      by (simp add: open_stream_def set_current_def)
    moreover have "placed n {#} (s3\<lparr>open_by_key := AList.update key b (open_by_key s3)\<rparr>)"
      using new t s1 by (intro placed_open) (auto simp: key_def)
    ultimately show ?thesis by simp
  qed
  moreover have "lines s3 = add_mset e (lines s)" using new t s1 bl(2) by (simp add: ac_simps)
  moreover have "route_body e s = open_stream key b s3"
    using cl tk al by (auto simp: route_body_def Let_def u_def [symmetric] key_def [symmetric] s1_def bl_def
        split: option.splits prod.splits)
  ultimately show ?thesis by (simp add: adds_def)
qed

lemma placed_open_work:
  assumes p: "placed n {#} s" and "map_of (open_by_key s) key = None"
    and "\<And>srv th i. key = Anon srv th i \<Longrightarrow> i < n" and eq: "open_work key e s = (b, s')"
  shows "placed n {#} s' \<and> lines s' = lines s \<and> b < length (heap s') \<and> pending_reqs s' = pending_reqs s"
proof -
  obtain s1 where al: "alloc \<lparr>entries = [], open_pos = stream_pos e, reqid = None\<rparr> s = (b, s1)"
    and s': "s' = s1\<lparr>open_by_key := AList.update key b (open_by_key s1)\<rparr>"
    using eq by (auto simp: open_work_def split: prod.splits)
  note new = placed_alloc [OF p _ al, simplified]
  have "placed n {#} s'" unfolding s' by (intro placed_open) (use new assms in auto)
  with new show ?thesis by (simp add: s')
qed

lemma placed_tail_of:
  assumes p: "placed n {#} s" and eq: "tail_of key u e s = (r, s')"
  shows "placed n {#} s' \<and> lines s' = lines s \<and> open_by_key s' = open_by_key s \<and> (\<forall>b. r = Some b \<longrightarrow> b < length (heap s'))"
proof -
  have "placed n {#} (s\<lparr>recently_closed := AList.delete key (recently_closed s)\<rparr>)"
    using p by (auto simp: placed_def set_delete)
  moreover have "b < length (heap s)" if "map_of (recently_closed s) key = Some (b, t)" for b t
    using p map_of_SomeD [OF that] by (fastforce simp: placed_def)
  ultimately show ?thesis using eq p
    by (auto simp: tail_of_def rejoin_late_work_def split: if_splits option.splits prod.splits)
qed

lemma adds_bind:
  assumes p: "placed n {#} s" and b: "b < length (heap s)"
  shows "placed n {#} (bind_request b e s) \<and> lines (bind_request b e s) = lines s"
proof -
  obtain req s1 where tk: "take_by_user (py_or (opt_str (user_ctx e)) (entry_user e)) (entry_server e) (thread e) s = (req, s1)"
    by fastforce
  from taken_lines [OF taken_by_user [OF tk], of n "{#}"] taken_frame [OF taken_by_user [OF tk]] tk p b show ?thesis
    by (auto simp: bind_request_def Let_def split: option.splits)
qed

lemma adds_work:
  assumes fresh: "placed i {#} s"
  shows "adds (Suc i) e s (route_work i e s)"
proof -
  define n where "n = Suc i"
  have p: "placed n {#} s" using fresh by (rule placed_mono) (simp add: n_def)
  have added: "adds n e s (bind_request b e (add_to b e s1))" "adds n e s (add_to b e s1)"
    if "placed n {#} s1" "lines s1 = lines s" "b < length (heap s1)" for s1 b
    using that adds_bind [of n "add_to b e s1" b e] by (simp_all add: adds_def)
  show ?thesis
  proof (cases "user_ctx e")
    case (Some u)
    define key where "key = Named (entry_server e) (thread e) (JStr u)"
    obtain r s1 where w: "work_of_user key u e s = (r, s1)" by fastforce
    have "placed n {#} s1 \<and> lines s1 = lines s \<and> (case r of Inl b \<Rightarrow> b | Inr b \<Rightarrow> b) < length (heap s1)"
    proof (cases "map_of (open_by_key s) key")
      case (Some b)
      with w p placed_key [OF p Some] show ?thesis by (auto simp: work_of_user_def)
    next
      case None
      obtain late s2 where l: "tail_of key u e s = (late, s2)" by fastforce
      obtain b s3 where ow: "open_work key e s2 = (b, s3)" by fastforce
      note tail = placed_tail_of [OF p l]
      have "placed n {#} s3 \<and> lines s3 = lines s2 \<and> b < length (heap s3) \<and> pending_reqs s3 = pending_reqs s2"
        by (rule placed_open_work [OF _ _ _ ow]) (use tail None in \<open>auto simp: key_def\<close>)
      with w None l ow tail show ?thesis by (auto simp: work_of_user_def split: option.splits)
    qed
    with Some w show ?thesis by (cases r) (auto simp: route_work_def key_def added n_def [symmetric])
  next
    case None
    obtain b s1 where w: "work_of_thread i e s = (b, s1)" by fastforce
    have "placed n {#} s1 \<and> lines s1 = lines s \<and> b < length (heap s1)"
    proof (cases "case map_of (current_by_thread s) (entry_server e, thread e) of
                None \<Rightarrow> None | Some key \<Rightarrow> map_of (open_by_key s) key")
      case (Some b0)
      with w p show ?thesis by (auto simp: work_of_thread_def dest: placed_key split: option.splits)
    next
      case None2: None
      define key where "key = Anon (entry_server e) (thread e) i"
      have "key \<notin> set (map fst (open_by_key s))" using fresh by (fastforce simp: placed_def key_def)
      then have none: "map_of (open_by_key s) key = None" by (simp add: map_of_eq_None_iff)
      obtain s2 req s3 where ow: "open_work key e s = (b, s2)"
        and tk: "take_anonymous_request (entry_server e) (thread e) (set_current key s2) = (req, s3)"
        and s1: "s1 = (case req of None \<Rightarrow> s3 | Some r \<Rightarrow> set_open_pos b (stream_pos r) (add_to b r s3))"
        using w None2 by (auto simp: work_of_thread_def open_anonymous_def key_def split: prod.splits option.splits)
      have opened: "placed n {#} s2 \<and> lines s2 = lines s \<and> b < length (heap s2) \<and> pending_reqs s2 = pending_reqs s"
        by (rule placed_open_work [OF p none _ ow]) (simp add: key_def n_def)
      with taken_lines [OF taken_anonymous [OF tk], of n "{#}"] taken_frame [OF taken_anonymous [OF tk]]
      show ?thesis by (auto simp: s1 split: option.splits)
    qed
    with None w show ?thesis by (auto simp: route_work_def added n_def [symmetric])
  qed
qed

lemma adds_response:
  assumes p: "placed n {#} s"
  shows "adds n e s (route_response e s)"
proof (cases "response_owner e s")
  case (OwnedBy k)
  obtain r s1 where cl: "close_key k s = (r, s1)" by fastforce
  note closed = placed_close [OF p cl]
  have "k \<in> set (map fst (open_by_key s))" using response_owner_key [OF OwnedBy] by blast
  then obtain b where "map_of (open_by_key s) k = Some b" by (metis map_of_eq_None_iff not_None_eq set_map)
  then have r: "r = Some b" using cl by (auto simp: close_key_def)
  then have "placed n {#b#} s1" "b < length (heap s1)" using closed by (auto dest: placed_hand)
  then have "placed n {#} (emit b (add_to b e s1))" by (intro placed_emit) simp
  then show ?thesis using closed r cl OwnedBy \<open>b < length (heap s1)\<close>
    by (auto simp: route_response_def adds_def intro!: placed_remember)
next
  case (Asked r)
  have r: "r \<in> set (pending_reqs s)" using response_owner_request [OF Asked] by blast
  let ?s1 = "s\<lparr>pending_reqs := remove1 r (pending_reqs s)\<rparr>"
  obtain b s2 where al: "alloc \<lparr>entries = [r, e], open_pos = stream_pos r, reqid = None\<rparr> ?s1 = (b, s2)" by fastforce
  have "placed n {#} ?s1" using p by simp
  note new = placed_alloc [OF this _ al, simplified]
  have "lines ?s1 + {#r#} = lines s" using r by (simp add: lines_def)
  then have "lines s2 = add_mset e (lines s)" using new by simp
  then show ?thesis using Asked al new
    by (auto simp: route_response_def adds_def intro!: placed_emit placed_remember)
next
  case Orphan
  obtain b s1 where al: "alloc \<lparr>entries = [e], open_pos = stream_pos e, reqid = None\<rparr> s = (b, s1)" by fastforce
  from placed_alloc [OF p _ al] Orphan al show ?thesis
    by (auto simp: route_response_def adds_def intro!: placed_emit)
qed

lemma adds_route:
  assumes p: "placed i {#} s" and un: "stamped_reqid e = None"
  shows "adds (Suc i) e s (route i e s)"
proof -
  have "open_by_reqid s = []" using p by (simp add: placed_def)
  then have none: "routing_id e s = None" using un by (simp add: routing_id_def split: option.splits)
  have p': "placed (Suc i) {#} s" using p by (rule placed_mono) simp
  show ?thesis
    using adds_body [OF p', of e] adds_response [OF p', of e] adds_work [OF p, of e] p' none
    by (cases "entry_type e") (simp_all add: route_def route_request_def adds_def lines_def)
qed

lemma adds_step:
  assumes p: "placed i {#} s" and un: "stamped_reqid e = None"
  shows "adds (Suc i) e s (group_step gap [] (i, e) s)"
proof -
  have "placed i {#} (evict_now gap e s) \<and> lines (evict_now gap e s) = lines s"
    using placed_evict_stale [OF p] p by (auto simp: evict_now_def split: option.splits)
  then show ?thesis using adds_route [of i "evict_now gap e s" e] un by (simp add: group_step_def adds_def)
qed

lemma adds_stream:
  "placed i {#} s \<Longrightarrow> \<forall>e \<in> set es. stamped_reqid e = None
   \<Longrightarrow> (\<exists>n. placed n {#} (fold (group_step gap []) (enumerate i es) s))
     \<and> lines (fold (group_step gap []) (enumerate i es) s) = lines s + mset es"
proof (induction es arbitrary: i s)
  case (Cons e es)
  have "adds (Suc i) e s (group_step gap [] (i, e) s)" using Cons.prems by (intro adds_step) auto
  with Cons.IH [of "Suc i" "group_step gap [] (i, e) s"] Cons.prems show ?case by (simp add: adds_def)
qed auto

lemma emit_open_unstamped:
  "\<forall>b \<in> set bs. reqid (heap s ! b) = None \<Longrightarrow> emit_open bs ids s = s\<lparr>builders := builders s @ bs\<rparr>"
  by (induction bs arbitrary: s) (simp_all add: emit_def)

lemma finish_lines:
  assumes p: "placed n {#} s"
  shows "mset (concat (map (\<lambda>b. entries (heap (finish s) ! b)) (builders (finish s)))) = lines s"
proof -
  define s1 where "s1 = emit_open (map snd (open_by_key s) @ map snd (open_by_reqid s)) [] s"
  have none: "open_by_reqid s = []" using p by (simp add: placed_def)
  have "b < length (heap s)" if "b \<in> snd ` set (open_by_key s)" for b
    using that by (intro placed_member [OF p]) auto
  then have "\<forall>b \<in> set (map snd (open_by_key s)). reqid (heap s ! b) = None"
    using p unfolding placed_def by (metis set_map)
  then have s1: "s1 = s\<lparr>builders := builders s @ map snd (open_by_key s)\<rparr>"
    by (simp add: s1_def none emit_open_unstamped)
  let ?h = "heap s @ map lone (pending_reqs s)" and ?n = "length (heap s)" and ?k = "length (pending_reqs s)"
  have fin: "heap (finish s) = ?h" "builders (finish s) = builders s @ map snd (open_by_key s) @ [?n..<?n + ?k]"
    using emit_lone_requests [of "pending_reqs s" s1] by (simp_all add: finish_def s1_def [symmetric] s1)
  have "mset (builders (finish s)) = mset [0..<?n] + mset [?n..<?n + ?k]"
    using p unfolding fin placed_def by (simp add: ac_simps)
  also have "\<dots> = mset [0..<length ?h]"
    by (metis le_add1 length_append length_map mset_append upt_add_eq_append zero_le)
  finally have "mset (map (\<lambda>b. entries (?h ! b)) (builders (finish s))) = mset (map (\<lambda>b. entries (?h ! b)) [0..<length ?h])"
    by (metis mset_map)
  also have "map (\<lambda>b. entries (?h ! b)) [0..<length ?h] = map entries ?h"
    by (rule nth_equalityI) (auto simp del: map_append)
  finally have "mset (map (\<lambda>b. entries (?h ! b)) (builders (finish s))) = mset (map entries ?h)" .
  then have "mset (concat (map (\<lambda>b. entries (?h ! b)) (builders (finish s)))) = mset (concat (map entries ?h))"
    by (rule mset_concat_cong)
  moreover have "mset (concat (map entries (map lone (pending_reqs s)))) = mset (pending_reqs s)"
    by (simp add: comp_def)
  ultimately show ?thesis by (simp add: fin lines_def)
qed

lemma group_lines:
  assumes "\<forall>e \<in> set es. stamped_reqid e = None"
  shows "mset (concat (map entries (group_entries gap no_seed es))) = mset es"
proof -
  have s0: "seeded_state no_seed = init_gstate" "seeded_ids no_seed = []"
    by (simp_all add: seeded_state_def no_seed_def init_gstate_def seeded_ids_def)
  from adds_stream [OF placed_init assms, of gap] obtain n where
    p: "placed n {#} (fold (group_step gap []) (enumerate 0 es) init_gstate)"
    and l: "lines (fold (group_step gap []) (enumerate 0 es) init_gstate) = mset es"
    by (auto simp: lines_def init_gstate_def)
  from finish_lines [OF p] l show ?thesis
    by (simp add: group_entries_def group_state_def stream_state_def s0 Let_def comp_def)
qed

end
