(* ===== verification/Samples.thy ===== *)
theory Samples
  imports Entries
begin

text \<open>Concrete log lines on which the witnesses of the development evaluate the model.\<close>

definition sample_line ::
    "nat \<Rightarrow> entry_type \<Rightarrow> instant \<Rightarrow> string \<Rightarrow> string option \<Rightarrow> (string \<times> json) list \<Rightarrow> log_entry" where
  "sample_line i ty t th user kvs =
     \<lparr>entry_id = i, job_id = 1, customer_code = ''BID'', entry_hash = Some (''h'' @ nat_str i),
      source_file = ''BEC01/log.txt'', line_number = Some (int i), timestamp = Some (seconds t),
      level = Some ''INFO'', thread = Some th, user_ctx = user, entry_type = ty, result_status = None,
      message = None, entry_fields = kvs\<rparr>"

definition stamp :: "string \<Rightarrow> (string \<times> json) list" where
  "stamp rid = [(''reqid'', JStr rid)]"

end
