(* ===== verification/GrouperProperties.thy ===== *)
theory GrouperProperties
  imports GrouperConservation Samples
begin

text \<open>
  What the grouper (\<open>_group\<close>, theory Grouper) guarantees of the conversations it emits, and two inputs on
  which it does not do what its docstring promises.
\<close>

subsection \<open>Sample streams\<close>

definition two_users :: "log_entry list" where
  "two_users =
     [sample_line 1 Request 0 ''7'' (Some ''ANN'') [],
      sample_line 2 Request 1 ''8'' (Some ''BOB'') [],
      sample_line 3 RequestBody 2 ''7'' (Some ''ANN'') [],
      sample_line 4 RequestBody 3 ''8'' (Some ''BOB'') [],
      sample_line 5 MiCall 4 ''7'' (Some ''ANN'') [],
      sample_line 6 MiResult 5 ''7'' (Some ''ANN'') [],
      sample_line 7 Response 6 ''9'' (Some ''ANN'') [],
      sample_line 8 Response 7 ''9'' (Some ''BOB'') []]"

lemma two_users_grouped:
  "map entries (group_entries (seconds 600) no_seed two_users) =
     [map ((!) two_users) [0, 2, 4, 5, 6], map ((!) two_users) [1, 3, 7]]"
  by code_simp

lemma two_users_result:
  obtains b c where "group_entries (seconds 600) no_seed two_users = [b, c]"
    and "entries b = map ((!) two_users) [0, 2, 4, 5, 6]" and "entries c = map ((!) two_users) [1, 3, 7]"
  using two_users_grouped by (auto simp: map_eq_Cons_conv simp del: list.map)

subsection \<open>Eviction\<close>

lemma fold_evict_keys:
  "open_by_key (fold evict_key ks s) = fold AList.delete ks (open_by_key s) \<and> heap (fold evict_key ks s) = heap s
   \<and> pending_reqs (fold evict_key ks s) = pending_reqs s"
proof (induction ks arbitrary: s)
  case (Cons k ks)
  have "open_by_key (evict_key k s) = AList.delete k (open_by_key s) \<and> heap (evict_key k s) = heap s
      \<and> pending_reqs (evict_key k s) = pending_reqs s"
  proof (cases "map_of (open_by_key s) k")
    case None
    then have "AList.delete k (open_by_key s) = open_by_key s" by (intro delete_id) (simp add: map_of_eq_None_iff)
    with None show ?thesis by (simp add: evict_key_def close_key_def)
  next
    case (Some b)
    then show ?thesis by (simp add: evict_key_def close_key_def)
  qed
  with Cons.IH [of "evict_key k s"] show ?case by simp
qed simp

lemma fold_evict_reqids:
  "open_by_reqid (fold evict_reqid ks s) = fold AList.delete ks (open_by_reqid s) \<and> heap (fold evict_reqid ks s) = heap s
   \<and> pending_reqs (fold evict_reqid ks s) = pending_reqs s \<and> open_by_key (fold evict_reqid ks s) = open_by_key s"
proof (induction ks arbitrary: s)
  case (Cons k ks)
  have "open_by_reqid (evict_reqid k s) = AList.delete k (open_by_reqid s) \<and> heap (evict_reqid k s) = heap s
      \<and> pending_reqs (evict_reqid k s) = pending_reqs s \<and> open_by_key (evict_reqid k s) = open_by_key s"
  proof (cases "map_of (open_by_reqid s) k")
    case None
    then have "AList.delete k (open_by_reqid s) = open_by_reqid s" by (intro delete_id) (simp add: map_of_eq_None_iff)
    with None show ?thesis by (simp add: evict_reqid_def)
  next
    case (Some b)
    then show ?thesis by (simp add: evict_reqid_def)
  qed
  with Cons.IH [of "evict_reqid k s"] show ?case by simp
qed simp

lemma fold_evict_requests:
  "open_by_key (fold evict_request rs s) = open_by_key s \<and> open_by_reqid (fold evict_request rs s) = open_by_reqid s
   \<and> heap (fold evict_request rs s) = heap s @ map lone rs \<and> pending_reqs (fold evict_request rs s) = fold remove1 rs (pending_reqs s)"
  by (induction rs arbitrary: s) (simp_all add: evict_request_def alloc_def lone_def)

lemma set_fold_delete: "set (fold AList.delete ks d) = {p \<in> set d. fst p \<notin> set ks}"
  by (induction ks arbitrary: d) (auto simp: set_delete)

lemma mset_fold_remove1: "mset (fold remove1 rs xs) = mset xs - mset rs"
  by (induction rs arbitrary: xs) simp_all

lemma mset_rest: "mset xs - mset (filter P xs) = mset (filter (\<lambda>x. \<not> P x) xs)"
  by (metis add_diff_cancel_left' mset_filter multiset_partition)

lemma fst_filter_distinct:
  "distinct (map fst d) \<Longrightarrow> {p \<in> set d. fst p \<notin> set (map fst (filter Q d))} = {p \<in> set d. \<not> Q p}"
  by (force simp: distinct_map inj_on_def)

text \<open>Once a line's instant is known, \<open>evict_stale\<close> keeps exactly what was heard from within the gap.\<close>

lemma evict_keeps:
  assumes d: "distinct (map fst (open_by_key s))"
  shows "set (open_by_key (evict_stale gap now s)) = {p \<in> set (open_by_key s). \<not> older (now - gap) (last_ts (heap s ! snd p))}"
    and "mset (pending_reqs (evict_stale gap now s)) = mset (filter (\<lambda>r. \<not> older (now - gap) (timestamp r)) (pending_reqs s))"
proof -
  define h where "h = now - gap"
  define ks where "ks = map fst (filter (\<lambda>(k, b). older h (last_ts (heap s ! b))) (open_by_key s))"
  define s1 where "s1 = fold evict_key ks s"
  define is' where "is' = map fst (filter (\<lambda>(k, b). older h (last_ts (heap s1 ! b))) (open_by_reqid s1))"
  define s2 where "s2 = fold evict_reqid is' s1"
  have ev: "evict_stale gap now s = fold evict_request (filter (\<lambda>r. older h (timestamp r)) (pending_reqs s2)) s2"
    by (simp add: evict_stale_def Let_def h_def [symmetric] ks_def [symmetric] s1_def [symmetric] is'_def [symmetric] s2_def)
  have s2: "open_by_key s2 = fold AList.delete ks (open_by_key s)" "heap s2 = heap s" "pending_reqs s2 = pending_reqs s"
    by (simp_all add: s2_def s1_def fold_evict_reqids fold_evict_keys)
  have "set (open_by_key s2) = {p \<in> set (open_by_key s). \<not> (\<lambda>(k, b). older h (last_ts (heap s ! b))) p}"
    unfolding s2 set_fold_delete ks_def using fst_filter_distinct [OF d] .
  then show "set (open_by_key (evict_stale gap now s)) = {p \<in> set (open_by_key s). \<not> older (now - gap) (last_ts (heap s ! snd p))}"
    by (simp add: ev fold_evict_requests h_def split_beta)
  show "mset (pending_reqs (evict_stale gap now s)) = mset (filter (\<lambda>r. \<not> older (now - gap) (timestamp r)) (pending_reqs s))"
    by (simp add: ev fold_evict_requests mset_fold_remove1 s2 h_def mset_rest del: mset_filter)
qed

subsection \<open>Choosing the conversation a response closes\<close>

abbreviation builder_at :: "gstate \<Rightarrow> skey \<Rightarrow> builder" where
  "builder_at s k \<equiv> heap s ! the (map_of (open_by_key s) k)"

text \<open>What waits for a response on its server: open conversations that carry no id, and requests nobody picked up. Where its
  own user has some of either, only these are rivals for it, otherwise all of them are.\<close>

definition server_conversations :: "log_entry \<Rightarrow> gstate \<Rightarrow> skey list" where
  "server_conversations e s = filter (\<lambda>k. server_of k = entry_server e \<and> \<not> is_id_builder (builder_at s k)) (map fst (open_by_key s))"

definition server_requests :: "log_entry \<Rightarrow> gstate \<Rightarrow> log_entry list" where
  "server_requests e s = filter (\<lambda>r. entry_server r = entry_server e) (pending_reqs s)"

definition own_user_waits :: "log_entry \<Rightarrow> gstate \<Rightarrow> bool" where
  "own_user_waits e s \<longleftrightarrow> list_ex (\<lambda>k. txn_user (builder_at s k) = opt_str (user_ctx e)) (server_conversations e s)
     \<or> list_ex (\<lambda>r. req_user r = opt_str (user_ctx e)) (server_requests e s)"

definition rivals :: "log_entry \<Rightarrow> gstate \<Rightarrow> skey list \<times> log_entry list" where
  "rivals e s =
     (filter (\<lambda>k. own_user_waits e s \<longrightarrow> txn_user (builder_at s k) = opt_str (user_ctx e)) (server_conversations e s),
      filter (\<lambda>r. own_user_waits e s \<longrightarrow> req_user r = opt_str (user_ctx e)) (server_requests e s))"

text \<open>The code asks the rivals that do not wait for an M3 answer, and all of them only when there is nothing else.\<close>

lemma candidates_are_rivals:
  assumes "rivals e s = (ks, rs)"
  shows "response_candidates e s =
    (if filter (\<lambda>k. \<not> awaiting_m3 (builder_at s k)) ks \<noteq> [] \<or> rs \<noteq> [] then filter (\<lambda>k. \<not> awaiting_m3 (builder_at s k)) ks else ks, rs)"
proof -
  let ?mine = "filter (\<lambda>k. txn_user (builder_at s k) = opt_str (user_ctx e)) (server_conversations e s)"
  let ?asks = "filter (\<lambda>r. req_user r = opt_str (user_ctx e)) (server_requests e s)"
  have none: "own_user_waits e s \<longleftrightarrow> \<not> (?mine = [] \<and> ?asks = [])"
    by (auto simp: own_user_waits_def filter_empty_conv list_ex_iff)
  have "(if ?mine = [] \<and> ?asks = [] then (server_conversations e s, server_requests e s) else (?mine, ?asks)) = (ks, rs)"
    using assms none by (cases "own_user_waits e s") (auto simp: rivals_def)
  then show ?thesis
    unfolding response_candidates_def Let_def server_conversations_def [symmetric] server_requests_def [symmetric] by simp
qed

text \<open>The verdict of two best candidates.\<close>

lemma response_owner_best:
  assumes "response_candidates e s = (ks, rs)"
  shows "case response_owner e s of
     OwnedBy k \<Rightarrow> k \<in> set ks \<and> (\<forall>k' \<in> set ks. rank_builder (builder_at s k') \<le> rank_builder (builder_at s k))
       \<and> (\<forall>r \<in> set rs. rank_request r \<le> rank_builder (builder_at s k))
   | Asked r \<Rightarrow> r \<in> set rs \<and> (\<forall>r' \<in> set rs. rank_request r' \<le> rank_request r)
       \<and> (\<forall>k \<in> set ks. rank_builder (builder_at s k) < rank_request r)
   | Orphan \<Rightarrow> ks = [] \<and> rs = []"
proof -
  let ?b = "max_by (\<lambda>k. rank_builder (builder_at s k)) ks" and ?q = "max_by rank_request rs"
  have owner: "response_owner e s = (case (?b, ?q) of
           (Some k, None) \<Rightarrow> OwnedBy k
         | (Some k, Some r) \<Rightarrow> (if rank_request r \<le> rank_builder (builder_at s k) then OwnedBy k else Asked r)
         | (None, Some r) \<Rightarrow> Asked r
         | (None, None) \<Rightarrow> Orphan)"
    by (simp add: response_owner_def assms Let_def)
  have b: "k \<in> set ks \<and> (\<forall>k' \<in> set ks. rank_builder (builder_at s k') \<le> rank_builder (builder_at s k))" if "?b = Some k" for k
    using max_by_in [OF that] max_by_ge [OF that] by blast
  have q: "r \<in> set rs \<and> (\<forall>r' \<in> set rs. rank_request r' \<le> rank_request r)" if "?q = Some r" for r
    using max_by_in [OF that] max_by_ge [OF that] by blast
  show ?thesis
  proof (cases ?b)
    case None
    then show ?thesis using q by (cases ?q) (auto simp: owner)
  next
    case (Some k)
    note k = b [OF Some]
    show ?thesis
    proof (cases ?q)
      case None
      then show ?thesis using k Some by (auto simp: owner)
    next
      case (Some r)
      note r = q [OF Some]
      show ?thesis
      proof (cases "rank_request r \<le> rank_builder (builder_at s k)")
        case True
        then show ?thesis using k r \<open>?b = Some k\<close> Some by (auto simp: owner intro: order.trans)
      next
        case False
        then show ?thesis using k r \<open>?b = Some k\<close> Some by (auto simp: owner not_le intro: order.strict_trans1)
      qed
    qed
  qed
qed

subsection \<open>Properties\<close>

lemma stream_keys_distinct: "distinct (map fst (open_by_key (stream_state gap no_seed es)))"
  using g_inv_stream [of gap es] by (auto simp: g_inv_def g_ok_def g_open_def)

text \<open>C3: no conversation mixes the lines of two servers, whatever the stream: all the lines of an emitted
  builder were written by one server.\<close>

theorem conversation_on_one_server:
  assumes "b \<in> set (group_entries gap no_seed es)" and "x \<in> set (entries b)" and "y \<in> set (entries b)"
  shows "entry_server x = entry_server y"
  using group_result [OF assms(1)] assms(2,3) unfolding one_server_one_response_def by blast

lemma conversation_on_one_server_witness:
  "entry_server (two_users ! 0) = entry_server (two_users ! 6)"
proof -
  obtain b c where r: "group_entries (seconds 600) no_seed two_users = [b, c]"
    and "entries b = map ((!) two_users) [0, 2, 4, 5, 6]" by (rule two_users_result)
  then show ?thesis by (intro conversation_on_one_server [of b "seconds 600" two_users]) simp_all
qed

text \<open>C19: no conversation holds two responses: an emitted builder has at most one.\<close>

theorem conversation_has_one_response:
  assumes "b \<in> set (group_entries gap no_seed es)"
  shows "length (filter (\<lambda>e. entry_type e = Response) (entries b)) \<le> 1"
  using group_result [OF assms] by (simp add: one_server_one_response_def responses_def)

lemma conversation_has_one_response_witness:
  "length (filter (\<lambda>e. entry_type e = Response) (map ((!) two_users) [0, 2, 4, 5, 6])) \<le> 1"
proof -
  obtain b c where r: "group_entries (seconds 600) no_seed two_users = [b, c]"
    and b: "entries b = map ((!) two_users) [0, 2, 4, 5, 6]" by (rule two_users_result)
  have "b \<in> set (group_entries (seconds 600) no_seed two_users)" by (simp add: r)
  from conversation_has_one_response [OF this] show ?thesis unfolding b .
qed

text \<open>C1: on a stream of old-format lines nothing is lost and nothing is duplicated: every line is in exactly
  one emitted conversation, exactly as often as it is in the stream.\<close>

theorem grouping_conserves_lines:
  assumes "\<forall>e \<in> set es. stamped_reqid e = None"
  shows "mset (concat (map entries (group_entries gap no_seed es))) = mset es"
  using assms by (rule group_lines)

lemma grouping_conserves_lines_witness:
  "mset (concat (map entries (group_entries (seconds 600) no_seed two_users))) = mset two_users"
  by (rule grouping_conserves_lines) code_simp

text \<open>Eviction is exact: when a line of instant \<open>now\<close> arrives, the slots that stay open are those whose
  conversation was heard from no earlier than \<open>now - gap\<close> (or never with an instant), and the pending requests
  that stay are those logged no earlier than that.\<close>

theorem eviction_is_exact:
  fixes es gap now
  defines "s \<equiv> stream_state gap no_seed es"
  shows "set (open_by_key (evict_stale gap now s)) =
           {p \<in> set (open_by_key s). \<not> older (now - gap) (last_ts (heap s ! snd p))}
       \<and> mset (pending_reqs (evict_stale gap now s)) =
           mset (filter (\<lambda>r. \<not> older (now - gap) (timestamp r)) (pending_reqs s))"
  unfolding s_def by (intro conjI evict_keeps stream_keys_distinct)

text \<open>C20: a response that carries no id stays on its server and with its user. What it closes is an open conversation without
  an id, or a pending request, of the response's server, and of its own user whenever that user has one of either there;
  it closes nothing only when nothing on its server waits for a response.\<close>

theorem response_stays_with_its_user:
  "case response_owner e s of
     OwnedBy k \<Rightarrow> k \<in> set (server_conversations e s) \<and> (own_user_waits e s \<longrightarrow> txn_user (builder_at s k) = opt_str (user_ctx e))
   | Asked r \<Rightarrow> r \<in> set (server_requests e s) \<and> (own_user_waits e s \<longrightarrow> req_user r = opt_str (user_ctx e))
   | Orphan \<Rightarrow> server_conversations e s = [] \<and> server_requests e s = []"
proof -
  obtain ks rs where r: "rivals e s = (ks, rs)" by fastforce
  have "server_conversations e s = [] \<and> server_requests e s = []" if "ks = [] \<and> rs = []"
    using that r by (cases "own_user_waits e s") (auto simp: rivals_def own_user_waits_def filter_empty_conv list_ex_iff)
  moreover have "k \<in> set ks \<Longrightarrow> k \<in> set (server_conversations e s) \<and> (own_user_waits e s \<longrightarrow> txn_user (builder_at s k) = opt_str (user_ctx e))"
    "q \<in> set rs \<Longrightarrow> q \<in> set (server_requests e s) \<and> (own_user_waits e s \<longrightarrow> req_user q = opt_str (user_ctx e))" for k q
    using r by (auto simp: rivals_def)
  ultimately show ?thesis using response_owner_best [OF candidates_are_rivals [OF r]] by (auto split: owner.splits if_splits)
qed

definition before_response :: gstate where
  "before_response = stream_state (seconds 600) no_seed (take 6 two_users)"

text \<open>A response of Ann, whose conversation and another user's are open on its server.\<close>

lemma response_stays_with_its_user_witness:
  "txn_user (builder_at before_response (Named ''BEC01'' (Some ''7'') (JStr ''ANN''))) = JStr ''ANN''
   \<and> own_user_waits (two_users ! 6) before_response
   \<and> response_owner (two_users ! 6) before_response = OwnedBy (Named ''BEC01'' (Some ''7'') (JStr ''ANN''))"
proof -
  have "response_owner (two_users ! 6) before_response = OwnedBy (Named ''BEC01'' (Some ''7'') (JStr ''ANN''))"
    "own_user_waits (two_users ! 6) before_response" "opt_str (user_ctx (two_users ! 6)) = JStr ''ANN''" by code_simp+
  then show ?thesis using response_stays_with_its_user [of "two_users ! 6" before_response] by simp
qed

text \<open>C21: a response closes what was heard from last. Among its rivals, the conversations and requests of its user or, where
  that user has none, of its server, what it closes ranks above all requests and all conversations that do not wait for an
  M3 answer; a conversation that waits for one is closed only when every rival does, and then it is the latest of them. The
  rank is the last instant heard, ties going to the earliest place in the stream, and to a conversation over a request.\<close>

theorem response_closes_most_recent:
  assumes "rivals e s = (ks, rs)"
  shows "case response_owner e s of
     OwnedBy k \<Rightarrow> k \<in> set ks \<and> (\<forall>r \<in> set rs. rank_request r \<le> rank_builder (builder_at s k))
       \<and> (\<forall>k' \<in> set ks. awaiting_m3 (builder_at s k') \<and> \<not> awaiting_m3 (builder_at s k)
            \<or> rank_builder (builder_at s k') \<le> rank_builder (builder_at s k))
       \<and> (awaiting_m3 (builder_at s k) \<longrightarrow> rs = [] \<and> (\<forall>k' \<in> set ks. awaiting_m3 (builder_at s k')))
   | Asked r \<Rightarrow> r \<in> set rs \<and> (\<forall>r' \<in> set rs. rank_request r' \<le> rank_request r)
       \<and> (\<forall>k \<in> set ks. awaiting_m3 (builder_at s k) \<or> rank_builder (builder_at s k) < rank_request r)
   | Orphan \<Rightarrow> ks = [] \<and> rs = []"
proof (cases "filter (\<lambda>k. \<not> awaiting_m3 (builder_at s k)) ks \<noteq> [] \<or> rs \<noteq> []")
  case True
  then have "response_candidates e s = (filter (\<lambda>k. \<not> awaiting_m3 (builder_at s k)) ks, rs)"
    using candidates_are_rivals [OF assms] by simp
  from response_owner_best [OF this] show ?thesis using True by (auto split: owner.splits)
next
  case False
  then have "response_candidates e s = (ks, [])" "rs = []" "\<forall>k \<in> set ks. awaiting_m3 (builder_at s k)"
    using candidates_are_rivals [OF assms] by (auto simp: filter_empty_conv)
  then show ?thesis using response_owner_best [of e s ks "[]"] by (auto split: owner.splits)
qed

text \<open>A response of a user who has nothing open: of the two conversations on its server it takes the one heard from last.\<close>

definition stray_response :: log_entry where "stray_response = (two_users ! 6)\<lparr>user_ctx := Some ''ZED''\<rparr>"

lemma response_closes_most_recent_witness:
  "rank_builder (builder_at before_response (Named ''BEC01'' (Some ''8'') (JStr ''BOB'')))
     \<le> rank_builder (builder_at before_response (Named ''BEC01'' (Some ''7'') (JStr ''ANN'')))"
proof -
  have "rivals stray_response before_response = ([Named ''BEC01'' (Some ''7'') (JStr ''ANN''), Named ''BEC01'' (Some ''8'') (JStr ''BOB'')], [])"
    "response_owner stray_response before_response = OwnedBy (Named ''BEC01'' (Some ''7'') (JStr ''ANN''))"
    "\<not> awaiting_m3 (builder_at before_response (Named ''BEC01'' (Some ''7'') (JStr ''ANN'')))"
    "\<not> awaiting_m3 (builder_at before_response (Named ''BEC01'' (Some ''8'') (JStr ''BOB'')))" by code_simp+
  with response_closes_most_recent [OF this(1)] show ?thesis by simp
qed

text \<open>A stamped request that takes the slot of an old-format conversation holding its request discards
  that conversation: here the request 1 and its body 2 are in no emitted conversation.\<close>

theorem stamped_request_discards_open_conversation:
  "map (map entry_id \<circ> entries)
     (group_entries (seconds 600) no_seed
        [sample_line 1 Request 0 ''7'' (Some ''ANN'') [],
         sample_line 2 RequestBody 1 ''7'' (Some ''ANN'') [],
         sample_line 3 Request 2 ''7'' (Some ''ANN'') (stamp ''R1'')]) = [[3]]"
  by code_simp

text \<open>two servers each hold an open conversation stamped with the same id when the stream ends: only one
  of the two is emitted, because the emission remembers ids and not (server, id) pairs.\<close>

theorem same_id_on_two_servers_loses_one:
  "map (map entry_id \<circ> entries)
     (group_entries (seconds 600) no_seed
        [sample_line 1 Request 0 ''7'' (Some ''ANN'') (stamp ''R1''),
         (sample_line 2 Request 1 ''7'' (Some ''BOB'') (stamp ''R1''))\<lparr>source_file := ''BEC02/log.txt''\<rparr>]) = [[1]]"
  by code_simp

text \<open>a response whose user has nothing open closes another user's conversation.\<close>

theorem response_falls_back_to_other_user:
  "map (map entry_id \<circ> entries)
     (group_entries (seconds 600) no_seed
        [sample_line 1 Request 0 ''7'' (Some ''ANN'') [],
         sample_line 2 RequestBody 1 ''7'' (Some ''ANN'') [],
         sample_line 3 Response 2 ''7'' (Some ''BOB'') []]) = [[1, 2, 3]]"
  by code_simp

end
