(* ===== verification/Floats.thy ===== *)
theory Floats
  imports Complex_Main
begin

text \<open>
  Python floats (IEEE 754 doubles) as rationals: a float operation is the exact operation followed by
  \<open>fl\<close>, rounding to nearest even at 53 significant bits. The exponent is unbounded, so overflow,
  subnormals, infinities and NaN are outside the model; the quantities of this program (durations,
  counts, rates) are far from them.
\<close>

function bitlen :: "int \<Rightarrow> nat" where
  "bitlen n = (if n \<le> 0 then 0 else Suc (bitlen (n div 2)))"
  by pat_completeness auto
termination by (relation "measure nat") auto

declare bitlen.simps [simp del]

definition pow2 :: "int \<Rightarrow> rat" where
  "pow2 e = (if 0 \<le> e then of_int (2 ^ nat e) else 1 / of_int (2 ^ nat (- e)))"

text \<open>The binary exponent of a positive rational.\<close>

definition binexp :: "rat \<Rightarrow> int" where
  "binexp x =
     (let (a, b) = quotient_of x; k = int (bitlen a) - int (bitlen b)
      in if pow2 k \<le> x then k else k - 1)"

definition round_even :: "rat \<Rightarrow> int" where
  "round_even q =
     (let n = \<lfloor>q\<rfloor>; r = q - of_int n
      in if r < 1 / 2 then n else if 1 / 2 < r then n + 1 else if even n then n else n + 1)"

definition fl_pos :: "rat \<Rightarrow> rat" where
  "fl_pos x = (let s = pow2 (binexp x - 52) in of_int (round_even (x / s)) * s)"

definition fl :: "rat \<Rightarrow> rat" where
  "fl x = (if x = 0 then 0 else if 0 < x then fl_pos x else - fl_pos (- x))"

definition fadd :: "rat \<Rightarrow> rat \<Rightarrow> rat" where "fadd x y = fl (x + y)"
definition fsub :: "rat \<Rightarrow> rat \<Rightarrow> rat" where "fsub x y = fl (x - y)"
definition fmul :: "rat \<Rightarrow> rat \<Rightarrow> rat" where "fmul x y = fl (x * y)"
definition fdiv :: "rat \<Rightarrow> rat \<Rightarrow> rat" where "fdiv x y = fl (x / y)"

text \<open>\<open>int(x)\<close>: truncation towards zero.\<close>

definition trunc :: "rat \<Rightarrow> int" where
  "trunc x = (if 0 \<le> x then \<lfloor>x\<rfloor> else - \<lfloor>- x\<rfloor>)"

text \<open>The unit round-off.\<close>

definition ulp :: rat where
  "ulp = 1 / 2 ^ 53"

subsection \<open>The error of one rounding\<close>

lemma bitlen_bounds: "0 < n \<Longrightarrow> 2 ^ (bitlen n - 1) \<le> n \<and> n < 2 ^ bitlen n \<and> 0 < bitlen n"
proof (induction n rule: bitlen.induct)
  case (1 n)
  have len: "bitlen n = Suc (bitlen (n div 2))" using 1 by (simp add: bitlen.simps [of n])
  show ?case
  proof (cases "n = 1")
    case True
    then show ?thesis by (simp add: bitlen.simps)
  next
    case False
    with 1 have ih: "2 ^ (bitlen (n div 2) - 1) \<le> n div 2" "n div 2 < 2 ^ bitlen (n div 2)" "0 < bitlen (n div 2)"
      by auto
    have "(2::int) ^ bitlen (n div 2) = 2 * 2 ^ (bitlen (n div 2) - 1)"
      using ih(3) by (metis Suc_pred' power_Suc)
    moreover have "2 * (n div 2) \<le> n" "n < 2 * (n div 2) + 2" by linarith+
    ultimately have "2 ^ bitlen (n div 2) \<le> n" "n < 2 * 2 ^ bitlen (n div 2)" using ih(1,2) by linarith+
    then show ?thesis unfolding len by (simp only: diff_Suc_1 power_Suc zero_less_Suc simp_thms)
  qed
qed

lemma pow2_pos [simp]: "0 < pow2 e"
  by (simp add: pow2_def)

lemma pow2_add: "pow2 (a + b) = pow2 a * pow2 b"
proof -
  have "pow2 e = power_int 2 e" for e
    by (simp add: pow2_def power_int_def power_one_over inverse_eq_divide)
  then show ?thesis by (simp add: power_int_add)
qed

lemma binexp_bounds:
  assumes "0 < x"
  shows "pow2 (binexp x) \<le> x" and "x < pow2 (binexp x + 1)"
proof -
  obtain a b where q: "quotient_of x = (a, b)" by fastforce
  have b: "0 < b" using quotient_of_denom_pos [OF q] .
  have x: "x = of_int a / of_int b" using quotient_of_div [OF q] .
  have a: "0 < a" using assms b by (simp add: x zero_less_divide_iff)
  have xn: "x = of_int a / of_int b" by (rule x)
  define p q where "p = bitlen a" and "q = bitlen b"
  note bm = bitlen_bounds [OF a, folded p_def] and bn = bitlen_bounds [OF b, folded q_def]
  define k where "k = int p - int q"
  have up: "of_int c < pow2 (int i)" if "c < 2 ^ i" for c i
    using that by (simp add: pow2_def del: of_int_power)
  have down: "pow2 (int i - 1) \<le> of_int c" if "2 ^ (i - 1) \<le> c" "0 < i" for c i
    using that by (simp add: pow2_def nat_diff_distrib del: of_int_power)
  have lower_m: "pow2 (int p - 1) \<le> of_int a" and upper_m: "of_int a < pow2 (int p)"
    and lower_n: "pow2 (int q - 1) \<le> of_int b" and upper_n: "of_int b < pow2 (int q)"
    using bm bn up down by blast+
  have n0: "(0::rat) < of_int b" using b by simp
  have low: "pow2 (k - 1) \<le> x"
  proof -
    have "pow2 (k - 1) * of_int b \<le> pow2 (k - 1) * pow2 (int q)" using upper_n by simp
    also have "\<dots> = pow2 (int p - 1)" by (simp add: pow2_add [symmetric] k_def)
    finally have "pow2 (k - 1) * of_int b \<le> of_int a" using lower_m by simp
    then show ?thesis using n0 by (simp add: xn pos_le_divide_eq)
  qed
  have high: "x < pow2 (k + 1)"
  proof -
    have "of_int a < pow2 (k + 1) * pow2 (int q - 1)" using upper_m by (simp add: pow2_add [symmetric] k_def)
    also have "\<dots> \<le> pow2 (k + 1) * of_int b" using lower_n by simp
    finally show ?thesis using n0 by (simp add: xn pos_divide_less_eq)
  qed
  have e: "binexp x = (if pow2 k \<le> x then k else k - 1)"
    by (simp add: binexp_def q k_def p_def q_def Let_def)
  show "pow2 (binexp x) \<le> x" using low by (simp add: e)
  show "x < pow2 (binexp x + 1)" using high by (auto simp: e)
qed

lemma round_even_error: "\<bar>of_int (round_even q) - q\<bar> \<le> 1 / 2"
proof -
  define r where "r = q - of_int \<lfloor>q\<rfloor>"
  have "0 \<le> r" "r < 1" unfolding r_def by linarith+
  then show ?thesis by (auto simp: round_even_def Let_def r_def [symmetric]) (auto simp: r_def)
qed

lemma fl_pos_error:
  assumes "0 < x"
  shows "\<bar>fl_pos x - x\<bar> \<le> x * ulp"
proof -
  define s where "s = pow2 (binexp x - 52)"
  have s: "0 < s" by (simp add: s_def)
  have "\<bar>fl_pos x - x\<bar> = \<bar>of_int (round_even (x / s)) - x / s\<bar> * s"
  proof -
    have "fl_pos x - x = (of_int (round_even (x / s)) - x / s) * s"
      using s by (simp add: fl_pos_def Let_def s_def [symmetric] left_diff_distrib)
    then show ?thesis using s by (simp add: abs_mult)
  qed
  also have "\<dots> \<le> 1 / 2 * s" using round_even_error s by (intro mult_right_mono) auto
  also have "\<dots> = pow2 (binexp x) * ulp"
  proof -
    have "pow2 (binexp x) = s * pow2 52" by (simp add: s_def pow2_add [symmetric])
    then show ?thesis by (simp add: pow2_def ulp_def)
  qed
  also have "\<dots> \<le> x * ulp" using binexp_bounds(1) [OF assms] by (intro mult_right_mono) (auto simp: ulp_def)
  finally show ?thesis .
qed

lemma fl_error: "\<bar>fl x - x\<bar> \<le> \<bar>x\<bar> * ulp"
proof -
  consider "x = 0" | "0 < x" | "x < 0" by linarith
  then show ?thesis
  proof cases
    case 3
    then show ?thesis using fl_pos_error [of "- x"] by (simp add: fl_def abs_if split: if_splits)
  qed (simp_all add: fl_def fl_pos_error)
qed

lemma fl_0 [simp]: "fl 0 = 0"
  by (simp add: fl_def)

lemma fl_pos_nonneg: "0 < x \<Longrightarrow> 0 \<le> fl_pos x"
proof -
  assume "0 < x"
  then have "0 \<le> x / pow2 (binexp x - 52)" by (intro divide_nonneg_pos) auto
  then have "0 \<le> \<lfloor>x / pow2 (binexp x - 52)\<rfloor>" by (simp only: zero_le_floor)
  then have "0 \<le> round_even (x / pow2 (binexp x - 52))" by (auto simp: round_even_def Let_def)
  then show ?thesis unfolding fl_pos_def Let_def by (intro mult_nonneg_nonneg) (auto intro: less_imp_le)
qed

lemma fl_nonneg: "0 \<le> x \<Longrightarrow> 0 \<le> fl x"
  by (auto simp: fl_def fl_pos_nonneg)

lemma fl_nonpos: "x \<le> 0 \<Longrightarrow> fl x \<le> 0"
  using fl_pos_nonneg [of "- x"] by (auto simp: fl_def)

lemma fl_sample: "trunc (fmul (fdiv 1001000 1000000) 1000) = 1000"
  by code_simp

end
