(* ===== verification/TxnCompute.thy ===== *)
theory TxnCompute
  imports Grouper Floats Samples
begin

text \<open>
  \<open>_TxnBuilder\<close> of \<open>derive_transactions.py\<close>: the columns of a transaction, computed from the lines of its
  conversation, and the steps between that and the table (order of the lines, the anchor that seeds the
  id, the cap on over-length columns, the seal). \<open>uuid5\<close> in the fixed namespace is a parameter, and so is
  the time-zone database (\<open>offset\<close>: local time minus UTC at an instant). Text is Latin-1.
  A request URL is text or absent, as the parser writes it; a bracketed host, on which \<open>urlparse\<close> can
  raise, is not modelled.
\<close>

subsection \<open>The method named by a URL\<close>

definition scheme_chars :: string where
  "scheme_chars = ''abcdefghijklmnopqrstuvwxyzABCDEFGHIJKLMNOPQRSTUVWXYZ0123456789+-.''"

definition ascii_letter :: "char \<Rightarrow> bool" where
  "ascii_letter c \<longleftrightarrow> (let n = of_char c :: int in 65 \<le> n \<and> n \<le> 90 \<or> 97 \<le> n \<and> n \<le> 122)"

text \<open>The schemes whose last path segment \<open>urlparse\<close> splits at a semicolon.\<close>

definition uses_params :: "string list" where
  "uses_params = ['''', ''ftp'', ''hdl'', ''prospero'', ''http'', ''https'', ''shttp'', ''rtsp'', ''rtsps'', ''rtspu'',
     ''sip'', ''sips'', ''mms'', ''sftp'', ''tel'']"

definition split_scheme :: "string \<Rightarrow> string \<times> string" where
  "split_scheme url =
     (let scheme = before_first CHR '':'' url
      in if CHR '':'' \<in> set url \<and> scheme \<noteq> [] \<and> ascii_letter (hd scheme) \<and> list_all (\<lambda>c. c \<in> set scheme_chars) scheme
         then (lower scheme, drop (Suc (length scheme)) url) else ([], url))"

definition drop_netloc :: "string \<Rightarrow> string" where
  "drop_netloc url = (if take 2 url = ''//'' then dropWhile (\<lambda>c. c \<notin> set ''/?#'') (drop 2 url) else url)"

definition drop_params :: "string \<Rightarrow> string" where
  "drop_params path =
     (let seg = after_last CHR ''/'' path; dir = take (length path - length seg) path
      in dir @ before_first CHR '';'' seg)"

definition url_path :: "string \<Rightarrow> string" where
  "url_path raw =
     (let url = filter (\<lambda>c. (of_char c :: int) \<notin> {9, 10, 13}) (dropWhile (\<lambda>c. (of_char c :: int) \<le> 32) raw);
          (scheme, rest) = split_scheme url;
          path = before_first CHR ''?'' (before_first CHR ''#'' (drop_netloc rest))
      in if scheme \<in> set uses_params then drop_params path else path)"

definition none_if_empty :: "string \<Rightarrow> string option" where
  "none_if_empty s = (if s = [] then None else Some s)"

definition method_from_url :: "string option \<Rightarrow> string option" where
  "method_from_url url =
     (case url of
        None \<Rightarrow> None
      | Some u \<Rightarrow> if u = [] then None else none_if_empty (after_last CHR ''/'' (rstrip_char CHR ''/'' (url_path u))))"

subsection \<open>Merged attributes\<close>

type_synonym attrs = "(string \<times> json) list"

definition dict_update :: "attrs \<Rightarrow> attrs \<Rightarrow> attrs" where
  "dict_update kvs d = fold (\<lambda>(k, v). AList.update k v) kvs d"

fun scalar :: "json \<Rightarrow> bool" where
  "scalar (JList _) = False"
| "scalar (JObj _) = False"
| "scalar _ = True"

record merged =
  m_attrs :: attrs
  m_has_body :: bool
  m_url :: "string option"

fun str_of :: "json \<Rightarrow> string option" where
  "str_of (JStr s) = Some s"
| "str_of _ = None"

definition merge_entry :: "log_entry \<Rightarrow> merged \<Rightarrow> merged" where
  "merge_entry e m =
     (case entry_type e of
        Request \<Rightarrow> m\<lparr>m_url := str_of (jget (entry_fields e) ''url''),
                     m_attrs := (if is_obj (jget (entry_fields e) ''params'')
                                 then dict_update (params_of e) (m_attrs m) else m_attrs m)\<rparr>
      | RequestBody \<Rightarrow> m\<lparr>m_has_body := True,
                         m_attrs := dict_update (filter (\<lambda>(k, v). scalar v) (entry_fields e)) (m_attrs m)\<rparr>
      | _ \<Rightarrow> m)"

definition merged_attrs :: "log_entry list \<Rightarrow> merged" where
  "merged_attrs es = fold merge_entry es \<lparr>m_attrs = [], m_has_body = False, m_url = None\<rparr>"

text \<open>\<open>_ci_get\<close>: the first of the names that is set, whatever its case; a later key wins a case clash.\<close>

definition lowered :: "attrs \<Rightarrow> attrs" where
  "lowered d = fold (\<lambda>(k, v). AList.update (lower k) v) d []"

fun first_set :: "attrs \<Rightarrow> string list \<Rightarrow> string option" where
  "first_set low [] = None"
| "first_set low (n # ns) =
     (let v = jget low (lower n) in if v \<noteq> JNull \<and> v \<noteq> JStr [] then Some (py_str v) else first_set low ns)"

definition ci_get :: "attrs \<Rightarrow> string list \<Rightarrow> string option" where
  "ci_get d names = first_set (lowered d) names"

subsection \<open>Times, outcome, summaries\<close>

fun instants :: "log_entry list \<Rightarrow> instant list" where
  "instants [] = []"
| "instants (e # es) = (case timestamp e of None \<Rightarrow> instants es | Some t \<Rightarrow> t # instants es)"

fun min_of :: "int list \<Rightarrow> int option" where
  "min_of [] = None"
| "min_of (x # xs) = Some (fold min xs x)"

fun max_of :: "int list \<Rightarrow> int option" where
  "max_of [] = None"
| "max_of (x # xs) = Some (fold max xs x)"

definition started_at_of :: "log_entry list \<Rightarrow> instant option" where
  "started_at_of es = min_of (instants es)"

definition ended_at_of :: "log_entry list \<Rightarrow> instant option" where
  "ended_at_of es = max_of (instants es)"

text \<open>\<open>int((ended - started).total_seconds() * 1000)\<close>, in floating point as Python computes it.\<close>

definition millis :: "duration \<Rightarrow> int" where
  "millis d = trunc (fmul (fdiv (of_int d) 1000000) 1000)"

definition duration_ms_of :: "log_entry list \<Rightarrow> int option" where
  "duration_ms_of es =
     (case (started_at_of es, ended_at_of es) of (Some s, Some e) \<Rightarrow> Some (millis (e - s)) | _ \<Rightarrow> None)"

definition local_day :: "(instant \<Rightarrow> duration) \<Rightarrow> instant \<Rightarrow> int" where
  "local_day offset t = (t + offset t) div seconds 86400"

datatype txn_status = Success | Soft | Error | Incomplete

definition is_soft :: "log_entry \<Rightarrow> bool" where
  "is_soft e \<longleftrightarrow>
     entry_type e = MiResult \<and> text_of (result_status e) \<noteq> [] \<and> result_status e \<noteq> Some ''OK'' \<or> level e = Some ''WARN''"

definition outcome :: "log_entry list \<Rightarrow> txn_status \<times> string option" where
  "outcome es =
     (let has_response = list_ex (\<lambda>e. entry_type e = Response) es;
          soft = find is_soft es
      in case find (\<lambda>e. entry_type e = ErrorLine) es of
           Some e \<Rightarrow> (Error, if text_of (result_status e) \<noteq> [] then result_status e else message e)
         | None \<Rightarrow>
             (if \<not> has_response then (Incomplete, case soft of Some e \<Rightarrow> result_status e | None \<Rightarrow> None)
              else case soft of Some e \<Rightarrow> (Soft, result_status e) | None \<Rightarrow> (Success, None)))"

fun fallback_user :: "log_entry list \<Rightarrow> string option" where
  "fallback_user [] = None"
| "fallback_user (e # es) =
     (if entry_type e = MiCall \<and> truthy (jget (params_of e) ''m3user'')
      then Some (py_str (jget (params_of e) ''m3user'')) else fallback_user es)"

definition user_name_of :: "attrs \<Rightarrow> log_entry list \<Rightarrow> string option" where
  "user_name_of attrs es =
     (case ci_get attrs [''User'', ''m3user''] of
        Some u \<Rightarrow> if u = [] then fallback_user es else Some u
      | None \<Rightarrow> fallback_user es)"

definition or_else :: "string option \<Rightarrow> string option \<Rightarrow> string option" where
  "or_else a b = (if text_of a \<noteq> [] then a else b)"

definition labelled :: "string \<Rightarrow> string option \<Rightarrow> string list" where
  "labelled l v = (if text_of v \<noteq> [] then [l @ text_of v] else [])"

definition middle_dot :: string where
  "middle_dot = [CHR '' '', char_of (183 :: int), CHR '' '']"

definition request_summary_of :: "string option \<Rightarrow> string option \<Rightarrow> string option \<Rightarrow> string option \<Rightarrow> string option" where
  "request_summary_of method warehouse rt user =
     none_if_empty (join middle_dot
       (labelled [] method @ labelled ''WHLO '' warehouse @ labelled ''Route '' rt @ labelled ''user '' user))"

text \<open>The prefix \<open>RESPONSE : \<close>, with or without the stamped id, cut off once.\<close>

definition after_colon :: "string \<Rightarrow> string option" where
  "after_colon s =
     (case dropWhile is_space s of c # rest \<Rightarrow> if c = CHR '':'' then Some (dropWhile is_space rest) else None | [] \<Rightarrow> None)"

definition skip_reqid :: "string \<Rightarrow> string" where
  "skip_reqid s =
     (let opening = '' (ReqID = ''; rest = dropWhile (\<lambda>c. c \<noteq> CHR '')'') (drop (length opening) s)
      in if take (length opening) s = opening \<and> rest \<noteq> [] then tl rest else s)"

definition cut_response_prefix :: "string \<Rightarrow> string" where
  "cut_response_prefix s =
     (if take 8 s = ''RESPONSE''
      then (case after_colon (skip_reqid (drop 8 s)) of Some r \<Rightarrow> r | None \<Rightarrow> s) else s)"

definition response_summary_of :: "log_entry list \<Rightarrow> string option" where
  "response_summary_of es =
     (case find (\<lambda>e. entry_type e = Response) es of
        None \<Rightarrow> None
      | Some e \<Rightarrow> if text_of (message e) = [] then None else Some (take 500 (strip (cut_response_prefix (text_of (message e))))))"

definition sensitive :: "string list" where
  "sensitive = [''password'', ''accesstoken'', ''m3credentials'', ''m3usercredentials'', ''cipher'']"

definition clean_attrs :: "attrs \<Rightarrow> attrs" where
  "clean_attrs d = filter (\<lambda>(k, v). lower k \<notin> set sensitive) d"

subsection \<open>The values of a transaction\<close>

text \<open>
  The dict \<open>compute\<close> returns: its text columns are \<open>v_text\<close>, in the order of the source, the others are
  fields of their own (\<open>flow_id\<close> is always \<open>None\<close>).
\<close>

record txn_values =
  v_job :: uuid
  v_started :: "instant option"
  v_ended :: "instant option"
  v_date :: "int option"
  v_duration :: "int option"
  v_status :: txn_status
  v_entry_count :: nat
  v_mi_count :: nat
  v_attributes :: attrs
  v_text :: "(string \<times> string option) list"

definition text_columns :: "log_entry list \<Rightarrow> (string \<times> string option) list" where
  "text_columns es =
     (let m = merged_attrs es;
          g = ci_get (m_attrs m);
          method = or_else (g [''MethodName'']) (method_from_url (m_url m));
          warehouse = g [''Warehouse'', ''WHLO''];
          route_name = g [''Route''];
          user = user_name_of (m_attrs m) es
      in [(''customer_code'', Some (customer_code (hd es))),
          (''source_file_start'', Some (source_file (hd es))), (''source_file_end'', Some (source_file (last es))),
          (''user_name'', user), (''user_id'', g [''UserID'']), (''employee_name'', g [''EmployeeName'']),
          (''company'', g [''Company'', ''CONO'']), (''warehouse'', warehouse), (''warehouse_id'', g [''WarehouseID'']),
          (''division'', g [''Division'']), (''facility'', g [''Facility'']), (''device_id'', g [''DeviceID'']),
          (''device_name'', g [''DeviceName'']), (''reqid'', or_else (g [''ReqID'', ''ReqId'']) (stamped_reqid_of es)),
          (''method'', method), (''http_method'', Some (if m_has_body m then ''POST'' else ''GET'')),
          (''endpoint_url'', m_url m), (''transaction_name'', g [''TransactionName'']),
          (''transaction_type'', g [''TransactionType'']), (''route'', route_name), (''item_number'', g [''ItemNumber'']),
          (''delivery_number'', g [''DeliveryNumber'']), (''picklist_suffix'', g [''PickListSuffix'']),
          (''order_number'', g [''OrderNumber'']), (''reporting_number'', g [''ReportingNumber'']),
          (''error_text'', snd (outcome es)), (''request_summary'', request_summary_of method warehouse route_name user),
          (''response_summary'', response_summary_of es)])"

definition compute_txn :: "(instant \<Rightarrow> duration) \<Rightarrow> log_entry list \<Rightarrow> txn_values" where
  "compute_txn offset es =
     \<lparr>v_job = job_id (hd es), v_started = started_at_of es, v_ended = ended_at_of es,
      v_date = map_option (local_day offset) (started_at_of es), v_duration = duration_ms_of es,
      v_status = fst (outcome es), v_entry_count = length es,
      v_mi_count = length (filter (\<lambda>e. entry_type e = MiCall) es),
      v_attributes = clean_attrs (m_attrs (merged_attrs es)), v_text = text_columns es\<rparr>"

subsection \<open>Identity, sealing, column widths\<close>

definition anchor :: "log_entry list \<Rightarrow> string" where
  "anchor es =
     (let e = (case find (\<lambda>e. entry_type e = Request \<or> entry_type e = RequestBody) es of Some r \<Rightarrow> r | None \<Rightarrow> hd es);
          seed = (if text_of (entry_hash e) \<noteq> [] then text_of (entry_hash e)
                  else source_file e @ '':'' @ (case line_number e of None \<Rightarrow> ''None'' | Some n \<Rightarrow> int_str n))
      in customer_code e @ '':'' @ seed)"

definition txn_id :: "(string \<Rightarrow> uuid) \<Rightarrow> log_entry list \<Rightarrow> uuid" where
  "txn_id uuid5 es = uuid5 (anchor es)"

text \<open>\<open>b.entries.sort(key=_entry_stream_order)\<close>: a stable sort.\<close>

definition in_stream_order :: "log_entry list \<Rightarrow> log_entry list" where
  "in_stream_order es = sort_key entry_stream_order es"

definition cutoffs :: "duration \<Rightarrow> duration \<Rightarrow> instant option \<Rightarrow> instant option \<times> instant option" where
  "cutoffs seal_window abandon_window max_ts =
     (case max_ts of None \<Rightarrow> (None, None) | Some t \<Rightarrow> (Some (t - seal_window), Some (t - abandon_window)))"

definition is_sealed :: "txn_values \<Rightarrow> instant option \<Rightarrow> instant option \<Rightarrow> bool" where
  "is_sealed v seal abandon =
     (case (v_ended v, seal) of
        (Some ended, Some s) \<Rightarrow>
          (if v_status v = Incomplete then (case abandon of None \<Rightarrow> False | Some a \<Rightarrow> ended < a) else ended < s)
      | _ \<Rightarrow> False)"

definition txn_str_limits :: "(string \<times> nat) list" where
  "txn_str_limits =
     [(''customer_code'', 64), (''source_file_start'', 512), (''source_file_end'', 512), (''user_name'', 64),
      (''user_id'', 64), (''employee_name'', 128), (''company'', 16), (''warehouse'', 16), (''warehouse_id'', 16),
      (''division'', 16), (''facility'', 16), (''device_id'', 64), (''device_name'', 64), (''reqid'', 128),
      (''method'', 128), (''http_method'', 8), (''transaction_name'', 128), (''transaction_type'', 32),
      (''route'', 32), (''item_number'', 128), (''delivery_number'', 64), (''picklist_suffix'', 16),
      (''order_number'', 64), (''reporting_number'', 64), (''row_fingerprint'', 64), (''members_fingerprint'', 64)]"

definition over_length :: "(string \<times> string option) list \<Rightarrow> (string \<times> nat) list \<Rightarrow> (string \<times> nat \<times> string) list" where
  "over_length columns limits =
     concat (map (\<lambda>(k, n). case map_of columns k of
       Some (Some v) \<Rightarrow> if n < length v then [(k, n, v)] else [] | _ \<Rightarrow> []) limits)"

definition cap_over_length :: "txn_values \<Rightarrow> txn_values" where
  "cap_over_length v =
     v\<lparr>v_text := fold (\<lambda>(k, n, t). AList.update k (Some (take n t))) (over_length (v_text v) txn_str_limits) (v_text v)\<rparr>"

end
