(* ===== verification/TxnProperties.thy ===== *)
theory TxnProperties
  imports TxnCompute
begin

text \<open>What \<open>compute\<close> and the steps around it guarantee of a transaction's columns.\<close>

subsection \<open>Attributes\<close>

text \<open>What one line contributes to the merged attributes.\<close>

definition contributions :: "log_entry \<Rightarrow> attrs" where
  "contributions e =
     (case entry_type e of
        Request \<Rightarrow> params_of e
      | RequestBody \<Rightarrow> filter (\<lambda>(k, v). scalar v) (entry_fields e)
      | _ \<Rightarrow> [])"

lemma params_of_non_object: "\<not> is_obj (jget (entry_fields e) ''params'') \<Longrightarrow> params_of e = []"
  by (cases "jget (entry_fields e) ''params''") (simp_all add: params_of_def)

lemma merge_entry_attrs: "m_attrs (merge_entry e m) = dict_update (contributions e) (m_attrs m)"
  by (auto simp: merge_entry_def contributions_def dict_update_def params_of_non_object split: entry_type.split)

lemma merged_lookup:
  "map_of (m_attrs (fold merge_entry es m)) k =
     (case map_of (rev (concat (map contributions es))) k of Some v \<Rightarrow> Some v | None \<Rightarrow> map_of (m_attrs m) k)"
proof (induction es arbitrary: m)
  case (Cons e es)
  then show ?case
    by (simp add: merge_entry_attrs dict_update_def od.lookup_fold_store map_add_def split: option.splits)
qed simp

lemma map_of_clean: "map_of (clean_attrs d) k = (if lower k \<in> set sensitive then None else map_of d k)"
  using map_of_filter_key [of "\<lambda>k. lower k \<notin> set sensitive" d k] by (simp add: clean_attrs_def)

text \<open>the attributes of a transaction are, key by key, what its request and body lines set last, and
  never a secret: a key that reads as a password, token or credential in any case is absent.\<close>

theorem attributes_are_last_writes_without_secrets:
  "map_of (v_attributes (compute_txn offset es)) k =
     (if lower k \<in> set sensitive then None else map_of (rev (concat (map contributions es))) k)"
  by (simp add: compute_txn_def map_of_clean merged_attrs_def merged_lookup split: option.splits)

subsection \<open>Outcome\<close>

text \<open>the status of a transaction is decided by its lines alone: an error line makes it an error, no
  response (and no error) makes it incomplete, and with a response it is soft exactly when some M3 result is
  not OK or some line is a warning.\<close>

theorem outcome_by_lines:
  "(v_status (compute_txn offset es) = Error \<longleftrightarrow> (\<exists>e \<in> set es. entry_type e = ErrorLine))
   \<and> (v_status (compute_txn offset es) = Incomplete \<longleftrightarrow>
        (\<forall>e \<in> set es. entry_type e \<noteq> ErrorLine \<and> entry_type e \<noteq> Response))
   \<and> (v_status (compute_txn offset es) = Soft \<longleftrightarrow>
        (\<forall>e \<in> set es. entry_type e \<noteq> ErrorLine) \<and> (\<exists>e \<in> set es. entry_type e = Response) \<and> (\<exists>e \<in> set es. is_soft e))"
proof -
  have err: "find (\<lambda>e. entry_type e = ErrorLine) es = None \<longleftrightarrow> (\<forall>e \<in> set es. entry_type e \<noteq> ErrorLine)"
    by (auto simp: find_None_iff)
  have soft: "find is_soft es = None \<longleftrightarrow> (\<forall>e \<in> set es. \<not> is_soft e)" by (auto simp: find_None_iff)
  show ?thesis
  proof (cases "find (\<lambda>e. entry_type e = ErrorLine) es")
    case None
    then have "fst (outcome es) = (if \<not> list_ex (\<lambda>e. entry_type e = Response) es then Incomplete
        else if find is_soft es = None then Success else Soft)"
      by (simp add: outcome_def Let_def split: option.split)
    moreover have "\<forall>e \<in> set es. entry_type e \<noteq> ErrorLine" using None err by blast
    moreover have "list_ex (\<lambda>e. entry_type e = Response) es \<longleftrightarrow> (\<exists>e \<in> set es. entry_type e = Response)"
      by (simp add: list_ex_iff)
    ultimately show ?thesis using soft by (simp add: compute_txn_def)
  next
    case (Some e)
    then have "\<exists>e \<in> set es. entry_type e = ErrorLine" using err by auto
    with Some show ?thesis by (auto simp: compute_txn_def outcome_def)
  qed
qed

lemma outcome_by_lines_witness:
  "v_status (compute_txn (\<lambda>t. 0) [sample_line 1 Request 0 ''7'' None []]) = Incomplete"
  using outcome_by_lines [of "\<lambda>t. 0" "[sample_line 1 Request 0 ''7'' None []]"] by (simp add: sample_line_def)

subsection \<open>Duration\<close>

lemma millis_bounds:
  assumes "0 \<le> d" and "d \<le> 10 ^ 15"
  shows "millis d = d div 1000 \<or> millis d = d div 1000 - 1 \<and> d mod 1000 = 0"
proof -
  define x where "x = fl (of_int d / 1000000)"
  define y where "y = fl (x * 1000)"
  define q where "q = (of_int d / 1000 :: rat)"
  have x: "\<bar>x - of_int d / 1000000\<bar> \<le> of_int d / 1000000 * ulp"
    using fl_error [of "of_int d / 1000000"] assms(1) by (simp add: x_def)
  have x0: "0 \<le> x" using assms(1) by (simp add: x_def fl_nonneg)
  have y: "\<bar>y - x * 1000\<bar> \<le> x * 1000 * ulp" using fl_error [of "x * 1000"] x0 by (simp add: y_def)
  have y0: "0 \<le> y" using x0 by (simp add: y_def fl_nonneg)
  have "of_int d \<le> (of_int (10 ^ 15) :: rat)" using assms(2) by (simp only: of_int_le_iff)
  then have q: "0 \<le> q" "q \<le> 10 ^ 12" using assms(1) by (simp_all add: q_def)
  have "x * 1000 - q = (x - of_int d / 1000000) * 1000" by (simp add: q_def left_diff_distrib)
  then have "\<bar>x * 1000 - q\<bar> = \<bar>x - of_int d / 1000000\<bar> * 1000" by (simp only: abs_mult abs_numeral)
  then have "\<bar>x * 1000 - q\<bar> \<le> q * ulp" using x by (simp add: q_def)
  moreover have "x * 1000 * ulp \<le> 2 * q * ulp"
  proof -
    have "q * ulp \<le> q * 1" using q by (intro mult_left_mono) (auto simp: ulp_def)
    then have "x * 1000 \<le> 2 * q" using \<open>\<bar>x * 1000 - q\<bar> \<le> q * ulp\<close> by linarith
    then show ?thesis by (intro mult_right_mono) (auto simp: ulp_def)
  qed
  ultimately have "\<bar>y - q\<bar> \<le> 3 * (q * ulp)" using y by linarith
  moreover have "q * ulp \<le> 10 ^ 12 * ulp" using q by (intro mult_right_mono) (auto simp: ulp_def)
  moreover have "3 * (10 ^ 12 * ulp) < 1 / 1000" by (simp add: ulp_def)
  ultimately have close: "\<bar>y - q\<bar> < 1 / 1000" by linarith
  have m: "millis d = \<lfloor>y\<rfloor>" using y0 by (simp add: millis_def fmul_def fdiv_def x_def y_def trunc_def)
  define r where "r = d mod 1000"
  have r: "0 \<le> r" "r < 1000" by (simp_all add: r_def)
  have "d = 1000 * (d div 1000) + r" by (simp add: r_def)
  then have "(of_int d :: rat) = 1000 * of_int (d div 1000) + of_int r"
    by (metis of_int_add of_int_mult of_int_numeral)
  then have split: "q = of_int (d div 1000) + of_int r / 1000" by (simp add: q_def)
  have r_le: "(of_int r :: rat) \<le> 999" using r by linarith
  have "\<lfloor>y\<rfloor> \<le> d div 1000"
  proof -
    have "y < of_int (d div 1000) + 1" using close split r_le by linarith
    then show ?thesis by linarith
  qed
  moreover have "d div 1000 - 1 \<le> \<lfloor>y\<rfloor>"
  proof -
    have "0 \<le> (of_int r :: rat)" using r by simp
    then have "of_int (d div 1000) - 1 \<le> y" using close split by linarith
    then show ?thesis by linarith
  qed
  moreover have "d div 1000 \<le> \<lfloor>y\<rfloor>" if "r \<noteq> 0"
  proof -
    have "1 \<le> (of_int r :: rat)" using that r by linarith
    then have "of_int (d div 1000) \<le> y" using close split by linarith
    then show ?thesis by linarith
  qed
  ultimately show ?thesis using m by (force simp: r_def)
qed

lemma started_before_ended:
  assumes a: "started_at_of es = Some a" and b: "ended_at_of es = Some b"
  shows "a \<le> b"
proof -
  from a obtain x xs where xs: "instants es = x # xs" by (cases "instants es") (auto simp: started_at_of_def)
  with a b have "a = Min (set (x # xs))" "b = Max (set (x # xs))"
    by (simp_all add: started_at_of_def ended_at_of_def Min.set_eq_fold Max.set_eq_fold del: list.set)
  moreover have "Min (set (x # xs)) \<le> x" "x \<le> Max (set (x # xs))" by (intro Min_le Max_ge; simp)+
  ultimately show ?thesis by linarith
qed

text \<open>the duration of a transaction is the milliseconds between its first and its last instant, rounded
  down, except that the floating-point arithmetic may yield one less on a whole number of milliseconds
  (for spans up to ten to the fifteenth microseconds, some thirty years).\<close>

theorem duration_within_one_millisecond:
  assumes "started_at_of es = Some a" and "ended_at_of es = Some b" and "b - a \<le> 10 ^ 15"
  shows "v_duration (compute_txn offset es) = Some ((b - a) div 1000)
       \<or> v_duration (compute_txn offset es) = Some ((b - a) div 1000 - 1) \<and> (b - a) mod 1000 = 0"
  using millis_bounds [of "b - a"] started_before_ended [OF assms(1,2)] assms
  by (auto simp: compute_txn_def duration_ms_of_def)

definition millisecond_lines :: "log_entry list" where
  "millisecond_lines =
     [sample_line 1 Request 0 ''7'' None [], (sample_line 2 Response 0 ''7'' None [])\<lparr>timestamp := Some 1001000\<rparr>]"

lemma duration_within_one_millisecond_witness:
  "v_duration (compute_txn (\<lambda>t. 0) millisecond_lines) = Some 1001 \<or> v_duration (compute_txn (\<lambda>t. 0) millisecond_lines) = Some 1000"
proof -
  have a: "started_at_of millisecond_lines = Some 0" "ended_at_of millisecond_lines = Some 1001000"
    by code_simp+
  from duration_within_one_millisecond [OF a, of "\<lambda>t. 0"] show ?thesis by simp
qed

text \<open>the exception is real: a response 1.001 seconds after its request is recorded as 1000 ms.\<close>

theorem duration_loses_a_millisecond:
  "v_duration (compute_txn (\<lambda>t. 0) millisecond_lines) = Some 1000"
proof -
  have "duration_ms_of millisecond_lines = Some 1000" by code_simp
  then show ?thesis by (simp add: compute_txn_def)
qed

subsection \<open>Column widths\<close>

definition cut_column :: "(string \<times> nat \<times> string) \<Rightarrow> (string \<times> string option) list \<Rightarrow> (string \<times> string option) list" where
  "cut_column c d = (case c of (k, n, t) \<Rightarrow> AList.update k (Some (take n t)) d)"

lemma cut_column_lookup:
  "distinct (map fst limits) \<Longrightarrow>
   map_of (fold cut_column (over_length columns limits) d) k =
     (case (map_of limits k, map_of columns k) of
        (Some n, Some (Some v)) \<Rightarrow> if n < length v then Some (Some (take n v)) else map_of d k
      | _ \<Rightarrow> map_of d k)"
proof (induction limits arbitrary: d)
  case (Cons l limits)
  obtain c n where l: "l = (c, n)" by (cases l)
  define here where "here = (case map_of columns c of Some (Some v) \<Rightarrow> if n < length v then [(c, n, v)] else [] | _ \<Rightarrow> [])"
  have split: "over_length columns (l # limits) = here @ over_length columns limits"
    by (simp add: over_length_def here_def l)
  have ih: "map_of (fold cut_column (over_length columns limits) (fold cut_column here d)) k =
     (case (map_of limits k, map_of columns k) of
        (Some n, Some (Some v)) \<Rightarrow> if n < length v then Some (Some (take n v)) else map_of (fold cut_column here d) k
      | _ \<Rightarrow> map_of (fold cut_column here d) k)"
    using Cons by simp
  have here_k: "map_of (fold cut_column here d) k =
     (case map_of columns c of
        Some (Some v) \<Rightarrow> if n < length v \<and> k = c then Some (Some (take n v)) else map_of d k | _ \<Rightarrow> map_of d k)"
    by (auto simp: here_def cut_column_def od_laws split: option.splits)
  show ?case
  proof (cases "k = c")
    case True
    then have "map_of limits k = None" using Cons.prems by (auto simp: l map_of_eq_None_iff)
    with True ih here_k show ?thesis by (auto simp: split [unfolded l] l split: option.splits)
  next
    case False
    then have "map_of (fold cut_column here d) k = map_of d k" using here_k by (auto split: option.splits)
    with False ih show ?thesis by (auto simp: split [unfolded l] l split: option.splits)
  qed
qed (simp add: over_length_def)

lemma limits_distinct: "distinct (map fst txn_str_limits)"
  by code_simp

lemma capped_lookup:
  "map_of (v_text (cap_over_length v)) k =
     (case (map_of txn_str_limits k, map_of (v_text v) k) of
        (Some n, Some (Some t)) \<Rightarrow> if n < length t then Some (Some (take n t)) else Some (Some t)
      | _ \<Rightarrow> map_of (v_text v) k)"
proof -
  have "v_text (cap_over_length v) = fold cut_column (over_length (v_text v) txn_str_limits) (v_text v)"
  proof -
    have "cut_column = (\<lambda>(k, n, t). AList.update k (Some (take n t)))" by (intro ext) (simp add: cut_column_def split_beta)
    then show ?thesis by (simp add: cap_over_length_def)
  qed
  then show ?thesis using cut_column_lookup [OF limits_distinct, of "v_text v" "v_text v" k]
    by (auto split: option.splits)
qed

text \<open>after the cap every column holds its value cut to the column's width: a value that fits is
  untouched, an over-long one is its longest prefix that fits, and a column without a width is untouched.\<close>

theorem capped_columns_fit:
  "map_of (v_text (cap_over_length v)) k =
     map_option (map_option (\<lambda>t. case map_of txn_str_limits k of None \<Rightarrow> t | Some n \<Rightarrow> take n t)) (map_of (v_text v) k)"
  by (cases "map_of txn_str_limits k"; cases "map_of (v_text v) k")
    (auto simp: capped_lookup option.map_ident split: option.splits)

subsection \<open>Sealing\<close>

text \<open>a seal is never taken back: a transaction sealed by the cutoffs of one newest instant is sealed by
  those of any later one.\<close>

theorem sealed_stays_sealed:
  assumes "is_sealed v (fst (cutoffs sw aw (Some t))) (snd (cutoffs sw aw (Some t)))" and "t \<le> t'"
  shows "is_sealed v (fst (cutoffs sw aw (Some t'))) (snd (cutoffs sw aw (Some t')))"
  using assms by (auto simp: is_sealed_def cutoffs_def split: option.splits if_splits)

lemma sealed_stays_sealed_witness:
  "is_sealed (compute_txn (\<lambda>t. 0) millisecond_lines) (Some (seconds 200 - seconds 60)) (Some (seconds 200 - seconds 3600))"
proof -
  have "ended_at_of millisecond_lines = Some 1001000" "fst (outcome millisecond_lines) = Success" by code_simp+
  then have "is_sealed (compute_txn (\<lambda>t. 0) millisecond_lines) (fst (cutoffs (seconds 60) (seconds 3600) (Some (seconds 100))))
      (snd (cutoffs (seconds 60) (seconds 3600) (Some (seconds 100))))"
    by (simp add: is_sealed_def compute_txn_def cutoffs_def seconds_def)
  from sealed_stays_sealed [OF this, of "seconds 200"] show ?thesis by (simp add: cutoffs_def)
qed

end
