(* ===== verification/Windows.thy ===== *)
theory Windows
  imports Prelude Floats
begin

text \<open>
  The arithmetic of time windows: \<open>time_bounds.py\<close> (half-open UTC windows and the partition predicate) and
  the run planning of \<open>derive_transactions.py\<close> (\<open>_regroup_pad\<close>, \<open>_coalesce\<close>, \<open>_coalesce_pending\<close>,
  \<open>_split_run\<close>, \<open>_clash_window\<close>). Every instant is aware, so \<open>_as_utc\<close> is the identity. The time-zone database
  is a parameter: \<open>zones\<close> finds a zone by name and \<open>to_utc zone\<close> maps a local wall-clock reading (in
  microseconds, as if it were UTC) to the instant it names.
\<close>

subsection \<open>Half-open windows\<close>

record window =
  w_start :: "instant option"
  w_end :: "instant option"

definition tick :: duration where
  "tick = 1"

definition range_ok :: "window \<Rightarrow> instant \<Rightarrow> bool" where
  "range_ok w t \<longleftrightarrow>
     (case w_start w of None \<Rightarrow> True | Some s \<Rightarrow> s \<le> t) \<and> (case w_end w of None \<Rightarrow> True | Some e \<Rightarrow> t < e)"

text \<open>\<open>covers\<close>: the predicate on a nullable column; a range predicate is not true of NULL.\<close>

definition covers :: "window \<Rightarrow> bool \<Rightarrow> instant option \<Rightarrow> bool" where
  "covers w include_null column =
     (case column of
        None \<Rightarrow> include_null \<or> w_start w = None \<and> w_end w = None
      | Some t \<Rightarrow> range_ok w t)"

fun known :: "instant option list \<Rightarrow> instant list" where
  "known [] = []"
| "known (None # xs) = known xs"
| "known (Some t # xs) = t # known xs"

definition from_instants :: "instant option list \<Rightarrow> duration \<Rightarrow> window option" where
  "from_instants instants pad =
     (case known instants of
        [] \<Rightarrow> None
      | t # ts \<Rightarrow> Some \<lparr>w_start = Some (fold min ts t - pad), w_end = Some (fold max ts t + pad + tick)\<rparr>)"

definition day_us :: duration where
  "day_us = 86400000000"

definition local_date_pad :: duration where
  "local_date_pad = seconds (27 * 3600)"

definition zone_of :: "(string \<Rightarrow> 'z option) \<Rightarrow> 'z \<Rightarrow> string \<Rightarrow> 'z" where
  "zone_of zones utc name = (case zones name of Some z \<Rightarrow> z | None \<Rightarrow> utc)"

definition local_midnight_utc :: "('z \<Rightarrow> int \<Rightarrow> instant) \<Rightarrow> int option \<Rightarrow> 'z \<Rightarrow> int \<Rightarrow> duration \<Rightarrow> instant option" where
  "local_midnight_utc to_utc day zone plus_days shift =
     map_option (\<lambda>d. to_utc zone ((d + plus_days) * day_us) + shift) day"

definition from_local_dates ::
    "(string \<Rightarrow> 'z option) \<Rightarrow> 'z \<Rightarrow> ('z \<Rightarrow> int \<Rightarrow> instant) \<Rightarrow> int option \<Rightarrow> int option \<Rightarrow> string \<Rightarrow> duration \<Rightarrow> window option" where
  "from_local_dates zones utc to_utc date_from date_to tz_name pad =
     (if date_from = None \<and> date_to = None then None
      else let zone = zone_of zones utc tz_name
           in Some \<lparr>w_start = local_midnight_utc to_utc date_from zone 0 (- pad),
                    w_end = local_midnight_utc to_utc date_to zone 1 pad\<rparr>)"

subsection \<open>Settings of Stage 2\<close>

record config =
  open_gap :: duration
  seal_window :: int
  abandon_window :: int
  regroup_pad_seconds :: int
  max_window_seconds :: int
  max_attempts :: nat
  backoff_base :: rat
  backoff_cap :: rat

definition regroup_pad :: "config \<Rightarrow> duration" where
  "regroup_pad c = seconds (max (regroup_pad_seconds c) (seal_window c))"

definition clash_window :: "config \<Rightarrow> instant option list \<Rightarrow> window option" where
  "clash_window c timestamps = from_instants timestamps (regroup_pad c)"

subsection \<open>Coalescing ranges\<close>

type_synonym span = "instant \<times> instant"

text \<open>The last merged range is the head of the accumulator.\<close>

definition coalesce_step :: "duration \<Rightarrow> span \<Rightarrow> span list \<Rightarrow> span list" where
  "coalesce_step gap r merged =
     (case (r, merged) of
        ((s, e), (ps, pe) # rest) \<Rightarrow> if s \<le> pe + gap then (ps, max pe e) # rest else r # merged
      | _ \<Rightarrow> [r])"

definition coalesce :: "duration \<Rightarrow> span list \<Rightarrow> span list" where
  "coalesce gap ranges = rev (fold (coalesce_step gap) (sort ranges) [])"

text \<open>A run: its bounds and the tickets that formed it, latest run first while it is built.\<close>

definition pending_step :: "('r \<Rightarrow> instant) \<Rightarrow> ('r \<Rightarrow> instant) \<Rightarrow> duration \<Rightarrow> 'r \<Rightarrow> (span \<times> 'r list) list \<Rightarrow> (span \<times> 'r list) list" where
  "pending_step rs re gap p runs =
     (case runs of
        ((lo, hi), rows) # rest \<Rightarrow>
          (if rs p \<le> hi + gap then ((lo, max hi (re p)), rows @ [p]) # rest
           else ((rs p, re p), [p]) # runs)
      | [] \<Rightarrow> [((rs p, re p), [p])])"

definition coalesce_pending :: "('r \<Rightarrow> instant) \<Rightarrow> ('r \<Rightarrow> instant) \<Rightarrow> duration \<Rightarrow> 'r list \<Rightarrow> (span \<times> 'r list) list" where
  "coalesce_pending rs re gap pend = rev (fold (pending_step rs re gap) (sort_key rs pend) [])"

subsection \<open>Splitting a run\<close>

text \<open>\<open>timedelta.total_seconds()\<close>, a float.\<close>

definition total_seconds :: "duration \<Rightarrow> rat" where
  "total_seconds d = fdiv (of_int d) 1000000"

function split_from :: "instant \<Rightarrow> instant \<Rightarrow> duration \<Rightarrow> span list" where
  "split_from cur hi step =
     (if cur < hi \<and> 0 < step then (cur, min (cur + step) hi) # split_from (min (cur + step) hi) hi step else [])"
  by pat_completeness auto
termination by (relation "measure (\<lambda>(cur, hi, step). nat (hi - cur))") auto

declare split_from.simps [simp del]

definition split_run :: "instant \<Rightarrow> instant \<Rightarrow> int \<Rightarrow> span list" where
  "split_run lo hi max_seconds =
     (if max_seconds \<le> 0 \<or> total_seconds (hi - lo) \<le> of_int max_seconds then [(lo, hi)]
      else split_from lo hi (seconds max_seconds))"

end
