(* ===== verification/WindowProperties.thy ===== *)
theory WindowProperties
  imports Windows
begin

text \<open>What the window arithmetic guarantees: nothing is cut off, nothing is counted twice, nothing overlaps.\<close>

subsection \<open>Windows around instants\<close>

lemma known_in: "Some t \<in> set ts \<Longrightarrow> t \<in> set (known ts)"
  by (induction ts rule: known.induct) auto

lemma from_instants_covers:
  assumes "from_instants ts pad = Some w" and "Some t \<in> set ts" and "t - pad \<le> u" and "u \<le> t + pad"
  shows "covers w null (Some u)"
proof -
  from assms(1) obtain x xs where xs: "known ts = x # xs" by (cases "known ts") (auto simp: from_instants_def)
  have "t \<in> set (x # xs)" using known_in [OF assms(2)] xs by simp
  then have "Min (set (x # xs)) \<le> t" "t \<le> Max (set (x # xs))" by (intro Min_le Max_ge; simp)+
  then have "fold min xs x \<le> t" "t \<le> fold max xs x" by (simp_all add: Min.set_eq_fold Max.set_eq_fold del: list.set)
  with assms xs show ?thesis by (auto simp: from_instants_def covers_def range_ok_def tick_def)
qed

text \<open>the clash-check window misses nothing: a transaction that starts within one pad of any line being
  written is inside it, and so is one with no start instant.\<close>

theorem clash_window_is_wide_enough:
  assumes "clash_window c ts = Some w" and "Some t \<in> set ts" and "t - regroup_pad c \<le> u" and "u \<le> t + regroup_pad c"
  shows "covers w True (Some u) \<and> covers w True None"
  using from_instants_covers [OF assms(1) [unfolded clash_window_def] assms(2-4)] by (simp add: covers_def)

definition sample_config :: config where
  "sample_config = \<lparr>open_gap = seconds 300, seal_window = 900, abandon_window = 3600, regroup_pad_seconds = 900,
     max_window_seconds = 21600, max_attempts = 3, backoff_base = 30, backoff_cap = 1800\<rparr>"

lemma clash_window_is_wide_enough_witness:
  "covers \<lparr>w_start = Some (seconds 100), w_end = Some (seconds 2000 + 1)\<rparr> True (Some (seconds 1500))"
proof -
  have "clash_window sample_config [Some (seconds 1000), None, Some (seconds 1100)]
      = Some \<lparr>w_start = Some (seconds 100), w_end = Some (seconds 2000 + 1)\<rparr>" by code_simp
  from clash_window_is_wide_enough [OF this, of "seconds 1000" "seconds 1500"] show ?thesis
    by (simp add: sample_config_def regroup_pad_def seconds_def)
qed

subsection \<open>Windows of local days\<close>

text \<open>
  The offset of a zone at a local reading, as the time-zone database documents it: between UTC-12 and UTC+14.
\<close>

definition sane_offset :: "duration \<Rightarrow> bool" where
  "sane_offset o' \<longleftrightarrow> seconds (- 12 * 3600) \<le> o' \<and> o' \<le> seconds (14 * 3600)"

text \<open>the default pad of a local-date window survives a change of the customer's time zone: an instant
  whose local day fell in the range under ANY offset between UTC-12 and UTC+14 is in the window computed under
  any zone whose midnights are offset by as much.\<close>

theorem local_window_survives_zone_change:
  assumes w: "from_local_dates zones utc to_utc (Some a) (Some b) name local_date_pad = Some w"
    and zone: "\<And>d. sane_offset (d * day_us - to_utc (zone_of zones utc name) (d * day_us))"
    and offset: "sane_offset off" and day: "a \<le> (t + off) div day_us" "(t + off) div day_us \<le> b"
  shows "covers w null (Some t)"
proof -
  define z where "z = zone_of zones utc name"
  have w': "w = \<lparr>w_start = Some (to_utc z (a * day_us) - local_date_pad),
                 w_end = Some (to_utc z ((b + 1) * day_us) + local_date_pad)\<rparr>"
    using w by (auto simp: from_local_dates_def local_midnight_utc_def z_def Let_def)
  have "a * day_us \<le> t + off"
  proof -
    have "a * day_us \<le> (t + off) div day_us * day_us" using day(1) by (intro mult_right_mono) (auto simp: day_us_def)
    also have "\<dots> \<le> t + off" by (simp add: day_us_def)
    finally show ?thesis .
  qed
  moreover have "t + off < (b + 1) * day_us"
  proof -
    have "(t + off) div day_us < b + 1" using day(2) by simp
    then show ?thesis by (simp add: day_us_def)
  qed
  ultimately show ?thesis using zone [of a, folded z_def] zone [of "b + 1", folded z_def] offset
    by (simp add: w' covers_def range_ok_def sane_offset_def local_date_pad_def seconds_def)
qed

lemma local_window_survives_zone_change_witness:
  "covers \<lparr>w_start = Some (10 * day_us - local_date_pad), w_end = Some (11 * day_us + local_date_pad)\<rparr> False
     (Some (11 * day_us + seconds 36000))"
proof (rule local_window_survives_zone_change
    [of "\<lambda>n. if n = ''UTC'' then Some () else None" "()" "\<lambda>z t. t" 10 10 "''UTC''" _ "seconds (- 12 * 3600)"])
  show "from_local_dates (\<lambda>n. if n = ''UTC'' then Some () else None) () (\<lambda>z t. t) (Some 10) (Some 10) ''UTC'' local_date_pad =
      Some \<lparr>w_start = Some (10 * day_us - local_date_pad), w_end = Some (11 * day_us + local_date_pad)\<rparr>"
    by (simp add: from_local_dates_def local_midnight_utc_def)
qed (simp_all add: sane_offset_def seconds_def day_us_def)

subsection \<open>Splitting a run\<close>

lemma split_from_spans: "(a, b) \<in> set (split_from cur hi step) \<Longrightarrow> cur \<le> a \<and> a < b \<and> b \<le> hi \<and> b - a \<le> step"
proof (induction cur hi step rule: split_from.induct)
  case (1 cur hi step)
  show ?case
  proof (cases "cur < hi \<and> 0 < step")
    case True
    with 1 show ?thesis by (subst (asm) (2) split_from.simps) (fastforce split: if_splits)
  next
    case False
    with 1 show ?thesis by (subst (asm) (2) split_from.simps) simp
  qed
qed

lemma split_from_cover:
  "cur \<le> t \<Longrightarrow> t \<le> hi \<Longrightarrow> cur < hi \<Longrightarrow> 0 < step \<Longrightarrow> \<exists>(a, b) \<in> set (split_from cur hi step). a \<le> t \<and> t \<le> b"
proof (induction cur hi step rule: split_from.induct)
  case (1 cur hi step)
  define nxt where "nxt = min (cur + step) hi"
  have unfold: "split_from cur hi step = (cur, nxt) # split_from nxt hi step"
    using 1 by (subst split_from.simps) (simp add: nxt_def)
  show ?case
  proof (cases "t \<le> nxt")
    case True
    with 1 show ?thesis by (auto simp: unfold)
  next
    case False
    with 1 show ?thesis by (auto simp: unfold nxt_def)
  qed
qed

lemma total_seconds_le:
  assumes "0 \<le> d" and "d \<le> 10 ^ 15" and "total_seconds d \<le> of_int n"
  shows "d \<le> seconds n"
proof (rule ccontr)
  assume "\<not> d \<le> seconds n"
  then have "n * 1000000 + 1 \<le> d" by (simp add: seconds_def)
  then have "(of_int (n * 1000000 + 1) :: rat) \<le> of_int d" by (simp only: of_int_le_iff)
  then have above: "of_int n + 1 / 1000000 \<le> (of_int d / 1000000 :: rat)" by simp
  have "(of_int d :: rat) \<le> of_int (10 ^ 15)" using assms(2) by (simp only: of_int_le_iff)
  then have "of_int d / 1000000 * ulp \<le> 10 ^ 9 * ulp" by (intro mult_right_mono) (auto simp: ulp_def)
  then have "of_int d / 1000000 * ulp < 1 / 1000000" by (simp add: ulp_def)
  moreover have "\<bar>total_seconds d - of_int d / 1000000\<bar> \<le> of_int d / 1000000 * ulp"
    using fl_error [of "of_int d / 1000000"] assms(1) by (simp add: total_seconds_def fdiv_def)
  ultimately show False using above assms(3) by linarith
qed

text \<open>C30: splitting a run loses no instant and bounds every piece: each instant of the run is in a window,
  every window is inside the run, and with a positive limit none is longer than the limit (for runs up to ten to
  the fifteenth microseconds).\<close>

theorem split_run_covers_and_bounds:
  assumes "lo \<le> hi" and "hi - lo \<le> 10 ^ 15"
  shows "(\<forall>t. lo \<le> t \<and> t \<le> hi \<longrightarrow> (\<exists>(a, b) \<in> set (split_run lo hi m). a \<le> t \<and> t \<le> b))
       \<and> (\<forall>(a, b) \<in> set (split_run lo hi m). lo \<le> a \<and> a \<le> b \<and> b \<le> hi \<and> (0 < m \<longrightarrow> b - a \<le> seconds m))"
proof (cases "m \<le> 0 \<or> total_seconds (hi - lo) \<le> of_int m")
  case True
  then show ?thesis using assms total_seconds_le [of "hi - lo" m] by (auto simp: split_run_def)
next
  case False
  then have "hi \<noteq> lo" by (auto simp: total_seconds_def fdiv_def)
  with assms have "lo < hi" by simp
  with False show ?thesis
    using split_from_cover [of lo _ hi "seconds m"] split_from_spans [of _ _ lo hi "seconds m"]
    by (fastforce simp: split_run_def seconds_def)
qed

lemma split_run_covers_and_bounds_witness:
  "\<exists>(a, b) \<in> set (split_run 0 (seconds 50) 20). a \<le> seconds 45 \<and> seconds 45 \<le> b"
  using split_run_covers_and_bounds [of 0 "seconds 50" 20] by (simp add: seconds_def)

subsection \<open>Coalescing tickets\<close>

text \<open>The state of the coalescing loop, latest run first, and what each step keeps of it.\<close>

definition runs_ok :: "('r \<Rightarrow> instant) \<Rightarrow> ('r \<Rightarrow> instant) \<Rightarrow> duration \<Rightarrow> (span \<times> 'r list) list \<Rightarrow> bool" where
  "runs_ok rs re gap runs \<longleftrightarrow>
     (\<forall>((lo, hi), rows) \<in> set runs. rows \<noteq> [] \<and> (\<forall>p \<in> set rows. lo \<le> rs p \<and> re p \<le> hi))
     \<and> sorted_wrt (\<lambda>a b. snd (fst b) + gap < fst (fst a)) runs"

lemma pending_step_ok:
  assumes "runs_ok rs re gap runs" and "\<forall>r \<in> set runs. fst (fst r) \<le> rs p"
  shows "runs_ok rs re gap (pending_step rs re gap p runs)
    \<and> mset (concat (map snd (pending_step rs re gap p runs))) = add_mset p (mset (concat (map snd runs)))
    \<and> (\<forall>r \<in> set (pending_step rs re gap p runs). fst (fst r) \<le> rs p)"
proof (cases runs)
  case Nil
  then show ?thesis by (simp add: pending_step_def runs_ok_def)
next
  case (Cons r rest)
  obtain lo hi rows where r: "r = ((lo, hi), rows)" by (metis surj_pair)
  show ?thesis
  proof (cases "rs p \<le> hi + gap")
    case True
    with assms show ?thesis by (fastforce simp: Cons r pending_step_def runs_ok_def)
  next
    case False
    have "snd (fst b) + gap < rs p" if "b \<in> set rest" for b
      using that assms by (fastforce simp: Cons r runs_ok_def)
    with False assms show ?thesis by (auto simp: Cons r pending_step_def runs_ok_def)
  qed
qed

lemma pending_fold_ok:
  assumes "sorted (map rs ps)" and "runs_ok rs re gap runs" and "\<forall>r \<in> set runs. \<forall>p \<in> set ps. fst (fst r) \<le> rs p"
  shows "runs_ok rs re gap (fold (pending_step rs re gap) ps runs)
    \<and> mset (concat (map snd (fold (pending_step rs re gap) ps runs))) = mset (concat (map snd runs)) + mset ps"
  using assms
proof (induction ps arbitrary: runs)
  case (Cons p ps)
  note step = pending_step_ok [OF Cons.prems(2), of p]
  have "\<forall>r \<in> set (pending_step rs re gap p runs). \<forall>q \<in> set ps. fst (fst r) \<le> rs q"
    using step Cons.prems by (fastforce intro: order.trans)
  with Cons.IH [of "pending_step rs re gap p runs"] step Cons.prems show ?case by simp
qed simp

lemma coalesced_runs:
  "mset (concat (map snd (coalesce_pending rs re gap pend))) = mset pend
   \<and> (\<forall>((lo, hi), rows) \<in> set (coalesce_pending rs re gap pend). rows \<noteq> [] \<and> (\<forall>p \<in> set rows. lo \<le> rs p \<and> re p \<le> hi))
   \<and> sorted_wrt (\<lambda>a b. snd (fst a) + gap < fst (fst b)) (coalesce_pending rs re gap pend)"
proof -
  define runs where "runs = fold (pending_step rs re gap) (sort_key rs pend) []"
  have "runs_ok rs re gap runs \<and> mset (concat (map snd runs)) = mset pend"
    using pending_fold_ok [of rs "sort_key rs pend" re gap "[]"] by (simp add: runs_def runs_ok_def)
  moreover have "coalesce_pending rs re gap pend = rev runs" by (simp add: coalesce_pending_def runs_def)
  moreover have "mset (concat (map snd (rev runs))) = mset (concat (map snd runs))"
    by (intro mset_concat_cong) (simp add: rev_map)
  ultimately show ?thesis by (simp add: runs_ok_def sorted_wrt_rev)
qed

text \<open>The coalesced runs partition the tickets: every ticket is in exactly one run (as often as it is
  open), its range lies inside the run's, and two runs are further apart than the gap, so their padded windows
  cannot overlap.\<close>

theorem coalesced_runs_partition_tickets:
  "mset (concat (map snd (coalesce_pending rs re gap pend))) = mset pend
   \<and> (\<forall>((lo, hi), rows) \<in> set (coalesce_pending rs re gap pend). rows \<noteq> [] \<and> (\<forall>p \<in> set rows. lo \<le> rs p \<and> re p \<le> hi))
   \<and> sorted_wrt (\<lambda>a b. snd (fst a) + gap < fst (fst b)) (coalesce_pending rs re gap pend)"
  by (rule coalesced_runs)

lemma coalesced_runs_partition_tickets_witness:
  "mset (concat (map snd (coalesce_pending fst snd 10 [(50 :: int, 60), (0, 5), (8, 20)]))) = {#(50, 60), (0, 5), (8, 20)#}
   \<and> coalesce_pending fst snd 10 [(50 :: int, 60), (0, 5), (8, 20)] = [((0, 20), [(0, 5), (8, 20)]), ((50, 60), [(50, 60)])]"
proof
  show "mset (concat (map snd (coalesce_pending fst snd 10 [(50 :: int, 60), (0, 5), (8, 20)]))) = {#(50, 60), (0, 5), (8, 20)#}"
    using coalesced_runs_partition_tickets [of fst snd 10 "[(50 :: int, 60), (0, 5), (8, 20)]"] by (simp add: add_mset_commute)
  show "coalesce_pending fst snd 10 [(50 :: int, 60), (0, 5), (8, 20)] = [((0, 20), [(0, 5), (8, 20)]), ((50, 60), [(50, 60)])]"
    by code_simp
qed

end
