(* ===== verification/Fingerprints.thy ===== *)
theory Fingerprints
  imports TxnCompute
begin

text \<open>
  \<open>fingerprints.py\<close>: the two digests of a stored transaction. The payload is a JSON value, its text is what
  \<open>json.dumps(sort_keys=True, separators=(",", ":"), ensure_ascii=True)\<close> writes, and the digest of that text
  (\<open>sha256\<close>, hexadecimal) is a parameter \<open>sha\<close>. Instants and days are written as \<open>isoformat\<close> does, by the
  proleptic Gregorian calendar. \<open>attributes\<close> keys are the ones of a dict, hence distinct.
\<close>

subsection \<open>Hexadecimal and UUIDs\<close>

fun hex_fixed :: "nat \<Rightarrow> nat \<Rightarrow> string" where
  "hex_fixed 0 n = []"
| "hex_fixed (Suc w) n = hex_fixed w (n div 16) @ [hex_char (int (n mod 16))]"

text \<open>\<open>str(uuid)\<close>.\<close>

definition uuid_str :: "uuid \<Rightarrow> string" where
  "uuid_str n =
     (let h = hex_fixed 32 n
      in take 8 h @ ''-'' @ take 4 (drop 8 h) @ ''-'' @ take 4 (drop 12 h) @ ''-'' @ take 4 (drop 16 h)
         @ ''-'' @ drop 20 h)"

subsection \<open>Calendar\<close>

definition pad_int :: "nat \<Rightarrow> int \<Rightarrow> string" where
  "pad_int w i = (let s = int_str i in replicate (w - length s) CHR ''0'' @ s)"

text \<open>Year, month and day of a day counted from 1970-01-01.\<close>

definition civil :: "int \<Rightarrow> int \<times> int \<times> int" where
  "civil z0 =
     (let z = z0 + 719468;
          era = z div 146097;
          doe = z - era * 146097;
          yoe = (doe - doe div 1460 + doe div 36524 - doe div 146096) div 365;
          doy = doe - (365 * yoe + yoe div 4 - yoe div 100);
          mp = (5 * doy + 2) div 153;
          d = doy - (153 * mp + 2) div 5 + 1;
          m = (if mp < 10 then mp + 3 else mp - 9)
      in (yoe + era * 400 + (if m \<le> 2 then 1 else 0), m, d))"

definition iso_date :: "int \<Rightarrow> string" where
  "iso_date day = (let (y, m, d) = civil day in pad_int 4 y @ ''-'' @ pad_int 2 m @ ''-'' @ pad_int 2 d)"

definition iso_utc :: "instant \<Rightarrow> string" where
  "iso_utc t =
     (let day = t div 86400000000; us = t mod 86400000000; s = us div 1000000; frac = us mod 1000000
      in iso_date day @ ''T'' @ pad_int 2 (s div 3600) @ '':'' @ pad_int 2 (s div 60 mod 60) @ '':'' @ pad_int 2 (s mod 60)
         @ (if frac = 0 then [] else ''.'' @ pad_int 6 frac) @ ''+00:00'')"

subsection \<open>The JSON text\<close>

definition json_char :: "char \<Rightarrow> string" where
  "json_char c =
     (let n = of_char c :: int
      in if n = 34 then [char_of (92::int), c]
         else if n = 92 then [c, c]
         else if n = 10 then [char_of (92::int), CHR ''n'']
         else if n = 13 then [char_of (92::int), CHR ''r'']
         else if n = 9 then [char_of (92::int), CHR ''t'']
         else if n = 8 then [char_of (92::int), CHR ''b'']
         else if n = 12 then [char_of (92::int), CHR ''f'']
         else if n < 32 \<or> 127 < n
           then [char_of (92::int), CHR ''u'', CHR ''0'', CHR ''0'', hex_char (n div 16), hex_char (n mod 16)]
         else [c])"

definition json_string :: "string \<Rightarrow> string" where
  "json_string s = [char_of (34::int)] @ concat (map json_char s) @ [char_of (34::int)]"

fun dumps :: "json \<Rightarrow> string" where
  "dumps JNull = ''null''"
| "dumps (JBool b) = (if b then ''true'' else ''false'')"
| "dumps (JInt i) = int_str i"
| "dumps (JFloat t) = t"
| "dumps (JStr s) = json_string s"
| "dumps (JList xs) = ''['' @ join '','' (map dumps xs) @ '']''"
| "dumps (JObj kvs) =
     ''{'' @ join '','' (map snd (sort_key fst (map (\<lambda>(k, v). (k, json_string k @ '':'' @ dumps v)) kvs))) @ ''}''"

definition digest :: "(string \<Rightarrow> string) \<Rightarrow> json \<Rightarrow> string" where
  "digest sha payload = sha (dumps payload)"

subsection \<open>The two fingerprints\<close>

text \<open>\<open>_canonical\<close> on a JSON value: a float becomes its text, an object's keys are sorted.\<close>

fun canonical :: "json \<Rightarrow> json" where
  "canonical (JFloat t) = JStr t"
| "canonical (JList xs) = JList (map canonical xs)"
| "canonical (JObj kvs) = JObj (sort_key fst (map (\<lambda>(k, v). (k, canonical v)) kvs))"
| "canonical v = v"

fun status_value :: "txn_status \<Rightarrow> string" where
  "status_value Success = ''success''"
| "status_value Soft = ''soft''"
| "status_value Error = ''error''"
| "status_value Incomplete = ''incomplete''"

definition opt_json :: "('a \<Rightarrow> json) \<Rightarrow> 'a option \<Rightarrow> json" where
  "opt_json f x = (case x of None \<Rightarrow> JNull | Some v \<Rightarrow> f v)"

definition values_payload :: "txn_values \<Rightarrow> (string \<times> json) list" where
  "values_payload v =
     map (\<lambda>(k, t). (k, opt_json JStr t)) (v_text v) @
     [(''job_id'', JStr (uuid_str (v_job v))),
      (''started_at'', opt_json (JStr \<circ> iso_utc) (v_started v)), (''ended_at'', opt_json (JStr \<circ> iso_utc) (v_ended v)),
      (''date'', opt_json (JStr \<circ> iso_date) (v_date v)), (''duration_ms'', opt_json JInt (v_duration v)),
      (''status'', JStr (status_value (v_status v))), (''entry_count'', JInt (int (v_entry_count v))),
      (''mi_program_count'', JInt (int (v_mi_count v))), (''attributes'', canonical (JObj (v_attributes v)))]"

definition derive_version :: int where
  "derive_version = 5"

definition row_fingerprint :: "(string \<Rightarrow> string) \<Rightarrow> txn_values \<Rightarrow> bool \<Rightarrow> string option \<Rightarrow> string" where
  "row_fingerprint sha v sealed tz =
     digest sha (JObj (values_payload v @
       [(''__sealed'', JBool sealed), (''__tz'', JStr (if text_of tz = [] then ''UTC'' else text_of tz)),
        (''__derive_version'', JInt derive_version)]))"

definition members_fingerprint :: "(string \<Rightarrow> string) \<Rightarrow> uuid list \<Rightarrow> string" where
  "members_fingerprint sha ids = digest sha (JList (map JStr (sort (map uuid_str ids))))"

subsection \<open>The members digest determines the members\<close>

lemma hex_char_inj:
  assumes "a < 16" and "b < 16" and "hex_char (int a) = hex_char (int b)"
  shows "a = b"
proof -
  have "of_char (hex_char (int n)) = (if n < 10 then 48 + int n else 87 + int n)" if "n < 16" for n
    using that by (simp add: hex_char_def)
  then have "(if a < 10 then 48 + int a else 87 + int a) = (if b < 10 then 48 + int b else 87 + int b)"
    using assms by metis
  then show ?thesis by (auto split: if_splits)
qed

lemma length_hex_fixed [simp]: "length (hex_fixed w n) = w"
  by (induction w arbitrary: n) simp_all

lemma hex_fixed_inj: "m < 16 ^ w \<Longrightarrow> n < 16 ^ w \<Longrightarrow> hex_fixed w m = hex_fixed w n \<Longrightarrow> m = n"
proof (induction w arbitrary: m n)
  case (Suc w)
  then have "hex_fixed w (m div 16) = hex_fixed w (n div 16)" and c: "hex_char (int (m mod 16)) = hex_char (int (n mod 16))"
    by simp_all
  with Suc have "m div 16 = n div 16" by (auto simp: less_mult_imp_div_less mult.commute)
  moreover have "m mod 16 = n mod 16" using c by (intro hex_char_inj) auto
  ultimately show ?case by (metis div_mult_mod_eq)
qed simp

lemma uuid_str_parts: "take 8 h @ s @ take 4 (drop 8 h) @ s @ take 4 (drop 12 h) @ s @ take 4 (drop 16 h) @ s @ drop 20 h
    = take 8 h' @ s @ take 4 (drop 8 h') @ s @ take 4 (drop 12 h') @ s @ take 4 (drop 16 h') @ s @ drop 20 h'
  \<Longrightarrow> length h = 32 \<Longrightarrow> length h' = 32 \<Longrightarrow> h = h'"
proof -
  assume eq: "take 8 h @ s @ take 4 (drop 8 h) @ s @ take 4 (drop 12 h) @ s @ take 4 (drop 16 h) @ s @ drop 20 h
    = take 8 h' @ s @ take 4 (drop 8 h') @ s @ take 4 (drop 12 h') @ s @ take 4 (drop 16 h') @ s @ drop 20 h'"
    and l: "length h = 32" "length h' = 32"
  have whole: "g = take 8 g @ take 4 (drop 8 g) @ take 4 (drop 12 g) @ take 4 (drop 16 g) @ drop 20 g" for g :: "'a list"
  proof -
    have step: "drop k g = take 4 (drop k g) @ drop (k + 4) g" for k
      by (metis add.commute append_take_drop_id drop_drop)
    show ?thesis using step [of 8] step [of 12] step [of 16] append_take_drop_id [of 8 g] by simp
  qed
  from eq l have "take 8 h = take 8 h'" "take 4 (drop 8 h) = take 4 (drop 8 h')" "take 4 (drop 12 h) = take 4 (drop 12 h')"
    "take 4 (drop 16 h) = take 4 (drop 16 h')" "drop 20 h = drop 20 h'" by simp_all
  then show ?thesis using whole [of h] whole [of h'] by simp
qed

lemma uuid_str_inj: "m < 16 ^ 32 \<Longrightarrow> n < 16 ^ 32 \<Longrightarrow> uuid_str m = uuid_str n \<Longrightarrow> m = n"
proof (rule hex_fixed_inj [of m 32 n])
  assume "uuid_str m = uuid_str n"
  then show "hex_fixed 32 m = hex_fixed 32 n"
    unfolding uuid_str_def Let_def by (rule uuid_str_parts) (simp_all only: length_hex_fixed)
qed

lemma length_uuid_str [simp]: "length (uuid_str n) = 36"
  by (simp add: uuid_str_def Let_def)

lemma join_fixed_inj:
  "\<forall>x \<in> set xs. length x = w \<Longrightarrow> \<forall>y \<in> set ys. length y = w \<Longrightarrow> 0 < w \<Longrightarrow> join [c] xs = join [c] ys \<Longrightarrow> xs = ys"
proof (induction xs arbitrary: ys)
  case Nil
  then show ?case by (cases ys; cases "tl ys") auto
next
  case (Cons x xs)
  then obtain y ys' where ys: "ys = y # ys'" by (cases ys; cases xs) auto
  have join: "join [c] (z # zs) = z @ (if zs = [] then [] else c # join [c] zs)" for z zs by (cases zs) auto
  have lens: "length x = length y" using Cons.prems ys by simp
  have eq: "x @ (if xs = [] then [] else c # join [c] xs) = y @ (if ys' = [] then [] else c # join [c] ys')"
    using Cons.prems(4) unfolding ys join .
  with lens have "x = y" and rest: "(if xs = [] then [] else c # join [c] xs) = (if ys' = [] then [] else c # join [c] ys')"
    by simp_all
  from rest have "join [c] xs = join [c] ys'" "xs = [] \<longleftrightarrow> ys' = []" by (auto split: if_splits)
  with Cons.IH [of ys'] Cons.prems ys \<open>x = y\<close> show ?case by simp
qed

lemma json_char_hex: "n < 16 \<Longrightarrow> json_char (hex_char (int n)) = [hex_char (int n)]"
  by (auto simp: json_char_def hex_char_def Let_def)

lemma hex_fixed_plain: "\<forall>c \<in> set (hex_fixed w n). json_char c = [c]"
  by (induction w arbitrary: n) (auto simp: json_char_hex)

lemma uuid_plain: "\<forall>c \<in> set (uuid_str n). json_char c = [c]"
proof -
  have "json_char CHR ''-'' = ''-''" by code_simp
  then show ?thesis using hex_fixed_plain [of 32 n]
    by (auto simp: uuid_str_def Let_def dest: in_set_takeD in_set_dropD)
qed

lemma plain_concat: "\<forall>c \<in> set s. json_char c = [c] \<Longrightarrow> concat (map json_char s) = s"
  by (induction s) auto

lemma json_uuid: "json_string (uuid_str n) = [char_of (34::int)] @ uuid_str n @ [char_of (34::int)]"
  using plain_concat [OF uuid_plain [of n]] by (simp add: json_string_def)

lemma inj_json_uuid: "inj_on json_string (range uuid_str)"
  by (rule inj_onI) (auto simp: json_uuid)

lemma dumps_ids_inj:
  assumes eq: "dumps (JList (map JStr xs)) = dumps (JList (map JStr ys))"
    and "set xs \<subseteq> range uuid_str" "set ys \<subseteq> range uuid_str"
  shows "xs = ys"
proof -
  have "join '','' (map json_string xs) = join '','' (map json_string ys)" using eq by (simp add: comp_def)
  moreover have "\<forall>j \<in> set (map json_string zs). length j = 38" if "set zs \<subseteq> range uuid_str" for zs
    using that by (auto simp: json_uuid)
  ultimately have "map json_string xs = map json_string ys"
    using assms by (intro join_fixed_inj [where w = 38]) auto
  moreover have "inj_on json_string (set xs \<union> set ys)" using inj_json_uuid assms by (blast intro: inj_on_subset)
  ultimately show ?thesis by (metis map_inj_on)
qed

text \<open>With a digest function without collisions, equal members digests mean the same entries. The ids are sorted before
  they are digested, so their order does not count, although the comment of \<open>members\<close> speaks of an ordered digest.\<close>

lemma same_digest_same_members:
  assumes "inj sha" and "\<forall>i \<in> set xs \<union> set ys. i < 16 ^ 32" and "members_fingerprint sha xs = members_fingerprint sha ys"
  shows "mset xs = mset ys"
proof -
  have "dumps (JList (map JStr (sort (map uuid_str xs)))) = dumps (JList (map JStr (sort (map uuid_str ys))))"
    using assms(1,3) unfolding members_fingerprint_def digest_def by (rule injD)
  then have "sort (map uuid_str xs) = sort (map uuid_str ys)" by (rule dumps_ids_inj) auto
  then have "image_mset uuid_str (mset xs) = image_mset uuid_str (mset ys)" by (metis mset_map mset_sort)
  moreover have "inj_on uuid_str (set xs \<union> set ys)"
    using assms(2) by (intro inj_onI uuid_str_inj) auto
  ultimately show ?thesis
    using image_mset_eq_image_mset_plusD [of uuid_str "mset xs" "mset ys" "{#}"] by auto
qed

end
