(* ===== verification/Continuity.thy ===== *)
theory Continuity
  imports Prelude
begin

text \<open>
  \<open>continuity.py\<close>: carrying a transaction's id across a rebuild. A group is the list of its entry ids
  (\<open>entry.id\<close> is all the module reads of an entry); ids are compared as their bytes, which is the order of the
  numbers they encode.
\<close>

subsection \<open>The predecessors\<close>

record continuity =
  owner_by_entry :: "(uuid, uuid) odict"
  reusable :: "uuid list"

definition no_continuity :: continuity where
  "no_continuity = \<lparr>owner_by_entry = [], reusable = []\<rparr>"

definition owner_of :: "continuity \<Rightarrow> uuid \<Rightarrow> uuid option" where
  "owner_of c e =
     (case map_of (owner_by_entry c) e of
        Some w \<Rightarrow> if w \<in> set (reusable c) then Some w else None
      | None \<Rightarrow> None)"

subsection \<open>Votes, claims, awards\<close>

definition votes :: "continuity \<Rightarrow> uuid list \<Rightarrow> (uuid, nat) odict" where
  "votes c es = fold (\<lambda>e d. case owner_of c e of Some w \<Rightarrow> bump w 1 d | None \<Rightarrow> d) es []"

definition by_votes_then_id :: "uuid \<times> nat \<Rightarrow> nat \<times> uuid" where
  "by_votes_then_id item = (snd item, fst item)"

definition plurality_owner :: "continuity \<Rightarrow> uuid list \<Rightarrow> (uuid \<times> nat) option" where
  "plurality_owner c es = max_by by_votes_then_id (votes c es)"

text \<open>A claim: \<open>(- votes, fallback id, group index, owner)\<close>, in the order of Python's tuples.\<close>

type_synonym claim = "int \<times> uuid \<times> nat \<times> uuid"

definition claim_of :: "continuity \<Rightarrow> nat \<times> uuid list \<times> uuid \<Rightarrow> claim list" where
  "claim_of c g =
     (case g of (i, es, fallback) \<Rightarrow>
        (case plurality_owner c es of Some (w, n) \<Rightarrow> [(- int n, fallback, i, w)] | None \<Rightarrow> []))"

definition claims :: "continuity \<Rightarrow> uuid list list \<Rightarrow> uuid list \<Rightarrow> claim list" where
  "claims c groups fallbacks = sort (concat (map (claim_of c) (enumerate 0 (zip groups fallbacks))))"

fun award :: "claim list \<Rightarrow> uuid list \<Rightarrow> (nat, uuid) odict \<Rightarrow> (nat, uuid) odict" where
  "award [] taken awarded = awarded"
| "award ((_, _, i, w) # cs) taken awarded =
     (if w \<in> set taken then award cs taken awarded else award cs (w # taken) (AList.update i w awarded))"

definition assign :: "('g \<Rightarrow> uuid list) \<Rightarrow> 'g list \<Rightarrow> continuity \<Rightarrow> ('g \<Rightarrow> uuid) \<Rightarrow> uuid list" where
  "assign ids groups c fallback =
     (let fallbacks = map fallback groups;
          awarded = award (claims c (map ids groups) fallbacks) [] []
      in map (\<lambda>i. case map_of awarded i of Some w \<Rightarrow> w | None \<Rightarrow> fallbacks ! i) [0..<length groups])"

subsection \<open>What an award can be\<close>

lemma count_votes: "count_of (votes c es) w = length (filter (\<lambda>e. owner_of c e = Some w) es)"
proof -
  have "count_of (fold (\<lambda>e d. case owner_of c e of Some w \<Rightarrow> bump w 1 d | None \<Rightarrow> d) es d) w
      = count_of d w + length (filter (\<lambda>e. owner_of c e = Some w) es)" for d
    by (induction es arbitrary: d) (auto split: option.splits)
  then show ?thesis by (simp add: votes_def)
qed

lemma distinct_votes: "distinct (map fst (votes c es))"
proof -
  have "distinct (map fst d) \<Longrightarrow>
      distinct (map fst (fold (\<lambda>e d. case owner_of c e of Some w \<Rightarrow> bump w 1 d | None \<Rightarrow> d) es d))" for d
    by (induction es arbitrary: d) (auto simp: bump_def distinct_update_keys split: option.splits)
  then show ?thesis by (simp add: votes_def)
qed

lemma votes_item: "(w, n) \<in> set (votes c es) \<longleftrightarrow> map_of (votes c es) w = Some n"
  using distinct_votes by simp

lemma votes_positive: "map_of (votes c es) w = Some n \<Longrightarrow> 0 < n"
proof -
  have "(\<forall>v \<in> set (map snd d). 0 < v) \<Longrightarrow>
      (\<forall>v \<in> set (map snd (fold (\<lambda>e d. case owner_of c e of Some w \<Rightarrow> bump w 1 d | None \<Rightarrow> d) es d)). (0::nat) < v)" for d
  proof (induction es arbitrary: d)
    case (Cons e es)
    have "\<forall>v \<in> set (map snd (bump w 1 d)). 0 < v" for w
      using Cons.prems by (auto simp: bump_def dest!: in_update)
    with Cons show ?case by (auto split: option.splits)
  qed simp
  from this [of "[]"] show "map_of (votes c es) w = Some n \<Longrightarrow> 0 < n"
    by (force simp: votes_def dest: map_of_SomeD)
qed

lemma plurality_votes:
  assumes "plurality_owner c es = Some (w, n)"
  shows "n = length (filter (\<lambda>e. owner_of c e = Some w) es)" and "0 < n"
    and "length (filter (\<lambda>e. owner_of c e = Some w') es) \<le> n"
proof -
  have in_votes: "(w, n) \<in> set (votes c es)" using assms unfolding plurality_owner_def by (rule max_by_in)
  then have w: "map_of (votes c es) w = Some n" by (simp add: votes_item)
  then show n: "n = length (filter (\<lambda>e. owner_of c e = Some w) es)"
    using count_votes [of c es w] by (simp add: count_of_def)
  from w show "0 < n" by (rule votes_positive)
  show "length (filter (\<lambda>e. owner_of c e = Some w') es) \<le> n"
  proof (cases "map_of (votes c es) w'")
    case None
    then show ?thesis using count_votes [of c es w'] by (simp add: count_of_def)
  next
    case (Some m)
    then have "(w', m) \<in> set (votes c es)" by (simp add: votes_item)
    with assms have "by_votes_then_id (w', m) \<le> by_votes_then_id (w, n)" unfolding plurality_owner_def by (rule max_by_ge)
    then have "m \<le> n" by (auto simp: by_votes_then_id_def)
    then show ?thesis using Some count_votes [of c es w'] by (simp add: count_of_def)
  qed
qed

lemma plurality_reusable: "plurality_owner c es = Some (w, n) \<Longrightarrow> w \<in> set (reusable c)"
  using plurality_votes(1,2) [of c es w n]
  by (auto simp: owner_of_def filter_empty_conv split: option.splits if_splits)

lemma no_plurality: "plurality_owner no_continuity es = None"
proof -
  have "owner_of no_continuity e = None" for e by (simp add: owner_of_def no_continuity_def)
  then have "votes no_continuity es = []" unfolding votes_def by (induction es) auto
  then show ?thesis by (simp add: plurality_owner_def)
qed

lemma claim_in:
  "(v, f, i, w) \<in> set (claims c groups fallbacks) \<longleftrightarrow>
     i < length groups \<and> i < length fallbacks \<and> f = fallbacks ! i
     \<and> (\<exists>n. plurality_owner c (groups ! i) = Some (w, n) \<and> v = - int n)"
proof -
  have "(v, f, i, w) \<in> set (claims c groups fallbacks) \<longleftrightarrow>
      (\<exists>x \<in> set (enumerate 0 (zip groups fallbacks)). (v, f, i, w) \<in> set (claim_of c x))"
    by (simp add: claims_def)
  also have "\<dots> \<longleftrightarrow> (\<exists>j < min (length groups) (length fallbacks). (v, f, i, w) \<in> set (claim_of c (j, groups ! j, fallbacks ! j)))"
    by (auto simp: in_set_enumerate_eq Bex_def)
  also have "\<dots> \<longleftrightarrow> i < length groups \<and> i < length fallbacks \<and> f = fallbacks ! i
     \<and> (\<exists>n. plurality_owner c (groups ! i) = Some (w, n) \<and> v = - int n)"
    by (auto simp: claim_of_def split: option.splits)
  finally show ?thesis .
qed

lemma award_lookup:
  assumes "\<forall>k v. map_of awarded k = Some v \<longrightarrow> v \<in> set taken"
    and "map_of (award cs taken awarded) i = Some w"
  shows "map_of awarded i = Some w \<or> (\<exists>v f. (v, f, i, w) \<in> set cs)"
  using assms
proof (induction cs taken awarded rule: award.induct)
  case (2 v f j x cs taken awarded)
  show ?case
  proof (cases "x \<in> set taken")
    case True
    then show ?thesis using 2 by auto
  next
    case False
    have "\<forall>k v. map_of (AList.update j x awarded) k = Some v \<longrightarrow> v \<in> set (x # taken)"
      using "2.prems" by (auto simp: od_laws)
    from "2.IH"(2) [OF False this] "2.prems" False show ?thesis by (auto simp: od_laws split: if_splits)
  qed
qed simp

lemma award_once:
  assumes "\<forall>k v. map_of awarded k = Some v \<longrightarrow> v \<in> set taken"
    and "\<forall>k k' v. map_of awarded k = Some v \<longrightarrow> map_of awarded k' = Some v \<longrightarrow> k = k'"
    and "map_of (award cs taken awarded) i = Some w" and "map_of (award cs taken awarded) j = Some w"
  shows "i = j"
  using assms
proof (induction cs taken awarded rule: award.induct)
  case (2 v f k x cs taken awarded)
  show ?case
  proof (cases "x \<in> set taken")
    case True
    with 2 show ?thesis by auto
  next
    case False
    have "\<forall>k' v. map_of (AList.update k x awarded) k' = Some v \<longrightarrow> v \<in> set (x # taken)"
      using "2.prems"(1) by (auto simp: od_laws)
    moreover have "\<forall>a b v. map_of (AList.update k x awarded) a = Some v \<longrightarrow> map_of (AList.update k x awarded) b = Some v \<longrightarrow> a = b"
      using "2.prems"(1,2) False by (auto simp: od_laws)
    ultimately show ?thesis using "2.IH"(2) [OF False] "2.prems"(3,4) False by simp
  qed
qed auto

text \<open>The first claim on an id wins it, provided its group has no other claim.\<close>

lemma award_keeps:
  "\<forall>(v, f, j, x) \<in> set cs. j = i \<longrightarrow> x \<in> set taken \<Longrightarrow> map_of (award cs taken awarded) i = map_of awarded i"
proof (induction cs taken awarded rule: award.induct)
  case (2 v f j x cs taken awarded)
  have "\<forall>(v, f, k, y) \<in> set cs. k = i \<longrightarrow> y \<in> set (x # taken)" "\<forall>(v, f, k, y) \<in> set cs. k = i \<longrightarrow> y \<in> set taken"
    using "2.prems" by fastforce+
  with 2 show ?case by (auto simp: od_laws)
qed simp

lemma award_first:
  assumes "\<forall>(v, f, j, x) \<in> set pre. x \<noteq> w" and "w \<notin> set taken" and "\<forall>(v, f, j, x) \<in> set post. j = i \<longrightarrow> x = w"
  shows "map_of (award (pre @ (v, f, i, w) # post) taken awarded) i = Some w"
  using assms
proof (induction pre taken awarded rule: award.induct)
  case (1 taken awarded)
  have "\<forall>(v, f, j, x) \<in> set post. j = i \<longrightarrow> x \<in> set (w # taken)" using 1 by fastforce
  from award_keeps [OF this] 1 show ?case by (simp add: od_laws)
next
  case (2 v' f' j x cs taken awarded)
  then show ?case by (cases "x \<in> set taken") auto
qed

definition awards :: "('g \<Rightarrow> uuid list) \<Rightarrow> 'g list \<Rightarrow> continuity \<Rightarrow> ('g \<Rightarrow> uuid) \<Rightarrow> (nat, uuid) odict" where
  "awards ids groups c fallback = award (claims c (map ids groups) (map fallback groups)) [] []"

lemma assign_nth:
  "i < length groups \<Longrightarrow> assign ids groups c fallback ! i =
     (case map_of (awards ids groups c fallback) i of Some w \<Rightarrow> w | None \<Rightarrow> fallback (groups ! i))"
  by (simp add: assign_def awards_def Let_def split: option.split)

lemma awards_claimed:
  assumes "map_of (awards ids groups c fallback) i = Some w"
  shows "i < length groups \<and> (\<exists>n. plurality_owner c (ids (groups ! i)) = Some (w, n))"
  using award_lookup [of "[]" "[]" _ i w] assms by (fastforce simp: awards_def claim_in)

lemma awards_strongest:
  assumes i: "i < length groups" and own: "plurality_owner c (ids (groups ! i)) = Some (w, n)"
    and top: "\<And>j m. j < length groups \<Longrightarrow> j \<noteq> i \<Longrightarrow> plurality_owner c (ids (groups ! j)) = Some (w, m) \<Longrightarrow> m < n"
  shows "map_of (awards ids groups c fallback) i = Some w"
proof -
  define cs where "cs = claims c (map ids groups) (map fallback groups)"
  define cl where "cl = (- int n, fallback (groups ! i), i, w)"
  have "cl \<in> set cs" using i own by (simp add: cs_def cl_def claim_in)
  then obtain pre post where split: "cs = pre @ cl # post" and new: "cl \<notin> set pre" by (meson split_list_first)
  have "sorted cs" by (simp add: cs_def claims_def)
  then have below: "\<forall>x \<in> set pre. x \<le> cl" by (simp add: split sorted_append)
  have "x \<noteq> w" if "(v, f, j, x) \<in> set pre" for v f j x
  proof
    assume "x = w"
    have "(v, f, j, w) \<in> set cs" using that split \<open>x = w\<close> by simp
    then obtain m where j: "j < length groups" "plurality_owner c (ids (groups ! j)) = Some (w, m)" "v = - int m"
        "f = fallback (groups ! j)"
      by (auto simp: cs_def claim_in)
    have "v \<le> - int n" using below that by (fastforce simp: cl_def)
    then have "\<not> m < n" using j(3) by simp
    then have "j = i" using top [of j m] j by blast
    then show False using new that j own \<open>x = w\<close> by (simp add: cl_def)
  qed
  moreover have "\<forall>(v, f, j, x) \<in> set post. j = i \<longrightarrow> x = w"
  proof -
    have "x = w" if "(v, f, i, x) \<in> set post" for v f x
    proof -
      have "(v, f, i, x) \<in> set cs" using that split by simp
      then show ?thesis using own by (auto simp: cs_def claim_in)
    qed
    then show ?thesis by blast
  qed
  ultimately have "map_of (award (pre @ cl # post) [] []) i = Some w"
    unfolding cl_def by (intro award_first) auto
  then show ?thesis by (simp add: awards_def cs_def [symmetric] split)
qed

subsection \<open>Properties\<close>

text \<open>C6: an inherited id is safe: it belongs to a transaction being rebuilt that owned the plurality of the
  group's entries, no id is inherited by two groups, and every group that inherits nothing gets the id minted
  from its content.\<close>

theorem inherited_ids_are_safe:
  "\<exists>inherited. (\<forall>i < length groups. assign ids groups c fallback ! i =
                  (case inherited i of Some w \<Rightarrow> w | None \<Rightarrow> fallback (groups ! i)))
     \<and> (\<forall>i j w. inherited i = Some w \<longrightarrow> inherited j = Some w \<longrightarrow> i = j)
     \<and> (\<forall>i w. inherited i = Some w \<longrightarrow> w \<in> set (reusable c) \<and>
          (\<forall>w'. length (filter (\<lambda>e. owner_of c e = Some w') (ids (groups ! i)))
                 \<le> length (filter (\<lambda>e. owner_of c e = Some w) (ids (groups ! i)))))"
proof (intro exI [of _ "map_of (awards ids groups c fallback)"] conjI allI impI)
  fix i j w
  assume "map_of (awards ids groups c fallback) i = Some w" "map_of (awards ids groups c fallback) j = Some w"
  then show "i = j" using award_once [of "[]" "[]" _ i w j] by (simp add: awards_def)
next
  fix i w
  assume "map_of (awards ids groups c fallback) i = Some w"
  then obtain n where n: "plurality_owner c (ids (groups ! i)) = Some (w, n)" using awards_claimed by blast
  then show "w \<in> set (reusable c)" by (rule plurality_reusable)
  show "length (filter (\<lambda>e. owner_of c e = Some w') (ids (groups ! i)))
      \<le> length (filter (\<lambda>e. owner_of c e = Some w) (ids (groups ! i)))" for w'
    using plurality_votes(1,3) [OF n] by metis
qed (simp add: assign_nth)

definition two_halves :: continuity where
  "two_halves = \<lparr>owner_by_entry = [(1, 10), (2, 10), (3, 10)], reusable = [10]\<rparr>"

lemma inherited_ids_are_safe_witness:
  "assign id [[1], [2, 3]] two_halves sum_list ! 1 \<in> {5, 10}"
proof -
  obtain inh where "\<forall>i < length [[1], [2, 3 :: nat]]. assign id [[1], [2, 3]] two_halves sum_list ! i =
        (case inh i of Some w \<Rightarrow> w | None \<Rightarrow> sum_list ([[1], [2, 3 :: nat]] ! i))"
      and "\<forall>i w. inh i = Some w \<longrightarrow> w \<in> set (reusable two_halves)"
    using inherited_ids_are_safe [of "[[1], [2, 3]]" id two_halves sum_list] by blast
  then show ?thesis by (cases "inh 1") (auto simp: two_halves_def)
qed

text \<open>a split keeps the id for the larger part: a group that holds more of a predecessor's entries than any
  other group bidding for it gets its id.\<close>

theorem largest_part_keeps_the_id:
  assumes "i < length groups" and "plurality_owner c (ids (groups ! i)) = Some (w, n)"
    and "\<forall>j < length groups. \<forall>m. j \<noteq> i \<longrightarrow> plurality_owner c (ids (groups ! j)) = Some (w, m) \<longrightarrow> m < n"
  shows "assign ids groups c fallback ! i = w"
  using awards_strongest [of i groups c ids w n fallback] assms by (simp add: assign_nth)

lemma largest_part_keeps_the_id_witness:
  "assign id [[1], [2, 3]] two_halves sum_list ! 1 = 10"
proof -
  have "plurality_owner two_halves [1] = Some (10, 1)" "plurality_owner two_halves [2, 3] = Some (10, 2)" by code_simp+
  then show ?thesis
    by (intro largest_part_keeps_the_id [where n = 2]) (auto simp: less_Suc_eq nth_Cons split: nat.splits)
qed

text \<open>without predecessors every group gets the id minted from its content.\<close>

theorem no_predecessors_mint_fresh_ids:
  "assign ids groups no_continuity fallback = map fallback groups"
proof (rule nth_equalityI)
  fix i assume "i < length (assign ids groups no_continuity fallback)"
  then have i: "i < length groups" by (simp add: assign_def Let_def)
  have "map_of (awards ids groups no_continuity fallback) i = None"
    using awards_claimed [of ids groups no_continuity fallback i] by (cases "map_of (awards ids groups no_continuity fallback) i")
      (auto simp: no_plurality)
  then show "assign ids groups no_continuity fallback ! i = map fallback groups ! i" using i by (simp add: assign_nth)
qed (simp add: assign_def Let_def)

text \<open>a split does not always mint a fresh id for the remainder: here the entries 1, 2 and 3 belonged to the
  transaction 10, whose id was minted from entry 1; the larger part inherits 10, and the smaller part, which holds
  entry 1, mints 10 again.\<close>

theorem split_can_duplicate_an_id:
  "assign id [[1], [2, 3]] two_halves (\<lambda>g. if 1 \<in> set g then 10 else 20) = [10, 10]"
  by code_simp

end
