(* ===== verification/Store.thy ===== *)
theory Store
  imports Fingerprints Windows Continuity
begin

text \<open>
  The tables Stage 2 reads and writes, and the module that owns the assignment table
  (\<open>assignments.py\<close>). A table is the list of its rows. An \<open>UPDATE\<close> changes rows in place, an \<open>INSERT\<close> appends.
  A row of \<open>log_transactions\<close> keeps the values \<open>compute\<close> gave it (\<open>row_values\<close>, from which its tenant and
  its \<open>started_at\<close> are read) beside the columns Stage 2 adds. A transaction of the database is a function
  from the store to the store it commits.
\<close>

subsection \<open>Rows\<close>

record txn_row =
  row_id :: uuid
  row_values :: txn_values
  row_sealed :: bool
  row_created :: instant
  row_updated :: instant
  row_fp :: "string option"
  row_members_fp :: "string option"

definition row_started :: "txn_row \<Rightarrow> instant option" where
  "row_started r = v_started (row_values r)"

definition text_column :: "txn_values \<Rightarrow> string \<Rightarrow> string option" where
  "text_column v k = (case map_of (v_text v) k of Some t \<Rightarrow> t | None \<Rightarrow> None)"

definition row_customer :: "txn_row \<Rightarrow> string" where
  "row_customer r = text_of (text_column (row_values r) ''customer_code'')"

record assignment =
  a_entry :: uuid
  a_ts :: "instant option"
  a_txn :: uuid
  a_seq :: nat
  a_customer :: string

record ticket =
  tk_customer :: string
  tk_start :: instant
  tk_end :: instant
  tk_refold :: bool

text \<open>An open conversation of the grouper, and a request nothing has picked up (\<open>log_open_stream.py\<close>).\<close>

record stream_row =
  sr_customer :: string
  sr_server :: string
  sr_thread :: "string option"
  sr_user :: "string option"
  sr_txn :: uuid
  sr_has_request :: bool
  sr_last :: "instant option"
  sr_pos :: pos
  sr_current :: bool
  sr_created :: instant
  sr_updated :: instant

record pending_row =
  pr_customer :: string
  pr_entry :: uuid
  pr_reqid :: json
  pr_user :: "string option"
  pr_ts :: "instant option"
  pr_created :: instant

text \<open>A ticket of the stitch queue (\<open>log_regroup_pending.py\<close>).\<close>

record regroup_ticket =
  q_id :: uuid
  q_customer :: string
  q_start :: instant
  q_end :: instant
  q_consumed :: "instant option"
  q_abandoned :: "instant option"
  q_available :: instant
  q_attempts :: nat
  q_error :: "string option"
  q_last_attempt :: "instant option"

record store =
  log_entries :: "log_entry list"
  txns :: "txn_row list"
  assigns :: "assignment list"
  tickets :: "ticket list"
  open_streams :: "stream_row list"
  pending_requests :: "pending_row list"
  checkpoints :: "(string, instant) odict"
  queue :: "regroup_ticket list"

definition empty_store :: store where
  "empty_store = \<lparr>log_entries = [], txns = [], assigns = [], tickets = [], open_streams = [], pending_requests = [],
     checkpoints = [], queue = []\<rparr>"

text \<open>What the pipeline takes from its surroundings: hashing, the time-zone database, tenants' zones.\<close>

record env =
  e_uuid5 :: "string \<Rightarrow> uuid"
  e_sha :: "string \<Rightarrow> string"
  e_offset :: "string \<Rightarrow> instant \<Rightarrow> duration"
  e_zone :: "string \<Rightarrow> string"

subsection \<open>The assignment table\<close>

definition is_unassigned :: "store \<Rightarrow> log_entry \<Rightarrow> bool" where
  "is_unassigned s e \<longleftrightarrow> list_all (\<lambda>a. a_entry a \<noteq> entry_id e) (assigns s)"

definition belongs_to_transaction :: "store \<Rightarrow> uuid \<Rightarrow> log_entry \<Rightarrow> bool" where
  "belongs_to_transaction s t e \<longleftrightarrow> list_ex (\<lambda>a. a_entry a = entry_id e \<and> a_txn a = t) (assigns s)"

text \<open>\<open>INSERT ... ON CONFLICT (entry_id, entry_ts) DO UPDATE\<close>.\<close>

definition upsert :: "assignment \<Rightarrow> assignment list \<Rightarrow> assignment list" where
  "upsert a rows =
     (if list_ex (\<lambda>r. a_entry r = a_entry a \<and> a_ts r = a_ts a) rows
      then map (\<lambda>r. if a_entry r = a_entry a \<and> a_ts r = a_ts a
                    then r\<lparr>a_txn := a_txn a, a_seq := a_seq a, a_customer := a_customer a\<rparr> else r) rows
      else rows @ [a])"

definition assignment_rows :: "uuid \<Rightarrow> log_entry list \<Rightarrow> string \<Rightarrow> assignment list" where
  "assignment_rows t es cc =
     map (\<lambda>(i, e). \<lparr>a_entry = entry_id e, a_ts = timestamp e, a_txn = t, a_seq = i, a_customer = cc\<rparr>) (enumerate 0 es)"

definition write_assignments :: "uuid \<Rightarrow> log_entry list \<Rightarrow> string \<Rightarrow> store \<Rightarrow> store" where
  "write_assignments t es cc s = s\<lparr>assigns := fold upsert (assignment_rows t es cc) (assigns s)\<rparr>"

definition delete_for_transactions :: "uuid list \<Rightarrow> store \<Rightarrow> store" where
  "delete_for_transactions ts s = s\<lparr>assigns := filter (\<lambda>a. a_txn a \<notin> set ts) (assigns s)\<rparr>"

definition delete_for_customer :: "string option \<Rightarrow> store \<Rightarrow> store" where
  "delete_for_customer cc s =
     s\<lparr>assigns := filter (\<lambda>a. case cc of None \<Rightarrow> False | Some c \<Rightarrow> a_customer a \<noteq> c) (assigns s)\<rparr>"

definition delete_for_entries :: "uuid list \<Rightarrow> store \<Rightarrow> store" where
  "delete_for_entries es s = s\<lparr>assigns := filter (\<lambda>a. a_entry a \<notin> set es) (assigns s)\<rparr>"

text \<open>A dict built from rows: the last row of a key is the one that stays.\<close>

definition dict_of_rows :: "('a \<Rightarrow> 'k \<times> 'v) \<Rightarrow> 'a list \<Rightarrow> ('k, 'v) odict" where
  "dict_of_rows f rows = fold (\<lambda>r. AList.update (fst (f r)) (snd (f r))) rows []"

definition load_seq_by_entry :: "store \<Rightarrow> uuid list \<Rightarrow> (uuid, nat) odict" where
  "load_seq_by_entry s ts = dict_of_rows (\<lambda>a. (a_entry a, a_seq a)) (filter (\<lambda>a. a_txn a \<in> set ts) (assigns s))"

definition load_transaction_by_entry :: "store \<Rightarrow> uuid list \<Rightarrow> (uuid, uuid) odict" where
  "load_transaction_by_entry s es = dict_of_rows (\<lambda>a. (a_entry a, a_txn a)) (filter (\<lambda>a. a_entry a \<in> set es) (assigns s))"

definition in_window :: "window option \<Rightarrow> instant option \<Rightarrow> bool" where
  "in_window w t = (case w of None \<Rightarrow> True | Some w' \<Rightarrow> covers w' True t)"

definition load_owners_in_window :: "store \<Rightarrow> string \<Rightarrow> window option \<Rightarrow> (uuid, uuid) odict" where
  "load_owners_in_window s cc w =
     dict_of_rows (\<lambda>a. (a_entry a, a_txn a)) (filter (\<lambda>a. a_customer a = cc \<and> in_window w (a_ts a)) (assigns s))"

text \<open>The join of an assignment with its line, in (transaction, seq) order.\<close>

definition txn_seq_order :: "assignment \<Rightarrow> uuid \<times> nat" where
  "txn_seq_order a = (a_txn a, a_seq a)"

definition joined :: "store \<Rightarrow> assignment \<Rightarrow> (log_entry \<times> uuid \<times> nat) list" where
  "joined s a = map (\<lambda>e. (e, a_txn a, a_seq a)) (filter (\<lambda>e. entry_id e = a_entry a) (log_entries s))"

definition load_entries :: "store \<Rightarrow> uuid list \<Rightarrow> nat \<Rightarrow> window option \<Rightarrow> (log_entry \<times> uuid \<times> nat) list" where
  "load_entries s ts limit w =
     take limit (filter (\<lambda>(e, t, i). in_window w (timestamp e))
       (concat (map (joined s)
         (sort_key txn_seq_order (filter (\<lambda>a. a_txn a \<in> set ts \<and> in_window w (a_ts a)) (assigns s))))))"

definition entry_ids_for_transactions :: "store \<Rightarrow> uuid list \<Rightarrow> uuid list" where
  "entry_ids_for_transactions s ts = map a_entry (sort_key txn_seq_order (filter (\<lambda>a. a_txn a \<in> set ts) (assigns s)))"

subsection \<open>Reading lines\<close>

text \<open>\<open>ORDER BY timestamp ASC NULLS LAST, source_file, line_number\<close>; a missing line number sorts last.\<close>

definition read_order :: "log_entry \<Rightarrow> bool \<times> instant \<times> string \<times> bool \<times> int" where
  "read_order e = (timestamp e = None, ts_or_0 (timestamp e), source_file e, line_number e = None, line_or_0 (line_number e))"

definition select_entries :: "(log_entry \<Rightarrow> bool) \<Rightarrow> store \<Rightarrow> log_entry list" where
  "select_entries P s = sort_key read_order (filter P (log_entries s))"

definition in_range :: "instant \<Rightarrow> instant \<Rightarrow> log_entry \<Rightarrow> bool" where
  "in_range lo hi e \<longleftrightarrow> (case timestamp e of None \<Rightarrow> False | Some t \<Rightarrow> lo \<le> t \<and> t \<le> hi)"

text \<open>The newest instant of a tenant: a probe bounded below by \<open>lowest\<close>, then the whole table if it misses.\<close>

definition recent_max_ts :: "instant \<Rightarrow> store \<Rightarrow> string \<Rightarrow> instant option" where
  "recent_max_ts lowest s cc =
     max_of (filter (\<lambda>t. lowest \<le> t) (instants (filter (\<lambda>e. customer_code e = cc) (log_entries s))))"

definition max_entry_ts :: "instant \<Rightarrow> store \<Rightarrow> string \<Rightarrow> instant option" where
  "max_entry_ts lowest s cc =
     (case recent_max_ts lowest s cc of
        Some t \<Rightarrow> Some t
      | None \<Rightarrow> max_of (instants (filter (\<lambda>e. customer_code e = cc) (log_entries s))))"

subsection \<open>Analytics tickets (pending_windows.py)\<close>

definition max_ticket_span :: duration where
  "max_ticket_span = seconds 86400"

function chunk_tickets :: "string \<Rightarrow> bool \<Rightarrow> instant \<Rightarrow> instant \<Rightarrow> ticket list" where
  "chunk_tickets cc refold cursor end' =
     (if cursor \<le> end'
      then (let chunk_end = min (cursor + max_ticket_span) end'
            in \<lparr>tk_customer = cc, tk_start = cursor, tk_end = chunk_end, tk_refold = refold\<rparr>
               # (if chunk_end \<ge> end' then [] else chunk_tickets cc refold chunk_end end'))
      else [])"
  by pat_completeness auto
termination
  by (relation "measure (\<lambda>(cc, r, cursor, e). nat (e - cursor))") (auto simp: max_ticket_span_def seconds_def)

declare chunk_tickets.simps [simp del]

definition publish :: "config \<Rightarrow> string \<Rightarrow> instant \<Rightarrow> instant \<Rightarrow> bool \<Rightarrow> store \<Rightarrow> store" where
  "publish c cc lo hi refold s =
     s\<lparr>tickets := tickets s @ chunk_tickets cc refold (lo - regroup_pad c) (hi + regroup_pad c)\<rparr>"

definition publish_for_transactions :: "config \<Rightarrow> instant \<Rightarrow> string \<Rightarrow> instant option list \<Rightarrow> store \<Rightarrow> store" where
  "publish_for_transactions c now cc started_ats s =
     (if started_ats = [] then s
      else case (min_of (known started_ats), max_of (known started_ats)) of
        (Some lo, Some hi) \<Rightarrow> publish c cc lo hi False s
      | _ \<Rightarrow> publish c cc now now False s)"

end
