(* ===== verification/Persist.thy ===== *)
theory Persist
  imports Store
begin

text \<open>
  Writing a grouping (\<open>_resolve_ids\<close>, \<open>_existing_transaction_ids\<close>, \<open>_update_transaction\<close>,
  \<open>_write_transaction\<close>, \<open>_persist\<close>, \<open>_merge_stats\<close> of \<open>derive_transactions.py\<close>). A group is the list of
  the lines of its builder. \<open>now\<close> is the clock of the writes, \<open>stored\<close> the rows the window is rebuilding.
\<close>

subsection \<open>Ids\<close>

text \<open>The ids already in the table; the query is batched, which does not change what it finds.\<close>

fun batches :: "nat \<Rightarrow> 'a list \<Rightarrow> 'a list list" where
  "batches n [] = []"
| "batches n (x # xs) = take (Suc n) (x # xs) # batches n (drop n xs)"

definition select_ids :: "string \<Rightarrow> window option \<Rightarrow> store \<Rightarrow> uuid list \<Rightarrow> uuid list" where
  "select_ids cc w s ids =
     map row_id (filter (\<lambda>r. row_customer r = cc \<and> row_id r \<in> set ids \<and> in_window w (row_started r)) (txns s))"

definition existing_transaction_ids :: "string \<Rightarrow> window option \<Rightarrow> store \<Rightarrow> uuid list \<Rightarrow> uuid list" where
  "existing_transaction_ids cc w s ids = concat (map (select_ids cc w s) (batches 19999 ids))"

definition resolve_ids ::
    "env \<Rightarrow> config \<Rightarrow> string \<Rightarrow> continuity \<Rightarrow> log_entry list list \<Rightarrow> store \<Rightarrow> log_entry list list \<times> uuid list \<times> uuid list" where
  "resolve_ids env c cc cont bs s =
     (let groups = map in_stream_order bs;
          ids = assign (map entry_id) groups cont (txn_id (e_uuid5 env))
      in (groups, ids,
          existing_transaction_ids cc (clash_window c (map timestamp (concat groups))) s ids))"

subsection \<open>Rows\<close>

definition update_transaction ::
    "uuid \<Rightarrow> instant option \<Rightarrow> txn_values \<Rightarrow> bool \<Rightarrow> string \<Rightarrow> string \<Rightarrow> instant \<Rightarrow> store \<Rightarrow> store" where
  "update_transaction t started v sealed rfp mfp now s =
     s\<lparr>txns := map (\<lambda>r. if row_id r = t \<and> row_started r = started
        then r\<lparr>row_values := v, row_sealed := sealed, row_updated := now, row_fp := Some rfp, row_members_fp := Some mfp\<rparr>
        else r) (txns s)\<rparr>"

definition write_transaction ::
    "uuid \<Rightarrow> txn_values \<Rightarrow> bool \<Rightarrow> log_entry list \<Rightarrow> string \<Rightarrow> string \<Rightarrow> string \<Rightarrow> instant \<Rightarrow> store \<Rightarrow> store" where
  "write_transaction t v sealed es cc rfp mfp now s =
     write_assignments t es cc
       (s\<lparr>txns := txns s @ [\<lparr>row_id = t, row_values = v, row_sealed = sealed, row_created = now, row_updated = now,
                              row_fp = Some rfp, row_members_fp = Some mfp\<rparr>]\<rparr>)"

definition delete_transactions :: "uuid list \<Rightarrow> store \<Rightarrow> store" where
  "delete_transactions ts s = s\<lparr>txns := filter (\<lambda>r. row_id r \<notin> set ts) (txns s)\<rparr>"

text \<open>\<open>delete\<close> of transactions with their assignments, the pair every rebuild issues together.\<close>

definition drop_transactions :: "uuid list \<Rightarrow> store \<Rightarrow> store" where
  "drop_transactions ts s = delete_transactions ts (delete_for_transactions ts s)"

subsection \<open>The statistics\<close>

record stats =
  st_created :: nat
  st_sealed :: nat
  st_assigned :: nat
  st_skipped :: nat
  st_entries_skipped :: nat
  st_entries_scanned :: nat
  st_orphans :: nat
  st_unchanged :: nat
  st_row_only :: nat
  st_rewritten :: nat
  st_deleted :: nat
  st_by_status :: "(txn_status, nat) odict"

definition no_stats :: stats where
  "no_stats = \<lparr>st_created = 0, st_sealed = 0, st_assigned = 0, st_skipped = 0, st_entries_skipped = 0,
     st_entries_scanned = 0, st_orphans = 0, st_unchanged = 0, st_row_only = 0, st_rewritten = 0, st_deleted = 0,
     st_by_status = []\<rparr>"

definition merge_stats :: "stats \<Rightarrow> stats \<Rightarrow> stats" where
  "merge_stats into part =
     \<lparr>st_created = st_created into + st_created part, st_sealed = st_sealed into + st_sealed part,
      st_assigned = st_assigned into + st_assigned part, st_skipped = st_skipped into + st_skipped part,
      st_entries_skipped = st_entries_skipped into + st_entries_skipped part,
      st_entries_scanned = st_entries_scanned into + st_entries_scanned part,
      st_orphans = st_orphans into + st_orphans part, st_unchanged = st_unchanged into + st_unchanged part,
      st_row_only = st_row_only into + st_row_only part, st_rewritten = st_rewritten into + st_rewritten part,
      st_deleted = st_deleted into + st_deleted part,
      st_by_status = fold (\<lambda>(k, n). bump k n) (st_by_status part) (st_by_status into)\<rparr>"

subsection \<open>One builder\<close>

text \<open>What the loop decides of one builder: its values, its seal, its digests.\<close>

record verdict =
  vd_values :: txn_values
  vd_sealed :: bool
  vd_row_fp :: string
  vd_members_fp :: string

definition verdict_of :: "env \<Rightarrow> string \<Rightarrow> instant option \<Rightarrow> instant option \<Rightarrow> log_entry list \<Rightarrow> verdict" where
  "verdict_of env cc seal abandon es =
     (let zone = e_zone env cc;
          v = cap_over_length (compute_txn (e_offset env zone) es);
          sealed = is_sealed v seal abandon
      in \<lparr>vd_values = v, vd_sealed = sealed, vd_row_fp = row_fingerprint (e_sha env) v sealed (Some zone),
          vd_members_fp = members_fingerprint (e_sha env) (map entry_id es)\<rparr>)"

record persist_state =
  p_store :: store
  p_seen :: "uuid list"
  p_stats :: stats

definition skip_builder :: "log_entry list \<Rightarrow> persist_state \<Rightarrow> persist_state" where
  "skip_builder es p =
     p\<lparr>p_stats := (p_stats p)\<lparr>st_skipped := Suc (st_skipped (p_stats p)),
                              st_entries_skipped := st_entries_skipped (p_stats p) + length es\<rparr>\<rparr>"

definition count_status :: "txn_status \<Rightarrow> stats \<Rightarrow> stats" where
  "count_status st x = x\<lparr>st_by_status := bump st 1 (st_by_status x)\<rparr>"

definition count_sealed :: "bool \<Rightarrow> stats \<Rightarrow> stats" where
  "count_sealed b x = x\<lparr>st_sealed := st_sealed x + (if b then 1 else 0)\<rparr>"

definition rewrite_stored :: "string \<Rightarrow> instant \<Rightarrow> uuid \<Rightarrow> txn_row \<Rightarrow> log_entry list \<Rightarrow> verdict \<Rightarrow> persist_state \<Rightarrow> persist_state" where
  "rewrite_stored cc now t prior es vd p =
     (let status = v_status (vd_values vd); st = p_stats p
      in if row_fp prior = Some (vd_row_fp vd) \<and> row_members_fp prior = Some (vd_members_fp vd)
         then p\<lparr>p_stats := count_status status (st\<lparr>st_unchanged := Suc (st_unchanged st)\<rparr>)\<rparr>
         else let s1 = update_transaction t (row_started prior) (vd_values vd) (vd_sealed vd)
                         (vd_row_fp vd) (vd_members_fp vd) now (p_store p)
              in if row_members_fp prior \<noteq> Some (vd_members_fp vd)
                 then p\<lparr>p_store := write_assignments t es cc (delete_for_transactions [t] s1),
                        p_stats := count_status status (count_sealed (vd_sealed vd)
                          (st\<lparr>st_assigned := st_assigned st + length es, st_rewritten := Suc (st_rewritten st)\<rparr>))\<rparr>
                 else p\<lparr>p_store := s1,
                        p_stats := count_status status (count_sealed (vd_sealed vd)
                          (st\<lparr>st_row_only := Suc (st_row_only st)\<rparr>))\<rparr>)"

definition create_row :: "string \<Rightarrow> instant \<Rightarrow> uuid \<Rightarrow> log_entry list \<Rightarrow> verdict \<Rightarrow> persist_state \<Rightarrow> persist_state" where
  "create_row cc now t es vd p =
     (let st = p_stats p
      in p\<lparr>p_store := write_transaction t (vd_values vd) (vd_sealed vd) es cc (vd_row_fp vd) (vd_members_fp vd) now (p_store p),
           p_stats := count_status (v_status (vd_values vd)) (count_sealed (vd_sealed vd)
             (st\<lparr>st_assigned := st_assigned st + length es, st_created := Suc (st_created st)\<rparr>))\<rparr>)"

text \<open>The row of \<open>stored\<close> with this id: \<open>stored\<close> is a dict keyed by id.\<close>

definition stored_row :: "txn_row list \<Rightarrow> uuid \<Rightarrow> txn_row option" where
  "stored_row stored t = find (\<lambda>r. row_id r = t) (rev stored)"

definition persist_one ::
    "env \<Rightarrow> string \<Rightarrow> instant \<Rightarrow> instant option \<Rightarrow> instant option \<Rightarrow> txn_row list \<Rightarrow> uuid list
     \<Rightarrow> log_entry list \<times> uuid \<Rightarrow> persist_state \<Rightarrow> persist_state" where
  "persist_one env cc now seal abandon stored existing g p =
     (case g of (es, t) \<Rightarrow>
        if t \<in> set (p_seen p) then skip_builder es p
        else if t \<in> set existing \<and> stored_row stored t = None then skip_builder es p
        else let p1 = p\<lparr>p_seen := t # p_seen p\<rparr>; vd = verdict_of env cc seal abandon es
             in case stored_row stored t of
                  Some prior \<Rightarrow> rewrite_stored cc now t prior es vd p1
                | None \<Rightarrow> create_row cc now t es vd p1)"

subsection \<open>The whole grouping\<close>

definition persist ::
    "env \<Rightarrow> config \<Rightarrow> string \<Rightarrow> instant \<Rightarrow> instant option \<Rightarrow> instant option \<Rightarrow> continuity \<Rightarrow> txn_row list
     \<Rightarrow> log_entry list list \<Rightarrow> store \<Rightarrow> stats \<times> store" where
  "persist env c cc now seal abandon cont stored bs s =
     (let (groups, ids, existing) = resolve_ids env c cc cont bs s;
          p = fold (persist_one env cc now seal abandon stored existing) (zip groups ids)
                \<lparr>p_store = s, p_seen = [], p_stats = no_stats\<rparr>;
          vanished = filter (\<lambda>t. t \<notin> set (p_seen p)) (remdups (map row_id stored))
      in ((p_stats p)\<lparr>st_deleted := length vanished\<rparr>,
          if vanished = [] then p_store p else drop_transactions vanished (p_store p)))"

end
