(* ===== verification/StreamState.thy ===== *)
theory StreamState
  imports Persist
begin

text \<open>
  \<open>stream_state.py\<close>: the grouper's open conversations, stored so that they survive a process. A save that
  would break a unique constraint raises, and the caller's transaction rolls back: the result is \<open>None\<close>.
\<close>

subsection \<open>Modes and the guard\<close>

datatype s4_mode = S4_off | S4_shadow | S4_on

definition s4_mode_of :: "string \<Rightarrow> s4_mode" where
  "s4_mode_of setting =
     (let m = lower (strip setting)
      in if m = ''off'' then S4_off else if m = ''shadow'' then S4_shadow else if m = ''on'' then S4_on else S4_shadow)"

datatype refusal = No_timestamp | Clock_went_backwards | Quiet_gap

definition usable :: "config \<Rightarrow> instant \<Rightarrow> stream_row \<Rightarrow> refusal option" where
  "usable c window_lo r =
     (case sr_last r of
        None \<Rightarrow> Some No_timestamp
      | Some t \<Rightarrow>
          (if window_lo \<le> t then Some Clock_went_backwards
           else if window_lo - t \<ge> open_gap c then Some Quiet_gap
           else None))"

subsection \<open>Loading\<close>

record loaded =
  ld_streams :: "stream_row list"
  ld_entries :: "(uuid, log_entry list) odict"
  ld_pending :: "log_entry list"
  ld_refusals :: "(refusal, nat) odict"
  ld_stored :: nat

definition entries_by_txn :: "store \<Rightarrow> string \<Rightarrow> uuid list \<Rightarrow> (uuid, log_entry list) odict" where
  "entries_by_txn s cc ts =
     fold (\<lambda>(t, e) d. AList.update t ((case map_of d t of None \<Rightarrow> [] | Some es \<Rightarrow> es) @ [e]) d)
       (concat (map (\<lambda>a. map (\<lambda>(e, t, i). (t, e)) (joined s a))
         (sort_key txn_seq_order (filter (\<lambda>a. a_customer a = cc \<and> a_txn a \<in> set ts) (assigns s))))) []"

definition load_streams :: "config \<Rightarrow> string \<Rightarrow> instant \<Rightarrow> store \<Rightarrow> loaded" where
  "load_streams c cc window_lo s =
     (let rows = filter (\<lambda>r. sr_customer r = cc) (open_streams s);
          fresh = filter (\<lambda>r. usable c window_lo r = None) rows;
          refusals = fold (\<lambda>r d. case usable c window_lo r of None \<Rightarrow> d | Some why \<Rightarrow> bump why 1 d) rows [];
          pending = map pr_entry (filter (\<lambda>p. pr_customer p = cc) (pending_requests s))
      in \<lparr>ld_streams = fresh, ld_entries = entries_by_txn s cc (map sr_txn fresh),
          ld_pending = filter (\<lambda>e. entry_id e \<in> set pending) (log_entries s),
          ld_refusals = refusals, ld_stored = length rows\<rparr>)"

subsection \<open>Saving\<close>

text \<open>A stream as the caller describes it.\<close>

record open_stream_info =
  os_server :: string
  os_thread :: "string option"
  os_user :: "string option"
  os_txn :: uuid
  os_has_request :: bool
  os_last :: instant
  os_pos :: pos
  os_current :: bool

definition stream_key :: "stream_row \<Rightarrow> string \<times> string \<times> string option \<times> string option" where
  "stream_key r = (sr_customer r, sr_server r, sr_thread r, sr_user r)"

definition row_of_stream :: "string \<Rightarrow> instant \<Rightarrow> open_stream_info \<Rightarrow> stream_row" where
  "row_of_stream cc now x =
     \<lparr>sr_customer = cc, sr_server = os_server x, sr_thread = os_thread x, sr_user = os_user x, sr_txn = os_txn x,
      sr_has_request = os_has_request x, sr_last = Some (os_last x), sr_pos = os_pos x, sr_current = os_current x,
      sr_created = now, sr_updated = now\<rparr>"

definition pending_row_of :: "string \<Rightarrow> instant \<Rightarrow> log_entry \<Rightarrow> pending_row" where
  "pending_row_of cc now e =
     \<lparr>pr_customer = cc, pr_entry = entry_id e, pr_reqid = jget (entry_fields e) ''reqid'', pr_user = user_ctx e,
      pr_ts = timestamp e, pr_created = now\<rparr>"

text \<open>What the save deletes first: everything of the tenant, or what the window can speak for.\<close>

definition clear_all :: "string \<Rightarrow> store \<Rightarrow> store" where
  "clear_all cc s =
     s\<lparr>open_streams := filter (\<lambda>r. sr_customer r \<noteq> cc) (open_streams s),
       pending_requests := filter (\<lambda>p. pr_customer p \<noteq> cc) (pending_requests s)\<rparr>"

definition clear_window :: "string \<Rightarrow> open_stream_info list \<Rightarrow> uuid list \<Rightarrow> uuid list \<Rightarrow> store \<Rightarrow> store" where
  "clear_window cc streams touched consumed s =
     (let kept = filter (\<lambda>r. \<not> (sr_customer r = cc \<and> sr_txn r \<in> set touched)) (open_streams s);
          kept2 = filter (\<lambda>r. \<not> list_ex (\<lambda>x. stream_key r = (cc, os_server x, os_thread x, os_user x)) streams) kept;
          demoted = map (\<lambda>r. if sr_customer r = cc \<and>
                              list_ex (\<lambda>x. os_current x \<and> os_server x = sr_server r \<and> os_thread x = sr_thread r) streams
                             then r\<lparr>sr_current := False\<rparr> else r) kept2
      in s\<lparr>open_streams := demoted,
           pending_requests := filter (\<lambda>p. \<not> (pr_customer p = cc \<and> pr_entry p \<in> set consumed)) (pending_requests s)\<rparr>)"

definition save_streams ::
    "string \<Rightarrow> open_stream_info list \<Rightarrow> log_entry list \<Rightarrow> (uuid list \<times> uuid list) option \<Rightarrow> instant \<Rightarrow> store \<Rightarrow> store option" where
  "save_streams cc streams pending window now s =
     (let s1 = (case window of None \<Rightarrow> clear_all cc s | Some (touched, consumed) \<Rightarrow> clear_window cc streams touched consumed s);
          rows = open_streams s1 @ map (row_of_stream cc now) streams;
          reqs = pending_requests s1 @ map (pending_row_of cc now) pending
      in if distinct (map stream_key rows) \<and> distinct (map (\<lambda>p. (pr_customer p, pr_entry p)) reqs)
         then Some (s1\<lparr>open_streams := rows, pending_requests := reqs\<rparr>) else None)"

subsection \<open>Reaping\<close>

definition reap :: "instant \<Rightarrow> duration \<Rightarrow> store \<Rightarrow> store \<times> nat \<times> nat" where
  "reap now ttl s =
     (let cutoff = now - ttl;
          streams = filter (\<lambda>r. \<not> sr_updated r < cutoff) (open_streams s);
          reqs = filter (\<lambda>p. \<not> pr_created p < cutoff) (pending_requests s)
      in (s\<lparr>open_streams := streams, pending_requests := reqs\<rparr>,
          length (open_streams s) - length streams, length (pending_requests s) - length reqs))"

subsection \<open>What a save leaves behind\<close>

definition streams_ok :: "store \<Rightarrow> bool" where
  "streams_ok s \<longleftrightarrow> distinct (map stream_key (open_streams s))
     \<and> distinct (map (\<lambda>p. (pr_customer p, pr_entry p)) (pending_requests s))"

lemma distinct_map_filter': "distinct (map f xs) \<Longrightarrow> distinct (map f (filter P xs))"
  by (induction xs) auto

lemma clear_all_ok: "streams_ok s \<Longrightarrow> streams_ok (clear_all cc s)"
  by (simp add: streams_ok_def clear_all_def distinct_map_filter')

lemma clear_window_keys:
  "map stream_key (open_streams (clear_window cc streams touched consumed s)) =
   map stream_key (filter (\<lambda>r. \<not> list_ex (\<lambda>x. stream_key r = (cc, os_server x, os_thread x, os_user x)) streams)
     (filter (\<lambda>r. \<not> (sr_customer r = cc \<and> sr_txn r \<in> set touched)) (open_streams s)))"
  by (simp add: clear_window_def Let_def comp_def stream_key_def cong: map_cong)

lemma clear_window_ok: "streams_ok s \<Longrightarrow> streams_ok (clear_window cc streams touched consumed s)"
  unfolding streams_ok_def clear_window_keys
  by (simp add: distinct_map_filter' clear_window_def Let_def del: filter_filter)

lemma save_window_facts:
  assumes "streams_ok s" and "distinct (map (\<lambda>x. (os_server x, os_thread x, os_user x)) streams)"
  shows "\<exists>s'. save_streams cc streams [] (Some (touched, consumed)) now s = Some s'
     \<and> streams_ok s'
     \<and> (\<forall>x \<in> set streams. row_of_stream cc now x \<in> set (open_streams s'))
     \<and> (\<forall>r \<in> set (open_streams s). \<not> (sr_customer r = cc \<and> sr_txn r \<in> set touched)
          \<longrightarrow> (\<forall>x \<in> set streams. stream_key r \<noteq> (cc, os_server x, os_thread x, os_user x))
          \<longrightarrow> (\<exists>r' \<in> set (open_streams s'). stream_key r' = stream_key r \<and> sr_txn r' = sr_txn r))"
proof -
  define s1 where "s1 = clear_window cc streams touched consumed s"
  define rows where "rows = open_streams s1 @ map (row_of_stream cc now) streams"
  have ok1: "streams_ok s1" using assms(1) by (simp add: s1_def clear_window_ok)
  have new: "map stream_key (map (row_of_stream cc now) streams) = map (\<lambda>x. (cc, os_server x, os_thread x, os_user x)) streams"
    by (simp add: stream_key_def row_of_stream_def)
  have "distinct (map (\<lambda>x. (cc, os_server x, os_thread x, os_user x)) streams)"
    using assms(2) by (simp add: distinct_map inj_on_def)
  moreover have "set (map stream_key (open_streams s1)) \<inter> set (map (\<lambda>x. (cc, os_server x, os_thread x, os_user x)) streams) = {}"
    unfolding s1_def clear_window_keys by (auto simp: list_ex_iff)
  ultimately have "distinct (map stream_key rows)"
    using ok1 unfolding rows_def map_append new by (simp only: distinct_append streams_ok_def)
  then have saved: "save_streams cc streams [] (Some (touched, consumed)) now s
      = Some (s1\<lparr>open_streams := rows, pending_requests := pending_requests s1\<rparr>)"
    using ok1 by (simp add: save_streams_def s1_def [symmetric] rows_def streams_ok_def)
  have survive: "\<exists>r' \<in> set rows. stream_key r' = stream_key r \<and> sr_txn r' = sr_txn r"
    if "r \<in> set (open_streams s)" "\<not> (sr_customer r = cc \<and> sr_txn r \<in> set touched)"
      "\<forall>x \<in> set streams. stream_key r \<noteq> (cc, os_server x, os_thread x, os_user x)" for r
  proof -
    let ?r' = "if sr_customer r = cc \<and> list_ex (\<lambda>x. os_current x \<and> os_server x = sr_server r \<and> os_thread x = sr_thread r) streams
               then r\<lparr>sr_current := False\<rparr> else r"
    have "?r' \<in> set (open_streams s1)"
      unfolding s1_def clear_window_def Let_def using that by (auto simp: list_ex_iff intro!: rev_image_eqI [of r])
    then have "?r' \<in> set rows" by (simp add: rows_def)
    moreover have "stream_key ?r' = stream_key r \<and> sr_txn ?r' = sr_txn r" by (simp add: stream_key_def)
    ultimately show ?thesis by (intro bexI [of _ ?r'])
  qed
  have "streams_ok (s1\<lparr>open_streams := rows, pending_requests := pending_requests s1\<rparr>)"
    using ok1 \<open>distinct (map stream_key rows)\<close> by (simp add: streams_ok_def)
  then show ?thesis using saved survive by (intro exI conjI ballI impI) (auto simp: rows_def)
qed

lemma save_window_succeeds:
  assumes "streams_ok s" and "distinct (map (\<lambda>x. (os_server x, os_thread x, os_user x)) streams)"
  shows "\<exists>s'. save_streams cc streams [] (Some (touched, consumed)) now s = Some s' \<and> streams_ok s'"
  using save_window_facts [OF assms] by blast

text \<open>a windowed save cannot fail on the stream key and speaks only for its window: when the new streams
  have distinct keys it succeeds, it stores every one of them, and every other stream of the table survives
  unless the window touched its transaction or took its key.\<close>

theorem windowed_save_is_scoped:
  assumes "streams_ok s" and "distinct (map (\<lambda>x. (os_server x, os_thread x, os_user x)) streams)"
  shows "\<exists>s'. save_streams cc streams [] (Some (touched, consumed)) now s = Some s'
     \<and> streams_ok s'
     \<and> (\<forall>x \<in> set streams. row_of_stream cc now x \<in> set (open_streams s'))
     \<and> (\<forall>r \<in> set (open_streams s). \<not> (sr_customer r = cc \<and> sr_txn r \<in> set touched)
          \<longrightarrow> (\<forall>x \<in> set streams. stream_key r \<noteq> (cc, os_server x, os_thread x, os_user x))
          \<longrightarrow> (\<exists>r' \<in> set (open_streams s'). stream_key r' = stream_key r \<and> sr_txn r' = sr_txn r))"
  by (rule save_window_facts [OF assms])


definition parked_sample :: stream_row where
  "parked_sample = \<lparr>sr_customer = ''BID'', sr_server = ''BEC01'', sr_thread = Some ''7'', sr_user = None, sr_txn = 11,
     sr_has_request = True, sr_last = Some 5, sr_pos = no_pos, sr_current = True, sr_created = 0, sr_updated = 0\<rparr>"

lemma windowed_save_is_scoped_witness:
  "\<exists>s'. save_streams ''BID'' [\<lparr>os_server = ''BEC02'', os_thread = Some ''7'', os_user = None, os_txn = 12,
        os_has_request = True, os_last = 9, os_pos = no_pos, os_current = True\<rparr>] [] (Some ([12], [3])) 1
        (empty_store\<lparr>open_streams := [parked_sample]\<rparr>) = Some s'
     \<and> (\<exists>r' \<in> set (open_streams s'). sr_txn r' = 11)"
proof -
  let ?x = "\<lparr>os_server = ''BEC02'', os_thread = Some ''7'', os_user = None, os_txn = 12,
        os_has_request = True, os_last = 9, os_pos = no_pos, os_current = True\<rparr>"
  have ok: "streams_ok (empty_store\<lparr>open_streams := [parked_sample]\<rparr>)" by (simp add: streams_ok_def empty_store_def)
  have keys: "distinct (map (\<lambda>x. (os_server x, os_thread x, os_user x)) [?x])" by simp
  obtain s' where saved: "save_streams ''BID'' [?x] [] (Some ([12], [3])) 1 (empty_store\<lparr>open_streams := [parked_sample]\<rparr>) = Some s'"
    and kept: "\<forall>r \<in> set (open_streams (empty_store\<lparr>open_streams := [parked_sample]\<rparr>)). \<not> (sr_customer r = ''BID'' \<and> sr_txn r \<in> set [12])
          \<longrightarrow> (\<forall>x \<in> set [?x]. stream_key r \<noteq> (''BID'', os_server x, os_thread x, os_user x))
          \<longrightarrow> (\<exists>r' \<in> set (open_streams s'). stream_key r' = stream_key r \<and> sr_txn r' = sr_txn r)"
    using windowed_save_is_scoped [OF ok keys, of "''BID''" "[12]" "[3]" 1] by blast
  have "\<exists>r' \<in> set (open_streams s'). stream_key r' = stream_key parked_sample \<and> sr_txn r' = sr_txn parked_sample"
    using kept by (simp add: parked_sample_def stream_key_def)
  then show ?thesis using saved by (auto simp: parked_sample_def)
qed

end
