(* ===== verification/Regroup.thy ===== *)
theory Regroup
  imports StreamState
begin

text \<open>
  The rebuilds of \<open>derive_transactions.py\<close>: \<open>_cross_pad_floor\<close>, \<open>_shadow_compare\<close>, \<open>regroup_window\<close>,
  \<open>regroup_all\<close>, \<open>_codes_needing_regroup\<close>, \<open>_live_tail\<close> and \<open>regroup_incremental\<close>. A rebuild runs in one
  database transaction and is a function of the store; \<open>CrossPadSpanExceeded\<close> is \<open>Inl\<close>, after which nothing
  is committed. The advisory locks and the statement timeouts of the source have no effect on a single rebuild
  and are left out. \<open>clock\<close> is the wall clock of the process.
\<close>

subsection \<open>Settings\<close>

record settings =
  cfg :: config
  cross_pad_mode :: string
  fingerprint_skip :: bool
  stream_lookup :: string
  head_lane_mode :: string
  cutoff_lookback_days :: int

definition tenant_cutoffs :: "settings \<Rightarrow> instant \<Rightarrow> store \<Rightarrow> string \<Rightarrow> instant option \<times> instant option" where
  "tenant_cutoffs st clock s cc =
     cutoffs (seconds (seal_window (cfg st))) (seconds (abandon_window (cfg st)))
       (max_entry_ts (clock - seconds (86400 * cutoff_lookback_days st)) s cc)"

definition grouped :: "settings \<Rightarrow> seed_state \<Rightarrow> log_entry list \<Rightarrow> builder list" where
  "grouped st seed rows = group_entries (open_gap (cfg st)) seed rows"

subsection \<open>The floor of a window\<close>

datatype rebuild_error = Cross_pad_span_exceeded "uuid list" | Save_conflict | Plan_stale uuid | No_start

record cross_pad_report =
  cp_candidates :: nat
  cp_extended :: int
  cp_would_extend :: int
  cp_would_raise :: nat

definition cross_candidates :: "duration \<Rightarrow> duration \<Rightarrow> store \<Rightarrow> string \<Rightarrow> instant \<Rightarrow> (uuid \<times> instant \<times> instant) list" where
  "cross_candidates band gap s cc lo_p =
     concat (map (\<lambda>r. case (row_started r, v_ended (row_values r)) of
        (Some a, Some b) \<Rightarrow> (if row_customer r = cc \<and> lo_p - 3 * band \<le> a \<and> a < lo_p \<and> lo_p - gap \<le> b then [(row_id r, a, b)] else [])
      | _ \<Rightarrow> []) (txns s))"

definition probe_finds :: "store \<Rightarrow> string \<Rightarrow> instant \<Rightarrow> instant \<Rightarrow> bool" where
  "probe_finds s cc lo hi = list_ex (\<lambda>e. customer_code e = cc \<and> in_range lo hi e \<and> is_unassigned s e) (log_entries s)"

definition joinable :: "duration \<Rightarrow> store \<Rightarrow> string \<Rightarrow> (uuid \<times> instant \<times> instant) list \<Rightarrow> instant \<Rightarrow> instant \<Rightarrow> bool" where
  "joinable gap s cc cands lo_p hi_p =
     (case max_of (map (\<lambda>(t, a, b). b) cands) of
        None \<Rightarrow> False
      | Some m \<Rightarrow> (let hi = min (m + gap) hi_p in lo_p \<le> hi \<and> probe_finds s cc lo_p hi))"

definition cross_pad_floor ::
    "settings \<Rightarrow> store \<Rightarrow> string \<Rightarrow> instant \<Rightarrow> instant \<Rightarrow> rebuild_error + instant \<times> cross_pad_report option" where
  "cross_pad_floor st s cc lo_p hi_p =
     (let mode = lower (strip (cross_pad_mode st)) in
      if mode \<noteq> ''shadow'' \<and> mode \<noteq> ''on'' then Inr (lo_p, None)
      else
        let gap = open_gap (cfg st); band = regroup_pad (cfg st) + gap;
            cands = cross_candidates band gap s cc lo_p;
            report = \<lparr>cp_candidates = length cands, cp_extended = 0, cp_would_extend = 0, cp_would_raise = 0\<rparr>
        in if cands = [] \<or> \<not> joinable gap s cc cands lo_p hi_p then Inr (lo_p, Some report)
           else
             let below = filter (\<lambda>(t, a, b). a < lo_p - band) cands;
                 in_band = filter (\<lambda>a. lo_p - band \<le> a) (map (\<lambda>(t, a, b). a) cands);
                 report1 = report\<lparr>cp_would_raise := length below\<rparr>
             in if below \<noteq> [] \<and> mode = ''on'' then Inl (Cross_pad_span_exceeded (map fst below))
                else case min_of in_band of
                  None \<Rightarrow> Inr (lo_p, Some report1)
                | Some m \<Rightarrow>
                    (let secs = trunc (total_seconds (lo_p - m))
                     in if mode = ''on'' then Inr (m, Some (report1\<lparr>cp_extended := secs\<rparr>))
                        else Inr (lo_p, Some (report1\<lparr>cp_would_extend := secs\<rparr>))))"

subsection \<open>The shadow of the seeded grouping\<close>

definition seed_of :: "loaded \<Rightarrow> stream_row list \<Rightarrow> seed_state" where
  "seed_of ld rows =
     \<lparr>seed_streams = map (\<lambda>r. \<lparr>seed_thread = sr_thread r, seed_user_ctx = sr_user r, seed_current = sr_current r,
          seed_pos = sr_pos r, seed_entries = (case map_of (ld_entries ld) (sr_txn r) of None \<Rightarrow> [] | Some es \<Rightarrow> es)\<rparr>) rows,
      seed_pending = ld_pending ld\<rparr>"

text \<open>The streams a window parks: open by the grouper's own rules, the freshest of each key.\<close>

definition park_step ::
    "duration \<Rightarrow> instant \<Rightarrow> builder \<times> uuid \<Rightarrow> (string \<times> string option \<times> string option, open_stream_info) odict
     \<Rightarrow> (string \<times> string option \<times> string option, open_stream_info) odict" where
  "park_step gap window_lo bt by_key =
     (case bt of (b, t) \<Rightarrow>
        (case entries b of
           [] \<Rightarrow> by_key
         | head_line # _ \<Rightarrow>
             (if list_ex (\<lambda>e. entry_type e = Response) (entries b) then by_key
              else case max_of (instants (entries b)) of
                None \<Rightarrow> by_key
              | Some latest \<Rightarrow>
                  (if window_lo - latest \<ge> gap then by_key
                   else
                     let key = (entry_server head_line, thread head_line, user_ctx head_line);
                         stream = \<lparr>os_server = entry_server head_line, os_thread = thread head_line, os_user = user_ctx head_line,
                           os_txn = t, os_has_request = list_ex (\<lambda>e. entry_type e = Request) (entries b),
                           os_last = latest, os_pos = open_pos b, os_current = True\<rparr>
                     in case map_of by_key key of
                          Some prior \<Rightarrow> (if os_last prior \<ge> latest then by_key else AList.update key stream by_key)
                        | None \<Rightarrow> AList.update key stream by_key))))"

definition sort_builder :: "builder \<Rightarrow> builder" where
  "sort_builder b = b\<lparr>entries := in_stream_order (entries b)\<rparr>"

record shadow_report =
  sh_agreed :: bool
  sh_seeded :: nat
  sh_out_of_scope :: nat
  sh_saved :: nat

definition partition_of :: "builder list \<Rightarrow> uuid set set" where
  "partition_of bs = set (map (\<lambda>b. set (map entry_id (entries b))) bs)"

definition shadow_compare_window ::
    "env \<Rightarrow> settings \<Rightarrow> string \<Rightarrow> log_entry list \<Rightarrow> builder list \<Rightarrow> instant \<Rightarrow> uuid list \<Rightarrow> continuity \<Rightarrow> instant \<Rightarrow> store
     \<Rightarrow> (shadow_report \<times> store) option" where
  "shadow_compare_window env st cc rows authoritative window_lo rebuilding cont clock s =
     (let ld = load_streams (cfg st) cc window_lo s;
          in_scope = filter (\<lambda>r. sr_txn r \<in> set rebuilding) (ld_streams ld);
          seeded = grouped st (seed_of ld in_scope) rows;
          auth = map sort_builder authoritative;
          assigned = assign (map entry_id) (map entries auth) cont (txn_id (e_uuid5 env));
          streams = map snd (fold (park_step (open_gap (cfg st)) window_lo) (zip auth assigned) []);
          report = \<lparr>sh_agreed = (partition_of authoritative = partition_of seeded), sh_seeded = length in_scope,
            sh_out_of_scope = length (ld_streams ld) - length in_scope, sh_saved = length streams\<rparr>
      in map_option (\<lambda>s'. (report, s'))
           (save_streams cc streams [] (Some (rebuilding @ assigned, map entry_id rows)) clock s))"

subsection \<open>The windowed rebuild\<close>

definition freed_rows :: "store \<Rightarrow> string \<Rightarrow> instant \<Rightarrow> instant \<Rightarrow> txn_row list" where
  "freed_rows s cc lo_p hi =
     filter (\<lambda>r. row_customer r = cc \<and> (case row_started r of None \<Rightarrow> False | Some t \<Rightarrow> lo_p \<le> t \<and> t \<le> hi)) (txns s)"

definition window_continuity :: "store \<Rightarrow> string \<Rightarrow> instant \<Rightarrow> instant \<Rightarrow> uuid list \<Rightarrow> continuity" where
  "window_continuity s cc lo_p hi_p freed =
     \<lparr>owner_by_entry = load_owners_in_window s cc (from_instants [Some lo_p, Some hi_p] 0), reusable = freed\<rparr>"

definition eligible :: "continuity \<Rightarrow> uuid list \<Rightarrow> log_entry \<Rightarrow> bool" where
  "eligible cont freed e =
     (case map_of (owner_by_entry cont) (entry_id e) of None \<Rightarrow> True | Some w \<Rightarrow> w \<in> set freed)"

text \<open>The lines the rebuild works on: in place (nothing deleted), or after the delete.\<close>

definition rows_in_place :: "store \<Rightarrow> string \<Rightarrow> instant \<Rightarrow> instant \<Rightarrow> continuity \<Rightarrow> uuid list \<Rightarrow> log_entry list" where
  "rows_in_place s cc lo_p hi_p cont freed =
     filter (eligible cont freed) (select_entries (\<lambda>e. customer_code e = cc \<and> in_range lo_p hi_p e) s)"

definition rows_unassigned :: "store \<Rightarrow> string \<Rightarrow> instant \<Rightarrow> instant \<Rightarrow> log_entry list" where
  "rows_unassigned s cc lo_p hi_p =
     select_entries (\<lambda>e. customer_code e = cc \<and> in_range lo_p hi_p e \<and> is_unassigned s e) s"

definition regroup_rows :: "settings \<Rightarrow> store \<Rightarrow> store \<Rightarrow> string \<Rightarrow> instant \<Rightarrow> instant \<Rightarrow> continuity \<Rightarrow> uuid list \<Rightarrow> log_entry list" where
  "regroup_rows st s s1 cc lo_p hi_p cont freed =
     (if fingerprint_skip st \<and> freed \<noteq> [] then rows_in_place s cc lo_p hi_p cont freed
      else rows_unassigned s1 cc lo_p hi_p)"

text \<open>The authoritative part of a window: everything but the shadow.\<close>

record window_work =
  ww_store :: store
  ww_stored :: "txn_row list"
  ww_freed :: "uuid list"
  ww_cont :: continuity
  ww_rows :: "log_entry list"

definition open_window :: "settings \<Rightarrow> string \<Rightarrow> instant \<Rightarrow> instant \<Rightarrow> instant \<Rightarrow> store \<Rightarrow> window_work" where
  "open_window st cc lo_p hi hi_p s =
     (let rows0 = freed_rows s cc lo_p hi;
          freed = map row_id rows0;
          cont = window_continuity s cc lo_p hi_p freed;
          in_place = fingerprint_skip st \<and> freed \<noteq> [];
          stored = (if in_place then filter (\<lambda>r. row_id r \<in> set freed) (txns s) else []);
          s1 = (if in_place then s else drop_transactions freed s);
          s2 = publish (cfg st) cc lo_p hi_p False s1
      in \<lparr>ww_store = s2, ww_stored = stored, ww_freed = freed, ww_cont = cont,
          ww_rows = regroup_rows st s s2 cc lo_p hi_p cont freed\<rparr>)"

definition run_shadow ::
    "env \<Rightarrow> settings \<Rightarrow> string \<Rightarrow> window_work \<Rightarrow> builder list \<Rightarrow> instant \<Rightarrow> instant \<Rightarrow> store" where
  "run_shadow env st cc w groups lo_p clock =
     (if s4_mode_of (stream_lookup st) = S4_off then ww_store w
      else case shadow_compare_window env st cc (ww_rows w) groups lo_p (ww_freed w) (ww_cont w) clock (ww_store w) of
        Some (report, s') \<Rightarrow> s'
      | None \<Rightarrow> ww_store w)"

definition regroup_window ::
    "env \<Rightarrow> settings \<Rightarrow> string \<Rightarrow> instant \<Rightarrow> instant \<Rightarrow> instant \<Rightarrow> store \<Rightarrow> rebuild_error + stats \<times> store" where
  "regroup_window env st cc lo hi clock s =
     (let pad = regroup_pad (cfg st); hi_p = hi + pad in
      case cross_pad_floor st s cc (lo - pad) hi_p of
        Inl e \<Rightarrow> Inl e
      | Inr (lo_p, report) \<Rightarrow>
          (let w = open_window st cc lo_p hi hi_p s
           in if ww_rows w = []
              then Inr (no_stats, if ww_stored w = [] then ww_store w
                                  else drop_transactions (map row_id (ww_stored w)) (ww_store w))
              else
                let (seal, abandon) = tenant_cutoffs st clock (ww_store w) cc;
                    groups = grouped st no_seed (ww_rows w);
                    s1 = run_shadow env st cc w groups lo_p clock;
                    (part, s2) = persist env (cfg st) cc clock seal abandon (ww_cont w) (ww_stored w) (map entries groups) s1
                in Inr (merge_stats no_stats (part\<lparr>st_entries_scanned := length (ww_rows w),
                          st_orphans := st_entries_skipped part\<rparr>), s2)))"

subsection \<open>The whole table, and the live path\<close>

definition codes_of :: "store \<Rightarrow> string list" where
  "codes_of s = remdups (map customer_code (log_entries s))"

definition for_tenant :: "string option \<Rightarrow> string \<Rightarrow> bool" where
  "for_tenant cc c \<longleftrightarrow> (case cc of None \<Rightarrow> True | Some x \<Rightarrow> c = x)"

definition publish_txn_spans :: "config \<Rightarrow> instant \<Rightarrow> string option \<Rightarrow> store \<Rightarrow> store" where
  "publish_txn_spans c clock cc s =
     fold (\<lambda>code. let ts = known (map row_started (filter (\<lambda>r. row_customer r = code) (txns s)))
                  in publish_for_transactions c clock code [min_of ts, max_of ts])
       (filter (for_tenant cc) (remdups (map row_customer (txns s)))) s"

definition publish_entry_spans :: "config \<Rightarrow> string option \<Rightarrow> store \<Rightarrow> store" where
  "publish_entry_spans c cc s =
     fold (\<lambda>code. let ts = instants (filter (\<lambda>e. customer_code e = code) (log_entries s))
                  in case (min_of ts, max_of ts) of
                       (Some lo, Some hi) \<Rightarrow> publish c code lo hi False
                     | _ \<Rightarrow> id)
       (filter (for_tenant cc) (codes_of s)) s"

text \<open>Grouping the lines of one tenant and writing the result, with no id to inherit and nothing to rewrite.\<close>

definition rebuild_tenant ::
    "env \<Rightarrow> settings \<Rightarrow> instant \<Rightarrow> string \<Rightarrow> log_entry list \<Rightarrow> stats \<times> store \<Rightarrow> stats \<times> store" where
  "rebuild_tenant env st clock code rows acc =
     (case acc of (so_far, s) \<Rightarrow>
        let (seal, abandon) = tenant_cutoffs st clock s code;
            (part, s') = persist env (cfg st) code clock seal abandon no_continuity []
                           (map entries (grouped st no_seed rows)) s
        in (merge_stats so_far (part\<lparr>st_entries_scanned := length rows, st_orphans := st_entries_skipped part\<rparr>), s'))"

definition delete_transactions_of :: "string option \<Rightarrow> store \<Rightarrow> store" where
  "delete_transactions_of cc s = s\<lparr>txns := filter (\<lambda>r. \<not> for_tenant cc (row_customer r)) (txns s)\<rparr>"

definition regroup_all :: "env \<Rightarrow> settings \<Rightarrow> instant \<Rightarrow> string option \<Rightarrow> store \<Rightarrow> (nat \<times> stats) \<times> store" where
  "regroup_all env st clock cc s =
     (let s1 = publish_entry_spans (cfg st) cc (publish_txn_spans (cfg st) clock cc s);
          s2 = delete_transactions_of cc (delete_for_customer cc s1);
          codes = filter (for_tenant cc) (codes_of s2);
          (so_far, s3) = fold (\<lambda>code acc. rebuild_tenant env st clock code
                                (select_entries (\<lambda>e. customer_code e = code) (snd acc)) acc) codes (no_stats, s2)
      in ((length codes, so_far), s3))"

definition codes_needing_regroup :: "store \<Rightarrow> string option \<Rightarrow> string list" where
  "codes_needing_regroup s cc =
     (case cc of
        Some c \<Rightarrow> (if list_ex (\<lambda>e. customer_code e = c \<and> is_unassigned s e) (log_entries s) then (if c = [] then [] else [c]) else [])
      | None \<Rightarrow> remdups (map customer_code (filter (is_unassigned s) (log_entries s))))"

text \<open>The unassigned lines that can still join a live transaction; lines without a timestamp always can.\<close>

definition live_tail :: "settings \<Rightarrow> instant \<Rightarrow> store \<Rightarrow> string \<Rightarrow> log_entry list" where
  "live_tail st clock s cc =
     (case max_entry_ts (clock - seconds (86400 * cutoff_lookback_days st)) s cc of
        None \<Rightarrow> select_entries (\<lambda>e. customer_code e = cc \<and> is_unassigned s e) s
      | Some m \<Rightarrow>
          (let floor_ts = m - seconds (abandon_window (cfg st)) - regroup_pad (cfg st)
           in select_entries (\<lambda>e. customer_code e = cc \<and> is_unassigned s e
                \<and> (case timestamp e of None \<Rightarrow> True | Some t \<Rightarrow> floor_ts \<le> t)) s))"

text \<open>Step 1 frees every unsealed transaction, whatever its age, under a ticket per tenant.\<close>

definition free_unsealed :: "settings \<Rightarrow> instant \<Rightarrow> string option \<Rightarrow> store \<Rightarrow> store" where
  "free_unsealed st clock cc s =
     (let freed = filter (\<lambda>r. \<not> row_sealed r \<and> for_tenant cc (row_customer r)) (txns s);
          s1 = delete_for_transactions (map row_id freed) s;
          s2 = s1\<lparr>txns := filter (\<lambda>r. \<not> (\<not> row_sealed r \<and> for_tenant cc (row_customer r))) (txns s1)\<rparr>
      in fold (\<lambda>code. publish_for_transactions (cfg st) clock code
                 (map row_started (filter (\<lambda>r. row_customer r = code) freed)))
           (remdups (map row_customer freed)) s2)"

definition incremental_tenant :: "env \<Rightarrow> settings \<Rightarrow> instant \<Rightarrow> string \<Rightarrow> stats \<times> store \<Rightarrow> stats \<times> store" where
  "incremental_tenant env st clock code acc =
     (let rows = live_tail st clock (snd acc) code
      in if rows = [] then acc else rebuild_tenant env st clock code rows acc)"

definition regroup_incremental :: "env \<Rightarrow> settings \<Rightarrow> instant \<Rightarrow> string option \<Rightarrow> store \<Rightarrow> (nat \<times> stats) \<times> store" where
  "regroup_incremental env st clock cc s =
     (let s1 = free_unsealed st clock cc s; codes = codes_needing_regroup s1 cc;
          (so_far, s2) = fold (incremental_tenant env st clock) codes (no_stats, s1)
      in ((length codes, so_far), s2))"

end
