(* ===== verification/HeadLane.thy ===== *)
theory HeadLane
  imports Regroup
begin

text \<open>
  \<open>head_lane.py\<close>: planning a window from its new lines and the parked conversations only, applying the plan,
  and comparing it with what a rebuild wrote. \<open>build_plan\<close> reads and returns a plan or the name of the guard
  that sends the window back to the rebuild. \<open>clock\<close> is the wall clock.
\<close>

subsection \<open>Mode and checkpoint\<close>

definition head_mode_of :: "string \<Rightarrow> string" where
  "head_mode_of setting =
     (let m = lower (strip setting) in if m \<in> {''off'', ''shadow'', ''on''} then m else ''off'')"

definition get_checkpoint :: "store \<Rightarrow> string \<Rightarrow> instant option" where
  "get_checkpoint s cc = map_of (checkpoints s) cc"

text \<open>The greatest-wins upsert.\<close>

definition advance_checkpoint :: "string \<Rightarrow> instant \<Rightarrow> store \<Rightarrow> store" where
  "advance_checkpoint cc hi s =
     s\<lparr>checkpoints := AList.update cc
        (case get_checkpoint s cc of None \<Rightarrow> hi | Some t \<Rightarrow> max t hi) (checkpoints s)\<rparr>"

subsection \<open>Plans\<close>

record continuation =
  c_txn :: uuid
  c_started :: "instant option"
  c_old_fp :: "string option"
  c_verdict :: verdict
  c_entries :: "log_entry list"

record creation =
  n_txn :: uuid
  n_verdict :: verdict
  n_entries :: "log_entry list"

record head_plan =
  hp_lo :: instant
  hp_hi :: instant
  hp_continued :: "continuation list"
  hp_created :: "creation list"
  hp_open :: "open_stream_info list"

datatype fallback =
    No_checkpoint | Behind_checkpoint | No_rows | Clock_backwards | Parked_unreadable | Parked_closed
  | Parked_lone_request | Parked_requestless | Parked_vanished | Parked_sealed | Parked_merge | Anonymous_open
  | Started_at_moved | Id_clash

definition empty_plan :: "instant \<Rightarrow> instant \<Rightarrow> head_plan" where
  "empty_plan lo hi = \<lparr>hp_lo = lo, hp_hi = hi, hp_continued = [], hp_created = [], hp_open = []\<rparr>"

definition txn_lines :: "loaded \<Rightarrow> stream_row \<Rightarrow> log_entry list" where
  "txn_lines ld r = (case map_of (ld_entries ld) (sr_txn r) of None \<Rightarrow> [] | Some es \<Rightarrow> es)"

text \<open>The guards on what was parked, in the order of the source.\<close>

definition parked_guard :: "loaded \<Rightarrow> fallback option" where
  "parked_guard ld =
     (let parked = filter (\<lambda>r. txn_lines ld r \<noteq> []) (ld_streams ld)
      in if count_of (ld_refusals ld) Clock_went_backwards \<noteq> 0 then Some Clock_backwards
         else if length parked \<noteq> length (ld_streams ld) then Some Parked_unreadable
         else if list_ex (\<lambda>r. list_ex (\<lambda>e. entry_type e = Response) (txn_lines ld r)) parked then Some Parked_closed
         else if list_ex (\<lambda>r. case txn_lines ld r of [e] \<Rightarrow> entry_type e = Request | _ \<Rightarrow> False) parked
              then Some Parked_lone_request
         else if list_ex (\<lambda>r. \<not> sr_has_request r) parked then Some Parked_requestless
         else None)"

definition txn_of_entry :: "loaded \<Rightarrow> (uuid, uuid) odict" where
  "txn_of_entry ld = dict_of_rows (\<lambda>p. p) (concat (map (\<lambda>r. map (\<lambda>e. (entry_id e, sr_txn r)) (txn_lines ld r)) (ld_streams ld)))"

definition parked_rows :: "store \<Rightarrow> stream_row list \<Rightarrow> (uuid, txn_row) odict" where
  "parked_rows s parked = dict_of_rows (\<lambda>r. (row_id r, r)) (filter (\<lambda>r. row_id r \<in> set (map sr_txn parked)) (txns s))"

definition owners_of_lines :: "(uuid, uuid) odict \<Rightarrow> log_entry list \<Rightarrow> uuid list" where
  "owners_of_lines owner es = remdups (concat (map (\<lambda>e. case map_of owner (entry_id e) of None \<Rightarrow> [] | Some t \<Rightarrow> [t]) es))"

definition open_info :: "log_entry list \<Rightarrow> uuid \<Rightarrow> instant \<Rightarrow> pos \<Rightarrow> open_stream_info list" where
  "open_info es t latest position =
     (case es of
        [] \<Rightarrow> []
      | first # _ \<Rightarrow>
          [\<lparr>os_server = entry_server first, os_thread = thread first, os_user = user_ctx first, os_txn = t,
            os_has_request = list_ex (\<lambda>e. entry_type e = Request) es, os_last = latest, os_pos = position,
            os_current = True\<rparr>])"

text \<open>Whether a builder is still open at the end of the window, and since when.\<close>

definition still_open :: "duration \<Rightarrow> instant \<Rightarrow> log_entry list \<Rightarrow> instant option" where
  "still_open gap hi es =
     (case max_of (instants es) of None \<Rightarrow> None | Some latest \<Rightarrow> if hi - latest < gap then Some latest else None)"

definition anonymous :: "log_entry list \<Rightarrow> bool" where
  "anonymous es = (case es of [] \<Rightarrow> False | first # _ \<Rightarrow> user_ctx first = None \<and> entry_user first = JNull)"

definition park :: "log_entry list \<Rightarrow> uuid \<Rightarrow> instant option \<Rightarrow> pos \<Rightarrow> head_plan \<Rightarrow> head_plan" where
  "park es t opened position p =
     (case opened of None \<Rightarrow> p | Some latest \<Rightarrow> p\<lparr>hp_open := hp_open p @ open_info es t latest position\<rparr>)"

definition plan_builder ::
    "env \<Rightarrow> settings \<Rightarrow> string \<Rightarrow> instant \<Rightarrow> instant option \<Rightarrow> instant option \<Rightarrow> (uuid, uuid) odict \<Rightarrow> (uuid, txn_row) odict
     \<Rightarrow> builder \<Rightarrow> fallback + head_plan \<Rightarrow> fallback + head_plan" where
  "plan_builder env st cc hi seal abandon owner rows b acc =
     (case acc of
        Inl why \<Rightarrow> Inl why
      | Inr p \<Rightarrow>
          (let es = in_stream_order (entries b);
               owners = owners_of_lines owner es;
               opened = still_open (open_gap (cfg st)) hi es;
               vd = verdict_of env cc seal abandon es
           in if 1 < length owners then Inl Parked_merge
              else if opened \<noteq> None \<and> anonymous es then Inl Anonymous_open
              else case owners of
                t # _ \<Rightarrow>
                  (case map_of rows t of
                     None \<Rightarrow> Inl Parked_vanished
                   | Some stored \<Rightarrow>
                       (if v_started (vd_values vd) \<noteq> row_started stored then Inl Started_at_moved
                        else if row_fp stored = Some (vd_row_fp vd) \<and> row_members_fp stored = Some (vd_members_fp vd)
                        then Inr (park es t opened (open_pos b) p)
                        else Inr (park es t opened (open_pos b)
                               (p\<lparr>hp_continued := hp_continued p @
                                    [\<lparr>c_txn = t, c_started = row_started stored, c_old_fp = row_fp stored,
                                      c_verdict = vd, c_entries = es\<rparr>]\<rparr>))))
              | [] \<Rightarrow>
                  (let t = txn_id (e_uuid5 env) es
                   in Inr (park es t opened (open_pos b)
                        (p\<lparr>hp_created := hp_created p @ [\<lparr>n_txn = t, n_verdict = vd, n_entries = es\<rparr>]\<rparr>)))))"

definition window_rows :: "store \<Rightarrow> string \<Rightarrow> instant \<Rightarrow> instant \<Rightarrow> log_entry list" where
  "window_rows s cc lo hi = rows_unassigned s cc lo hi"

definition plan_window ::
    "env \<Rightarrow> settings \<Rightarrow> string \<Rightarrow> instant \<Rightarrow> instant \<Rightarrow> instant \<Rightarrow> loaded \<Rightarrow> log_entry list \<Rightarrow> store \<Rightarrow> fallback + head_plan" where
  "plan_window env st cc lo hi clock ld rows s =
     (let (seal, abandon) = tenant_cutoffs st clock s cc;
          bs = filter (\<lambda>b. entries b \<noteq> []) (grouped st (seed_of ld (ld_streams ld)) rows);
          stored = parked_rows s (ld_streams ld)
      in if length stored \<noteq> length (ld_streams ld) then Inl Parked_vanished
         else if list_ex (\<lambda>p. row_sealed (snd p)) stored then Inl Parked_sealed
         else case fold (plan_builder env st cc hi seal abandon (txn_of_entry ld) stored) bs (Inr (empty_plan lo hi)) of
           Inl why \<Rightarrow> Inl why
         | Inr p \<Rightarrow>
             (if hp_created p \<noteq> [] \<and>
                 existing_transaction_ids cc (clash_window (cfg st) (map timestamp (concat (map entries bs)))) s
                   (map n_txn (hp_created p)) \<noteq> []
              then Inl Id_clash else Inr p))"

definition build_plan ::
    "env \<Rightarrow> settings \<Rightarrow> string \<Rightarrow> instant \<Rightarrow> instant \<Rightarrow> instant \<Rightarrow> store \<Rightarrow> fallback + head_plan" where
  "build_plan env st cc lo hi clock s =
     (case get_checkpoint s cc of
        None \<Rightarrow> Inl No_checkpoint
      | Some checkpoint \<Rightarrow>
          (if lo < checkpoint then Inl Behind_checkpoint
           else let rows = window_rows s cc lo hi; ld = load_streams (cfg st) cc lo s
                in if rows = [] then Inl No_rows
                   else case parked_guard ld of
                     Some why \<Rightarrow> Inl why
                   | None \<Rightarrow> plan_window env st cc lo hi clock ld rows s))"

subsection \<open>Applying a plan\<close>

definition stored_fp :: "store \<Rightarrow> uuid \<Rightarrow> instant option \<Rightarrow> string option" where
  "stored_fp s t started =
     (case find (\<lambda>r. row_id r = t \<and> row_started r = started) (txns s) of None \<Rightarrow> None | Some r \<Rightarrow> row_fp r)"

definition apply_continuation :: "string \<Rightarrow> instant \<Rightarrow> continuation \<Rightarrow> rebuild_error + store \<Rightarrow> rebuild_error + store" where
  "apply_continuation cc clock c acc =
     (case acc of
        Inl e \<Rightarrow> Inl e
      | Inr s \<Rightarrow>
          (if stored_fp s (c_txn c) (c_started c) \<noteq> c_old_fp c then Inl (Plan_stale (c_txn c))
           else let vd = c_verdict c
                in Inr (write_assignments (c_txn c) (c_entries c) cc
                     (update_transaction (c_txn c) (c_started c) (vd_values vd) (vd_sealed vd) (vd_row_fp vd)
                        (vd_members_fp vd) clock s))))"

definition apply_creation :: "string \<Rightarrow> instant \<Rightarrow> creation \<Rightarrow> store \<Rightarrow> store" where
  "apply_creation cc clock n s =
     (let vd = n_verdict n
      in write_transaction (n_txn n) (vd_values vd) (vd_sealed vd) (n_entries n) cc (vd_row_fp vd) (vd_members_fp vd) clock s)"

definition plan_starts :: "head_plan \<Rightarrow> instant option list" where
  "plan_starts p =
     (let starts = map c_started (hp_continued p) @ map (\<lambda>n. v_started (vd_values (n_verdict n))) (hp_created p)
      in if starts = [] then [Some (hp_lo p)] else starts)"

definition head_stats :: "head_plan \<Rightarrow> stats" where
  "head_stats p =
     (let n = sum_list (map (\<lambda>c. length (n_entries c)) (hp_created p)) + sum_list (map (\<lambda>c. length (c_entries c)) (hp_continued p))
      in no_stats\<lparr>st_created := length (hp_created p), st_rewritten := length (hp_continued p), st_entries_scanned := n,
           st_assigned := n,
           st_sealed := length (filter (\<lambda>c. vd_sealed (n_verdict c)) (hp_created p))
                      + length (filter (\<lambda>c. vd_sealed (c_verdict c)) (hp_continued p))\<rparr>)"

text \<open>The database transaction of \<open>apply_plan\<close>; the checkpoint advances in a transaction of its own.\<close>

definition apply_commit ::
    "settings \<Rightarrow> string \<Rightarrow> head_plan \<Rightarrow> instant \<Rightarrow> store \<Rightarrow> rebuild_error + store" where
  "apply_commit st cc p clock s =
     (case fold (apply_continuation cc clock) (hp_continued p) (Inr s) of
        Inl e \<Rightarrow> Inl e
      | Inr s1 \<Rightarrow>
          (case save_streams cc (hp_open p) [] None clock (fold (apply_creation cc clock) (hp_created p) s1) of
             None \<Rightarrow> Inl Save_conflict
           | Some s2 \<Rightarrow>
               (case min_of (known (plan_starts p)) of
                  None \<Rightarrow> Inl No_start
                | Some m \<Rightarrow> Inr (publish_for_transactions (cfg st) clock cc [Some m, Some (hp_hi p)] s2))))"

definition apply_plan ::
    "settings \<Rightarrow> string \<Rightarrow> head_plan \<Rightarrow> instant \<Rightarrow> store \<Rightarrow> rebuild_error + stats \<times> store" where
  "apply_plan st cc p clock s =
     map_sum id (\<lambda>s'. (head_stats p, advance_checkpoint cc (hp_hi p) s')) (apply_commit st cc p clock s)"

subsection \<open>Comparing a plan with the rebuild\<close>

record planned_txn =
  pt_txn :: uuid
  pt_verdict :: verdict
  pt_entries :: "log_entry list"

definition planned :: "head_plan \<Rightarrow> planned_txn list" where
  "planned p =
     map (\<lambda>c. \<lparr>pt_txn = c_txn c, pt_verdict = c_verdict c, pt_entries = c_entries c\<rparr>) (hp_continued p)
     @ map (\<lambda>n. \<lparr>pt_txn = n_txn n, pt_verdict = n_verdict n, pt_entries = n_entries n\<rparr>) (hp_created p)"

definition planned_owner :: "head_plan \<Rightarrow> (uuid, uuid) odict" where
  "planned_owner p = dict_of_rows (\<lambda>x. x) (concat (map (\<lambda>c. map (\<lambda>e. (entry_id e, pt_txn c)) (pt_entries c)) (planned p)))"

definition head_shadow_agrees :: "head_plan \<Rightarrow> store \<Rightarrow> bool" where
  "head_shadow_agrees p s =
     (let owner = planned_owner p;
          actual = load_transaction_by_entry s (map fst owner);
          fps = dict_of_rows (\<lambda>r. (row_id r, (row_fp r, row_members_fp r)))
                  (filter (\<lambda>r. row_id r \<in> set (map pt_txn (planned p))) (txns s));
          wrong = filter (\<lambda>(e, t). map_of actual e \<noteq> Some t) owner;
          same = filter (\<lambda>c. length (filter (\<lambda>a. a_txn a = pt_txn c) (assigns s)) = length (pt_entries c)
                    \<and> list_all (\<lambda>e. map_of actual (entry_id e) = Some (pt_txn c)) (pt_entries c)) (planned p);
          mismatch = filter (\<lambda>c. map_of fps (pt_txn c)
                       \<noteq> Some (Some (vd_row_fp (pt_verdict c)), Some (vd_members_fp (pt_verdict c)))) same
      in wrong = [] \<and> mismatch = [])"

end
