(* ===== verification/RetryPolicy.thy ===== *)
theory RetryPolicy
  imports Floats Prelude
begin

text \<open>
  What a failure means to the two queues: \<open>io_errors.py\<close> (which exceptions are faults of the disk) and
  \<open>retry_policy.py\<close> (which failures deserve another attempt, and after how long). An exception is its class
  with the bases it is an instance of (nearest first, as in the MRO), its text, and the three links to other
  exceptions; the links of a value of this type cannot form a cycle, which is what the guards of the source
  exclude. The jitter \<open>random.random()\<close> is a parameter.
\<close>

datatype exn = Exn (exn_types: "string list") (exn_text: string) (exn_orig: "exn option") (exn_cause: "exn option")
  (exn_context: "exn option")

definition class_name :: "exn \<Rightarrow> string" where
  "class_name e = (case exn_types e of [] \<Rightarrow> [] | t # _ \<Rightarrow> t)"

definition is_instance :: "exn \<Rightarrow> string list \<Rightarrow> bool" where
  "is_instance e ts = list_ex (\<lambda>t. t \<in> set ts) (exn_types e)"

subsection \<open>Faults of the disk (io_errors.py)\<close>

fun has_substring :: "string \<Rightarrow> string \<Rightarrow> bool" where
  "has_substring p [] = (p = [])"
| "has_substring p (c # s) = (starts_with p (c # s) \<or> has_substring p s)"

definition io_signatures :: "string list" where
  "io_signatures = [''could not read block'', ''input/output error'', ''unrecovered read error'', ''medium error'',
     ''invalid page'', ''canceling statement due to statement timeout'']"

definition is_io_text :: "string \<Rightarrow> bool" where
  "is_io_text text = list_ex (\<lambda>sig. has_substring sig (lower text)) io_signatures"

definition next_link :: "exn \<Rightarrow> exn option" where
  "next_link e =
     (case exn_orig e of
        Some x \<Rightarrow> Some x
      | None \<Rightarrow> (case exn_cause e of Some x \<Rightarrow> Some x | None \<Rightarrow> exn_context e))"

fun disk_io_within :: "nat \<Rightarrow> exn option \<Rightarrow> bool" where
  "disk_io_within 0 e = False"
| "disk_io_within (Suc n) None = False"
| "disk_io_within (Suc n) (Some e) =
     (is_io_text (exn_text e) \<or> class_name e \<in> {''PostgresIOError'', ''DiskError''} \<or> disk_io_within n (next_link e))"

definition is_disk_io_error :: "exn \<Rightarrow> bool" where
  "is_disk_io_error e = disk_io_within 6 (Some e)"

text \<open>The match of \<open>could not read block (\d+) in file "([^"]+)"\<close> at the start of a text.\<close>

definition block_at :: "string \<Rightarrow> (string \<times> string) option" where
  "block_at s =
     (let lead = ''could not read block ''; mid = '' in file '' @ [CHR 0x22];
          rest = drop (length lead) s; digits = takeWhile is_digit rest;
          after = drop (length digits) rest; body = drop (length mid) after;
          file = takeWhile (\<lambda>c. c \<noteq> CHR 0x22) body
      in if starts_with lead s \<and> digits \<noteq> [] \<and> starts_with mid after \<and> file \<noteq> [] \<and> length file < length body
         then Some (digits, file) else None)"

fun find_block :: "string \<Rightarrow> (string \<times> string) option" where
  "find_block [] = None"
| "find_block (c # s) = (case block_at (c # s) of Some m \<Rightarrow> Some m | None \<Rightarrow> find_block s)"

definition line_break :: "char \<Rightarrow> bool" where
  "line_break c \<longleftrightarrow> (of_char c :: int) \<in> {10, 11, 12, 13, 28, 29, 30, 133}"

text \<open>\<open>text.splitlines()[0]\<close>: an empty text has no first line, and the index raises.\<close>

definition first_line :: "string \<Rightarrow> string option" where
  "first_line s = (if s = [] then None else Some (takeWhile (\<lambda>c. \<not> line_break c) s))"

definition disk_io_detail :: "exn \<Rightarrow> string option" where
  "disk_io_detail e =
     (let text = exn_text e
      in case find_block text of
           Some (n, file) \<Rightarrow> Some (''block '' @ n @ '' in file '' @ file)
         | None \<Rightarrow>
             (if has_substring ''statement timeout'' (lower text)
              then Some ''statement timeout (disk too slow to finish in time)''
              else map_option (take 200) (first_line text)))"

subsection \<open>Retries (retry_policy.py)\<close>

definition permanent_types :: "string list" where
  "permanent_types = [''UnicodeError'', ''FileNotFoundError'', ''IsADirectoryError'', ''NotADirectoryError'',
     ''PermissionError'', ''ValueError'', ''TypeError'', ''KeyError'']"

text \<open>\<open>asyncio.TimeoutError\<close> and \<open>socket.timeout\<close> are \<open>TimeoutError\<close>.\<close>

definition transient_types :: "string list" where
  "transient_types = [''TimeoutError'', ''ConnectionError'']"

definition retry_rules :: "((exn \<Rightarrow> bool) \<times> bool) list" where
  "retry_rules = [(is_disk_io_error, True), (\<lambda>e. is_instance e permanent_types, False),
     (\<lambda>e. is_instance e transient_types, True)]"

fun first_rule :: "((exn \<Rightarrow> bool) \<times> bool) list \<Rightarrow> exn \<Rightarrow> bool option" where
  "first_rule [] e = None"
| "first_rule ((matches, verdict) # rules) e = (if matches e then Some verdict else first_rule rules e)"

definition classify :: "exn \<Rightarrow> bool option" where
  "classify e = first_rule retry_rules e"

fun cause_chain :: "exn \<Rightarrow> exn list" where
  "cause_chain (Exn ts text ori cause con) =
     Exn ts text ori cause con # (case cause of None \<Rightarrow> [] | Some c \<Rightarrow> cause_chain c)"

fun first_verdict :: "exn list \<Rightarrow> bool" where
  "first_verdict [] = True"
| "first_verdict (e # es) = (case classify e of Some v \<Rightarrow> v | None \<Rightarrow> first_verdict es)"

definition is_transient :: "exn \<Rightarrow> bool" where
  "is_transient e = first_verdict (cause_chain e)"

text \<open>In floating point, as Python computes it; a power of two below \<open>2 ^ 1024\<close> converts exactly.\<close>

definition backoff_seconds :: "rat \<Rightarrow> nat \<Rightarrow> rat \<Rightarrow> rat \<Rightarrow> rat" where
  "backoff_seconds jitter attempts base cap =
     (let raw = min (fmul base (2 ^ (max 1 attempts - 1))) cap
      in fadd raw (fmul (fmul jitter raw) (1 / 4)))"

subsection \<open>What they promise\<close>

lemma first_verdict_decided:
  "classify e = Some v \<Longrightarrow> first_verdict (e # es) = v"
  by simp

text \<open>A chain is judged by the nearest link any rule knows.\<close>

lemma first_verdict_skip: "\<forall>e \<in> set es. classify e = None \<Longrightarrow> first_verdict (es @ fs) = first_verdict fs"
  by (induction es) auto

lemma fl_le: "0 \<le> x \<Longrightarrow> fl x \<le> x * (1 + ulp)"
  using fl_error [of x] by (simp add: algebra_simps abs_le_iff)

lemma ulp_pos: "0 < ulp"
  by (simp add: ulp_def)

text \<open>a retry is held back for a bounded time: the delay is never negative, and never longer than the cap
  plus a quarter of it (and the rounding of three operations), whatever the number of attempts.\<close>

theorem backoff_is_bounded:
  assumes "0 \<le> jitter" and "jitter \<le> 1" and "0 \<le> base" and "0 \<le> cap"
  shows "0 \<le> backoff_seconds jitter attempts base cap
       \<and> backoff_seconds jitter attempts base cap \<le> cap * (5 / 4) * (1 + ulp) ^ 3"
proof -
  define raw where "raw = min (fmul base (2 ^ (max 1 attempts - 1))) cap"
  have raw: "0 \<le> raw" "raw \<le> cap" using assms(3,4) by (simp_all add: raw_def fmul_def fl_nonneg)
  define a where "a = fmul jitter raw"
  have "jitter * raw \<le> raw" using assms(2) raw(1) by (simp add: mult_left_le_one_le assms(1))
  then have a: "0 \<le> a" "a \<le> raw * (1 + ulp)"
    using fl_le [of "jitter * raw"] mult_right_mono [of "jitter * raw" raw "1 + ulp"] assms(1) raw ulp_pos
    by (simp_all add: a_def fmul_def fl_nonneg)
  define b where "b = fmul a (1 / 4)"
  have b: "0 \<le> b" "b \<le> raw / 4 * (1 + ulp) ^ 2"
    using fl_le [of "a * (1 / 4)"] a mult_right_mono [OF a(2), of "(1 + ulp) / 4"] ulp_pos
    by (simp_all add: b_def fmul_def fl_nonneg power2_eq_square algebra_simps)
  have one: "1 \<le> (1 + ulp) ^ 2" using ulp_pos by (simp add: one_le_power)
  have "raw + b \<le> raw * (5 / 4) * (1 + ulp) ^ 2" using b(2) mult_left_mono [OF one raw(1)] by simp
  then have "(raw + b) * (1 + ulp) \<le> raw * (5 / 4) * (1 + ulp) ^ 2 * (1 + ulp)"
    using ulp_pos by (intro mult_right_mono) auto
  also have "\<dots> \<le> cap * (5 / 4) * (1 + ulp) ^ 3"
    using raw ulp_pos by (simp add: power3_eq_cube power2_eq_square mult_right_mono mult.assoc)
  finally have "fadd raw b \<le> cap * (5 / 4) * (1 + ulp) ^ 3"
    using fl_le [of "raw + b"] raw b by (simp add: fadd_def)
  moreover have "0 \<le> fadd raw b" using raw b by (simp add: fadd_def fl_nonneg)
  moreover have "backoff_seconds jitter attempts base cap = fadd raw b"
    by (simp add: backoff_seconds_def Let_def raw_def a_def b_def)
  ultimately show ?thesis by simp
qed

lemma backoff_is_bounded_witness:
  "0 \<le> backoff_seconds (1 / 2) 10 30 1800 \<and> backoff_seconds (1 / 2) 10 30 1800 \<le> 1800 * (5 / 4) * (1 + ulp) ^ 3"
  by (rule backoff_is_bounded) simp_all

text \<open>The cap bounds the delay before the jitter, not the delay.\<close>

lemma backoff_exceeds_its_cap: "1800 < backoff_seconds (1 / 2) 10 30 1800"
  by code_simp

text \<open>A fault of the disk that a wrapper without a message carries has no first line to report.\<close>

lemma disk_fault_without_text:
  "is_disk_io_error (Exn [''RuntimeError'', ''Exception''] [] None (Some (Exn [''PostgresIOError''] ''read failed'' None None None)) None)
   \<and> disk_io_detail (Exn [''RuntimeError'', ''Exception''] [] None (Some (Exn [''PostgresIOError''] ''read failed'' None None None)) None) = None"
  by code_simp

lemma statement_timeout_is_transient:
  "has_substring ''canceling statement due to statement timeout'' (lower (exn_text e)) \<Longrightarrow> is_transient e"
  by (cases e) (simp add: is_transient_def classify_def retry_rules_def is_disk_io_error_def is_io_text_def io_signatures_def
      eval_nat_numeral)

end
