(* ===== verification/Finalize.thy ===== *)
theory Finalize
  imports HeadLane RetryPolicy
begin

text \<open>
  Draining the stitch queue: \<open>finalize_pending\<close>, \<open>reset_abandoned_windows\<close>, \<open>ranged_regroup\<close> and the tracked
  rebuilds of \<open>derive_transactions.py\<close>. What the database does to a step is a parameter: \<open>fault site\<close> is the
  exception it raises there, if any; a window that fails is rolled back. The texts of the exceptions the code
  raises itself and the jitter of the backoff are parameters too. One clock serves a whole pass.
\<close>

subsection \<open>Exceptions\<close>

definition exn_of :: "(rebuild_error \<Rightarrow> string) \<Rightarrow> rebuild_error \<Rightarrow> exn" where
  "exn_of msg e =
     Exn (case e of
            Cross_pad_span_exceeded ts \<Rightarrow> [''CrossPadSpanExceeded'', ''RuntimeError'', ''Exception'']
          | Plan_stale t \<Rightarrow> [''PlanStale'', ''RuntimeError'', ''Exception'']
          | Save_conflict \<Rightarrow> [''IntegrityError'', ''DatabaseError'', ''DBAPIError'', ''StatementError'', ''SQLAlchemyError'', ''Exception'']
          | No_start \<Rightarrow> [''ValueError'', ''Exception''])
       (msg e) None None None"

datatype site = At_window span | At_checkpoint span | At_consume "uuid list"

record outside =
  o_env :: env
  o_fault :: "site \<Rightarrow> exn option"
  o_message :: "rebuild_error \<Rightarrow> string"
  o_jitter :: "uuid list \<Rightarrow> rat"

subsection \<open>One window\<close>

text \<open>A transaction of the database: it commits, or the fault or the error of the code leaves the store alone.\<close>

definition commit_window ::
    "outside \<Rightarrow> span \<Rightarrow> store \<Rightarrow> rebuild_error + stats \<times> store \<Rightarrow> exn + stats \<times> store" where
  "commit_window out w s result =
     (case o_fault out (At_window w) of
        Some e \<Rightarrow> Inl e
      | None \<Rightarrow> (case result of Inl e \<Rightarrow> Inl (exn_of (o_message out) e) | Inr r \<Rightarrow> Inr r))"

definition head_commit :: "settings \<Rightarrow> string \<Rightarrow> head_plan \<Rightarrow> instant \<Rightarrow> store \<Rightarrow> rebuild_error + stats \<times> store" where
  "head_commit st cc p clock s = map_sum id (\<lambda>s'. (head_stats p, s')) (apply_commit st cc p clock s)"

text \<open>The lane a window takes: the head lane in mode \<open>on\<close> when a plan exists, the rebuild otherwise.\<close>

definition window_result ::
    "outside \<Rightarrow> settings \<Rightarrow> string \<Rightarrow> instant \<Rightarrow> span \<Rightarrow> store \<Rightarrow> rebuild_error + stats \<times> store" where
  "window_result out st cc clock w s =
     (case (if head_mode_of (head_lane_mode st) = ''on'' then build_plan (o_env out) st cc (fst w) (snd w) clock s else Inl No_checkpoint) of
        Inr p \<Rightarrow> head_commit st cc p clock s
      | Inl why \<Rightarrow> regroup_window (o_env out) st cc (fst w) (snd w) clock s)"

text \<open>The exception of a window comes with the store as it was committed by then.\<close>

definition run_window ::
    "outside \<Rightarrow> settings \<Rightarrow> string \<Rightarrow> instant \<Rightarrow> span \<Rightarrow> store \<Rightarrow> (exn \<times> store) + (stats \<times> store)" where
  "run_window out st cc clock w s =
     (case commit_window out w s (window_result out st cc clock w s) of
        Inl e \<Rightarrow> Inl (e, s)
      | Inr (part, s1) \<Rightarrow>
          (case o_fault out (At_checkpoint w) of
             Some e \<Rightarrow> Inl (e, s1)
           | None \<Rightarrow> Inr (part, advance_checkpoint cc (snd w) s1)))"

fun run_windows ::
    "outside \<Rightarrow> settings \<Rightarrow> string \<Rightarrow> instant \<Rightarrow> span list \<Rightarrow> store \<Rightarrow> stats list \<times> (exn option \<times> store)" where
  "run_windows out st cc clock [] s = ([], (None, s))"
| "run_windows out st cc clock (w # ws) s =
     (case run_window out st cc clock w s of
        Inl (e, s1) \<Rightarrow> ([], (Some e, s1))
      | Inr (part, s1) \<Rightarrow> (let (parts, r) = run_windows out st cc clock ws s1 in (part # parts, r)))"

subsection \<open>Tickets\<close>

definition due :: "string \<Rightarrow> instant \<Rightarrow> regroup_ticket \<Rightarrow> bool" where
  "due cc clock q \<longleftrightarrow>
     q_customer q = cc \<and> q_consumed q = None \<and> q_abandoned q = None \<and> q_available q \<le> clock"

definition update_tickets :: "uuid list \<Rightarrow> (regroup_ticket \<Rightarrow> regroup_ticket) \<Rightarrow> store \<Rightarrow> store" where
  "update_tickets ids f s = s\<lparr>queue := map (\<lambda>q. if q_id q \<in> set ids then f q else q) (queue s)\<rparr>"

definition consume_ticket :: "instant \<Rightarrow> regroup_ticket \<Rightarrow> regroup_ticket" where
  "consume_ticket clock q = q\<lparr>q_consumed := Some clock\<rparr>"

text \<open>A failure that describing it turns into another exception escapes with the store committed so far.\<close>

text \<open>The error text stored on a ticket; \<open>None\<close> when describing the fault raises (an exception without text).\<close>

definition error_text :: "exn \<Rightarrow> string option" where
  "error_text e =
     (if is_disk_io_error e then map_option (\<lambda>d. take 2000 (''disk fault: '' @ d)) (disk_io_detail e)
      else Some (take 2000 (exn_text e)))"

text \<open>\<open>make_interval(secs)\<close>: seconds to microseconds, rounded to even.\<close>

definition interval_us :: "rat \<Rightarrow> duration" where
  "interval_us secs = round_even (fmul secs 1000000)"

definition fail_ticket :: "settings \<Rightarrow> instant \<Rightarrow> string \<Rightarrow> bool \<Rightarrow> rat \<Rightarrow> regroup_ticket \<Rightarrow> regroup_ticket" where
  "fail_ticket st clock err transient delay q =
     (let q1 = q\<lparr>q_attempts := Suc (q_attempts q), q_error := Some err, q_last_attempt := Some clock\<rparr>;
          q2 = (if transient then q1\<lparr>q_available := clock + interval_us delay\<rparr> else q1)
      in if \<not> transient \<or> max_attempts (cfg st) \<le> q_attempts q2 then q2\<lparr>q_abandoned := Some clock\<rparr> else q2)"

definition retry_delay :: "outside \<Rightarrow> settings \<Rightarrow> regroup_ticket list \<Rightarrow> rat" where
  "retry_delay out st rows =
     backoff_seconds (o_jitter out (map q_id rows)) (case rows of [] \<Rightarrow> 1 | q # _ \<Rightarrow> q_attempts q + 1)
       (backoff_base (cfg st)) (backoff_cap (cfg st))"

subsection \<open>One run\<close>

record finalize_report =
  f_windows :: "stats list"
  f_consumed :: nat
  f_abandoned :: nat
  f_failures :: "(span \<times> string \<times> bool \<times> bool) list"

definition newly_abandoned :: "settings \<Rightarrow> bool \<Rightarrow> uuid list \<Rightarrow> store \<Rightarrow> nat" where
  "newly_abandoned st transient ids s =
     length (filter (\<lambda>q. q_id q \<in> set ids \<and> (\<not> transient \<or> max_attempts (cfg st) \<le> Suc (q_attempts q))) (queue s))"

definition fail_run ::
    "outside \<Rightarrow> settings \<Rightarrow> instant \<Rightarrow> span \<Rightarrow> regroup_ticket list \<Rightarrow> exn \<Rightarrow> finalize_report \<times> store
     \<Rightarrow> (exn \<times> store) + finalize_report \<times> store" where
  "fail_run out st clock w rows e acc =
     (case acc of (rep, s) \<Rightarrow>
        (case error_text e of
           None \<Rightarrow> Inl (Exn [''IndexError'', ''LookupError'', ''Exception''] ''list index out of range'' None None (Some e), s)
         | Some err \<Rightarrow>
             (let transient = is_transient e; ids = map q_id rows;
                  n = newly_abandoned st transient ids s;
                  s1 = update_tickets ids (fail_ticket st clock err transient (retry_delay out st rows)) s
              in Inr (rep\<lparr>f_abandoned := f_abandoned rep + n,
                          f_failures := f_failures rep @ [(w, err, is_disk_io_error e, n \<noteq> 0)]\<rparr>, s1))))"

definition finalize_run ::
    "outside \<Rightarrow> settings \<Rightarrow> string \<Rightarrow> instant \<Rightarrow> span \<times> regroup_ticket list \<Rightarrow> (exn \<times> store) + finalize_report \<times> store
     \<Rightarrow> (exn \<times> store) + finalize_report \<times> store" where
  "finalize_run out st cc clock run acc =
     (case acc of
        Inl e \<Rightarrow> Inl e
      | Inr (rep, s) \<Rightarrow>
          (case run of ((lo, hi), rows) \<Rightarrow>
             (case run_windows out st cc clock (split_run lo hi (max_window_seconds (cfg st))) s of
                (parts, (failure, s1)) \<Rightarrow>
                  (let rep1 = rep\<lparr>f_windows := f_windows rep @ parts\<rparr>
                   in case (case failure of Some e \<Rightarrow> Some e | None \<Rightarrow> o_fault out (At_consume (map q_id rows))) of
                        Some e \<Rightarrow> fail_run out st clock (lo, hi) rows e (rep1, s1)
                      | None \<Rightarrow> Inr (rep1\<lparr>f_consumed := f_consumed rep1 + length rows\<rparr>,
                                     update_tickets (map q_id rows) (consume_ticket clock) s1)))))"

definition no_report :: finalize_report where
  "no_report = \<lparr>f_windows = [], f_consumed = 0, f_abandoned = 0, f_failures = []\<rparr>"

definition finalize_pending ::
    "outside \<Rightarrow> settings \<Rightarrow> string \<Rightarrow> instant \<Rightarrow> store \<Rightarrow> (exn \<times> store) + finalize_report \<times> store" where
  "finalize_pending out st cc clock s =
     (let pend = sort_key q_start (filter (due cc clock) (queue s));
          runs = coalesce_pending q_start q_end (2 * regroup_pad (cfg st)) pend
      in fold (finalize_run out st cc clock) runs (Inr (no_report, s)))"

definition reset_abandoned_windows :: "string \<Rightarrow> store \<Rightarrow> nat \<times> store" where
  "reset_abandoned_windows cc s =
     (let parked = (\<lambda>q. q_customer q = cc \<and> q_abandoned q \<noteq> None \<and> q_consumed q = None)
      in (length (filter parked (queue s)),
          s\<lparr>queue := map (\<lambda>q. if parked q then q\<lparr>q_abandoned := None, q_attempts := 0, q_error := None\<rparr> else q) (queue s)\<rparr>))"

subsection \<open>Rebuilding a range, and the tracked runs\<close>

text \<open>Slices already committed stay committed when a later one fails.\<close>

fun regroup_slices ::
    "outside \<Rightarrow> settings \<Rightarrow> string \<Rightarrow> instant \<Rightarrow> span list \<Rightarrow> stats \<times> store \<Rightarrow> (exn option \<times> stats) \<times> store" where
  "regroup_slices out st cc clock [] (so_far, s) = ((None, so_far), s)"
| "regroup_slices out st cc clock (w # ws) (so_far, s) =
     (case commit_window out w s (regroup_window (o_env out) st cc (fst w) (snd w) clock s) of
        Inl e \<Rightarrow> ((Some e, so_far), s)
      | Inr (part, s1) \<Rightarrow> regroup_slices out st cc clock ws (merge_stats so_far part, s1))"

definition ranged_regroup ::
    "outside \<Rightarrow> settings \<Rightarrow> string \<Rightarrow> instant \<Rightarrow> instant \<Rightarrow> instant \<Rightarrow> store \<Rightarrow> (exn option \<times> stats) \<times> store" where
  "ranged_regroup out st cc lo hi clock s =
     regroup_slices out st cc clock (split_run lo hi (max_window_seconds (cfg st))) (no_stats, s)"

datatype run_status = Running | Completed | Failed

record regroup_run =
  rr_id :: uuid
  rr_customer :: string
  rr_kind :: string
  rr_start :: "instant option"
  rr_end :: "instant option"
  rr_status :: run_status
  rr_error :: "string option"
  rr_created :: instant
  rr_finished :: "instant option"

record rebuild_event =
  re_failed :: bool
  re_customer :: string
  re_run :: uuid
  re_status :: run_status
  re_summary :: "string option"

definition finish_run :: "uuid \<Rightarrow> run_status \<Rightarrow> string option \<Rightarrow> instant \<Rightarrow> regroup_run list \<Rightarrow> regroup_run list" where
  "finish_run i status err clock runs =
     map (\<lambda>r. if rr_id r = i then r\<lparr>rr_status := status, rr_error := (case err of None \<Rightarrow> rr_error r | e \<Rightarrow> e),
                                    rr_finished := Some clock\<rparr> else r) runs"

definition run_full_regroup_tracked ::
    "outside \<Rightarrow> settings \<Rightarrow> uuid \<Rightarrow> instant \<Rightarrow> regroup_run list \<Rightarrow> store
     \<Rightarrow> (regroup_run list \<times> rebuild_event option) \<times> store" where
  "run_full_regroup_tracked out st i clock runs s =
     (case find (\<lambda>r. rr_id r = i) runs of
        None \<Rightarrow> ((runs, None), s)
      | Some r \<Rightarrow>
          (if rr_kind r \<noteq> ''full'' then ((runs, None), s)
           else
             let (failure, s') =
               (case (rr_start r, rr_end r) of
                  (Some lo, Some hi) \<Rightarrow>
                    (case ranged_regroup out st (rr_customer r) lo hi clock s of ((e, _), s') \<Rightarrow> (map_option exn_text e, s'))
                | _ \<Rightarrow> (None, snd (regroup_all (o_env out) st clock (Some (rr_customer r)) s)));
                 status = (if failure = None then Completed else Failed);
                 err = map_option (take 2000) failure
             in ((finish_run i status err clock runs,
                  Some \<lparr>re_failed = (failure \<noteq> None), re_customer = rr_customer r, re_run = i, re_status = status,
                        re_summary = err\<rparr>), s')))"

definition run_finalize_tracked ::
    "outside \<Rightarrow> settings \<Rightarrow> uuid \<Rightarrow> string \<Rightarrow> instant \<Rightarrow> regroup_run list \<Rightarrow> store
     \<Rightarrow> regroup_run list \<times> store" where
  "run_finalize_tracked out st i cc clock runs s =
     (case finalize_pending out st cc clock s of
        Inr (rep, s') \<Rightarrow> (finish_run i Completed None clock runs, s')
      | Inl (e, s') \<Rightarrow> (finish_run i Failed (Some (exn_text e)) clock runs, s'))"

end
