(* ===== verification/Ownership.thy ===== *)
theory Ownership
  imports Persist
begin

text \<open>
  Which transaction owns a line. The interface is a locale: the laws a rebuild relies on when it writes and
  releases assignments, and what follows from them for a whole list of groups. The assignment table of the
  theory Store provides it.
\<close>

subsection \<open>The interface\<close>

locale ownership =
  fixes owner :: "'s \<Rightarrow> uuid \<Rightarrow> uuid option"
    and put :: "uuid \<Rightarrow> log_entry list \<Rightarrow> 's \<Rightarrow> 's"
    and release :: "uuid list \<Rightarrow> 's \<Rightarrow> 's"
    and ok :: "'s \<Rightarrow> bool"
    and lines_of :: "'s \<Rightarrow> log_entry set"
  assumes write_ok: "ok s \<Longrightarrow> set es \<subseteq> lines_of s \<Longrightarrow> ok (put t es s)"
    and release_ok: "ok s \<Longrightarrow> ok (release ts s)"
    and lines_write: "lines_of (put t es s) = lines_of s"
    and lines_release: "lines_of (release ts s) = lines_of s"
    and owner_write: "ok s \<Longrightarrow> set es \<subseteq> lines_of s \<Longrightarrow>
          owner (put t es s) x = (if x \<in> entry_id ` set es then Some t else owner s x)"
    and owner_release: "ok s \<Longrightarrow>
          owner (release ts s) x = (case owner s x of None \<Rightarrow> None | Some t \<Rightarrow> if t \<in> set ts then None else Some t)"
begin

text \<open>Replacing the members of one transaction: it owns its new lines, and nobody else's line moves.\<close>

lemma replace_members:
  assumes "ok s" and "set es \<subseteq> lines_of s"
  shows "ok (put t es (release [t] s))"
    and "x \<in> entry_id ` set es \<Longrightarrow> owner (put t es (release [t] s)) x = Some t"
    and "x \<notin> entry_id ` set es \<Longrightarrow> u \<noteq> t \<Longrightarrow> owner s x = Some u \<Longrightarrow> owner (put t es (release [t] s)) x = Some u"
    and "x \<notin> entry_id ` set es \<Longrightarrow> owner (put t es (release [t] s)) x \<noteq> Some t"
proof -
  have r: "ok (release [t] s)" "set es \<subseteq> lines_of (release [t] s)"
    using assms by (simp_all add: release_ok lines_release)
  then show "ok (put t es (release [t] s))" by (rule write_ok)
  show "x \<in> entry_id ` set es \<Longrightarrow> owner (put t es (release [t] s)) x = Some t"
    using owner_write [OF r] by simp
  show "x \<notin> entry_id ` set es \<Longrightarrow> u \<noteq> t \<Longrightarrow> owner s x = Some u \<Longrightarrow> owner (put t es (release [t] s)) x = Some u"
    using owner_write [OF r] owner_release [OF assms(1)] by simp
  show "x \<notin> entry_id ` set es \<Longrightarrow> owner (put t es (release [t] s)) x \<noteq> Some t"
    using owner_write [OF r] owner_release [OF assms(1), of "[t]" x] by (auto split: option.splits if_splits)
qed

text \<open>Writing again what is already owned changes nobody's ownership.\<close>

lemma rewrite_same: 
  assumes "ok s" and "set es \<subseteq> lines_of s" and "\<forall>e \<in> set es. owner s (entry_id e) = Some t"
  shows "owner (put t es s) = owner s"
  using owner_write [OF assms(1,2)] assms(3) by (intro ext) auto

end

subsection \<open>The assignment table provides it\<close>

definition owner_at :: "store \<Rightarrow> uuid \<Rightarrow> uuid option" where
  "owner_at s x = map_of (map (\<lambda>a. (a_entry a, a_txn a)) (assigns s)) x"

definition assigns_ok :: "store \<Rightarrow> bool" where
  "assigns_ok s \<longleftrightarrow>
     distinct (map a_entry (assigns s))
     \<and> (\<forall>a \<in> set (assigns s). \<forall>e \<in> set (log_entries s). entry_id e = a_entry a \<longrightarrow> a_ts a = timestamp e)
     \<and> distinct (map entry_id (log_entries s))"

abbreviation owners_of :: "assignment list \<Rightarrow> (uuid \<times> uuid) list" where
  "owners_of rows \<equiv> map (\<lambda>a. (a_entry a, a_txn a)) rows"

lemma upsert_hit:
  "\<forall>r \<in> set rows. a_entry r = a_entry a \<longrightarrow> a_ts r = a_ts a \<Longrightarrow>
   list_ex (\<lambda>r. a_entry r = a_entry a \<and> a_ts r = a_ts a) rows \<longleftrightarrow> a_entry a \<in> a_entry ` set rows"
  by (induction rows) auto

lemma upsert_keys:
  assumes "\<forall>r \<in> set rows. a_entry r = a_entry a \<longrightarrow> a_ts r = a_ts a"
  shows "map a_entry (upsert a rows) =
     (if a_entry a \<in> set (map a_entry rows) then map a_entry rows else map a_entry rows @ [a_entry a])"
  using upsert_hit [OF assms] by (simp add: upsert_def)

lemma upsert_rows: "r \<in> set (upsert a rows) \<Longrightarrow> r = a \<or> (\<exists>r' \<in> set rows. a_entry r = a_entry r' \<and> a_ts r = a_ts r')"
  by (auto simp: upsert_def split: if_splits)

lemma map_of_update_matching:
  assumes "\<forall>r \<in> set rows. a_entry r = a_entry a \<longrightarrow> a_ts r = a_ts a"
  shows "map_of (owners_of (map (\<lambda>r. if a_entry r = a_entry a \<and> a_ts r = a_ts a
            then r\<lparr>a_txn := a_txn a, a_seq := a_seq a, a_customer := a_customer a\<rparr> else r) rows)) x
       = (if x = a_entry a \<and> x \<in> set (map a_entry rows) then Some (a_txn a) else map_of (owners_of rows) x)"
  using assms by (induction rows) auto

lemma upsert_owner:
  assumes ts: "\<forall>r \<in> set rows. a_entry r = a_entry a \<longrightarrow> a_ts r = a_ts a"
  shows "map_of (owners_of (upsert a rows)) x = (if x = a_entry a then Some (a_txn a) else map_of (owners_of rows) x)"
proof (cases "a_entry a \<in> set (map a_entry rows)")
  case True
  then have "list_ex (\<lambda>r. a_entry r = a_entry a \<and> a_ts r = a_ts a) rows" using upsert_hit [OF ts] by simp
  then show ?thesis using map_of_update_matching [OF ts, of x] True by (simp add: upsert_def)
next
  case False
  then have "\<not> list_ex (\<lambda>r. a_entry r = a_entry a \<and> a_ts r = a_ts a) rows" using upsert_hit [OF ts] by simp
  moreover have "map_of (owners_of rows) (a_entry a) = None" using False by (auto simp: map_of_eq_None_iff)
  ultimately show ?thesis by (auto simp: upsert_def map_add_def split: option.splits)
qed

text \<open>The rows a write upserts agree with the lines, and so does the table after it.\<close>

definition rows_match :: "log_entry list \<Rightarrow> assignment list \<Rightarrow> bool" where
  "rows_match ls rows \<longleftrightarrow> distinct (map a_entry rows)
     \<and> (\<forall>a \<in> set rows. \<forall>e \<in> set ls. entry_id e = a_entry a \<longrightarrow> a_ts a = timestamp e)"

lemma upsert_match:
  assumes "rows_match ls rows" and "e \<in> set ls" "distinct (map entry_id ls)" "a_entry a = entry_id e" "a_ts a = timestamp e"
  shows "rows_match ls (upsert a rows)
    \<and> map_of (owners_of (upsert a rows)) x = (if x = a_entry a then Some (a_txn a) else map_of (owners_of rows) x)"
proof -
  have ts: "\<forall>r \<in> set rows. a_entry r = a_entry a \<longrightarrow> a_ts r = a_ts a"
    using assms unfolding rows_match_def by fastforce
  have line: "\<forall>e' \<in> set ls. entry_id e' = a_entry a \<longrightarrow> a_ts a = timestamp e'"
    using assms by (metis distinct_map inj_onD)
  have "distinct (map a_entry (upsert a rows))"
    using assms(1) upsert_keys [OF ts] by (auto simp: rows_match_def)
  moreover have "\<forall>r \<in> set (upsert a rows). \<forall>e' \<in> set ls. entry_id e' = a_entry r \<longrightarrow> a_ts r = timestamp e'"
    using upsert_rows [of _ a rows] line assms(1) unfolding rows_match_def by metis
  ultimately show ?thesis using upsert_owner [OF ts] by (simp add: rows_match_def)
qed

lemma write_rows:
  assumes "rows_match ls rows" and "set es \<subseteq> set ls" and "distinct (map entry_id ls)"
  shows "rows_match ls (fold upsert (map (\<lambda>(i, e). \<lparr>a_entry = entry_id e, a_ts = timestamp e, a_txn = t, a_seq = i, a_customer = cc\<rparr>)
            (enumerate n es)) rows)
    \<and> map_of (owners_of (fold upsert (map (\<lambda>(i, e). \<lparr>a_entry = entry_id e, a_ts = timestamp e, a_txn = t, a_seq = i, a_customer = cc\<rparr>)
            (enumerate n es)) rows)) x
      = (if x \<in> entry_id ` set es then Some t else map_of (owners_of rows) x)"
  using assms
proof (induction es arbitrary: n rows)
  case (Cons e es)
  define a where "a = \<lparr>a_entry = entry_id e, a_ts = timestamp e, a_txn = t, a_seq = n, a_customer = cc\<rparr>"
  have step: "rows_match ls (upsert a rows)
      \<and> map_of (owners_of (upsert a rows)) y = (if y = a_entry a then Some (a_txn a) else map_of (owners_of rows) y)" for y
    using Cons.prems by (intro upsert_match [where e = e]) (auto simp: a_def)
  from Cons.IH [of "upsert a rows" "Suc n"] step Cons.prems show ?case by (auto simp: a_def [symmetric]) (simp_all add: a_def)
qed simp

lemma assigns_ok_rows: "assigns_ok s \<longleftrightarrow> rows_match (log_entries s) (assigns s) \<and> distinct (map entry_id (log_entries s))"
  by (auto simp: assigns_ok_def rows_match_def)

lemma log_entries_frames [simp]:
  "log_entries (write_assignments t es cc s) = log_entries s"
  "log_entries (delete_for_transactions ts s) = log_entries s"
  "log_entries (update_transaction t st v sl rf mf now s) = log_entries s"
  "log_entries (write_transaction t v sl es cc rf mf now s) = log_entries s"
  "log_entries (delete_transactions ts s) = log_entries s"
  by (simp_all add: write_assignments_def delete_for_transactions_def update_transaction_def write_transaction_def delete_transactions_def)

lemma assigns_frames [simp]:
  "assigns (update_transaction t st v sl rf mf now s) = assigns s"
  "assigns (delete_transactions ts s) = assigns s"
  by (simp_all add: update_transaction_def delete_transactions_def)

lemma distinct_map_filter_of: "distinct (map f xs) \<Longrightarrow> distinct (map f (filter P xs))"
  by (induction xs) auto

lemma map_of_filter_value:
  "distinct (map fst d) \<Longrightarrow> map_of (filter (\<lambda>p. Q (snd p)) d) x = (case map_of d x of None \<Rightarrow> None | Some v \<Rightarrow> if Q v then Some v else None)"
proof (induction d)
  case (Cons p d)
  show ?case
  proof (cases "fst p = x")
    case True
    with Cons.prems have "map_of d x = None" by (auto simp: map_of_eq_None_iff)
    with Cons True show ?thesis by (cases p) auto
  next
    case False
    with Cons show ?thesis by (cases p) auto
  qed
qed simp

interpretation assignments: ownership owner_at "\<lambda>t es. write_assignments t es cc" delete_for_transactions assigns_ok
    "\<lambda>s. set (log_entries s)" for cc
proof unfold_locales
  fix s :: store and es t ts x
  assume ok: "assigns_ok s"
  show "assigns_ok (delete_for_transactions ts s)"
    using ok by (auto simp: assigns_ok_def delete_for_transactions_def intro: distinct_map_filter_of)
  have d: "distinct (map fst (owners_of (assigns s)))" using ok by (simp add: assigns_ok_def comp_def)
  have "owners_of (filter (\<lambda>a. a_txn a \<notin> set ts) (assigns s)) = filter (\<lambda>p. snd p \<notin> set ts) (owners_of (assigns s))"
    by (simp add: filter_map comp_def)
  then show "owner_at (delete_for_transactions ts s) x =
      (case owner_at s x of None \<Rightarrow> None | Some t \<Rightarrow> if t \<in> set ts then None else Some t)"
    using map_of_filter_value [OF d, of "\<lambda>t. t \<notin> set ts" x]
    by (auto simp: owner_at_def delete_for_transactions_def split: option.splits)
  assume es: "set es \<subseteq> set (log_entries s)"
  have "rows_match (log_entries s) (assigns s)" "distinct (map entry_id (log_entries s))"
    using ok by (simp_all add: assigns_ok_rows)
  note w = write_rows [OF this(1) es this(2), of t cc 0]
  show "assigns_ok (write_assignments t es cc s)"
    using w ok by (simp add: assigns_ok_rows write_assignments_def assignment_rows_def)
  show "owner_at (write_assignments t es cc s) x = (if x \<in> entry_id ` set es then Some t else owner_at s x)"
    using w by (simp add: owner_at_def write_assignments_def assignment_rows_def)
qed simp_all

end
