(* ===== verification/PersistProperties.thy ===== *)
theory PersistProperties
  imports Ownership Samples WindowProperties
begin

text \<open>What writing a grouping guarantees of the tables.\<close>

subsection \<open>The loop\<close>

lemma frame_release: "owner_at (update_transaction t st v sl rf mf now s) = owner_at s"
  "owner_at (delete_transactions ts s) = owner_at s"
  by (simp_all add: owner_at_def fun_eq_iff)

lemma ok_frames [simp]:
  "assigns_ok (update_transaction t st v sl rf mf now s) = assigns_ok s"
  "assigns_ok (delete_transactions ts s) = assigns_ok s"
  by (simp_all add: assigns_ok_def)

lemma write_transaction_assigns:
  "assigns (write_transaction t v sl es cc rf mf now s) = assigns (write_assignments t es cc s)"
  by (simp add: write_transaction_def write_assignments_def)

lemma write_transaction_owner:
  "assigns_ok s \<Longrightarrow> set es \<subseteq> set (log_entries s) \<Longrightarrow>
   assigns_ok (write_transaction t v sl es cc rf mf now s)
   \<and> owner_at (write_transaction t v sl es cc rf mf now s) x = (if x \<in> entry_id ` set es then Some t else owner_at s x)"
  using assignments.write_ok [of s es t cc] assignments.owner_write [of s es t cc x]
  by (simp add: assigns_ok_def owner_at_def write_transaction_assigns)

text \<open>Whether the builder with this id is written or compared, not skipped.\<close>

definition skipped :: "txn_row list \<Rightarrow> uuid list \<Rightarrow> uuid list \<Rightarrow> uuid \<Rightarrow> bool" where
  "skipped stored existing seen t \<longleftrightarrow> t \<in> set seen \<or> t \<in> set existing \<and> stored_row stored t = None"

text \<open>The stored digests speak for the table: where the members digest of a stored row is the digest of a
  group, the row's transaction owns the group's lines.\<close>

definition digests_agree :: "env \<Rightarrow> txn_row list \<Rightarrow> store \<Rightarrow> log_entry list \<times> uuid \<Rightarrow> bool" where
  "digests_agree env stored s g \<longleftrightarrow>
     (\<forall>prior. stored_row stored (snd g) = Some prior \<longrightarrow>
        row_members_fp prior = Some (members_fingerprint (e_sha env) (map entry_id (fst g))) \<longrightarrow>
        (\<forall>e \<in> set (fst g). owner_at s (entry_id e) = Some (snd g)))"

lemma persist_one_effect:
  fixes p :: persist_state and env cc now seal abandon stored existing t
  assumes ok: "assigns_ok (p_store p)" and es: "set es \<subseteq> set (log_entries (p_store p))"
  defines "p' \<equiv> persist_one env cc now seal abandon stored existing (es, t) p"
  shows "assigns_ok (p_store p')"
    and "log_entries (p_store p') = log_entries (p_store p)"
    and "p_seen p' = (if skipped stored existing (p_seen p) t then p_seen p else t # p_seen p)"
    and "skipped stored existing (p_seen p) t \<Longrightarrow> p_store p' = p_store p"
    and "\<not> skipped stored existing (p_seen p) t \<Longrightarrow> digests_agree env stored (p_store p) (es, t) \<Longrightarrow> e \<in> set es
           \<Longrightarrow> owner_at (p_store p') (entry_id e) = Some t"
    and "x \<notin> entry_id ` set es \<Longrightarrow> u \<noteq> t \<Longrightarrow> owner_at (p_store p) x = Some u \<Longrightarrow> owner_at (p_store p') x = Some u"
proof -
  define vd where "vd = verdict_of env cc seal abandon es"
  define p1 where "p1 = p\<lparr>p_seen := t # p_seen p\<rparr>"
  have skip: "p' = skip_builder es p" if "skipped stored existing (p_seen p) t"
    using that by (auto simp: p'_def persist_one_def skipped_def)
  have new: "p' = create_row cc now t es vd p1" if "\<not> skipped stored existing (p_seen p) t" "stored_row stored t = None"
    using that by (auto simp: p'_def persist_one_def skipped_def vd_def p1_def Let_def)
  have old: "p' = rewrite_stored cc now t prior es vd p1"
    if "\<not> skipped stored existing (p_seen p) t" "stored_row stored t = Some prior" for prior
    using that by (auto simp: p'_def persist_one_def skipped_def vd_def p1_def Let_def)
  have create: "p_store (create_row cc now t es vd p1) =
      write_transaction t (vd_values vd) (vd_sealed vd) es cc (vd_row_fp vd) (vd_members_fp vd) now (p_store p)"
    by (simp add: create_row_def p1_def Let_def)
  have cases: "(p_store (rewrite_stored cc now t prior es vd p1) = p_store p
        \<or> (\<exists>s1. s1 = update_transaction t (row_started prior) (vd_values vd) (vd_sealed vd) (vd_row_fp vd) (vd_members_fp vd) now (p_store p)
               \<and> p_store (rewrite_stored cc now t prior es vd p1) = s1))
        \<and> row_members_fp prior = Some (vd_members_fp vd)
      \<or> p_store (rewrite_stored cc now t prior es vd p1) = write_assignments t es cc (delete_for_transactions [t]
          (update_transaction t (row_started prior) (vd_values vd) (vd_sealed vd) (vd_row_fp vd) (vd_members_fp vd) now (p_store p)))" for prior
    by (auto simp: rewrite_stored_def p1_def Let_def)
  have mfp: "vd_members_fp vd = members_fingerprint (e_sha env) (map entry_id es)" by (simp add: vd_def verdict_of_def Let_def)
  note rep = assignments.replace_members [of "update_transaction t st v sl rf mf now (p_store p)" es for st v sl rf mf, simplified, OF ok es]
  note wr = write_transaction_owner [OF ok es]
  show "p_seen p' = (if skipped stored existing (p_seen p) t then p_seen p else t # p_seen p)"
    by (auto simp: p'_def persist_one_def skipped_def skip_builder_def create_row_def rewrite_stored_def Let_def split: option.split)
  show "skipped stored existing (p_seen p) t \<Longrightarrow> p_store p' = p_store p" by (simp add: skip skip_builder_def)
  consider (skipped) "p_store p' = p_store p" "skipped stored existing (p_seen p) t"
    | (created) "p_store p' = write_transaction t (vd_values vd) (vd_sealed vd) es cc (vd_row_fp vd) (vd_members_fp vd) now (p_store p)"
    | (kept) st v sl rf mf prior where "p_store p' = p_store p \<or> p_store p' = update_transaction t st v sl rf mf now (p_store p)"
        "stored_row stored t = Some prior" "row_members_fp prior = Some (vd_members_fp vd)"
    | (rewritten) st v sl rf mf where "p_store p' = write_assignments t es cc (delete_for_transactions [t] (update_transaction t st v sl rf mf now (p_store p)))"
    using skip new old create cases by (cases "skipped stored existing (p_seen p) t"; cases "stored_row stored t")
      (auto simp: skip_builder_def, metis+)
  note cs = this
  from cs show "assigns_ok (p_store p')"
    by cases (use ok wr rep(1) in auto)
  from cs show "log_entries (p_store p') = log_entries (p_store p)"
    by cases auto
  show "owner_at (p_store p') (entry_id e) = Some t"
    if "\<not> skipped stored existing (p_seen p) t" and agree: "digests_agree env stored (p_store p) (es, t)" and e: "e \<in> set es"
    using cs
  proof cases
    case (kept st v sl rf mf prior)
    then have "owner_at (p_store p) (entry_id e) = Some t" using agree e by (auto simp: digests_agree_def mfp)
    with kept show ?thesis by (auto simp: frame_release)
  qed (use that wr rep(2) in auto)
  show "owner_at (p_store p') x = Some u" if "x \<notin> entry_id ` set es" "u \<noteq> t" "owner_at (p_store p) x = Some u"
    using cs
  proof cases
    case (kept st v sl rf mf prior)
    with that show ?thesis by (auto simp: frame_release)
  next
    case (rewritten st v sl rf mf)
    with rep(3) [OF that(1,2)] that(3) show ?thesis by (simp add: frame_release)
  qed (use that wr in auto)
qed


definition ids_of :: "(log_entry list \<times> uuid) list \<Rightarrow> uuid set" where
  "ids_of gs = (\<Union>g \<in> set gs. entry_id ` set (fst g))"

lemma ids_of_simps [simp]: "ids_of [] = {}" "ids_of (g # gs) = entry_id ` set (fst g) \<union> ids_of gs"
  by (simp_all add: ids_of_def)

lemma persist_loop:
  assumes "assigns_ok (p_store p)" and "\<forall>g \<in> set gs. set (fst g) \<subseteq> set (log_entries (p_store p))"
  shows "assigns_ok (p_store (fold (persist_one env cc now seal abandon stored existing) gs p))
    \<and> log_entries (p_store (fold (persist_one env cc now seal abandon stored existing) gs p)) = log_entries (p_store p)
    \<and> set (p_seen (fold (persist_one env cc now seal abandon stored existing) gs p))
        = set (p_seen p) \<union> {t \<in> snd ` set gs. t \<in> set existing \<longrightarrow> stored_row stored t \<noteq> None}"
  using assms
proof (induction gs arbitrary: p)
  case (Cons g gs)
  obtain es t where g: "g = (es, t)" by fastforce
  have es: "set es \<subseteq> set (log_entries (p_store p))" using Cons.prems by (simp add: g)
  note step = persist_one_effect(1-3) [OF Cons.prems(1) es, where env = env and cc = cc and now = now and seal = seal and abandon = abandon and stored = stored and existing = existing and t = t]
  from Cons.IH [of "persist_one env cc now seal abandon stored existing g p"] Cons.prems step show ?case
    by (auto simp: g skipped_def)
qed simp

lemma persist_loop_keeps:
  assumes "assigns_ok (p_store p)" and "\<forall>g \<in> set gs. set (fst g) \<subseteq> set (log_entries (p_store p))"
    and "x \<notin> ids_of gs" and "u \<in> set (p_seen p) \<or> u \<notin> snd ` set gs" and "owner_at (p_store p) x = Some u"
  shows "owner_at (p_store (fold (persist_one env cc now seal abandon stored existing) gs p)) x = Some u"
  using assms
proof (induction gs arbitrary: p)
  case (Cons g gs)
  obtain es t where g: "g = (es, t)" by fastforce
  have es: "set es \<subseteq> set (log_entries (p_store p))" using Cons.prems by (simp add: g)
  note step = persist_one_effect [OF Cons.prems(1) es, where env = env and cc = cc and now = now and seal = seal and abandon = abandon and stored = stored and existing = existing and t = t]
  define q where "q = persist_one env cc now seal abandon stored existing g p"
  have "owner_at (p_store q) x = Some u"
  proof (cases "u = t")
    case True
    then have "skipped stored existing (p_seen p) t" using Cons.prems(4) by (auto simp: g skipped_def)
    then show ?thesis using step(4) Cons.prems(5) by (simp add: q_def g)
  next
    case False
    then show ?thesis using step(6) [where x = x and u = u] Cons.prems(3,5) by (simp add: q_def g)
  qed
  moreover have "u \<in> set (p_seen q) \<or> u \<notin> snd ` set gs" using step(3) Cons.prems(4) by (auto simp: q_def g)
  ultimately show ?case using Cons.IH [of q] step(1,2) Cons.prems(2,3) by (simp add: q_def g)
qed simp

lemma persist_loop_owns:
  assumes ok: "assigns_ok (p_store p)" and lines: "\<forall>g \<in> set (pre @ (es, t) # post). set (fst g) \<subseteq> set (log_entries (p_store p))"
    and fresh: "t \<notin> set (p_seen p)" "t \<notin> snd ` set pre" "t \<in> set existing \<longrightarrow> stored_row stored t \<noteq> None"
    and disjoint: "entry_id ` set es \<inter> ids_of pre = {}" "entry_id ` set es \<inter> ids_of post = {}"
    and agree: "digests_agree env stored (p_store p) (es, t)" and e: "e \<in> set es"
  shows "owner_at (p_store (fold (persist_one env cc now seal abandon stored existing) (pre @ (es, t) # post) p)) (entry_id e) = Some t"
proof -
  define q where "q = fold (persist_one env cc now seal abandon stored existing) pre p"
  define r where "r = persist_one env cc now seal abandon stored existing (es, t) q"
  have q: "assigns_ok (p_store q)" "log_entries (p_store q) = log_entries (p_store p)" "t \<notin> set (p_seen q)"
    using persist_loop [OF ok, of pre] lines fresh by (auto simp: q_def)
  have es: "set es \<subseteq> set (log_entries (p_store q))" using lines q(2) by simp
  have "digests_agree env stored (p_store q) (es, t)"
    unfolding digests_agree_def
  proof (intro allI impI ballI, goal_cases)
    case (1 prior e')
    then have "owner_at (p_store p) (entry_id e') = Some t" using agree by (simp add: digests_agree_def)
    moreover have "entry_id e' \<notin> ids_of pre" using 1(3) disjoint(1) by auto
    ultimately show ?case using persist_loop_keeps [OF ok, of pre "entry_id e'" t] lines fresh(2) by (simp add: q_def)
  qed
  note step = persist_one_effect [OF q(1) es, where env = env and cc = cc and now = now and seal = seal and abandon = abandon and stored = stored and existing = existing and t = t]
  have not: "\<not> skipped stored existing (p_seen q) t" using q(3) fresh(3) by (simp add: skipped_def)
  have "owner_at (p_store r) (entry_id e) = Some t" unfolding r_def
    by (rule step(5) [OF not \<open>digests_agree env stored (p_store q) (es, t)\<close> e])
  moreover have "t \<in> set (p_seen r)" using step(3) not by (simp add: r_def)
  ultimately have "owner_at (p_store (fold (persist_one env cc now seal abandon stored existing) post r)) (entry_id e) = Some t"
    using step(1,2) lines q(2) disjoint e unfolding r_def [symmetric]
    by (intro persist_loop_keeps) (auto simp: r_def)
  then show ?thesis by (simp add: q_def r_def)
qed


subsection \<open>The whole write\<close>

text \<open>The groups and ids a write works with.\<close>

definition groups_of :: "log_entry list list \<Rightarrow> log_entry list list" where
  "groups_of bs = map in_stream_order bs"

definition ids_for :: "env \<Rightarrow> continuity \<Rightarrow> log_entry list list \<Rightarrow> uuid list" where
  "ids_for env cont bs = assign (map entry_id) (groups_of bs) cont (txn_id (e_uuid5 env))"

definition clashes :: "env \<Rightarrow> config \<Rightarrow> string \<Rightarrow> continuity \<Rightarrow> log_entry list list \<Rightarrow> store \<Rightarrow> uuid list" where
  "clashes env c cc cont bs s =
     existing_transaction_ids cc (clash_window c (map timestamp (concat (groups_of bs)))) s (ids_for env cont bs)"

lemma resolve_ids_parts: "resolve_ids env c cc cont bs s = (groups_of bs, ids_for env cont bs, clashes env c cc cont bs s)"
  by (simp add: resolve_ids_def groups_of_def ids_for_def clashes_def Let_def)

definition persist_end ::
    "env \<Rightarrow> config \<Rightarrow> string \<Rightarrow> instant \<Rightarrow> instant option \<Rightarrow> instant option \<Rightarrow> continuity \<Rightarrow> txn_row list
     \<Rightarrow> log_entry list list \<Rightarrow> store \<Rightarrow> persist_state" where
  "persist_end env c cc now seal abandon cont stored bs s =
     fold (persist_one env cc now seal abandon stored (clashes env c cc cont bs s)) (zip (groups_of bs) (ids_for env cont bs))
       \<lparr>p_store = s, p_seen = [], p_stats = no_stats\<rparr>"

lemma persist_store:
  "snd (persist env c cc now seal abandon cont stored bs s) =
     (let p = persist_end env c cc now seal abandon cont stored bs s;
          vanished = filter (\<lambda>t. t \<notin> set (p_seen p)) (remdups (map row_id stored))
      in if vanished = [] then p_store p else drop_transactions vanished (p_store p))"
  by (simp add: persist_def resolve_ids_parts persist_end_def Let_def)


lemma length_ids_for [simp]: "length (ids_for env cont bs) = length bs"
  by (simp add: ids_for_def assign_def groups_of_def Let_def)

lemma length_groups_of [simp]: "length (groups_of bs) = length bs"
  by (simp add: groups_of_def)

lemma set_group_nth [simp]: "i < length bs \<Longrightarrow> set (groups_of bs ! i) = set (bs ! i)"
  by (simp add: groups_of_def in_stream_order_def)

lemma pairs_in: "g \<in> set (zip (groups_of bs) (ids_for env cont bs)) \<Longrightarrow> \<exists>b \<in> set bs. set (fst g) = set b"
  by (auto simp: set_zip groups_of_def in_stream_order_def intro: nth_mem)

lemma drop_owner:
  assumes "assigns_ok s" and "owner_at s x = Some t" and "t \<notin> set ts"
  shows "owner_at (drop_transactions ts s) x = Some t"
  using assms assignments.owner_release [OF assms(1), of ts x] by (simp add: drop_transactions_def frame_release)

lemma disjoint_split:
  "distinct (map f (concat (pre @ b # post))) \<Longrightarrow> f ` set b \<inter> f ` set (concat pre) = {} \<and> f ` set b \<inter> f ` set (concat post) = {}"
  by (simp del: set_concat) blast

lemma disjoint_subset: "A \<inter> B = {} \<Longrightarrow> C \<subseteq> B \<Longrightarrow> A \<inter> C = {}"
  by blast

lemma ids_of_zip: "ids_of (zip gs ts) \<subseteq> entry_id ` set (concat gs)"
  by (force simp: ids_of_def dest!: set_zip_leftD)

lemma set_concat_groups [simp]: "set (concat (groups_of bs)) = set (concat bs)"
  by (simp add: groups_of_def in_stream_order_def)

lemma groups_of_append [simp]: "groups_of (xs @ ys) = groups_of xs @ groups_of ys"
  by (simp add: groups_of_def)

lemma persist_end_owns:
  assumes ok: "assigns_ok s" and lines: "\<forall>b \<in> set bs. set b \<subseteq> set (log_entries s)"
    and distinct: "distinct (map entry_id (concat bs))"
    and agree: "\<forall>g \<in> set (zip (groups_of bs) (ids_for env cont bs)). digests_agree env stored s g"
    and i: "i < length bs" and first: "ids_for env cont bs ! i \<notin> set (take i (ids_for env cont bs))"
    and free: "ids_for env cont bs ! i \<in> set (clashes env c cc cont bs s) \<longrightarrow> stored_row stored (ids_for env cont bs ! i) \<noteq> None"
    and e: "e \<in> set (bs ! i)"
  shows "assigns_ok (p_store (persist_end env c cc now seal abandon cont stored bs s))
    \<and> ids_for env cont bs ! i \<in> set (p_seen (persist_end env c cc now seal abandon cont stored bs s))
    \<and> owner_at (p_store (persist_end env c cc now seal abandon cont stored bs s)) (entry_id e) = Some (ids_for env cont bs ! i)"
proof -
  define gs ids where "gs = groups_of bs" and "ids = ids_for env cont bs"
  define t where "t = ids ! i"
  define p0 where "p0 = \<lparr>p_store = s, p_seen = [], p_stats = no_stats\<rparr>"
  have len: "length gs = length bs" "length ids = length bs" by (simp_all add: gs_def ids_def)
  define pre post where "pre = zip (take i gs) (take i ids)" and "post = zip (drop (Suc i) gs) (drop (Suc i) ids)"
  have split: "zip gs ids = pre @ (gs ! i, t) # post"
    unfolding pre_def post_def t_def using i len
    by (subst id_take_nth_drop [of i gs], simp, subst id_take_nth_drop [of i ids], simp) (simp add: zip_append)
  have lines': "\<forall>g \<in> set (zip gs ids). set (fst g) \<subseteq> set (log_entries (p_store p0))"
    using lines by (auto simp: gs_def ids_def p0_def dest!: pairs_in)
  have bs: "bs = take i bs @ bs ! i # drop (Suc i) bs" using i by (rule id_take_nth_drop)
  have "distinct (map entry_id (concat (take i bs @ bs ! i # drop (Suc i) bs)))" using distinct bs by simp
  note parts = disjoint_split [OF this]
  have sets: "set (concat (take i gs)) = set (concat (take i bs))" "set (concat (drop (Suc i) gs)) = set (concat (drop (Suc i) bs))"
    by (simp_all add: gs_def groups_of_def in_stream_order_def take_map drop_map)
  have sub: "ids_of pre \<subseteq> entry_id ` set (concat (take i bs))" "ids_of post \<subseteq> entry_id ` set (concat (drop (Suc i) bs))"
    unfolding pre_def post_def sets [symmetric] by (rule ids_of_zip)+
  have gi: "set (gs ! i) = set (bs ! i)" using i by (simp add: gs_def)
  have disjoint: "entry_id ` set (gs ! i) \<inter> ids_of pre = {}" "entry_id ` set (gs ! i) \<inter> ids_of post = {}"
    unfolding gi using disjoint_subset [OF parts [THEN conjunct1] sub(1)] disjoint_subset [OF parts [THEN conjunct2] sub(2)] .
  have "t \<notin> snd ` set pre" using first by (auto simp: pre_def t_def ids_def dest: set_zip_rightD)
  moreover have "digests_agree env stored (p_store p0) (gs ! i, t)" using agree split by (simp add: gs_def ids_def p0_def)
  moreover have "\<forall>g \<in> set (pre @ (gs ! i, t) # post). set (fst g) \<subseteq> set (log_entries (p_store p0))"
    using lines' unfolding split .
  moreover have "e \<in> set (gs ! i)" "assigns_ok (p_store p0)" "t \<notin> set (p_seen p0)"
    using e gi ok by (simp_all add: p0_def)
  moreover have "t \<in> set (clashes env c cc cont bs s) \<longrightarrow> stored_row stored t \<noteq> None" using free by (simp add: t_def ids_def)
  ultimately have own: "owner_at (p_store (fold (persist_one env cc now seal abandon stored (clashes env c cc cont bs s)) (pre @ (gs ! i, t) # post) p0)) (entry_id e) = Some t"
    using disjoint by (intro persist_loop_owns)
  have loop: "assigns_ok (p_store (fold (persist_one env cc now seal abandon stored (clashes env c cc cont bs s)) (zip gs ids) p0))
      \<and> t \<in> set (p_seen (fold (persist_one env cc now seal abandon stored (clashes env c cc cont bs s)) (zip gs ids) p0))"
  proof -
    have "t \<in> snd ` set (zip gs ids)" by (simp add: split)
    then show ?thesis
      using persist_loop [of p0 "zip gs ids" env cc now seal abandon stored "clashes env c cc cont bs s"] ok lines' free
      by (simp add: p0_def t_def ids_def)
  qed
  have "persist_end env c cc now seal abandon cont stored bs s
      = fold (persist_one env cc now seal abandon stored (clashes env c cc cont bs s)) (zip gs ids) p0"
    by (simp add: persist_end_def gs_def ids_def p0_def)
  then show ?thesis using own loop unfolding split [symmetric] by (simp add: t_def ids_def)
qed

subsection \<open>A sample store\<close>

definition sample_env :: env where
  "sample_env = \<lparr>e_uuid5 = (\<lambda>a. if a = ''BID:h1'' then 11 else 12), e_sha = id, e_offset = (\<lambda>z t. 0), e_zone = (\<lambda>c. ''UTC'')\<rparr>"

definition sample_conversation :: "log_entry list" where
  "sample_conversation = [sample_line 1 Request 0 ''7'' (Some ''ANN'') [], sample_line 2 Response 1 ''9'' (Some ''ANN'') []]"

definition sample_store :: store where
  "sample_store = empty_store\<lparr>log_entries := sample_conversation\<rparr>"

definition stored_as :: "uuid \<Rightarrow> txn_row" where
  "stored_as t =
     (let vd = verdict_of sample_env ''BID'' None None (in_stream_order sample_conversation)
      in \<lparr>row_id = t, row_values = vd_values vd, row_sealed = vd_sealed vd, row_created = 0, row_updated = 0,
          row_fp = Some (vd_row_fp vd), row_members_fp = Some (vd_members_fp vd)\<rparr>)"

lemma sample_ids: "ids_for sample_env no_continuity [sample_conversation] = [11]"
  by code_simp

lemma sample_ok: "assigns_ok sample_store" "\<forall>b \<in> set [sample_conversation]. set b \<subseteq> set (log_entries sample_store)"
  by (simp_all add: assigns_ok_def sample_store_def empty_store_def sample_conversation_def sample_line_def)

text \<open>C8: after a write every line of a group that was not skipped belongs to the group's transaction: the
  tables say exactly what the grouping decided. The digests of the stored rows are assumed to describe the
  assignment table, which is what every write leaves behind.\<close>

theorem persist_assigns_every_line:
  assumes "assigns_ok s" and "\<forall>b \<in> set bs. set b \<subseteq> set (log_entries s)" and "distinct (map entry_id (concat bs))"
    and "\<forall>g \<in> set (zip (groups_of bs) (ids_for env cont bs)). digests_agree env stored s g"
    and "i < length bs" and "ids_for env cont bs ! i \<notin> set (take i (ids_for env cont bs))"
    and "ids_for env cont bs ! i \<in> set (clashes env c cc cont bs s) \<longrightarrow> stored_row stored (ids_for env cont bs ! i) \<noteq> None"
    and "e \<in> set (bs ! i)"
  shows "owner_at (snd (persist env c cc now seal abandon cont stored bs s)) (entry_id e) = Some (ids_for env cont bs ! i)"
  using persist_end_owns [OF assms, of now seal abandon] by (auto simp: persist_store Let_def intro: drop_owner)

lemma persist_assigns_every_line_witness:
  "owner_at (snd (persist sample_env sample_config ''BID'' 0 None None no_continuity [] [sample_conversation] sample_store)) 2 = Some 11"
proof -
  have "owner_at (snd (persist sample_env sample_config ''BID'' 0 None None no_continuity [] [sample_conversation] sample_store))
      (entry_id (sample_conversation ! 1)) = Some (ids_for sample_env no_continuity [sample_conversation] ! 0)"
  proof (rule persist_assigns_every_line [OF sample_ok])
    show "distinct (map entry_id (concat [sample_conversation]))" by (simp add: sample_conversation_def sample_line_def)
    show "\<forall>g \<in> set (zip (groups_of [sample_conversation]) (ids_for sample_env no_continuity [sample_conversation])).
        digests_agree sample_env [] sample_store g" by (simp add: digests_agree_def stored_row_def)
    show "ids_for sample_env no_continuity [sample_conversation] ! 0
        \<in> set (clashes sample_env sample_config ''BID'' no_continuity [sample_conversation] sample_store)
        \<longrightarrow> stored_row [] (ids_for sample_env no_continuity [sample_conversation] ! 0) \<noteq> None"
      by (simp add: clashes_def existing_transaction_ids_def select_ids_def sample_store_def empty_store_def)
  qed (simp_all add: sample_conversation_def)
  then show ?thesis unfolding sample_ids by (simp add: sample_conversation_def sample_line_def)
qed

text \<open>C31: what a rebuild no longer produces is gone: a stored transaction whose id no group was given has no
  row and owns no line after the write.\<close>

theorem vanished_transactions_are_removed:
  assumes "t \<in> row_id ` set stored" and "t \<notin> set (ids_for env cont bs)"
    and "assigns_ok s" and "\<forall>b \<in> set bs. set b \<subseteq> set (log_entries s)"
  shows "t \<notin> row_id ` set (txns (snd (persist env c cc now seal abandon cont stored bs s)))
       \<and> t \<notin> a_txn ` set (assigns (snd (persist env c cc now seal abandon cont stored bs s)))"
proof -
  define p where "p = persist_end env c cc now seal abandon cont stored bs s"
  define vanished where "vanished = filter (\<lambda>t. t \<notin> set (p_seen p)) (remdups (map row_id stored))"
  have sub: "snd ` set (zip (groups_of bs) (ids_for env cont bs)) \<subseteq> set (ids_for env cont bs)"
    by (auto dest: set_zip_rightD)
  have "\<forall>g \<in> set (zip (groups_of bs) (ids_for env cont bs)). set (fst g) \<subseteq> set (log_entries s)"
    using assms(4) by (auto dest!: pairs_in)
  then have "set (p_seen p) \<subseteq> set (ids_for env cont bs)"
    using persist_loop [of "\<lparr>p_store = s, p_seen = [], p_stats = no_stats\<rparr>" "zip (groups_of bs) (ids_for env cont bs)"
        env cc now seal abandon stored "clashes env c cc cont bs s"] assms(3) sub
    unfolding p_def persist_end_def by (simp del: set_concat) blast
  then have "t \<in> set vanished" using assms(1,2) by (auto simp: vanished_def)
  then have "snd (persist env c cc now seal abandon cont stored bs s) = drop_transactions vanished (p_store p)"
    by (cases vanished) (simp_all add: persist_store Let_def p_def [symmetric] vanished_def [symmetric])
  with \<open>t \<in> set vanished\<close> show ?thesis
    by (auto simp: drop_transactions_def delete_transactions_def delete_for_transactions_def)
qed

lemma vanished_transactions_are_removed_witness:
  "99 \<notin> row_id ` set (txns (snd (persist sample_env sample_config ''BID'' 0 None None no_continuity [stored_as 99]
     [sample_conversation] sample_store)))"
proof -
  have "99 \<in> row_id ` set [stored_as 99]" by (simp add: stored_as_def Let_def)
  moreover have "99 \<notin> set (ids_for sample_env no_continuity [sample_conversation])" unfolding sample_ids by simp
  ultimately show ?thesis using vanished_transactions_are_removed [OF _ _ sample_ok] by blast
qed

subsection \<open>Nothing to do\<close>





end
