(* ===== verification/RegroupProperties.thy ===== *)
theory RegroupProperties
  imports Regroup PersistProperties
begin

text \<open>
  What the rebuilds rest on: the two ways a windowed rebuild finds its lines agree, the floor of a window
  moves at most one band and never into a conversation, the bounded probe for a tenant's newest line is exact,
  tickets cover the range they announce, and the shadow save cannot break the stream key.
\<close>

subsection \<open>Dictionaries of rows\<close>

lemma lookup_dict_of_rows: "map_of (dict_of_rows f rows) k = map_of (rev (map f rows)) k"
proof -
  have "dict_of_rows f rows = fold (\<lambda>(k, v). AList.update k v) (map f rows) []"
    unfolding dict_of_rows_def by (induction rows rule: rev_induct) (auto simp: split_beta)
  then show ?thesis by (simp add: od.lookup_fold_store split: option.splits)
qed

lemma lookup_distinct_rows:
  assumes "distinct (map (fst \<circ> f) rows)"
  shows "map_of (dict_of_rows f rows) k = Some v \<longleftrightarrow> (k, v) \<in> f ` set rows"
proof -
  have "distinct (map fst (rev (map f rows)))" using assms by (simp add: rev_map [symmetric] comp_def)
  then show ?thesis unfolding lookup_dict_of_rows by (subst map_of_eq_Some_iff) auto
qed

subsection \<open>The lines of a window\<close>

text \<open>The columns an assignment copies from its line are the line's.\<close>

definition assigns_match :: "store \<Rightarrow> bool" where
  "assigns_match s \<longleftrightarrow> assigns_ok s
     \<and> (\<forall>a \<in> set (assigns s). \<forall>e \<in> set (log_entries s). entry_id e = a_entry a \<longrightarrow> a_customer a = customer_code e)"

lemma in_range_covers:
  "lo \<le> t \<Longrightarrow> t \<le> hi \<Longrightarrow> in_window (from_instants [Some lo, Some hi] 0) (Some t)"
  by (simp add: from_instants_def in_window_def covers_def range_ok_def tick_def)

lemma owner_in_window:
  assumes "assigns_match s" and "e \<in> set (log_entries s)" and "customer_code e = cc" and "in_range lo hi e"
  shows "map_of (load_owners_in_window s cc (from_instants [Some lo, Some hi] 0)) (entry_id e) = Some t
     \<longleftrightarrow> (\<exists>a \<in> set (assigns s). a_entry a = entry_id e \<and> a_txn a = t)"
proof -
  have d: "distinct (map a_entry (assigns s))" using assms(1) by (simp add: assigns_match_def assigns_ok_def)
  have m: "a_customer a = cc \<and> in_window (from_instants [Some lo, Some hi] 0) (a_ts a)"
    if "a \<in> set (assigns s)" "a_entry a = entry_id e" for a
  proof -
    have "a_ts a = timestamp e" "a_customer a = customer_code e"
      using assms(1,2) that by (auto simp: assigns_match_def assigns_ok_def)
    then show ?thesis using assms(3,4) by (auto simp: in_range_def intro: in_range_covers split: option.splits)
  qed
  define W where "W = filter (\<lambda>a. a_customer a = cc \<and> in_window (from_instants [Some lo, Some hi] 0) (a_ts a)) (assigns s)"
  have "distinct (map (fst \<circ> (\<lambda>a. (a_entry a, a_txn a))) W)"
    unfolding W_def comp_def fst_conv by (rule distinct_map_filter [OF d])
  then have "map_of (load_owners_in_window s cc (from_instants [Some lo, Some hi] 0)) (entry_id e) = Some t
      \<longleftrightarrow> (entry_id e, t) \<in> (\<lambda>a. (a_entry a, a_txn a)) ` set W"
    unfolding load_owners_in_window_def W_def by (rule lookup_distinct_rows)
  also have "\<dots> \<longleftrightarrow> (\<exists>a \<in> set W. a_entry a = entry_id e \<and> a_txn a = t)" by (simp add: image_iff) (metis (mono_tags))
  also have "\<dots> \<longleftrightarrow> (\<exists>a \<in> set (assigns s). a_entry a = entry_id e \<and> a_txn a = t)"
    unfolding W_def set_filter using m by blast
  finally show ?thesis .
qed

lemma unassigned_after_drop:
  "is_unassigned (drop_transactions freed s) e \<longleftrightarrow> (\<forall>a \<in> set (assigns s). a_entry a = entry_id e \<longrightarrow> a_txn a \<in> set freed)"
  by (auto simp: is_unassigned_def list_all_iff drop_transactions_def delete_transactions_def delete_for_transactions_def)

lemma eligible_unassigned:
  assumes "assigns_match s" and "e \<in> set (log_entries s)" and "customer_code e = cc" and "in_range lo hi e"
  shows "eligible (window_continuity s cc lo hi freed) freed e \<longleftrightarrow> is_unassigned (drop_transactions freed s) e"
proof -
  note owned = owner_in_window [OF assms]
  have unfold: "eligible (window_continuity s cc lo hi freed) freed e \<longleftrightarrow>
      (\<forall>t. map_of (load_owners_in_window s cc (from_instants [Some lo, Some hi] 0)) (entry_id e) = Some t \<longrightarrow> t \<in> set freed)"
    by (simp add: eligible_def window_continuity_def split: option.splits)
  show ?thesis unfolding unfold owned unassigned_after_drop by blast
qed

text \<open>C5: dropping the delete did not change what a rebuild sees: the lines the in-place path finds through the
  owner map are, in the same order, the lines the older path found unassigned after deleting.\<close>

theorem in_place_reads_the_same_lines:
  assumes "assigns_match s"
  shows "rows_in_place s cc lo_p hi_p (window_continuity s cc lo_p hi_p freed) freed
       = rows_unassigned (publish c cc lo_p hi_p False (drop_transactions freed s)) cc lo_p hi_p"
proof -
  have "is_unassigned (publish c cc lo_p hi_p False (drop_transactions freed s)) e = is_unassigned (drop_transactions freed s) e" for e
    by (simp add: is_unassigned_def publish_def)
  moreover have "log_entries (publish c cc lo_p hi_p False (drop_transactions freed s)) = log_entries s"
    by (simp add: publish_def drop_transactions_def delete_transactions_def delete_for_transactions_def)
  ultimately show ?thesis
    unfolding rows_in_place_def rows_unassigned_def select_entries_def filter_sort filter_filter
    by (intro arg_cong [of _ _ "sort_key read_order"] filter_cong)
      (simp_all only: eligible_unassigned [OF assms, of _ cc lo_p hi_p freed] conj_ac cong: conj_cong)
qed

lemma in_place_reads_the_same_lines_witness:
  "rows_in_place sample_store ''BID'' 0 (seconds 9) (window_continuity sample_store ''BID'' 0 (seconds 9) [7]) [7]
     = rows_unassigned (publish sample_config ''BID'' 0 (seconds 9) False (drop_transactions [7] sample_store)) ''BID'' 0 (seconds 9)"
  by (rule in_place_reads_the_same_lines) (use sample_ok in \<open>simp add: assigns_match_def sample_store_def empty_store_def\<close>)

subsection \<open>The newest line\<close>

lemma fold_max_start: "(y :: int) \<le> fold max xs y"
  by (induction xs arbitrary: y) (auto intro: order_trans [OF max.cobounded2])

lemma fold_max_ge: "x \<in> set (y # xs) \<Longrightarrow> x \<le> fold max xs (y :: int)"
proof (induction xs arbitrary: y)
  case (Cons z xs)
  have "max z y \<le> fold max xs (max z y)" by (rule fold_max_start)
  with Cons.prems Cons.IH [of "max z y"] show ?case by auto
qed simp

lemma max_of_Some: "max_of xs = Some m \<longleftrightarrow> m \<in> set xs \<and> (\<forall>x \<in> set xs. x \<le> m)"
proof (cases xs)
  case (Cons y ys)
  have "fold max ys y \<in> set (y # ys)" for y :: int and ys
    by (induction ys arbitrary: y) (auto simp: max_def split: if_splits)
  then have "fold max ys y \<in> set xs" "\<forall>x \<in> set xs. x \<le> fold max ys y" using Cons fold_max_ge [of _ y ys] by auto
  moreover have "max_of xs = Some (fold max ys y)" using Cons by simp
  ultimately show ?thesis by (auto intro: order_antisym)
qed simp

lemma max_of_None: "max_of xs = None \<longleftrightarrow> xs = []"
  by (cases xs) auto

text \<open>the bounded probe is exact: whatever instant it starts from, a tenant's newest line is the newest of
  its whole history, so the seal and abandon cutoffs do not depend on the lookback.\<close>

theorem newest_line_probe_is_exact:
  "max_entry_ts lowest s cc = max_of (instants (filter (\<lambda>e. customer_code e = cc) (log_entries s)))"
proof (cases "recent_max_ts lowest s cc")
  case (Some t)
  define ts where "ts = instants (filter (\<lambda>e. customer_code e = cc) (log_entries s))"
  have "t \<in> set ts \<and> lowest \<le> t \<and> (\<forall>x \<in> set ts. lowest \<le> x \<longrightarrow> x \<le> t)"
    using Some by (auto simp: recent_max_ts_def ts_def max_of_Some)
  then have "max_of ts = Some t" by (auto simp: max_of_Some)
  with Some show ?thesis by (simp add: max_entry_ts_def ts_def)
qed (simp add: max_entry_ts_def)

subsection \<open>The floor\<close>

lemma fold_min_in: "fold min ys y \<in> set (y # ys)" for y :: int
  by (induction ys arbitrary: y) (auto simp: min_def split: if_splits)

lemma fold_min_start: "fold min xs y \<le> (y :: int)"
  by (induction xs arbitrary: y) (auto intro: order_trans [OF _ min.cobounded2])

lemma fold_min_le: "x \<in> set (y # xs) \<Longrightarrow> fold min xs y \<le> (x :: int)"
proof (induction xs arbitrary: y)
  case (Cons z xs)
  have "fold min xs (min z y) \<le> min z y" by (rule fold_min_start)
  with Cons.prems Cons.IH [of "min z y"] show ?case by auto
qed simp

lemma min_of_Some: "min_of xs = Some m \<Longrightarrow> m \<in> set xs \<and> (\<forall>x \<in> set xs. m \<le> x)"
  by (cases xs) (use fold_min_in fold_min_le in auto)

lemma cross_candidates_start:
  "(t, a, b) \<in> set (cross_candidates band gap s cc lo_p) \<Longrightarrow> lo_p - 3 * band \<le> a \<and> a < lo_p \<and> lo_p - gap \<le> b"
  by (auto simp: cross_candidates_def split: option.splits if_splits)

lemma cross_floor_cases:
  assumes "cross_pad_floor st s cc lo_p hi_p = Inr (lo', rep)"
  shows "lo' = lo_p \<and> (lower (strip (cross_pad_mode st)) = ''on'' \<longrightarrow>
             \<not> joinable (open_gap (cfg st)) s cc
                 (cross_candidates (regroup_pad (cfg st) + open_gap (cfg st)) (open_gap (cfg st)) s cc lo_p) lo_p hi_p
             \<or> cross_candidates (regroup_pad (cfg st) + open_gap (cfg st)) (open_gap (cfg st)) s cc lo_p = [])
       \<or> lower (strip (cross_pad_mode st)) = ''on''
         \<and> (\<exists>t b. (t, lo', b) \<in> set (cross_candidates (regroup_pad (cfg st) + open_gap (cfg st)) (open_gap (cfg st)) s cc lo_p))
         \<and> lo_p - (regroup_pad (cfg st) + open_gap (cfg st)) \<le> lo'
         \<and> (\<forall>(t, a, b) \<in> set (cross_candidates (regroup_pad (cfg st) + open_gap (cfg st)) (open_gap (cfg st)) s cc lo_p). lo' \<le> a)"
proof (cases "lower (strip (cross_pad_mode st)) = ''on''")
  case off: False
  then show ?thesis using assms
    by (simp add: cross_pad_floor_def Let_def split: if_splits option.splits)
next
  case on: True
  define band cands where "band = regroup_pad (cfg st) + open_gap (cfg st)"
    and "cands = cross_candidates band (open_gap (cfg st)) s cc lo_p"
  show ?thesis
  proof (cases "cands = [] \<or> \<not> joinable (open_gap (cfg st)) s cc cands lo_p hi_p")
    case True
    then have "lo' = lo_p" using assms on by (simp add: cross_pad_floor_def Let_def band_def [symmetric] cands_def [symmetric])
    then show ?thesis using True by (auto simp: band_def cands_def)
  next
    case False
    define in_band where "in_band = filter (\<lambda>a. lo_p - band \<le> a) (map (\<lambda>(t, a, b). a) cands)"
    have below: "filter (\<lambda>(t, a, b). a < lo_p - band) cands = []"
      using assms on False
      by (auto simp: cross_pad_floor_def Let_def band_def [symmetric] cands_def [symmetric] split: if_splits)
    then have all: "\<forall>(t, a, b) \<in> set cands. lo_p - band \<le> a" by (force simp: filter_empty_conv)
    then have same: "in_band = map (\<lambda>(t, a, b). a) cands" unfolding in_band_def by (auto simp: filter_id_conv)
    with False have "in_band \<noteq> []" by simp
    then obtain m where m: "min_of in_band = Some m" by (cases in_band) auto
    have "lo' = m"
      using assms on False below m
      by (simp add: cross_pad_floor_def Let_def band_def [symmetric] cands_def [symmetric] in_band_def [symmetric])
    moreover have "m \<in> set in_band" "\<forall>x \<in> set in_band. m \<le> x" using min_of_Some [OF m] by simp_all
    ultimately have "(\<exists>t b. (t, lo', b) \<in> set cands) \<and> lo_p - band \<le> lo' \<and> (\<forall>(t, a, b) \<in> set cands. lo' \<le> a)"
      using all unfolding same by fastforce
    then show ?thesis using on by (simp add: band_def cands_def)
  qed
qed

text \<open>extending a window is bounded and never splits a conversation: the floor moves back at most one pad
  plus the open gap, only in mode on, and when a new line could join an older conversation, every
  conversation that ends near the floor starts at or after the floor that was chosen, so it is rebuilt whole.\<close>

theorem floor_keeps_conversations_whole:
  assumes "cross_pad_floor st s cc lo_p hi_p = Inr (lo', rep)" and "0 \<le> regroup_pad (cfg st) + open_gap (cfg st)"
  shows "lo' \<le> lo_p \<and> lo_p - (regroup_pad (cfg st) + open_gap (cfg st)) \<le> lo'
       \<and> (lower (strip (cross_pad_mode st)) \<noteq> ''on'' \<longrightarrow> lo' = lo_p)
       \<and> (lower (strip (cross_pad_mode st)) = ''on''
          \<and> joinable (open_gap (cfg st)) s cc
              (cross_candidates (regroup_pad (cfg st) + open_gap (cfg st)) (open_gap (cfg st)) s cc lo_p) lo_p hi_p
          \<longrightarrow> (\<forall>(t, a, b) \<in> set (cross_candidates (regroup_pad (cfg st) + open_gap (cfg st)) (open_gap (cfg st)) s cc lo_p). lo' \<le> a))"
  using cross_floor_cases [OF assms(1)]
proof (elim disjE conjE exE)
  fix t b assume "(t, lo', b) \<in> set (cross_candidates (regroup_pad (cfg st) + open_gap (cfg st)) (open_gap (cfg st)) s cc lo_p)"
    and "lo_p - (regroup_pad (cfg st) + open_gap (cfg st)) \<le> lo'"
    and "lower (strip (cross_pad_mode st)) = ''on''"
    and "\<forall>(t, a, b) \<in> set (cross_candidates (regroup_pad (cfg st) + open_gap (cfg st)) (open_gap (cfg st)) s cc lo_p). lo' \<le> a"
  then show ?thesis using cross_candidates_start by fastforce
next
  assume a: "lo' = lo_p" and b: "lower (strip (cross_pad_mode st)) = ''on'' \<longrightarrow>
             \<not> joinable (open_gap (cfg st)) s cc
                 (cross_candidates (regroup_pad (cfg st) + open_gap (cfg st)) (open_gap (cfg st)) s cc lo_p) lo_p hi_p
             \<or> cross_candidates (regroup_pad (cfg st) + open_gap (cfg st)) (open_gap (cfg st)) s cc lo_p = []"
  then show ?thesis using assms(2) by auto
qed

definition sample_settings :: settings where
  "sample_settings = \<lparr>cfg = sample_config, cross_pad_mode = '' On '', fingerprint_skip = True, stream_lookup = ''shadow'',
     head_lane_mode = ''on'',     cutoff_lookback_days = 30\<rparr>"

definition older_txn :: txn_row where
  "older_txn = \<lparr>row_id = 7, row_values = \<lparr>v_job = 1, v_started = Some (seconds 1500), v_ended = Some (seconds 1900),
     v_date = None, v_duration = None, v_status = Incomplete, v_entry_count = 1, v_mi_count = 0, v_attributes = [],
     v_text = [(''customer_code'', Some ''BID'')]\<rparr>, row_sealed = False, row_created = 0, row_updated = 0,
     row_fp = None, row_members_fp = None\<rparr>"

definition late_line_store :: store where
  "late_line_store = empty_store\<lparr>log_entries := [sample_line 3 Request 2100 ''7'' None []], txns := [older_txn]\<rparr>"

lemma floor_keeps_conversations_whole_witness:
  "seconds 800 \<le> seconds 1500 \<and> seconds 1500 \<le> seconds 2000 \<and> list_all (\<lambda>(t, a, b). seconds 1500 \<le> a)
     (cross_candidates (seconds 1200) (seconds 300) late_line_store ''BID'' (seconds 2000))"
proof -
  have floor: "cross_pad_floor sample_settings late_line_store ''BID'' (seconds 2000) (seconds 4000)
      = Inr (seconds 1500, Some \<lparr>cp_candidates = 1, cp_extended = 500, cp_would_extend = 0, cp_would_raise = 0\<rparr>)"
    by code_simp
  have pad: "regroup_pad (cfg sample_settings) = seconds 900" "open_gap (cfg sample_settings) = seconds 300"
    "seconds 900 + seconds 300 = seconds 1200" "seconds 2000 - seconds 1200 = seconds 800" by code_simp+
  have "joinable (seconds 300) late_line_store ''BID'' (cross_candidates (seconds 1200) (seconds 300) late_line_store ''BID'' (seconds 2000))
      (seconds 2000) (seconds 4000)" and "lower (strip (cross_pad_mode sample_settings)) = ''on''" by code_simp+
  moreover have "0 \<le> seconds 1200" by (simp add: seconds_def)
  ultimately show ?thesis
    using floor_keeps_conversations_whole [OF floor] unfolding pad list_all_iff by blast
qed

subsection \<open>Tickets\<close>

lemma chunk_tickets_cover:
  "lo \<le> t \<Longrightarrow> t \<le> hi \<Longrightarrow> \<exists>k \<in> set (chunk_tickets cc refold lo hi). tk_customer k = cc \<and> tk_start k \<le> t \<and> t \<le> tk_end k"
proof (induction cc refold lo hi rule: chunk_tickets.induct)
  case (1 cc refold cursor end')
  define m where "m = min (cursor + max_ticket_span) end'"
  have unfold: "chunk_tickets cc refold cursor end' = \<lparr>tk_customer = cc, tk_start = cursor, tk_end = m, tk_refold = refold\<rparr>
      # (if m \<ge> end' then [] else chunk_tickets cc refold m end')"
    using 1(2,3) by (subst chunk_tickets.simps) (simp add: m_def Let_def)
  show ?case
  proof (cases "t \<le> m")
    case False
    then have "m < end'" using 1(3) by simp
    then obtain k where "k \<in> set (chunk_tickets cc refold m end')" "tk_customer k = cc \<and> tk_start k \<le> t \<and> t \<le> tk_end k"
      using 1(1) [of m] 1(2,3) False by (auto simp: m_def)
    then show ?thesis using \<open>m < end'\<close> by (auto simp: unfold)
  qed (use 1(2) in \<open>simp add: unfold\<close>)
qed

lemma chunk_tickets_span:
  "k \<in> set (chunk_tickets cc refold lo hi) \<Longrightarrow> lo \<le> tk_start k \<and> tk_start k \<le> tk_end k \<and> tk_end k \<le> hi \<and> tk_end k - tk_start k \<le> max_ticket_span"
proof (induction cc refold lo hi rule: chunk_tickets.induct)
  case (1 cc refold cursor end')
  have pos: "0 < max_ticket_span" by (simp add: max_ticket_span_def seconds_def)
  define m where "m = min (cursor + max_ticket_span) end'"
  have le: "cursor \<le> end'" using 1(2) by (subst (asm) chunk_tickets.simps) (simp split: if_splits)
  then have "k = \<lparr>tk_customer = cc, tk_start = cursor, tk_end = m, tk_refold = refold\<rparr>
      \<or> m < end' \<and> k \<in> set (chunk_tickets cc refold m end')"
    using 1(2) by (subst (asm) chunk_tickets.simps) (auto simp: m_def Let_def split: if_splits)
  then show ?case
  proof (elim disjE conjE)
    assume "m < end'" "k \<in> set (chunk_tickets cc refold m end')"
    then have "m \<le> tk_start k \<and> tk_start k \<le> tk_end k \<and> tk_end k \<le> end' \<and> tk_end k - tk_start k \<le> max_ticket_span"
      using 1(1) [of m] le by (simp add: m_def)
    moreover have "cursor \<le> m" using le pos by (simp add: m_def)
    ultimately show ?thesis by linarith
  qed (use le pos in \<open>auto simp: m_def\<close>)
qed

text \<open>a ticket never says less than the change it announces, and never asks for more than a day at once:
  every instant of the padded range lies in a published ticket of the tenant, every ticket stays inside the
  padded range, and the tickets already queued are kept.\<close>

theorem published_tickets_cover_the_change:
  assumes "lo - regroup_pad c \<le> t" and "t \<le> hi + regroup_pad c"
  shows "(\<exists>k \<in> set (tickets (publish c cc lo hi refold s)). tk_customer k = cc \<and> tk_start k \<le> t \<and> t \<le> tk_end k)
       \<and> set (tickets s) \<subseteq> set (tickets (publish c cc lo hi refold s))
       \<and> (\<forall>k \<in> set (tickets (publish c cc lo hi refold s)) - set (tickets s).
            lo - regroup_pad c \<le> tk_start k \<and> tk_end k \<le> hi + regroup_pad c \<and> tk_end k - tk_start k \<le> seconds 86400)"
  using chunk_tickets_cover [OF assms, of cc refold] chunk_tickets_span [of _ cc refold "lo - regroup_pad c" "hi + regroup_pad c"]
  by (auto simp: publish_def max_ticket_span_def)

lemma published_tickets_cover_the_change_witness:
  "\<exists>k \<in> set (tickets (publish sample_config ''BID'' (seconds 0) (seconds 200000) False empty_store)).
     tk_customer k = ''BID'' \<and> tk_start k \<le> seconds 150000 \<and> seconds 150000 \<le> tk_end k"
proof -
  have "0 \<le> regroup_pad sample_config" by (simp add: sample_config_def regroup_pad_def seconds_def)
  then have "seconds 0 - regroup_pad sample_config \<le> seconds 150000" "seconds 150000 \<le> seconds 200000 + regroup_pad sample_config"
    by (simp_all add: seconds_def)
  from published_tickets_cover_the_change [OF this] show ?thesis by blast
qed

subsection \<open>The shadow\<close>

definition keyed :: "(string \<times> string option \<times> string option, open_stream_info) odict \<Rightarrow> bool" where
  "keyed d \<longleftrightarrow> distinct (map fst d) \<and> (\<forall>p \<in> set d. fst p = (os_server (snd p), os_thread (snd p), os_user (snd p)))"

lemma park_step_keys: "keyed d \<Longrightarrow> keyed (park_step gap lo bt d)"
  by (auto simp: keyed_def park_step_def Let_def distinct_update dest!: in_update split: prod.splits list.splits option.splits if_splits)

lemma parked_keyed: "keyed d \<Longrightarrow> keyed (fold (park_step gap lo) bts d)"
  by (induction bts arbitrary: d) (simp_all add: park_step_keys)

lemma parked_keys:
  "distinct (map (\<lambda>x. (os_server x, os_thread x, os_user x)) (map snd (fold (park_step gap lo) bts [])))"
proof -
  have k: "keyed (fold (park_step gap lo) bts [])" by (rule parked_keyed) (simp add: keyed_def)
  then have "map (\<lambda>x. (os_server x, os_thread x, os_user x)) (map snd (fold (park_step gap lo) bts [])) = map fst (fold (park_step gap lo) bts [])"
    by (simp add: keyed_def)
  with k show ?thesis by (simp only: keyed_def)
qed

text \<open>the shadow cannot break the rebuild it measures: from a table whose stream keys are unique, the
  streams it parks have distinct keys, the save succeeds and the keys stay unique, whatever the grouping was.\<close>

theorem shadow_save_never_conflicts:
  assumes "streams_ok s"
  shows "\<exists>report s'. shadow_compare_window env st cc rows authoritative window_lo rebuilding cont clock s = Some (report, s')
           \<and> streams_ok s'"
  using save_window_succeeds [OF assms parked_keys]
  by (fastforce simp: shadow_compare_window_def Let_def)

lemma shadow_save_never_conflicts_witness:
  "\<exists>report s'. shadow_compare_window sample_env sample_settings ''BID'' sample_conversation [] 5 [] no_continuity 9 sample_store
     = Some (report, s') \<and> streams_ok s'"
  by (rule shadow_save_never_conflicts) (simp add: streams_ok_def sample_store_def empty_store_def)

end
