(* ===== verification/GrouperSource.thy ===== *)
theory GrouperSource
  imports GrouperInvariant
begin

text \<open>
  Where the lines of a conversation come from, on every stream and from every seed: an invariant of the grouper
  that bounds what its builders and its pending pool can contain.
\<close>

definition within :: "log_entry set \<Rightarrow> gstate \<Rightarrow> bool" where
  "within L s \<longleftrightarrow>
     (\<forall>b \<in> set (heap s). set (entries b) \<subseteq> L) \<and> set (pending_reqs s) \<subseteq> L
     \<and> (\<forall>p \<in> set (open_by_key s). snd p < length (heap s)) \<and> (\<forall>p \<in> set (open_by_reqid s). snd p < length (heap s))
     \<and> (\<forall>b \<in> set (builders s). b < length (heap s))"

lemma within_entries: "within L s \<Longrightarrow> b < length (heap s) \<Longrightarrow> set (entries (heap s ! b)) \<subseteq> L"
  by (auto simp: within_def dest: nth_mem)

lemma within_frames [simp]:
  "within L (drop_current k s) = within L s" "within L (set_current k s) = within L s"
  "within L (remember_closed k b e s) = within L s" "within L (s\<lparr>recently_closed := rc\<rparr>) = within L s"
  "within L (s\<lparr>current_by_thread := cb\<rparr>) = within L s"
  by (simp_all add: within_def drop_current_def set_current_def remember_closed_def split: option.splits)

lemma within_update_builder:
  "within L s \<Longrightarrow> (b < length (heap s) \<Longrightarrow> set (entries x) \<subseteq> L) \<Longrightarrow> within L (s\<lparr>heap := (heap s)[b := x]\<rparr>)"
proof (cases "b < length (heap s)")
  case True
  then show "within L s \<Longrightarrow> (b < length (heap s) \<Longrightarrow> set (entries x) \<subseteq> L) \<Longrightarrow> ?thesis"
    by (auto simp: within_def dest!: set_update_subset_insert [THEN subsetD])
qed (simp add: list_update_beyond)

lemma within_add: "within L s \<Longrightarrow> e \<in> L \<Longrightarrow> within L (add_to b e s)"
  unfolding add_to_def by (rule within_update_builder) (use within_entries in auto)

lemma within_open_pos: "within L s \<Longrightarrow> within L (set_open_pos b p s)"
  unfolding set_open_pos_def by (rule within_update_builder) (use within_entries in auto)

lemma within_add_all: "within L s \<Longrightarrow> set es \<subseteq> L \<Longrightarrow> within L (fold (add_to b) es s)"
  by (induction es arbitrary: s) (simp_all add: within_add)

lemma within_emit: "within L s \<Longrightarrow> b < length (heap s) \<Longrightarrow> within L (emit b s)"
  by (simp add: within_def emit_def)

lemma within_key: "within L s \<Longrightarrow> map_of (open_by_key s) k = Some b \<Longrightarrow> b < length (heap s)"
  by (auto simp: within_def dest!: map_of_SomeD)

lemma within_reqid: "within L s \<Longrightarrow> map_of (open_by_reqid s) k = Some b \<Longrightarrow> b < length (heap s)"
  by (auto simp: within_def dest!: map_of_SomeD)

lemma within_put_key: "within L s \<Longrightarrow> b < length (heap s) \<Longrightarrow> within L (s\<lparr>open_by_key := AList.update k b (open_by_key s)\<rparr>)"
  by (auto simp: within_def dest!: in_update)

lemma within_put_reqid: "within L s \<Longrightarrow> b < length (heap s) \<Longrightarrow> within L (s\<lparr>open_by_reqid := AList.update k b (open_by_reqid s)\<rparr>)"
  by (auto simp: within_def dest!: in_update)

lemma within_del_key: "within L s \<Longrightarrow> within L (s\<lparr>open_by_key := AList.delete k (open_by_key s)\<rparr>)"
  by (auto simp: within_def dest!: in_delete)

lemma within_del_reqid: "within L s \<Longrightarrow> within L (s\<lparr>open_by_reqid := AList.delete k (open_by_reqid s)\<rparr>)"
  by (auto simp: within_def dest!: in_delete)

lemma within_forget: "within L s \<Longrightarrow> within L (forget_id b s)"
  by (auto simp: within_def forget_id_def)

lemma within_open_stream: "within L s \<Longrightarrow> b < length (heap s) \<Longrightarrow> within L (open_stream k b s)"
  by (auto simp: within_def open_stream_def dest!: in_update)

lemma within_alloc: "alloc x s = (b, s') \<Longrightarrow> within L s \<Longrightarrow> set (entries x) \<subseteq> L \<Longrightarrow> within L s' \<and> b < length (heap s')"
  by (clarsimp simp: alloc_def within_def) (fastforce intro: less_SucI)

lemma within_pending: "within L s \<Longrightarrow> set ps \<subseteq> L \<Longrightarrow> within L (s\<lparr>pending_reqs := ps\<rparr>)"
  by (simp add: within_def)

lemma within_pending_requests: "within L s \<Longrightarrow> r \<in> set (pending_reqs s) \<Longrightarrow> r \<in> L"
  by (auto simp: within_def)

lemma within_taken:
  assumes "within L s" and "taken srv s r s'"
  shows "within L s' \<and> (\<forall>x. r = Some x \<longrightarrow> x \<in> L) \<and> heap s' = heap s"
proof (cases r)
  case (Some x)
  with assms(2) obtain ps where ps: "s' = s\<lparr>pending_reqs := ps\<rparr>" "mset (pending_reqs s) = add_mset x (mset ps)"
    by (auto simp: taken_def)
  have "set (pending_reqs s) \<subseteq> L" using assms(1) by (simp add: within_def)
  with mset_popped_subset [OF ps(2)] have "x \<in> L" "set ps \<subseteq> L" by auto
  then show ?thesis using Some ps(1) assms(1) by (simp add: within_pending)
qed (use assms in \<open>simp add: taken_def\<close>)

lemma within_close: "close_key k s = (found, s') \<Longrightarrow> within L s \<Longrightarrow> within L s' \<and> (\<forall>b. found = Some b \<longrightarrow> b < length (heap s'))"
  by (auto simp: close_key_def within_key within_del_key intro!: within_forget split: option.splits)

lemma within_absorb: "within L s \<Longrightarrow> prior < length (heap s) \<Longrightarrow> within L (absorb b prior s)"
  using within_entries [of L s prior] by (simp add: absorb_def Let_def within_open_pos within_add_all)

lemma heap_absorb: "length (heap (absorb b prior s)) = length (heap s)"
  by (simp add: absorb_def Let_def)

lemma within_id_builder: "id_builder srv rid e s = (b, s') \<Longrightarrow> within L s \<Longrightarrow> within L s' \<and> b < length (heap s')"
  by (auto simp: id_builder_def within_reqid within_put_reqid split: option.splits prod.splits dest!: within_alloc)

lemma within_adopt: "within L s \<Longrightarrow> within L (adopt_prior k b s) \<and> length (heap (adopt_prior k b s)) = length (heap s)"
proof (cases "map_of (open_by_key s) k")
  case (Some prior)
  assume w: "within L s"
  then have a: "within L (absorb b prior s)" using Some by (intro within_absorb within_key)
  have "within L ((absorb b prior s)\<lparr>open_by_key := AList.delete k (open_by_key s)\<rparr>)"
    using a w by (simp add: within_def heap_absorb set_delete)
  then show ?thesis using w Some by (simp add: adopt_prior_def heap_absorb)
qed (simp add: adopt_prior_def)

lemma within_open_id: "open_id_builder srv rid e s = (b, s') \<Longrightarrow> within L s \<Longrightarrow> within L s' \<and> b < length (heap s')"
  by (auto simp: open_id_builder_def Let_def within_adopt open_stream_def
      split: prod.splits dest!: within_id_builder intro!: within_put_key)

lemma within_close_id:
  assumes "close_id_builder srv rid s = (found, s')" and "within L s"
  shows "within L s' \<and> (\<forall>b. found = Some b \<longrightarrow> b < length (heap s'))"
proof (cases "map_of (open_by_reqid s) (srv, rid)")
  case (Some b)
  have keep: "within L t \<and> heap t = heap s \<Longrightarrow>
      within L (fold (\<lambda>k s. drop_current k (s\<lparr>open_by_key := AList.delete k (open_by_key s)\<rparr>)) ks t)
      \<and> heap (fold (\<lambda>k s. drop_current k (s\<lparr>open_by_key := AList.delete k (open_by_key s)\<rparr>)) ks t) = heap s" for ks t
  proof (induction ks arbitrary: t)
    case (Cons k ks)
    have "heap (drop_current k (t\<lparr>open_by_key := AList.delete k (open_by_key t)\<rparr>)) = heap t"
      by (simp add: drop_current_def)
    then show ?case using Cons within_del_key [of L t k] by simp
  qed simp
  have "within L (s\<lparr>open_by_reqid := AList.delete (srv, rid) (open_by_reqid s)\<rparr>)" using assms(2) by (rule within_del_reqid)
  then show ?thesis using keep assms Some within_reqid [OF assms(2) Some] by (auto simp: close_id_builder_def)
qed (use assms in \<open>simp add: close_id_builder_def\<close>)

subsection \<open>One line\<close>

lemma within_evict_key: "within L s \<Longrightarrow> within L (evict_key k s)"
  by (auto simp: evict_key_def within_emit split: prod.splits option.splits dest!: within_close)

lemma within_evict_reqid: "within L s \<Longrightarrow> within L (evict_reqid k s)"
  using within_reqid [of L s k] within_del_reqid [of L s k]
  by (auto simp: evict_reqid_def intro!: within_emit split: option.splits)

lemma within_lone:
  assumes "within L s" and "r \<in> L"
  shows "within L (let (b, s') = alloc \<lparr>entries = [r], open_pos = p, reqid = i\<rparr> s in emit b s')"
proof -
  obtain b s' where a: "alloc \<lparr>entries = [r], open_pos = p, reqid = i\<rparr> s = (b, s')" by fastforce
  then show ?thesis using within_alloc [OF a assms(1)] assms(2) by (simp add: within_emit)
qed

lemma within_evict_request: "within L s \<Longrightarrow> r \<in> L \<Longrightarrow> within L (evict_request r s)"
  unfolding evict_request_def
  by (rule within_lone) (auto simp: within_def dest: notin_set_remove1 set_remove1_subset [THEN subsetD])

lemma within_fold: "(\<And>x s. x \<in> set xs \<Longrightarrow> within L s \<Longrightarrow> within L (f x s)) \<Longrightarrow> within L s \<Longrightarrow> within L (fold f xs s)"
  by (induction xs arbitrary: s) auto

lemma within_evict_stale:
  assumes "within L s"
  shows "within L (evict_stale gap now s)"
proof -
  define s1 where "s1 = fold evict_key (map fst (filter (\<lambda>(k, b). older (now - gap) (last_ts (heap s ! b))) (open_by_key s))) s"
  define s2 where "s2 = fold evict_reqid (map fst (filter (\<lambda>(k, b). older (now - gap) (last_ts (heap s1 ! b))) (open_by_reqid s1))) s1"
  have "within L s1" unfolding s1_def using assms by (intro within_fold within_evict_key)
  then have s2: "within L s2" unfolding s2_def by (intro within_fold within_evict_reqid)
  then have "within L (fold evict_request (filter (\<lambda>r. older (now - gap) (timestamp r)) (pending_reqs s2)) s2)"
    by (intro within_fold within_evict_request) (auto dest: within_pending_requests)
  then show ?thesis by (simp add: evict_stale_def Let_def s1_def s2_def)
qed

lemma within_evict_now: "within L s \<Longrightarrow> within L (evict_now gap e s)"
  by (simp add: evict_now_def within_evict_stale split: option.splits)

lemma within_route_stamped:
  assumes "within L s" and "e \<in> L"
  shows "within L (route_stamped rid e s)"
proof (cases "entry_type e = Response")
  case True
  obtain found s1 where c: "close_id_builder (entry_server e) rid s = (found, s1)" by fastforce
  obtain b s2 where b: "(case found of Some b \<Rightarrow> (b, s1)
      | None \<Rightarrow> alloc \<lparr>entries = [], open_pos = stream_pos e, reqid = None\<rparr> s1) = (b, s2)" by fastforce
  have s2: "within L s2 \<and> b < length (heap s2)"
    using within_close_id [OF c assms(1)] b by (cases found) (auto dest!: within_alloc)
  then have "within L (emit b (add_to b e s2))"
    using assms(2) by (intro within_emit within_add) (auto simp: add_to_def)
  then show ?thesis using True c b by (simp add: route_stamped_def Let_def)
next
  case False
  obtain b s1 where "open_id_builder (entry_server e) rid e s = (b, s1)" by fastforce
  then show ?thesis using False within_open_id [of _ _ _ _ b s1 L] assms by (simp add: route_stamped_def Let_def within_add)
qed

lemma within_route_body:
  assumes "within L s" and "e \<in> L"
  shows "within L (route_body e s)"
proof -
  define srv u where "srv = entry_server e" and "u = py_or (opt_str (user_ctx e)) (entry_user e)"
  define key where "key = Named srv (thread e) u"
  define s1 where "s1 = (case close_key key s of (None, s') \<Rightarrow> s' | (Some b, s') \<Rightarrow> emit b s')"
  have s1: "within L s1" unfolding s1_def
    using assms(1) by (auto simp: within_emit split: prod.splits option.splits dest!: within_close)
  obtain req s2 where req: "(case take_by_reqid (entry_reqid e) srv s1 of (Some r, s') \<Rightarrow> (Some r, s')
      | (None, s') \<Rightarrow> take_post_request srv (thread e) u s') = (req, s2)" by fastforce
  have s2: "within L s2 \<and> (\<forall>x. req = Some x \<longrightarrow> x \<in> L)"
  proof (cases "take_by_reqid (entry_reqid e) srv s1")
    case (Pair r s')
    note t = within_taken [OF s1 taken_by_reqid [OF Pair]]
    show ?thesis
    proof (cases r)
      case None
      with Pair req have "take_post_request srv (thread e) u s' = (req, s2)" by simp
      with t show ?thesis using within_taken [OF _ taken_post] by blast
    qed (use Pair req t in auto)
  qed
  obtain b s3 where b: "(case req of Some r \<Rightarrow> alloc \<lparr>entries = [r, e], open_pos = stream_pos r, reqid = None\<rparr> s2
      | None \<Rightarrow> alloc \<lparr>entries = [e], open_pos = stream_pos e, reqid = None\<rparr> s2) = (b, s3)" by fastforce
  have "within L s3 \<and> b < length (heap s3)" using s2 assms(2) b by (cases req) (auto dest!: within_alloc)
  then have "within L (open_stream key b s3)" by (simp add: within_open_stream)
  then show ?thesis
    by (simp add: route_body_def Let_def srv_def [symmetric] u_def [symmetric] key_def [symmetric] s1_def [symmetric] req b)
qed

lemma within_open_work: "open_work k e s = (b, s') \<Longrightarrow> within L s \<Longrightarrow> within L s' \<and> b < length (heap s')"
  by (auto simp: open_work_def within_put_key split: prod.splits dest!: within_alloc)

lemma within_rejoin: "rejoin_late_work k e s = (r, s') \<Longrightarrow> within L s \<Longrightarrow> within L s'"
  by (auto simp: rejoin_late_work_def split: option.splits prod.splits if_splits)

lemma within_tail: "tail_of k u e s = (r, s') \<Longrightarrow> within L s \<Longrightarrow> within L s'"
  by (auto simp: tail_of_def split: if_splits dest: within_rejoin)

lemma within_work_of_user:
  assumes "work_of_user k u e s = (r, s')" and "within L s"
  shows "within L s'"
proof (cases "map_of (open_by_key s) k")
  case None
  obtain late s1 where t: "tail_of k u e s = (late, s1)" by fastforce
  obtain b s2 where w: "open_work k e s1 = (b, s2)" by fastforce
  show ?thesis using assms(1) None t w within_tail [OF t assms(2)] within_open_work [OF w]
    by (cases late) (auto simp: work_of_user_def)
qed (use assms in \<open>auto simp: work_of_user_def\<close>)

lemma within_work_of_thread:
  assumes "work_of_thread i e s = (b, s')" and "within L s"
  shows "within L s'"
proof -
  have anon: "within L t'" if "open_anonymous k e s = (b', t')" for k b' t'
  proof -
    obtain b1 s1 where w: "open_work k e s = (b1, s1)" by fastforce
    obtain req s2 where t: "take_anonymous_request (entry_server e) (thread e) (set_current k s1) = (req, s2)" by fastforce
    have "within L s1" using within_open_work [OF w assms(2)] by simp
    then have "within L (set_current k s1)" by simp
    note within_taken [OF this taken_anonymous [OF t]]
    then show ?thesis using that w t
      by (auto simp: open_anonymous_def intro!: within_open_pos within_add split: option.splits)
  qed
  show ?thesis using assms anon by (auto simp: work_of_thread_def split: option.splits)
qed

lemma within_bind:
  assumes "within L s"
  shows "within L (bind_request b e s)"
proof -
  obtain req s1 where t: "take_by_user (py_or (opt_str (user_ctx e)) (entry_user e)) (entry_server e) (thread e) s = (req, s1)"
    by fastforce
  show ?thesis using assms within_taken [OF assms taken_by_user [OF t]] t
    by (auto simp: bind_request_def Let_def intro!: within_open_pos within_add split: option.splits)
qed

lemma within_route_work:
  assumes "within L s" and "e \<in> L"
  shows "within L (route_work i e s)"
proof (cases "user_ctx e")
  case (Some u)
  obtain r s1 where w: "work_of_user (Named (entry_server e) (thread e) (JStr u)) u e s = (r, s1)" by fastforce
  show ?thesis using Some w within_work_of_user [OF w assms(1)] assms(2)
    by (cases r) (simp_all add: route_work_def within_bind within_add)
next
  case None
  obtain b s1 where w: "work_of_thread i e s = (b, s1)" by fastforce
  show ?thesis using None w within_work_of_thread [OF w assms(1)] assms(2)
    by (simp add: route_work_def within_bind within_add)
qed

lemma asked_is_pending: "response_owner e s = Asked r \<Longrightarrow> r \<in> set (pending_reqs s)"
proof -
  assume a: "response_owner e s = Asked r"
  obtain ks rs where c: "response_candidates e s = (ks, rs)" by fastforce
  have "max_by rank_request rs = Some r"
    using a c by (auto simp: response_owner_def Let_def split: option.splits if_splits)
  then have "r \<in> set rs" by (rule max_by_in)
  moreover have "set rs \<subseteq> set (pending_reqs s)"
    using c by (auto simp: response_candidates_def Let_def split: if_splits)
  ultimately show ?thesis by blast
qed

lemma within_route_response:
  assumes "within L s" and "e \<in> L"
  shows "within L (route_response e s)"
proof (cases "response_owner e s")
  case (OwnedBy k)
  obtain found s1 where c: "close_key k s = (found, s1)" by fastforce
  have close: "within L s1 \<and> (\<forall>b. found = Some b \<longrightarrow> b < length (heap s1))" by (rule within_close [OF c assms(1)])
  have "within L (emit b (add_to b e s1))" if "found = Some b" for b
    using close that assms(2) by (intro within_emit within_add) (auto simp: add_to_def)
  then show ?thesis using OwnedBy c close by (cases found) (auto simp: route_response_def)
next
  case (Asked r)
  define t where "t = s\<lparr>pending_reqs := remove1 r (pending_reqs s)\<rparr>"
  have r: "r \<in> L" using assms(1) asked_is_pending [OF Asked] by (rule within_pending_requests)
  have t: "within L t" unfolding t_def
    using assms(1) by (intro within_pending) (auto simp: within_def dest: set_remove1_subset [THEN subsetD])
  obtain b s1 where a: "alloc \<lparr>entries = [r, e], open_pos = stream_pos r, reqid = None\<rparr> t = (b, s1)" by fastforce
  have "within L s1 \<and> b < length (heap s1)" using within_alloc [OF a t] r assms(2) by simp
  then have "within L (emit b (remember_closed (Named (entry_server e) (thread r) (req_user r)) b e s1))"
    by (intro within_emit) (auto simp: remember_closed_def split: option.splits)
  then show ?thesis using Asked a by (simp add: route_response_def t_def)
next
  case Orphan
  then show ?thesis using within_lone [OF assms] by (simp add: route_response_def)
qed

lemma within_route: "within L s \<Longrightarrow> e \<in> L \<Longrightarrow> within L (route i e s)"
  by (simp add: route_def route_request_def within_pending within_route_stamped within_route_body within_route_work
      within_route_response within_def [of _ s] split: option.splits entry_type.splits)

lemma within_group_step: "within L s \<Longrightarrow> snd ie \<in> L \<Longrightarrow> within L (group_step gap seeded ie s)"
  by (simp add: group_step_def within_route within_evict_now)

subsection \<open>The whole stream\<close>

definition seed_lines :: "seed_state \<Rightarrow> log_entry set" where
  "seed_lines sd = (\<Union>st \<in> set (seed_streams sd). set (seed_entries st)) \<union> set (seed_pending sd)"

lemma within_seed_one:
  assumes "within L s" and "set (seed_entries st) \<subseteq> L"
  shows "within L (seed_one st s)"
proof (cases "seed_entries st")
  case (Cons first rest)
  define rid where "rid = stamped_reqid_of (seed_entries st)"
  obtain b s1 where a: "alloc \<lparr>entries = seed_entries st, open_pos = seed_pos st, reqid = rid\<rparr> s = (b, s1)"
    by fastforce
  define key where "key = Named (entry_server first) (seed_thread st) (opt_str (seed_user_ctx st))"
  define s2 where "s2 = s1\<lparr>open_by_key := AList.update key b (open_by_key s1)\<rparr>"
  define s3 where "s3 = (if seed_current st then set_current key s2 else s2)"
  have s1: "within L s1 \<and> b < length (heap s1)" using within_alloc [OF a assms(1)] assms(2) by simp
  then have "within L s2" unfolding s2_def by (intro within_put_key) auto
  then have s3: "within L s3 \<and> b < length (heap s3)" using s1 by (simp add: s3_def s2_def set_current_def)
  have one: "seed_one st s = (case rid of None \<Rightarrow> s3
      | Some r \<Rightarrow> s3\<lparr>open_by_reqid := AList.update (entry_server first, r) b (open_by_reqid s3)\<rparr>)"
    using a Cons by (auto simp: seed_one_def Let_def rid_def key_def s2_def s3_def split: option.splits)
  show ?thesis using s3 within_put_reqid [of L s3 b] unfolding one by (cases rid) simp_all
qed (use assms in \<open>simp add: seed_one_def\<close>)

lemma within_init: "within L init_gstate"
  by (simp add: within_def init_gstate_def)

lemma within_seeded: "within (seed_lines sd) (seeded_state sd)"
proof -
  have "within (seed_lines sd) (fold seed_one (seed_streams sd) init_gstate)"
    by (rule within_fold [OF within_seed_one within_init]) (auto simp: seed_lines_def)
  then show ?thesis unfolding seeded_state_def by (rule within_pending) (simp add: seed_lines_def)
qed

lemma within_mono: "within L s \<Longrightarrow> L \<subseteq> M \<Longrightarrow> within M s"
  unfolding within_def by blast

lemma within_stream: "within (seed_lines sd \<union> set es) (stream_state gap sd es)"
  unfolding stream_state_def
proof (rule within_fold)
  show "within (seed_lines sd \<union> set es) (seeded_state sd)" by (rule within_mono [OF within_seeded]) blast
next
  fix x s assume "x \<in> set (enumerate 0 es)" and w: "within (seed_lines sd \<union> set es) s"
  then have "snd x \<in> set (map snd (enumerate 0 es))" by (simp del: map_snd_enumerate)
  then have "snd x \<in> seed_lines sd \<union> set es" by simp
  with w show "within (seed_lines sd \<union> set es) (group_step gap (seeded_ids sd) x s)" by (rule within_group_step)
qed

lemma within_lone_request: "within L s \<Longrightarrow> r \<in> L \<Longrightarrow> within L (emit_lone_request r s)"
  unfolding emit_lone_request_def by (rule within_lone)

lemma emit_open_dicts:
  "open_by_key (emit_open bs ids s) = open_by_key s \<and> open_by_reqid (emit_open bs ids s) = open_by_reqid s"
  by (induction bs ids s rule: emit_open.induct) (auto simp: emit_def split: option.splits)

lemma within_finish: "within L s \<Longrightarrow> within L (finish s)"
proof -
  assume w: "within L s"
  define s1 where "s1 = emit_open (map snd (open_by_key s) @ map snd (open_by_reqid s)) [] s"
  have frame: "heap s1 = heap s" "pending_reqs s1 = pending_reqs s" "open_by_key s1 = open_by_key s" "open_by_reqid s1 = open_by_reqid s"
    and sub: "set (builders s1) \<subseteq> set (builders s) \<union> snd ` set (open_by_key s) \<union> snd ` set (open_by_reqid s)"
    using emit_open_frame [of "map snd (open_by_key s) @ map snd (open_by_reqid s)" "[]" s] emit_open_dicts
    by (auto simp: s1_def)
  have w1: "within L s1" using w sub unfolding within_def frame by blast
  have "within L (fold emit_lone_request (pending_reqs s) s1)"
    by (rule within_fold [OF within_lone_request w1]) (assumption, rule within_pending_requests [OF w])
  then show ?thesis by (simp add: finish_def s1_def)
qed

lemma group_within: "b \<in> set (group_entries gap sd es) \<Longrightarrow> set (entries b) \<subseteq> seed_lines sd \<union> set es"
  using within_finish [OF within_stream, of sd es gap]
  by (auto simp: group_entries_def group_state_def Let_def within_def dest!: within_entries [rotated])

end
