(* ===== verification/HeadProperties.thy ===== *)
theory HeadProperties
  imports HeadLane RegroupProperties GrouperSource
begin

text \<open>
  The head lane: a plan only touches lines that are free or belong to the conversation it continues, applying it
  refuses a row that changed since it was planned, the checkpoint only moves forward, and a window on which the
  plan can never be applied.
\<close>

subsection \<open>Whose lines a plan uses\<close>

lemma map_of_dict_None: "map_of (dict_of_rows (\<lambda>p. p) ps) k = None \<longleftrightarrow> k \<notin> fst ` set ps"
  unfolding lookup_dict_of_rows by (simp add: map_of_eq_None_iff)

lemma owners_of_lines_set:
  "set (owners_of_lines owner es) = {t. \<exists>e \<in> set es. map_of owner (entry_id e) = Some t}"
  by (auto simp: owners_of_lines_def split: option.splits)

text \<open>What a planned transaction may use: nobody's lines from \<open>free\<close>, and the lines of that transaction.\<close>

definition uses_own :: "(uuid, uuid) odict \<Rightarrow> log_entry set \<Rightarrow> planned_txn \<Rightarrow> bool" where
  "uses_own owner free c \<longleftrightarrow>
     (\<forall>e \<in> set (pt_entries c). map_of owner (entry_id e) = Some (pt_txn c) \<or> map_of owner (entry_id e) = None \<and> e \<in> free)"

lemma planned_park [simp]: "planned (park es t opened position p) = planned p"
  by (simp add: park_def planned_def split: option.splits)

lemma plan_builder_uses_own:
  assumes "plan_builder env st cc hi seal abandon owner rows b (Inr p) = Inr p'"
    and "\<forall>e \<in> set (entries b). map_of owner (entry_id e) = None \<longrightarrow> e \<in> free"
    and "\<forall>c \<in> set (planned p). uses_own owner free c"
  shows "\<forall>c \<in> set (planned p'). uses_own owner free c"
proof -
  define es where "es = in_stream_order (entries b)"
  have es: "set es = set (entries b)" by (simp add: es_def in_stream_order_def)
  show ?thesis
  proof (cases "owners_of_lines owner es")
    case Nil
    then have free: "\<forall>e \<in> set es. map_of owner (entry_id e) = None"
      using owners_of_lines_set [of owner es] by (auto simp: option.discI) (metis not_None_eq)
    from Nil assms(1) obtain vd opened where p': "planned p' = planned (p\<lparr>hp_created := hp_created p
        @ [\<lparr>n_txn = txn_id (e_uuid5 env) es, n_verdict = vd, n_entries = es\<rparr>]\<rparr>)"
      by (auto simp: plan_builder_def Let_def es_def [symmetric] split: if_splits)
    show ?thesis using assms(2,3) free unfolding p' by (auto simp: planned_def uses_own_def es)
  next
    case (Cons t ts)
    with assms(1) have "ts = []" by (auto simp: plan_builder_def Let_def es_def [symmetric] split: if_splits)
    with Cons have "{u. \<exists>e \<in> set es. map_of owner (entry_id e) = Some u} = {t}"
      using owners_of_lines_set [of owner es] by simp
    then have own: "\<forall>e \<in> set es. map_of owner (entry_id e) = None \<or> map_of owner (entry_id e) = Some t"
    proof (intro ballI)
      fix e assume "e \<in> set es"
      then have "u = t" if "map_of owner (entry_id e) = Some u" for u
        using that \<open>{u. \<exists>e \<in> set es. map_of owner (entry_id e) = Some u} = {t}\<close> by blast
      then show "map_of owner (entry_id e) = None \<or> map_of owner (entry_id e) = Some t"
        by (cases "map_of owner (entry_id e)") auto
    qed
    define vd where "vd = verdict_of env cc seal abandon es"
    have "\<exists>opened stored. p' = park es t opened (open_pos b) p \<or> p' = park es t opened (open_pos b) (p\<lparr>hp_continued := hp_continued p
        @ [\<lparr>c_txn = t, c_started = row_started stored, c_old_fp = row_fp stored, c_verdict = vd, c_entries = es\<rparr>]\<rparr>)"
      using assms(1) Cons
      by (simp add: plan_builder_def Let_def es_def [symmetric] vd_def [symmetric] split: if_splits option.splits) blast+
    then have "set (planned p') \<subseteq> insert \<lparr>pt_txn = t, pt_verdict = vd, pt_entries = es\<rparr> (set (planned p))"
      by (elim exE disjE) (auto simp: planned_park, auto simp: planned_def)
    moreover have "uses_own owner free \<lparr>pt_txn = t, pt_verdict = vd, pt_entries = es\<rparr>"
      using assms(2) own by (auto simp: uses_own_def es)
    ultimately show ?thesis using assms(3) by blast
  qed
qed

lemma plan_builders_stop: "fold (plan_builder env st cc hi seal abandon owner rows) bs (Inl why) = Inl why"
  by (induction bs) (simp_all add: plan_builder_def)

lemma plan_builders_use_own:
  assumes "fold (plan_builder env st cc hi seal abandon owner rows) bs (Inr p) = Inr p'"
    and "\<forall>b \<in> set bs. \<forall>e \<in> set (entries b). map_of owner (entry_id e) = None \<longrightarrow> e \<in> free"
    and "\<forall>c \<in> set (planned p). uses_own owner free c"
  shows "\<forall>c \<in> set (planned p'). uses_own owner free c"
  using assms
proof (induction bs arbitrary: p)
  case (Cons b bs)
  show ?case
  proof (cases "plan_builder env st cc hi seal abandon owner rows b (Inr p)")
    case (Inr q)
    have "\<forall>c \<in> set (planned q). uses_own owner free c"
      by (rule plan_builder_uses_own [OF Inr]) (use Cons.prems in auto)
    then show ?thesis using Cons.IH [of q] Cons.prems Inr by simp
  qed (use Cons.prems in \<open>simp add: plan_builders_stop\<close>)
qed simp

lemma seeded_lines_owned:
  assumes "r \<in> set (ld_streams ld)" and "e \<in> set (txn_lines ld r)"
  shows "map_of (txn_of_entry ld) (entry_id e) \<noteq> None"
  using assms unfolding txn_of_entry_def map_of_dict_None by (fastforce simp: image_iff)

lemma seed_lines_of:
  "seed_lines (seed_of ld rows) \<subseteq> (\<Union>r \<in> set rows. set (txn_lines ld r)) \<union> set (ld_pending ld)"
  by (auto simp: seed_lines_def seed_of_def txn_lines_def)

text \<open>C33: the head lane never takes a line from another transaction: every line of a planned transaction belongs to
  that transaction among the parked ones, or to no parked one and then is an unassigned line of the window or a
  parked request.\<close>

theorem plan_never_steals_a_line:
  assumes "build_plan env st cc lo hi clock s = Inr p"
  shows "\<forall>c \<in> set (planned p). uses_own (txn_of_entry (load_streams (cfg st) cc lo s))
           (set (window_rows s cc lo hi) \<union> set (ld_pending (load_streams (cfg st) cc lo s))) c"
proof -
  define ld where "ld = load_streams (cfg st) cc lo s"
  define rows where "rows = window_rows s cc lo hi"
  define owner where "owner = txn_of_entry ld"
  define stored where "stored = parked_rows s (ld_streams ld)"
  define bs where "bs = filter (\<lambda>b. entries b \<noteq> []) (grouped st (seed_of ld (ld_streams ld)) rows)"
  from assms have "plan_window env st cc lo hi clock ld rows s = Inr p"
    by (simp add: build_plan_def Let_def ld_def rows_def split: option.splits if_splits)
  then obtain seal abandon where run: "fold (plan_builder env st cc hi seal abandon owner stored) bs (Inr (empty_plan lo hi)) = Inr p"
    by (auto simp: plan_window_def Let_def owner_def stored_def bs_def split: prod.splits sum.splits if_splits)
  have lines: "\<forall>b \<in> set bs. \<forall>e \<in> set (entries b). map_of owner (entry_id e) = None \<longrightarrow> e \<in> set rows \<union> set (ld_pending ld)"
  proof (intro ballI impI)
    fix b e assume b: "b \<in> set bs" "e \<in> set (entries b)" and free: "map_of owner (entry_id e) = None"
    from b have "b \<in> set (group_entries (open_gap (cfg st)) (seed_of ld (ld_streams ld)) rows)" by (simp add: bs_def grouped_def)
    from group_within [OF this] b(2) have "e \<in> seed_lines (seed_of ld (ld_streams ld)) \<union> set rows" by blast
    moreover have "e \<notin> set (txn_lines ld r)" if "r \<in> set (ld_streams ld)" for r
      using seeded_lines_owned [OF that, of e] free by (auto simp: owner_def)
    ultimately show "e \<in> set rows \<union> set (ld_pending ld)" using seed_lines_of [of ld "ld_streams ld"] by blast
  qed
  have "\<forall>c \<in> set (planned p). uses_own owner (set rows \<union> set (ld_pending ld)) c"
    by (rule plan_builders_use_own [OF run lines]) (simp add: planned_def empty_plan_def)
  then show ?thesis by (simp add: owner_def rows_def ld_def)
qed

subsection \<open>Applying a plan\<close>

lemma apply_stops: "fold (apply_continuation cc clock) cs (Inl e) = Inl e"
  by (induction cs) (simp_all add: apply_continuation_def)

lemma stored_fp_frame:
  "t \<noteq> u \<Longrightarrow> stored_fp (write_assignments u es cc (update_transaction u started v sealed rfp mfp now s)) t started' = stored_fp s t started'"
proof -
  assume "t \<noteq> u"
  then have "find (\<lambda>r. row_id r = t \<and> row_started r = started') (map (\<lambda>r. if row_id r = u \<and> row_started r = started
        then r\<lparr>row_values := v, row_sealed := sealed, row_updated := now, row_fp := Some rfp, row_members_fp := Some mfp\<rparr> else r) rows)
      = find (\<lambda>r. row_id r = t \<and> row_started r = started') rows" for rows
    by (induction rows) auto
  then show ?thesis by (simp add: stored_fp_def write_assignments_def update_transaction_def)
qed

lemma apply_continuations_stale:
  assumes "distinct (map c_txn cs)" and "c \<in> set cs" and "stored_fp s (c_txn c) (c_started c) \<noteq> c_old_fp c"
  shows "\<exists>t. fold (apply_continuation cc clock) cs (Inr s) = Inl (Plan_stale t)"
  using assms
proof (induction cs arbitrary: s)
  case (Cons d cs)
  show ?case
  proof (cases "stored_fp s (c_txn d) (c_started d) = c_old_fp d")
    case True
    with Cons.prems have c: "c \<in> set cs" by auto
    then have "c_txn c \<in> set (map c_txn cs)" by simp
    then have d: "c_txn c \<noteq> c_txn d" using Cons.prems(1) by auto
    define s1 where "s1 = write_assignments (c_txn d) (c_entries d) cc
      (update_transaction (c_txn d) (c_started d) (vd_values (c_verdict d)) (vd_sealed (c_verdict d)) (vd_row_fp (c_verdict d))
         (vd_members_fp (c_verdict d)) clock s)"
    have "stored_fp s1 (c_txn c) (c_started c) \<noteq> c_old_fp c"
      using Cons.prems(3) stored_fp_frame [OF d] by (simp add: s1_def)
    then have "\<exists>t. fold (apply_continuation cc clock) cs (Inr s1) = Inl (Plan_stale t)"
      using Cons.IH [of s1] Cons.prems(1) c by simp
    moreover have "apply_continuation cc clock d (Inr s) = Inr s1"
      using True by (simp add: apply_continuation_def Let_def s1_def)
    ultimately show ?thesis by simp
  next
    case False
    then have "apply_continuation cc clock d (Inr s) = Inl (Plan_stale (c_txn d))" by (simp add: apply_continuation_def)
    then show ?thesis by (simp add: apply_stops)
  qed
qed simp

text \<open>C13: optimistic concurrency: when any row a plan continues no longer carries the fingerprint the plan read,
  applying the plan fails as stale and commits nothing.\<close>

theorem stale_plan_is_refused:
  assumes "distinct (map c_txn (hp_continued p))" and "c \<in> set (hp_continued p)"
    and "stored_fp s (c_txn c) (c_started c) \<noteq> c_old_fp c"
  shows "\<exists>t. apply_plan st cc p clock s = Inl (Plan_stale t)"
proof -
  obtain t where "fold (apply_continuation cc clock) (hp_continued p) (Inr s) = Inl (Plan_stale t)"
    using apply_continuations_stale [OF assms] by blast
  then show ?thesis by (simp add: apply_plan_def apply_commit_def)
qed

definition sample_continuation :: continuation where
  "sample_continuation = \<lparr>c_txn = 11, c_started = Some 0, c_old_fp = Some ''old'',
     c_verdict = verdict_of sample_env ''BID'' None None sample_conversation, c_entries = sample_conversation\<rparr>"

lemma stale_plan_is_refused_witness:
  "\<exists>t. apply_plan sample_settings ''BID'' ((empty_plan 0 9)\<lparr>hp_continued := [sample_continuation]\<rparr>) 5 sample_store = Inl (Plan_stale t)"
  by (rule stale_plan_is_refused [where c = sample_continuation])
    (simp_all add: sample_continuation_def stored_fp_def sample_store_def empty_store_def)

subsection \<open>The checkpoint\<close>

lemma advance_lookup:
  "get_checkpoint (advance_checkpoint cc hi s) c =
     (if c = cc then Some (case get_checkpoint s cc of None \<Rightarrow> hi | Some t \<Rightarrow> max t hi) else get_checkpoint s c)"
  by (simp add: get_checkpoint_def advance_checkpoint_def dict_simps)

text \<open>\<open>no_earlier a b\<close>: a checkpoint that was set stays set, at the same instant or a later one.\<close>

definition no_earlier :: "instant option \<Rightarrow> instant option \<Rightarrow> bool" where
  "no_earlier a b \<longleftrightarrow> (case a of None \<Rightarrow> True | Some t \<Rightarrow> (case b of None \<Rightarrow> False | Some u \<Rightarrow> t \<le> u))"

lemma no_earlier_refl [simp]: "no_earlier a a"
  by (simp add: no_earlier_def split: option.splits)

lemma no_earlier_trans: "no_earlier a b \<Longrightarrow> no_earlier b c \<Longrightarrow> no_earlier a c"
  by (auto simp: no_earlier_def split: option.splits)

lemma advance_no_earlier: "no_earlier (get_checkpoint s c) (get_checkpoint (advance_checkpoint cc hi s) c)"
  by (simp add: advance_lookup no_earlier_def split: option.splits)

subsection \<open>A window that cannot be applied\<close>

text \<open>One thread on which a user finishes a conversation and begins the next one within the open gap.\<close>

definition busy_thread :: "log_entry list" where
  "busy_thread = [sample_line 1 Request 0 ''7'' (Some ''ANN'') [], sample_line 2 MiCall 1 ''7'' (Some ''ANN'') [],
     sample_line 3 Response 2 ''7'' (Some ''ANN'') [],
     sample_line 4 Request 3 ''7'' (Some ''ANN'') [], sample_line 5 MiCall 4 ''7'' (Some ''ANN'') []]"

definition busy_store :: store where
  "busy_store = empty_store\<lparr>log_entries := busy_thread, checkpoints := [(''BID'', 0)]\<rparr>"

definition busy_plan :: "fallback + head_plan" where
  "busy_plan = build_plan sample_env sample_settings ''BID'' 0 (seconds 5) 0 busy_store"

abbreviation nothing_loaded :: loaded where
  "nothing_loaded \<equiv> \<lparr>ld_streams = [], ld_entries = [], ld_pending = [], ld_refusals = [], ld_stored = 0\<rparr>"

lemma busy_inputs:
  "get_checkpoint busy_store ''BID'' = Some 0"
  "window_rows busy_store ''BID'' 0 (seconds 5) = busy_thread"
  "load_streams (cfg sample_settings) ''BID'' 0 busy_store = nothing_loaded"
  "parked_guard nothing_loaded = None"
  "txn_of_entry nothing_loaded = []"
  "parked_rows busy_store [] = []"
  by code_simp+

definition first_talk :: "log_entry list" where
  "first_talk = [busy_thread ! 1, busy_thread ! 0, busy_thread ! 2]"

definition second_talk :: "log_entry list" where
  "second_talk = [busy_thread ! 4, busy_thread ! 3]"

lemma busy_groups:
  "map entries (grouped sample_settings (seed_of nothing_loaded []) busy_thread) = [first_talk, second_talk]"
  by code_simp

lemma busy_talks:
  "in_stream_order first_talk = take 3 busy_thread" "in_stream_order second_talk = drop 3 busy_thread"
  "still_open (seconds 300) (seconds 5) (take 3 busy_thread) = Some (seconds 2)"
  "still_open (seconds 300) (seconds 5) (drop 3 busy_thread) = Some (seconds 4)"
  "\<not> anonymous (take 3 busy_thread)" "\<not> anonymous (drop 3 busy_thread)"
  "open_gap (cfg sample_settings) = seconds 300" "first_talk \<noteq> []" "second_talk \<noteq> []"
  by code_simp+

lemma no_owners: "owners_of_lines [] es = []"
proof -
  have "concat (map (\<lambda>e :: log_entry. case map_of ([] :: (uuid, uuid) odict) (entry_id e) of None \<Rightarrow> [] | Some t \<Rightarrow> [t]) es) = []"
    by simp
  then show ?thesis by (simp add: owners_of_lines_def)
qed

lemma distinct_mapI: "distinct (map f xs) \<Longrightarrow> distinct xs"
  by (induction xs) auto

lemma plan_new_builder:
  assumes "in_stream_order (entries b) = es" and "still_open (open_gap (cfg st)) hi es = Some latest" and "\<not> anonymous es"
  shows "\<exists>n. plan_builder env st cc hi seal abandon [] rows b (Inr p)
     = Inr (p\<lparr>hp_created := hp_created p @ [n], hp_open := hp_open p @ open_info es (n_txn n) latest (open_pos b)\<rparr>)"
proof -
  define n where "n = \<lparr>n_txn = txn_id (e_uuid5 env) es, n_verdict = verdict_of env cc seal abandon es, n_entries = es\<rparr>"
  have "plan_builder env st cc hi seal abandon [] rows b (Inr p)
     = Inr (p\<lparr>hp_created := hp_created p @ [n], hp_open := hp_open p @ open_info es (n_txn n) latest (open_pos b)\<rparr>)"
    using assms by (simp add: plan_builder_def Let_def no_owners park_def n_def)
  then show ?thesis ..
qed

lemma busy_plan_parks_twice:
  "\<exists>p x q y r. busy_plan = Inr p \<and> hp_open p = open_info (take 3 busy_thread) x (seconds 2) q
     @ open_info (drop 3 busy_thread) y (seconds 4) r"
proof -
  obtain b1 b2 where g: "grouped sample_settings (seed_of nothing_loaded []) busy_thread = [b1, b2]"
    and e: "entries b1 = first_talk" "entries b2 = second_talk"
    using busy_groups by (auto simp: map_eq_Cons_conv)
  obtain seal abandon where c: "tenant_cutoffs sample_settings 0 busy_store ''BID'' = (seal, abandon)" by fastforce
  obtain n1 where n1: "plan_builder sample_env sample_settings ''BID'' (seconds 5) seal abandon [] [] b1 (Inr (empty_plan 0 (seconds 5)))
      = Inr ((empty_plan 0 (seconds 5))\<lparr>hp_created := [n1], hp_open := open_info (take 3 busy_thread) (n_txn n1) (seconds 2) (open_pos b1)\<rparr>)"
    using plan_new_builder [of b1 "take 3 busy_thread" sample_settings "seconds 5" "seconds 2" sample_env "''BID''" seal abandon "[]" "empty_plan 0 (seconds 5)"]
    by (auto simp: e busy_talks empty_plan_def)
  define p1 where "p1 = (empty_plan 0 (seconds 5))\<lparr>hp_created := [n1], hp_open := open_info (take 3 busy_thread) (n_txn n1) (seconds 2) (open_pos b1)\<rparr>"
  obtain n2 where n2: "plan_builder sample_env sample_settings ''BID'' (seconds 5) seal abandon [] [] b2 (Inr p1)
      = Inr (p1\<lparr>hp_created := hp_created p1 @ [n2], hp_open := hp_open p1 @ open_info (drop 3 busy_thread) (n_txn n2) (seconds 4) (open_pos b2)\<rparr>)"
    using plan_new_builder [of b2 "drop 3 busy_thread" sample_settings "seconds 5" "seconds 4" sample_env "''BID''" seal abandon "[]" p1]
    by (auto simp: e busy_talks)
  have none: "existing_transaction_ids cc w busy_store ids = []" for cc w ids
    by (simp add: existing_transaction_ids_def select_ids_def busy_store_def empty_store_def)
  have "busy_plan = Inr (p1\<lparr>hp_created := hp_created p1 @ [n2], hp_open := hp_open p1 @ open_info (drop 3 busy_thread) (n_txn n2) (seconds 4) (open_pos b2)\<rparr>)"
  proof -
    have bs: "filter (\<lambda>b. entries b \<noteq> []) [b1, b2] = [b1, b2]" by (simp add: e busy_talks)
    have "plan_window sample_env sample_settings ''BID'' 0 (seconds 5) 0 nothing_loaded busy_thread busy_store
        = Inr (p1\<lparr>hp_created := hp_created p1 @ [n2], hp_open := hp_open p1 @ open_info (drop 3 busy_thread) (n_txn n2) (seconds 4) (open_pos b2)\<rparr>)"
      by (simp add: plan_window_def c g bs busy_inputs n1 [folded p1_def] n2 none del: filter.simps)
    moreover have "busy_thread \<noteq> []" by (simp add: busy_thread_def)
    ultimately show ?thesis by (simp add: busy_plan_def build_plan_def Let_def busy_inputs)
  qed
  then show ?thesis
    by (intro exI [of _ "n_txn n1"] exI [of _ "open_pos b1"] exI [of _ "n_txn n2"] exI [of _ "open_pos b2"]
        exI [of _ "p1\<lparr>hp_created := hp_created p1 @ [n2], hp_open := hp_open p1 @ open_info (drop 3 busy_thread) (n_txn n2) (seconds 4) (open_pos b2)\<rparr>"] conjI)
      (simp_all add: p1_def)
qed

lemma busy_plan_keys:
  "\<exists>p. busy_plan = Inr p \<and> map (\<lambda>x. (os_server x, os_thread x, os_user x)) (hp_open p)
     = [(''BEC01'', Some ''7'', Some ''ANN''), (''BEC01'', Some ''7'', Some ''ANN'')]"
proof -
  have "map (\<lambda>x. (os_server x, os_thread x, os_user x)) (open_info (take 3 busy_thread) t l q) = [(''BEC01'', Some ''7'', Some ''ANN'')]"
    "map (\<lambda>x. (os_server x, os_thread x, os_user x)) (open_info (drop 3 busy_thread) t l q) = [(''BEC01'', Some ''7'', Some ''ANN'')]" for t l q
    by (simp_all add: busy_thread_def open_info_def, code_simp+)
  note keys = this
  obtain p x q y r where "busy_plan = Inr p" "hp_open p = open_info (take 3 busy_thread) x (seconds 2) q
     @ open_info (drop 3 busy_thread) y (seconds 4) r" using busy_plan_parks_twice by blast
  then show ?thesis by (intro exI [of _ p]) (simp only: map_append keys append.simps simp_thms)
qed

text \<open>a plan that parks two conversations under one key can never be applied, on any store: the save breaks the
  unique key, so the window fails on every attempt. Such plans are built, because an answered conversation that
  ended less than the open gap ago is parked beside the next one of the same thread and user.\<close>

theorem duplicate_parking_never_applies:
  assumes "\<not> distinct (map (\<lambda>x. (os_server x, os_thread x, os_user x)) (hp_open p))"
  shows "\<exists>e. apply_plan st cc p clock s = Inl e"
proof -
  define key where "key = (\<lambda>x :: open_stream_info. (os_server x, os_thread x, os_user x))"
  have same: "map stream_key (map (row_of_stream cc clock) ys) = map (Pair cc) (map key ys)" for ys
    by (simp add: stream_key_def row_of_stream_def key_def)
  have "\<not> distinct (map (Pair cc) (map key (hp_open p)))"
    using assms distinct_mapI [of "Pair cc" "map key (hp_open p)"] unfolding key_def by argo
  then have dup: "\<not> distinct (map stream_key (xs @ map (row_of_stream cc clock) (hp_open p)))" for xs
    unfolding map_append same distinct_append by argo
  have none: "save_streams cc (hp_open p) [] None clock t = None" for t
    unfolding save_streams_def Let_def option.case by (simp only: dup simp_thms if_False)
  show ?thesis unfolding apply_plan_def apply_commit_def none
    by (cases "fold (apply_continuation cc clock) (hp_continued p) (Inr s)") simp_all
qed

lemma duplicate_parking_never_applies_witness:
  "\<exists>p. busy_plan = Inr p \<and> (\<exists>e. apply_plan sample_settings ''BID'' p 0 busy_store = Inl e)"
proof -
  obtain p where p: "busy_plan = Inr p" and k: "map (\<lambda>x. (os_server x, os_thread x, os_user x)) (hp_open p)
     = [(''BEC01'', Some ''7'', Some ''ANN''), (''BEC01'', Some ''7'', Some ''ANN'')]" using busy_plan_keys by (elim exE conjE)
  have "\<exists>e. apply_plan sample_settings ''BID'' p 0 busy_store = Inl e" by (rule duplicate_parking_never_applies) (simp only: k distinct.simps list.set insert_iff simp_thms)
  with p show ?thesis by blast
qed

lemma plan_never_steals_a_line_witness:
  "\<exists>p. busy_plan = Inr p \<and> list_all (uses_own [] (set busy_thread)) (planned p)"
proof -
  obtain p where p: "busy_plan = Inr p" using busy_plan_keys by blast
  then have "build_plan sample_env sample_settings ''BID'' 0 (seconds 5) 0 busy_store = Inr p" by (simp only: busy_plan_def)
  from plan_never_steals_a_line [OF this] have "\<forall>c \<in> set (planned p). uses_own [] (set busy_thread) c"
    by (simp only: busy_inputs loaded.simps list.set Un_empty_right)
  with p show ?thesis by (simp only: list_all_iff) blast
qed

end
