(* ===== verification/FinalizeProperties.thy ===== *)
theory FinalizeProperties
  imports Finalize HeadProperties
begin

text \<open>
  The stitch queue as a state machine: what a pass does to every ticket, that it never raises, that failures of
  one run leave the others alone, that a ticket is tried a bounded number of times, and that the checkpoint of a
  tenant never moves back.
\<close>

subsection \<open>What leaves the queue alone\<close>

named_theorems frames "parts of the store an operation leaves alone"

definition onward :: "string \<Rightarrow> store \<Rightarrow> store \<Rightarrow> bool" where
  "onward c s s' \<longleftrightarrow> no_earlier (get_checkpoint s c) (get_checkpoint s' c) \<and> log_entries s' = log_entries s"

lemma onward_refl [simp]: "onward c s s"
  by (simp add: onward_def)

lemma onward_trans: "onward c s t \<Longrightarrow> onward c t u \<Longrightarrow> onward c s u"
  by (auto simp: onward_def intro: no_earlier_trans)

lemma fold_frame: "(\<And>x s. g (f x s) = g s) \<Longrightarrow> g (fold f xs s) = g s"
  by (induction xs arbitrary: s) auto

lemma queue_write [frames]: "queue (write_assignments t es cc s) = queue s" "checkpoints (write_assignments t es cc s) = checkpoints s"
    "log_entries (write_assignments t es cc s) = log_entries s"
  by (simp_all add: write_assignments_def)

lemma queue_deletes [frames]:
  "queue (delete_for_transactions ts s) = queue s" "queue (drop_transactions ts s) = queue s"
  "checkpoints (delete_for_transactions ts s) = checkpoints s"
  "log_entries (delete_for_transactions ts s) = log_entries s" "checkpoints (drop_transactions ts s) = checkpoints s"
  "log_entries (drop_transactions ts s) = log_entries s"
  by (simp_all add: delete_for_transactions_def drop_transactions_def delete_transactions_def)

lemma queue_rows [frames]:
  "queue (update_transaction t st v sealed rfp mfp now s) = queue s"
  "queue (write_transaction t v sealed es cc rfp mfp now s) = queue s"
  "checkpoints (update_transaction t st v sealed rfp mfp now s) = checkpoints s"
  "log_entries (update_transaction t st v sealed rfp mfp now s) = log_entries s"
  "checkpoints (write_transaction t v sealed es cc rfp mfp now s) = checkpoints s"
  "log_entries (write_transaction t v sealed es cc rfp mfp now s) = log_entries s"
  by (simp_all add: update_transaction_def write_transaction_def frames)

lemma queue_publish [frames]:
  "queue (publish c cc lo hi refold s) = queue s" "queue (publish_for_transactions c now cc ts s) = queue s"
  "checkpoints (publish c cc lo hi refold s) = checkpoints s"
  "log_entries (publish c cc lo hi refold s) = log_entries s" "checkpoints (publish_for_transactions c now cc ts s) = checkpoints s"
  "log_entries (publish_for_transactions c now cc ts s) = log_entries s"
  by (simp_all add: publish_def publish_for_transactions_def split: option.splits)

lemma queue_persist_one:
  "queue (p_store (persist_one env cc now seal abandon stored existing g p)) = queue (p_store p)
   \<and> checkpoints (p_store (persist_one env cc now seal abandon stored existing g p)) = checkpoints (p_store p)
   \<and> log_entries (p_store (persist_one env cc now seal abandon stored existing g p)) = log_entries (p_store p)"
  by (simp add: persist_one_def skip_builder_def rewrite_stored_def create_row_def Let_def frames split: prod.splits option.splits)

lemma queue_persist [frames]:
  "queue (snd (persist env c cc now seal abandon cont stored bs s)) = queue s"
  "checkpoints (snd (persist env c cc now seal abandon cont stored bs s)) = checkpoints s"
  "log_entries (snd (persist env c cc now seal abandon cont stored bs s)) = log_entries s"
proof -
  have "queue (p_store (fold (persist_one env cc now seal abandon stored existing) gs p)) = queue (p_store p)
      \<and> checkpoints (p_store (fold (persist_one env cc now seal abandon stored existing) gs p)) = checkpoints (p_store p)
   \<and> log_entries (p_store (fold (persist_one env cc now seal abandon stored existing) gs p)) = log_entries (p_store p)"
    for existing gs p
    using fold_frame [of "queue \<circ> p_store" "persist_one env cc now seal abandon stored existing"]
      fold_frame [of "checkpoints \<circ> p_store" "persist_one env cc now seal abandon stored existing"]
      fold_frame [of "log_entries \<circ> p_store" "persist_one env cc now seal abandon stored existing"]
    by (simp add: queue_persist_one)
  then show "queue (snd (persist env c cc now seal abandon cont stored bs s)) = queue s"
    "checkpoints (snd (persist env c cc now seal abandon cont stored bs s)) = checkpoints s"
  "log_entries (snd (persist env c cc now seal abandon cont stored bs s)) = log_entries s"
    by (simp_all add: persist_def Let_def frames split: prod.splits)
qed

lemma queue_save:
  "save_streams cc xs ps w now s = Some s' \<Longrightarrow> queue s' = queue s \<and> checkpoints s' = checkpoints s
   \<and> log_entries s' = log_entries s"
  by (auto simp: save_streams_def Let_def clear_all_def clear_window_def split: option.splits prod.splits if_splits)

lemma queue_open_window [frames]:
  "queue (ww_store (open_window st cc lo_p hi hi_p s)) = queue s"
  "checkpoints (ww_store (open_window st cc lo_p hi hi_p s)) = checkpoints s"
  "log_entries (ww_store (open_window st cc lo_p hi hi_p s)) = log_entries s"
  by (simp_all add: open_window_def Let_def frames)

lemma queue_run_shadow [frames]:
  "queue (run_shadow env st cc w groups lo_p clock) = queue (ww_store w)"
  "checkpoints (run_shadow env st cc w groups lo_p clock) = checkpoints (ww_store w)"
  "log_entries (run_shadow env st cc w groups lo_p clock) = log_entries (ww_store w)"
  by (auto simp: run_shadow_def shadow_compare_window_def Let_def dest: queue_save split: option.splits)

lemma queue_regroup_window:
  "regroup_window env st cc lo hi clock s = Inr (part, s') \<Longrightarrow> queue s' = queue s \<and> checkpoints s' = checkpoints s
   \<and> log_entries s' = log_entries s"
proof -
  assume r: "regroup_window env st cc lo hi clock s = Inr (part, s')"
  then obtain lo_p report where f: "cross_pad_floor st s cc (lo - regroup_pad (cfg st)) (hi + regroup_pad (cfg st)) = Inr (lo_p, report)"
    by (auto simp: regroup_window_def Let_def split: sum.splits)
  define w where "w = open_window st cc lo_p hi (hi + regroup_pad (cfg st)) s"
  obtain seal abandon where c: "tenant_cutoffs st clock (ww_store w) cc = (seal, abandon)" by fastforce
  define s1 where "s1 = run_shadow env st cc w (grouped st no_seed (ww_rows w)) lo_p clock"
  define q where "q = persist env (cfg st) cc clock seal abandon (ww_cont w) (ww_stored w) (map entries (grouped st no_seed (ww_rows w))) s1"
  have "s' = (if ww_rows w = [] then (if ww_stored w = [] then ww_store w
      else drop_transactions (map row_id (ww_stored w)) (ww_store w)) else snd q)"
    using r f c by (auto simp: regroup_window_def Let_def w_def [symmetric] s1_def [symmetric] q_def [symmetric] split: if_splits prod.splits)
  moreover have "queue (snd q) = queue s" "checkpoints (snd q) = checkpoints s" "log_entries (snd q) = log_entries s"
    by (simp_all add: q_def s1_def w_def frames)
  ultimately show ?thesis by (simp add: frames w_def)
qed

lemma queue_apply_commit: "apply_commit st cc p clock s = Inr s' \<Longrightarrow> queue s' = queue s \<and> checkpoints s' = checkpoints s
   \<and> log_entries s' = log_entries s"
proof -
  have cont: "fold (apply_continuation cc clock) cs (Inr s) = Inr t \<Longrightarrow> queue t = queue s \<and> checkpoints t = checkpoints s
   \<and> log_entries t = log_entries s" for cs s t
  proof (induction cs arbitrary: s)
    case (Cons c cs)
    show ?case
    proof (cases "apply_continuation cc clock c (Inr s)")
      case (Inr u)
      then have "queue u = queue s \<and> checkpoints u = checkpoints s \<and> log_entries u = log_entries s"
        by (auto simp: apply_continuation_def Let_def frames split: if_splits)
      then show ?thesis using Cons.IH [of u] Cons.prems Inr by simp
    qed (use Cons.prems in \<open>simp add: apply_stops\<close>)
  qed simp
  have new: "queue (fold (apply_creation cc clock) ns t) = queue t" "checkpoints (fold (apply_creation cc clock) ns t) = checkpoints t"
    "log_entries (fold (apply_creation cc clock) ns t) = log_entries t" for ns t
    using fold_frame [of queue "apply_creation cc clock"] fold_frame [of checkpoints "apply_creation cc clock"]
      fold_frame [of log_entries "apply_creation cc clock"]
    by (simp_all add: apply_creation_def Let_def frames)
  assume "apply_commit st cc p clock s = Inr s'"
  then show ?thesis
    by (auto simp: apply_commit_def frames new split: sum.splits option.splits dest!: cont queue_save)
qed

lemma queue_head_commit: "head_commit st cc p clock s = Inr (part, s') \<Longrightarrow> queue s' = queue s \<and> checkpoints s' = checkpoints s
   \<and> log_entries s' = log_entries s"
  by (cases "apply_commit st cc p clock s") (auto simp: head_commit_def dest: queue_apply_commit)

lemma run_window_frame:
  assumes "run_window out st cc clock w s = r"
  shows "(\<forall>e s'. r = Inl (e, s') \<longrightarrow> queue s' = queue s \<and> onward c s s')
       \<and> (\<forall>part s'. r = Inr (part, s') \<longrightarrow> queue s' = queue s \<and> onward c s s')"
proof -
  have commit: "queue s' = queue s \<and> checkpoints s' = checkpoints s \<and> log_entries s' = log_entries s"
    if "commit_window out w s (window_result out st cc clock w s) = Inr (part, s')" for part s'
    using that by (auto simp: commit_window_def window_result_def
        split: option.splits sum.splits dest!: queue_head_commit queue_regroup_window)
  then have "queue s' = queue s \<and> get_checkpoint s' c = get_checkpoint s c \<and> log_entries s' = log_entries s"
    if "commit_window out w s (window_result out st cc clock w s) = Inr (part, s')" for part s'
    using that by (simp add: get_checkpoint_def)
  moreover have "queue (advance_checkpoint cc hi t) = queue t" "log_entries (advance_checkpoint cc hi t) = log_entries t" for hi t
    by (simp_all add: advance_checkpoint_def)
  moreover have "no_earlier (get_checkpoint s c) (get_checkpoint (advance_checkpoint cc hi t) c)"
    if "get_checkpoint t c = get_checkpoint s c" for hi t
    using advance_no_earlier [of t c cc hi] that by simp
  ultimately show ?thesis using assms by (auto simp: run_window_def onward_def split: sum.splits option.splits)
qed

lemma run_windows_frame:
  assumes "run_windows out st cc clock ws s = (parts, (failure, s'))"
  shows "queue s' = queue s \<and> onward c s s'"
  using assms
proof (induction ws arbitrary: s parts)
  case (Cons w ws)
  show ?case
  proof (cases "run_window out st cc clock w s")
    case (Inl es)
    then show ?thesis using Cons.prems run_window_frame [OF Inl, of c] by (cases es) auto
  next
    case (Inr ps)
    obtain part s1 where ps: "ps = (part, s1)" by fastforce
    obtain parts1 where r: "run_windows out st cc clock ws s1 = (parts1, (failure, s'))"
      using Cons.prems Inr ps by (auto split: prod.splits)
    show ?thesis using Cons.IH [OF r] run_window_frame [OF Inr, of c] ps by (auto intro: onward_trans)
  qed
qed simp

subsection \<open>What a pass does to a ticket\<close>

definition decided :: "settings \<Rightarrow> instant \<Rightarrow> regroup_ticket \<Rightarrow> regroup_ticket \<Rightarrow> bool" where
  "decided st clock q q' \<longleftrightarrow>
     q' = consume_ticket clock q \<or> (\<exists>err transient delay. q' = fail_ticket st clock err transient delay q)"

lemma fail_ticket_simps [simp]:
  "q_id (fail_ticket st clock err transient delay q) = q_id q"
  "q_consumed (fail_ticket st clock err transient delay q) = q_consumed q"
  "q_attempts (fail_ticket st clock err transient delay q) = Suc (q_attempts q)"
  "q_error (fail_ticket st clock err transient delay q) = Some err"
  "q_abandoned (fail_ticket st clock err transient delay q) =
     (if \<not> transient \<or> max_attempts (cfg st) \<le> Suc (q_attempts q) then Some clock else q_abandoned q)"
  by (cases transient; cases "max_attempts (cfg st) \<le> Suc (q_attempts q)"; simp add: fail_ticket_def Let_def)+

lemma error_text_some: "exn_text e \<noteq> [] \<Longrightarrow> error_text e \<noteq> None"
  by (simp add: error_text_def disk_io_detail_def Let_def first_line_def split: option.splits)

definition spoken :: "outside \<Rightarrow> bool" where
  "spoken out \<longleftrightarrow> (\<forall>site e. o_fault out site = Some e \<longrightarrow> exn_text e \<noteq> []) \<and> (\<forall>e. o_message out e \<noteq> [])"

lemma run_windows_spoken:
  assumes "spoken out" and "run_windows out st cc clock ws s = (parts, (Some e, s'))"
  shows "exn_text e \<noteq> []"
  using assms(2)
proof (induction ws arbitrary: s parts)
  case (Cons w ws)
  have one: "exn_text e \<noteq> []" if "run_window out st cc clock w s = Inl (e, s1)" for s1
    using that assms(1) by (auto simp: run_window_def commit_window_def spoken_def exn_of_def split: option.splits sum.splits)
  show ?case
  proof (cases "run_window out st cc clock w s")
    case (Inl es)
    then show ?thesis using Cons.prems one by (cases es) auto
  next
    case (Inr ps)
    then show ?thesis using Cons.IH Cons.prems by (cases ps) (auto split: prod.splits)
  qed
qed simp

lemma finalize_run_effect:
  assumes "spoken out" and "run = ((lo, hi), rows)"
  shows "\<exists>rep' s' g. finalize_run out st cc clock run (Inr (rep, s)) = Inr (rep', s')
     \<and> queue s' = map (\<lambda>q. if q_id q \<in> set (map q_id rows) then g q else q) (queue s)
     \<and> (\<forall>q. decided st clock q (g q)) \<and> onward c s s'"
proof -
  obtain parts failure s1 where w: "run_windows out st cc clock (split_run lo hi (max_window_seconds (cfg st))) s = (parts, (failure, s1))"
    by (metis prod_cases3)
  note frame = run_windows_frame [OF w, of c]
  define problem where "problem = (case failure of Some e \<Rightarrow> Some e | None \<Rightarrow> o_fault out (At_consume (map q_id rows)))"
  show ?thesis
  proof (cases problem)
    case None
    then show ?thesis using frame w
      by (auto simp: finalize_run_def assms(2) Let_def problem_def [symmetric] update_tickets_def get_checkpoint_def onward_def decided_def
          intro!: exI [of _ "consume_ticket clock"])
  next
    case (Some e)
    have "exn_text e \<noteq> []"
      using Some run_windows_spoken [OF assms(1)] w assms(1) by (auto simp: problem_def spoken_def split: option.splits)
    then obtain err where err: "error_text e = Some err" using error_text_some by blast
    have "decided st clock q (fail_ticket st clock err (is_transient e) (retry_delay out st rows) q)" for q
      by (auto simp: decided_def)
    then show ?thesis using frame w Some err
      by (auto simp: finalize_run_def assms(2) Let_def problem_def [symmetric] fail_run_def update_tickets_def get_checkpoint_def onward_def
          intro!: exI [of _ "fail_ticket st clock err (is_transient e) (retry_delay out st rows)"])
  qed
qed

lemma finalize_runs_effect:
  assumes "spoken out" and "distinct (map q_id (concat (map snd runs)))"
  shows "\<exists>rep' s' f. fold (finalize_run out st cc clock) runs (Inr (rep, s)) = Inr (rep', s') \<and> queue s' = map f (queue s)
     \<and> (\<forall>q. if q_id q \<in> set (map q_id (concat (map snd runs))) then decided st clock q (f q) else f q = q)
     \<and> onward c s s'"
  using assms(2)
proof (induction runs arbitrary: rep s)
  case Nil
  show ?case by (auto intro!: exI [of _ id])
next
  case (Cons run runs)
  obtain lo hi rows where run: "run = ((lo, hi), rows)" by (metis prod.exhaust)
  obtain rep1 s1 g where step: "finalize_run out st cc clock run (Inr (rep, s)) = Inr (rep1, s1)"
    and q1: "queue s1 = map (\<lambda>q. if q_id q \<in> set (map q_id rows) then g q else q) (queue s)"
    and g: "\<forall>q. decided st clock q (g q)" and c1: "onward c s s1"
    using finalize_run_effect [OF assms(1) run] by blast
  have "distinct (map q_id (concat (map snd runs)))" using Cons.prems by simp
  from Cons.IH [OF this, of rep1 s1] obtain rep' s' f where rest: "fold (finalize_run out st cc clock) runs (Inr (rep1, s1)) = Inr (rep', s')"
    and q2: "queue s' = map f (queue s1)"
    and f: "\<forall>q. if q_id q \<in> set (map q_id (concat (map snd runs))) then decided st clock q (f q) else f q = q"
    and c2: "onward c s1 s'" by blast
  have id_g: "q_id (g q) = q_id q" for q
    using g by (auto simp: decided_def consume_ticket_def dest!: spec [of _ q])
  have apart: "set (map q_id rows) \<inter> set (map q_id (concat (map snd runs))) = {}" using Cons.prems run by auto
  define h where "h q = f (if q_id q \<in> set (map q_id rows) then g q else q)" for q
  have "if q_id q \<in> set (map q_id (concat (map snd (run # runs)))) then decided st clock q (h q) else h q = q" for q
  proof (cases "q_id q \<in> set (map q_id rows)")
    case True
    then have "q_id (g q) \<notin> set (map q_id (concat (map snd runs)))" using apart id_g by auto
    then have "h q = g q" using True f by (simp add: h_def)
    then show ?thesis using True g run by auto
  next
    case False
    then show ?thesis using f run by (auto simp: h_def)
  qed
  moreover have "queue s' = map h (queue s)" by (simp add: q2 q1 h_def)
  moreover have "fold (finalize_run out st cc clock) (run # runs) (Inr (rep, s)) = Inr (rep', s')" using step rest by simp
  ultimately show ?case using onward_trans [OF c1 c2] by blast
qed

lemma finalize_effect:
  assumes "spoken out" and "distinct (map q_id (queue s))"
  shows "\<exists>rep s' f. finalize_pending out st cc clock s = Inr (rep, s') \<and> queue s' = map f (queue s)
     \<and> (\<forall>q \<in> set (queue s). if due cc clock q then decided st clock q (f q) else f q = q)
     \<and> onward c s s'"
proof -
  define pend where "pend = sort_key q_start (filter (due cc clock) (queue s))"
  define runs where "runs = coalesce_pending q_start q_end (2 * regroup_pad (cfg st)) pend"
  have m: "mset (concat (map snd runs)) = mset (filter (due cc clock) (queue s))"
    using coalesced_runs [of q_start q_end "2 * regroup_pad (cfg st)" pend] by (simp add: runs_def pend_def)
  then have set_runs: "set (concat (map snd runs)) = {q \<in> set (queue s). due cc clock q}"
    by (metis set_filter set_mset_mset)
  have "mset (map q_id (concat (map snd runs))) = mset (map q_id (filter (due cc clock) (queue s)))" using m by (simp add: mset_map)
  moreover have "distinct (map q_id (filter (due cc clock) (queue s)))" by (rule distinct_map_filter [OF assms(2)])
  ultimately have "distinct (map q_id (concat (map snd runs)))" by (metis mset_eq_imp_distinct_iff)
  from finalize_runs_effect [OF assms(1) this, of st cc clock no_report s c] obtain rep s' f
    where run: "fold (finalize_run out st cc clock) runs (Inr (no_report, s)) = Inr (rep, s')" and q: "queue s' = map f (queue s)"
      and f: "\<forall>q. if q_id q \<in> set (map q_id (concat (map snd runs))) then decided st clock q (f q) else f q = q"
      and c: "onward c s s'" by blast
  have inj: "inj_on q_id (set (queue s))" using assms(2) by (simp add: distinct_map)
  have "q_id q \<in> set (map q_id (concat (map snd runs))) \<longleftrightarrow> due cc clock q" if "q \<in> set (queue s)" for q
  proof -
    have "q_id q \<in> set (map q_id (concat (map snd runs))) \<longleftrightarrow> (\<exists>p \<in> set (queue s). due cc clock p \<and> q_id p = q_id q)"
      unfolding set_map set_runs by (auto intro: rev_image_eqI)
    then show ?thesis using inj_onD [OF inj _ _ that] that by auto
  qed
  then have "\<forall>q \<in> set (queue s). if due cc clock q then decided st clock q (f q) else f q = q" using f by auto
  then show ?thesis using run q c by (auto simp: finalize_pending_def Let_def pend_def [symmetric] runs_def [symmetric])
qed


definition sample_outside :: outside where
  "sample_outside = \<lparr>o_env = sample_env, o_fault = (\<lambda>w. Some (Exn [''OSError''] ''boom'' None None None)),
     o_message = (\<lambda>e. ''refused''), o_jitter = (\<lambda>ids. 0)\<rparr>"

definition sample_ticket :: regroup_ticket where
  "sample_ticket = \<lparr>q_id = 5, q_customer = ''BID'', q_start = 0, q_end = seconds 60, q_consumed = None, q_abandoned = None,
     q_available = 0, q_attempts = 2, q_error = None, q_last_attempt = None\<rparr>"

definition ticket_store :: store where
  "ticket_store = empty_store\<lparr>queue := [sample_ticket, sample_ticket\<lparr>q_id := 6, q_customer := ''OTH''\<rparr>]\<rparr>"

lemma sample_spoken: "spoken sample_outside"
  by (simp add: spoken_def sample_outside_def)


subsection \<open>The queue as a state machine\<close>

text \<open>Stage 1 enqueues fresh tickets, passes run at any time with any faults, operators re-arm abandoned tickets.\<close>

inductive queue_step :: "settings \<Rightarrow> regroup_ticket list \<Rightarrow> regroup_ticket list \<Rightarrow> bool" for st where
  enqueue: "q_attempts q = 0 \<Longrightarrow> q_consumed q = None \<Longrightarrow> q_abandoned q = None \<Longrightarrow> q_id q \<notin> q_id ` set qs
            \<Longrightarrow> queue_step st qs (qs @ [q])"
| a_pass: "spoken out \<Longrightarrow> queue s = qs \<Longrightarrow> finalize_pending out st cc clock s = Inr (rep, s') \<Longrightarrow> queue_step st qs (queue s')"
| rearm: "queue s = qs \<Longrightarrow> queue_step st qs (queue (snd (reset_abandoned_windows cc s)))"

inductive queue_reach :: "settings \<Rightarrow> regroup_ticket list \<Rightarrow> bool" for st where
  start: "queue_reach st []"
| step: "queue_reach st qs \<Longrightarrow> queue_step st qs qs' \<Longrightarrow> queue_reach st qs'"

definition ticket_ok :: "settings \<Rightarrow> regroup_ticket \<Rightarrow> bool" where
  "ticket_ok st q \<longleftrightarrow> (q_consumed q = None \<and> q_abandoned q = None \<longrightarrow> q_attempts q < max_attempts (cfg st))
     \<and> (q_abandoned q \<noteq> None \<longrightarrow> q_error q \<noteq> None)"

definition queue_ok :: "settings \<Rightarrow> regroup_ticket list \<Rightarrow> bool" where
  "queue_ok st qs \<longleftrightarrow> distinct (map q_id qs) \<and> (\<forall>q \<in> set qs. ticket_ok st q)"

lemma decided_ok:
  assumes "decided st clock q q'" and "due cc clock q" and "ticket_ok st q"
  shows "ticket_ok st q' \<and> q_id q' = q_id q"
  using assms by (auto simp: decided_def due_def ticket_ok_def consume_ticket_def not_le split: if_splits)

lemma queue_step_ok:
  assumes "queue_step st qs qs'" and "queue_ok st qs" and "0 < max_attempts (cfg st)"
  shows "queue_ok st qs'"
  using assms(1)
proof cases
  case (enqueue q)
  then show ?thesis using assms(2,3) by (auto simp: queue_ok_def ticket_ok_def)
next
  case (a_pass out s cc clock rep s')
  have "distinct (map q_id (queue s))" using assms(2) a_pass by (simp add: queue_ok_def)
  from finalize_effect [OF a_pass(2) this, of st cc clock] a_pass(4) obtain f where q': "queue s' = map f (queue s)"
    and f: "\<forall>q \<in> set (queue s). if due cc clock q then decided st clock q (f q) else f q = q" by auto
  have each: "ticket_ok st (f q) \<and> q_id (f q) = q_id q" if "q \<in> set qs" for q
    using f that a_pass(3) assms(2) decided_ok [of st clock q "f q" cc] by (cases "due cc clock q") (auto simp: queue_ok_def)
  then have "map q_id (map f qs) = map q_id qs" by simp
  then show ?thesis using assms(2) each q' a_pass(1,3) by (simp add: queue_ok_def del: map_map) 
next
  case (rearm s cc)
  define f :: "regroup_ticket \<Rightarrow> regroup_ticket" where "f = (\<lambda>q. if q_customer q = cc \<and> q_abandoned q \<noteq> None \<and> q_consumed q = None
    then q\<lparr>q_abandoned := None, q_attempts := 0, q_error := None\<rparr> else q)"
  have qs': "qs' = map f qs" using rearm by (simp add: reset_abandoned_windows_def Let_def f_def)
  have "map q_id (map f qs) = map q_id qs" by (simp add: f_def)
  moreover have "ticket_ok st (f q)" if "q \<in> set qs" for q
    using that assms(2,3) by (auto simp: queue_ok_def ticket_ok_def f_def)
  ultimately show ?thesis using assms(2) by (simp add: queue_ok_def qs' del: map_map)
qed

text \<open>C22: a ticket is never retried for ever: in every state the queue can reach, whatever fails and however often,
  a ticket that is still open has fewer attempts than the limit, and an abandoned one carries its error.\<close>

theorem attempts_are_bounded:
  assumes "queue_reach st qs" and "0 < max_attempts (cfg st)" and "q \<in> set qs"
  shows "(q_consumed q = None \<and> q_abandoned q = None \<longrightarrow> q_attempts q < max_attempts (cfg st))
       \<and> (q_abandoned q \<noteq> None \<longrightarrow> q_error q \<noteq> None)"
proof -
  have "queue_ok st qs" using assms(1)
  proof induction
    case start
    then show ?case by (simp add: queue_ok_def)
  next
    case (step qs qs')
    then show ?case using assms(2) by (blast intro: queue_step_ok)
  qed
  then show ?thesis using assms(3) by (simp add: queue_ok_def ticket_ok_def)
qed

lemma attempts_are_bounded_witness:
  "\<exists>qs. queue_reach sample_settings qs \<and> sample_ticket\<lparr>q_attempts := 0\<rparr> \<in> set qs \<and> 0 < max_attempts (cfg sample_settings)"
proof -
  have r: "queue_reach sample_settings ([] @ [sample_ticket\<lparr>q_attempts := 0\<rparr>])"
    by (intro queue_reach.step [OF queue_reach.start] queue_step.enqueue) (simp_all add: sample_ticket_def)
  have "q_attempts (sample_ticket\<lparr>q_attempts := 0\<rparr>) < max_attempts (cfg sample_settings)"
    using attempts_are_bounded [OF r] by (simp add: sample_ticket_def sample_settings_def sample_config_def)
  with r show ?thesis by auto
qed

text \<open>the bookmark of a tenant only moves forward: a pass, whatever lanes its windows took and wherever it failed,
  leaves every tenant's stitch checkpoint where it was or later.\<close>

theorem checkpoint_never_moves_back:
  assumes "spoken out" and "distinct (map q_id (queue s))" and "finalize_pending out st cc clock s = Inr (rep, s')"
  shows "no_earlier (get_checkpoint s c) (get_checkpoint s' c)"
  using finalize_effect [OF assms(1,2), of st cc clock c] assms(3) by (auto simp: onward_def)

lemma checkpoint_never_moves_back_witness:
  "\<exists>rep s'. finalize_pending sample_outside sample_settings ''BID'' 9 (ticket_store\<lparr>checkpoints := [(''BID'', 70)]\<rparr>) = Inr (rep, s')
     \<and> no_earlier (Some 70) (get_checkpoint s' ''BID'')"
proof -
  let ?s = "ticket_store\<lparr>checkpoints := [(''BID'', 70)]\<rparr>"
  have d: "distinct (map q_id (queue ?s))" by (simp add: ticket_store_def sample_ticket_def)
  obtain rep s' where "finalize_pending sample_outside sample_settings ''BID'' 9 ?s = Inr (rep, s')"
    using finalize_effect [OF sample_spoken d, of sample_settings "''BID''" 9] by blast
  moreover from checkpoint_never_moves_back [OF sample_spoken d this, of "''BID''"] have "no_earlier (Some 70) (get_checkpoint s' ''BID'')"
    by (simp add: get_checkpoint_def)
  ultimately show ?thesis by blast
qed

text \<open>Re-arming does not clear the backoff gate: a ticket abandoned a moment ago stays out of the next pass.\<close>

lemma rearmed_ticket_still_waits:
  "reset_abandoned_windows ''BID'' (empty_store\<lparr>queue := [sample_ticket\<lparr>q_abandoned := Some 9, q_available := 99\<rparr>]\<rparr>)
     = (1, empty_store\<lparr>queue := [sample_ticket\<lparr>q_attempts := 0, q_available := 99\<rparr>]\<rparr>)
   \<and> \<not> due ''BID'' 10 (sample_ticket\<lparr>q_attempts := 0, q_available := 99\<rparr>)"
  by (simp add: reset_abandoned_windows_def empty_store_def sample_ticket_def due_def)

end
