(* ===== verification/Sealer.thy ===== *)
theory Sealer
  imports Regroup
begin

text \<open>
  \<open>sealer.py\<close>: sealing as an update of its own. \<open>seal_due\<close> is the SQL twin of \<open>is_sealed\<close>, bounded below by a
  horizon on the database clock. \<open>SELECT DISTINCT ... LIMIT\<close> has no order in the source; here the tenants come
  in the order of the table. A tenant whose update fails is left as it was (\<open>fault\<close>).
\<close>

record seal_settings =
  stage2 :: settings
  horizon_days :: int
  customers_per_tick :: nat

definition horizon_floor :: "seal_settings \<Rightarrow> instant \<Rightarrow> instant" where
  "horizon_floor ss db_clock = db_clock - seconds (86400 * horizon_days ss)"

definition ended_within :: "(instant \<Rightarrow> bool) \<Rightarrow> txn_row \<Rightarrow> bool" where
  "ended_within P r = (case v_ended (row_values r) of None \<Rightarrow> False | Some t \<Rightarrow> P t)"

definition due_to_seal :: "instant \<Rightarrow> instant \<Rightarrow> instant \<Rightarrow> txn_row \<Rightarrow> bool" where
  "due_to_seal seal abandon horizon r \<longleftrightarrow>
     \<not> row_sealed r
     \<and> ended_within (\<lambda>t. horizon \<le> t
          \<and> (v_status (row_values r) \<noteq> Incomplete \<and> t < seal \<or> v_status (row_values r) = Incomplete \<and> t < abandon)) r"

definition customers_needing_seal :: "seal_settings \<Rightarrow> instant \<Rightarrow> nat option \<Rightarrow> store \<Rightarrow> string list" where
  "customers_needing_seal ss db_clock limit s =
     (let cap = (case limit of Some n \<Rightarrow> n | None \<Rightarrow> customers_per_tick ss);
          horizon = horizon_floor ss db_clock; ceiling = db_clock - seconds (seal_window (cfg (stage2 ss)))
      in take cap (remdups (map row_customer
           (filter (\<lambda>r. \<not> row_sealed r \<and> ended_within (\<lambda>t. horizon \<le> t \<and> t < ceiling) r) (txns s)))))"

definition seal_rows :: "(txn_row \<Rightarrow> bool) \<Rightarrow> instant \<Rightarrow> store \<Rightarrow> store" where
  "seal_rows P db_clock s = s\<lparr>txns := map (\<lambda>r. if P r then r\<lparr>row_sealed := True, row_updated := db_clock\<rparr> else r) (txns s)\<rparr>"

definition seal_customer :: "seal_settings \<Rightarrow> instant \<Rightarrow> instant \<Rightarrow> string \<Rightarrow> store \<Rightarrow> nat \<times> store" where
  "seal_customer ss clock db_clock cc s =
     (case tenant_cutoffs (stage2 ss) clock s cc of
        (Some seal, Some abandon) \<Rightarrow>
          (let P = (\<lambda>r. row_customer r = cc \<and> due_to_seal seal abandon (horizon_floor ss db_clock) r)
           in (length (filter P (txns s)), seal_rows P db_clock s))
      | _ \<Rightarrow> (0, s))"

record seal_report =
  sl_customers :: nat
  sl_sealed :: nat
  sl_failed :: nat

definition seal_one ::
    "seal_settings \<Rightarrow> instant \<Rightarrow> instant \<Rightarrow> (string \<Rightarrow> bool) \<Rightarrow> string \<Rightarrow> seal_report \<times> store \<Rightarrow> seal_report \<times> store" where
  "seal_one ss clock db_clock fault cc acc =
     (case acc of (rep, s) \<Rightarrow>
        (if fault cc then (rep\<lparr>sl_failed := Suc (sl_failed rep)\<rparr>, s)
         else (case seal_customer ss clock db_clock cc s of
                 (n, s') \<Rightarrow> (rep\<lparr>sl_customers := Suc (sl_customers rep), sl_sealed := sl_sealed rep + n\<rparr>, s'))))"

definition seal_due ::
    "seal_settings \<Rightarrow> instant \<Rightarrow> instant \<Rightarrow> (string \<Rightarrow> bool) \<Rightarrow> nat option \<Rightarrow> store \<Rightarrow> seal_report \<times> store" where
  "seal_due ss clock db_clock fault limit s =
     fold (seal_one ss clock db_clock fault) (customers_needing_seal ss db_clock limit s)
       (\<lparr>sl_customers = 0, sl_sealed = 0, sl_failed = 0\<rparr>, s)"

definition overdue_count :: "seal_settings \<Rightarrow> instant \<Rightarrow> store \<Rightarrow> nat" where
  "overdue_count ss db_clock s =
     (let horizon = horizon_floor ss db_clock; ceiling = db_clock - seconds (abandon_window (cfg (stage2 ss)))
      in length (filter (\<lambda>r. \<not> row_sealed r \<and> ended_within (\<lambda>t. horizon \<le> t \<and> t < ceiling) r) (txns s)))"

subsection \<open>The twin agrees, and a second pass does nothing\<close>

definition seals_now :: "seal_settings \<Rightarrow> instant \<Rightarrow> instant \<Rightarrow> string \<Rightarrow> store \<Rightarrow> txn_row \<Rightarrow> bool" where
  "seals_now ss clock db_clock cc s r \<longleftrightarrow>
     row_customer r = cc \<and> \<not> row_sealed r \<and> ended_within (\<lambda>t. horizon_floor ss db_clock \<le> t) r
     \<and> is_sealed (row_values r) (fst (tenant_cutoffs (stage2 ss) clock s cc)) (snd (tenant_cutoffs (stage2 ss) clock s cc))"

lemma cutoffs_together: "fst (cutoffs a b m) = None \<longleftrightarrow> snd (cutoffs a b m) = None"
  by (simp add: cutoffs_def split: option.splits)

lemma due_is_sealed:
  "due_to_seal seal abandon horizon r \<longleftrightarrow>
     \<not> row_sealed r \<and> ended_within (\<lambda>t. horizon \<le> t) r \<and> is_sealed (row_values r) (Some seal) (Some abandon)"
  by (auto simp: due_to_seal_def ended_within_def is_sealed_def split: option.splits)

lemma seal_customer_rows:
  "snd (seal_customer ss clock db_clock cc s) = seal_rows (seals_now ss clock db_clock cc s) db_clock s
   \<and> fst (seal_customer ss clock db_clock cc s) = length (filter (seals_now ss clock db_clock cc s) (txns s))"
proof (cases "fst (tenant_cutoffs (stage2 ss) clock s cc)")
  case None
  then have "seals_now ss clock db_clock cc s r = False" for r
    by (simp add: seals_now_def is_sealed_def split: option.splits)
  moreover have "tenant_cutoffs (stage2 ss) clock s cc = (None, None)"
    using None cutoffs_together by (metis tenant_cutoffs_def prod.collapse)
  ultimately show ?thesis by (simp add: seal_customer_def seal_rows_def)
next
  case (Some seal)
  then obtain abandon where c: "tenant_cutoffs (stage2 ss) clock s cc = (Some seal, Some abandon)"
    using cutoffs_together by (metis tenant_cutoffs_def prod.collapse option.exhaust)
  then have "seals_now ss clock db_clock cc s = (\<lambda>r. row_customer r = cc \<and> due_to_seal seal abandon (horizon_floor ss db_clock) r)"
    by (auto simp: seals_now_def due_is_sealed)
  then show ?thesis by (simp add: seal_customer_def c Let_def)
qed

lemma row_simps [simp]: "row_customer (r\<lparr>row_sealed := b, row_updated := t\<rparr>) = row_customer r"
  by (simp add: row_customer_def)

lemma max_entry_seal_rows [simp]: "tenant_cutoffs st clock (seal_rows P db_clock s) cc = tenant_cutoffs st clock s cc"
proof -
  have "log_entries (seal_rows P db_clock s) = log_entries s" by (simp add: seal_rows_def)
  then show ?thesis by (simp only: tenant_cutoffs_def max_entry_ts_def recent_max_ts_def)
qed

lemma seals_now_rows: "seals_now ss clock db_clock cc (seal_rows P db_clock s) = seals_now ss clock db_clock cc s"
  by (intro ext) (simp only: seals_now_def max_entry_seal_rows)

text \<open>C14: the SQL of the sealer is the rebuild's own rule: it seals exactly the tenant's unsealed rows inside the
  horizon that is_sealed seals at the tenant's cutoffs, changes nothing else of any row or table, counts them,
  and a second pass at the same instant finds nothing to do.\<close>

theorem sealer_applies_the_rebuild_rule:
  "seal_customer ss clock db_clock cc s
     = (length (filter (seals_now ss clock db_clock cc s) (txns s)),
        s\<lparr>txns := map (\<lambda>r. if seals_now ss clock db_clock cc s r then r\<lparr>row_sealed := True, row_updated := db_clock\<rparr> else r) (txns s)\<rparr>)
   \<and> seal_customer ss clock db_clock cc (snd (seal_customer ss clock db_clock cc s)) = (0, snd (seal_customer ss clock db_clock cc s))"
proof
  show first: "seal_customer ss clock db_clock cc s
     = (length (filter (seals_now ss clock db_clock cc s) (txns s)),
        s\<lparr>txns := map (\<lambda>r. if seals_now ss clock db_clock cc s r then r\<lparr>row_sealed := True, row_updated := db_clock\<rparr> else r) (txns s)\<rparr>)"
    using seal_customer_rows [of ss clock db_clock cc s] by (metis prod.collapse seal_rows_def)
  define t where "t = seal_rows (seals_now ss clock db_clock cc s) db_clock s"
  have "\<not> seals_now ss clock db_clock cc t r" if "r \<in> set (txns t)" for r
  proof -
    have "txns t = map (\<lambda>r. if seals_now ss clock db_clock cc s r then r\<lparr>row_sealed := True, row_updated := db_clock\<rparr> else r) (txns s)"
      by (simp add: t_def seal_rows_def)
    then have "r \<in> (\<lambda>r. if seals_now ss clock db_clock cc s r then r\<lparr>row_sealed := True, row_updated := db_clock\<rparr> else r) ` set (txns s)"
      using that by (simp only: set_map)
    then obtain r0 where "r = (if seals_now ss clock db_clock cc s r0 then r0\<lparr>row_sealed := True, row_updated := db_clock\<rparr> else r0)"
      by (rule imageE)
    then show ?thesis unfolding t_def seals_now_rows
      by (cases "seals_now ss clock db_clock cc s r0") (simp, simp add: seals_now_def, simp)
  qed
  then have "filter (seals_now ss clock db_clock cc t) (txns t) = []"
    and "seal_rows (seals_now ss clock db_clock cc t) db_clock t = t"
  proof -
    assume none: "\<And>r. r \<in> set (txns t) \<Longrightarrow> \<not> seals_now ss clock db_clock cc t r"
    then show "filter (seals_now ss clock db_clock cc t) (txns t) = []" by (simp add: filter_empty_conv)
    have "map (\<lambda>r. if seals_now ss clock db_clock cc t r then r\<lparr>row_sealed := True, row_updated := db_clock\<rparr> else r) (txns t) = txns t"
      by (rule map_idI) (simp add: none)
    then show "seal_rows (seals_now ss clock db_clock cc t) db_clock t = t" by (simp add: seal_rows_def)
  qed
  then have "seal_customer ss clock db_clock cc t = (0, t)"
    using seal_customer_rows [of ss clock db_clock cc t] by (metis list.size(3) prod.collapse)
  then show "seal_customer ss clock db_clock cc (snd (seal_customer ss clock db_clock cc s)) = (0, snd (seal_customer ss clock db_clock cc s))"
    using seal_customer_rows [of ss clock db_clock cc s] by (simp add: t_def)
qed

subsection \<open>A pass can starve\<close>

text \<open>Two tenants and room for one per tick. The first has been silent: its last transaction is older than the seal
  window on the database clock but will never pass the cutoff of its own log clock. The second has a row that is due.\<close>

definition ended_row :: "uuid \<Rightarrow> string \<Rightarrow> instant \<Rightarrow> txn_row" where
  "ended_row i cc t = \<lparr>row_id = i, row_values = \<lparr>v_job = 1, v_started = Some t, v_ended = Some t, v_date = None, v_duration = None,
     v_status = Success, v_entry_count = 1, v_mi_count = 0, v_attributes = [], v_text = [(''customer_code'', Some cc)]\<rparr>,
     row_sealed = False, row_created = 0, row_updated = 0, row_fp = None, row_members_fp = None\<rparr>"

definition line_at :: "uuid \<Rightarrow> string \<Rightarrow> instant \<Rightarrow> log_entry" where
  "line_at i cc t = \<lparr>entry_id = i, job_id = 1, customer_code = cc, entry_hash = None, source_file = ''f'', line_number = None,
     timestamp = Some t, level = None, thread = None, user_ctx = None, entry_type = Info, result_status = None,
     message = None, entry_fields = []\<rparr>"

definition starved_settings :: seal_settings where
  "starved_settings = \<lparr>stage2 = \<lparr>cfg = \<lparr>open_gap = seconds 300, seal_window = 900, abandon_window = 3600, regroup_pad_seconds = 900,
       max_window_seconds = 21600, max_attempts = 3, backoff_base = 30, backoff_cap = 1800\<rparr>,
     cross_pad_mode = [], fingerprint_skip = True, stream_lookup = [], head_lane_mode = [], cutoff_lookback_days = 7\<rparr>,
     horizon_days = 60, customers_per_tick = 1\<rparr>"

definition starved_store :: store where
  "starved_store = empty_store\<lparr>log_entries := [line_at 1 ''OLD'' 0, line_at 2 ''NEW'' (seconds 86000)],
     txns := [ended_row 1 ''OLD'' 0, ended_row 2 ''NEW'' (seconds 80000)]\<rparr>"

lemma silent_tenant_starves_the_other:
  "seal_due starved_settings (seconds 86400) (seconds 86400) (\<lambda>cc. False) None starved_store
     = (\<lparr>sl_customers = 1, sl_sealed = 0, sl_failed = 0\<rparr>, starved_store)
   \<and> list_ex (seals_now starved_settings (seconds 86400) (seconds 86400) ''NEW'' starved_store) (txns starved_store)"
  by code_simp

end
