(* ===== verification/Worker.thy ===== *)
theory Worker
  imports FinalizeProperties Sealer
begin

text \<open>
  The stitch worker (\<open>workers/log_stitch_worker.py\<close>) and the maintenance flag it honours
  (\<open>pipeline/maintenance.py\<close>): one tick seals, reaps stored streams and drains the queue tenant by tenant.
  \<open>SELECT DISTINCT ... LIMIT\<close> has no order in the source; here tenants come in the order of the table. An
  exception of the sealer, of the reaper or of the query for tenants is a parameter of a tick.
\<close>

subsection \<open>Maintenance\<close>

definition is_running_full :: "regroup_run \<Rightarrow> bool" where
  "is_running_full r \<longleftrightarrow> rr_kind r = ''full'' \<and> rr_status r = Running"

definition fresh_full_runs :: "int \<Rightarrow> instant \<Rightarrow> regroup_run list \<Rightarrow> string list" where
  "fresh_full_runs ttl db_clock runs =
     map rr_customer (filter (\<lambda>r. is_running_full r \<and> db_clock - seconds ttl < rr_created r) runs)"

definition not_under_maintenance :: "int \<Rightarrow> instant \<Rightarrow> regroup_run list \<Rightarrow> string \<Rightarrow> bool" where
  "not_under_maintenance ttl db_clock runs cc \<longleftrightarrow> cc \<notin> set (fresh_full_runs ttl db_clock runs)"

text \<open>The runs alarmed now, and the memory of the process afterwards.\<close>

definition alarm_one :: "regroup_run \<Rightarrow> uuid list \<times> uuid list \<Rightarrow> uuid list \<times> uuid list" where
  "alarm_one r acc =
     (case acc of (alarms, alarmed) \<Rightarrow> if rr_id r \<in> set alarmed then acc else (alarms @ [rr_id r], rr_id r # alarmed))"

definition alarm_on_stale :: "int \<Rightarrow> instant \<Rightarrow> regroup_run list \<Rightarrow> uuid list \<Rightarrow> uuid list \<times> uuid list" where
  "alarm_on_stale ttl db_clock runs alarmed =
     fold alarm_one (filter (\<lambda>r. is_running_full r \<and> rr_created r \<le> db_clock - seconds ttl) runs) ([], alarmed)"

subsection \<open>Draining\<close>

record worker_env =
  w_seal :: seal_settings
  w_full_ttl :: int
  w_stream_ttl :: duration
  w_outside :: outside
  w_seal_fault :: "string \<Rightarrow> bool"

record worker_state =
  ws_store :: store
  ws_runs :: "regroup_run list"
  ws_alarmed :: "uuid list"

definition open_and_due :: "instant \<Rightarrow> regroup_ticket \<Rightarrow> bool" where
  "open_and_due clock q \<longleftrightarrow> q_consumed q = None \<and> q_abandoned q = None \<and> q_available q \<le> clock"

definition customers_with_due_work ::
    "worker_env \<Rightarrow> nat option \<Rightarrow> instant \<Rightarrow> worker_state \<Rightarrow> string list \<times> uuid list \<times> worker_state" where
  "customers_with_due_work we limit clock w =
     (let cap = (case limit of Some n \<Rightarrow> n | None \<Rightarrow> customers_per_tick (w_seal we));
          (alarms, alarmed) = alarm_on_stale (w_full_ttl we) clock (ws_runs w) (ws_alarmed w)
      in (take cap (remdups (map q_customer
            (filter (\<lambda>q. open_and_due clock q \<and> not_under_maintenance (w_full_ttl we) clock (ws_runs w) (q_customer q))
              (queue (ws_store w))))),
          alarms, w\<lparr>ws_alarmed := alarmed\<rparr>))"

definition pending_backlog :: "store \<Rightarrow> nat" where
  "pending_backlog s = length (filter (\<lambda>q. q_consumed q = None \<and> q_abandoned q = None) (queue s))"

record drain_stats =
  ds_customers :: nat
  ds_windows :: nat
  ds_consumed :: nat
  ds_abandoned :: nat
  ds_failed :: nat

definition merge_result :: "finalize_report \<Rightarrow> drain_stats \<Rightarrow> drain_stats" where
  "merge_result rep d =
     d\<lparr>ds_windows := ds_windows d + length (f_windows rep), ds_consumed := ds_consumed d + f_consumed rep,
       ds_abandoned := ds_abandoned d + f_abandoned rep\<rparr>"

definition drain_customer :: "worker_env \<Rightarrow> instant \<Rightarrow> string \<Rightarrow> drain_stats \<times> store \<Rightarrow> drain_stats \<times> store" where
  "drain_customer we clock cc acc =
     (case acc of (d, s) \<Rightarrow>
        (let d = d\<lparr>ds_customers := Suc (ds_customers d)\<rparr> in
         case finalize_pending (w_outside we) (stage2 (w_seal we)) cc clock s of
           Inr (rep, s') \<Rightarrow> (merge_result rep d, s')
         | Inl (e, s') \<Rightarrow> (d\<lparr>ds_failed := Suc (ds_failed d)\<rparr>, s')))"

definition no_drain :: drain_stats where
  "no_drain = \<lparr>ds_customers = 0, ds_windows = 0, ds_consumed = 0, ds_abandoned = 0, ds_failed = 0\<rparr>"

definition drain_once :: "worker_env \<Rightarrow> instant \<Rightarrow> worker_state \<Rightarrow> drain_stats \<times> worker_state" where
  "drain_once we clock w =
     (case customers_with_due_work we None clock w of (codes, alarms, w1) \<Rightarrow>
        (case fold (drain_customer we clock) codes (no_drain, ws_store w1) of (d, s) \<Rightarrow> (d, w1\<lparr>ws_store := s\<rparr>)))"

subsection \<open>One tick\<close>

datatype tick_fault = No_fault | Seal_fault | Reap_fault | Query_fault

definition seal_part :: "worker_env \<Rightarrow> tick_fault list \<Rightarrow> instant \<Rightarrow> store \<Rightarrow> store" where
  "seal_part we faults clock s =
     (if Seal_fault \<in> set faults then s else snd (seal_due (w_seal we) clock clock (w_seal_fault we) None s))"

definition reap_part :: "worker_env \<Rightarrow> tick_fault list \<Rightarrow> instant \<Rightarrow> store \<Rightarrow> store" where
  "reap_part we faults clock s = (if Reap_fault \<in> set faults then s else fst (reap clock (w_stream_ttl we) s))"

definition worker_tick :: "worker_env \<Rightarrow> tick_fault list \<Rightarrow> instant \<Rightarrow> worker_state \<Rightarrow> worker_state" where
  "worker_tick we faults clock w =
     (let w1 = w\<lparr>ws_store := reap_part we faults clock (seal_part we faults clock (ws_store w))\<rparr>
      in if Query_fault \<in> set faults then w1 else snd (drain_once we clock w1))"

subsection \<open>A drain, tenant by tenant\<close>

lemma due_open: "due cc clock q \<longleftrightarrow> q_customer q = cc \<and> open_and_due clock q"
  by (auto simp: due_def open_and_due_def)

lemma decided_customer: "decided st clock q q' \<Longrightarrow> q_customer q' = q_customer q \<and> q_id q' = q_id q"
  by (auto simp: decided_def consume_ticket_def fail_ticket_def Let_def)

lemma drain_customers_effect:
  assumes "spoken (w_outside we)" and "distinct (map q_id (queue s))" and "distinct codes"
  shows "\<exists>d' s' f. fold (drain_customer we clock) codes (d, s) = (d', s') \<and> ds_failed d' = ds_failed d
     \<and> queue s' = map f (queue s) \<and> onward c s s'
     \<and> (\<forall>q \<in> set (queue s). if open_and_due clock q \<and> q_customer q \<in> set codes
          then decided (stage2 (w_seal we)) clock q (f q) else f q = q)"
  using assms(2,3)
proof (induction codes arbitrary: d s)
  case Nil
  show ?case by (auto intro!: exI [of _ id])
next
  case (Cons cc codes)
  let ?st = "stage2 (w_seal we)"
  obtain rep s1 g where fin: "finalize_pending (w_outside we) ?st cc clock s = Inr (rep, s1)" and q1: "queue s1 = map g (queue s)"
    and g: "\<forall>q \<in> set (queue s). if due cc clock q then decided ?st clock q (g q) else g q = q" and c1: "onward c s s1"
    using finalize_effect [OF assms(1) Cons.prems(1), of ?st cc clock c] by blast
  have same: "q_id (g q) = q_id q \<and> q_customer (g q) = q_customer q" if "q \<in> set (queue s)" for q
    using g that decided_customer [of ?st clock q "g q"] by (cases "due cc clock q") auto
  then have "map q_id (queue s1) = map q_id (queue s)" by (simp add: q1)
  then have "distinct (map q_id (queue s1))" using Cons.prems(1) by simp
  from Cons.IH [OF this, of "merge_result rep (d\<lparr>ds_customers := Suc (ds_customers d)\<rparr>)"] Cons.prems(2)
  obtain d' s' f where rest: "fold (drain_customer we clock) codes (merge_result rep (d\<lparr>ds_customers := Suc (ds_customers d)\<rparr>), s1) = (d', s')"
    and d': "ds_failed d' = ds_failed d" and q2: "queue s' = map f (queue s1)" and c2: "onward c s1 s'"
    and f: "\<forall>q \<in> set (queue s1). if open_and_due clock q \<and> q_customer q \<in> set codes then decided ?st clock q (f q) else f q = q"
    by (auto simp: merge_result_def)
  have "if open_and_due clock q \<and> q_customer q \<in> set (cc # codes) then decided ?st clock q (f (g q)) else f (g q) = q"
    if q: "q \<in> set (queue s)" for q
  proof (cases "due cc clock q")
    case True
    then have dec: "decided ?st clock q (g q)" using g q by auto
    then have "q_customer (g q) \<notin> set codes" using True Cons.prems(2) decided_customer by (fastforce simp: due_open)
    moreover have "g q \<in> set (queue s1)" using q by (simp add: q1)
    ultimately have "f (g q) = g q" using f by auto
    then show ?thesis using True dec by (simp add: due_open)
  next
    case False
    then have "g q = q" using g q by auto
    moreover have "g q \<in> set (queue s1)" using q by (simp add: q1)
    ultimately show ?thesis using False f by (auto simp: due_open)
  qed
  moreover have "queue s' = map (\<lambda>q. f (g q)) (queue s)" by (simp add: q2 q1)
  moreover have "fold (drain_customer we clock) (cc # codes) (d, s) = (d', s')"
    using rest by (simp add: drain_customer_def fin)
  ultimately show ?case using d' onward_trans [OF c1 c2] by blast
qed

lemma drain_effect:
  assumes "spoken (w_outside we)" and "distinct (map q_id (queue (ws_store w)))"
  shows "\<exists>d w' f. drain_once we clock w = (d, w') \<and> ds_failed d = 0 \<and> ws_runs w' = ws_runs w
     \<and> queue (ws_store w') = map f (queue (ws_store w)) \<and> onward c (ws_store w) (ws_store w')
     \<and> (\<forall>q \<in> set (queue (ws_store w)). if open_and_due clock q \<and> q_customer q \<in> set (fst (customers_with_due_work we None clock w))
          then decided (stage2 (w_seal we)) clock q (f q) else f q = q)"
proof -
  obtain codes alarms w1 where c: "customers_with_due_work we None clock w = (codes, alarms, w1)" by (metis prod_cases3)
  then have d: "distinct codes" and w1: "ws_store w1 = ws_store w" "ws_runs w1 = ws_runs w"
    by (auto simp: customers_with_due_work_def Let_def distinct_take split: prod.splits)
  from drain_customers_effect [OF assms d, of clock no_drain c]
  obtain d' s' f where run: "fold (drain_customer we clock) codes (no_drain, ws_store w) = (d', s')" and dz: "ds_failed d' = ds_failed no_drain"
    and q: "queue s' = map f (queue (ws_store w))" and o: "onward c (ws_store w) s'"
    and f: "\<forall>q \<in> set (queue (ws_store w)). if open_and_due clock q \<and> q_customer q \<in> set codes
        then decided (stage2 (w_seal we)) clock q (f q) else f q = q" by blast
  have "drain_once we clock w = (d', w1\<lparr>ws_store := s'\<rparr>)" by (simp add: drain_once_def c w1 run)
  then show ?thesis using dz q o f w1 c by (auto simp: no_drain_def)
qed

end
