(* ===== verification/Parser.thy ===== *)
theory Parser
  imports TxnCompute "HOL-Library.Monad_Syntax"
begin

text \<open>
  The log parser: \<open>M3DotNetLogParser\<close> (\<open>parsers/m3_dotnet_parser.py\<close>), its output record
  (\<open>parsers/data_class/log_record.py\<close>) and \<open>get_log_parser\<close>. Each regular expression is a function that takes the
  text from the position of the match and returns the groups and the text that follows; in every one of them a
  greedy repetition is followed by a character it cannot itself match, so no backtracking can change the result,
  and the one lazy group (the user) is a search for its first end. Text is Latin-1. \<open>json.loads\<close> and the decoding
  of UTF-8 bytes are parameters; a bracketed host, on which \<open>urlsplit\<close> can raise, is not modelled.
\<close>

subsection \<open>Reading text\<close>

text \<open>\<open>str.splitlines()\<close>.\<close>

definition is_break :: "char \<Rightarrow> bool" where
  "is_break c \<longleftrightarrow> (of_char c :: int) \<in> {10, 11, 12, 13, 28, 29, 30, 133}"

fun after_break :: "string \<Rightarrow> string" where
  "after_break (c # d # s) = (if (of_char c :: int) = 13 \<and> (of_char d :: int) = 10 then s else d # s)"
| "after_break s = tl s"

function splitlines :: "string \<Rightarrow> string list" where
  "splitlines s =
     (if s = [] then []
      else takeWhile (\<lambda>c. \<not> is_break c) s # splitlines (after_break (dropWhile (\<lambda>c. \<not> is_break c) s)))"
  by pat_completeness auto

lemma after_break_length: "length (after_break s) \<le> length s - 1"
  by (cases s rule: after_break.cases) auto

termination splitlines
proof (relation "measure length", simp)
  fix s :: string
  assume "s \<noteq> []"
  have "length (after_break (dropWhile (\<lambda>c. \<not> is_break c) s)) \<le> length s - 1"
    using after_break_length [of "dropWhile (\<lambda>c. \<not> is_break c) s"] length_dropWhile_le [of "\<lambda>c. \<not> is_break c" s] by linarith
  with \<open>s \<noteq> []\<close> show "(after_break (dropWhile (\<lambda>c. \<not> is_break c) s), s) \<in> measure length"
    by (cases s) auto
qed

declare splitlines.simps [simp del]

text \<open>A fixed prefix, a token without white space, one or more white space characters.\<close>

definition lit :: "string \<Rightarrow> string \<Rightarrow> string option" where
  "lit p s = (if take (length p) s = p then Some (drop (length p) s) else None)"

definition skip_space :: "string \<Rightarrow> string" where
  "skip_space s = dropWhile is_space s"

definition token :: "string \<Rightarrow> (string \<times> string) option" where
  "token s = (let w = takeWhile (\<lambda>c. \<not> is_space c) s in if w = [] then None else Some (w, dropWhile (\<lambda>c. \<not> is_space c) s))"

definition spaces1 :: "string \<Rightarrow> string option" where
  "spaces1 s = (if s \<noteq> [] \<and> is_space (hd s) then Some (skip_space s) else None)"

text \<open>\<open>\\w\<close>: letters, digits and numerals of Latin-1, and the underscore.\<close>

definition is_word :: "char \<Rightarrow> bool" where
  "is_word c \<longleftrightarrow> (let n = of_char c :: int in 48 \<le> n \<and> n \<le> 57 \<or> 65 \<le> n \<and> n \<le> 90 \<or> n = 95 \<or> 97 \<le> n \<and> n \<le> 122
     \<or> n \<in> {170, 178, 179, 181, 185, 186, 188, 189, 190} \<or> 192 \<le> n \<and> n \<noteq> 215 \<and> n \<noteq> 247)"

text \<open>A shape of literal characters in which \<open>d\<close> stands for a digit.\<close>

fun has_shape :: "string \<Rightarrow> string \<Rightarrow> bool" where
  "has_shape [] s = True"
| "has_shape (p # ps) [] = False"
| "has_shape (p # ps) (c # s) = ((if p = CHR ''d'' then is_digit c else c = p) \<and> has_shape ps s)"

text \<open>\<open>re.search\<close>: the first position at which the expression matches.\<close>

fun re_search :: "(string \<Rightarrow> 'a option) \<Rightarrow> string \<Rightarrow> 'a option" where
  "re_search m [] = m []"
| "re_search m (c # s) = (case m (c # s) of Some r \<Rightarrow> Some r | None \<Rightarrow> re_search m s)"

fun starts_any :: "string list \<Rightarrow> string \<Rightarrow> bool" where
  "starts_any ps s = list_ex (\<lambda>p. take (length p) s = p) ps"

subsection \<open>Pass 1: entries\<close>

definition ts_start :: "string \<Rightarrow> bool" where
  "ts_start line = has_shape ''dddd-dd-dd dd:dd:dd,ddd '' line"

type_synonym raw_entry = "string \<times> string list \<times> nat"

fun split_step :: "nat \<times> string \<Rightarrow> raw_entry list \<times> raw_entry option \<Rightarrow> raw_entry list \<times> raw_entry option" where
  "split_step (idx, line) (found, cur) =
     (if ts_start line
      then (case cur of None \<Rightarrow> found | Some e \<Rightarrow> found @ [e], Some (line, [], idx))
      else (found, case cur of None \<Rightarrow> None | Some (header, body, start) \<Rightarrow> Some (header, body @ [line], start)))"

definition split_entries :: "string \<Rightarrow> raw_entry list" where
  "split_entries text =
     (case fold split_step (enumerate 1 (splitlines text)) ([], None) of
        (found, None) \<Rightarrow> found
      | (found, Some e) \<Rightarrow> found @ [e])"

subsection \<open>The record a parser returns\<close>

record log_record =
  lr_line :: nat
  lr_timestamp :: "instant option"
  lr_raw_timestamp :: "string option"
  lr_user :: "string option"
  lr_thread :: "string option"
  lr_level :: "string option"
  lr_logger :: "string option"
  lr_method :: "string option"
  lr_type :: string
  lr_reqid :: "string option"
  lr_program :: "string option"
  lr_transaction :: "string option"
  lr_status :: "string option"
  lr_count :: "nat option"
  lr_message :: string
  lr_raw :: string
  lr_fields :: "(string \<times> json) list"

definition bare_record :: "nat \<Rightarrow> string \<Rightarrow> string \<Rightarrow> log_record" where
  "bare_record line msg raw =
     \<lparr>lr_line = line, lr_timestamp = None, lr_raw_timestamp = None, lr_user = None, lr_thread = None, lr_level = None,
      lr_logger = None, lr_method = None, lr_type = ''info'', lr_reqid = None, lr_program = None, lr_transaction = None,
      lr_status = None, lr_count = None, lr_message = msg, lr_raw = raw, lr_fields = []\<rparr>"

subsection \<open>The header line\<close>

record log_header =
  hd_ts :: string
  hd_user :: string
  hd_thread :: string
  hd_level :: string
  hd_rest :: string

text \<open>What follows the user: \<open>) [thread] LEVEL rest\<close>.\<close>

definition header_tail :: "string \<Rightarrow> (string \<times> string \<times> string) option" where
  "header_tail s = do {
     s \<leftarrow> lit '') ['' s;
     let th = before_first CHR '']'' s;
     s \<leftarrow> lit ''] '' (drop (length th) s);
     let lv = takeWhile is_word s;
     rest \<leftarrow> spaces1 (drop (length lv) s);
     if lv = [] then None else Some (th, lv, rest)
   }"

fun find_user :: "string \<Rightarrow> (string \<times> string \<times> string \<times> string) option" where
  "find_user [] = None"
| "find_user (c # s) =
     (case header_tail (c # s) of
        Some r \<Rightarrow> Some ([], r)
      | None \<Rightarrow> map_option (\<lambda>(user, r). (c # user, r)) (find_user s))"

definition match_header :: "string \<Rightarrow> log_header option" where
  "match_header line =
     (if has_shape ''dddd-dd-dd dd:dd:dd,ddd ('' line
      then map_option (\<lambda>(user, th, lv, rest).
             \<lparr>hd_ts = take 23 line, hd_user = user, hd_thread = th, hd_level = lv, hd_rest = rest\<rparr>)
             (find_user (drop 25 line))
      else None)"

text \<open>\<open>logger method - message\<close>.\<close>

definition match_rest :: "string \<Rightarrow> (string \<times> string \<times> string) option" where
  "match_rest s = do {
     (logger, s) \<leftarrow> token s;
     s \<leftarrow> lit '' '' s;
     (method, s) \<leftarrow> token s;
     msg \<leftarrow> lit '' - '' s;
     Some (logger, method, msg)
   }"

definition normalise_user :: "string \<Rightarrow> string option" where
  "normalise_user raw =
     (let v = strip raw;
          v = (if v \<noteq> [] \<and> hd v = CHR ''('' \<and> List.last v = CHR '')'' then strip (butlast (tl v)) else v)
      in if lower v \<in> {'''', ''(null)'', ''null''} then None else Some v)"

text \<open>\<open>datetime.strptime\<close>: the proleptic calendar, counted in days from 1970-01-01.\<close>

definition is_leap :: "int \<Rightarrow> bool" where
  "is_leap y \<longleftrightarrow> y mod 4 = 0 \<and> (y mod 100 \<noteq> 0 \<or> y mod 400 = 0)"

definition month_days :: "int \<Rightarrow> int list" where
  "month_days y = [31, if is_leap y then 29 else 28, 31, 30, 31, 30, 31, 31, 30, 31, 30, 31]"

definition days_from_civil :: "int \<Rightarrow> nat \<Rightarrow> int \<Rightarrow> int" where
  "days_from_civil y m d =
     (y - 1) * 365 + (y - 1) div 4 - (y - 1) div 100 + (y - 1) div 400 + sum_list (take (m - 1) (month_days y)) + d - 719163"

definition digits_nat :: "string \<Rightarrow> nat" where
  "digits_nat s = foldl (\<lambda>n c. 10 * n + nat (of_char c - 48)) 0 s"

definition parse_ts :: "string \<Rightarrow> instant option" where
  "parse_ts ts =
     (let part = (\<lambda>i n. digits_nat (take n (drop i ts)));
          y = int (part 0 4); mo = part 5 2; d = int (part 8 2); h = int (part 11 2); mi = int (part 14 2); sec = int (part 17 2)
      in if 1 \<le> y \<and> 1 \<le> mo \<and> mo \<le> 12 \<and> 1 \<le> d \<and> d \<le> month_days y ! (mo - 1) \<and> h \<le> 23 \<and> mi \<le> 59 \<and> sec \<le> 59
         then Some (seconds (days_from_civil y mo d * 86400 + h * 3600 + mi * 60 + sec) + 1000 * int (part 20 3))
         else None)"

subsection \<open>Query strings and JSON blobs\<close>

record codecs =
  json_loads :: "string \<Rightarrow> json option"
  utf8_text :: "string \<Rightarrow> string"

fun split_on :: "char \<Rightarrow> string \<Rightarrow> string list" where
  "split_on c [] = [[]]"
| "split_on c (x # s) = (let r = split_on c s in if x = c then [] # r else (x # hd r) # tl r)"

definition hex_value :: "char \<Rightarrow> int option" where
  "hex_value c = (let n = of_char c :: int in
     if 48 \<le> n \<and> n \<le> 57 then Some (n - 48) else if 65 \<le> n \<and> n \<le> 70 then Some (n - 55)
     else if 97 \<le> n \<and> n \<le> 102 then Some (n - 87) else None)"

text \<open>\<open>unquote_to_bytes\<close>, bytes as characters.\<close>

fun unquote_bytes :: "string \<Rightarrow> string" where
  "unquote_bytes (c # a # b # s) =
     (case (hex_value a, hex_value b) of
        (Some x, Some y) \<Rightarrow> if c = CHR ''%'' then char_of (16 * x + y) # unquote_bytes s else c # unquote_bytes (a # b # s)
      | _ \<Rightarrow> c # unquote_bytes (a # b # s))"
| "unquote_bytes s = s"

definition is_ascii :: "char \<Rightarrow> bool" where
  "is_ascii c \<longleftrightarrow> (of_char c :: int) < 128"

function decode_runs :: "(string \<Rightarrow> string) \<Rightarrow> string \<Rightarrow> string" where
  "decode_runs dec [] = []"
| "decode_runs dec (c # s) =
     (if is_ascii c then dec (unquote_bytes (takeWhile is_ascii (c # s))) @ decode_runs dec (dropWhile is_ascii s)
      else c # decode_runs dec s)"
  by pat_completeness auto
termination decode_runs
  by (relation "measure (length \<circ> snd)") (auto simp: le_imp_less_Suc length_dropWhile_le)

definition unquote :: "codecs \<Rightarrow> string \<Rightarrow> string" where
  "unquote cd s = (if CHR ''%'' \<in> set s then decode_runs (utf8_text cd) s else s)"

definition plus_to_space :: "string \<Rightarrow> string" where
  "plus_to_space s = map (\<lambda>c. if c = CHR ''+'' then CHR '' '' else c) s"

definition query_pair :: "codecs \<Rightarrow> string \<Rightarrow> string \<times> string" where
  "query_pair cd nv =
     (let name = before_first CHR ''='' nv
      in (unquote cd (plus_to_space name), unquote cd (plus_to_space (drop (Suc (length name)) nv))))"

text \<open>\<open>parse_qs(qs, keep_blank_values=True)\<close>.\<close>

definition parse_qs :: "codecs \<Rightarrow> string \<Rightarrow> (string \<times> string list) list" where
  "parse_qs cd qs =
     map (\<lambda>(k, ps). (k, map snd ps))
       (bucket fst (map (query_pair cd) (filter (\<lambda>nv. nv \<noteq> []) (if qs = [] then [] else split_on CHR ''&'' qs))))"

definition url_query :: "string \<Rightarrow> string" where
  "url_query raw =
     (let url = filter (\<lambda>c. (of_char c :: int) \<notin> {9, 10, 13}) (dropWhile (\<lambda>c. (of_char c :: int) \<le> 32) raw);
          rest = before_first CHR ''#'' (drop_netloc (snd (split_scheme url)))
      in drop (Suc (length (before_first CHR ''?'' rest))) rest)"

definition flat_qs :: "codecs \<Rightarrow> string \<Rightarrow> (string \<times> json) list" where
  "flat_qs cd url =
     (let qs = url_query url;
          qs = (if qs = [] \<and> CHR ''?'' \<in> set url then drop (Suc (length (before_first CHR ''?'' url))) url else qs)
      in map (\<lambda>(k, v). (k, if length v = 1 then JStr (hd v) else JList (map JStr v))) (parse_qs cd qs))"

definition extract_request :: "codecs \<Rightarrow> string \<Rightarrow> (string \<times> json) list" where
  "extract_request cd raw =
     (let params = flat_qs cd raw in (''url'', JStr raw) # (if params = [] then [] else [(''params'', JObj params)]))"

definition extract_json_blob :: "codecs \<Rightarrow> string \<Rightarrow> string option \<Rightarrow> (string \<times> json) list" where
  "extract_json_blob cd raw key =
     (let raw = strip raw in
      case json_loads cd raw of
        Some parsed \<Rightarrow> (case key of
            Some k \<Rightarrow> [(k, parsed)]
          | None \<Rightarrow> (if is_obj parsed then obj_of parsed else [(''value'', parsed)]))
      | None \<Rightarrow> [(case key of Some k \<Rightarrow> k | None \<Rightarrow> ''raw'', JStr raw)])"

subsection \<open>The bodies of M3 calls and results\<close>

text \<open>\<open>MI Program: P  Transaction: T\<close>.\<close>

definition mi_head :: "string \<Rightarrow> (string \<times> string \<times> string) option" where
  "mi_head s = do {
     s \<leftarrow> lit ''MI Program:'' s;
     (program, s) \<leftarrow> token (skip_space s);
     s \<leftarrow> spaces1 s;
     s \<leftarrow> lit ''Transaction:'' s;
     (transaction, s) \<leftarrow> token (skip_space s);
     Some (program, transaction, s)
   }"

definition mi_result_at :: "string \<Rightarrow> (string \<times> string \<times> string) option" where
  "mi_result_at s = do {
     (program, transaction, s) \<leftarrow> mi_head s;
     s \<leftarrow> spaces1 s;
     s \<leftarrow> lit ''Result:'' s;
     Some (program, transaction, skip_space s)
   }"

definition mi_call_at :: "string \<Rightarrow> (string \<times> string \<times> string option) option" where
  "mi_call_at s = do {
     (program, transaction, s) \<leftarrow> mi_head s;
     Some (program, transaction, do {
       s \<leftarrow> spaces1 s;
       s \<leftarrow> lit ''NumberOfRecs:'' s;
       (numrecs, s) \<leftarrow> token (skip_space s);
       Some numrecs
     })
   }"

fun find_line_value :: "string \<Rightarrow> string list \<Rightarrow> string option" where
  "find_line_value prefix [] = None"
| "find_line_value prefix (line # ls) =
     (case lit prefix (strip line) of Some v \<Rightarrow> Some (strip v) | None \<Rightarrow> find_line_value prefix ls)"

text \<open>\<open>KEY <separator> VALUE\<close> with a key of word characters.\<close>

definition match_pair :: "char \<Rightarrow> string \<Rightarrow> (string \<times> string) option" where
  "match_pair sep s =
     (let key = takeWhile is_word s in
      if key = [] then None
      else map_option (\<lambda>v. (key, strip (skip_space v))) (lit [sep] (skip_space (drop (length key) s))))"

fun block_pairs :: "string list \<Rightarrow> string list \<Rightarrow> (string \<times> json) list \<Rightarrow> (string \<times> json) list" where
  "block_pairs ends [] out = out"
| "block_pairs ends (line # ls) out =
     (let s = strip line in
      if starts_any ends s then out
      else block_pairs ends ls (case match_pair CHR '':'' s of Some (k, v) \<Rightarrow> AList.update k (JStr v) out | None \<Rightarrow> out))"

fun extract_block :: "string \<Rightarrow> string list \<Rightarrow> string list \<Rightarrow> (string \<times> json) list" where
  "extract_block start ends [] = []"
| "extract_block start ends (line # ls) =
     (if starts_any [start] (strip line) then block_pairs ends ls [] else extract_block start ends ls)"

definition output_names :: "string list \<Rightarrow> string list" where
  "output_names ls = takeWhile (\<lambda>s. s \<noteq> [] \<and> CHR '':'' \<notin> set s) (map strip ls)"

fun extract_output_names :: "string list \<Rightarrow> string list" where
  "extract_output_names [] = []"
| "extract_output_names (line # ls) =
     (if starts_any [''Outputs:''] (strip line) then output_names ls else extract_output_names ls)"

definition is_record_line :: "string \<Rightarrow> bool" where
  "is_record_line s = (case lit ''Record:'' s of None \<Rightarrow> False | Some t \<Rightarrow> skip_space t \<noteq> [] \<and> is_digit (hd (skip_space t)))"

fun record_step :: "string \<Rightarrow> (string \<times> json) list list \<times> (string \<times> json) list option
    \<Rightarrow> (string \<times> json) list list \<times> (string \<times> json) list option" where
  "record_step line (records, cur) =
     (let s = strip line in
      if is_record_line s then (case cur of None \<Rightarrow> records | Some r \<Rightarrow> records @ [r], Some [])
      else (records, case cur of
              None \<Rightarrow> None
            | Some r \<Rightarrow> Some (case match_pair CHR ''='' s of Some (k, v) \<Rightarrow> AList.update k (JStr v) r | None \<Rightarrow> r)))"

definition extract_records :: "string list \<Rightarrow> (string \<times> json) list list" where
  "extract_records ls =
     (case fold record_step ls ([], None) of
        (records, None) \<Rightarrow> records
      | (records, Some r) \<Rightarrow> records @ [r])"

definition extract_mi_call :: "codecs \<Rightarrow> string \<Rightarrow> log_record \<Rightarrow> log_record" where
  "extract_mi_call cd body r =
     (let cm = re_search mi_call_at body; ls = splitlines body;
          inputs = extract_block ''Inputs:'' [''Outputs:''] ls; outputs = extract_output_names ls;
          r = (case cm of None \<Rightarrow> r | Some (p, t, n) \<Rightarrow> r\<lparr>lr_program := Some p, lr_transaction := Some t\<rparr>)
      in r\<lparr>lr_fields :=
            (case cm of None \<Rightarrow> []
              | Some (p, t, n) \<Rightarrow> [(''program'', JStr p), (''transaction'', JStr t)]
                  @ (case n of None \<Rightarrow> [] | Some k \<Rightarrow> [(''number_of_recs'', JStr k)]))
            @ (case find_line_value ''URL:'' ls of
                 None \<Rightarrow> []
               | Some url \<Rightarrow> if url = [] then [] else [(''url'', JStr url), (''params'', JObj (flat_qs cd url))])
            @ (if inputs = [] then [] else [(''inputs'', JObj inputs)])
            @ (if outputs = [] then [] else [(''outputs'', JList (map JStr outputs))])\<rparr>)"

definition extract_mi_result :: "string \<Rightarrow> string \<Rightarrow> log_record \<Rightarrow> log_record" where
  "extract_mi_result msg body r =
     (let rm = re_search mi_result_at msg; records = extract_records (splitlines body);
          r = (case rm of None \<Rightarrow> r
               | Some (p, t, res) \<Rightarrow> r\<lparr>lr_program := Some p, lr_transaction := Some t, lr_status := Some (strip res)\<rparr>)
      in r\<lparr>lr_count := Some (length records), lr_fields :=
            (case rm of None \<Rightarrow> []
              | Some (p, t, res) \<Rightarrow> [(''program'', JStr p), (''transaction'', JStr t), (''result'', JStr (strip res))])
            @ (if records = [] then [] else [(''records'', JList (map JObj records))])\<rparr>)"

subsection \<open>Pass 2: classification\<close>

text \<open>\<open>(ReqID = <id>)\<close> and the text behind it.\<close>

definition reqid_mark :: "string \<Rightarrow> (string \<times> string) option" where
  "reqid_mark s = do {
     s \<leftarrow> lit ''(ReqID = '' s;
     let i = before_first CHR '')'' s;
     s \<leftarrow> lit '')'' (drop (length i) s);
     Some (i, s)
   }"

definition skip_lit :: "string \<Rightarrow> string \<Rightarrow> string" where
  "skip_lit p s = (case lit p s of Some t \<Rightarrow> t | None \<Rightarrow> s)"

definition bracket_tail :: "string \<Rightarrow> (string option \<times> string) option" where
  "bracket_tail s =
     (let (i, t) = (case lit '' '' s of
            None \<Rightarrow> (None, s)
          | Some t \<Rightarrow> (case reqid_mark t of None \<Rightarrow> (None, s) | Some (i, u) \<Rightarrow> (Some i, u)))
      in do {
        u \<leftarrow> lit '':'' (skip_space (skip_lit '' -'' t));
        Some (i, if u \<noteq> [] \<and> is_space (hd u) then tl u else u)
      })"

definition bracket_kinds :: "string list" where
  "bracket_kinds = [''REQUEST BODY'', ''REQUEST'', ''RESPONSE'']"

fun match_kinds :: "string list \<Rightarrow> string \<Rightarrow> (string \<times> string option \<times> string) option" where
  "match_kinds [] s = None"
| "match_kinds (k # ks) s =
     (case (case lit k s of None \<Rightarrow> None | Some t \<Rightarrow> bracket_tail t) of
        Some r \<Rightarrow> Some (k, r)
      | None \<Rightarrow> match_kinds ks s)"

definition match_bracket :: "string \<Rightarrow> (string \<times> string option \<times> string) option" where
  "match_bracket s = match_kinds bracket_kinds s"

definition match_mi_reqid :: "string \<Rightarrow> (string \<times> string) option" where
  "match_mi_reqid s = do {
     (i, s) \<leftarrow> reqid_mark s;
     Some (i, skip_space (case lit '':'' s of Some t \<Rightarrow> t | None \<Rightarrow> skip_lit '' -'' s))
   }"

text \<open>\<open>(id or "").strip() or None\<close>, and what a found id does to the record.\<close>

definition clean_id :: "string option \<Rightarrow> string option" where
  "clean_id i = none_if_empty (strip (text_of i))"

definition with_reqid :: "string option \<Rightarrow> log_record \<Rightarrow> log_record" where
  "with_reqid i r = (case i of None \<Rightarrow> r
     | Some v \<Rightarrow> r\<lparr>lr_fields := AList.update ''reqid'' (JStr v) (lr_fields r), lr_reqid := Some v\<rparr>)"

definition classify_bracket :: "codecs \<Rightarrow> string \<Rightarrow> string option \<Rightarrow> string \<Rightarrow> log_record \<Rightarrow> log_record" where
  "classify_bracket cd kind i tail r =
     (let rest = strip tail in
      with_reqid (clean_id i)
        (if kind = ''REQUEST BODY'' then
           r\<lparr>lr_type := ''request_body'', lr_fields := extract_json_blob cd rest None, lr_message := ''REQUEST BODY: '' @ rest\<rparr>
         else if kind = ''REQUEST'' then
           r\<lparr>lr_type := ''request'', lr_fields := extract_request cd rest, lr_message := ''REQUEST: '' @ rest\<rparr>
         else
           r\<lparr>lr_type := ''response'', lr_fields := extract_json_blob cd rest (Some ''response''),
             lr_message := ''RESPONSE: '' @ rest\<rparr>))"

definition classify_mi :: "codecs \<Rightarrow> string \<Rightarrow> string \<Rightarrow> string \<Rightarrow> log_record \<Rightarrow> log_record" where
  "classify_mi cd msg raw_msg body r =
     (let (i, text, r) = (case match_mi_reqid msg of
            Some (i, text) \<Rightarrow> (clean_id (Some i), text, r\<lparr>lr_message := text\<rparr>)
          | None \<Rightarrow> (None, raw_msg, r))
      in with_reqid i
        (if lr_method r = Some ''LogAPICall'' then extract_mi_call cd body (r\<lparr>lr_type := ''mi_call''\<rparr>)
         else extract_mi_result text body (r\<lparr>lr_type := ''mi_result''\<rparr>)))"

definition contains :: "string \<Rightarrow> string \<Rightarrow> bool" where
  "contains p s = (re_search (lit p) s \<noteq> None)"

definition classify_and_extract :: "codecs \<Rightarrow> string \<Rightarrow> string \<Rightarrow> string \<Rightarrow> log_record \<Rightarrow> log_record" where
  "classify_and_extract cd lvl raw_msg body r =
     (let msg = strip raw_msg in
      if lvl = ''ERROR'' then r\<lparr>lr_type := ''error'', lr_status := Some msg\<rparr>
      else case match_bracket msg of
        Some (kind, i, tail) \<Rightarrow> classify_bracket cd kind i tail r
      | None \<Rightarrow>
          if lr_method r \<in> {Some ''LogAPICall'', Some ''LogAPIResult''} then classify_mi cd msg raw_msg body r
          else if contains ''Stored Procedure Executed is'' msg
          then r\<lparr>lr_type := ''sql'', lr_fields := [(''stored_procedure'', JStr (strip body))]\<rparr>
          else r\<lparr>lr_type := ''info''\<rparr>)"

definition newline :: string where
  "newline = [char_of (10::int)]"

definition build_record :: "codecs \<Rightarrow> raw_entry \<Rightarrow> log_record" where
  "build_record cd e =
     (case e of (header_line, body_lines, line_no) \<Rightarrow>
        (let raw = join newline (header_line # body_lines); body = join newline body_lines in
         case match_header header_line of
           None \<Rightarrow> bare_record line_no header_line raw
         | Some h \<Rightarrow>
             (let (logger, method, msg) = (case match_rest (hd_rest h) of
                    Some (l, m, t) \<Rightarrow> (Some l, Some m, t) | None \<Rightarrow> (None, None, hd_rest h))
              in classify_and_extract cd (hd_level h) msg body
                   ((bare_record line_no msg raw)\<lparr>lr_timestamp := parse_ts (hd_ts h), lr_raw_timestamp := Some (hd_ts h),
                      lr_user := normalise_user (hd_user h), lr_thread := none_if_empty (hd_thread h),
                      lr_level := Some (hd_level h), lr_logger := logger, lr_method := method\<rparr>))))"

definition parse :: "codecs \<Rightarrow> string \<Rightarrow> log_record list" where
  "parse cd text = map (build_record cd) (split_entries text)"

text \<open>The registry of formats: one entry; anything else raises.\<close>

definition get_log_parser :: "string \<Rightarrow> (codecs \<Rightarrow> string \<Rightarrow> log_record list) option" where
  "get_log_parser fmt = map_of [(''m3_dotnet'', parse)] fmt"

end
