(* ===== verification/Ingest.thy ===== *)
theory Ingest
  imports Parser Finalize
begin

text \<open>
  Stage 1: \<open>run_log_parse_insert\<close> (\<open>pipeline/parse_insert.py\<close>) parses a file and inserts its lines once, and
  \<open>reclassify_stamped\<close> (\<open>pipeline/reclassify.py\<close>) re-parses stored lines. A row of \<open>log_entries\<close> holds the columns
  Stage 2 reads. The file store, the hash, the decoders, the tenant's zone, the ids drawn and the faults of
  the database are parameters; everything from parsing to the commit is one transaction of the database.
\<close>

subsection \<open>The job\<close>

datatype job_status = Job_pending | Job_detecting | Job_parsing | Job_chunking | Job_embedding | Job_completed | Job_failed

record job =
  j_id :: uuid
  j_customer :: string
  j_filename :: string
  j_storage_key :: string
  j_status :: job_status
  j_chunks :: nat
  j_error :: "string option"

datatype ingest_site = At_batch "log_entry list" | At_finish

record ingest_env =
  i_load :: "string \<Rightarrow> exn + string"
  i_codecs :: codecs
  i_sha :: "string \<Rightarrow> string"
  i_zone_raw :: "string \<Rightarrow> string option"
  i_zone_info :: "string \<Rightarrow> exn + (instant \<Rightarrow> instant)"
  i_uuid :: "nat \<Rightarrow> uuid"
  i_fault :: "ingest_site \<Rightarrow> exn option"

record ingest_settings =
  log_format :: string
  display_timezone :: string

subsection \<open>Inserting with deduplication\<close>

definition entry_hash_of :: "ingest_env \<Rightarrow> log_record \<Rightarrow> string" where
  "entry_hash_of env r = i_sha env (lr_raw r)"

type_synonym row_key = "string \<times> string option \<times> instant option"

definition entry_key :: "log_entry \<Rightarrow> row_key" where
  "entry_key e = (customer_code e, entry_hash e, timestamp e)"

definition insert_one :: "log_entry \<Rightarrow> instant option list \<times> store \<Rightarrow> instant option list \<times> store" where
  "insert_one e acc =
     (case acc of (ts, s) \<Rightarrow>
        if list_ex (\<lambda>x. entry_key x = entry_key e) (log_entries s) then (ts, s)
        else (ts @ [timestamp e], s\<lparr>log_entries := log_entries s @ [e]\<rparr>))"

text \<open>\<open>INSERT ... ON CONFLICT DO NOTHING RETURNING timestamp\<close>; NULLs are not distinct.\<close>

definition insert_dedup :: "log_entry list \<Rightarrow> store \<Rightarrow> instant option list \<times> store" where
  "insert_dedup rows s = fold insert_one rows ([], s)"

subsection \<open>The loop over the records\<close>

record ingest_state =
  b_batch :: "log_entry list"
  b_seen :: "string list"
  b_inserted :: nat
  b_parsed :: nat
  b_lo :: "instant option"
  b_hi :: "instant option"
  b_drawn :: nat
  b_store :: store

definition insert_batch :: nat where
  "insert_batch = 200"

definition lower_bound :: "instant option \<Rightarrow> instant option \<Rightarrow> instant option" where
  "lower_bound t lo = (case t of None \<Rightarrow> lo | Some i \<Rightarrow> (case lo of None \<Rightarrow> Some i | Some l \<Rightarrow> if i < l then Some i else lo))"

definition upper_bound :: "instant option \<Rightarrow> instant option \<Rightarrow> instant option" where
  "upper_bound t hi = (case t of None \<Rightarrow> hi | Some i \<Rightarrow> (case hi of None \<Rightarrow> Some i | Some h \<Rightarrow> if h < i then Some i else hi))"

definition flush :: "ingest_env \<Rightarrow> ingest_state \<Rightarrow> exn + ingest_state" where
  "flush env st =
     (case (if b_batch st = [] then None else i_fault env (At_batch (b_batch st))) of
        Some e \<Rightarrow> Inl e
      | None \<Rightarrow>
          (case insert_dedup (b_batch st) (b_store st) of
             (ts, s) \<Rightarrow> Inr (st\<lparr>b_inserted := b_inserted st + length ts, b_lo := fold lower_bound ts (b_lo st),
                               b_hi := fold upper_bound ts (b_hi st), b_store := s\<rparr>)))"

definition entry_type_of :: "string \<Rightarrow> entry_type option" where
  "entry_type_of t = map_of [(''request'', Request), (''request_body'', RequestBody), (''mi_call'', MiCall),
     (''mi_result'', MiResult), (''sql'', Sql), (''response'', Response), (''info'', Info), (''error'', ErrorLine)] t"

definition to_entry :: "ingest_env \<Rightarrow> job \<Rightarrow> (instant \<Rightarrow> instant) \<Rightarrow> uuid \<Rightarrow> entry_type \<Rightarrow> log_record \<Rightarrow> log_entry" where
  "to_entry env j zone uid ty r =
     \<lparr>entry_id = uid, job_id = j_id j, customer_code = j_customer j, entry_hash = Some (entry_hash_of env r),
      source_file = j_filename j, line_number = Some (int (lr_line r)), timestamp = map_option zone (lr_timestamp r),
      level = lr_level r, thread = lr_thread r, user_ctx = lr_user r, entry_type = ty, result_status = lr_status r,
      message = Some (lr_message r), entry_fields = lr_fields r\<rparr>"

definition value_error :: "string \<Rightarrow> exn" where
  "value_error msg = Exn [''ValueError'', ''Exception''] msg None None None"

definition add_record ::
    "ingest_env \<Rightarrow> job \<Rightarrow> (instant \<Rightarrow> instant) \<Rightarrow> log_record \<Rightarrow> exn + ingest_state \<Rightarrow> exn + ingest_state" where
  "add_record env j zone r acc =
     (case acc of
        Inl e \<Rightarrow> Inl e
      | Inr st \<Rightarrow>
          (let st = st\<lparr>b_parsed := Suc (b_parsed st)\<rparr>; h = entry_hash_of env r
           in if h \<in> set (b_seen st) then Inr st
              else (case entry_type_of (lr_type r) of
                 None \<Rightarrow> Inl (value_error (lr_type r))
               | Some ty \<Rightarrow>
                   (let st = st\<lparr>b_seen := h # b_seen st, b_batch := b_batch st @ [to_entry env j zone (i_uuid env (b_drawn st)) ty r],
                               b_drawn := Suc (b_drawn st)\<rparr>
                    in if insert_batch \<le> length (b_batch st)
                       then map_sum id (\<lambda>st. st\<lparr>b_batch := [], b_seen := []\<rparr>) (flush env st)
                       else Inr st))))"

definition start_state :: "store \<Rightarrow> ingest_state" where
  "start_state s = \<lparr>b_batch = [], b_seen = [], b_inserted = 0, b_parsed = 0, b_lo = None, b_hi = None, b_drawn = 0, b_store = s\<rparr>"

definition ingest_records ::
    "ingest_env \<Rightarrow> job \<Rightarrow> (instant \<Rightarrow> instant) \<Rightarrow> log_record list \<Rightarrow> store \<Rightarrow> exn + ingest_state" where
  "ingest_records env j zone rs s =
     (case fold (add_record env j zone) rs (Inr (start_state s)) of Inl e \<Rightarrow> Inl e | Inr st \<Rightarrow> flush env st)"

text \<open>The ticket for Stage 2, when something with a timestamp was inserted.\<close>

definition ticket_range :: "ingest_state \<Rightarrow> span option" where
  "ticket_range st =
     (case (b_lo st, b_hi st) of (Some lo, Some hi) \<Rightarrow> if b_inserted st = 0 then None else Some (lo, hi) | _ \<Rightarrow> None)"

definition open_ticket :: "uuid \<Rightarrow> string \<Rightarrow> span \<Rightarrow> instant \<Rightarrow> regroup_ticket" where
  "open_ticket uid cc r clock =
     \<lparr>q_id = uid, q_customer = cc, q_start = fst r, q_end = snd r, q_consumed = None, q_abandoned = None,
      q_available = clock, q_attempts = 0, q_error = None, q_last_attempt = None\<rparr>"

definition enqueue_ticket :: "uuid \<Rightarrow> string \<Rightarrow> span option \<Rightarrow> instant \<Rightarrow> store \<Rightarrow> store" where
  "enqueue_ticket uid cc r clock s = (case r of None \<Rightarrow> s | Some r \<Rightarrow> s\<lparr>queue := queue s @ [open_ticket uid cc r clock]\<rparr>)"

text \<open>The transaction: everything between the two status updates.\<close>

definition ingest_body :: "ingest_env \<Rightarrow> ingest_settings \<Rightarrow> instant \<Rightarrow> job \<Rightarrow> store \<Rightarrow> exn + nat \<times> store" where
  "ingest_body env is clock j s =
     (case i_load env (j_storage_key j) of
        Inl e \<Rightarrow> Inl e
      | Inr text \<Rightarrow>
     (case get_log_parser (log_format is) of
        None \<Rightarrow> Inl (Exn [''Exception''] ''Log format not recognized'' None None None)
      | Some parser \<Rightarrow>
     (case i_zone_info env (case i_zone_raw env (j_customer j) of None \<Rightarrow> display_timezone is
            | Some z \<Rightarrow> if z = [] then display_timezone is else z) of
        Inl e \<Rightarrow> Inl e
      | Inr zone \<Rightarrow>
     (case ingest_records env j zone (parser (i_codecs env) text) s of
        Inl e \<Rightarrow> Inl e
      | Inr st \<Rightarrow>
     (case i_fault env At_finish of
        Some e \<Rightarrow> Inl e
      | None \<Rightarrow> Inr (b_inserted st, enqueue_ticket (i_uuid env (b_drawn st)) (j_customer j) (ticket_range st) clock (b_store st)))))))"

definition set_job :: "uuid \<Rightarrow> (job \<Rightarrow> job) \<Rightarrow> job list \<Rightarrow> job list" where
  "set_job i f jobs = map (\<lambda>j. if j_id j = i then f j else j) jobs"

definition set_status :: "uuid \<Rightarrow> job_status \<Rightarrow> string \<Rightarrow> job list \<Rightarrow> job list" where
  "set_status i status err jobs = set_job i (\<lambda>j. j\<lparr>j_status := status, j_error := (if err = [] then j_error j else Some err)\<rparr>) jobs"

text \<open>The text a failure leaves on the job; \<open>None\<close> when describing a disk fault raises.\<close>

definition ingest_error :: "exn \<Rightarrow> string option" where
  "ingest_error e = (if is_disk_io_error e then map_option (\<lambda>d. ''disk fault: '' @ d) (disk_io_detail e) else Some (exn_text e))"

definition index_error :: "exn \<Rightarrow> exn" where
  "index_error e = Exn [''IndexError'', ''LookupError'', ''Exception''] ''list index out of range'' None None (Some e)"

definition run_log_parse_insert ::
    "ingest_env \<Rightarrow> ingest_settings \<Rightarrow> instant \<Rightarrow> uuid \<Rightarrow> store \<times> job list \<Rightarrow> (exn + nat) \<times> store \<times> job list" where
  "run_log_parse_insert env is clock i state =
     (case state of (s, jobs) \<Rightarrow>
       (case find (\<lambda>j. j_id j = i) jobs of
          None \<Rightarrow> (Inl (value_error ''Job not found''), s, jobs)
        | Some j \<Rightarrow>
            (let jobs1 = set_status i Job_parsing [] jobs in
             case ingest_body env is clock j s of
               Inr (n, s') \<Rightarrow> (Inr n, s', set_job i (\<lambda>j. j\<lparr>j_status := Job_completed, j_chunks := n\<rparr>) jobs1)
             | Inl e \<Rightarrow> (case ingest_error e of
                  None \<Rightarrow> (Inl (index_error e), s, jobs1)
                | Some err \<Rightarrow> (Inl e, s, set_status i Job_failed err jobs1)))))"

end
