(* ===== verification/Timestamps.thy ===== *)
theory Timestamps
  imports Parser
begin

text \<open>
  Reading a timestamp: \<open>strptime\<close> on the text of a header orders instants as their texts are ordered, so sorting
  lines by the text of their timestamp and by their instant is the same.
\<close>

subsection \<open>The calendar is strictly increasing\<close>

definition days_before_year :: "int \<Rightarrow> int" where
  "days_before_year y = (y - 1) * 365 + (y - 1) div 4 - (y - 1) div 100 + (y - 1) div 400"

lemma div_step: "0 < k \<Longrightarrow> y div k = (y - 1) div k + (if y mod k = 0 then 1 else 0)" for y k :: int
proof (cases "y mod k = 0")
  case True
  assume "0 < k"
  have "y - 1 = k * (y div k - 1) + (k - 1)" using True mult_div_mod_eq [of k y] by (simp add: right_diff_distrib)
  then have "(y - 1) div k = y div k - 1" by (rule int_div_pos_eq) (use \<open>0 < k\<close> in simp_all)
  then show ?thesis using True by simp
next
  case False
  assume "0 < k"
  have "y - 1 = k * (y div k) + (y mod k - 1)" using mult_div_mod_eq [of k y] by (simp add: algebra_simps)
  moreover have "0 \<le> y mod k - 1" "y mod k - 1 < k" using False \<open>0 < k\<close> pos_mod_bound [of k y] pos_mod_sign [of k y] by linarith+
  ultimately have "(y - 1) div k = y div k" by (rule int_div_pos_eq [where r = "y mod k - 1"])
  then show ?thesis using False by simp
qed

lemma mod_chain: "y mod 400 = 0 \<Longrightarrow> y mod 100 = 0" "y mod 100 = 0 \<Longrightarrow> y mod 4 = 0" for y :: int
  by (auto simp: mod_eq_0_iff_dvd elim: dvd_trans [rotated])

lemma year_length: "days_before_year (y + 1) = days_before_year y + (if is_leap y then 366 else 365)"
proof -
  define a b c where "a = (y - 1) div 4" and "b = (y - 1) div 100" and "c = (y - 1) div 400"
  have d: "days_before_year y = (y - 1) * 365 + a - b + c" by (simp only: days_before_year_def a_def b_def c_def)
  have e: "days_before_year (y + 1) = y * 365 + y div 4 - y div 100 + y div 400" by (simp add: days_before_year_def)
  have f: "y div 4 = a + (if y mod 4 = 0 then 1 else 0)" "y div 100 = b + (if y mod 100 = 0 then 1 else 0)"
    "y div 400 = c + (if y mod 400 = 0 then 1 else 0)"
    unfolding a_def b_def c_def by (rule div_step, simp)+
  show ?thesis unfolding e d f is_leap_def using mod_chain [of y]
    by (cases "y mod 4 = 0"; cases "y mod 100 = 0"; cases "y mod 400 = 0"; simp)
qed

lemma days_before_year_mono: "y \<le> y' \<Longrightarrow> days_before_year y \<le> days_before_year y'"
proof (induction "nat (y' - y)" arbitrary: y')
  case (Suc n)
  then have "days_before_year y \<le> days_before_year (y' - 1)" by (intro Suc.hyps) auto
  then show ?case using year_length [of "y' - 1"] by (simp split: if_splits)
qed simp

lemma month_days_facts:
  "length (month_days y) = 12" "sum_list (month_days y) = (if is_leap y then 366 else 365)" "\<forall>n \<in> set (month_days y). 0 < n"
  by (simp_all add: month_days_def)

lemma sum_take_mono: "\<forall>n \<in> set xs. (0::int) < n \<Longrightarrow> i \<le> j \<Longrightarrow> sum_list (take i xs) \<le> sum_list (take j xs)"
proof (induction xs arbitrary: i j)
  case (Cons x xs)
  have "0 \<le> sum_list (take j (x # xs))"
    using Cons.prems by (intro sum_list_nonneg) (auto dest!: in_set_takeD intro: less_imp_le)
  then show ?case using Cons by (cases i; cases j) auto
qed simp

lemma month_step: "1 \<le> m \<Longrightarrow> m \<le> 12 \<Longrightarrow> sum_list (take m (month_days y)) = sum_list (take (m - 1) (month_days y)) + month_days y ! (m - 1)"
  using take_Suc_conv_app_nth [of "m - 1" "month_days y"] by (simp add: month_days_facts)

definition valid_date :: "int \<Rightarrow> nat \<Rightarrow> int \<Rightarrow> bool" where
  "valid_date y m d \<longleftrightarrow> 1 \<le> m \<and> m \<le> 12 \<and> 1 \<le> d \<and> d \<le> month_days y ! (m - 1)"

lemma day_in_year:
  assumes "valid_date y m d"
  shows "days_before_year y < days_from_civil y m d + 719163" and "days_from_civil y m d + 719163 \<le> days_before_year (y + 1)"
proof -
  have "0 \<le> sum_list (take (m - 1) (month_days y))"
    using sum_take_mono [OF month_days_facts(3), of 0 "m - 1"] by simp
  then show "days_before_year y < days_from_civil y m d + 719163"
    using assms by (simp add: days_from_civil_def days_before_year_def valid_date_def)
  have "sum_list (take m (month_days y)) \<le> sum_list (take 12 (month_days y))"
    using assms by (intro sum_take_mono month_days_facts) (simp add: valid_date_def)
  then have "sum_list (take (m - 1) (month_days y)) + d \<le> (if is_leap y then 366 else 365)"
    using assms month_step [of m y] month_days_facts(1,2) [of y] by (simp add: valid_date_def)
  then show "days_from_civil y m d + 719163 \<le> days_before_year (y + 1)"
    unfolding year_length by (simp add: days_from_civil_def days_before_year_def)
qed

lemma days_increase:
  assumes "valid_date y m d" and "valid_date y' m' d'" and "y < y' \<or> y = y' \<and> (m < m' \<or> m = m' \<and> d < d')"
  shows "days_from_civil y m d < days_from_civil y' m' d'"
proof (cases "y < y'")
  case True
  then have "days_before_year (y + 1) \<le> days_before_year y'" by (intro days_before_year_mono) simp
  then show ?thesis using day_in_year(2) [OF assms(1)] day_in_year(1) [OF assms(2)] by simp
next
  case False
  show ?thesis
  proof (cases "m = m'")
    case True
    then show ?thesis using False assms(3) by (simp add: days_from_civil_def)
  next
    case False
    then have less: "y = y'" "m < m'" using assms(3) \<open>\<not> y < y'\<close> by auto
    then have "sum_list (take m (month_days y)) \<le> sum_list (take (m' - 1) (month_days y))"
      by (intro sum_take_mono month_days_facts) simp
    then show ?thesis using less assms(1,2) month_step [of m y] by (simp add: days_from_civil_def valid_date_def)
  qed
qed

subsection \<open>Texts of one shape order as their digits\<close>

definition digit_value :: "char \<Rightarrow> int" where
  "digit_value c = of_char c - 48"

lemma digit_range: "is_digit c \<Longrightarrow> 0 \<le> digit_value c \<and> digit_value c \<le> 9"
  by (simp add: is_digit_def digit_value_def Let_def)

lemma digit_less: "c < d \<longleftrightarrow> digit_value c < digit_value d"
proof -
  have "digit_value c = int (of_char c) - 48" for c by (simp add: digit_value_def of_nat_of_char)
  then show ?thesis by (simp add: less_char_def)
qed

lemma digit_inj: "digit_value c = digit_value d \<Longrightarrow> c = d"
  by (simp add: digit_value_def)

fun shape_value :: "string \<Rightarrow> string \<Rightarrow> int" where
  "shape_value (p # ps) (c # s) =
     (if p = CHR ''d'' then digit_value c * 10 ^ length (filter (\<lambda>p. p = CHR ''d'') ps) + shape_value ps s else shape_value ps s)"
| "shape_value _ _ = 0"

lemma shape_value_range:
  "has_shape p s \<Longrightarrow> 0 \<le> shape_value p s \<and> shape_value p s < 10 ^ length (filter (\<lambda>p. p = CHR ''d'') p)"
proof (induction p s rule: shape_value.induct)
  case (1 p ps c s)
  then show ?case
  proof (cases "p = CHR ''d''")
    case True
    let ?b = "10 ^ length (filter (\<lambda>p. p = CHR ''d'') ps) :: int"
    have "0 \<le> digit_value c" "digit_value c \<le> 9" using 1 True digit_range by auto
    then have d: "0 \<le> digit_value c * ?b" "digit_value c * ?b \<le> 9 * ?b" by (simp_all add: mult_right_mono)
    have v: "0 \<le> shape_value ps s" "shape_value ps s < ?b" using 1 True by simp_all
    have "shape_value (p # ps) (c # s) = digit_value c * ?b + shape_value ps s"
      "10 ^ length (filter (\<lambda>p. p = CHR ''d'') (p # ps)) = 9 * ?b + ?b" using True by simp_all
    then show ?thesis using d v by linarith
  qed simp
qed simp_all

lemma shape_order:
  "has_shape p a \<Longrightarrow> has_shape p b \<Longrightarrow> length a = length p \<Longrightarrow> length b = length p
   \<Longrightarrow> (a < b \<longleftrightarrow> shape_value p a < shape_value p b) \<and> (shape_value p a = shape_value p b \<longrightarrow> a = b)"
proof (induction p arbitrary: a b)
  case (Cons p ps)
  obtain c s d t where ab: "a = c # s" "b = d # t" using Cons.prems by (metis length_0_conv neq_Nil_conv list.distinct(1))
  have IH: "(s < t \<longleftrightarrow> shape_value ps s < shape_value ps t) \<and> (shape_value ps s = shape_value ps t \<longrightarrow> s = t)"
    using Cons.IH [of s t] Cons.prems ab by simp
  show ?case
  proof (cases "p = CHR ''d''")
    case False
    then show ?thesis using IH Cons.prems ab by simp
  next
    case True
    define B :: int where "B = 10 ^ length (filter (\<lambda>p. p = CHR ''d'') ps)"
    have va: "0 \<le> shape_value ps s" "shape_value ps s < B" and vb: "0 \<le> shape_value ps t" "shape_value ps t < B"
      using shape_value_range Cons.prems ab unfolding B_def by simp_all
    have val: "shape_value (p # ps) a = digit_value c * B + shape_value ps s" "shape_value (p # ps) b = digit_value d * B + shape_value ps t"
      using True ab by (simp_all add: B_def)
    have step: "x * B + u < y * B + v" if "x < y" "u < B" "0 \<le> v" for x y u v :: int
    proof -
      have "(x + 1) * B \<le> y * B" using that va by (intro mult_right_mono) auto
      then show ?thesis using that by (simp add: algebra_simps)
    qed
    consider "digit_value c < digit_value d" | "digit_value d < digit_value c" | "c = d" using digit_inj by fastforce
    then show ?thesis
    proof cases
      case 1
      then have "a < b" by (simp add: ab digit_less)
      then show ?thesis using step [OF 1 va(2) vb(1)] unfolding val by simp
    next
      case 2
      then have "b < a" by (simp add: ab digit_less)
      then show ?thesis using step [OF 2 vb(2) va(1)] unfolding val by auto
    next
      case 3
      then have "(a < b) = (s < t)" "(a = b) = (s = t)" by (simp_all add: ab)
      then show ?thesis using IH 3 unfolding val by simp
    qed
  qed
qed simp

subsection \<open>The instant and the digits\<close>

definition ts_shape :: string where
  "ts_shape = ''dddd-dd-dd dd:dd:dd,ddd''"

definition part :: "string \<Rightarrow> nat \<Rightarrow> nat \<Rightarrow> int" where
  "part ts i n = int (digits_nat (take n (drop i ts)))"

lemma digits_nat_append: "digits_nat (s @ [c]) = 10 * digits_nat s + nat (of_char c - 48)"
  by (simp add: digits_nat_def)

lemma digits_int:
  "is_digit c \<Longrightarrow> int (digits_nat (s @ [c])) = 10 * int (digits_nat s) + digit_value c"
  by (simp add: digits_nat_append is_digit_def digit_value_def Let_def)

lemma digits_two: "is_digit a \<Longrightarrow> is_digit b \<Longrightarrow> int (digits_nat [a, b]) = 10 * digit_value a + digit_value b"
  using digits_int [of b "[a]"] digits_int [of a "[]"] by (simp add: digits_nat_def)

lemma digits_three:
  "is_digit a \<Longrightarrow> is_digit b \<Longrightarrow> is_digit c \<Longrightarrow> int (digits_nat [a, b, c]) = 100 * digit_value a + 10 * digit_value b + digit_value c"
  using digits_int [of c "[a, b]"] digits_two [of a b] by simp

lemma digits_four:
  "is_digit a \<Longrightarrow> is_digit b \<Longrightarrow> is_digit c \<Longrightarrow> is_digit d
   \<Longrightarrow> int (digits_nat [a, b, c, d]) = 1000 * digit_value a + 100 * digit_value b + 10 * digit_value c + digit_value d"
  using digits_int [of d "[a, b, c]"] digits_three [of a b c] by simp

lemma ts_chars:
  assumes "has_shape ts_shape ts" and "length ts = 23"
  obtains y1 y2 y3 y4 o1 o2 d1 d2 h1 h2 m1 m2 s1 s2 f1 f2 f3 where
    "ts = [y1, y2, y3, y4, CHR ''-'', o1, o2, CHR ''-'', d1, d2, CHR '' '', h1, h2, CHR '':'', m1, m2, CHR '':'', s1, s2, CHR '','', f1, f2, f3]"
    and "list_all is_digit [y1, y2, y3, y4, o1, o2, d1, d2, h1, h2, m1, m2, s1, s2, f1, f2, f3]"
proof -
  have "length ts = Suc (Suc (Suc (Suc (Suc (Suc (Suc (Suc (Suc (Suc (Suc (Suc (Suc (Suc (Suc (Suc (Suc (Suc (Suc (Suc (Suc (Suc (Suc 0))))))))))))))))))))))"
    using assms(2) by simp
  then obtain a b c d e f g h i j k l m n p q r s t u v w x where ts: "ts = [a, b, c, d, e, f, g, h, i, j, k, l, m, n, p, q, r, s, t, u, v, w, x]"
    by (auto simp only: length_Suc_conv length_0_conv)
  show thesis using assms(1) unfolding ts ts_shape_def
    by (intro that [of a b c d f g i j l m p q s t v w x]) (simp_all add: ts)
qed

lemma ts_digits:
  assumes "has_shape ts_shape ts" and "length ts = 23"
  shows "shape_value ts_shape ts =
    ((((((part ts 0 4 * 100 + part ts 5 2) * 100 + part ts 8 2) * 100 + part ts 11 2) * 100 + part ts 14 2) * 100 + part ts 17 2) * 1000 + part ts 20 3)"
  by (rule ts_chars [OF assms]) (simp add: part_def ts_shape_def digits_two digits_three digits_four)

lemma parse_ts_parts:
  "parse_ts ts =
     (if 1 \<le> part ts 0 4 \<and> valid_date (part ts 0 4) (digits_nat (take 2 (drop 5 ts))) (part ts 8 2)
         \<and> part ts 11 2 \<le> 23 \<and> part ts 14 2 \<le> 59 \<and> part ts 17 2 \<le> 59
      then Some (seconds (days_from_civil (part ts 0 4) (digits_nat (take 2 (drop 5 ts))) (part ts 8 2) * 86400
                  + part ts 11 2 * 3600 + part ts 14 2 * 60 + part ts 17 2) + 1000 * part ts 20 3)
      else None)"
  by (simp add: parse_ts_def part_def valid_date_def Let_def)

lemma part_nonneg: "0 \<le> part ts i n"
  by (simp add: part_def)

lemma part_three:
  assumes "has_shape ts_shape ts" and "length ts = 23"
  shows "part ts 20 3 \<le> 999" and "part ts 11 2 \<le> 99" and "part ts 14 2 \<le> 99" and "part ts 17 2 \<le> 99" and "part ts 8 2 \<le> 99"
    and "part ts 5 2 \<le> 99"
proof -
  have two: "digits_nat [a, b] \<le> 99" if "is_digit a" "is_digit b" for a b
    using digits_two [OF that] digit_range [OF that(1)] digit_range [OF that(2)] by linarith
  have three: "digits_nat [a, b, c] \<le> 999" if "is_digit a" "is_digit b" "is_digit c" for a b c
    using digits_three [OF that] digit_range [OF that(1)] digit_range [OF that(2)] digit_range [OF that(3)] by linarith
  have each: "digits_nat (take 3 (drop 20 ts)) \<le> 999 \<and> digits_nat (take 2 (drop 11 ts)) \<le> 99 \<and> digits_nat (take 2 (drop 14 ts)) \<le> 99
      \<and> digits_nat (take 2 (drop 17 ts)) \<le> 99 \<and> digits_nat (take 2 (drop 8 ts)) \<le> 99 \<and> digits_nat (take 2 (drop 5 ts)) \<le> 99"
    by (rule ts_chars [OF assms]) (simp add: two three)
  then show "part ts 20 3 \<le> 999" "part ts 11 2 \<le> 99" "part ts 14 2 \<le> 99" "part ts 17 2 \<le> 99" "part ts 8 2 \<le> 99" "part ts 5 2 \<le> 99"
    by (simp_all add: part_def)
qed

lemma less_by_digits:
  fixes y m d y' m' d' :: int
  assumes "(y * 100 + m) * 100 + d < (y' * 100 + m') * 100 + d'" "0 \<le> m'" "m' \<le> 99" "0 \<le> d'" "d' \<le> 99" "0 \<le> m" "0 \<le> d"
  shows "y < y' \<or> y = y' \<and> (m < m' \<or> m = m' \<and> d < d')"
proof -
  have e: "10000 * y + 100 * m + d < 10000 * y' + 100 * m' + d'" using assms(1) by simp
  consider "y < y'" | "y = y'" | "y' < y" by linarith
  then show ?thesis
  proof cases
    case 2
    consider "m < m'" | "m = m'" | "m' < m" by linarith
    then show ?thesis by cases (use 2 e assms(2-) in auto)
  qed (use e assms(2-) in linarith)+
qed

lemma time_by_digits:
  fixes h m s f h' m' s' f' :: int
  assumes "((h * 100 + m) * 100 + s) * 1000 + f < ((h' * 100 + m') * 100 + s') * 1000 + f'"
    and "0 \<le> m" "m \<le> 59" "0 \<le> m'" "m' \<le> 59" "0 \<le> s" "s \<le> 59" "0 \<le> s'" "s' \<le> 59" "0 \<le> f" "f \<le> 999" "0 \<le> f'" "f' \<le> 999"
  shows "3600000 * h + 60000 * m + 1000 * s + f < 3600000 * h' + 60000 * m' + 1000 * s' + f'"
proof -
  have e: "10000000 * h + 100000 * m + 1000 * s + f < 10000000 * h' + 100000 * m' + 1000 * s' + f'" using assms(1) by simp
  consider "h < h'" | "h = h'" | "h' < h" by linarith
  then show ?thesis
  proof cases
    case 2
    consider "m < m'" | "m = m'" | "m' < m" by linarith
    then show ?thesis by cases (use 2 e assms(2-) in linarith)+
  qed (use e assms(2-) in linarith)+
qed

lemma same_by_digits:
  fixes y m d y' m' d' :: int
  assumes "(y * 100 + m) * 100 + d = (y' * 100 + m') * 100 + d'" "0 \<le> m'" "m' \<le> 99" "0 \<le> d'" "d' \<le> 99"
    "0 \<le> m" "m \<le> 99" "0 \<le> d" "d \<le> 99"
  shows "y = y' \<and> m = m' \<and> d = d'"
proof -
  have "10000 * y + 100 * m + d = 10000 * y' + 100 * m' + d'" using assms(1) by simp
  then have "\<not> y < y'" "\<not> y' < y" using assms(2-) by linarith+
  then have "y = y'" by simp
  moreover from this have "\<not> m < m'" "\<not> m' < m"
    using assms(2-) \<open>10000 * y + 100 * m + d = 10000 * y' + 100 * m' + d'\<close> by linarith+
  ultimately show ?thesis using assms(1) by simp
qed

lemma parse_ts_increases:
  assumes "has_shape ts_shape a" "length a = 23" "has_shape ts_shape b" "length b = 23"
    and "parse_ts a = Some x" "parse_ts b = Some y" and "shape_value ts_shape a < shape_value ts_shape b"
  shows "x < y"
proof -
  define D where "D = (\<lambda>t. (part t 0 4 * 100 + part t 5 2) * 100 + part t 8 2)"
  define C where "C = (\<lambda>t. days_from_civil (part t 0 4) (digits_nat (take 2 (drop 5 t))) (part t 8 2))"
  define S where "S = (\<lambda>t. part t 11 2 * 3600 + part t 14 2 * 60 + part t 17 2)"
  define V where "V = (\<lambda>t. ((part t 11 2 * 100 + part t 14 2) * 100 + part t 17 2) * 1000 + part t 20 3)"
  have val: "shape_value ts_shape t = D t * 1000000000 + V t" if "has_shape ts_shape t" "length t = 23" for t
    unfolding ts_digits [OF that] D_def V_def by (simp add: algebra_simps)
  have inst: "z = seconds (C t * 86400 + S t) + 1000 * part t 20 3 \<and> valid_date (part t 0 4) (digits_nat (take 2 (drop 5 t))) (part t 8 2)
      \<and> 0 \<le> S t \<and> S t \<le> 86399 \<and> part t 14 2 \<le> 59 \<and> part t 17 2 \<le> 59" if "parse_ts t = Some z" for t z
  proof -
    have "0 \<le> part t 11 2" "0 \<le> part t 14 2" "0 \<le> part t 17 2" by (rule part_nonneg)+
    then show ?thesis using that unfolding parse_ts_parts C_def S_def by (auto simp: add.assoc split: if_splits)
  qed
  have ms: "0 \<le> part t 20 3 \<and> part t 20 3 \<le> 999" if "has_shape ts_shape t" "length t = 23" for t
    using part_three(1) [OF that] part_nonneg by simp
  have vb: "0 \<le> V t \<and> V t < 1000000000" if "has_shape ts_shape t" "length t = 23" for t
  proof -
    have "0 \<le> part t 11 2" "0 \<le> part t 14 2" "0 \<le> part t 17 2" "0 \<le> part t 20 3" by (rule part_nonneg)+
    then show ?thesis using part_three(1-4) [OF that] by (simp add: V_def distrib_right)
  qed
  show ?thesis
  proof (cases "D a < D b")
    case True
    have nn: "0 \<le> part t 5 2" "0 \<le> part t 8 2" for t by (rule part_nonneg)+
    have le: "part a 5 2 \<le> 99" "part a 8 2 \<le> 99" "part b 5 2 \<le> 99" "part b 8 2 \<le> 99"
      using part_three(5,6) [OF assms(1,2)] part_three(5,6) [OF assms(3,4)] by simp_all
    have "part a 0 4 < part b 0 4 \<or> part a 0 4 = part b 0 4 \<and> (part a 5 2 < part b 5 2 \<or> part a 5 2 = part b 5 2 \<and> part a 8 2 < part b 8 2)"
      using True nn le by (intro less_by_digits) (simp_all add: D_def)
    then have "C a < C b" using inst [OF assms(5)] inst [OF assms(6)] unfolding C_def
      by (intro days_increase) (simp_all add: part_def)
    then show ?thesis using inst [OF assms(5)] inst [OF assms(6)] ms [OF assms(1,2)] ms [OF assms(3,4)]
      unfolding seconds_def distrib_right by - (elim conjE, linarith)
  next
    case False
    have "D a * 1000000000 + V a < D b * 1000000000 + V b" using assms(7) val assms(1-4) by simp
    then have same: "D a = D b" and less: "V a < V b"
      using False vb [OF assms(1,2)] vb [OF assms(3,4)] by linarith+
    have nn: "0 \<le> part t 5 2" "0 \<le> part t 8 2" for t by (rule part_nonneg)+
    have le: "part a 5 2 \<le> 99" "part a 8 2 \<le> 99" "part b 5 2 \<le> 99" "part b 8 2 \<le> 99"
      using part_three(5,6) [OF assms(1,2)] part_three(5,6) [OF assms(3,4)] by simp_all
    have "part a 0 4 = part b 0 4 \<and> part a 5 2 = part b 5 2 \<and> part a 8 2 = part b 8 2"
      using same nn le by (intro same_by_digits) (simp_all add: D_def)
    then have "C a = C b" unfolding C_def by (simp add: part_def)
    moreover have "3600000 * part a 11 2 + 60000 * part a 14 2 + 1000 * part a 17 2 + part a 20 3
        < 3600000 * part b 11 2 + 60000 * part b 14 2 + 1000 * part b 17 2 + part b 20 3"
      using less inst [OF assms(5)] inst [OF assms(6)] ms [OF assms(1,2)] ms [OF assms(3,4)]
      by (intro time_by_digits) (simp_all add: V_def part_nonneg)
    ultimately show ?thesis using inst [OF assms(5)] inst [OF assms(6)]
      unfolding seconds_def S_def distrib_right by - (elim conjE, linarith)
  qed
qed

text \<open>timestamps order as their texts: of two well-formed header timestamps that name real dates and times,
  the one with the smaller text is the earlier instant, and the same instant has one text only.\<close>

theorem timestamps_order_as_their_texts:
  assumes "has_shape ''dddd-dd-dd dd:dd:dd,ddd'' a" "length a = 23" "has_shape ''dddd-dd-dd dd:dd:dd,ddd'' b" "length b = 23"
    and "parse_ts a = Some x" "parse_ts b = Some y"
  shows "(a < b \<longleftrightarrow> x < y) \<and> (a = b \<longleftrightarrow> x = y)"
proof -
  note h = assms [folded ts_shape_def]
  have o: "(a < b \<longleftrightarrow> shape_value ts_shape a < shape_value ts_shape b) \<and> (shape_value ts_shape a = shape_value ts_shape b \<longrightarrow> a = b)"
    using h by (intro shape_order) (simp_all add: ts_shape_def)
  consider "shape_value ts_shape a < shape_value ts_shape b" | "shape_value ts_shape a = shape_value ts_shape b"
    | "shape_value ts_shape b < shape_value ts_shape a" by linarith
  then show ?thesis
  proof cases
    case 1
    then show ?thesis using o parse_ts_increases [OF h 1] by auto
  next
    case 2
    then show ?thesis using o h by auto
  next
    case 3
    then show ?thesis using o parse_ts_increases [OF h(3,4,1,2,6,5) 3] by auto
  qed
qed

lemma timestamps_order_as_their_texts_witness:
  "\<exists>x y. parse_ts ''2024-02-29 23:59:59,999'' = Some x \<and> parse_ts ''2024-03-01 00:00:00,000'' = Some y \<and> x < y"
proof -
  have "parse_ts ''2024-02-29 23:59:59,999'' \<noteq> None" "parse_ts ''2024-03-01 00:00:00,000'' \<noteq> None" by code_simp+
  then obtain x y where p: "parse_ts ''2024-02-29 23:59:59,999'' = Some x" "parse_ts ''2024-03-01 00:00:00,000'' = Some y"
    by blast
  have s: "has_shape ''dddd-dd-dd dd:dd:dd,ddd'' ''2024-02-29 23:59:59,999''" "length ''2024-02-29 23:59:59,999'' = 23"
    "has_shape ''dddd-dd-dd dd:dd:dd,ddd'' ''2024-03-01 00:00:00,000''" "length ''2024-03-01 00:00:00,000'' = 23"
    "''2024-02-29 23:59:59,999'' < ''2024-03-01 00:00:00,000''" by code_simp+
  show ?thesis using timestamps_order_as_their_texts [OF s(1-4) p] s(5) p by blast
qed

end
