(* ===== verification/ParserProperties.thy ===== *)
theory ParserProperties
  imports Parser
begin

text \<open>
  What the parser guarantees: no stamped line and no continuation line of a file is lost or moved (the entries
  are given in closed form), and a line in the spelling with a request id is read as the line in the old spelling.
\<close>

subsection \<open>Entries in closed form\<close>

abbreviation stray :: "string \<Rightarrow> bool" where
  "stray line \<equiv> \<not> ts_start line"

fun cut_entries :: "nat \<Rightarrow> string list \<Rightarrow> raw_entry list" where
  "cut_entries k [] = []"
| "cut_entries k (l # ls) =
     (if ts_start l then (l, takeWhile stray ls, k) # cut_entries (Suc k) ls else cut_entries (Suc k) ls)"

definition emit :: "raw_entry list \<times> raw_entry option \<Rightarrow> raw_entry list" where
  "emit st = (case st of (found, None) \<Rightarrow> found | (found, Some e) \<Rightarrow> found @ [e])"

lemma emit_fold:
  "emit (fold split_step (enumerate k ls) (found, None)) = found @ cut_entries k ls
   \<and> emit (fold split_step (enumerate k ls) (found, Some (h, b, n))) = found @ (h, b @ takeWhile stray ls, n) # cut_entries k ls"
proof (induction ls arbitrary: k found h b n)
  case Nil
  then show ?case by (simp add: emit_def)
next
  case (Cons l ls)
  then show ?case by simp
qed

lemma split_entries_cut: "split_entries text = cut_entries 1 (splitlines text)"
  using emit_fold [of 1 "splitlines text" "[]"] by (simp add: split_entries_def emit_def)

lemma cut_entries_positions:
  "cut_entries k ls =
     map (\<lambda>i. (ls ! i, takeWhile stray (drop (Suc i) ls), k + i)) (filter (\<lambda>i. ts_start (ls ! i)) [0..<length ls])"
proof (induction ls arbitrary: k)
  case (Cons l ls)
  have shift: "[0..<length (l # ls)] = 0 # map Suc [0..<length ls]"
    by (simp only: length_Cons upt_conv_Cons zero_less_Suc map_Suc_upt)
  show ?case unfolding shift by (simp add: Cons.IH filter_map comp_def)
qed simp

lemma concat_cut_entries:
  "concat (map (\<lambda>(h, b, n). h # b) (cut_entries k ls)) = dropWhile stray ls"
proof (induction ls arbitrary: k)
  case (Cons l ls)
  then show ?case by (simp add: takeWhile_dropWhile_id)
qed simp

lemma join_append: "xs \<noteq> [] \<Longrightarrow> ys \<noteq> [] \<Longrightarrow> join sep (xs @ ys) = join sep xs @ sep @ join sep ys"
proof (induction xs rule: join.induct [of _ sep])
  case (2 s x)
  then show ?case by (cases ys) auto
qed auto

lemma join_concat: "\<forall>xs \<in> set xss. xs \<noteq> [] \<Longrightarrow> join sep (concat xss) = join sep (map (join sep) xss)"
proof (induction xss)
  case (Cons xs xss)
  show ?case
  proof (cases xss)
    case Nil
    then show ?thesis by simp
  next
    case (Cons ys yss)
    then have "join sep (xs @ concat xss) = join sep xs @ sep @ join sep (concat xss)"
      using Cons.prems by (intro join_append) auto
    then show ?thesis using Cons Cons.IH Cons.prems by simp
  qed
qed simp

subsection \<open>Classification leaves the identity of a record alone\<close>

lemma with_reqid_frame [simp]: "lr_line (with_reqid i r) = lr_line r" "lr_raw (with_reqid i r) = lr_raw r"
  by (simp_all add: with_reqid_def split: option.splits)

lemma extract_frame [simp]:
  "lr_line (extract_mi_call cd body r) = lr_line r" "lr_raw (extract_mi_call cd body r) = lr_raw r"
  "lr_line (extract_mi_result msg body r) = lr_line r" "lr_raw (extract_mi_result msg body r) = lr_raw r"
  by (simp_all add: extract_mi_call_def extract_mi_result_def Let_def split: option.splits prod.splits)

lemma classify_mi_frame [simp]:
  "lr_line (classify_mi cd msg raw_msg body r) = lr_line r" "lr_raw (classify_mi cd msg raw_msg body r) = lr_raw r"
  by (simp_all add: classify_mi_def Let_def split: option.splits prod.splits)

lemma classify_frame [simp]:
  "lr_line (classify_and_extract cd lvl msg body r) = lr_line r" "lr_raw (classify_and_extract cd lvl msg body r) = lr_raw r"
  by (simp_all add: classify_and_extract_def classify_bracket_def Let_def split: option.splits prod.splits)

lemma build_record_frame:
  "lr_line (build_record cd (h, b, n)) = n" "lr_raw (build_record cd (h, b, n)) = join newline (h # b)"
  by (simp_all add: build_record_def bare_record_def Let_def split: option.splits prod.splits)

text \<open>C7: the parser loses and moves nothing: its records are the stamped lines of the file in order, each with its
  physical line number and with every line up to the next stamped one as its raw text, so the raw texts put
  together are the file from its first stamped line on.\<close>

theorem parse_keeps_every_line:
  "map (\<lambda>r. (lr_line r, lr_raw r)) (parse cd text)
     = map (\<lambda>i. (Suc i, join newline (splitlines text ! i # takeWhile (\<lambda>l. \<not> ts_start l) (drop (Suc i) (splitlines text)))))
         (filter (\<lambda>i. ts_start (splitlines text ! i)) [0..<length (splitlines text)])
   \<and> join newline (map lr_raw (parse cd text)) = join newline (dropWhile (\<lambda>l. \<not> ts_start l) (splitlines text))"
proof
  let ?es = "cut_entries 1 (splitlines text)"
  have p: "parse cd text = map (build_record cd) ?es" by (simp add: parse_def split_entries_cut)
  show "map (\<lambda>r. (lr_line r, lr_raw r)) (parse cd text)
     = map (\<lambda>i. (Suc i, join newline (splitlines text ! i # takeWhile stray (drop (Suc i) (splitlines text)))))
         (filter (\<lambda>i. ts_start (splitlines text ! i)) [0..<length (splitlines text)])"
    unfolding p cut_entries_positions by (simp add: build_record_frame)
  have "map lr_raw (parse cd text) = map (join newline) (map (\<lambda>(h, b, n). h # b) ?es)"
    unfolding p by (auto simp: build_record_frame)
  moreover have "\<forall>xs \<in> set (map (\<lambda>(h, b, n). h # b) ?es). xs \<noteq> []" by auto
  ultimately show "join newline (map lr_raw (parse cd text)) = join newline (dropWhile stray (splitlines text))"
    using join_concat [of "map (\<lambda>(h, b, n). h # b) ?es" newline] concat_cut_entries [of 1 "splitlines text"]
    by (simp only: if_True)
qed

subsection \<open>Stripping\<close>

definition rstrip :: "string \<Rightarrow> string" where
  "rstrip s = rev (dropWhile is_space (rev s))"

lemma strip_rstrip: "strip s = rstrip (dropWhile is_space s)"
  by (simp add: strip_def rstrip_def)

lemma rstrip_append: "rstrip (a @ b) = (if rstrip b = [] then rstrip a else a @ rstrip b)"
  by (auto simp: rstrip_def dropWhile_append)

lemma rstrip_idem [simp]: "rstrip (rstrip s) = rstrip s"
  by (simp add: rstrip_def)

lemma rstrip_spaces: "rstrip s = [] \<longleftrightarrow> (\<forall>c \<in> set s. is_space c)"
  by (simp add: rstrip_def dropWhile_eq_Nil_conv)

lemma rstrip_Cons: "rstrip (c # s) = (if rstrip s = [] then if is_space c then [] else [c] else c # rstrip s)"
  using rstrip_append [of "[c]" s] by (simp add: rstrip_def)

lemma strip_Cons_space [simp]: "is_space c \<Longrightarrow> strip (c # s) = strip s"
  by (simp add: strip_rstrip)

lemma strip_Cons: "\<not> is_space c \<Longrightarrow> strip (c # s) = rstrip (c # s)"
  by (simp add: strip_rstrip)

lemma strip_rstrip_same [simp]: "strip (rstrip s) = strip s"
proof (induction s)
  case (Cons c s)
  show ?case
  proof (cases "is_space c")
    case True
    show ?thesis
    proof (cases "rstrip s = []")
      case r: True
      then have "dropWhile is_space s = []" by (simp add: rstrip_spaces)
      then have "strip s = strip []" by (simp only: strip_rstrip dropWhile.simps)
      with True r show ?thesis by (simp add: rstrip_Cons)
    next
      case False
      with True show ?thesis using Cons.IH by (simp add: rstrip_Cons)
    qed
  next
    case False
    then show ?thesis by (simp add: strip_Cons rstrip_Cons)
      (simp add: rstrip_def dropWhile_append)
  qed
qed (simp add: rstrip_def)

lemma strip_tl_space: "u \<noteq> [] \<Longrightarrow> is_space (hd u) \<Longrightarrow> strip (tl u) = strip u"
  by (cases u) simp_all

lemma strip_strip [simp]: "strip (strip s) = strip s"
proof (induction s)
  case (Cons c s)
  then show ?case
  proof (cases "is_space c")
    case False
    have "strip (strip (c # s)) = strip (rstrip (c # s))" by (simp only: strip_Cons [OF False])
    then show ?thesis by simp
  qed simp
qed (simp add: strip_rstrip rstrip_def)

subsection \<open>The two spellings of a bracket line\<close>

lemma not_space_simps [simp]:
  "is_space CHR '' ''" "\<not> is_space CHR '':''" "\<not> is_space CHR ''R''" "\<not> is_space CHR ''-''" "\<not> is_space CHR ''(''"
  by (simp_all add: is_space_def)

lemma strip_marked: "strip (CHR ''R'' # p @ CHR '':'' # s) = CHR ''R'' # p @ CHR '':'' # rstrip s"
proof -
  have "rstrip ((CHR ''R'' # p @ [CHR '':'']) @ s) = (CHR ''R'' # p @ [CHR '':'']) @ rstrip s"
    unfolding rstrip_append [of _ s] by (simp add: rstrip_def)
  then show ?thesis by (simp add: strip_Cons)
qed

lemma reqid_mark_scan:
  assumes "CHR '')'' \<notin> set i"
  shows "reqid_mark (''(ReqID = '' @ i @ CHR '')'' # s) = Some (i, s)"
proof -
  have "before_first CHR '')'' (i @ CHR '')'' # s) = i"
    unfolding before_first_def using assms by (subst takeWhile_append2) auto
  then show ?thesis by (simp add: reqid_mark_def lit_def)
qed

lemma bracket_tail_old: "bracket_tail (CHR '':'' # s) = Some (None, if s \<noteq> [] \<and> is_space (hd s) then tl s else s)"
  by (simp add: bracket_tail_def lit_def skip_lit_def skip_space_def)

lemma bracket_tail_stamped:
  assumes "CHR '')'' \<notin> set i" and "dash \<in> {'''', '' -'', '' - ''}"
  shows "bracket_tail ('' (ReqID = '' @ i @ '')'' @ dash @ CHR '':'' # s)
           = Some (Some i, if s \<noteq> [] \<and> is_space (hd s) then tl s else s)"
proof -
  have "lit '' '' ('' (ReqID = '' @ t) = Some (''(ReqID = '' @ t)" for t by (simp add: lit_def)
  moreover have "lit '':'' (skip_space (skip_lit '' -'' (dash @ CHR '':'' # s))) = Some s"
    using assms(2) by (auto simp: lit_def skip_lit_def skip_space_def)
  ultimately show ?thesis
    using reqid_mark_scan [OF assms(1), of "dash @ CHR '':'' # s"] unfolding bracket_tail_def by simp
qed

lemma match_bracket_kind:
  assumes "kind \<in> set bracket_kinds" and "bracket_tail s = Some r" and "lit '' BODY'' s = None"
  shows "match_bracket (kind @ s) = Some (kind, r)"
proof -
  have "lit ''REQUEST BODY'' (''REQUEST'' @ s) = None"
    using assms(3) by (simp add: lit_def split: if_splits)
  then show ?thesis using assms(1,2)
    by (auto simp: match_bracket_def bracket_kinds_def) (simp_all add: lit_def)
qed

lemma kind_text: "kind \<in> set bracket_kinds \<Longrightarrow> \<exists>k. kind = CHR ''R'' # k"
  by (auto simp: bracket_kinds_def)

lemma tail_strip: "strip (if u \<noteq> [] \<and> is_space (hd u) then tl u else u) = strip u"
  by (auto simp: strip_tl_space)

text \<open>C11: both spellings of a request, body or response line are read the same: with any id in the bracket and
  either dash, the record is the one of the old spelling with the cleaned id added, message included.\<close>

theorem stamped_bracket_reads_as_the_old_one:
  assumes "kind \<in> set bracket_kinds" and "CHR '')'' \<notin> set i" and "dash \<in> {'''', '' -'', '' - ''}" and "lvl \<noteq> ''ERROR''"
  shows "classify_and_extract cd lvl (kind @ '' (ReqID = '' @ i @ '')'' @ dash @ '':'' @ payload) body r
           = with_reqid (clean_id (Some i)) (classify_and_extract cd lvl (kind @ '':'' @ payload) body r)"
proof -
  obtain k where k: "kind = CHR ''R'' # k" using kind_text [OF assms(1)] by blast
  let ?tail = "\<lambda>u. if u \<noteq> [] \<and> is_space (hd u) then tl u else u"
  have one: "strip (kind @ '' (ReqID = '' @ i @ '')'' @ dash @ '':'' @ payload)
      = kind @ '' (ReqID = '' @ i @ '')'' @ dash @ CHR '':'' # rstrip payload"
    using strip_marked [of "k @ '' (ReqID = '' @ i @ '')'' @ dash" payload] by (simp add: k)
  have two: "strip (kind @ '':'' @ payload) = kind @ CHR '':'' # rstrip payload"
    using strip_marked [of k payload] by (simp add: k)
  have "match_bracket (kind @ '' (ReqID = '' @ i @ '')'' @ dash @ CHR '':'' # rstrip payload) = Some (kind, Some i, ?tail (rstrip payload))"
    by (rule match_bracket_kind [OF assms(1) bracket_tail_stamped [OF assms(2,3)]]) (simp add: lit_def)
  moreover have "match_bracket (kind @ CHR '':'' # rstrip payload) = Some (kind, None, ?tail (rstrip payload))"
    by (rule match_bracket_kind [OF assms(1) bracket_tail_old]) (simp add: lit_def)
  moreover have "classify_bracket cd kind (Some i) t r = with_reqid (clean_id (Some i)) (classify_bracket cd kind None t r)" for t
    by (simp add: classify_bracket_def Let_def clean_id_def text_of_def none_if_empty_def strip_def with_reqid_def)
  ultimately show ?thesis using assms(4) unfolding classify_and_extract_def one two Let_def by simp
qed

definition sample_codecs :: codecs where
  "sample_codecs = \<lparr>json_loads = (\<lambda>s. None), utf8_text = (\<lambda>s. s)\<rparr>"

lemma stamped_bracket_reads_as_the_old_one_witness:
  "lr_reqid (classify_and_extract sample_codecs ''INFO'' ''REQUEST (ReqID = ab) - : /x?a=1'' [] (bare_record 1 [] [])) = Some ''ab''"
  using stamped_bracket_reads_as_the_old_one [of "''REQUEST''" "''ab''" "'' - ''" "''INFO''" sample_codecs "'' /x?a=1''" "[]" "bare_record 1 [] []"]
  by (simp add: bracket_kinds_def) (simp add: with_reqid_def clean_id_def text_of_def none_if_empty_def strip_def is_space_def)

subsection \<open>The two spellings of an M3 line\<close>

lemma rstrip_length: "length (rstrip s) \<le> length s"
  using length_dropWhile_le [of is_space "rev s"] by (simp add: rstrip_def)

lemma strip_fixed:
  assumes "strip t = t"
  shows "rstrip t = t" and "skip_space t = t"
proof -
  have "length t \<le> length (dropWhile is_space t)"
    using assms rstrip_length [of "dropWhile is_space t"] by (simp add: strip_rstrip)
  then have "takeWhile is_space t = []"
    by (metis append_Nil2 append_eq_conv_conj length_dropWhile_le le_antisym takeWhile_dropWhile_id
        append_same_eq self_append_conv2 length_append add_cancel_left_left list.size(3) length_0_conv)
  then show "skip_space t = t" using takeWhile_dropWhile_id [of is_space t] by (simp add: skip_space_def)
  then show "rstrip t = t" using assms by (simp add: strip_rstrip skip_space_def)
qed

lemma no_bracket: "match_bracket (CHR ''('' # s) = None"
  by (simp add: match_bracket_def bracket_kinds_def lit_def)

lemma strip_stamped_mi:
  assumes "strip text = text" and "sep \<in> {'':'', '' -''}" and "gap \<in> {'''', '' ''}"
  shows "strip (''(ReqID = '' @ i @ '')'' @ sep @ gap @ text) = ''(ReqID = '' @ i @ '')'' @ sep @ (if text = [] then [] else gap @ text)"
proof -
  let ?h = "''(ReqID = '' @ i @ '')'' @ sep"
  have h: "rstrip ?h = ?h" using assms(2) rstrip_append [of "''(ReqID = '' @ i @ '')''" sep] by (auto simp: rstrip_def)
  have "rstrip (?h @ gap @ text) = ?h @ (if text = [] then [] else gap @ text)"
  proof (cases "text = []")
    case True
    then have "rstrip (gap @ text) = []" using assms(3) by (auto simp: rstrip_def)
    then show ?thesis using h True rstrip_append [of ?h "gap @ text"] by (simp del: append_assoc)
  next
    case False
    then have "rstrip (gap @ text) = gap @ text"
      using strip_fixed(1) [OF assms(1)] by (simp add: rstrip_append)
    then show ?thesis using False rstrip_append [of ?h "gap @ text"] by (simp del: append_assoc)
  qed
  then show ?thesis by (simp add: strip_Cons)
qed

lemma match_stamped_mi:
  assumes "CHR '')'' \<notin> set i" and "strip text = text" and "sep \<in> {'':'', '' -''}" and "gap \<in> {'''', '' ''}"
  shows "match_mi_reqid (''(ReqID = '' @ i @ CHR '')'' # sep @ (if text = [] then [] else gap @ text)) = Some (i, text)"
proof -
  let ?t = "if text = [] then [] else gap @ text"
  have "skip_space ?t = text" using strip_fixed(2) [OF assms(2)] assms(4) by (auto simp: skip_space_def)
  moreover have "(case lit '':'' (sep @ ?t) of Some t \<Rightarrow> t | None \<Rightarrow> skip_lit '' -'' (sep @ ?t)) = ?t"
    using assms(3) by (auto simp: lit_def skip_lit_def)
  ultimately show ?thesis using reqid_mark_scan [OF assms(1), of "sep @ ?t"] by (simp add: match_mi_reqid_def)
qed

text \<open>both spellings of an M3 call or result line are read the same: the program, transaction, result, inputs,
  outputs and records are those of the text behind the id, which becomes the message.\<close>

theorem stamped_m3_line_reads_as_the_old_one:
  assumes "lr_method r \<in> {Some ''LogAPICall'', Some ''LogAPIResult''}" and "lvl \<noteq> ''ERROR''" and "CHR '')'' \<notin> set i"
    and "sep \<in> {'':'', '' -''}" and "gap \<in> {'''', '' ''}"
    and "strip text = text" and "match_bracket text = None" and "match_mi_reqid text = None"
  shows "classify_and_extract cd lvl (''(ReqID = '' @ i @ '')'' @ sep @ gap @ text) body r
           = with_reqid (clean_id (Some i)) (classify_and_extract cd lvl text body (r\<lparr>lr_message := text\<rparr>))"
proof -
  let ?msg = "''(ReqID = '' @ i @ '')'' @ sep @ (if text = [] then [] else gap @ text)"
  have m: "match_mi_reqid ?msg = Some (i, text)"
    using match_stamped_mi [OF assms(3,6,4,5)] by simp
  have b: "match_bracket ?msg = None" using no_bracket by simp
  have call: "lr_method r = Some ''LogAPICall'' \<or> lr_method r = Some ''LogAPIResult''" using assms(1) by simp
  have "classify_mi cd ?msg raw body r = with_reqid (clean_id (Some i)) (classify_mi cd text text body (r\<lparr>lr_message := text\<rparr>))" for raw
    unfolding classify_mi_def m assms(8) by (simp add: with_reqid_def)
  moreover have "classify_and_extract cd lvl (''(ReqID = '' @ i @ '')'' @ sep @ gap @ text) body r
      = classify_mi cd ?msg (''(ReqID = '' @ i @ '')'' @ sep @ gap @ text) body r"
    unfolding classify_and_extract_def strip_stamped_mi [OF assms(6,4,5)] Let_def b using assms(1,2) by simp
  moreover have "classify_and_extract cd lvl text body (r\<lparr>lr_message := text\<rparr>) = classify_mi cd text text body (r\<lparr>lr_message := text\<rparr>)"
    unfolding classify_and_extract_def assms(6) Let_def assms(7) using call assms(2) by auto
  ultimately show ?thesis by simp
qed

lemma stamped_m3_line_reads_as_the_old_one_witness:
  "classify_and_extract sample_codecs ''INFO'' ''(ReqID = q1) - MI Program: M  Transaction: T Result: OK'' ''Record: 1''
       ((bare_record 1 [] [])\<lparr>lr_method := Some ''LogAPIResult''\<rparr>)
     = with_reqid (Some ''q1'') (classify_and_extract sample_codecs ''INFO'' ''MI Program: M  Transaction: T Result: OK'' ''Record: 1''
       ((bare_record 1 ''MI Program: M  Transaction: T Result: OK'' [])\<lparr>lr_method := Some ''LogAPIResult''\<rparr>))"
  (is "?l = ?r")
proof -
  let ?text = "''MI Program: M  Transaction: T Result: OK''"
  have s: "strip ?text = ?text" and b: "match_bracket ?text = None" and m: "match_mi_reqid ?text = None" by code_simp+
  show ?thesis
    using stamped_m3_line_reads_as_the_old_one [OF _ _ _ _ _ s b m, of "(bare_record 1 [] [])\<lparr>lr_method := Some ''LogAPIResult''\<rparr>"
        "''INFO''" "''q1''" "'' -''" "'' ''" sample_codecs "''Record: 1''"]
    by (simp add: bare_record_def clean_id_def text_of_def none_if_empty_def strip_def is_space_def)
qed

end
