(* ===== verification/IngestProperties.thy ===== *)
theory IngestProperties
  imports Ingest Timestamps ParserProperties
begin

text \<open>
  Stage 1 stores every line of a file exactly once and tickets what it stored. The loop with its batches is
  first shown to be one deduplicating insert of the rows it keeps (\<open>ingest_records_obs\<close>); the properties follow
  from the laws of that insert.
\<close>

subsection \<open>The deduplicating insert\<close>

fun fresh_rows :: "row_key set \<Rightarrow> log_entry list \<Rightarrow> log_entry list" where
  "fresh_rows K [] = []"
| "fresh_rows K (e # es) = (if entry_key e \<in> K then fresh_rows K es else e # fresh_rows (insert (entry_key e) K) es)"

definition keys :: "store \<Rightarrow> row_key set" where
  "keys s = entry_key ` set (log_entries s)"

lemma insert_one_keys:
  "insert_one e (ts, s) = (if entry_key e \<in> keys s then (ts, s) else (ts @ [timestamp e], s\<lparr>log_entries := log_entries s @ [e]\<rparr>))"
proof -
  have "list_ex (\<lambda>x. entry_key x = entry_key e) (log_entries s) \<longleftrightarrow> entry_key e \<in> keys s"
    by (auto simp: list_ex_iff keys_def) (metis rev_image_eqI)
  then show ?thesis by (simp add: insert_one_def)
qed

lemma keys_append: "keys (s\<lparr>log_entries := log_entries s @ es\<rparr>) = keys s \<union> entry_key ` set es"
  by (auto simp: keys_def)

lemma fold_insert_one:
  "fold insert_one rows (ts, s) =
     (ts @ map timestamp (fresh_rows (keys s) rows), s\<lparr>log_entries := log_entries s @ fresh_rows (keys s) rows\<rparr>)"
proof (induction rows arbitrary: ts s)
  case (Cons e es)
  show ?case
  proof (cases "entry_key e \<in> keys s")
    case True
    then show ?thesis using Cons.IH by (simp add: insert_one_keys)
  next
    case False
    have "keys (s\<lparr>log_entries := log_entries s @ [e]\<rparr>) = insert (entry_key e) (keys s)" by (simp add: keys_append)
    then show ?thesis using False Cons.IH [of "ts @ [timestamp e]" "s\<lparr>log_entries := log_entries s @ [e]\<rparr>"]
      by (simp add: insert_one_keys)
  qed
qed simp

lemma insert_dedup_rows:
  "insert_dedup rows s =
     (map timestamp (fresh_rows (keys s) rows), s\<lparr>log_entries := log_entries s @ fresh_rows (keys s) rows\<rparr>)"
  by (simp add: insert_dedup_def fold_insert_one)

lemma insert_dedup_append:
  "insert_dedup (xs @ ys) s =
     (case insert_dedup xs s of (ts, s') \<Rightarrow> (case insert_dedup ys s' of (us, s'') \<Rightarrow> (ts @ us, s'')))"
proof -
  obtain ts s' where a: "fold insert_one xs ([], s) = (ts, s')" by fastforce
  have "fold insert_one ys (ts, s') = (ts @ fst (fold insert_one ys ([], s')), snd (fold insert_one ys ([], s')))"
    by (simp add: fold_insert_one)
  then show ?thesis by (simp add: insert_dedup_def a split: prod.splits)
qed

lemma fresh_rows_new: "e \<in> set (fresh_rows K rows) \<Longrightarrow> e \<in> set rows \<and> entry_key e \<notin> K"
  by (induction K rows rule: fresh_rows.induct) (auto split: if_splits)

lemma fresh_rows_distinct: "distinct (map entry_key (fresh_rows K rows))"
proof (induction K rows rule: fresh_rows.induct)
  case (2 K e es)
  have "entry_key e \<notin> entry_key ` set (fresh_rows (insert (entry_key e) K) es)" using fresh_rows_new by fastforce
  then show ?case using 2 by simp
qed simp

lemma fresh_rows_all: "entry_key ` set rows \<subseteq> K \<union> entry_key ` set (fresh_rows K rows)"
  by (induction K rows rule: fresh_rows.induct) auto

lemma fresh_rows_none: "entry_key ` set rows \<subseteq> K \<Longrightarrow> fresh_rows K rows = []"
  by (induction K rows rule: fresh_rows.induct) auto

subsection \<open>What the loop stores\<close>

type_synonym obs = "(nat \<times> instant option \<times> instant option) \<times> store"

definition observe :: "ingest_state \<Rightarrow> obs" where
  "observe st = ((b_inserted st, b_lo st, b_hi st), b_store st)"

definition store_rows :: "log_entry list \<Rightarrow> obs \<Rightarrow> obs" where
  "store_rows rows x =
     (case x of ((n, lo, hi), s) \<Rightarrow>
        (case insert_dedup rows s of (ts, s') \<Rightarrow> ((n + length ts, fold lower_bound ts lo, fold upper_bound ts hi), s')))"

lemma store_rows_append: "store_rows (xs @ ys) x = store_rows ys (store_rows xs x)"
  by (auto simp: store_rows_def insert_dedup_append split: prod.splits)

lemma store_rows_Nil [simp]: "store_rows [] x = x"
  by (auto simp: store_rows_def insert_dedup_def split: prod.splits)

lemma flush_obs: "flush env st = Inr st' \<Longrightarrow> observe st' = store_rows (b_batch st) (observe st) \<and> b_drawn st' = b_drawn st"
  by (auto simp: flush_def observe_def store_rows_def split: option.splits prod.splits if_splits)

text \<open>The records that are not skipped as repetitions within their batch.\<close>

fun kept :: "(log_record \<Rightarrow> string) \<Rightarrow> string list \<Rightarrow> log_record list \<Rightarrow> log_record list" where
  "kept h seen [] = []"
| "kept h seen (r # rs) =
     (if h r \<in> set seen then kept h seen rs
      else r # kept h (if insert_batch \<le> Suc (length seen) then [] else h r # seen) rs)"

definition kept_rows :: "ingest_env \<Rightarrow> job \<Rightarrow> (instant \<Rightarrow> instant) \<Rightarrow> nat \<Rightarrow> log_record list \<Rightarrow> log_entry list" where
  "kept_rows env j zone n rs =
     map (\<lambda>(i, r). to_entry env j zone (i_uuid env i) (the (entry_type_of (lr_type r))) r) (enumerate n rs)"

lemma kept_rows_simps [simp]:
  "kept_rows env j zone n [] = []"
  "kept_rows env j zone n (r # rs) =
     to_entry env j zone (i_uuid env n) (the (entry_type_of (lr_type r))) r # kept_rows env j zone (Suc n) rs"
  by (simp_all add: kept_rows_def)

lemma fold_add_Inl: "fold (add_record env j zone) rs (Inl e) = Inl e"
  by (induction rs) (simp_all add: add_record_def)

lemma fold_add_obs:
  assumes "fold (add_record env j zone) rs (Inr st) = Inr st'" and "length (b_seen st) = length (b_batch st)"
  shows "store_rows (b_batch st') (observe st')
           = store_rows (b_batch st @ kept_rows env j zone (b_drawn st) (kept (entry_hash_of env) (b_seen st) rs)) (observe st)"
  using assms
proof (induction rs arbitrary: st)
  case (Cons r rs)
  let ?h = "entry_hash_of env r"
  let ?st1 = "st\<lparr>b_parsed := Suc (b_parsed st)\<rparr>"
  have step: "fold (add_record env j zone) rs (add_record env j zone r (Inr st)) = Inr st'" using Cons.prems by simp
  show ?case
  proof (cases "?h \<in> set (b_seen st)")
    case True
    then have "add_record env j zone r (Inr st) = Inr ?st1" by (simp add: add_record_def Let_def)
    then have "fold (add_record env j zone) rs (Inr ?st1) = Inr st'" using step by simp
    from Cons.IH [OF this] show ?thesis using Cons.prems(2) True by (simp add: observe_def)
  next
    case False
    obtain ty where ty: "entry_type_of (lr_type r) = Some ty"
      using step False fold_add_Inl by (cases "entry_type_of (lr_type r)") (auto simp: add_record_def Let_def)
    let ?e = "to_entry env j zone (i_uuid env (b_drawn st)) ty r"
    let ?st2 = "?st1\<lparr>b_seen := ?h # b_seen st, b_batch := b_batch st @ [?e], b_drawn := Suc (b_drawn st)\<rparr>"
    have obs2: "observe ?st2 = observe st" by (simp add: observe_def)
    show ?thesis
    proof (cases "insert_batch \<le> Suc (length (b_batch st))")
      case full: True
      obtain st3 where st3: "flush env ?st2 = Inr st3"
        using step False ty full fold_add_Inl by (cases "flush env ?st2") (auto simp: add_record_def Let_def)
      let ?st4 = "st3\<lparr>b_batch := [], b_seen := []\<rparr>"
      have "fold (add_record env j zone) rs (Inr ?st4) = Inr st'"
        using step False ty full st3 by (simp add: add_record_def Let_def)
      from Cons.IH [OF this] have "store_rows (b_batch st') (observe st')
          = store_rows (kept_rows env j zone (b_drawn st3) (kept (entry_hash_of env) [] rs)) (observe st3)"
        by (simp add: observe_def)
      moreover have "observe st3 = store_rows (b_batch st @ [?e]) (observe st)" "b_drawn st3 = Suc (b_drawn st)"
        using flush_obs [OF st3] obs2 by simp_all
      ultimately show ?thesis using False full ty Cons.prems(2)
          store_rows_append [of "[?e]" "kept_rows env j zone (Suc (b_drawn st)) (kept (entry_hash_of env) [] rs)" "store_rows (b_batch st) (observe st)"]
        by (simp add: store_rows_append)
    next
      case room: False
      have "fold (add_record env j zone) rs (Inr ?st2) = Inr st'"
        using step False ty room by (simp add: add_record_def Let_def)
      from Cons.IH [OF this] show ?thesis using False room ty Cons.prems(2) obs2 by simp
    qed
  qed
qed simp

lemma ingest_records_obs:
  assumes "ingest_records env j zone rs s = Inr st"
  shows "observe st = store_rows (kept_rows env j zone 0 (kept (entry_hash_of env) [] rs)) ((0, None, None), s)"
proof -
  obtain st1 where f: "fold (add_record env j zone) rs (Inr (start_state s)) = Inr st1" and g: "flush env st1 = Inr st"
    using assms by (auto simp: ingest_records_def split: sum.splits)
  have "observe st = store_rows (b_batch st1) (observe st1)" using flush_obs [OF g] by simp
  also have "\<dots> = store_rows (kept_rows env j zone 0 (kept (entry_hash_of env) [] rs)) ((0, None, None), s)"
    using fold_add_obs [OF f] by (simp add: start_state_def observe_def)
  finally show ?thesis .
qed

text \<open>Every parser type is a type of the table, so without faults the loop returns.\<close>

definition faultless :: "ingest_env \<Rightarrow> bool" where
  "faultless env \<longleftrightarrow> (\<forall>site. i_fault env site = None)"

definition typed :: "log_record \<Rightarrow> bool" where
  "typed r \<longleftrightarrow> entry_type_of (lr_type r) \<noteq> None"

lemma flush_faultless: "faultless env \<Longrightarrow> flush env st \<noteq> Inl e"
  by (auto simp: flush_def faultless_def split: prod.splits)

lemma map_sum_Inl: "map_sum id f x = Inl e \<longleftrightarrow> x = Inl e"
  by (cases x) auto

lemma add_record_faultless: "faultless env \<Longrightarrow> typed r \<Longrightarrow> add_record env j zone r (Inr st) \<noteq> Inl e"
  by (auto simp: add_record_def Let_def typed_def map_sum_Inl flush_faultless split: option.splits)

lemma ingest_records_returns:
  assumes "faultless env" and "\<forall>r \<in> set rs. typed r"
  shows "\<exists>st. ingest_records env j zone rs s = Inr st"
proof -
  have "\<exists>st'. fold (add_record env j zone) rs (Inr st) = Inr st'" for st
    using assms(2)
  proof (induction rs arbitrary: st)
    case (Cons r rs)
    obtain st1 where "add_record env j zone r (Inr st) = Inr st1"
      using add_record_faultless [OF assms(1), of r j zone st] Cons.prems by (cases "add_record env j zone r (Inr st)") auto
    then show ?case using Cons by auto
  qed simp
  then obtain st1 where f: "fold (add_record env j zone) rs (Inr (start_state s)) = Inr st1" by blast
  then show ?thesis using flush_faultless [OF assms(1), of st1] by (cases "flush env st1") (auto simp: ingest_records_def)
qed

lemma with_reqid_type [simp]: "lr_type (with_reqid i r) = lr_type r"
  by (simp add: with_reqid_def split: option.splits)

lemma extract_mi_type [simp]:
  "lr_type (extract_mi_call cd body r) = lr_type r" "lr_type (extract_mi_result msg body r) = lr_type r"
  by (simp_all add: extract_mi_call_def extract_mi_result_def Let_def split: option.splits prod.splits)

lemma typed_simps:
  "lr_type r = ''request'' \<Longrightarrow> typed r" "lr_type r = ''request_body'' \<Longrightarrow> typed r" "lr_type r = ''mi_call'' \<Longrightarrow> typed r"
  "lr_type r = ''mi_result'' \<Longrightarrow> typed r" "lr_type r = ''sql'' \<Longrightarrow> typed r" "lr_type r = ''response'' \<Longrightarrow> typed r"
  "lr_type r = ''info'' \<Longrightarrow> typed r" "lr_type r = ''error'' \<Longrightarrow> typed r"
  by (simp_all add: typed_def entry_type_of_def)

lemma classify_bracket_typed: "typed (classify_bracket cd kind i tail r)"
  unfolding classify_bracket_def Let_def
  by (cases "kind = ''REQUEST BODY''"; cases "kind = ''REQUEST''") (simp_all add: typed_simps)

lemma classify_mi_typed: "typed (classify_mi cd msg raw body r)"
  unfolding classify_mi_def Let_def
  by (cases "match_mi_reqid msg"; cases "lr_method r = Some ''LogAPICall''") (simp_all add: typed_simps split: prod.splits)

lemma classify_typed: "typed (classify_and_extract cd lvl msg body r)"
  unfolding classify_and_extract_def Let_def
  by (simp add: typed_simps classify_bracket_typed classify_mi_typed split: option.splits prod.splits)

lemma parse_typed: "\<forall>r \<in> set (parse cd text). typed r"
proof -
  have "typed (build_record cd e)" for e
    unfolding build_record_def Let_def
    by (simp add: classify_typed typed_simps bare_record_def split: prod.splits option.splits)
  then show ?thesis by (auto simp: parse_def)
qed

subsection \<open>The range of a ticket\<close>

lemma fold_lower_bound:
  "case fold lower_bound ts lo of
     None \<Rightarrow> lo = None \<and> known ts = []
   | Some l \<Rightarrow> (\<forall>t \<in> set (known ts). l \<le> t) \<and> (\<forall>x. lo = Some x \<longrightarrow> l \<le> x) \<and> (l \<in> set (known ts) \<or> lo = Some l)"
proof (induction ts arbitrary: lo rule: known.induct)
  case (2 ts)
  have "fold lower_bound (None # ts) lo = fold lower_bound ts lo" by (simp add: lower_bound_def)
  then show ?case using 2 [of lo] by (simp only: known.simps)
next
  case (3 t ts)
  define lo' where "lo' = lower_bound (Some t) lo"
  have "lo' = Some t \<and> (\<forall>x. lo = Some x \<longrightarrow> t \<le> x) \<or> lo' = lo \<and> (\<exists>x. lo = Some x \<and> x \<le> t)"
    by (auto simp: lo'_def lower_bound_def split: option.splits)
  then show ?case using "3.IH" [of lo'] unfolding fold_simps comp_apply lo'_def [symmetric]
    by (fastforce split: option.splits)
qed (simp split: option.splits)

lemma upper_is_lower: "fold upper_bound ts hi = map_option uminus (fold lower_bound (map (map_option uminus) ts) (map_option uminus hi))"
proof (induction ts arbitrary: hi)
  case (Cons t ts)
  have "map_option uminus (upper_bound t hi) = lower_bound (map_option uminus t) (map_option uminus hi)"
    by (auto simp: upper_bound_def lower_bound_def split: option.splits)
  then show ?case using Cons.IH by simp
qed (simp add: option.map_comp comp_def option.map_ident)

lemma known_uminus: "known (map (map_option uminus) ts) = map uminus (known ts)"
  by (induction ts rule: known.induct) simp_all

lemma fold_bounds_None:
  "fold lower_bound ts None = None \<longleftrightarrow> known ts = []" "fold upper_bound ts None = None \<longleftrightarrow> known ts = []"
proof -
  have low: "fold lower_bound xs None = None \<longleftrightarrow> known xs = []" for xs
    using fold_lower_bound [where ts = xs and lo = None] by (auto split: option.splits)
  then show "fold lower_bound ts None = None \<longleftrightarrow> known ts = []" .
  show "fold upper_bound ts None = None \<longleftrightarrow> known ts = []"
    using low [of "map (map_option uminus) ts"] upper_is_lower [where ts = ts and hi = None] by (simp add: known_uminus)
qed

lemma fold_bounds_Some:
  "fold lower_bound ts None = Some l \<Longrightarrow> l \<in> set (known ts) \<and> (\<forall>t \<in> set (known ts). l \<le> t)"
  "fold upper_bound ts None = Some h \<Longrightarrow> h \<in> set (known ts) \<and> (\<forall>t \<in> set (known ts). t \<le> h)"
proof -
  have low: "l \<in> set (known xs) \<and> (\<forall>t \<in> set (known xs). l \<le> t)" if "fold lower_bound xs None = Some l" for xs l
    using fold_lower_bound [where ts = xs and lo = None] that by simp
  then show "fold lower_bound ts None = Some l \<Longrightarrow> l \<in> set (known ts) \<and> (\<forall>t \<in> set (known ts). l \<le> t)" .
  assume "fold upper_bound ts None = Some h"
  then have "fold lower_bound (map (map_option uminus) ts) None = Some (- h)"
    using upper_is_lower [where ts = ts and hi = None] by auto
  from low [OF this] show "h \<in> set (known ts) \<and> (\<forall>t \<in> set (known ts). t \<le> h)" by (auto simp: known_uminus)
qed

lemma known_instants: "known (map timestamp es) = instants es"
proof (induction es)
  case (Cons e es)
  then show ?case by (cases "timestamp e") simp_all
qed simp

subsection \<open>What a successful file leaves behind\<close>

lemma ingest_body_parts:
  assumes "ingest_body env is clock j s = Inr (n, s')"
  shows "\<exists>text zone st. i_load env (j_storage_key j) = Inr text \<and> log_format is = ''m3_dotnet''
     \<and> i_zone_info env (case i_zone_raw env (j_customer j) of None \<Rightarrow> display_timezone is
            | Some z \<Rightarrow> if z = [] then display_timezone is else z) = Inr zone
     \<and> ingest_records env j zone (parse (i_codecs env) text) s = Inr st
     \<and> n = b_inserted st \<and> s' = enqueue_ticket (i_uuid env (b_drawn st)) (j_customer j) (ticket_range st) clock (b_store st)"
proof -
  have "get_log_parser f = Some p \<Longrightarrow> f = ''m3_dotnet'' \<and> p = parse" for f p
    by (simp add: get_log_parser_def split: if_splits)
  then show ?thesis using assms
    by (fastforce simp: ingest_body_def split: sum.splits option.splits)
qed

lemma stored_rows:
  assumes "ingest_records env j zone rs s = Inr st"
  shows "\<exists>added. added = fresh_rows (keys s) (kept_rows env j zone 0 (kept (entry_hash_of env) [] rs))
     \<and> b_store st = s\<lparr>log_entries := log_entries s @ added\<rparr> \<and> b_inserted st = length added
     \<and> b_lo st = fold lower_bound (map timestamp added) None \<and> b_hi st = fold upper_bound (map timestamp added) None"
  using ingest_records_obs [OF assms] by (simp add: observe_def store_rows_def insert_dedup_rows)

lemma kept_hashes: "h ` set rs \<subseteq> set seen \<union> h ` set (kept h seen rs)"
proof (induction h seen rs rule: kept.induct)
  case (2 h seen r rs)
  show ?case
  proof (cases "h r \<in> set seen")
    case True
    then show ?thesis using 2(1) by auto
  next
    case False
    define seen' where "seen' = (if insert_batch \<le> Suc (length seen) then [] else h r # seen)"
    have "h ` set rs \<subseteq> set seen' \<union> h ` set (kept h seen' rs)" using 2(2) [OF False] by (simp only: seen'_def)
    moreover have "set seen' \<subseteq> insert (h r) (set seen)" by (simp add: seen'_def)
    moreover have "kept h seen (r # rs) = r # kept h seen' rs" using False by (simp add: seen'_def)
    ultimately show ?thesis by auto
  qed
qed simp

lemma kept_subset: "set (kept h seen rs) \<subseteq> set rs"
  by (induction h seen rs rule: kept.induct) auto

lemma kept_rows_keys:
  "entry_key ` set (kept_rows env j zone n rs) = (\<lambda>r. (j_customer j, Some (entry_hash_of env r), map_option zone (lr_timestamp r))) ` set rs"
proof (induction rs arbitrary: n)
  case (Cons r rs)
  then show ?case by (simp add: entry_key_def to_entry_def)
qed simp

lemma enqueue_entries [simp]: "log_entries (enqueue_ticket uid cc r clock s) = log_entries s"
  by (simp add: enqueue_ticket_def split: option.splits)

lemma ingest_body_added:
  assumes "ingest_body env is clock j s = Inr (n, s')" and "i_load env (j_storage_key j) = Inr text"
  shows "\<exists>added zone. i_zone_info env (case i_zone_raw env (j_customer j) of None \<Rightarrow> display_timezone is
            | Some z \<Rightarrow> if z = [] then display_timezone is else z) = Inr zone
     \<and> added = fresh_rows (keys s) (kept_rows env j zone 0 (kept (entry_hash_of env) [] (parse (i_codecs env) text)))
     \<and> log_entries s' = log_entries s @ added \<and> n = length added \<and> log_format is = ''m3_dotnet''
     \<and> (if instants added = [] then s' = s\<lparr>log_entries := log_entries s @ added\<rparr>
        else \<exists>k lo hi. s' = s\<lparr>log_entries := log_entries s @ added, queue := queue s @ [open_ticket (i_uuid env k) (j_customer j) (lo, hi) clock]\<rparr>
          \<and> lo \<in> set (instants added) \<and> hi \<in> set (instants added) \<and> (\<forall>t \<in> set (instants added). lo \<le> t \<and> t \<le> hi))"
proof -
  obtain zone st where z: "i_zone_info env (case i_zone_raw env (j_customer j) of None \<Rightarrow> display_timezone is
            | Some z \<Rightarrow> if z = [] then display_timezone is else z) = Inr zone"
    and f: "log_format is = ''m3_dotnet''" and r: "ingest_records env j zone (parse (i_codecs env) text) s = Inr st"
    and n: "n = b_inserted st" and s': "s' = enqueue_ticket (i_uuid env (b_drawn st)) (j_customer j) (ticket_range st) clock (b_store st)"
    using ingest_body_parts [OF assms(1)] assms(2) by auto
  obtain added where a: "added = fresh_rows (keys s) (kept_rows env j zone 0 (kept (entry_hash_of env) [] (parse (i_codecs env) text)))"
    "b_store st = s\<lparr>log_entries := log_entries s @ added\<rparr>" "b_inserted st = length added"
    "b_lo st = fold lower_bound (map timestamp added) None" "b_hi st = fold upper_bound (map timestamp added) None"
    using stored_rows [OF r] by blast
  have range: "if instants added = [] then ticket_range st = None
     else \<exists>lo hi. ticket_range st = Some (lo, hi) \<and> lo \<in> set (instants added) \<and> hi \<in> set (instants added)
        \<and> (\<forall>t \<in> set (instants added). lo \<le> t \<and> t \<le> hi)"
  proof (cases "instants added = []")
    case True
    then have "b_lo st = None" unfolding a(4) by (simp add: fold_bounds_None known_instants)
    then show ?thesis using True by (simp add: ticket_range_def)
  next
    case False
    then have "b_lo st \<noteq> None" "b_hi st \<noteq> None" unfolding a(4,5) by (simp_all add: fold_bounds_None known_instants)
    then obtain lo hi where lh: "b_lo st = Some lo" "b_hi st = Some hi" by blast
    have "added \<noteq> []" using False by auto
    then have "ticket_range st = Some (lo, hi)" using lh a(3) by (simp add: ticket_range_def)
    moreover have "fold lower_bound (map timestamp added) None = Some lo" "fold upper_bound (map timestamp added) None = Some hi"
      using lh a(4,5) by simp_all
    ultimately show ?thesis using False fold_bounds_Some [where ts = "map timestamp added"] by (simp add: known_instants)
  qed
  show ?thesis
  proof (intro exI conjI)
    show "if instants added = [] then s' = s\<lparr>log_entries := log_entries s @ added\<rparr>
        else \<exists>k lo hi. s' = s\<lparr>log_entries := log_entries s @ added, queue := queue s @ [open_ticket (i_uuid env k) (j_customer j) (lo, hi) clock]\<rparr>
          \<and> lo \<in> set (instants added) \<and> hi \<in> set (instants added) \<and> (\<forall>t \<in> set (instants added). lo \<le> t \<and> t \<le> hi)"
    proof (cases "instants added = []")
      case True
      then show ?thesis using range a(2) by (simp add: s' enqueue_ticket_def)
    next
      case False
      then obtain lo hi where "ticket_range st = Some (lo, hi)" "lo \<in> set (instants added)" "hi \<in> set (instants added)"
        "\<forall>t \<in> set (instants added). lo \<le> t \<and> t \<le> hi" using range by auto
      then show ?thesis using False a(2) unfolding s' enqueue_ticket_def if_not_P [OF False]
        by (intro exI [of _ "b_drawn st"] exI [of _ lo] exI [of _ hi]) simp
    qed
  qed (use z f n s' a in simp_all)
qed

lemma ingest_body_keys:
  assumes "ingest_body env is clock j s = Inr (n, s')" and "i_load env (j_storage_key j) = Inr text"
    and "i_zone_info env (case i_zone_raw env (j_customer j) of None \<Rightarrow> display_timezone is
            | Some z \<Rightarrow> if z = [] then display_timezone is else z) = Inr zone"
  shows "entry_key ` set (kept_rows env j zone 0 (kept (entry_hash_of env) [] (parse (i_codecs env) text))) \<subseteq> keys s'"
proof -
  obtain added where "added = fresh_rows (keys s) (kept_rows env j zone 0 (kept (entry_hash_of env) [] (parse (i_codecs env) text)))"
    and "log_entries s' = log_entries s @ added"
    using ingest_body_added [OF assms(1,2)] assms(3) by auto
  then have "keys s' = keys s \<union> entry_key ` set (fresh_rows (keys s) (kept_rows env j zone 0 (kept (entry_hash_of env) [] (parse (i_codecs env) text))))"
    by (auto simp: keys_def)
  then show ?thesis using fresh_rows_all by metis
qed

text \<open>A file with a stray line, a request with a continuation line, and the same request again.\<close>

definition sample_line :: string where
  "sample_line = ''2026-05-19 13:42:33,362 (A) [9] INFO  L M - REQUEST: /x?a=1''"

definition sample_file :: string where
  "sample_file = join newline [''stray'', sample_line, '' more'', sample_line, '' more'']"

definition sample_ingest :: ingest_env where
  "sample_ingest = \<lparr>i_load = (\<lambda>key. Inr sample_file), i_codecs = sample_codecs, i_sha = (\<lambda>s. s), i_zone_raw = (\<lambda>cc. None),
     i_zone_info = (\<lambda>z. Inr (\<lambda>t. t - seconds 3600)), i_uuid = (\<lambda>n. n), i_fault = (\<lambda>site. None)\<rparr>"

definition sample_ingest_settings :: ingest_settings where
  "sample_ingest_settings = \<lparr>log_format = ''m3_dotnet'', display_timezone = ''Europe/London''\<rparr>"

definition sample_job :: job where
  "sample_job = \<lparr>j_id = 4, j_customer = ''BID'', j_filename = ''srv/a.log'', j_storage_key = ''k'', j_status = Job_pending,
     j_chunks = 0, j_error = None\<rparr>"

lemma sample_ingested: "\<exists>s'. ingest_body sample_ingest sample_ingest_settings 7 sample_job empty_store = Inr (1, s')"
proof -
  have "(case ingest_body sample_ingest sample_ingest_settings 7 sample_job empty_store of Inl e \<Rightarrow> False | Inr (n, s') \<Rightarrow> n = 1)"
    by code_simp
  then show ?thesis by (auto split: sum.splits)
qed

text \<open>C4: a file is stored completely and once: after a successful run every record of the file is in the table
  under its content hash, the rows added are new, pairwise different in tenant, hash and instant, belong to the
  job and are as many as the run reports, and no older row is changed.\<close>

theorem every_line_is_stored_once:
  assumes "ingest_body env is clock j s = Inr (n, s')" and "i_load env (j_storage_key j) = Inr text"
  shows "\<exists>added. log_entries s' = log_entries s @ added \<and> n = length added \<and> distinct (map entry_key added)
     \<and> (\<forall>e \<in> set added. entry_key e \<notin> entry_key ` set (log_entries s) \<and> customer_code e = j_customer j \<and> job_id e = j_id j)
     \<and> (\<forall>r \<in> set (parse (i_codecs env) text). \<exists>e \<in> set (log_entries s').
          customer_code e = j_customer j \<and> entry_hash e = Some (i_sha env (lr_raw r)))"
proof -
  let ?h = "entry_hash_of env" and ?rs = "parse (i_codecs env) text"
  obtain added zone where added: "added = fresh_rows (keys s) (kept_rows env j zone 0 (kept ?h [] ?rs))"
    and log: "log_entries s' = log_entries s @ added" and n: "n = length added"
    and z: "i_zone_info env (case i_zone_raw env (j_customer j) of None \<Rightarrow> display_timezone is
            | Some z \<Rightarrow> if z = [] then display_timezone is else z) = Inr zone"
    using ingest_body_added [OF assms] by blast
  have own: "customer_code e = j_customer j \<and> job_id e = j_id j" if "e \<in> set (kept_rows env j zone 0 rs)" for e rs
    using that by (auto simp: kept_rows_def to_entry_def)
  have new: "entry_key e \<notin> entry_key ` set (log_entries s) \<and> customer_code e = j_customer j \<and> job_id e = j_id j"
    if "e \<in> set added" for e
  proof -
    have "e \<in> set (kept_rows env j zone 0 (kept ?h [] ?rs)) \<and> entry_key e \<notin> keys s"
      using fresh_rows_new that unfolding added by blast
    then show ?thesis using own [of e "kept ?h [] ?rs"] by (simp add: keys_def)
  qed
  have "\<exists>e \<in> set (log_entries s'). customer_code e = j_customer j \<and> entry_hash e = Some (?h r)" if "r \<in> set ?rs" for r
  proof -
    have "?h r \<in> ?h ` set (kept ?h [] ?rs)" using kept_hashes [of ?h ?rs "[]"] that by auto
    then obtain r' where r': "r' \<in> set (kept ?h [] ?rs)" "?h r' = ?h r" by auto
    then have "(j_customer j, Some (?h r'), map_option zone (lr_timestamp r')) \<in> keys s'"
      using ingest_body_keys [OF assms z] unfolding kept_rows_keys by auto
    then show ?thesis using r'(2) by (auto simp: keys_def entry_key_def)
  qed
  then show ?thesis using log n new fresh_rows_distinct added by (auto simp: entry_hash_of_def)
qed

lemma every_line_is_stored_once_witness:
  "\<exists>s' e. ingest_body sample_ingest sample_ingest_settings 7 sample_job empty_store = Inr (1, s') \<and> log_entries s' = [e]
     \<and> customer_code e = ''BID'' \<and> job_id e = 4"
proof -
  obtain s' where i: "ingest_body sample_ingest sample_ingest_settings 7 sample_job empty_store = Inr (1, s')"
    using sample_ingested by blast
  moreover have "i_load sample_ingest (j_storage_key sample_job) = Inr sample_file" by (simp add: sample_ingest_def)
  ultimately obtain added where "log_entries s' = added" "length added = 1"
    "\<forall>e \<in> set added. customer_code e = ''BID'' \<and> job_id e = 4"
    using every_line_is_stored_once [of sample_ingest sample_ingest_settings 7 sample_job empty_store 1 s' sample_file]
    by (auto simp: empty_store_def sample_job_def)
  then show ?thesis using i by (cases added) auto
qed

text \<open>C34: what was stored will be stitched: a run that adds lines with an instant puts one open ticket of the tenant
  on the queue, due at once, whose range is exactly spanned by the new lines; otherwise the queue is unchanged.\<close>

theorem ticket_spans_the_new_lines:
  assumes "ingest_body env is clock j s = Inr (n, s')"
  shows "\<exists>added. log_entries s' = log_entries s @ added
     \<and> (if instants added = [] then queue s' = queue s
        else \<exists>q. queue s' = queue s @ [q] \<and> due (j_customer j) clock q \<and> q_attempts q = 0
          \<and> q_start q \<in> set (instants added) \<and> q_end q \<in> set (instants added)
          \<and> (\<forall>t \<in> set (instants added). q_start q \<le> t \<and> t \<le> q_end q))"
proof -
  obtain doc where "i_load env (j_storage_key j) = Inr doc" using ingest_body_parts [OF assms] by blast
  from ingest_body_added [OF assms this] obtain added where log: "log_entries s' = log_entries s @ added"
    and q: "if instants added = [] then s' = s\<lparr>log_entries := log_entries s @ added\<rparr>
        else \<exists>k lo hi. s' = s\<lparr>log_entries := log_entries s @ added, queue := queue s @ [open_ticket (i_uuid env k) (j_customer j) (lo, hi) clock]\<rparr>
          \<and> lo \<in> set (instants added) \<and> hi \<in> set (instants added) \<and> (\<forall>t \<in> set (instants added). lo \<le> t \<and> t \<le> hi)" by blast
  show ?thesis
  proof (intro exI conjI)
    show "if instants added = [] then queue s' = queue s
        else \<exists>q. queue s' = queue s @ [q] \<and> due (j_customer j) clock q \<and> q_attempts q = 0
          \<and> q_start q \<in> set (instants added) \<and> q_end q \<in> set (instants added)
          \<and> (\<forall>t \<in> set (instants added). q_start q \<le> t \<and> t \<le> q_end q)"
      using q by (auto simp: open_ticket_def due_def)
  qed (rule log)
qed

lemma ticket_spans_the_new_lines_witness:
  "\<exists>s' added. ingest_body sample_ingest sample_ingest_settings 7 sample_job empty_store = Inr (1, s') \<and> log_entries s' = added
     \<and> (instants added = [] \<and> queue s' = [] \<or> (\<exists>q. queue s' = [q] \<and> q_start q \<in> set (instants added) \<and> due ''BID'' 7 q))"
proof -
  obtain s' where i: "ingest_body sample_ingest sample_ingest_settings 7 sample_job empty_store = Inr (1, s')"
    using sample_ingested by blast
  show ?thesis using ticket_spans_the_new_lines [OF i] i by (auto simp: empty_store_def sample_job_def split: if_splits)
qed

text \<open>C12: reading the same lines again stores nothing: once a file is stored, a job of the same tenant with the same
  text, whatever its file name, whatever was stored since and whatever fails, either adds no row and no ticket or
  does not return, which takes a fault. The tenant's timezone setting must be what it was: an instant is part of the
  key, so a tenant moved to another zone has its old files stored again (see the example below).\<close>

theorem reingest_stores_nothing:
  assumes "ingest_body env is clock j s = Inr (n, s')" and "set (log_entries s') \<subseteq> set (log_entries t)"
    and "j_customer j' = j_customer j" and "i_load env (j_storage_key j') = i_load env (j_storage_key j)"
    and "raw (j_customer j) = i_zone_raw env (j_customer j)"
  shows "case ingest_body (env\<lparr>i_uuid := fresh, i_fault := faults, i_zone_raw := raw\<rparr>) is clock' j' t of
     Inr r \<Rightarrow> r = (0, t) | Inl e \<Rightarrow> \<exists>site. faults site \<noteq> None"
proof -
  let ?env = "env\<lparr>i_uuid := fresh, i_fault := faults, i_zone_raw := raw\<rparr>"
  obtain doc zone where doc: "i_load env (j_storage_key j) = Inr doc" and f: "log_format is = ''m3_dotnet''"
    and z: "i_zone_info env (case i_zone_raw env (j_customer j) of None \<Rightarrow> display_timezone is
            | Some z \<Rightarrow> if z = [] then display_timezone is else z) = Inr zone"
    using ingest_body_parts [OF assms(1)] by blast
  have h: "entry_hash_of ?env = entry_hash_of env" by (rule ext) (simp add: entry_hash_of_def)
  have old: "entry_key ` set (kept_rows ?env j' zone 0 (kept (entry_hash_of env) [] (parse (i_codecs env) doc))) \<subseteq> keys t"
    using ingest_body_keys [OF assms(1) doc z] assms(2,3) unfolding kept_rows_keys h by (auto simp: keys_def)
  have load: "i_load ?env (j_storage_key j') = Inr doc" using doc assms(4) by simp
  show ?thesis
  proof (cases "ingest_records ?env j' zone (parse (i_codecs env) doc) t")
    case (Inl e)
    then have "\<not> faultless ?env" using ingest_records_returns [of ?env "parse (i_codecs env) doc" j' zone t] parse_typed by auto
    then have "\<exists>site. faults site \<noteq> None" by (simp add: faultless_def)
    then show ?thesis using f z Inl assms(3,5) load by (auto simp: ingest_body_def get_log_parser_def)
  next
    case (Inr st)
    have "b_store st = t \<and> b_inserted st = 0" using stored_rows [OF Inr] fresh_rows_none [of _ "keys t"] old unfolding h by fastforce
    moreover from this have "ticket_range st = None" by (simp add: ticket_range_def split: option.splits)
    ultimately show ?thesis using f z Inr assms(3,5) load
      by (auto simp: ingest_body_def get_log_parser_def enqueue_ticket_def split: option.splits)
  qed
qed

lemma reingest_stores_nothing_witness:
  "\<exists>s'. ingest_body sample_ingest sample_ingest_settings 7 sample_job empty_store = Inr (1, s')
     \<and> ingest_body (sample_ingest\<lparr>i_uuid := (\<lambda>n. n + 50), i_fault := (\<lambda>site. None), i_zone_raw := (\<lambda>cc. None)\<rparr>)
         sample_ingest_settings 8 (sample_job\<lparr>j_id := 5, j_filename := ''srv/a.log.1''\<rparr>) s' = Inr (0, s')"
proof -
  obtain s' where i: "ingest_body sample_ingest sample_ingest_settings 7 sample_job empty_store = Inr (1, s')"
    using sample_ingested by blast
  show ?thesis
    using reingest_stores_nothing [OF i subset_refl, where j' = "sample_job\<lparr>j_id := 5, j_filename := ''srv/a.log.1''\<rparr>"
        and raw = "\<lambda>cc. None" and fresh = "\<lambda>n. n + 50" and faults = "\<lambda>site. None" and clock' = 8] i
    by (auto simp: sample_job_def sample_ingest_def split: sum.splits)
qed

text \<open>The tenant's setting changes between two reads of the same file: its line is stored a second time.\<close>

lemma timezone_change_stores_again:
  "(case ingest_body sample_ingest sample_ingest_settings 7 sample_job empty_store of Inl e \<Rightarrow> None
    | Inr (n, s') \<Rightarrow> (case ingest_body (sample_ingest\<lparr>i_uuid := (\<lambda>n. n + 50), i_zone_info := (\<lambda>z. Inr id)\<rparr>) sample_ingest_settings 8
                        (sample_job\<lparr>j_id := 5\<rparr>) s' of Inl e \<Rightarrow> None | Inr (m, s'') \<Rightarrow> Some (n, m, length (log_entries s'')))) = Some (1, 1, 2)"
  by code_simp

end
