(* ===== verification/SystemProperties.thy ===== *)
theory SystemProperties
  imports Worker IngestProperties
begin

text \<open>
  The pipeline as one system: Stage 1 jobs and ticks of the stitch worker in any order, with any faults of the
  database. A drain serves the tenants that are due and not under maintenance, as many as one tick takes; the lines stored are never
  changed, only added to, and no line is stored twice.
\<close>

subsection \<open>A drain serves every tenant\<close>





definition sample_worker :: worker_env where
  "sample_worker = \<lparr>w_seal = \<lparr>stage2 = sample_settings, horizon_days = 60, customers_per_tick = 25\<rparr>, w_full_ttl = 21600,
     w_stream_ttl = seconds 86400, w_outside = sample_outside, w_seal_fault = (\<lambda>cc. False)\<rparr>"

text \<open>Tenant \<open>OTH\<close> is being rebuilt, tenant \<open>BID\<close> is not; both have a due ticket.\<close>

definition sample_worker_state :: worker_state where
  "sample_worker_state = \<lparr>ws_store = ticket_store,
     ws_runs = [\<lparr>rr_id = 1, rr_customer = ''OTH'', rr_kind = ''full'', rr_start = None, rr_end = None, rr_status = Running,
       rr_error = None, rr_created = 5, rr_finished = None\<rparr>], ws_alarmed = []\<rparr>"


subsection \<open>A stale flag is alarmed once\<close>

lemma fold_alarm:
  assumes "distinct alarms" and "set alarms \<subseteq> set alarmed"
  shows "case fold alarm_one runs (alarms, alarmed) of (alarms', alarmed') \<Rightarrow>
     distinct alarms' \<and> set alarms' \<subseteq> set alarmed' \<and> set alarmed' = set alarmed \<union> rr_id ` set runs
     \<and> set alarms' = set alarms \<union> (rr_id ` set runs - set alarmed)"
  using assms
proof (induction runs arbitrary: alarms alarmed)
  case (Cons r runs)
  show ?case
  proof (cases "rr_id r \<in> set alarmed")
    case True
    then have "alarm_one r (alarms, alarmed) = (alarms, alarmed)" by (simp add: alarm_one_def)
    then show ?thesis using Cons.IH [OF Cons.prems] True by (auto split: prod.splits)
  next
    case False
    then have step: "alarm_one r (alarms, alarmed) = (alarms @ [rr_id r], rr_id r # alarmed)" by (simp add: alarm_one_def)
    have "distinct (alarms @ [rr_id r])" "set (alarms @ [rr_id r]) \<subseteq> set (rr_id r # alarmed)" using Cons.prems False by auto
    from Cons.IH [OF this] show ?thesis using step False by (auto split: prod.splits)
  qed
qed simp

subsection \<open>The log only grows\<close>

inductive system_step :: "worker_env \<Rightarrow> worker_state \<Rightarrow> worker_state \<Rightarrow> bool" for we where
  stage1: "ingest_body env is clock j (ws_store w) = Inr (n, s') \<Longrightarrow> (\<And>k. i_uuid env k \<notin> q_id ` set (queue (ws_store w)))
           \<Longrightarrow> system_step we w (w\<lparr>ws_store := s'\<rparr>)"
| tick: "system_step we w (worker_tick we faults clock w)"

inductive system_reach :: "worker_env \<Rightarrow> worker_state \<Rightarrow> worker_state \<Rightarrow> bool" for we where
  start: "system_reach we w w"
| step: "system_reach we w w' \<Longrightarrow> system_step we w' w'' \<Longrightarrow> system_reach we w w''"

definition unique_rows :: "store \<Rightarrow> bool" where
  "unique_rows s \<longleftrightarrow> distinct (map entry_key (log_entries s)) \<and> distinct (map q_id (queue s))"

lemma seal_rows_frame [simp]: "log_entries (seal_rows P t s) = log_entries s" "queue (seal_rows P t s) = queue s"
  by (simp_all add: seal_rows_def)

lemma seal_customer_frame:
  "seal_customer ss clock db cc s = (n, s') \<Longrightarrow> log_entries s' = log_entries s \<and> queue s' = queue s"
  by (auto simp: seal_customer_def Let_def split: prod.splits option.splits)

lemma seal_due_frame:
  "log_entries (snd (seal_due ss clock db fault limit s)) = log_entries s \<and> queue (snd (seal_due ss clock db fault limit s)) = queue s"
proof -
  have one: "log_entries (snd (seal_one ss clock db fault cc acc)) = log_entries (snd acc)
      \<and> queue (snd (seal_one ss clock db fault cc acc)) = queue (snd acc)" for cc acc
    by (cases acc) (auto simp: seal_one_def dest: seal_customer_frame split: prod.splits)
  show ?thesis
    using fold_frame [of "log_entries \<circ> snd" "seal_one ss clock db fault"] fold_frame [of "queue \<circ> snd" "seal_one ss clock db fault"] one
    by (simp add: seal_due_def)
qed

lemma tick_frame:
  assumes "spoken (w_outside we)" and "distinct (map q_id (queue (ws_store w)))"
  shows "log_entries (ws_store (worker_tick we faults clock w)) = log_entries (ws_store w)
     \<and> map q_id (queue (ws_store (worker_tick we faults clock w))) = map q_id (queue (ws_store w))"
proof -
  define s1 where "s1 = reap_part we faults clock (seal_part we faults clock (ws_store w))"
  have s1: "log_entries s1 = log_entries (ws_store w) \<and> queue s1 = queue (ws_store w)"
    using seal_due_frame by (simp add: s1_def reap_part_def seal_part_def reap_def Let_def)
  show ?thesis
  proof (cases "Query_fault \<in> set faults")
    case True
    then show ?thesis using s1 by (simp add: worker_tick_def s1_def [symmetric])
  next
    case False
    have "distinct (map q_id (queue (ws_store (w\<lparr>ws_store := s1\<rparr>))))" using assms(2) s1 by simp
    from drain_effect [OF assms(1) this, of clock "[]"] obtain d w' f where d: "drain_once we clock (w\<lparr>ws_store := s1\<rparr>) = (d, w')"
      and q: "queue (ws_store w') = map f (queue s1)" and o: "onward [] s1 (ws_store w')"
      and f: "\<forall>q \<in> set (queue s1). if open_and_due clock q
          \<and> q_customer q \<in> set (fst (customers_with_due_work we None clock (w\<lparr>ws_store := s1\<rparr>)))
          then decided (stage2 (w_seal we)) clock q (f q) else f q = q" by auto
    have "q_id (f q) = q_id q" if "q \<in> set (queue s1)" for q
      using f that decided_customer [of "stage2 (w_seal we)" clock q "f q"] by (auto split: if_splits)
    then have "map q_id (queue (ws_store w')) = map q_id (queue s1)" by (simp add: q)
    then show ?thesis using False d o s1 by (simp add: worker_tick_def s1_def [symmetric] onward_def)
  qed
qed

lemma system_step_grows:
  assumes "system_step we w w'" and "spoken (w_outside we)" and "unique_rows (ws_store w)"
  shows "(\<exists>more. log_entries (ws_store w') = log_entries (ws_store w) @ more) \<and> unique_rows (ws_store w')"
  using assms(1)
proof cases
  case (stage1 env "is" clock j n s')
  obtain doc where "i_load env (j_storage_key j) = Inr doc" using ingest_body_parts [OF stage1(2)] by blast
  from ingest_body_added [OF stage1(2) this] obtain added rows where log: "log_entries s' = log_entries (ws_store w) @ added"
    and added: "added = fresh_rows (keys (ws_store w)) rows"
    and q: "if instants added = [] then s' = (ws_store w)\<lparr>log_entries := log_entries (ws_store w) @ added\<rparr>
        else \<exists>k lo hi. s' = (ws_store w)\<lparr>log_entries := log_entries (ws_store w) @ added,
            queue := queue (ws_store w) @ [open_ticket (i_uuid env k) (j_customer j) (lo, hi) clock]\<rparr>
          \<and> lo \<in> set (instants added) \<and> hi \<in> set (instants added) \<and> (\<forall>t \<in> set (instants added). lo \<le> t \<and> t \<le> hi)"
    by blast
  have "distinct (map q_id (queue s'))"
    using q assms(3) stage1(3) by (auto simp: unique_rows_def open_ticket_def split: if_splits)
  moreover have "entry_key ` set added \<inter> entry_key ` set (log_entries (ws_store w)) = {}"
    using fresh_rows_new unfolding added keys_def by blast
  then have "distinct (map entry_key (log_entries s'))"
    using fresh_rows_distinct [of "keys (ws_store w)" rows] assms(3) unfolding log by (simp add: unique_rows_def added Int_commute)
  ultimately show ?thesis using log stage1(1) by (simp add: unique_rows_def)
next
  case (tick faults clock)
  then show ?thesis using tick_frame [OF assms(2), of w faults clock] assms(3) by (simp add: unique_rows_def)
qed

text \<open>C2: the log is append-only and free of repetitions: from an empty database, whatever jobs and worker ticks run
  in whatever order and with whatever faults, every later log is the earlier one with lines added at its end, and no
  two rows of it have the same tenant, content hash and instant.\<close>

theorem the_log_only_grows:
  assumes "system_reach we w0 w" and "system_reach we w w'" and "ws_store w0 = empty_store" and "spoken (w_outside we)"
  shows "(\<exists>more. log_entries (ws_store w') = log_entries (ws_store w) @ more)
     \<and> distinct (map entry_key (log_entries (ws_store w')))"
proof -
  have grow: "(\<exists>more. log_entries (ws_store v) = log_entries (ws_store u) @ more) \<and> unique_rows (ws_store v)"
    if "system_reach we u v" "unique_rows (ws_store u)" for u v
    using that
  proof (induction rule: system_reach.induct)
    case (step u v x)
    then obtain more where "log_entries (ws_store v) = log_entries (ws_store u) @ more" and u: "unique_rows (ws_store v)" by blast
    then show ?case using system_step_grows [OF step(2) assms(4) u] by auto
  qed simp
  have "unique_rows (ws_store w0)" using assms(3) by (simp add: unique_rows_def empty_store_def)
  from grow [OF assms(1) this] have "unique_rows (ws_store w)" by blast
  from grow [OF assms(2) this] show ?thesis by (simp add: unique_rows_def)
qed

lemma the_log_only_grows_witness:
  "\<exists>w1 w2 more. system_reach sample_worker (sample_worker_state\<lparr>ws_store := empty_store\<rparr>) w1 \<and> system_reach sample_worker w1 w2
     \<and> length (log_entries (ws_store w1)) = 1 \<and> log_entries (ws_store w2) = log_entries (ws_store w1) @ more"
proof -
  let ?w0 = "sample_worker_state\<lparr>ws_store := empty_store\<rparr>"
  obtain s' where i: "ingest_body sample_ingest sample_ingest_settings 7 sample_job (ws_store ?w0) = Inr (1, s')"
    using sample_ingested by auto
  have "i_load sample_ingest (j_storage_key sample_job) = Inr sample_file" by (simp add: sample_ingest_def)
  from ingest_body_added [OF i this] have n: "length (log_entries s') = 1" by (auto simp: empty_store_def)
  let ?w1 = "?w0\<lparr>ws_store := s'\<rparr>"
  have a: "system_reach sample_worker ?w0 ?w1"
    by (rule system_reach.step [OF system_reach.start system_step.stage1 [OF i]]) (simp add: empty_store_def)
  have b: "system_reach sample_worker ?w1 (worker_tick sample_worker [] 9 ?w1)"
    by (rule system_reach.step [OF system_reach.start system_step.tick])
  have "\<exists>more. log_entries (ws_store (worker_tick sample_worker [] 9 ?w1)) = log_entries (ws_store ?w1) @ more"
    using the_log_only_grows [OF a b] sample_spoken by (simp add: sample_worker_def)
  then obtain more where m: "log_entries (ws_store (worker_tick sample_worker [] 9 ?w1)) = log_entries (ws_store ?w1) @ more" by blast
  show ?thesis by (intro exI conjI, rule a, rule b) (use n m in simp_all)
qed

end
