(* ===== verification/Reclassify.thy ===== *)
theory Reclassify
  imports Ingest
begin

text \<open>
  \<open>reclassify_stamped\<close> (\<open>pipeline/reclassify.py\<close>): lines stored before the parser knew the spelling with a request
  id are parsed again in place, the transactions built from them are dropped, and their range is ticketed. The
  columns \<open>raw_body\<close> and \<open>logger\<close>, which a row of the model does not hold, are given by the id of the row. JSON
  objects are compared up to the order of their keys, as Python compares dicts.
\<close>

record reclass_env =
  rc_codecs :: codecs
  rc_raw :: "uuid \<Rightarrow> string"
  rc_logger :: "uuid \<Rightarrow> string option"

definition stamped_loggers :: "string list" where
  "stamped_loggers = [''Server.CommonCode.ApiLogHandler'', ''M3WebServiceClassLib.CommonCode.WebService'']"

definition is_stamped_row :: "reclass_env \<Rightarrow> string \<Rightarrow> instant \<Rightarrow> instant option \<Rightarrow> log_entry \<Rightarrow> bool" where
  "is_stamped_row re cc since until e \<longleftrightarrow>
     customer_code e = cc
     \<and> (case timestamp e of None \<Rightarrow> False | Some t \<Rightarrow> since \<le> t \<and> (case until of None \<Rightarrow> True | Some u \<Rightarrow> t < u))
     \<and> (case rc_logger re (entry_id e) of None \<Rightarrow> False | Some l \<Rightarrow> l \<in> set stamped_loggers)
     \<and> (case message e of None \<Rightarrow> False
        | Some m \<Rightarrow> starts_any [''REQUEST (ReqID'', ''RESPONSE (ReqID'', ''(ReqID = ''] m)"

definition same_object :: "(string \<times> json) list \<Rightarrow> (string \<times> json) list \<Rightarrow> bool" where
  "same_object a b \<longleftrightarrow> canonical (JObj a) = canonical (JObj b)"

text \<open>What the parser says of a row now, when that differs from what is stored.\<close>

definition correction :: "reclass_env \<Rightarrow> log_entry \<Rightarrow> (entry_type \<times> log_record) option" where
  "correction re e =
     (case parse (rc_codecs re) (rc_raw re (entry_id e)) of
        [] \<Rightarrow> None
      | r # _ \<Rightarrow>
          (case entry_type_of (lr_type r) of
             None \<Rightarrow> None
           | Some wanted \<Rightarrow>
               if entry_type e = wanted \<and> same_object (entry_fields e) (lr_fields r) \<and> message e = Some (lr_message r)
               then None else Some (wanted, r)))"

definition apply_correction :: "entry_type \<times> log_record \<Rightarrow> log_entry \<Rightarrow> log_entry" where
  "apply_correction c e =
     e\<lparr>entry_type := fst c, message := Some (lr_message (snd c)), entry_fields := lr_fields (snd c), result_status := lr_status (snd c)\<rparr>"

record reclass_state =
  rs_changed :: nat
  rs_by_type :: "(entry_type, nat) odict"
  rs_lo :: "instant option"
  rs_hi :: "instant option"
  rs_store :: store

definition reclassify_one :: "reclass_env \<Rightarrow> bool \<Rightarrow> log_entry \<Rightarrow> reclass_state \<Rightarrow> reclass_state" where
  "reclassify_one re dry e st =
     (case correction re e of
        None \<Rightarrow> st
      | Some c \<Rightarrow>
          st\<lparr>rs_changed := Suc (rs_changed st), rs_by_type := bump (entry_type e) 1 (rs_by_type st),
             rs_lo := lower_bound (timestamp e) (rs_lo st), rs_hi := upper_bound (timestamp e) (rs_hi st),
             rs_store := (if dry then rs_store st
               else (rs_store st)\<lparr>log_entries := map (\<lambda>x. if entry_id x = entry_id e then apply_correction c x else x)
                 (log_entries (rs_store st))\<rparr>)\<rparr>)"

text \<open>Transactions owning a line of the range, with their assignments, and all stored stream state of the tenant.\<close>

definition owners_in_range :: "string \<Rightarrow> instant \<Rightarrow> instant \<Rightarrow> store \<Rightarrow> uuid list" where
  "owners_in_range cc lo hi s =
     remdups (map a_txn (filter (\<lambda>a. a_customer a = cc \<and> list_ex (\<lambda>e. entry_id e = a_entry a \<and> in_range lo hi e) (log_entries s)) (assigns s)))"

definition drop_transactions_owning :: "string \<Rightarrow> instant \<Rightarrow> instant \<Rightarrow> store \<Rightarrow> nat \<times> store" where
  "drop_transactions_owning cc lo hi s =
     (let ids = owners_in_range cc lo hi s
      in (length ids,
          s\<lparr>assigns := filter (\<lambda>a. a_txn a \<notin> set ids) (assigns s), txns := filter (\<lambda>r. row_id r \<notin> set ids) (txns s),
            open_streams := filter (\<lambda>r. sr_customer r \<noteq> cc) (open_streams s),
            pending_requests := filter (\<lambda>p. pr_customer p \<noteq> cc) (pending_requests s)\<rparr>))"

record reclass_report =
  rp_scanned :: nat
  rp_changed :: nat
  rp_by_type :: "(entry_type, nat) odict"
  rp_dropped :: nat
  rp_ticketed :: "span option"

definition reclassify_stamped ::
    "reclass_env \<Rightarrow> uuid \<Rightarrow> instant \<Rightarrow> string \<Rightarrow> instant \<Rightarrow> instant option \<Rightarrow> bool \<Rightarrow> store \<Rightarrow> reclass_report \<times> store" where
  "reclassify_stamped re uid clock cc since until dry s =
     (let rows = sort_key (\<lambda>e. ts_or_0 (timestamp e)) (filter (is_stamped_row re cc since until) (log_entries s));
          st = fold (reclassify_one re dry) rows
                 \<lparr>rs_changed = 0, rs_by_type = [], rs_lo = None, rs_hi = None, rs_store = s\<rparr>;
          report = \<lparr>rp_scanned = length rows, rp_changed = rs_changed st, rp_by_type = rs_by_type st, rp_dropped = 0, rp_ticketed = None\<rparr>
      in case (rs_lo st, rs_hi st) of
           (Some lo, Some hi) \<Rightarrow>
             if rs_changed st = 0 \<or> dry then (report, rs_store st)
             else (case drop_transactions_owning cc lo hi (rs_store st) of (n, s') \<Rightarrow>
               (report\<lparr>rp_dropped := n, rp_ticketed := Some (lo, hi)\<rparr>, enqueue_ticket uid cc (Some (lo, hi)) clock s'))
         | _ \<Rightarrow> (report, rs_store st))"

subsection \<open>Running it twice\<close>

lemma corrected: "correction re e = Some c \<Longrightarrow> correction re (apply_correction c x) = None" if "entry_id x = entry_id e"
  using that by (auto simp: correction_def apply_correction_def same_object_def split: list.splits option.splits if_splits)

definition settled :: "reclass_env \<Rightarrow> store \<Rightarrow> log_entry \<Rightarrow> bool" where
  "settled re s e \<longleftrightarrow> (\<forall>x \<in> set (log_entries s). entry_id x = entry_id e \<longrightarrow> correction re x = None)"

lemma settled_step:
  assumes "reclassify_one re False e st = st'"
  shows "settled re (rs_store st) x \<Longrightarrow> settled re (rs_store st') x"
    and "(\<forall>x \<in> set (log_entries (rs_store st)). entry_id x = entry_id e \<longrightarrow> correction re x = correction re e) \<Longrightarrow> settled re (rs_store st') e"
proof -
  show "settled re (rs_store st) x \<Longrightarrow> settled re (rs_store st') x"
    using assms corrected [of _ e re]
    by (fastforce simp: reclassify_one_def settled_def apply_correction_def split: option.splits if_splits)
  show "(\<forall>x \<in> set (log_entries (rs_store st)). entry_id x = entry_id e \<longrightarrow> correction re x = correction re e) \<Longrightarrow> settled re (rs_store st') e"
    using assms corrected [of _ e re]
    by (fastforce simp: reclassify_one_def settled_def split: option.splits if_splits)
qed

lemma reclassify_one_ids: "map entry_id (log_entries (rs_store (reclassify_one re dry e st))) = map entry_id (log_entries (rs_store st))"
  by (auto simp: reclassify_one_def apply_correction_def split: option.splits)

lemma reclassify_one_others:
  "x \<in> set (log_entries (rs_store (reclassify_one re dry e st))) \<Longrightarrow> entry_id x \<noteq> entry_id e \<Longrightarrow> x \<in> set (log_entries (rs_store st))"
  by (auto simp: reclassify_one_def apply_correction_def split: option.splits if_splits)

lemma reclassify_one_keeps:
  "x \<in> set (log_entries (rs_store st)) \<Longrightarrow> entry_id x \<noteq> entry_id e \<Longrightarrow> x \<in> set (log_entries (rs_store (reclassify_one re dry e st)))"
  by (auto simp: reclassify_one_def image_iff split: option.splits)

lemma fold_reclassify:
  assumes "distinct (map entry_id (log_entries (rs_store st)))" and "distinct (map entry_id rows)"
    and "set rows \<subseteq> set (log_entries (rs_store st))"
  shows "(\<forall>e \<in> set rows. settled re (rs_store (fold (reclassify_one re False) rows st)) e)
     \<and> (\<forall>x. settled re (rs_store st) x \<longrightarrow> settled re (rs_store (fold (reclassify_one re False) rows st)) x)
     \<and> (\<forall>x \<in> set (log_entries (rs_store (fold (reclassify_one re False) rows st))).
          entry_id x \<in> entry_id ` set rows \<or> x \<in> set (log_entries (rs_store st)))"
  using assms
proof (induction rows arbitrary: st)
  case (Cons e rows)
  define st1 where "st1 = reclassify_one re False e st"
  have same: "\<forall>x \<in> set (log_entries (rs_store st)). entry_id x = entry_id e \<longrightarrow> correction re x = correction re e"
    using Cons.prems(1,3) by (auto simp: distinct_map dest: inj_onD)
  have e1: "settled re (rs_store st1) e" by (rule settled_step(2) [OF st1_def [symmetric] same])
  have d1: "distinct (map entry_id (log_entries (rs_store st1)))" using Cons.prems(1) by (simp only: st1_def reclassify_one_ids)
  have sub1: "set rows \<subseteq> set (log_entries (rs_store st1))"
  proof
    fix x assume "x \<in> set rows"
    then have "x \<in> set (log_entries (rs_store st))" "entry_id x \<noteq> entry_id e"
      using Cons.prems(2,3) by (auto dest: sym)
    then show "x \<in> set (log_entries (rs_store st1))" unfolding st1_def by (rule reclassify_one_keeps)
  qed
  have "distinct (map entry_id rows)" using Cons.prems(2) by simp
  note IH = Cons.IH [OF d1 this sub1]
  have step: "fold (reclassify_one re False) (e # rows) st = fold (reclassify_one re False) rows st1" by (simp add: st1_def)
  have older: "x \<in> set (log_entries (rs_store st))" if "x \<in> set (log_entries (rs_store st1))" "entry_id x \<noteq> entry_id e" for x
    using that reclassify_one_others unfolding st1_def by blast
  show ?case unfolding step
  proof (intro conjI ballI allI impI)
    fix x assume "x \<in> set (e # rows)"
    then show "settled re (rs_store (fold (reclassify_one re False) rows st1)) x" using IH e1 by auto
  next
    fix x assume "settled re (rs_store st) x"
    then show "settled re (rs_store (fold (reclassify_one re False) rows st1)) x"
      using IH settled_step(1) [OF st1_def [symmetric]] by blast
  next
    fix x assume "x \<in> set (log_entries (rs_store (fold (reclassify_one re False) rows st1)))"
    then consider "entry_id x \<in> entry_id ` set rows" | "x \<in> set (log_entries (rs_store st1))" using IH by blast
    then show "entry_id x \<in> entry_id ` set (e # rows) \<or> x \<in> set (log_entries (rs_store st))"
    proof cases
      case 2
      then show ?thesis using older [of x] by (cases "entry_id x = entry_id e") simp_all
    qed simp
  qed
qed simp

lemma fold_uncorrected: "\<forall>e \<in> set rows. correction re e = None \<Longrightarrow> fold (reclassify_one re dry) rows st = st"
  by (induction rows) (simp_all add: reclassify_one_def)

lemma drop_owning_entries: "drop_transactions_owning cc lo hi s = (n, s') \<Longrightarrow> log_entries s' = log_entries s"
  by (auto simp: drop_transactions_owning_def Let_def)

lemma log_after_reclassify:
  "log_entries (snd (reclassify_stamped re uid clock cc since until dry s)) =
     log_entries (rs_store (fold (reclassify_one re dry)
       (sort_key (\<lambda>e. ts_or_0 (timestamp e)) (filter (is_stamped_row re cc since until) (log_entries s)))
       \<lparr>rs_changed = 0, rs_by_type = [], rs_lo = None, rs_hi = None, rs_store = s\<rparr>))"
  by (auto simp: reclassify_stamped_def Let_def enqueue_ticket_def dest: drop_owning_entries split: option.splits prod.splits)

text \<open>the repair is idempotent: after it has run, running it again over the same range corrects no row, drops no
  transaction, writes no ticket and leaves the database as it is.\<close>

theorem reclassify_twice_changes_nothing:
  assumes "distinct (map entry_id (log_entries s))" and "s' = snd (reclassify_stamped re uid clock cc since until False s)"
  shows "snd (reclassify_stamped re uid' clock' cc since until False s') = s'
     \<and> rp_changed (fst (reclassify_stamped re uid' clock' cc since until False s')) = 0"
proof -
  define rows where "rows = sort_key (\<lambda>e. ts_or_0 (timestamp e)) (filter (is_stamped_row re cc since until) (log_entries s))"
  define st where "st = \<lparr>rs_changed = 0, rs_by_type = [], rs_lo = None, rs_hi = None, rs_store = s\<rparr>"
  define rows' where "rows' = sort_key (\<lambda>e. ts_or_0 (timestamp e)) (filter (is_stamped_row re cc since until) (log_entries s'))"
  have log: "log_entries s' = log_entries (rs_store (fold (reclassify_one re False) rows st))"
    by (simp only: assms(2) log_after_reclassify rows_def st_def)
  have "mset (map entry_id rows) = mset (map entry_id (filter (is_stamped_row re cc since until) (log_entries s)))"
    by (simp add: rows_def mset_map)
  moreover have "distinct (map entry_id (filter (is_stamped_row re cc since until) (log_entries s)))"
    by (rule distinct_map_filter [OF assms(1)])
  ultimately have "distinct (map entry_id rows)" by (metis mset_eq_imp_distinct_iff)
  moreover have "set rows \<subseteq> set (log_entries (rs_store st))" by (auto simp: rows_def st_def)
  moreover have "distinct (map entry_id (log_entries (rs_store st)))" using assms(1) by (simp add: st_def)
  ultimately have f: "\<forall>e \<in> set rows. settled re (rs_store (fold (reclassify_one re False) rows st)) e"
    "\<forall>x \<in> set (log_entries s'). entry_id x \<in> entry_id ` set rows \<or> x \<in> set (log_entries s)"
    using fold_reclassify [of st rows re] unfolding log by (auto simp: st_def)
  have "correction re x = None" if "x \<in> set rows'" for x
  proof -
    have x: "x \<in> set (log_entries s')" "is_stamped_row re cc since until x" using that by (auto simp: rows'_def)
    show ?thesis
    proof (cases "entry_id x \<in> entry_id ` set rows")
      case True
      then show ?thesis using f(1) x(1) unfolding log by (fastforce simp: settled_def)
    next
      case False
      then have "x \<in> set rows" using f(2) x by (auto simp: rows_def)
      then show ?thesis using False by blast
    qed
  qed
  then have "fold (reclassify_one re False) rows' t = t" for t by (intro fold_uncorrected) blast
  then show ?thesis by (simp add: reclassify_stamped_def Let_def rows'_def [symmetric])
qed

text \<open>A request line stored as \<open>info\<close>, with a transaction that also owns a line half an hour later.\<close>

definition misread_env :: reclass_env where
  "misread_env = \<lparr>rc_codecs = \<lparr>json_loads = (\<lambda>s. None), utf8_text = (\<lambda>s. s)\<rparr>,
     rc_raw = (\<lambda>i. ''2026-05-19 13:42:33,362 (A) [9] INFO  Server.CommonCode.ApiLogHandler M - REQUEST (ReqID = q) - : /x''),
     rc_logger = (\<lambda>i. if i = 1 then Some ''Server.CommonCode.ApiLogHandler'' else None)\<rparr>"

definition misread_line :: "uuid \<Rightarrow> instant \<Rightarrow> string \<Rightarrow> log_entry" where
  "misread_line i t msg = \<lparr>entry_id = i, job_id = 1, customer_code = ''BID'', entry_hash = None, source_file = ''f'', line_number = None,
     timestamp = Some t, level = None, thread = None, user_ctx = None, entry_type = Info, result_status = None,
     message = Some msg, entry_fields = []\<rparr>"

definition misread_store :: store where
  "misread_store = empty_store\<lparr>log_entries := [misread_line 1 0 ''REQUEST (ReqID = q) - : /x'', misread_line 2 (seconds 1800) ''late''],
     assigns := [\<lparr>a_entry = 1, a_ts = Some 0, a_txn = 7, a_seq = 0, a_customer = ''BID''\<rparr>,
                 \<lparr>a_entry = 2, a_ts = Some (seconds 1800), a_txn = 7, a_seq = 1, a_customer = ''BID''\<rparr>]\<rparr>"

lemma reclassify_twice_changes_nothing_witness:
  "rp_changed (fst (reclassify_stamped misread_env 3 9 ''BID'' 0 None False misread_store)) = 1
   \<and> rp_changed (fst (reclassify_stamped misread_env 4 10 ''BID'' 0 None False
       (snd (reclassify_stamped misread_env 3 9 ''BID'' 0 None False misread_store)))) = 0"
proof
  show "rp_changed (fst (reclassify_stamped misread_env 3 9 ''BID'' 0 None False misread_store)) = 1" by code_simp
  have "distinct (map entry_id (log_entries misread_store))" by code_simp
  from reclassify_twice_changes_nothing [OF this refl, of misread_env 4 10 "''BID''" 0 None 3 9]
  show "rp_changed (fst (reclassify_stamped misread_env 4 10 ''BID'' 0 None False
       (snd (reclassify_stamped misread_env 3 9 ''BID'' 0 None False misread_store)))) = 0" by simp
qed

text \<open>Dropping a transaction frees all its lines, but the ticket covers only the corrected ones: the late line of the
  example belongs to no transaction and lies outside the ticket even after padding.\<close>

lemma reclassify_orphans_a_line:
  "(let s' = snd (reclassify_stamped misread_env 3 9 ''BID'' 0 None False misread_store)
    in is_unassigned s' (misread_line 2 (seconds 1800) ''late'') \<and> misread_line 2 (seconds 1800) ''late'' \<in> set (log_entries s')
       \<and> map (\<lambda>q. (q_start q, q_end q)) (queue s') = [(0, 0)])"
  by code_simp

end
