(* ===== verification/Decimals.thy ===== *)
theory Decimals
  imports Complex_Main Prelude
begin

text \<open>
  Python's \<open>decimal.Decimal\<close> under the default context: 28 significant digits, ties to even, exponents between
  -999999 and 999999, with invalid operations and overflow raised. A finite number is its sign, coefficient and
  exponent. The sign and payload of a NaN are not kept, and texts with exponents beyond 18 digits are not
  refused. Text is Latin-1.
\<close>

text \<open>The exceptions the modelled code meets; the last two are the database's.\<close>

datatype py_error = InvalidOperation | Overflow | TypeError | ValueError | AttributeError | KeyError | DataError | IntegrityError | AssertionError

type_synonym 'a result = "py_error + 'a"

definition andthen :: "'a result \<Rightarrow> ('a \<Rightarrow> 'b result) \<Rightarrow> 'b result" where
  "andthen r f = (case r of Inl e \<Rightarrow> Inl e | Inr x \<Rightarrow> f x)"

lemma andthen_Inr: "andthen r f = Inr y \<longleftrightarrow> (\<exists>x. r = Inr x \<and> f x = Inr y)"
  by (cases r) (simp_all add: andthen_def)

fun fold_result :: "('x \<Rightarrow> 's \<Rightarrow> 's result) \<Rightarrow> 'x list \<Rightarrow> 's \<Rightarrow> 's result" where
  "fold_result f [] s = Inr s"
| "fold_result f (x # xs) s = andthen (f x s) (fold_result f xs)"

datatype decimal = Fin bool int int | Infinite bool | NaN bool

subsection \<open>Rounding\<close>

function ndigits :: "int \<Rightarrow> int" where
  "ndigits n = (if n < 10 then 1 else 1 + ndigits (n div 10))"
  by pat_completeness auto
termination by (relation "measure nat") auto

declare ndigits.simps [simp del]

definition precision :: int where "precision = 28"
definition emax :: int where "emax = 999999"
definition etiny :: int where "etiny = - 1000026"

definition half_even :: "int \<Rightarrow> int \<Rightarrow> int" where
  "half_even n d = (let q = n div d; r = n mod d in if 2 * r < d then q else if d < 2 * r then q + 1 else if even q then q else q + 1)"

text \<open>\<open>_fix\<close>: the number as the context holds it.\<close>

definition dec_fix :: "bool \<Rightarrow> int \<Rightarrow> int \<Rightarrow> decimal result" where
  "dec_fix s c e =
     (if c = 0 then Inr (Fin s 0 (max etiny (min e emax)))
      else let e' = max e (max (e + ndigits c - precision) etiny);
               c' = half_even c (10 ^ nat (e' - e));
               (c'', e'') = (if precision < ndigits c' then (c' div 10, e' + 1) else (c', e'))
           in if emax < e'' + ndigits c'' - 1 then Inl Overflow else Inr (Fin s c'' e''))"

subsection \<open>Arithmetic\<close>

definition scaled :: "bool \<Rightarrow> int \<Rightarrow> int \<Rightarrow> int \<Rightarrow> int" where
  "scaled s c e base = (if s then - c else c) * 10 ^ nat (e - base)"

fun dec_add :: "decimal \<Rightarrow> decimal \<Rightarrow> decimal result" where
  "dec_add (NaN a) (NaN b) = (if a \<or> b then Inl InvalidOperation else Inr (NaN False))"
| "dec_add (NaN a) y = (if a then Inl InvalidOperation else Inr (NaN False))"
| "dec_add x (NaN b) = (if b then Inl InvalidOperation else Inr (NaN False))"
| "dec_add (Infinite a) (Infinite b) = (if a = b then Inr (Infinite a) else Inl InvalidOperation)"
| "dec_add (Infinite a) (Fin s c e) = Inr (Infinite a)"
| "dec_add (Fin s c e) (Infinite b) = Inr (Infinite b)"
| "dec_add (Fin s c e) (Fin t d f) =
     (let base = min e f; i = scaled s c e base + scaled t d f base
      in dec_fix (if i = 0 then s \<and> t else i < 0) \<bar>i\<bar> base)"

fun dec_negate :: "decimal \<Rightarrow> decimal" where
  "dec_negate (Fin s c e) = Fin (\<not> s) c e"
| "dec_negate (Infinite s) = Infinite (\<not> s)"
| "dec_negate (NaN q) = NaN q"

definition dec_sub :: "decimal \<Rightarrow> decimal \<Rightarrow> decimal result" where
  "dec_sub x y = dec_add x (dec_negate y)"

fun dec_mul :: "decimal \<Rightarrow> decimal \<Rightarrow> decimal result" where
  "dec_mul (NaN a) (NaN b) = (if a \<or> b then Inl InvalidOperation else Inr (NaN False))"
| "dec_mul (NaN a) y = (if a then Inl InvalidOperation else Inr (NaN False))"
| "dec_mul x (NaN b) = (if b then Inl InvalidOperation else Inr (NaN False))"
| "dec_mul (Infinite a) (Infinite b) = Inr (Infinite (a \<noteq> b))"
| "dec_mul (Infinite a) (Fin s c e) = (if c = 0 then Inl InvalidOperation else Inr (Infinite (a \<noteq> s)))"
| "dec_mul (Fin s c e) (Infinite b) = (if c = 0 then Inl InvalidOperation else Inr (Infinite (s \<noteq> b)))"
| "dec_mul (Fin s c e) (Fin t d f) = dec_fix (s \<noteq> t) (c * d) (e + f)"

text \<open>Trailing zeros of a coefficient go, up to an exponent.\<close>

function strip_zeros :: "int \<Rightarrow> int \<Rightarrow> int \<Rightarrow> int \<times> int" where
  "strip_zeros c e limit = (if e < limit \<and> c \<noteq> 0 \<and> c mod 10 = 0 then strip_zeros (c div 10) (e + 1) limit else (c, e))"
  by pat_completeness auto
termination by (relation "measure (\<lambda>(c, e, limit). nat (limit - e))") auto

declare strip_zeros.simps [simp del]

text \<open>Division by a positive count.\<close>

definition dec_div_count :: "decimal \<Rightarrow> int \<Rightarrow> decimal result" where
  "dec_div_count x n =
     (case x of
        NaN q \<Rightarrow> (if q then Inl InvalidOperation else Inr (NaN False))
      | Infinite s \<Rightarrow> Inr (Infinite s)
      | Fin s c e \<Rightarrow>
          (if c = 0 then dec_fix s 0 e
           else let shift = ndigits n - ndigits c + precision + 1;
                    num = c * 10 ^ nat shift; den = n * 10 ^ nat (- shift); q = num div den
                in if num mod den \<noteq> 0 then dec_fix s (if q mod 5 = 0 then q + 1 else q) (e - shift)
                   else let (c', e') = strip_zeros q (e - shift) e in dec_fix s c' e'))"

text \<open>The value of a finite number.\<close>

fun dec_val :: "decimal \<Rightarrow> rat" where
  "dec_val (Fin s c e) = of_int (if s then - c else c) * 10 powi e"
| "dec_val (Infinite s) = 0"
| "dec_val (NaN q) = 0"

fun finite_dec :: "decimal \<Rightarrow> bool" where
  "finite_dec (Fin s c e) = True"
| "finite_dec (Infinite s) = False"
| "finite_dec (NaN q) = False"

text \<open>\<open>x < y\<close> raises on a NaN, \<open>x == y\<close> on a signalling one only.\<close>

fun dec_less :: "decimal \<Rightarrow> decimal \<Rightarrow> bool result" where
  "dec_less (NaN a) y = Inl InvalidOperation"
| "dec_less x (NaN b) = Inl InvalidOperation"
| "dec_less (Infinite a) (Infinite b) = Inr (a \<and> \<not> b)"
| "dec_less (Infinite a) (Fin s c e) = Inr a"
| "dec_less (Fin s c e) (Infinite b) = Inr (\<not> b)"
| "dec_less (Fin s c e) (Fin t d f) = Inr (dec_val (Fin s c e) < dec_val (Fin t d f))"

definition dec_min :: "decimal \<Rightarrow> decimal \<Rightarrow> decimal result" where
  "dec_min x y = andthen (dec_less y x) (\<lambda>lt. Inr (if lt then y else x))"

definition dec_max :: "decimal \<Rightarrow> decimal \<Rightarrow> decimal result" where
  "dec_max x y = andthen (dec_less x y) (\<lambda>lt. Inr (if lt then y else x))"

text \<open>\<open>number == number.to_integral()\<close>.\<close>

fun is_integral :: "decimal \<Rightarrow> bool result" where
  "is_integral (Fin s c e) = Inr (0 \<le> e \<or> c mod 10 ^ nat (- e) = 0)"
| "is_integral (Infinite s) = Inr True"
| "is_integral (NaN q) = (if q then Inl InvalidOperation else Inr False)"

fun dec_truthy :: "decimal \<Rightarrow> bool" where
  "dec_truthy (Fin s c e) = (c \<noteq> 0)"
| "dec_truthy (Infinite s) = True"
| "dec_truthy (NaN q) = True"

fun dec_normalize :: "decimal \<Rightarrow> decimal result" where
  "dec_normalize (NaN q) = (if q then Inl InvalidOperation else Inr (NaN False))"
| "dec_normalize (Infinite s) = Inr (Infinite s)"
| "dec_normalize (Fin s c e) =
     andthen (dec_fix s c e) (\<lambda>d. case d of
        Fin s' c' e' \<Rightarrow> (if c' = 0 then Inr (Fin s' 0 0) else let (c'', e'') = strip_zeros c' e' emax in Inr (Fin s' c'' e''))
      | Infinite s' \<Rightarrow> Inr d
      | NaN q \<Rightarrow> Inr d)"

subsection \<open>Texts\<close>

function digits_of :: "int \<Rightarrow> string" where
  "digits_of n = (if n < 10 then [char_of (48 + n)] else digits_of (n div 10) @ [char_of (48 + n mod 10)])"
  by pat_completeness auto
termination by (relation "measure nat") auto

declare digits_of.simps [simp del]

definition digits_int :: "string \<Rightarrow> int" where
  "digits_int s = foldl (\<lambda>n c. 10 * n + (of_char c - 48)) 0 s"

definition sign_str :: "bool \<Rightarrow> string" where
  "sign_str s = (if s then ''-'' else [])"

text \<open>The digits of a coefficient with the point after \<open>dot\<close> of them.\<close>

definition place_dot :: "string \<Rightarrow> int \<Rightarrow> string" where
  "place_dot ds dot =
     (if dot \<le> 0 then ''0.'' @ replicate (nat (- dot)) (CHR ''0'') @ ds
      else if int (length ds) \<le> dot then ds @ replicate (nat dot - length ds) (CHR ''0'')
      else take (nat dot) ds @ ''.'' @ drop (nat dot) ds)"

fun dec_str :: "decimal \<Rightarrow> string" where
  "dec_str (Fin s c e) =
     (let ds = digits_of c; left = e + int (length ds); dot = (if e \<le> 0 \<and> - 6 < left then left else 1); x = left - dot
      in sign_str s @ place_dot ds dot @ (if x = 0 then [] else ''E'' @ (if x < 0 then [] else ''+'') @ int_str x))"
| "dec_str (Infinite s) = sign_str s @ ''Infinity''"
| "dec_str (NaN q) = (if q then ''sNaN'' else ''NaN'')"

text \<open>\<open>format(x, "f")\<close>.\<close>

fun dec_fixed :: "decimal \<Rightarrow> string" where
  "dec_fixed (Fin s c e) =
     (let c' = (if 0 < e then c * 10 ^ nat e else c); e' = min e 0; ds = digits_of c'
      in sign_str s @ place_dot ds (e' + int (length ds)))"
| "dec_fixed (Infinite s) = sign_str s @ ''Infinity''"
| "dec_fixed (NaN q) = (if q then ''sNaN'' else ''NaN'')"

text \<open>The constructor on a text: underscores go, case does not matter, and what is no number is refused.\<close>

definition split_sign :: "string \<Rightarrow> bool \<times> string" where
  "split_sign s = (case s of [] \<Rightarrow> (False, []) | c # cs \<Rightarrow>
     (if c = CHR ''-'' then (True, cs) else if c = CHR ''+'' then (False, cs) else (False, s)))"

definition parse_exponent :: "string \<Rightarrow> int option" where
  "parse_exponent s = (case s of
      [] \<Rightarrow> Some 0
    | c # cs \<Rightarrow> (if c = CHR ''e'' then
        (case split_sign cs of (neg, ds) \<Rightarrow>
           if ds \<noteq> [] \<and> list_all is_digit ds then Some (if neg then - digits_int ds else digits_int ds) else None)
       else None))"

definition parse_finite :: "bool \<Rightarrow> string \<Rightarrow> decimal option" where
  "parse_finite neg s =
     (let whole = takeWhile is_digit s; rest = dropWhile is_digit s;
          after = (case rest of c # cs \<Rightarrow> if c = CHR ''.'' then cs else [] | [] \<Rightarrow> []);
          dotted = (rest \<noteq> [] \<and> hd rest = CHR ''.'');
          part = (if dotted then takeWhile is_digit after else []);
          tail = (if dotted then dropWhile is_digit after else rest)
      in if whole = [] \<and> part = [] then None
         else map_option (\<lambda>x. Fin neg (digits_int (whole @ part)) (x - int (length part))) (parse_exponent tail))"

definition parse_decimal :: "string \<Rightarrow> decimal option" where
  "parse_decimal text =
     (case split_sign (lower (filter (\<lambda>c. c \<noteq> CHR ''_'') (strip text))) of (neg, s) \<Rightarrow>
        if s = ''inf'' \<or> s = ''infinity'' then Some (Infinite neg)
        else if starts_with ''nan'' s \<and> list_all is_digit (drop 3 s) then Some (NaN False)
        else if starts_with ''snan'' s \<and> list_all is_digit (drop 4 s) then Some (NaN True)
        else parse_finite neg s)"

lemma decimal_samples:
  "parse_decimal '' 30.000000 '' = Some (Fin False 30000000 (- 6))"
  "parse_decimal ''-1_0E+2'' = Some (Fin True 10 2)" "parse_decimal ''.5'' = Some (Fin False 5 (- 1))"
  "parse_decimal ''5.'' = Some (Fin False 5 0)" "parse_decimal ''.'' = None" "parse_decimal ''A03A'' = None"
  "parse_decimal ''sNaN'' = Some (NaN True)" "parse_decimal ''-Infinity'' = Some (Infinite True)"
  "dec_str (Fin False 4 1) = ''4E+1''" "dec_str (Fin True 30000000 (- 6)) = ''-30.000000''"
  "dec_str (Fin False 1 (- 7)) = ''1E-7''" "dec_fixed (Fin False 4 1) = ''40''" "dec_fixed (Fin True 1 (- 7)) = ''-0.0000001''"
  "dec_add (Fin False 1 0) (Fin False 5 (- 30)) = Inr (Fin False (10 ^ 27) (- 27))"
  "dec_div_count (Fin False 1 0) 8 = Inr (Fin False 125 (- 3))"
  "dec_div_count (Fin False 2 0) 3 = Inr (Fin False 6666666666666666666666666667 (- 28))"
  "dec_div_count (Fin False 30 0) 3 = Inr (Fin False 10 0)"
  by code_simp+

subsection \<open>Numbers the context holds exactly\<close>

text \<open>A finite number with at most \<open>k\<close> decimal places, of at most \<open>N\<close> units of the last place.\<close>

fun on_grid :: "nat \<Rightarrow> int \<Rightarrow> decimal \<Rightarrow> bool" where
  "on_grid k N (Fin s c e) =
     (0 \<le> c \<and> (let v = dec_val (Fin s c e) * 10 ^ k in of_int \<lfloor>v\<rfloor> = v \<and> \<bar>v\<bar> \<le> of_int N))"
| "on_grid k N x = False"

lemma ndigits_bounds: "0 < n \<Longrightarrow> 1 \<le> ndigits n \<and> 10 ^ nat (ndigits n - 1) \<le> n \<and> n < 10 ^ nat (ndigits n)"
proof (induction n rule: ndigits.induct)
  case (1 n)
  show ?case
  proof (cases "n < 10")
    case True
    then show ?thesis using 1(2) by (simp add: ndigits.simps)
  next
    case False
    define m where "m = ndigits (n div 10)"
    have ih: "1 \<le> m" "10 ^ nat (m - 1) \<le> n div 10" "n div 10 < 10 ^ nat m"
      using 1 False by (auto simp: m_def)
    have step: "nat m = Suc (nat (m - 1))" "nat (m + 1) = Suc (nat m)" using ih(1) by linarith+
    have "10 * (n div 10) \<le> n" "n < 10 * (n div 10) + 10" by linarith+
    then have "10 ^ nat m \<le> n" "n < 10 ^ nat (m + 1)" using ih(2,3) unfolding step by simp_all
    moreover have "ndigits n = m + 1" using False by (simp add: ndigits.simps [of n] m_def)
    ultimately show ?thesis using ih(1) by simp
  qed
qed

lemma ndigits_le: "0 < n \<Longrightarrow> n < 10 ^ j \<Longrightarrow> ndigits n \<le> int j"
proof (rule ccontr)
  assume n: "0 < n" "n < 10 ^ j" "\<not> ndigits n \<le> int j"
  then have "(10::int) ^ j \<le> 10 ^ nat (ndigits n - 1)" by (intro power_increasing) auto
  then show False using ndigits_bounds [OF n(1)] n(2) by linarith
qed

lemma ten_powi_add: "(10::rat) powi (a + b) = 10 powi a * 10 powi b"
  by (simp add: power_int_add)

lemma ten_powi_nat: "0 \<le> a \<Longrightarrow> (10::rat) powi a = 10 ^ nat a"
  by (simp add: power_int_def)

lemma ten_powi_pos [simp]: "0 < (10::rat) powi a"
  by (simp add: zero_less_power_int)

lemma leading_digit_bound:
  assumes "0 < c" and "of_int c * 10 powi (e + int k) < (10::rat) ^ 28"
  shows "e + ndigits c - 1 + int k < 28"
proof (rule ccontr)
  assume "\<not> ?thesis"
  then have "(10::rat) powi 28 \<le> 10 powi ((ndigits c - 1) + (e + int k))" by (intro power_int_increasing) auto
  also have "\<dots> = 10 ^ nat (ndigits c - 1) * 10 powi (e + int k)"
    using ndigits_bounds [OF assms(1)] ten_powi_add [of "ndigits c - 1" "e + int k"] ten_powi_nat [of "ndigits c - 1"] by simp
  also have "\<dots> \<le> of_int c * 10 powi (e + int k)"
  proof -
    have "(of_int (10 ^ nat (ndigits c - 1)) :: rat) \<le> of_int c" using ndigits_bounds [OF assms(1)] by (simp only: of_int_le_iff)
    then show ?thesis by (intro mult_right_mono) (simp_all add: less_imp_le)
  qed
  finally show False using assms(2) by (simp add: power_int_def)
qed

lemma half_even_exact: "0 < d \<Longrightarrow> d dvd n \<Longrightarrow> half_even n d = n div d"
  by (simp add: half_even_def Let_def)

lemma dec_val_Fin: "dec_val (Fin s c e) = (if s then - 1 else 1) * (of_int c * 10 powi e)"
  by simp

lemma dec_fix_exact:
  assumes "0 \<le> c" and "of_int c * 10 powi (e + int k) = (of_int z :: rat)" and "z < 10 ^ 28" and "k \<le> 1000026"
  shows "\<exists>c' e'. dec_fix s c e = Inr (Fin s c' e') \<and> 0 \<le> c' \<and> of_int c' * 10 powi e' = (of_int c * 10 powi e :: rat)"
proof (cases "c = 0")
  case False
  then have c: "0 < c" using assms(1) by simp
  define n where "n = ndigits c"
  define e' where "e' = max e (max (e + n - 28) etiny)"
  define j where "j = nat (e' - e)"
  have zlt: "(of_int z :: rat) < 10 ^ 28" using assms(3) of_int_less_iff [of z "10 ^ 28", where 'a = rat] by simp
  have lead: "e + n - 1 + int k < 28" using leading_digit_bound [of c e k] c assms(2) zlt by (simp add: n_def)
  have ej: "e' = e + int j" by (simp add: j_def e'_def)
  have dvd: "10 ^ j dvd c"
  proof (cases "e' = e")
    case False
    then have low: "e' \<le> - int k" using lead assms(4) by (auto simp: e'_def etiny_def max_def split: if_splits)
    define m where "m = nat (- int k - e)"
    have m: "e + int k = - int m" "j \<le> m" using low ej by (auto simp: m_def)
    have "10 powi - int m * (10::rat) ^ m = 1" using ten_powi_add [of "- int m" "int m"] by simp
    then have "of_int c = of_int c * 10 powi (e + int k) * (10::rat) ^ m" by (simp add: m(1))
    then have "(of_int c :: rat) = of_int (z * 10 ^ m)" using assms(2) by simp
    then have "c = z * 10 ^ m" by (simp only: of_int_eq_iff)
    then show ?thesis using le_imp_power_dvd [OF m(2), of "10::int"] by simp
  qed (simp add: j_def)
  define c' where "c' = c div 10 ^ j"
  have c': "c = c' * 10 ^ j" "0 < c'" using dvd c by (auto simp: c'_def pos_imp_zdiv_pos_iff zdvd_imp_le)
  have half: "half_even c (10 ^ j) = c'" using dvd by (simp add: half_even_exact c'_def)
  have "c < 10 ^ nat n" using ndigits_bounds [OF c] by (simp add: n_def)
  also have "\<dots> \<le> 10 ^ (28 + j)" by (intro power_increasing) (auto simp: j_def e'_def)
  finally have "c' < 10 ^ 28" by (simp add: c'(1) power_add)
  then have digits: "ndigits c' \<le> 28" using ndigits_le [OF c'(2), of 28] by simp
  have val: "of_int c' * 10 powi e' = (of_int c * 10 powi e :: rat)"
    by (simp add: ej c'(1) ten_powi_add power_int_def [of _ "int j"])
  then have "of_int c' * 10 powi (e' + int k) < (10::rat) ^ 28"
    using assms(2) zlt by (simp add: ten_powi_add mult.assoc [symmetric])
  then have "e' + ndigits c' - 1 \<le> emax" using leading_digit_bound [OF c'(2)] by (fastforce simp: emax_def)
  then have "dec_fix s c e = Inr (Fin s c' e')"
    using c digits half by (simp add: dec_fix_def n_def [symmetric] precision_def e'_def [symmetric] j_def [symmetric] Let_def)
  then show ?thesis using c' val by auto
qed (auto simp: dec_fix_def)

lemma on_gridE:
  assumes "on_grid k N x"
  obtains s c e z where "x = Fin s c e" "0 \<le> c" "dec_val x * 10 ^ k = of_int z" "\<bar>z\<bar> \<le> N"
proof (cases x)
  case (Fin s c e)
  define z where "z = \<lfloor>dec_val x * 10 ^ k\<rfloor>"
  have z: "dec_val x * 10 ^ k = of_int z" and "\<bar>dec_val x * 10 ^ k\<bar> \<le> of_int N"
    using assms Fin by (auto simp: Let_def z_def)
  then have "(of_int \<bar>z\<bar> :: rat) \<le> of_int N" by simp
  then have "\<bar>z\<bar> \<le> N" by (simp only: of_int_le_iff)
  then show ?thesis using that Fin assms z by auto
qed (use assms in auto)

lemma on_gridI: "x = Fin s c e \<Longrightarrow> 0 \<le> c \<Longrightarrow> dec_val x * 10 ^ k = of_int z \<Longrightarrow> \<bar>z\<bar> \<le> N \<Longrightarrow> on_grid k N x"
proof -
  assume a: "x = Fin s c e" "0 \<le> c" "dec_val x * 10 ^ k = of_int z" "\<bar>z\<bar> \<le> N"
  have "\<bar>of_int z :: rat\<bar> \<le> of_int N" using a(4) of_int_le_iff [of "\<bar>z\<bar>" N, where 'a = rat] by simp
  then show ?thesis using a by (simp add: Let_def)
qed

lemma on_grid_mono: "on_grid k M x \<Longrightarrow> M \<le> N \<Longrightarrow> on_grid k N x"
  by (elim on_gridE) (auto intro: on_gridI)

lemma on_grid_zero [simp]: "0 \<le> N \<Longrightarrow> on_grid k N (Fin False 0 0)"
  by simp

text \<open>Rounding a number on a grid gives that number back.\<close>

lemma dec_fix_on_grid:
  assumes "0 \<le> c" and "of_int (if s then - c else c) * 10 powi e * 10 ^ k = (of_int z :: rat)" and "\<bar>z\<bar> \<le> N"
    and "N < 10 ^ 28" and "k \<le> 1000026"
  shows "\<exists>x. dec_fix s c e = Inr x \<and> on_grid k N x \<and> dec_val x = of_int (if s then - c else c) * 10 powi e"
proof -
  have "(of_int c * 10 powi (e + int k) :: rat) = of_int (if s then - z else z)"
    using assms(2) ten_powi_add [of e "int k"] by (auto simp: mult.assoc split: if_splits)
  moreover have "(if s then - z else z) < 10 ^ 28" using assms(3,4) by auto
  ultimately obtain c' e' where f: "dec_fix s c e = Inr (Fin s c' e')" "0 \<le> c'" "of_int c' * 10 powi e' = (of_int c * 10 powi e :: rat)"
    using dec_fix_exact [of c e k "if s then - z else z" s] assms(1,5) by blast
  have v: "dec_val (Fin s c' e') = of_int (if s then - c else c) * 10 powi e" using f(3) by auto
  then have "on_grid k N (Fin s c' e')" using on_gridI [OF refl f(2), of s e' k z N] assms(2,3) by metis
  then show ?thesis using f(1) v by blast
qed

lemma scaled_val: "base \<le> e \<Longrightarrow> of_int (scaled s c e base) * 10 powi base = dec_val (Fin s c e)"
  using ten_powi_add [of "e - base" base] ten_powi_nat [of "e - base"] by (simp add: scaled_def mult.assoc)

lemma dec_add_on_grid:
  assumes "on_grid k A x" and "on_grid k B y" and "A + B < 10 ^ 28" and "k \<le> 1000026"
  shows "\<exists>r. dec_add x y = Inr r \<and> on_grid k (A + B) r \<and> dec_val r = dec_val x + dec_val y"
proof -
  obtain s c e z where x: "x = Fin s c e" "dec_val x * 10 ^ k = of_int z" "\<bar>z\<bar> \<le> A"
    using assms(1) by (elim on_gridE) auto
  obtain t d f w where y: "y = Fin t d f" "dec_val y * 10 ^ k = of_int w" "\<bar>w\<bar> \<le> B"
    using assms(2) by (elim on_gridE) auto
  define base where "base = min e f"
  define i where "i = scaled s c e base + scaled t d f base"
  define sg where "sg = (if i = 0 then s \<and> t else i < 0)"
  have v: "of_int i * 10 powi base = dec_val x + dec_val y"
    using scaled_val [of base e s c] scaled_val [of base f t d]
    by (simp add: i_def x(1) y(1) base_def distrib_right del: dec_val.simps)
  have i: "(if sg then - \<bar>i\<bar> else \<bar>i\<bar>) = i" by (auto simp: sg_def)
  have "of_int i * 10 powi base * 10 ^ k = (of_int (z + w) :: rat)"
    unfolding v using x(2) y(2) by (simp add: distrib_right)
  moreover have "\<bar>z + w\<bar> \<le> A + B" using x(3) y(3) by linarith
  ultimately obtain r where "dec_fix sg \<bar>i\<bar> base = Inr r" "on_grid k (A + B) r" "dec_val r = dec_val x + dec_val y"
    using dec_fix_on_grid [of "\<bar>i\<bar>" sg base k "z + w" "A + B"] assms(3,4) unfolding i v by auto
  moreover have "dec_add x y = dec_fix sg \<bar>i\<bar> base" by (simp add: x(1) y(1) Let_def i_def base_def sg_def)
  ultimately show ?thesis by auto
qed

lemma dec_negate_on_grid: "on_grid k N x \<Longrightarrow> on_grid k N (dec_negate x) \<and> dec_val (dec_negate x) = - dec_val x"
proof (elim on_gridE)
  fix s c e z
  assume a: "x = Fin s c e" "0 \<le> c" "dec_val x * 10 ^ k = of_int z" "\<bar>z\<bar> \<le> N"
  then have v: "dec_val (dec_negate x) = - dec_val x" by simp
  then have "dec_val (dec_negate x) * 10 ^ k = of_int (- z)" using a(3) by simp
  then show ?thesis using on_gridI [of "dec_negate x" "\<not> s" c e k "- z" N] a v by simp
qed

lemma dec_sub_on_grid:
  "on_grid k A x \<Longrightarrow> on_grid k B y \<Longrightarrow> A + B < 10 ^ 28 \<Longrightarrow> k \<le> 1000026 \<Longrightarrow>
   \<exists>r. dec_sub x y = Inr r \<and> on_grid k (A + B) r \<and> dec_val r = dec_val x - dec_val y"
  unfolding dec_sub_def using dec_add_on_grid [of k A x B "dec_negate y"] dec_negate_on_grid [of k B y] by simp

lemma dec_mul_on_grid:
  assumes "on_grid k A x" and "on_grid k B y" and "A * B < 10 ^ 28" and "2 * k \<le> 1000026"
  shows "\<exists>r. dec_mul x y = Inr r \<and> on_grid (2 * k) (A * B) r \<and> dec_val r = dec_val x * dec_val y"
proof -
  obtain s c e z where x: "x = Fin s c e" "0 \<le> c" "dec_val x * 10 ^ k = of_int z" "\<bar>z\<bar> \<le> A"
    using assms(1) by (elim on_gridE) auto
  obtain t d f w where y: "y = Fin t d f" "0 \<le> d" "dec_val y * 10 ^ k = of_int w" "\<bar>w\<bar> \<le> B"
    using assms(2) by (elim on_gridE) auto
  have v: "of_int (if s \<noteq> t then - (c * d) else c * d) * 10 powi (e + f) = dec_val x * dec_val y"
    by (simp add: x(1) y(1) ten_powi_add)
  have "dec_val x * dec_val y * 10 ^ (2 * k) = (dec_val x * 10 ^ k) * (dec_val y * 10 ^ k)"
    by (simp add: mult_2 power_add)
  then have "of_int (if s \<noteq> t then - (c * d) else c * d) * 10 powi (e + f) * 10 ^ (2 * k) = (of_int (z * w) :: rat)"
    unfolding v x(3) y(3) by simp
  moreover have "\<bar>z * w\<bar> \<le> A * B" using x(4) y(4) by (simp add: abs_mult mult_mono')
  ultimately show ?thesis
    using dec_fix_on_grid [of "c * d" "s \<noteq> t" "e + f" "2 * k" "z * w" "A * B"] x(2) y(2) assms(3,4)
    unfolding v by (simp add: x(1) y(1) del: dec_val.simps)
qed

lemma on_grid_finite: "on_grid k N x \<Longrightarrow> finite_dec x"
  by (cases x) auto

lemma dec_less_finite: "finite_dec x \<Longrightarrow> finite_dec y \<Longrightarrow> dec_less x y = Inr (dec_val x < dec_val y)"
  by (cases x; cases y) simp_all

lemma dec_min_finite:
  "finite_dec x \<Longrightarrow> finite_dec y \<Longrightarrow> \<exists>r. dec_min x y = Inr r \<and> finite_dec r \<and> dec_val r = min (dec_val x) (dec_val y)"
  by (simp add: dec_min_def dec_less_finite andthen_def min_def)

lemma dec_max_finite:
  "finite_dec x \<Longrightarrow> finite_dec y \<Longrightarrow> \<exists>r. dec_max x y = Inr r \<and> finite_dec r \<and> dec_val r = max (dec_val x) (dec_val y)"
  by (simp add: dec_max_def dec_less_finite andthen_def max_def)

end
