(* ===== verification/Contract.thy ===== *)
theory Contract
  imports Decimals Fingerprints
begin

text \<open>
  \<open>analytics/contract.py\<close>: what a value of a fact row means. A value is what a JSONB column or a typed column hands
  to Python; a float is its shortest text (\<open>repr\<close>), which determines it, a date is its day number, a list or dict is its \<open>str\<close>. A row
  is its typed columns (absent ones read None) and its bag of attributes, None where the row has no dict there.
\<close>

datatype val = VNone | VBool bool | VInt int | VDec decimal | VFloat string | VStr string | VTime instant | VDate int | VOther string

record row =
  cols :: "string \<Rightarrow> val"
  bag :: "(string \<Rightarrow> val) option"

definition py_int_str :: "int \<Rightarrow> string" where
  "py_int_str i = (if i < 0 then ''-'' @ digits_of (- i) else digits_of i)"

fun val_str :: "val \<Rightarrow> string" where
  "val_str VNone = ''None''"
| "val_str (VBool b) = (if b then ''True'' else ''False'')"
| "val_str (VInt i) = py_int_str i"
| "val_str (VDec d) = dec_str d"
| "val_str (VFloat s) = s"
| "val_str (VStr s) = s"
| "val_str (VTime t) = map (\<lambda>c. if c = CHR ''T'' then CHR '' '' else c) (iso_utc t)"
| "val_str (VDate d) = iso_date d"
| "val_str (VOther s) = s"

subsection \<open>Quantities\<close>

definition quantity_fields :: "(string \<times> string) list" where
  "quantity_fields = [(''ConfirmPickLine'', ''QuantityPicked''), (''ReportCount'', ''CountedQuantity''),
     (''AddStockCountLine'', ''CountedQuantity'')]"

definition fact_fields :: "string list" where
  "fact_fields = [''source_transaction_id'', ''source_started_at'', ''source_version_hash'', ''revision'',
     ''event_time'', ''business_date'', ''duration_ms'', ''method'', ''transaction_name'', ''transaction_type'', ''status'',
     ''item_number'', ''lot_number'', ''order_number'', ''delivery_number'', ''warehouse'', ''warehouse_id'',
     ''from_location'', ''to_location'', ''user_name'', ''device_id'', ''device_name'', ''quantity'', ''quantity_classification'']"

definition record_fields :: "string list" where
  "record_fields = [''source_transaction_id'', ''source_started_at'', ''record_index'', ''event_time'', ''business_date'',
     ''method'', ''transaction_name'', ''mi_program'', ''mi_transaction'']"

datatype classification = Pick | Attempt | Correction | Non_quantity | Unusable

fun classification_str :: "classification \<Rightarrow> string" where
  "classification_str Pick = ''pick''"
| "classification_str Attempt = ''attempt''"
| "classification_str Correction = ''correction''"
| "classification_str Non_quantity = ''non_quantity''"
| "classification_str Unusable = ''unusable''"

definition quantity_field :: "string option \<Rightarrow> string option" where
  "quantity_field method = map_of quantity_fields (case method of None \<Rightarrow> [] | Some m \<Rightarrow> m)"

definition carries_quantity :: "string option \<Rightarrow> bool" where
  "carries_quantity method \<longleftrightarrow> quantity_field method \<noteq> None"

definition parse_quantity :: "val \<Rightarrow> decimal option" where
  "parse_quantity raw =
     (if raw = VNone then None else let s = strip (val_str raw) in if s = [] then None else parse_decimal s)"

definition dec_zero :: decimal where "dec_zero = Fin False 0 0"

definition classify_quantity :: "string option \<Rightarrow> decimal option \<Rightarrow> classification result" where
  "classify_quantity method quantity =
     (if \<not> carries_quantity method then Inr Non_quantity
      else case quantity of
             None \<Rightarrow> Inr Unusable
           | Some q \<Rightarrow> andthen (dec_less dec_zero q) (\<lambda>above.
               Inr (if above then Pick else if dec_truthy q then Correction else Attempt)))"

definition is_placeholder_type :: "string option \<Rightarrow> bool" where
  "is_placeholder_type t = (case t of None \<Rightarrow> False | Some s \<Rightarrow> list_ex (\<lambda>c. c = CHR ''x'' \<or> c = CHR ''X'') s)"

definition usable_dimension_value :: "string option \<Rightarrow> bool" where
  "usable_dimension_value t \<longleftrightarrow> t \<noteq> None \<and> t \<noteq> Some [] \<and> \<not> is_placeholder_type t"

subsection \<open>Fields\<close>

definition attr_prefix :: string where "attr_prefix = ''attr:''"

definition is_attr_path :: "string \<Rightarrow> bool" where
  "is_attr_path name = starts_with attr_prefix name"

definition attr_key :: "string \<Rightarrow> string" where
  "attr_key name = drop (length attr_prefix) name"

definition resolve_field :: "row \<Rightarrow> string \<Rightarrow> val" where
  "resolve_field r name =
     (if is_attr_path name then (case bag r of None \<Rightarrow> VNone | Some attrs \<Rightarrow> attrs (attr_key name)) else cols r name)"

fun numeric_or_none :: "val \<Rightarrow> decimal option" where
  "numeric_or_none (VDec d) = Some d"
| "numeric_or_none (VInt i) = Some (Fin (i < 0) \<bar>i\<bar> 0)"
| "numeric_or_none (VFloat s) = parse_decimal s"
| "numeric_or_none (VStr s) = parse_decimal (strip s)"
| "numeric_or_none _ = None"

definition normal_key :: "decimal \<Rightarrow> string option result" where
  "normal_key n = andthen (dec_normalize n) (\<lambda>m. Inr (Some (dec_str m)))"

definition number_key :: "val \<Rightarrow> string option result" where
  "number_key raw =
     (case numeric_or_none raw of
        None \<Rightarrow> Inr None
      | Some n \<Rightarrow> andthen (is_integral n) (\<lambda>whole. if whole then normal_key n else Inr (Some (dec_str n))))"

definition text_key :: "string \<Rightarrow> string option result" where
  "text_key raw =
     (let s = strip raw
      in if s = [] then Inr None
         else case numeric_or_none (VStr s) of
                None \<Rightarrow> Inr (Some s)
              | Some n \<Rightarrow> andthen (is_integral n) (\<lambda>whole.
                  let ds = dropWhile (\<lambda>c. c = CHR ''-'') s
                  in if whole \<and> ds \<noteq> [] \<and> list_all is_digit ds then normal_key n else Inr (Some s)))"

fun distinct_key :: "val \<Rightarrow> string option result" where
  "distinct_key VNone = Inr None"
| "distinct_key (VBool b) = Inr None"
| "distinct_key (VInt i) = number_key (VInt i)"
| "distinct_key (VFloat s) = number_key (VFloat s)"
| "distinct_key (VDec d) = number_key (VDec d)"
| "distinct_key v = text_key (val_str v)"

definition dimension_value :: "val \<Rightarrow> string option" where
  "dimension_value raw = (if raw = VNone then None else let s = strip (val_str raw) in if s = [] then None else Some s)"

lemma contract_samples:
  "distinct_key (VStr '' 0624 '') = Inr (Some ''624'')" "distinct_key (VInt 624) = Inr (Some ''624'')"
  "distinct_key (VDec (Fin False 62400 (- 2))) = Inr (Some ''624'')" "distinct_key (VFloat ''624.0'') = Inr (Some ''624'')"
  "distinct_key (VStr ''A03A'') = Inr (Some ''A03A'')" "distinct_key (VStr '' '') = Inr None"
  "classify_quantity (Some ''ReportCount'') (parse_quantity (VStr ''0.000000'')) = Inr Attempt"
  "classify_quantity (Some ''ReportCount'') (parse_quantity (VStr ''-2.5'')) = Inr Correction"
  "classify_quantity (Some ''Login'') (Some dec_zero) = Inr Non_quantity"
  "dimension_value (VTime 1000000) = Some ''1970-01-01 00:00:01+00:00''"
  by code_simp+

text \<open>A text with a point is its own key, whatever the comment beside the branch says.\<close>

lemma dotted_text_is_another_key:
  "distinct_key (VStr ''624.0'') = Inr (Some ''624.0'')" "distinct_key (VStr ''624'') = Inr (Some ''624'')"
  by code_simp+

text \<open>A quantity that reads NaN is neither quarantined nor classified: the comparison raises.\<close>

lemma not_a_number_raises:
  "parse_quantity (VStr ''NaN'') = Some (NaN False)"
  "classify_quantity (Some ''ConfirmPickLine'') (parse_quantity (VStr ''NaN'')) = Inl InvalidOperation"
  "distinct_key (VStr ''sNaN'') = Inl InvalidOperation"
  by code_simp+

end
