(* ===== verification/Payload.thy ===== *)
theory Payload
  imports Contract RetryPolicy
begin

text \<open>
  The response half of a transaction: \<open>analytics/payload.py\<close> (what its response entries say, and which names may be
  kept) and the registries of \<open>analytics/capture.py\<close> that decide it. Entries are pairs of an entry type and its JSON
  \<open>fields\<close>; a dict of attributes is a list of pairs, later stores of a name replacing earlier ones.
\<close>

type_synonym response_entry = "string \<times> json"

subsection \<open>Names\<close>

definition response_prefix :: string where "response_prefix = ''resp.''"
definition mi_prefix :: string where "mi_prefix = ''mi.''"
definition record_prefix :: string where "record_prefix = ''rec.''"
definition bookkeeping_prefix :: string where "bookkeeping_prefix = ''__''"
definition bare_response_field :: string where "bare_response_field = response_prefix @ ''value''"

definition never_seed :: "string list" where
  "never_seed = [''token'', ''secret'', ''password'', ''passwd'', ''credential'', ''cipher'', ''apikey'', ''api_key'',
     ''authorization'', ''bearer'', ''privatekey'', ''private_key'', ''signature'', ''salt'', ''nonce'']"

definition never_auto_approve :: "string \<Rightarrow> bool" where
  "never_auto_approve name \<longleftrightarrow> list_ex (\<lambda>p. has_substring p (lower name)) never_seed"

definition is_bookkeeping :: "string \<Rightarrow> bool" where
  "is_bookkeeping name = starts_with bookkeeping_prefix name"

definition mi_group_fields :: "string list" where
  "mi_group_fields = [''calls'', ''errors'', ''result'', ''record_count'']"

fun split_dots :: "string \<Rightarrow> string list" where
  "split_dots [] = [[]]"
| "split_dots (c # s) =
     (if c = CHR ''.'' then [] # split_dots s
      else case split_dots s of [] \<Rightarrow> [[c]] | p # ps \<Rightarrow> (c # p) # ps)"

text \<open>\<open>$\<close> also matches before a final newline.\<close>

definition mi_group_name :: "string \<Rightarrow> bool" where
  "mi_group_name name =
     (case split_dots name of
        [m, program, transaction, f] \<Rightarrow> m = ''mi'' \<and> program \<noteq> [] \<and> transaction \<noteq> []
          \<and> (f \<in> set mi_group_fields \<or> f \<in> set (map (\<lambda>g. g @ [char_of (10::int)]) mi_group_fields))
      | _ \<Rightarrow> False)"

definition seeded :: "string \<Rightarrow> bool" where
  "seeded name =
     (if never_auto_approve name \<or> is_bookkeeping name then False
      else if starts_with record_prefix name then False
      else if starts_with mi_prefix name then mi_group_name name
      else True)"

subsection \<open>What the entries say\<close>

text \<open>\<open>_is_scalar\<close> is \<open>scalar\<close> of \<open>TxnCompute\<close>: anything but a list or an object.\<close>

definition kind_part :: "attrs \<Rightarrow> string \<Rightarrow> string" where
  "kind_part fs k = (let v = jget fs k in if scalar v \<and> truthy v then py_str v else ''_'')"

definition kind :: "attrs \<Rightarrow> string" where
  "kind fs = kind_part fs ''program'' @ ''.'' @ kind_part fs ''transaction''"

record mi_group =
  g_calls :: nat
  g_errors :: nat
  g_result :: json
  g_records :: nat

definition no_calls :: mi_group where
  "no_calls = \<lparr>g_calls = 0, g_errors = 0, g_result = JNull, g_records = 0\<rparr>"

definition list_len :: "json \<Rightarrow> nat" where
  "list_len v = (case v of JList xs \<Rightarrow> length xs | _ \<Rightarrow> 0)"

definition store_scalars :: "attrs \<Rightarrow> attrs \<Rightarrow> attrs" where
  "store_scalars kvs out = fold (\<lambda>(k, v) o'. if scalar v then AList.update (response_prefix @ k) v o' else o') kvs out"

definition blank :: "json \<Rightarrow> bool" where
  "blank v = (case v of JStr s \<Rightarrow> strip s = [] | _ \<Rightarrow> False)"

definition extract_response :: "attrs \<Rightarrow> attrs \<Rightarrow> attrs" where
  "extract_response fs out =
     (let payload = jget fs ''response'';
          out = (if is_obj payload then store_scalars (obj_of payload) out
                 else if scalar payload \<and> payload \<noteq> JNull \<and> \<not> blank payload then AList.update bare_response_field payload out
                 else out)
      in store_scalars (filter (\<lambda>(k, v). k \<noteq> ''response'' \<and> k \<noteq> ''reqid'') fs) out)"

definition count_call :: "attrs \<Rightarrow> mi_group \<Rightarrow> mi_group" where
  "count_call fs g =
     (let r = jget fs ''result''; result = (if scalar r then r else JNull)
      in \<lparr>g_calls = Suc (g_calls g),
          g_errors = g_errors g + (if result \<noteq> JNull \<and> result \<noteq> JStr ''OK'' then 1 else 0), g_result = result,
          g_records = g_records g + list_len (jget fs ''records'')\<rparr>)"

definition extract_call :: "attrs \<Rightarrow> (string, mi_group) odict \<Rightarrow> (string, mi_group) odict" where
  "extract_call fs groups =
     (let k = kind fs in AList.update k (count_call fs (case map_of groups k of None \<Rightarrow> no_calls | Some g \<Rightarrow> g)) groups)"

definition extract_entry :: "bool \<Rightarrow> response_entry \<Rightarrow> attrs \<times> (string, mi_group) odict \<Rightarrow> attrs \<times> (string, mi_group) odict" where
  "extract_entry mi e st =
     (case (e, st) of ((et, JObj fs), (out, groups)) \<Rightarrow>
          if et = ''response'' then (extract_response fs out, groups)
          else if et = ''mi_result'' \<and> mi then (out, extract_call fs groups)
          else st
      | _ \<Rightarrow> st)"

definition group_fields :: "mi_group \<Rightarrow> (string \<times> json) list" where
  "group_fields g = [(''calls'', JInt (int (g_calls g))), (''errors'', JInt (int (g_errors g))), (''result'', g_result g),
     (''record_count'', JInt (int (g_records g)))]"

definition store_group :: "string \<times> mi_group \<Rightarrow> attrs \<Rightarrow> attrs" where
  "store_group kg out =
     fold (\<lambda>(f, v). AList.update (mi_prefix @ fst kg @ ''.'' @ f) v) (group_fields (snd kg)) out"

definition extract_all :: "response_entry list \<Rightarrow> bool \<Rightarrow> attrs" where
  "extract_all es mi = (let (out, groups) = fold (extract_entry mi) es ([], []) in fold store_group groups out)"

definition record_total :: "response_entry list \<Rightarrow> nat" where
  "record_total es =
     sum_list (map (\<lambda>(et, f). if et = ''mi_result'' \<and> is_obj f then list_len (jget (obj_of f) ''records'') else 0) es)"

text \<open>What may be stored, and the sorted names of what may only be reported.\<close>

definition select :: "attrs \<Rightarrow> string list \<Rightarrow> attrs \<times> string list" where
  "select observed approved =
     (filter (\<lambda>(k, v). k \<in> set approved) observed, sort (map fst (filter (\<lambda>(k, v). k \<notin> set approved) observed)))"

subsection \<open>The record grain\<close>

record m3_record =
  rec_program :: json
  rec_transaction :: json
  rec_attributes :: attrs

definition scalar_or_none :: "json \<Rightarrow> json" where
  "scalar_or_none v = (if scalar v then v else JNull)"

definition record_of :: "attrs \<Rightarrow> attrs \<Rightarrow> m3_record" where
  "record_of fs r =
     \<lparr>rec_program = scalar_or_none (jget fs ''program''), rec_transaction = scalar_or_none (jget fs ''transaction''),
      rec_attributes = map (\<lambda>(k, v). (record_prefix @ k, v)) (filter (\<lambda>(k, v). scalar v) r)\<rparr>"

definition entry_records :: "response_entry \<Rightarrow> m3_record list" where
  "entry_records e =
     (case e of (et, JObj fs) \<Rightarrow>
          if et \<noteq> ''mi_result'' then []
          else (case jget fs ''records'' of
                  JList rs \<Rightarrow> map (record_of fs \<circ> obj_of) (filter is_obj rs)
                | _ \<Rightarrow> [])
      | _ \<Rightarrow> [])"

definition records :: "response_entry list \<Rightarrow> m3_record list" where
  "records es = concat (map entry_records es)"

subsection \<open>The two registries\<close>

record transaction_row =
  tr_customer :: string
  tr_name :: string
  tr_capture :: bool
  tr_show :: bool
  tr_expand :: bool
  tr_mi :: bool
  tr_first_seen :: instant

record field_row =
  fr_customer :: string
  fr_method :: string
  fr_source :: string
  fr_field :: string
  fr_captured :: bool
  fr_first_seen :: instant
  fr_last_seen :: instant
  fr_seen_count :: int
  fr_reviewed :: "instant option"

definition names_where :: "(transaction_row \<Rightarrow> bool) \<Rightarrow> string \<Rightarrow> transaction_row list \<Rightarrow> string list" where
  "names_where p cc rows = map tr_name (filter (\<lambda>r. tr_customer r = cc \<and> p r) rows)"

definition suppressed_names :: "string \<Rightarrow> transaction_row list \<Rightarrow> string list" where
  "suppressed_names = names_where (\<lambda>r. \<not> tr_capture r)"

definition hidden_names :: "string \<Rightarrow> transaction_row list \<Rightarrow> string list" where
  "hidden_names = names_where (\<lambda>r. \<not> tr_show r)"

definition expanded_names :: "string \<Rightarrow> transaction_row list \<Rightarrow> string list" where
  "expanded_names = names_where tr_expand"

definition mi_names :: "string \<Rightarrow> transaction_row list \<Rightarrow> string list" where
  "mi_names = names_where tr_mi"

text \<open>\<open>source_predicate\<close> and \<open>fact_predicate\<close>: true of a row whose name is NULL; no clause when nothing is suppressed.\<close>

definition capture_gate :: "string list \<Rightarrow> string option \<Rightarrow> bool" where
  "capture_gate suppressed name = (suppressed = [] \<or> (case name of None \<Rightarrow> True | Some n \<Rightarrow> n \<notin> set suppressed))"

definition is_captured :: "string option \<Rightarrow> string list \<Rightarrow> bool" where
  "is_captured name suppressed = (case name of None \<Rightarrow> True | Some n \<Rightarrow> n \<notin> set suppressed)"

definition seen_name :: "string \<Rightarrow> instant \<Rightarrow> string \<Rightarrow> transaction_row" where
  "seen_name cc now n = \<lparr>tr_customer = cc, tr_name = n, tr_capture = True, tr_show = True, tr_expand = False, tr_mi = False,
     tr_first_seen = now\<rparr>"

definition observe_name :: "string \<Rightarrow> instant \<Rightarrow> string \<Rightarrow> transaction_row list \<Rightarrow> transaction_row list" where
  "observe_name cc now n rows =
     (if list_ex (\<lambda>r. tr_customer r = cc \<and> tr_name r = n) rows then rows else rows @ [seen_name cc now n])"

definition observe_names :: "string \<Rightarrow> instant \<Rightarrow> string option list \<Rightarrow> transaction_row list \<Rightarrow> transaction_row list" where
  "observe_names cc now names rows =
     fold (observe_name cc now) (sort (remdups (map the (filter (\<lambda>n. n \<noteq> None \<and> n \<noteq> Some []) names)))) rows"

definition approved_attributes :: "string \<Rightarrow> field_row list \<Rightarrow> string list" where
  "approved_attributes cc rows = map fr_field (filter (\<lambda>r. fr_customer r = cc \<and> fr_captured r) rows)"

text \<open>\<open>LIKE 'rec.%'\<close> has no other wildcard in it.\<close>

definition approved_record_fields :: "string \<Rightarrow> field_row list \<Rightarrow> string list" where
  "approved_record_fields cc rows =
     map fr_field (filter (\<lambda>r. fr_customer r = cc \<and> fr_captured r \<and> starts_with record_prefix (fr_field r)) rows)"

definition source_of :: "string option \<Rightarrow> string \<Rightarrow> string" where
  "source_of given_source name =
     (if starts_with record_prefix name then ''record''
      else if starts_with mi_prefix name then ''mi_result''
      else if starts_with response_prefix name then ''response''
      else (case given_source of None \<Rightarrow> ''response'' | Some s \<Rightarrow> if s = [] then ''response'' else s))"

definition method_key :: "string option \<Rightarrow> string" where
  "method_key m = (case m of None \<Rightarrow> ''(none)'' | Some s \<Rightarrow> if s = [] then ''(none)'' else s)"

definition seen_field :: "string \<Rightarrow> instant \<Rightarrow> string option \<Rightarrow> string option \<Rightarrow> string \<Rightarrow> field_row" where
  "seen_field cc now source m name =
     \<lparr>fr_customer = cc, fr_method = method_key m, fr_source = source_of source name, fr_field = name, fr_captured = seeded name,
      fr_first_seen = now, fr_last_seen = now, fr_seen_count = 1, fr_reviewed = None\<rparr>"

definition same_field :: "field_row \<Rightarrow> field_row \<Rightarrow> bool" where
  "same_field a b \<longleftrightarrow> fr_customer a = fr_customer b \<and> fr_method a = fr_method b \<and> fr_source a = fr_source b \<and> fr_field a = fr_field b"

text \<open>\<open>INSERT ... ON CONFLICT DO UPDATE\<close>: a row that is there only counts; its switch is nobody's to move here.\<close>

definition observe_field :: "instant \<Rightarrow> field_row \<Rightarrow> field_row list \<Rightarrow> field_row list" where
  "observe_field now new rows =
     (if list_ex (same_field new) rows
      then map (\<lambda>r. if same_field new r then r\<lparr>fr_last_seen := now, fr_seen_count := fr_seen_count r + 1\<rparr> else r) rows
      else rows @ [new])"

definition observe_fields ::
    "string \<Rightarrow> instant \<Rightarrow> string option \<Rightarrow> (string option \<times> string list) list \<Rightarrow> field_row list \<Rightarrow> field_row list" where
  "observe_fields cc now source seen rows =
     fold (observe_field now) (concat (map (\<lambda>(m, names). map (seen_field cc now source m) (sort (remdups names))) seen)) rows"

lemma payload_samples:
  "seeded ''resp.QuantityOnHand''" "\<not> seeded ''resp.SessionToken''" "\<not> seeded ''rec.ITNO''" "\<not> seeded ''mi.program''"
  "seeded ''mi.MMS060MI.LstBalID.calls''" "\<not> seeded ''__src_fp''"
  "extract_all [(''response'', JObj [(''response'', JObj [(''Qty'', JInt 3), (''Rows'', JList [])]), (''reqid'', JStr ''r1'')])] False
   = [(''resp.Qty'', JInt 3)]"
  "extract_all [(''response'', JObj [(''response'', JStr ''3.5'')])] False = [(''resp.value'', JStr ''3.5'')]"
  "extract_all [(''mi_result'', JObj [(''program'', JStr ''P''), (''result'', JStr ''NOK''), (''records'', JList [JNull])])] True
   = [(''mi.P._.calls'', JInt 1), (''mi.P._.errors'', JInt 1), (''mi.P._.result'', JStr ''NOK''), (''mi.P._.record_count'', JInt 1)]"
  by code_simp+

end
