(* ===== verification/RangeDiff.thy ===== *)
theory RangeDiff
  imports Prelude
begin

text \<open>
  The range diff (\<open>analytics/diff.py\<close>): what to do about every key of a range, given what is stored in it and what the
  source says. \<open>key\<close> reads the identity of a row and \<open>hash\<close> its fingerprint; both sides are dicts by key, in
  which a later row replaces an earlier one of the same key. The lemmas show what the verdicts determine: every key of
  either side gets exactly one verdict, whatever order the rows came in.
\<close>

datatype action = Insert | Update | Unchanged | Reverse

record ('k, 'r) range_outcome =
  o_action :: action
  o_key :: 'k
  o_fact :: "'r option"
  o_stored :: "'r option"

definition writes :: "('k, 'r) range_outcome \<Rightarrow> bool" where
  "writes o1 \<longleftrightarrow> o_action o1 \<noteq> Unchanged"

definition by_key :: "('r \<Rightarrow> 'k) \<Rightarrow> 'r list \<Rightarrow> ('k, 'r) odict" where
  "by_key key rows = fold (\<lambda>r. AList.update (key r) r) rows []"

definition judge :: "('r \<Rightarrow> string) \<Rightarrow> ('k, 'r) odict \<Rightarrow> 'k \<times> 'r \<Rightarrow> ('k, 'r) range_outcome" where
  "judge hash have kr =
     (case map_of have (fst kr) of
        None \<Rightarrow> \<lparr>o_action = Insert, o_key = fst kr, o_fact = Some (snd kr), o_stored = None\<rparr>
      | Some old \<Rightarrow>
          (if hash old = hash (snd kr)
           then \<lparr>o_action = Unchanged, o_key = fst kr, o_fact = Some old, o_stored = Some old\<rparr>
           else \<lparr>o_action = Update, o_key = fst kr, o_fact = Some (snd kr), o_stored = Some old\<rparr>))"

definition reversal :: "'k \<times> 'r \<Rightarrow> ('k, 'r) range_outcome" where
  "reversal kr = \<lparr>o_action = Reverse, o_key = fst kr, o_fact = None, o_stored = Some (snd kr)\<rparr>"

definition diff :: "('r \<Rightarrow> 'k) \<Rightarrow> ('r \<Rightarrow> string) \<Rightarrow> 'r list \<Rightarrow> 'r list \<Rightarrow> ('k, 'r) range_outcome list" where
  "diff key hash stored source =
     (let have = by_key key stored; want = by_key key source
      in map (judge hash have) want @ map reversal (filter (\<lambda>kr. fst kr \<notin> fst ` set want) have))"

subsection \<open>Dicts by key\<close>

lemma fold_by_key: "map_of (fold (\<lambda>r. AList.update (key r) r) rows d) k =
    (case filter (\<lambda>r. key r = k) rows of [] \<Rightarrow> map_of d k | ys \<Rightarrow> Some (last ys))"
  by (induction rows arbitrary: d) (auto simp: od_laws split: list.splits)

lemma lookup_by_key: "map_of (by_key key rows) k = (if k \<in> key ` set rows then Some (last (filter (\<lambda>r. key r = k) rows)) else None)"
proof (cases "filter (\<lambda>r. key r = k) rows")
  case Nil
  then have "k \<notin> key ` set rows" by (auto simp: filter_empty_conv)
  with Nil show ?thesis by (simp add: by_key_def fold_by_key)
next
  case (Cons y ys)
  then have "y \<in> set (filter (\<lambda>r. key r = k) rows)" by simp
  then have "k \<in> key ` set rows" by auto
  with Cons show ?thesis by (simp add: by_key_def fold_by_key)
qed

lemma distinct_by_key: "distinct (map fst (by_key key rows))"
proof -
  have "distinct (map fst d) \<Longrightarrow> distinct (map fst (fold (\<lambda>r. AList.update (key r) r) rows d))" for d
    by (induction rows arbitrary: d) (auto simp: distinct_update_keys)
  then show ?thesis by (simp add: by_key_def)
qed

lemma keys_by_key: "fst ` set (by_key key rows) = key ` set rows"
proof -
  have "k \<in> fst ` set (by_key key rows) \<longleftrightarrow> k \<in> key ` set rows" for k
    using map_of_eq_None_iff [of "by_key key rows" k] by (auto simp: lookup_by_key split: if_splits)
  then show ?thesis by blast
qed

lemma filter_key_unique: "distinct (map key rows) \<Longrightarrow> r \<in> set rows \<Longrightarrow> filter (\<lambda>x. key x = key r) rows = [r]"
proof (induction rows)
  case (Cons x xs)
  show ?case
  proof (cases "x = r")
    case True
    have "key y \<noteq> key r" if "y \<in> set xs" for y using Cons.prems(1) True that by (auto simp: image_iff)
    then show ?thesis using True by (simp add: filter_empty_conv)
  next
    case False
    then have "r \<in> set xs" "key x \<noteq> key r" using Cons.prems by auto
    then show ?thesis using Cons by simp
  qed
qed simp

lemma by_key_unique: "distinct (map key rows) \<Longrightarrow> r \<in> set rows \<Longrightarrow> map_of (by_key key rows) (key r) = Some r"
  by (simp add: lookup_by_key filter_key_unique)

lemma by_key_in:
  assumes "map_of (by_key key rows) k = Some r"
  shows "r \<in> set rows" and "key r = k"
proof -
  have k: "k \<in> key ` set rows" and r: "r = last (filter (\<lambda>r. key r = k) rows)" using assms by (auto simp: lookup_by_key split: if_splits)
  then have "filter (\<lambda>r. key r = k) rows \<noteq> []" by (auto simp: filter_empty_conv)
  then have "r \<in> set (filter (\<lambda>r. key r = k) rows)" unfolding r by (rule last_in_set)
  then show "r \<in> set rows" "key r = k" by simp_all
qed

subsection \<open>One verdict per key\<close>

lemma judge_key [simp]: "o_key (judge hash have kr) = fst kr"
  by (simp add: judge_def split: option.splits)

lemma reversal_key [simp]: "o_key (reversal kr) = fst kr"
  by (simp add: reversal_def)

lemma diff_keys: "set (map o_key (diff key hash stored source)) = key ` set stored \<union> key ` set source"
proof -
  have "set (map o_key (diff key hash stored source))
      = fst ` set (by_key key source) \<union> {k \<in> fst ` set (by_key key stored). k \<notin> fst ` set (by_key key source)}"
    by (simp add: diff_def Let_def image_Un image_image) force
  then show ?thesis by (auto simp: keys_by_key)
qed

lemma diff_keys_distinct: "distinct (map o_key (diff key hash stored source))"
proof -
  let ?h = "by_key key stored" and ?w = "by_key key source"
  have "distinct (map fst (filter (\<lambda>kr. fst kr \<notin> fst ` set ?w) ?h))" by (rule distinct_map_filter [OF distinct_by_key])
  then show ?thesis
    using distinct_by_key [of key source] by (auto simp: diff_def Let_def comp_def intro: rev_image_eqI)
qed

text \<open>The verdict of a key, as a function of the two sides.\<close>

definition verdict_at :: "('r \<Rightarrow> string) \<Rightarrow> 'r option \<Rightarrow> 'r option \<Rightarrow> action option" where
  "verdict_at hash old new =
     (case (old, new) of
        (None, None) \<Rightarrow> None
      | (None, Some r) \<Rightarrow> Some Insert
      | (Some s, None) \<Rightarrow> Some Reverse
      | (Some s, Some r) \<Rightarrow> Some (if hash s = hash r then Unchanged else Update))"

lemma diff_outcome:
  assumes "o1 \<in> set (diff key hash stored source)"
  shows "verdict_at hash (map_of (by_key key stored) (o_key o1)) (map_of (by_key key source) (o_key o1)) = Some (o_action o1)"
    and "o_stored o1 = map_of (by_key key stored) (o_key o1)"
    and "o_action o1 \<noteq> Unchanged \<Longrightarrow> o_fact o1 = map_of (by_key key source) (o_key o1)"
proof -
  let ?h = "by_key key stored" and ?w = "by_key key source"
  have at: "map_of d (fst kr) = Some (snd kr)" if "kr \<in> set d" "distinct (map fst d)" for kr d
    using that by simp
  have none: "map_of ?w k = None" if "k \<notin> fst ` set ?w" for k using that by (simp add: map_of_eq_None_iff)
  from assms consider kr where "kr \<in> set ?w" "o1 = judge hash ?h kr"
    | kr where "kr \<in> set ?h" "fst kr \<notin> fst ` set ?w" "o1 = reversal kr"
    by (auto simp: diff_def Let_def)
  then have "verdict_at hash (map_of ?h (o_key o1)) (map_of ?w (o_key o1)) = Some (o_action o1)
    \<and> o_stored o1 = map_of ?h (o_key o1) \<and> (o_action o1 \<noteq> Unchanged \<longrightarrow> o_fact o1 = map_of ?w (o_key o1))"
  proof cases
    case 1
    then show ?thesis using at [of kr ?w, OF 1(1) distinct_by_key] by (auto simp: judge_def verdict_at_def split: option.splits)
  next
    case 2
    then show ?thesis using at [of kr ?h, OF 2(1) distinct_by_key] none [OF 2(2)] by (auto simp: reversal_def verdict_at_def)
  qed
  then show "verdict_at hash (map_of ?h (o_key o1)) (map_of ?w (o_key o1)) = Some (o_action o1)"
    and "o_stored o1 = map_of ?h (o_key o1)"
    and "o_action o1 \<noteq> Unchanged \<Longrightarrow> o_fact o1 = map_of ?w (o_key o1)" by blast+
qed

end
