(* ===== verification/FloatOrder.thy ===== *)
theory FloatOrder
  imports Floats
begin

text \<open>
  Order properties of the float operations of \<open>Floats\<close>: rounding is monotone, and exact on the integers a
  double holds. They bound a float computation by the integers around it.
\<close>

named_theorems float_order

subsection \<open>Rounding to an integer\<close>

lemma round_even_cases: "round_even q = \<lfloor>q\<rfloor> \<or> round_even q = \<lfloor>q\<rfloor> + 1"
  by (auto simp: round_even_def Let_def)

lemma round_even_of_int [simp]: "round_even (of_int n) = n"
  by (simp add: round_even_def)

lemma round_even_mono: "p \<le> q \<Longrightarrow> round_even p \<le> round_even q"
proof -
  assume le: "p \<le> q"
  show ?thesis
  proof (cases "\<lfloor>p\<rfloor> = \<lfloor>q\<rfloor>")
    case True
    then show ?thesis using le by (auto simp: round_even_def Let_def)
  next
    case False
    then have "\<lfloor>p\<rfloor> + 1 \<le> \<lfloor>q\<rfloor>" using floor_mono [OF le] by linarith
    then show ?thesis using round_even_cases [of p] round_even_cases [of q] by linarith
  qed
qed

lemma round_even_ge: "of_int n \<le> q \<Longrightarrow> n \<le> round_even q"
  using round_even_mono [of "of_int n" q] by simp

lemma round_even_le: "q \<le> of_int n \<Longrightarrow> round_even q \<le> n"
  using round_even_mono [of q "of_int n"] by simp

subsection \<open>Powers of two\<close>

lemma pow2_nat: "pow2 (int n) = 2 ^ n"
  by (simp add: pow2_def)

lemma pow2_inverse: "pow2 (- int n) * 2 ^ n = 1"
  using pow2_add [of "- int n" "int n"] by (simp add: pow2_nat) (simp add: pow2_def)

lemma pow2_mono: "a \<le> b \<Longrightarrow> pow2 a \<le> pow2 b"
proof -
  assume "a \<le> b"
  then have "pow2 b = pow2 a * 2 ^ nat (b - a)" using pow2_add [of a "b - a"] pow2_nat [of "nat (b - a)"] by simp
  moreover have "pow2 a * 1 \<le> pow2 a * 2 ^ nat (b - a)" by (intro mult_left_mono) (auto intro: less_imp_le)
  ultimately show ?thesis by simp
qed

lemma pow2_less_iff: "pow2 a < pow2 b \<Longrightarrow> a < b"
  using pow2_mono [of b a] by linarith

lemma binexp_mono: "0 < x \<Longrightarrow> x \<le> y \<Longrightarrow> binexp x \<le> binexp y"
proof -
  assume "0 < x" "x \<le> y"
  then have "pow2 (binexp x) < pow2 (binexp y + 1)"
    using binexp_bounds(1) [of x] binexp_bounds(2) [of y] by linarith
  then show ?thesis using pow2_less_iff by fastforce
qed

subsection \<open>Rounding to a double\<close>

lemma fl_pos_between: "0 < x \<Longrightarrow> pow2 (binexp x) \<le> fl_pos x \<and> fl_pos x \<le> pow2 (binexp x + 1)"
proof -
  assume x: "0 < x"
  define s where "s = pow2 (binexp x - 52)"
  have s: "0 < s" by (simp add: s_def)
  have lo: "pow2 (binexp x) = of_int (2 ^ 52) * s" and hi: "pow2 (binexp x + 1) = of_int (2 ^ 53) * s"
    using pow2_add [of 52 "binexp x - 52"] pow2_add [of 53 "binexp x - 52"] pow2_nat [of 52] pow2_nat [of 53]
    by (simp_all add: s_def add.commute)
  have "of_int (2 ^ 52) \<le> x / s" "x / s \<le> of_int (2 ^ 53)"
    using binexp_bounds [OF x] s unfolding lo hi by (simp_all add: pos_le_divide_eq pos_divide_le_eq del: of_int_power)
  then have "2 ^ 52 \<le> round_even (x / s)" "round_even (x / s) \<le> 2 ^ 53"
    using round_even_ge round_even_le by blast+
  then have "(of_int (2 ^ 52) :: rat) \<le> of_int (round_even (x / s))" "of_int (round_even (x / s)) \<le> (of_int (2 ^ 53) :: rat)"
    by (simp_all only: of_int_le_iff)
  then show ?thesis using s unfolding lo hi fl_pos_def Let_def s_def [symmetric] by simp
qed

lemma fl_pos_mono: "0 < x \<Longrightarrow> x \<le> y \<Longrightarrow> fl_pos x \<le> fl_pos y"
proof -
  assume x: "0 < x" and le: "x \<le> y"
  show ?thesis
  proof (cases "binexp x = binexp y")
    case True
    then have "x / pow2 (binexp x - 52) \<le> y / pow2 (binexp y - 52)" using le by (simp add: divide_right_mono less_imp_le)
    then have "of_int (round_even (x / pow2 (binexp x - 52))) \<le> (of_int (round_even (y / pow2 (binexp y - 52))) :: rat)"
      by (simp add: round_even_mono)
    then show ?thesis using True by (simp add: fl_pos_def Let_def)
  next
    case False
    then have "binexp x + 1 \<le> binexp y" using binexp_mono [OF x le] by simp
    then have "pow2 (binexp x + 1) \<le> pow2 (binexp y)" by (rule pow2_mono)
    then show ?thesis using fl_pos_between [OF x] fl_pos_between [of y] x le by linarith
  qed
qed

lemma fl_mono [float_order]: "x \<le> y \<Longrightarrow> fl x \<le> fl y"
proof -
  assume le: "x \<le> y"
  consider "x \<le> 0" "0 \<le> y" | "0 < x" | "y < 0" using le by linarith
  then show ?thesis
  proof cases
    case 1
    then show ?thesis using fl_nonpos [of x] fl_nonneg [of y] by linarith
  next
    case 2
    then show ?thesis using le by (simp add: fl_def fl_pos_mono)
  next
    case 3
    then show ?thesis using le fl_pos_mono [of "- y" "- x"] by (simp add: fl_def)
  qed
qed

lemma fl_pos_exact: "x / pow2 (binexp x - 52) = of_int n \<Longrightarrow> fl_pos x = x"
  unfolding fl_pos_def Let_def using pow2_pos [of "binexp x - 52"]
  by (metis less_irrefl nonzero_eq_divide_eq round_even_of_int)

lemma fl_pos_int: "0 < n \<Longrightarrow> n \<le> 2 ^ 53 \<Longrightarrow> fl_pos (of_int n) = of_int n"
proof -
  assume n: "0 < n" "n \<le> 2 ^ 53"
  define x :: rat where "x = of_int n"
  have x: "0 < x" "x \<le> 2 ^ 53" using n of_int_le_iff [of n "2 ^ 53", where 'a = rat] by (simp_all add: x_def)
  have "pow2 (binexp x) < pow2 54" using binexp_bounds(1) [OF x(1)] x(2) pow2_nat [of 54] by simp
  then have e: "binexp x \<le> 53" using pow2_less_iff by fastforce
  show ?thesis
  proof (cases "binexp x = 53")
    case True
    then have "x = 2 ^ 53" using binexp_bounds(1) [OF x(1)] x(2) pow2_nat [of 53] by simp
    then have "x / pow2 (binexp x - 52) = of_int (2 ^ 52)" using True pow2_nat [of 1] by simp
    then show ?thesis using fl_pos_exact x_def by blast
  next
    case False
    then have "binexp x - 52 = - int (nat (52 - binexp x))" using e by simp
    then have "pow2 (binexp x - 52) * 2 ^ nat (52 - binexp x) = 1" using pow2_inverse by metis
    then have "x = x * (pow2 (binexp x - 52) * 2 ^ nat (52 - binexp x))" by (simp only: mult_1_right)
    then have "x = of_int (n * 2 ^ nat (52 - binexp x)) * pow2 (binexp x - 52)"
      by (simp only: x_def of_int_mult of_int_power of_int_numeral ac_simps)
    then have "x / pow2 (binexp x - 52) = of_int (n * 2 ^ nat (52 - binexp x))"
      using pow2_pos [of "binexp x - 52"] by (metis less_irrefl nonzero_mult_div_cancel_right)
    then show ?thesis using fl_pos_exact x_def by blast
  qed
qed

lemma fl_int [float_order]: "\<bar>n\<bar> \<le> 2 ^ 53 \<Longrightarrow> fl (of_int n) = of_int n"
  using fl_pos_int [of n] fl_pos_int [of "- n"] by (cases n "0::int" rule: linorder_cases) (auto simp: fl_def)

lemma fl_ge_int: "of_int n \<le> x \<Longrightarrow> \<bar>n\<bar> \<le> 2 ^ 53 \<Longrightarrow> of_int n \<le> fl x"
  using fl_mono [of "of_int n" x] fl_int [of n] by simp

lemma fl_le_int: "x \<le> of_int n \<Longrightarrow> \<bar>n\<bar> \<le> 2 ^ 53 \<Longrightarrow> fl x \<le> of_int n"
  using fl_mono [of x "of_int n"] fl_int [of n] by simp

subsection \<open>Rounding to thousandths: round(x, 3)\<close>

text \<open>\<open>round(x, 3)\<close> rounds the exact value of the double to the nearest multiple of 0.001, ties to even,
  and takes the nearest double.\<close>

definition round3 :: "rat \<Rightarrow> rat" where
  "round3 x = fl (of_int (round_even (x * 1000)) / 1000)"

lemma round3_ge: "of_int n \<le> x \<Longrightarrow> \<bar>n\<bar> \<le> 2 ^ 53 \<Longrightarrow> of_int n \<le> round3 x"
proof -
  assume "of_int n \<le> x" and n: "\<bar>n\<bar> \<le> 2 ^ 53"
  then have "of_int (n * 1000) \<le> x * 1000" by simp
  then have "n * 1000 \<le> round_even (x * 1000)" by (rule round_even_ge)
  then have "(of_int (n * 1000) :: rat) \<le> of_int (round_even (x * 1000))" by (simp only: of_int_le_iff)
  then have "of_int n \<le> (of_int (round_even (x * 1000)) :: rat) / 1000" by simp
  then show ?thesis unfolding round3_def using n by (rule fl_ge_int)
qed

lemma round3_le: "x \<le> of_int n \<Longrightarrow> \<bar>n\<bar> \<le> 2 ^ 53 \<Longrightarrow> round3 x \<le> of_int n"
proof -
  assume "x \<le> of_int n" and n: "\<bar>n\<bar> \<le> 2 ^ 53"
  then have "x * 1000 \<le> of_int (n * 1000)" by simp
  then have "round_even (x * 1000) \<le> n * 1000" by (rule round_even_le)
  then have "(of_int (round_even (x * 1000)) :: rat) \<le> of_int (n * 1000)" by (simp only: of_int_le_iff)
  then have "(of_int (round_even (x * 1000)) :: rat) / 1000 \<le> of_int n" by simp
  then show ?thesis unfolding round3_def using n by (rule fl_le_int)
qed

end
