(* ===== verification/Sketches.thy ===== *)
theory Sketches
  imports FloatOrder "HOL-Library.Word" "HOL-Library.List_Lexorder" "HOL-Library.Char_ord"
begin

unbundle bit_operations_syntax

text \<open>
  The two summaries a rollup can add: the histogram of 20 bands behind \<open>percentile\<close> (\<open>histogram.py\<close>) and the
  HyperLogLog sketch behind \<open>distinct\<close> (\<open>hll.py\<close>). A histogram is its list of counts, a sketch its list of
  registers. Floats are the rationals of \<open>Floats\<close>; the hash (\<open>blake2b\<close> on 8 bytes) and \<open>math.log\<close> are
  parameters.
\<close>

subsection \<open>Histogram\<close>

definition bands :: nat where "bands = 20"

definition top_value :: rat where "top_value = 2 ^ (bands - 2)"

definition empty_histogram :: "nat list" where "empty_histogram = replicate bands 0"

text \<open>The loop of \<open>band_of\<close>; its \<open>edge\<close> is \<open>2.0 ** band\<close> throughout.\<close>

function climb :: "rat \<Rightarrow> nat \<Rightarrow> nat" where
  "climb v band = (if 2 ^ band \<le> v then climb v (Suc band) else band)"
  by pat_completeness auto
termination
proof (relation "measure (\<lambda>(v, band). nat \<lceil>v\<rceil> - band)")
  fix v :: rat and band :: nat
  assume "2 ^ band \<le> v"
  moreover have "rat_of_nat band < 2 ^ band" using less_exp [of band] of_nat_less_iff [of band "2 ^ band", where 'a = rat] by simp
  ultimately have "rat_of_nat band < v" by linarith
  then have "int band < \<lceil>v\<rceil>" by (simp add: less_ceiling_iff)
  then show "((v, Suc band), (v, band)) \<in> measure (\<lambda>(v, band). nat \<lceil>v\<rceil> - band)" by simp
qed simp

declare climb.simps [simp del]

definition band_of :: "rat \<Rightarrow> nat" where
  "band_of v = (if v < 1 then 0 else if top_value \<le> v then bands - 1 else climb v 1)"

definition lower_edge :: "nat \<Rightarrow> int" where
  "lower_edge band = (if band = 0 then 0 else 2 ^ (band - 1))"

definition upper_edge :: "nat \<Rightarrow> int" where
  "upper_edge band = 2 ^ band"

definition pad_histogram :: "nat list \<Rightarrow> nat list" where
  "pad_histogram h = (let counts = (if h = [] then empty_histogram else h)
     in if length counts < bands then counts @ replicate (bands - length counts) 0 else counts)"

definition count_band :: "nat list \<Rightarrow> nat \<Rightarrow> nat list" where
  "count_band h band = (let counts = pad_histogram h in counts[band := counts ! band + 1])"

definition histogram_add :: "nat list \<Rightarrow> rat \<Rightarrow> nat list" where
  "histogram_add h v = count_band h (band_of v)"

text \<open>The interpolation inside the crossing band, and the walk to it.\<close>

definition inside_band :: "rat \<Rightarrow> nat \<Rightarrow> nat \<Rightarrow> nat \<Rightarrow> rat" where
  "inside_band target band cumulative count =
     (let fraction = fdiv (fsub target (of_nat cumulative)) (of_nat count); lo = lower_edge band; hi = upper_edge band
      in round3 (fadd (of_int lo) (fmul fraction (of_int (hi - lo)))))"

fun walk_bands :: "rat \<Rightarrow> nat \<Rightarrow> nat \<Rightarrow> nat list \<Rightarrow> rat option" where
  "walk_bands target band cumulative [] = None"
| "walk_bands target band cumulative (count # rest) =
     (if count \<noteq> 0 \<and> target < of_nat (cumulative + count) then Some (inside_band target band cumulative count)
      else walk_bands target (Suc band) (cumulative + count) rest)"

definition last_band :: "nat list \<Rightarrow> nat" where
  "last_band h = last (filter (\<lambda>i. h ! i \<noteq> 0) [0..<length h])"

definition percentile :: "nat list \<Rightarrow> rat \<Rightarrow> rat option" where
  "percentile h q =
     (if h = [] \<or> sum_list h = 0 then None
      else case walk_bands (fmul q (of_nat (sum_list h))) 0 0 h of
             Some x \<Rightarrow> Some x
           | None \<Rightarrow> Some (of_int (upper_edge (last_band h))))"

subsection \<open>HyperLogLog\<close>

definition hll_registers :: nat where "hll_registers = 4096"

definition hll_empty :: "nat list" where "hll_empty = replicate hll_registers 0"

definition hll_index :: "64 word \<Rightarrow> nat" where
  "hll_index h = unat (drop_bit 52 h)"

definition hll_rho :: "64 word \<Rightarrow> nat" where
  "hll_rho h = 52 - bitlen (uint (h AND mask 52)) + 1"

definition hll_add :: "(string \<Rightarrow> 64 word) \<Rightarrow> nat list \<Rightarrow> string \<Rightarrow> nat list" where
  "hll_add hash64 sketch v =
     (let h = hash64 v; i = hll_index h; rho = hll_rho h
      in if rho \<le> sketch ! i then sketch else sketch[i := rho])"

definition hll_observe :: "(string \<Rightarrow> 64 word) \<Rightarrow> string \<Rightarrow> nat list \<Rightarrow> nat list" where
  "hll_observe hash64 v registers =
     (let h = hash64 v; i = hll_index h; rho = hll_rho h
      in if registers ! i < rho then registers[i := rho] else registers)"

definition hll_from_values :: "(string \<Rightarrow> 64 word) \<Rightarrow> string list \<Rightarrow> nat list" where
  "hll_from_values hash64 vs = fold (hll_observe hash64) vs hll_empty"

definition hll_union :: "nat list \<Rightarrow> nat list \<Rightarrow> nat list" where
  "hll_union a b = (if a = hll_empty then b else if b = hll_empty then a else map2 max a b)"

definition hll_alpha :: rat where
  "hll_alpha = fdiv (fl (7213 / 10000)) (fadd 1 (fdiv (fl (1079 / 1000)) (of_nat hll_registers)))"

definition hll_estimate :: "(rat \<Rightarrow> rat) \<Rightarrow> nat list \<Rightarrow> int" where
  "hll_estimate mlog sketch =
     (if sketch = [] \<or> sketch = hll_empty then 0
      else let zeros = length (filter (\<lambda>r. r = 0) sketch);
               inverse_sum = fold (\<lambda>r s. fadd s (pow2 (- int r))) sketch 0;
               raw = fdiv (fmul (fmul hll_alpha (of_nat hll_registers)) (of_nat hll_registers)) inverse_sum
           in if raw \<le> fmul (5 / 2) (of_nat hll_registers) \<and> zeros \<noteq> 0
              then round_even (fmul (of_nat hll_registers) (mlog (fdiv (of_nat hll_registers) (of_nat zeros))))
              else round_even raw)"

subsection \<open>Bands\<close>

lemma climb_bounds: "2 ^ (band - 1) \<le> v \<Longrightarrow> 2 ^ (climb v band - 1) \<le> v \<and> v < 2 ^ climb v band \<and> band \<le> climb v band"
proof (induction v band rule: climb.induct)
  case (1 v band)
  show ?case
  proof (cases "2 ^ band \<le> v")
    case True
    then have "2 ^ (climb v (Suc band) - 1) \<le> v \<and> v < 2 ^ climb v (Suc band) \<and> Suc band \<le> climb v (Suc band)"
      using 1 by simp
    moreover have "climb v band = climb v (Suc band)" using True by (simp add: climb.simps [of v band])
    ultimately show ?thesis by simp
  next
    case False
    then show ?thesis using 1 by (simp add: climb.simps [of v band])
  qed
qed

lemma band_of_less: "band_of v < bands"
proof (cases "v < 1 \<or> top_value \<le> v")
  case False
  then have "2 ^ (climb v 1 - 1) < (2::rat) ^ 18"
    using climb_bounds [of 1 v] by (simp add: top_value_def bands_def)
  then have "climb v 1 - 1 < 18" by (rule power_less_imp_less_exp [rotated]) simp
  then show ?thesis using False by (simp add: band_of_def bands_def)
qed (auto simp: band_of_def bands_def)

lemma band_of_edges:
  "v < 1 \<and> band_of v = 0 \<or> top_value \<le> v \<and> band_of v = bands - 1
   \<or> of_int (lower_edge (band_of v)) \<le> v \<and> v < of_int (upper_edge (band_of v)) \<and> 0 < band_of v \<and> band_of v < bands - 1"
proof -
  consider "v < 1" | "1 \<le> v" "top_value \<le> v" | "1 \<le> v" "v < top_value" by linarith
  then show ?thesis
  proof cases
    case 3
    then have c: "2 ^ (climb v 1 - 1) \<le> v" "v < 2 ^ climb v 1" "1 \<le> climb v 1" using climb_bounds [of 1 v] by auto
    then have "2 ^ (climb v 1 - 1) < (2::rat) ^ 18" using 3 by (simp add: top_value_def bands_def)
    then have "climb v 1 - 1 < 18" by (rule power_less_imp_less_exp [rotated]) simp
    then show ?thesis using c 3 by (auto simp: band_of_def lower_edge_def upper_edge_def bands_def)
  qed (auto simp: band_of_def)
qed

lemma lower_le_upper: "lower_edge b \<le> upper_edge b"
  by (cases b) (simp_all add: lower_edge_def upper_edge_def)

lemma length_pad_histogram: "bands \<le> length (pad_histogram h)"
  by (simp add: pad_histogram_def Let_def empty_histogram_def)

lemma pad_histogram_id [simp]: "length h = bands \<Longrightarrow> pad_histogram h = h"
  by (auto simp: pad_histogram_def bands_def)

lemma length_histogram_add [simp]: "length h = bands \<Longrightarrow> length (histogram_add h v) = bands"
  by (simp add: histogram_add_def count_band_def Let_def)

lemma sum_list_count_band: "length h = bands \<Longrightarrow> b < bands \<Longrightarrow> sum_list (count_band h b) = Suc (sum_list h)"
  by (simp add: count_band_def Let_def sum_list_update)

lemma sum_list_histogram_add: "length h = bands \<Longrightarrow> sum_list (histogram_add h v) = Suc (sum_list h)"
  unfolding histogram_add_def by (rule sum_list_count_band) (auto simp: band_of_less)


subsection \<open>Percentiles\<close>

lemma inside_band_bounds:
  assumes "of_nat cumulative \<le> target" and "target < of_nat (cumulative + count)" and "count \<le> 2 ^ 53" and "band \<le> 52"
  shows "of_int (lower_edge band) \<le> inside_band target band cumulative count
    \<and> inside_band target band cumulative count \<le> of_int (upper_edge band)"
proof -
  define lo hi where "lo = lower_edge band" and "hi = upper_edge band"
  have hi: "0 \<le> lo" "lo \<le> hi" "hi \<le> 2 ^ 52"
    using lower_le_upper [of band] assms(4) power_increasing [of band 52 "2::int"]
    by (simp_all add: lo_def hi_def lower_edge_def upper_edge_def)
  have small: "\<bar>lo\<bar> \<le> 2 ^ 53" "\<bar>hi\<bar> \<le> 2 ^ 53" "\<bar>hi - lo\<bar> \<le> 2 ^ 53" "\<bar>int count\<bar> \<le> 2 ^ 53"
    using hi assms(3) by auto
  have count: "(0::rat) < of_nat count" using assms(1,2) by simp
  define gap where "gap = fsub target (of_nat cumulative)"
  have gap: "0 \<le> gap" "gap \<le> of_nat count"
    using fl_nonneg [of "target - of_nat cumulative"] fl_le_int [of "target - of_nat cumulative" "int count"] assms small
    by (simp_all add: gap_def fsub_def)
  define fraction where "fraction = fdiv gap (of_nat count)"
  have fraction: "0 \<le> fraction" "fraction \<le> 1"
    using fl_nonneg [of "gap / of_nat count"] fl_le_int [of "gap / of_nat count" 1] gap count
    by (simp_all add: fraction_def fdiv_def)
  define part where "part = fmul fraction (of_int (hi - lo))"
  have width: "(0::rat) \<le> of_int (hi - lo)" using hi by simp
  have "fraction * of_int (hi - lo) \<le> 1 * of_int (hi - lo)" using fraction width by (rule_tac mult_right_mono) auto
  then have part: "0 \<le> part" "part \<le> of_int (hi - lo)"
    using fl_nonneg [of "fraction * of_int (hi - lo)"] fl_le_int [of "fraction * of_int (hi - lo)" "hi - lo"]
      fraction width small by (simp_all add: part_def fmul_def del: of_int_diff)
  have "of_int lo \<le> fadd (of_int lo) part" "fadd (of_int lo) part \<le> of_int hi"
    unfolding fadd_def using part small by (auto intro!: fl_ge_int fl_le_int)
  then have "of_int lo \<le> round3 (fadd (of_int lo) part)" "round3 (fadd (of_int lo) part) \<le> of_int hi"
    using small by (auto intro!: round3_ge round3_le)
  then show ?thesis
    by (simp add: inside_band_def Let_def lo_def [symmetric] hi_def [symmetric] gap_def [symmetric]
        fraction_def [symmetric] part_def [symmetric] del: of_int_diff)
qed

lemma walk_bands_Some:
  assumes "walk_bands target band cumulative counts = Some x" and "of_nat cumulative \<le> target"
    and "band + length counts \<le> 53" and "sum_list counts \<le> 2 ^ 53"
  shows "\<exists>i < length counts. counts ! i \<noteq> 0
    \<and> of_nat (cumulative + sum_list (take i counts)) \<le> target \<and> target < of_nat (cumulative + sum_list (take (Suc i) counts))
    \<and> of_int (lower_edge (band + i)) \<le> x \<and> x \<le> of_int (upper_edge (band + i))"
  using assms
proof (induction target band cumulative counts rule: walk_bands.induct)
  case (2 target band cumulative count rest)
  show ?case
  proof (cases "count \<noteq> 0 \<and> target < of_nat (cumulative + count)")
    case True
    then have "x = inside_band target band cumulative count" using 2(2) by simp
    then have "of_int (lower_edge band) \<le> x \<and> x \<le> of_int (upper_edge band)"
      using inside_band_bounds [of cumulative target count band] True 2(3,4,5) by simp
    then show ?thesis using True 2(3) by (intro exI [of _ 0]) simp
  next
    case False
    then have w: "walk_bands target (Suc band) (cumulative + count) rest = Some x" using 2(2) by (auto split: if_splits)
    have "of_nat (cumulative + count) \<le> target" using False 2(3) by (cases "count = 0") auto
    from 2(1) [OF False w this] 2(4,5)
    obtain i where "i < length rest" "rest ! i \<noteq> 0"
      "of_nat (cumulative + count + sum_list (take i rest)) \<le> target"
      "target < of_nat (cumulative + count + sum_list (take (Suc i) rest))"
      "of_int (lower_edge (Suc band + i)) \<le> x" "x \<le> of_int (upper_edge (Suc band + i))"
      by auto
    then show ?thesis by (intro exI [of _ "Suc i"]) (simp add: add.assoc)
  qed
qed simp

lemma last_band: "sum_list h \<noteq> 0 \<Longrightarrow> last_band h < length h \<and> h ! last_band h \<noteq> 0"
proof -
  assume "sum_list h \<noteq> 0"
  then obtain c where "c \<in> set h" "c \<noteq> 0" by (auto simp: sum_list_eq_0_iff)
  then obtain i where "i < length h" "h ! i \<noteq> 0" by (auto simp: in_set_conv_nth)
  then have "filter (\<lambda>i. h ! i \<noteq> 0) [0..<length h] \<noteq> []" by (auto simp: filter_empty_conv)
  then have "last_band h \<in> set (filter (\<lambda>i. h ! i \<noteq> 0) [0..<length h])" unfolding last_band_def by (rule last_in_set)
  then show ?thesis by auto
qed

lemma percentile_None: "percentile h q = None \<longleftrightarrow> sum_list h = 0"
  by (auto simp: percentile_def split: option.splits)

text \<open>The percentile of a histogram of at most 53 bands is estimated inside a band that holds values: the answer
  lies between the edges of a band with a count, whatever the share asked for, in floating point.
\<close>

theorem percentile_lies_in_its_band:
  assumes "percentile h q = Some x" and "0 \<le> q" and "length h \<le> 53" and "sum_list h \<le> 2 ^ 53"
  shows "\<exists>band < length h. h ! band \<noteq> 0 \<and> of_int (lower_edge band) \<le> x \<and> x \<le> of_int (upper_edge band)"
proof (cases "walk_bands (fmul q (of_nat (sum_list h))) 0 0 h")
  case None
  with assms(1) have "x = of_int (upper_edge (last_band h))" "sum_list h \<noteq> 0"
    by (auto simp: percentile_def split: if_splits)
  then show ?thesis using last_band [of h] lower_le_upper [of "last_band h"] by (intro exI [of _ "last_band h"]) simp
next
  case (Some y)
  with assms(1) have "y = x" by (auto simp: percentile_def split: if_splits)
  moreover have "0 \<le> fmul q (of_nat (sum_list h))" using assms(2) by (simp add: fmul_def fl_nonneg)
  ultimately show ?thesis using walk_bands_Some [OF Some] assms(3,4) by fastforce
qed

theorem percentile_lies_in_its_band_witness:
  "\<exists>x. percentile (histogram_add (histogram_add empty_histogram 3000) 5) (fl (95 / 100)) = Some x
     \<and> (\<exists>band < 20. of_int (lower_edge band) \<le> x \<and> x \<le> of_int (upper_edge band))"
proof -
  have h: "percentile (histogram_add (histogram_add empty_histogram 3000) 5) (fl (95 / 100)) = Some (fl (38912 / 10))"
    by code_simp
  show ?thesis
    using percentile_lies_in_its_band [OF h] fl_nonneg [of "95/100"] h
    by (simp add: sum_list_histogram_add empty_histogram_def bands_def sum_list_replicate) blast
qed

subsection \<open>Sketches\<close>

lemma hll_index_less: "hll_index h < hll_registers"
proof -
  have "unat h < 2 ^ 64" using unsigned_less [of h, where 'a = nat] by simp
  then have "unat h div 2 ^ 52 < 4096" by (simp add: less_mult_imp_div_less)
  then show ?thesis unfolding hll_index_def hll_registers_def unat_drop_bit_eq by (simp only: drop_bit_eq_div)
qed

lemma hll_rho_bounds: "0 < hll_rho h \<and> hll_rho h \<le> 53"
  by (simp add: hll_rho_def)

lemma hll_add_observe: "hll_add hash64 sketch v = hll_observe hash64 v sketch"
  by (simp add: hll_add_def hll_observe_def Let_def not_le)

lemma length_hll_observe [simp]: "length (hll_observe hash64 v r) = length r"
  by (simp add: hll_observe_def Let_def)

lemma length_hll_observes [simp]: "length (fold (hll_observe hash64) vs r) = length r"
  by (induction vs arbitrary: r) auto

lemma length_hll_empty [simp]: "length hll_empty = hll_registers"
  by (simp add: hll_empty_def)

lemma length_hll_from_values [simp]: "length (hll_from_values hash64 vs) = hll_registers"
  by (simp add: hll_from_values_def)

text \<open>What a value does to one register.\<close>

definition hll_weight :: "(string \<Rightarrow> 64 word) \<Rightarrow> nat \<Rightarrow> string \<Rightarrow> nat" where
  "hll_weight hash64 i v = (if hll_index (hash64 v) = i then hll_rho (hash64 v) else 0)"

lemma nth_hll_observe:
  "length r = hll_registers \<Longrightarrow> i < hll_registers \<Longrightarrow> hll_observe hash64 v r ! i = max (r ! i) (hll_weight hash64 i v)"
  by (auto simp: hll_observe_def hll_weight_def Let_def nth_list_update hll_index_less max_def)

lemma nth_hll_observes:
  "length r = hll_registers \<Longrightarrow> i < hll_registers \<Longrightarrow>
   fold (hll_observe hash64) vs r ! i = Max (insert (r ! i) (hll_weight hash64 i ` set vs))"
proof (induction vs arbitrary: r)
  case (Cons v vs)
  then have "fold (hll_observe hash64) (v # vs) r ! i
      = Max (insert (max (r ! i) (hll_weight hash64 i v)) (hll_weight hash64 i ` set vs))"
    by (simp add: nth_hll_observe)
  then show ?case by (cases "vs = []") (simp_all add: Max_insert max.assoc)
qed simp

lemma nth_hll_from_values:
  "i < hll_registers \<Longrightarrow> hll_from_values hash64 vs ! i = Max (insert 0 (hll_weight hash64 i ` set vs))"
  by (simp add: hll_from_values_def nth_hll_observes hll_empty_def)

lemma hll_union_max: "length a = hll_registers \<Longrightarrow> length b = hll_registers \<Longrightarrow> hll_union a b = map2 max a b"
  by (auto simp: hll_union_def hll_empty_def intro!: nth_equalityI)

lemma nth_hll_union:
  "length a = hll_registers \<Longrightarrow> length b = hll_registers \<Longrightarrow> i < hll_registers \<Longrightarrow> hll_union a b ! i = max (a ! i) (b ! i)"
  by (simp add: hll_union_max)

lemma length_hll_union [simp]:
  "length a = hll_registers \<Longrightarrow> length b = hll_registers \<Longrightarrow> length (hll_union a b) = hll_registers"
  by (simp add: hll_union_max)

lemma hll_union_observe:
  "length a = hll_registers \<Longrightarrow> length b = hll_registers \<Longrightarrow>
   hll_union a (hll_observe hash64 v b) = hll_observe hash64 v (hll_union a b)"
  by (rule nth_equalityI) (simp_all add: nth_hll_union nth_hll_observe max.assoc)

lemma hll_union_empty [simp]: "hll_union a hll_empty = a" "hll_union hll_empty b = b"
  by (auto simp: hll_union_def)

lemma hll_from_values_append:
  "hll_from_values hash64 (vs @ ws) = hll_union (hll_from_values hash64 vs) (hll_from_values hash64 ws)"
proof (rule nth_equalityI)
  fix i
  assume "i < length (hll_from_values hash64 (vs @ ws))"
  then have i: "i < hll_registers" by simp
  have "Max (insert 0 (hll_weight hash64 i ` set (vs @ ws)))
      = Max (insert 0 (hll_weight hash64 i ` set vs) \<union> insert 0 (hll_weight hash64 i ` set ws))"
    by (simp add: image_Un)
  also have "\<dots> = max (Max (insert 0 (hll_weight hash64 i ` set vs))) (Max (insert 0 (hll_weight hash64 i ` set ws)))"
    by (intro Max_Un) auto
  finally show "hll_from_values hash64 (vs @ ws) ! i = hll_union (hll_from_values hash64 vs) (hll_from_values hash64 ws) ! i"
    using i by (simp add: nth_hll_from_values nth_hll_union)
qed simp

lemma hll_from_values_set: "set vs = set ws \<Longrightarrow> hll_from_values hash64 vs = hll_from_values hash64 ws"
  by (rule nth_equalityI) (simp_all add: nth_hll_from_values)

lemma hll_registers_are_bytes: "r \<in> set (hll_from_values hash64 vs) \<Longrightarrow> r \<le> 53"
proof -
  assume "r \<in> set (hll_from_values hash64 vs)"
  then obtain i where "i < hll_registers" "r = hll_from_values hash64 vs ! i" by (auto simp: in_set_conv_nth)
  then have "r \<in> insert 0 (hll_weight hash64 i ` set vs)" by (metis Max_in List.finite_set finite_imageI finite_insert insert_not_empty nth_hll_from_values)
  then show ?thesis using hll_rho_bounds by (auto simp: hll_weight_def)
qed

text \<open>A sketch is a function of the set of the values it has seen: one value at a time, all at once or as the union
  of two sketches, in any order and however often a value comes, the registers are the same, and each fits a byte.
\<close>

theorem sketch_is_a_function_of_the_set:
  "foldl (hll_add hash64) hll_empty (vs @ ws) = hll_union (hll_from_values hash64 vs) (hll_from_values hash64 ws)
   \<and> hll_union (hll_from_values hash64 vs) (hll_from_values hash64 ws)
     = hll_from_values hash64 (sorted_list_of_set (set vs \<union> set ws))
   \<and> list_all (\<lambda>r. r < 256) (hll_from_values hash64 vs)"
proof -
  have "foldl (hll_add hash64) r us = fold (hll_observe hash64) us r" for r us
    by (simp add: foldl_conv_fold hll_add_observe [abs_def])
  moreover have "hll_from_values hash64 (vs @ ws) = hll_from_values hash64 (sorted_list_of_set (set vs \<union> set ws))"
    by (rule hll_from_values_set) simp
  moreover have "list_all (\<lambda>r. r < 256) (hll_from_values hash64 vs)"
    using hll_registers_are_bytes by (fastforce simp: list_all_iff)
  ultimately show ?thesis by (simp add: hll_from_values_append [symmetric]) (simp add: hll_from_values_def)
qed

end
