(* ===== verification/Metrics.thy ===== *)
theory Metrics
  imports Contract Sketches
begin

text \<open>
  \<open>analytics/definition.py\<close>: metric definitions, their validation, the fold of fact rows into additive roles, the
  merge of two folds and the answers finished at read time. The dict of roles of one measure is a record with one
  optional field per role, absent when the measure does not store it. A fold is the dict of buckets by measure name.
  Problems are the constructors of a datatype instead of texts. The hash of the sketches is a parameter.
\<close>

subsection \<open>Roles and aggregations\<close>

datatype role = Sum_value | Count_value | Sum_sq | Min_value | Max_value | Histogram | Distinct_sketch | Latest

datatype aggregation = Agg_sum | Agg_count | Agg_average | Agg_stats | Agg_extent | Agg_percentile | Agg_distinct | Agg_latest

fun roles_for :: "aggregation \<Rightarrow> role list" where
  "roles_for Agg_sum = [Sum_value, Count_value]"
| "roles_for Agg_count = [Count_value]"
| "roles_for Agg_average = [Sum_value, Count_value]"
| "roles_for Agg_stats = [Sum_value, Count_value, Sum_sq]"
| "roles_for Agg_extent = [Min_value, Max_value]"
| "roles_for Agg_percentile = [Histogram, Count_value]"
| "roles_for Agg_distinct = [Distinct_sketch, Count_value]"
| "roles_for Agg_latest = [Latest, Count_value]"

definition arithmetic :: "aggregation list" where
  "arithmetic = [Agg_sum, Agg_average, Agg_stats, Agg_extent, Agg_percentile, Agg_latest]"

definition refused_by_kind :: "(string \<times> aggregation list) list" where
  "refused_by_kind = [(''measure'', []), (''level'', [Agg_sum]), (''slice'', arithmetic), (''noise'', [])]"

definition refuses :: "string option \<Rightarrow> aggregation \<Rightarrow> bool" where
  "refuses kind agg =
     (agg \<in> set (case map_of refused_by_kind (case kind of None \<Rightarrow> [] | Some k \<Rightarrow> k) of None \<Rightarrow> [] | Some r \<Rightarrow> r))"

definition refused_kinds :: "aggregation \<Rightarrow> string list" where
  "refused_kinds agg = sort (map fst (filter (\<lambda>(k, refused). agg \<in> set refused) refused_by_kind))"

subsection \<open>Definitions\<close>

record measure =
  m_name :: string
  m_agg :: aggregation
  m_field :: "string option"
  m_only :: "string list"
  m_statuses :: "string list"
  m_unit :: "string option"
  m_minus :: "string option"

datatype metric_status = Draft | Active | Inactive

record metric =
  d_name :: string
  d_dimensions :: "string list"
  d_measures :: "measure list"
  d_grains :: "string list"
  d_methods :: "string list"
  d_transactions :: "string list"
  d_status :: metric_status
  d_source :: string
  d_from :: "instant option"

definition grain_names :: "string list" where
  "grain_names = [''hourly'', ''daily'', ''weekly'', ''monthly'']"

definition confirmed :: "string list" where
  "confirmed = map classification_str [Pick, Attempt, Correction]"

definition completed :: "string list" where
  "completed = [''success'']"

definition plain_measure :: "string \<Rightarrow> aggregation \<Rightarrow> string option \<Rightarrow> string list \<Rightarrow> string list \<Rightarrow> measure" where
  "plain_measure name agg field only statuses =
     \<lparr>m_name = name, m_agg = agg, m_field = field, m_only = only, m_statuses = statuses, m_unit = None, m_minus = None\<rparr>"

definition consumption :: metric where
  "consumption =
     \<lparr>d_name = ''consumption'', d_dimensions = [''method'', ''transaction_name''],
      d_measures = [plain_measure ''quantity'' Agg_sum (Some ''quantity'') confirmed completed,
                    plain_measure ''pick_count'' Agg_count None [classification_str Pick] completed,
                    plain_measure ''attempt_count'' Agg_count None confirmed completed],
      d_grains = [''hourly'', ''daily'', ''monthly''], d_methods = map fst quantity_fields, d_transactions = [],
      d_status = Draft, d_source = ''transaction'', d_from = None\<rparr>"

text \<open>A name the code tests for truth: present and not empty.\<close>

definition given :: "string option \<Rightarrow> bool" where
  "given s = (case s of None \<Rightarrow> False | Some t \<Rightarrow> t \<noteq> [])"

subsection \<open>Validation\<close>

datatype field_problem =
    Not_a_record_attribute string
  | Record_attribute_on_fact string
  | Unapproved_attribute string string
  | Not_a_field string string

datatype problem =
    Bad_source string
  | Bad_dimension field_problem
  | Bad_grain string
  | Bad_measure_field string field_problem
  | No_field string aggregation
  | Bad_minus string field_problem
  | Minus_without_field string string
  | Minus_of_count string string
  | Minus_of_distinct string string
  | Arithmetic_on_names string "string list"
  | Level_against_amount string string string
  | Level_added_up string string
  | Status_on_records string
  | Classification_on_records string
  | Unknown_status string string
  | Quantity_methods string "string list"

definition kind_of :: "(string \<Rightarrow> string option) \<Rightarrow> string option \<Rightarrow> string option" where
  "kind_of kinds name =
     (case name of None \<Rightarrow> None
      | Some n \<Rightarrow> (if n = [] \<or> \<not> is_attr_path n then None else kinds (attr_key n)))"

definition record_grain :: "metric \<Rightarrow> bool" where
  "record_grain d \<longleftrightarrow> d_source d = ''record''"

definition bad_field :: "metric \<Rightarrow> string list \<Rightarrow> string \<Rightarrow> field_problem option" where
  "bad_field d known name =
     (if is_attr_path name
      then let key = attr_key name
           in if record_grain d \<and> \<not> starts_with ''rec.'' key then Some (Not_a_record_attribute name)
              else if \<not> record_grain d \<and> starts_with ''rec.'' key then Some (Record_attribute_on_fact name)
              else if key \<notin> set known then Some (Unapproved_attribute name key)
              else None
      else if name \<notin> set (if record_grain d then record_fields else fact_fields) then Some (Not_a_field name (d_source d))
      else None)"

definition known_statuses :: "string list" where
  "known_statuses = [''success'', ''soft'', ''error'', ''incomplete'']"

definition the_name :: "string option \<Rightarrow> string" where
  "the_name s = (case s of None \<Rightarrow> [] | Some t \<Rightarrow> t)"

definition field_problems :: "metric \<Rightarrow> string list \<Rightarrow> measure \<Rightarrow> problem list" where
  "field_problems d known m =
     (if given (m_field m)
      then (case bad_field d known (the_name (m_field m)) of None \<Rightarrow> [] | Some b \<Rightarrow> [Bad_measure_field (m_name m) b]) else [])
     @ (if m_agg m \<noteq> Agg_count \<and> \<not> given (m_field m) then [No_field (m_name m) (m_agg m)] else [])"

definition minus_problems :: "metric \<Rightarrow> string list \<Rightarrow> measure \<Rightarrow> problem list" where
  "minus_problems d known m =
     (if given (m_minus m)
      then (case bad_field d known (the_name (m_minus m)) of None \<Rightarrow> [] | Some b \<Rightarrow> [Bad_minus (m_name m) b])
        @ (if given (m_field m) then [] else [Minus_without_field (m_name m) (the_name (m_minus m))])
        @ (if m_agg m = Agg_count then [Minus_of_count (m_name m) (the_name (m_minus m))] else [])
        @ (if m_agg m = Agg_distinct then [Minus_of_distinct (m_name m) (the_name (m_minus m))] else [])
      else [])"

definition kind_problems :: "(string \<Rightarrow> string option) \<Rightarrow> measure \<Rightarrow> problem list" where
  "kind_problems kinds m =
     (let kf = kind_of kinds (m_field m); km = kind_of kinds (m_minus m);
          names = (if kf = Some ''slice'' then [the_name (m_field m)] else [])
            @ (if km = Some ''slice'' then [the_name (m_minus m)] else [])
      in if names \<noteq> [] \<and> refuses (Some ''slice'') (m_agg m) then [Arithmetic_on_names (m_name m) names]
         else if refuses (Some ''level'') (m_agg m) \<and> (kf = Some ''level'' \<or> km = Some ''level'')
         then (if kf \<noteq> Some ''level'' \<or> km \<noteq> Some ''level''
               then (if given (m_minus m)
                     then let f = the_name (m_field m); g = the_name (m_minus m)
                          in if kf = Some ''level'' then [Level_against_amount (m_name m) f g]
                             else [Level_against_amount (m_name m) g f]
                     else [Level_added_up (m_name m) (the_name (m_field m))])
               else [])
         else [])"

definition filter_problems :: "metric \<Rightarrow> measure \<Rightarrow> problem list" where
  "filter_problems d m =
     (if record_grain d \<and> m_statuses m \<noteq> [] then [Status_on_records (m_name m)] else [])
     @ (if record_grain d \<and> m_only m \<noteq> [] then [Classification_on_records (m_name m)] else [])
     @ map (Unknown_status (m_name m)) (filter (\<lambda>st. \<not> record_grain d \<and> st \<notin> set known_statuses) (sort (m_statuses m)))
     @ (if m_field m = Some ''quantity'' \<and> \<not> record_grain d
           \<and> (d_methods d = [] \<or> list_ex (\<lambda>x. \<not> carries_quantity (Some x)) (d_methods d))
        then [Quantity_methods (m_name m) (d_methods d)] else [])"

definition validate :: "metric \<Rightarrow> string list \<Rightarrow> (string \<Rightarrow> string option) \<Rightarrow> problem list" where
  "validate d known kinds =
     (if d_source d \<noteq> ''transaction'' \<and> d_source d \<noteq> ''record'' then [Bad_source (d_source d)] else [])
     @ concat (map (\<lambda>dim. case bad_field d known dim of None \<Rightarrow> [] | Some b \<Rightarrow> [Bad_dimension b]) (d_dimensions d))
     @ map Bad_grain (filter (\<lambda>g. g \<notin> set grain_names) (d_grains d))
     @ concat (map (\<lambda>m. field_problems d known m @ minus_problems d known m @ kind_problems kinds m @ filter_problems d m)
         (d_measures d))"

subsection \<open>Buckets\<close>

text \<open>A sum is a Decimal until two sums meet: \<open>x or 0\<close> turns a zero into the int 0.\<close>

datatype number = PInt int | PDec decimal

type_synonym reading = "string \<times> decimal option"

record role_bucket =
  b_sum :: "number option"
  b_count :: "int option"
  b_sum_sq :: "number option"
  b_min :: "decimal option option"
  b_max :: "decimal option option"
  b_hist :: "nat list option"
  b_sketch :: "nat list option"
  b_latest :: "reading option option"

type_synonym folded = "(string, role_bucket) odict"

definition role_value :: "role list \<Rightarrow> role \<Rightarrow> 'a \<Rightarrow> 'a option" where
  "role_value roles r x = (if r \<in> set roles then Some x else None)"

definition empty_roles :: "measure \<Rightarrow> role_bucket" where
  "empty_roles m = (let v = roles_for (m_agg m) in
     \<lparr>b_sum = role_value v Sum_value (PDec dec_zero), b_count = role_value v Count_value 0,
      b_sum_sq = role_value v Sum_sq (PDec dec_zero), b_min = role_value v Min_value None,
      b_max = role_value v Max_value None, b_hist = role_value v Histogram empty_histogram,
      b_sketch = role_value v Distinct_sketch hll_empty, b_latest = role_value v Latest None\<rparr>)"

definition empty_fold :: "metric \<Rightarrow> folded" where
  "empty_fold d = fold (\<lambda>m. AList.update (m_name m) (empty_roles m)) (d_measures d) []"

definition val_in :: "val \<Rightarrow> string list \<Rightarrow> bool" where
  "val_in v names = (case v of VStr s \<Rightarrow> s \<in> set names | _ \<Rightarrow> False)"

definition contributes :: "row \<Rightarrow> metric \<Rightarrow> measure \<Rightarrow> bool" where
  "contributes r d m =
     (if d_methods d \<noteq> [] \<and> \<not> val_in (cols r ''method'') (d_methods d) then False
      else if d_transactions d \<noteq> [] \<and> \<not> val_in (cols r ''transaction_name'') (d_transactions d) then False
      else if m_only m \<noteq> [] \<and> \<not> val_in (cols r ''quantity_classification'') (m_only m) then False
      else if m_statuses m \<noteq> [] \<and> \<not> val_in (cols r ''status'') (m_statuses m) then False
      else True)"

definition later :: "(string \<times> 'v) option \<Rightarrow> (string \<times> 'v) option \<Rightarrow> (string \<times> 'v) option" where
  "later x y =
     (case x of None \<Rightarrow> y | Some a \<Rightarrow> (case y of None \<Rightarrow> x | Some b \<Rightarrow> if fst a < fst b then y else x))"

text \<open>\<open>float(value)\<close> and its band: a NaN falls through every comparison, a signalling one is refused.\<close>

fun decimal_band :: "decimal \<Rightarrow> nat result" where
  "decimal_band (Fin s c e) = Inr (band_of (fl (dec_val (Fin s c e))))"
| "decimal_band (Infinite s) = Inr (if s then 0 else bands - 1)"
| "decimal_band (NaN q) = (if q then Inl ValueError else Inr 1)"

fun num_add :: "number \<Rightarrow> number \<Rightarrow> number result" where
  "num_add (PInt i) (PInt j) = Inr (PInt (i + j))"
| "num_add (PInt i) (PDec y) = andthen (dec_add (Fin (i < 0) \<bar>i\<bar> 0) y) (Inr \<circ> PDec)"
| "num_add (PDec x) (PInt j) = andthen (dec_add x (Fin (j < 0) \<bar>j\<bar> 0)) (Inr \<circ> PDec)"
| "num_add (PDec x) (PDec y) = andthen (dec_add x y) (Inr \<circ> PDec)"

subsection \<open>The fold\<close>

text \<open>The value a row gives a measure: \<open>Inr None\<close> skips the row, \<open>Inr (Some None)\<close> is a row that is only counted.\<close>

definition measured :: "row \<Rightarrow> measure \<Rightarrow> decimal option option result" where
  "measured r m =
     (let v = (if given (m_field m) then numeric_or_none (resolve_field r (the_name (m_field m))) else None)
      in if given (m_field m) \<and> v = None then Inr None
         else if given (m_minus m)
         then (case numeric_or_none (resolve_field r (the_name (m_minus m))) of
                 None \<Rightarrow> Inr None
               | Some other \<Rightarrow> (case v of None \<Rightarrow> Inl TypeError | Some x \<Rightarrow> andthen (dec_sub x other) (Inr \<circ> Some \<circ> Some)))
         else Inr (Some v))"

definition with_value :: "decimal option \<Rightarrow> (decimal \<Rightarrow> 'a result) \<Rightarrow> 'a result" where
  "with_value v f = (case v of None \<Rightarrow> Inl TypeError | Some x \<Rightarrow> f x)"

definition observe_count :: "role_bucket \<Rightarrow> role_bucket" where
  "observe_count b = b\<lparr>b_count := map_option (\<lambda>n. n + 1) (b_count b)\<rparr>"

definition observe_sum :: "decimal option \<Rightarrow> role_bucket \<Rightarrow> role_bucket result" where
  "observe_sum v b = (case b_sum b of None \<Rightarrow> Inr b
     | Some s \<Rightarrow> with_value v (\<lambda>x. andthen (num_add s (PDec x)) (\<lambda>s'. Inr (b\<lparr>b_sum := Some s'\<rparr>))))"

definition observe_sum_sq :: "decimal option \<Rightarrow> role_bucket \<Rightarrow> role_bucket result" where
  "observe_sum_sq v b = (case b_sum_sq b of None \<Rightarrow> Inr b
     | Some s \<Rightarrow> with_value v (\<lambda>x. andthen (dec_mul x x) (\<lambda>sq. andthen (num_add s (PDec sq))
         (\<lambda>s'. Inr (b\<lparr>b_sum_sq := Some s'\<rparr>)))))"

text \<open>The first value wins over None, even when it is None itself.\<close>

definition pick_extreme :: "(decimal \<Rightarrow> decimal \<Rightarrow> decimal result) \<Rightarrow> decimal option \<Rightarrow> decimal option \<Rightarrow> decimal option result" where
  "pick_extreme f cur v = (case cur of None \<Rightarrow> Inr v | Some c \<Rightarrow> with_value v (\<lambda>x. andthen (f c x) (Inr \<circ> Some)))"

definition observe_min :: "decimal option \<Rightarrow> role_bucket \<Rightarrow> role_bucket result" where
  "observe_min v b = (case b_min b of None \<Rightarrow> Inr b
     | Some cur \<Rightarrow> andthen (pick_extreme dec_min cur v) (\<lambda>x. Inr (b\<lparr>b_min := Some x\<rparr>)))"

definition observe_max :: "decimal option \<Rightarrow> role_bucket \<Rightarrow> role_bucket result" where
  "observe_max v b = (case b_max b of None \<Rightarrow> Inr b
     | Some cur \<Rightarrow> andthen (pick_extreme dec_max cur v) (\<lambda>x. Inr (b\<lparr>b_max := Some x\<rparr>)))"

definition observe_hist :: "decimal option \<Rightarrow> role_bucket \<Rightarrow> role_bucket result" where
  "observe_hist v b = (case b_hist b of None \<Rightarrow> Inr b
     | Some h \<Rightarrow> with_value v (\<lambda>x. andthen (decimal_band x) (\<lambda>band. Inr (b\<lparr>b_hist := Some (count_band h band)\<rparr>))))"

definition observe_latest :: "row \<Rightarrow> decimal option \<Rightarrow> role_bucket \<Rightarrow> role_bucket result" where
  "observe_latest r v b = (case b_latest b of None \<Rightarrow> Inr b
     | Some cur \<Rightarrow> (case cols r ''event_time'' of
           VNone \<Rightarrow> Inr b
         | VTime t \<Rightarrow> Inr (b\<lparr>b_latest := Some (later cur (Some (iso_utc t, v)))\<rparr>)
         | _ \<Rightarrow> Inl AttributeError))"

definition observe_value :: "row \<Rightarrow> decimal option \<Rightarrow> role_bucket \<Rightarrow> role_bucket result" where
  "observe_value r v b =
     andthen (observe_sum v (observe_count b)) (\<lambda>b. andthen (observe_sum_sq v b) (\<lambda>b. andthen (observe_min v b)
       (\<lambda>b. andthen (observe_max v b) (\<lambda>b. andthen (observe_hist v b) (observe_latest r v)))))"

definition observe_key :: "(string \<Rightarrow> 64 word) \<Rightarrow> row \<Rightarrow> measure \<Rightarrow> nat list \<Rightarrow> role_bucket \<Rightarrow> role_bucket result" where
  "observe_key hash64 r m sk b =
     (case m_field m of
        None \<Rightarrow> Inl AttributeError
      | Some f \<Rightarrow> andthen (distinct_key (resolve_field r f)) (\<lambda>k. case k of
            None \<Rightarrow> Inr b
          | Some key \<Rightarrow> Inr (observe_count (b\<lparr>b_sketch := Some (hll_add hash64 sk key)\<rparr>))))"

definition observe_row :: "(string \<Rightarrow> 64 word) \<Rightarrow> row \<Rightarrow> measure \<Rightarrow> role_bucket \<Rightarrow> role_bucket result" where
  "observe_row hash64 r m b =
     (case b_sketch b of
        Some sk \<Rightarrow> observe_key hash64 r m sk b
      | None \<Rightarrow> andthen (measured r m) (\<lambda>x. case x of None \<Rightarrow> Inr b | Some v \<Rightarrow> observe_value r v b))"

definition fold_measure :: "(string \<Rightarrow> 64 word) \<Rightarrow> metric \<Rightarrow> row \<Rightarrow> measure \<Rightarrow> folded \<Rightarrow> folded result" where
  "fold_measure hash64 d r m out =
     (if \<not> contributes r d m then Inr out
      else case map_of out (m_name m) of
             None \<Rightarrow> Inl KeyError
           | Some b \<Rightarrow> andthen (observe_row hash64 r m b) (\<lambda>b'. Inr (AList.update (m_name m) b' out)))"

definition fold_row :: "(string \<Rightarrow> 64 word) \<Rightarrow> metric \<Rightarrow> row \<Rightarrow> folded \<Rightarrow> folded result" where
  "fold_row hash64 d r out = fold_result (fold_measure hash64 d r) (d_measures d) out"

definition metric_fold :: "(string \<Rightarrow> 64 word) \<Rightarrow> row list \<Rightarrow> metric \<Rightarrow> folded result" where
  "metric_fold hash64 rows d = fold_result (fold_row hash64 d) rows (empty_fold d)"

subsection \<open>Merging folds\<close>

definition num_truthy :: "number \<Rightarrow> bool" where
  "num_truthy n = (case n of PInt i \<Rightarrow> i \<noteq> 0 | PDec d \<Rightarrow> dec_truthy d)"

definition or_zero :: "number option \<Rightarrow> number" where
  "or_zero x = (case x of None \<Rightarrow> PInt 0 | Some n \<Rightarrow> if num_truthy n then n else PInt 0)"

text \<open>A role is in the result when it is in either side; \<open>a.get(role)\<close> reads None where it is absent.\<close>

definition merge_role :: "'a option \<Rightarrow> 'a option \<Rightarrow> 'a result \<Rightarrow> 'a option result" where
  "merge_role x y r = (if x = None \<and> y = None then Inr None else andthen r (Inr \<circ> Some))"

definition flatten :: "'a option option \<Rightarrow> 'a option" where
  "flatten x = (case x of None \<Rightarrow> None | Some y \<Rightarrow> y)"

definition add_extreme :: "(decimal \<Rightarrow> decimal \<Rightarrow> decimal result) \<Rightarrow> decimal option \<Rightarrow> decimal option \<Rightarrow> decimal option result" where
  "add_extreme f x y =
     (case x of None \<Rightarrow> Inr y | Some a \<Rightarrow> (case y of None \<Rightarrow> Inr x | Some b \<Rightarrow> andthen (f a b) (Inr \<circ> Some)))"

definition histogram_at :: "nat list \<Rightarrow> nat \<Rightarrow> nat" where
  "histogram_at h i = (if i < length h then h ! i else 0)"

definition add_histograms :: "nat list \<Rightarrow> nat list \<Rightarrow> nat list" where
  "add_histograms xs ys = map (\<lambda>i. histogram_at xs i + histogram_at ys i) [0..<max (length xs) (length ys)]"

definition or_list :: "nat list \<Rightarrow> nat list option \<Rightarrow> nat list" where
  "or_list d x = (case x of None \<Rightarrow> d | Some l \<Rightarrow> if l = [] then d else l)"

definition or_int :: "int option \<Rightarrow> int" where
  "or_int x = (case x of None \<Rightarrow> 0 | Some i \<Rightarrow> i)"

definition add_roles :: "role_bucket \<Rightarrow> role_bucket \<Rightarrow> role_bucket result" where
  "add_roles a b =
     andthen (merge_role (b_sum a) (b_sum b) (num_add (or_zero (b_sum a)) (or_zero (b_sum b)))) (\<lambda>s.
     andthen (merge_role (b_count a) (b_count b) (Inr (or_int (b_count a) + or_int (b_count b)))) (\<lambda>c.
     andthen (merge_role (b_sum_sq a) (b_sum_sq b) (num_add (or_zero (b_sum_sq a)) (or_zero (b_sum_sq b)))) (\<lambda>q.
     andthen (merge_role (b_min a) (b_min b) (add_extreme dec_min (flatten (b_min a)) (flatten (b_min b)))) (\<lambda>lo.
     andthen (merge_role (b_max a) (b_max b) (add_extreme dec_max (flatten (b_max a)) (flatten (b_max b)))) (\<lambda>hi.
     andthen (merge_role (b_hist a) (b_hist b) (Inr (add_histograms (or_list [] (b_hist a)) (or_list [] (b_hist b))))) (\<lambda>h.
     andthen (merge_role (b_sketch a) (b_sketch b)
       (Inr (hll_union (or_list hll_empty (b_sketch a)) (or_list hll_empty (b_sketch b))))) (\<lambda>sk.
     andthen (merge_role (b_latest a) (b_latest b) (Inr (later (flatten (b_latest a)) (flatten (b_latest b))))) (\<lambda>l.
       Inr \<lparr>b_sum = s, b_count = c, b_sum_sq = q, b_min = lo, b_max = hi, b_hist = h, b_sketch = sk, b_latest = l\<rparr>))))))))"

definition no_roles :: role_bucket where
  "no_roles = \<lparr>b_sum = None, b_count = None, b_sum_sq = None, b_min = None, b_max = None, b_hist = None,
     b_sketch = None, b_latest = None\<rparr>"

definition roles_of :: "folded \<Rightarrow> string \<Rightarrow> role_bucket" where
  "roles_of f name = (case map_of f name of None \<Rightarrow> no_roles | Some b \<Rightarrow> b)"

definition add_folds :: "folded \<Rightarrow> folded \<Rightarrow> folded result" where
  "add_folds a b =
     fold_result (\<lambda>name out. andthen (add_roles (roles_of a name) (roles_of b name)) (\<lambda>r. Inr (AList.update name r out)))
       (remdups (map fst a @ map fst b)) []"

subsection \<open>Answers at read time\<close>

definition plain_number :: "decimal \<Rightarrow> string result" where
  "plain_number d = andthen (dec_normalize d) (Inr \<circ> dec_fixed)"

definition average :: "role_bucket \<Rightarrow> decimal option result" where
  "average b =
     (let n = or_int (b_count b)
      in if n = 0 then Inr None
         else case b_sum b of
                None \<Rightarrow> Inl KeyError
              | Some (PInt i) \<Rightarrow> andthen (dec_div_count (Fin (i < 0) \<bar>i\<bar> 0) n) (Inr \<circ> Some)
              | Some (PDec d) \<Rightarrow> andthen (dec_div_count d n) (Inr \<circ> Some))"

definition zero_pick_rate :: "folded \<Rightarrow> decimal option result" where
  "zero_pick_rate f =
     (let total = or_int (b_count (roles_of f ''attempt_count'')); picked = or_int (b_count (roles_of f ''pick_count''))
      in if total = 0 then Inr None
         else andthen (dec_div_count (Fin (total - picked < 0) \<bar>total - picked\<bar> 0) total) (Inr \<circ> Some))"

text \<open>What leaves the service: the roles finished, in the order of the roles.\<close>

datatype answer = ANone | AInt int | AText string | AFloat rat

definition number_answer :: "number \<Rightarrow> answer result" where
  "number_answer n = (case n of PInt i \<Rightarrow> Inr (AInt i) | PDec d \<Rightarrow> andthen (plain_number d) (Inr \<circ> AText))"

definition decimal_answer :: "decimal option \<Rightarrow> answer result" where
  "decimal_answer v = (case v of None \<Rightarrow> Inr ANone | Some d \<Rightarrow> andthen (plain_number d) (Inr \<circ> AText))"

definition answers :: "string \<Rightarrow> 'a option \<Rightarrow> ('a \<Rightarrow> answer result) \<Rightarrow> (string \<times> answer) list \<Rightarrow> (string \<times> answer) list result" where
  "answers key x f out = (case x of None \<Rightarrow> Inr out | Some v \<Rightarrow> andthen (f v) (\<lambda>a. Inr (out @ [(key, a)])))"

definition histogram_answers :: "nat list option \<Rightarrow> (string \<times> answer) list" where
  "histogram_answers h =
     (case h of None \<Rightarrow> []
      | Some hs \<Rightarrow> (case percentile hs (1 / 2) of None \<Rightarrow> []
          | Some p50 \<Rightarrow> [(''p50'', AFloat p50),
              (''p95'', case percentile hs (fl (95 / 100)) of None \<Rightarrow> ANone | Some p95 \<Rightarrow> AFloat p95)]))"

definition sketch_answers :: "(rat \<Rightarrow> rat) \<Rightarrow> nat list option \<Rightarrow> (string \<times> answer) list" where
  "sketch_answers mlog sk =
     (case sk of None \<Rightarrow> [] | Some r \<Rightarrow> if r = [] then [] else [(''distinct_estimate'', AInt (hll_estimate mlog r))])"

definition latest_answers :: "reading option option \<Rightarrow> (string \<times> answer) list result" where
  "latest_answers l =
     (case flatten l of None \<Rightarrow> Inr []
      | Some (moment, v) \<Rightarrow> andthen (decimal_answer v) (\<lambda>a. Inr [(''latest'', a), (''latest_at'', AText moment)]))"

definition public_roles :: "(rat \<Rightarrow> rat) \<Rightarrow> role_bucket \<Rightarrow> (string \<times> answer) list result" where
  "public_roles mlog b =
     andthen (answers ''sum_value'' (b_sum b) number_answer []) (\<lambda>o1.
     andthen (answers ''count_value'' (b_count b) (Inr \<circ> AInt) o1) (\<lambda>o2.
     andthen (answers ''sum_sq'' (b_sum_sq b) number_answer o2) (\<lambda>o3.
     andthen (answers ''min_value'' (b_min b) decimal_answer o3) (\<lambda>o4.
     andthen (answers ''max_value'' (b_max b) decimal_answer o4) (\<lambda>o5.
     andthen (latest_answers (b_latest b)) (\<lambda>ls.
       Inr (o5 @ histogram_answers (b_hist b) @ sketch_answers mlog (b_sketch b) @ ls)))))))"

end
