(* ===== verification/Facts.thy ===== *)
theory Facts
  imports Payload RangeDiff Metrics Store
begin

text \<open>
  From a stitched transaction to a typed fact (\<open>analytics/normalizer.py\<close>), the fact table and its ledger
  (\<open>analytics_fact.py\<close>), and \<open>_apply\<close> of \<open>analytics/consume.py\<close>, which writes the verdicts of a range diff. The
  source row is the row of Stage 2. \<open>offset\<close> is the zone of the tenant, \<open>sha\<close> the digest. Text columns of a fact are
  named, as they are in a transaction; the id of a stored row, a fresh UUID nobody reads, is not kept.
\<close>

subsection \<open>Facts\<close>

record fact =
  f_txn :: uuid
  f_started :: "instant option"
  f_hash :: string
  f_revision :: int
  f_event :: "instant option"
  f_day :: "int option"
  f_duration :: "int option"
  f_class :: string
  f_quantity :: "decimal option"
  f_text :: "(string \<times> string option) list"
  f_attrs :: attrs

record issue =
  qi_txn :: uuid
  qi_started :: "instant option"
  qi_reason :: string
  qi_detail :: string
  qi_observed :: attrs

type_synonym fact_key = "string \<times> instant option"

definition key_of :: "fact \<Rightarrow> fact_key" where
  "key_of f = (uuid_str (f_txn f), f_event f)"

text \<open>What a metric reads: the row as a mapping from column names.\<close>

definition text_field :: "fact \<Rightarrow> string \<Rightarrow> string option" where
  "text_field f k = (case map_of (f_text f) k of Some t \<Rightarrow> t | None \<Rightarrow> None)"

fun json_val :: "json \<Rightarrow> val" where
  "json_val JNull = VNone"
| "json_val (JBool b) = VBool b"
| "json_val (JInt i) = VInt i"
| "json_val (JFloat t) = VFloat t"
| "json_val (JStr s) = VStr s"
| "json_val v = VOther (py_repr v)"

definition val_option :: "('a \<Rightarrow> val) \<Rightarrow> 'a option \<Rightarrow> val" where
  "val_option f x = (case x of None \<Rightarrow> VNone | Some v \<Rightarrow> f v)"

definition fact_column :: "fact \<Rightarrow> string \<Rightarrow> val" where
  "fact_column f k =
     (if k = ''source_transaction_id'' then VOther (uuid_str (f_txn f))
      else if k = ''source_started_at'' then val_option VTime (f_started f)
      else if k = ''source_version_hash'' then VStr (f_hash f)
      else if k = ''revision'' then VInt (f_revision f)
      else if k = ''event_time'' then val_option VTime (f_event f)
      else if k = ''business_date'' then val_option VDate (f_day f)
      else if k = ''duration_ms'' then val_option VInt (f_duration f)
      else if k = ''quantity'' then val_option VDec (f_quantity f)
      else if k = ''quantity_classification'' then VStr (f_class f)
      else val_option VStr (text_field f k))"

definition row_of :: "fact \<Rightarrow> row" where
  "row_of f = \<lparr>cols = fact_column f, bag = Some (\<lambda>k. json_val (jget (f_attrs f) k))\<rparr>"

subsection \<open>The normaliser\<close>

definition from_attributes :: "(string \<times> string) list" where
  "from_attributes = [(''lot_number'', ''LotNumber''), (''from_location'', ''FromLocation''), (''to_location'', ''ToLocation'')]"

definition as_text :: "string option \<Rightarrow> string option" where
  "as_text t = (case t of None \<Rightarrow> None | Some s \<Rightarrow> none_if_empty (strip s))"

definition json_as_text :: "json \<Rightarrow> string option" where
  "json_as_text v = (if v = JNull then None else none_if_empty (strip (py_str v)))"

text \<open>The zone of a tenant: none, an empty name and an unknown name all mean UTC.\<close>

definition zone_offset :: "(string \<Rightarrow> (instant \<Rightarrow> duration) option) \<Rightarrow> string option \<Rightarrow> instant \<Rightarrow> duration" where
  "zone_offset zones tz =
     (case tz of None \<Rightarrow> (\<lambda>t. 0) | Some n \<Rightarrow> if n = [] then (\<lambda>t. 0) else (case zones n of None \<Rightarrow> (\<lambda>t. 0) | Some z \<Rightarrow> z))"

text \<open>\<open>_canonical\<close> of the typed columns is \<open>fact_payload\<close>; of a JSON value it is \<open>canonical\<close> of \<open>Fingerprints\<close>.\<close>

definition fact_payload :: "fact \<Rightarrow> json \<Rightarrow> (string \<times> json) list" where
  "fact_payload f quantity =
     map (\<lambda>(k, t). (k, opt_json JStr t)) (f_text f) @
     [(''source_transaction_id'', JStr (uuid_str (f_txn f))), (''source_started_at'', opt_json (JStr \<circ> iso_utc) (f_started f)),
      (''event_time'', opt_json (JStr \<circ> iso_utc) (f_event f)), (''business_date'', opt_json (JStr \<circ> iso_date) (f_day f)),
      (''duration_ms'', opt_json JInt (f_duration f)), (''quantity'', quantity), (''quantity_classification'', JStr (f_class f)),
      (''attributes'', canonical (JObj (f_attrs f)))]"

definition fact_fingerprint :: "(string \<Rightarrow> string) \<Rightarrow> fact \<Rightarrow> string result" where
  "fact_fingerprint sha f =
     andthen (case f_quantity f of None \<Rightarrow> Inr JNull | Some q \<Rightarrow> andthen (plain_number q) (Inr \<circ> JStr))
       (\<lambda>q. Inr (digest sha (JObj (fact_payload f q))))"

definition fact_str_limits :: "(string \<times> nat) list" where
  "fact_str_limits = [(''source_version_hash'', 64), (''method'', 128), (''transaction_name'', 128), (''transaction_type'', 32),
     (''status'', 16), (''item_number'', 128), (''lot_number'', 64), (''order_number'', 64), (''delivery_number'', 64),
     (''warehouse'', 16), (''warehouse_id'', 16), (''from_location'', 32), (''to_location'', 32), (''user_name'', 64),
     (''device_id'', 64), (''device_name'', 64), (''quantity_classification'', 16), (''customer_code'', 64)]"

definition cap_text :: "string \<times> string option \<Rightarrow> string \<times> string option" where
  "cap_text kt = (case kt of (k, t) \<Rightarrow>
     (k, case map_of fact_str_limits k of None \<Rightarrow> t | Some n \<Rightarrow> map_option (\<lambda>s. if n < length s then take n s else s) t))"

definition cap_class :: "string \<Rightarrow> string" where
  "cap_class s = (if 16 < length s then take 16 s else s)"

definition cap_fact :: "fact \<Rightarrow> fact" where
  "cap_fact f = f\<lparr>f_text := map cap_text (f_text f), f_class := cap_class (f_class f)\<rparr>"

definition fact_texts :: "txn_values \<Rightarrow> attrs \<Rightarrow> (string \<times> string option) list" where
  "fact_texts v attributes =
     (let col = (\<lambda>k. (k, as_text (text_column v k))); tt = as_text (text_column v ''transaction_type'')
      in [col ''method'', col ''transaction_name'',
          (''transaction_type'', if usable_dimension_value tt then tt else None), (''status'', Some (status_value (v_status v))),
          col ''item_number'', col ''order_number'', col ''delivery_number'', col ''warehouse'', col ''warehouse_id'',
          col ''user_name'', col ''device_id'', col ''device_name'']
         @ map (\<lambda>(k, a). (k, json_as_text (jget attributes a))) from_attributes)"

definition unusable_quantity :: "txn_row \<Rightarrow> string option \<Rightarrow> string \<Rightarrow> attrs \<Rightarrow> issue" where
  "unusable_quantity r method field attributes =
     \<lparr>qi_txn = row_id r, qi_started = row_started r, qi_reason = ''unusable_quantity'',
      qi_detail = text_of method @ '' must carry a readable '' @ field @ '', but it is absent or unparsable'',
      qi_observed = [(''method'', opt_str method), (''field'', JStr field), (''raw'', jget attributes field),
        (''present'', JBool (map_of attributes field \<noteq> None))]\<rparr>"

definition build_fact :: "(string \<Rightarrow> string) \<Rightarrow> (instant \<Rightarrow> duration) \<Rightarrow> txn_row \<Rightarrow> attrs \<Rightarrow> decimal option \<Rightarrow> classification \<Rightarrow> fact result" where
  "build_fact sha offset r attributes quantity cls =
     (let v = row_values r;
          f = cap_fact \<lparr>f_txn = row_id r, f_started = v_started v, f_hash = [], f_revision = 1, f_event = v_started v,
            f_day = map_option (local_day offset) (v_started v), f_duration = v_duration v, f_class = classification_str cls,
            f_quantity = quantity, f_text = fact_texts v attributes, f_attrs = attributes\<rparr>
      in andthen (fact_fingerprint sha f) (\<lambda>h. Inr (f\<lparr>f_hash := h\<rparr>)))"

definition normalise :: "(string \<Rightarrow> string) \<Rightarrow> (instant \<Rightarrow> duration) \<Rightarrow> attrs \<Rightarrow> txn_row \<Rightarrow> (issue + fact) result" where
  "normalise sha offset response r =
     (let attributes = dict_update response (v_attributes (row_values r));
          method = as_text (text_column (row_values r) ''method'');
          quantity = (case quantity_field method of None \<Rightarrow> None | Some k \<Rightarrow> parse_quantity (json_val (jget attributes k)))
      in case quantity_field method of
           Some k \<Rightarrow>
             (if quantity = None then Inr (Inl (unusable_quantity r method k attributes))
              else andthen (classify_quantity method quantity) (\<lambda>cls.
                     andthen (build_fact sha offset r attributes quantity cls) (Inr \<circ> Inr)))
         | None \<Rightarrow> andthen (classify_quantity method quantity) (\<lambda>cls.
                     andthen (build_fact sha offset r attributes quantity cls) (Inr \<circ> Inr)))"

subsection \<open>The fact table and its ledger\<close>

record stored_fact =
  sf_customer :: string
  sf_created :: instant
  sf_fact :: fact

record ledger_row =
  lr_customer :: string
  lr_recorded :: instant
  lr_reason :: string
  lr_fact :: fact

record fact_db =
  fact_rows :: "stored_fact list"
  ledger :: "ledger_row list"

text \<open>\<open>NUMERIC(p, s)\<close>: rounded to \<open>s\<close> places, halves away from zero, refused when it needs more than \<open>p - s\<close> digits.\<close>

definition round_places :: "nat \<Rightarrow> int \<Rightarrow> int \<Rightarrow> int" where
  "round_places s c e =
     (if - int s \<le> e then c * 10 ^ nat (e + int s)
      else let m = 10 ^ nat (- int s - e) in (2 * c + m) div (2 * m))"

fun to_numeric :: "nat \<Rightarrow> nat \<Rightarrow> decimal \<Rightarrow> decimal result" where
  "to_numeric p s (Fin neg c e) =
     (let n = round_places s c e in if 10 ^ p \<le> n then Inl DataError else Inr (Fin (neg \<and> n \<noteq> 0) n (- int s)))"
| "to_numeric p s (Infinite neg) = Inl DataError"
| "to_numeric p s (NaN q) = Inr (NaN False)"

text \<open>The row as the table keeps it.\<close>

definition fits_text :: "string \<times> string option \<Rightarrow> bool" where
  "fits_text kt =
     (case kt of (k, t) \<Rightarrow> (case t of None \<Rightarrow> True
        | Some s \<Rightarrow> (case map_of fact_str_limits k of None \<Rightarrow> True | Some n \<Rightarrow> length s \<le> n)))"

definition to_columns :: "fact \<Rightarrow> fact result" where
  "to_columns f =
     (if \<not> list_all fits_text (f_text f) \<or> 16 < length (f_class f) \<or> 64 < length (f_hash f) then Inl DataError
      else case f_quantity f of
             None \<Rightarrow> Inr f
           | Some q \<Rightarrow> andthen (to_numeric 20 6 q) (\<lambda>n. Inr (f\<lparr>f_quantity := Some n\<rparr>)))"

definition row_at :: "string \<Rightarrow> fact_key \<Rightarrow> stored_fact \<Rightarrow> bool" where
  "row_at cc k r \<longleftrightarrow> sf_customer r = cc \<and> key_of (sf_fact r) = k"

definition insert_fact :: "string \<Rightarrow> instant \<Rightarrow> fact \<Rightarrow> stored_fact list \<Rightarrow> stored_fact list result" where
  "insert_fact cc now f rows =
     andthen (to_columns f) (\<lambda>g.
       if list_ex (row_at cc (key_of g)) rows then Inl IntegrityError
       else Inr (rows @ [\<lparr>sf_customer = cc, sf_created = now, sf_fact = g\<rparr>]))"

definition update_fact :: "string \<Rightarrow> fact_key \<Rightarrow> fact \<Rightarrow> stored_fact list \<Rightarrow> stored_fact list result" where
  "update_fact cc k f rows =
     andthen (to_columns f) (\<lambda>g. Inr (map (\<lambda>r. if row_at cc k r then r\<lparr>sf_fact := g\<rparr> else r) rows))"

definition delete_fact :: "string \<Rightarrow> fact_key \<Rightarrow> stored_fact list \<Rightarrow> stored_fact list" where
  "delete_fact cc k rows = filter (\<lambda>r. \<not> row_at cc k r) rows"

subsection \<open>Applying the verdicts\<close>

record fold_stats =
  n_inserted :: nat
  n_updated :: nat
  n_unchanged :: nat
  n_reversed :: nat

definition no_folds :: fold_stats where
  "no_folds = \<lparr>n_inserted = 0, n_updated = 0, n_unchanged = 0, n_reversed = 0\<rparr>"

type_synonym fact_outcome = "(fact_key, fact) range_outcome"

definition next_revision :: "fact \<Rightarrow> int" where
  "next_revision f = (if f_revision f = 0 then 1 else f_revision f) + 1"

definition make_ledger_row :: "string \<Rightarrow> instant \<Rightarrow> string \<Rightarrow> int \<Rightarrow> fact \<Rightarrow> ledger_row result" where
  "make_ledger_row cc now reason revision f =
     andthen (to_columns (f\<lparr>f_revision := revision\<rparr>)) (\<lambda>g.
       Inr \<lparr>lr_customer = cc, lr_recorded = now, lr_reason = reason, lr_fact = g\<rparr>)"

type_synonym apply_state = "fold_stats \<times> stored_fact list \<times> ledger_row list"

definition apply_outcome :: "string \<Rightarrow> instant \<Rightarrow> fact_outcome \<Rightarrow> apply_state \<Rightarrow> apply_state result" where
  "apply_outcome cc now o1 st =
     (case st of (stats, rows, log_rows) \<Rightarrow>
        (case (o_action o1, o_fact o1, o_stored o1) of
           (Unchanged, _, _) \<Rightarrow> Inr (stats\<lparr>n_unchanged := Suc (n_unchanged stats)\<rparr>, rows, log_rows)
         | (Reverse, _, Some old) \<Rightarrow>
             andthen (make_ledger_row cc now ''reverse'' (next_revision old) old) (\<lambda>l.
               Inr (stats\<lparr>n_reversed := Suc (n_reversed stats)\<rparr>, delete_fact cc (o_key o1) rows, log_rows @ [l]))
         | (Insert, Some new, _) \<Rightarrow>
             andthen (insert_fact cc now (new\<lparr>f_revision := 1\<rparr>) rows) (\<lambda>rows'.
             andthen (make_ledger_row cc now ''insert'' 1 new) (\<lambda>l.
               Inr (stats\<lparr>n_inserted := Suc (n_inserted stats)\<rparr>, rows', log_rows @ [l])))
         | (Update, Some new, Some old) \<Rightarrow>
             andthen (update_fact cc (o_key o1) (new\<lparr>f_revision := next_revision old\<rparr>) rows) (\<lambda>rows'.
             andthen (make_ledger_row cc now ''update'' (next_revision old) new) (\<lambda>l.
               Inr (stats\<lparr>n_updated := Suc (n_updated stats)\<rparr>, rows', log_rows @ [l])))
         | _ \<Rightarrow> Inl AttributeError))"

definition apply_outcomes :: "string \<Rightarrow> instant \<Rightarrow> fact_outcome list \<Rightarrow> fact_db \<Rightarrow> (fold_stats \<times> fact_db) result" where
  "apply_outcomes cc now os db =
     andthen (fold_result (apply_outcome cc now) os (no_folds, fact_rows db, [])) (\<lambda>(stats, rows, log_rows).
       Inr (stats, \<lparr>fact_rows = rows, ledger = ledger db @ log_rows\<rparr>))"

text \<open>\<open>_read_stored\<close>: the range and the capture gate, as for the source.\<close>

definition read_stored :: "string \<Rightarrow> window \<Rightarrow> string list \<Rightarrow> fact_db \<Rightarrow> fact list" where
  "read_stored cc w suppressed db =
     map sf_fact (filter (\<lambda>r. sf_customer r = cc \<and> covers w True (f_event (sf_fact r))
       \<and> capture_gate suppressed (text_field (sf_fact r) ''transaction_name'')) (fact_rows db))"

definition read_source :: "string \<Rightarrow> window \<Rightarrow> string list \<Rightarrow> store \<Rightarrow> txn_row list" where
  "read_source cc w suppressed s =
     filter (\<lambda>r. row_customer r = cc \<and> covers w True (row_started r)
       \<and> capture_gate suppressed (text_column (row_values r) ''transaction_name'')) (txns s)"

definition fact_diff :: "fact list \<Rightarrow> fact list \<Rightarrow> fact_outcome list" where
  "fact_diff = diff key_of f_hash"

subsection \<open>Record facts\<close>

text \<open>One M3 record of an expanded transaction (\<open>analytics_record_fact.py\<close>), and how a metric reads it.\<close>

record record_fact =
  rf_customer :: string
  rf_txn :: uuid
  rf_started :: "instant option"
  rf_index :: nat
  rf_event :: "instant option"
  rf_day :: "int option"
  rf_method :: "string option"
  rf_name :: "string option"
  rf_program :: "string option"
  rf_transaction :: "string option"
  rf_attrs :: attrs
  rf_created :: instant

definition record_column :: "record_fact \<Rightarrow> string \<Rightarrow> val" where
  "record_column f k =
     (if k = ''source_transaction_id'' then VOther (uuid_str (rf_txn f))
      else if k = ''source_started_at'' then val_option VTime (rf_started f)
      else if k = ''record_index'' then VInt (int (rf_index f))
      else if k = ''event_time'' then val_option VTime (rf_event f)
      else if k = ''business_date'' then val_option VDate (rf_day f)
      else if k = ''method'' then val_option VStr (rf_method f)
      else if k = ''transaction_name'' then val_option VStr (rf_name f)
      else if k = ''mi_program'' then val_option VStr (rf_program f)
      else if k = ''mi_transaction'' then val_option VStr (rf_transaction f)
      else if k = ''created_at'' then VTime (rf_created f)
      else if k = ''customer_code'' then VStr (rf_customer f)
      else VNone)"

definition record_row_of :: "record_fact \<Rightarrow> row" where
  "record_row_of f = \<lparr>cols = record_column f, bag = Some (\<lambda>k. json_val (jget (rf_attrs f) k))\<rparr>"

end
