(* ===== verification/Rollups.thy ===== *)
theory Rollups
  imports Facts Parser
begin

text \<open>
  The grain cascade (\<open>analytics/rollups.py\<close> over \<open>analytics_rollup.py\<close>): dirty buckets are recomputed from the rows
  below them and replaced. Hours are folded from facts, days merged from hours where the local day is whole hours and
  folded from facts elsewhere, months merged from days. A bucket is a number, the instant of its hour or the day it is
  or begins with; sets of buckets are lists. A zone gives the UTC instant of a local midnight and the offset of an
  instant. An exception in the middle leaves the transaction of the run unwritten.
\<close>

record zone =
  z_midnight :: "int \<Rightarrow> instant"
  z_offset :: "instant \<Rightarrow> duration"

definition utc_zone :: zone where
  "utc_zone = \<lparr>z_midnight = (\<lambda>d. d * day_us), z_offset = (\<lambda>t. 0)\<rparr>"

definition zone_named :: "(string \<Rightarrow> zone option) \<Rightarrow> string option \<Rightarrow> zone" where
  "zone_named zones tz =
     (case tz of None \<Rightarrow> utc_zone | Some n \<Rightarrow> if n = [] then utc_zone else (case zones n of None \<Rightarrow> utc_zone | Some z \<Rightarrow> z))"

subsection \<open>Buckets\<close>

definition hour_us :: duration where "hour_us = 3600000000"

definition hour_of :: "instant \<Rightarrow> instant" where
  "hour_of t = t - t mod hour_us"

definition local_day_span :: "zone \<Rightarrow> int \<Rightarrow> (instant \<times> instant) option" where
  "local_day_span z day =
     (let lo = z_midnight z day; hi = z_midnight z (day + 1)
      in if lo \<noteq> hour_of lo \<or> hi \<noteq> hour_of hi then None else Some (lo, hi))"

definition hourly_retention_days :: int where "hourly_retention_days = 90"
definition derive_margin_days :: int where "derive_margin_days = 2"

definition daily_derivable :: "zone \<Rightarrow> int \<Rightarrow> int \<Rightarrow> bool" where
  "daily_derivable z today day =
     (if day < today - (hourly_retention_days - derive_margin_days) then False else local_day_span z day \<noteq> None)"

definition hours_in :: "instant \<Rightarrow> instant \<Rightarrow> instant list" where
  "hours_in lo hi = map (\<lambda>i. hour_of lo + i * hour_us) [0..(hour_of hi - hour_of lo) div hour_us]"

definition local_dates_in :: "zone \<Rightarrow> instant \<Rightarrow> instant \<Rightarrow> int list" where
  "local_dates_in z lo hi = [local_day (z_offset z) lo .. local_day (z_offset z) hi]"

definition month_of :: "int \<Rightarrow> int" where
  "month_of day = (let (y, m, d) = civil day in day - (d - 1))"

definition month_end :: "int \<Rightarrow> int" where
  "month_end start = (let (y, m, d) = civil start in days_from_civil (y + m div 12) (nat (m mod 12 + 1)) 1 - 1)"

text \<open>Both sides of every writing outcome.\<close>

definition sides :: "fact_outcome list \<Rightarrow> fact list" where
  "sides os = concat (map (\<lambda>o1. List.map_filter id [o_stored o1, o_fact o1]) (filter writes os))"

definition dirty_buckets :: "fact_outcome list \<Rightarrow> instant list \<times> int list" where
  "dirty_buckets os =
     (remdups (map hour_of (List.map_filter f_event (sides os))), remdups (List.map_filter f_day (sides os)))"

record changed =
  c_methods :: "string option list"
  c_names :: "string option list"

definition changed_of :: "fact_outcome list \<Rightarrow> changed" where
  "changed_of os =
     \<lparr>c_methods = map (\<lambda>f. text_field f ''method'') (sides os), c_names = map (\<lambda>f. text_field f ''transaction_name'') (sides os)\<rparr>"

definition concerns :: "metric \<Rightarrow> changed \<Rightarrow> bool" where
  "concerns d ch =
     (if d_methods d \<noteq> [] \<and> \<not> list_ex (\<lambda>m. Some m \<in> set (c_methods ch)) (d_methods d) then False
      else if d_transactions d \<noteq> [] \<and> \<not> list_ex (\<lambda>n. Some n \<in> set (c_names ch)) (d_transactions d) then False
      else True)"

subsection \<open>Folding rows into buckets\<close>

definition dimension_slots :: nat where "dimension_slots = 6"

type_synonym dims = "string option list"

definition dim_key :: "row \<Rightarrow> metric \<Rightarrow> dims" where
  "dim_key r d =
     (let values = map (\<lambda>name. dimension_value (resolve_field r name)) (take dimension_slots (d_dimensions d))
      in values @ replicate (dimension_slots - length values) None)"

text \<open>A row of a fact table as the folder reads it.\<close>

record foldable =
  fo_event :: "instant option"
  fo_day :: "int option"
  fo_name :: "string option"
  fo_row :: row

definition fact_foldable :: "stored_fact \<Rightarrow> foldable" where
  "fact_foldable r = (let f = sf_fact r in
     \<lparr>fo_event = f_event f, fo_day = f_day f, fo_name = text_field f ''transaction_name'', fo_row = row_of f\<rparr>)"

definition record_foldable :: "record_fact \<Rightarrow> foldable" where
  "record_foldable f = \<lparr>fo_event = rf_event f, fo_day = rf_day f, fo_name = rf_name f, fo_row = record_row_of f\<rparr>"

type_synonym group_key = "int \<times> dims"
type_synonym folds = "(group_key, folded) odict"

definition keyed_rows :: "metric \<Rightarrow> (foldable \<Rightarrow> int option) \<Rightarrow> foldable list \<Rightarrow> (group_key \<times> row) list" where
  "keyed_rows d bucket_at rows =
     List.map_filter (\<lambda>r. map_option (\<lambda>b. ((b, dim_key (fo_row r) d), fo_row r)) (bucket_at r)) rows"

definition group_fold :: "(string \<Rightarrow> 64 word) \<Rightarrow> metric \<Rightarrow> (foldable \<Rightarrow> int option) \<Rightarrow> foldable list \<Rightarrow> folds result" where
  "group_fold hash64 d bucket_at rows =
     fold_result (\<lambda>kg out. andthen (metric_fold hash64 (map snd (snd kg)) d) (\<lambda>f. Inr (out @ [(fst kg, f)])))
       (bucket fst (keyed_rows d bucket_at rows)) []"

definition is_empty_roles :: "role_bucket \<Rightarrow> bool" where
  "is_empty_roles b =
     (if or_int (b_count b) \<noteq> 0 then False
      else if flatten (b_min b) \<noteq> None \<or> flatten (b_max b) \<noteq> None then False
      else if flatten (b_latest b) \<noteq> None then False
      else True)"

subsection \<open>The rollup tables\<close>

record rollup =
  ru_customer :: string
  ru_definition :: uuid
  ru_measure :: string
  ru_bucket :: int
  ru_dims :: dims
  ru_roles :: role_bucket
  ru_computed :: instant

record rollup_db =
  hourly :: "rollup list"
  daily :: "rollup list"
  monthly :: "rollup list"

definition rows_for :: "string \<Rightarrow> uuid \<Rightarrow> instant \<Rightarrow> folds \<Rightarrow> rollup list" where
  "rows_for cc def now folded =
     concat (map (\<lambda>(key, measures). map (\<lambda>(name, roles).
         \<lparr>ru_customer = cc, ru_definition = def, ru_measure = name, ru_bucket = fst key, ru_dims = snd key, ru_roles = roles, ru_computed = now\<rparr>)
       (filter (\<lambda>(name, roles). \<not> is_empty_roles roles) measures)) folded)"

text \<open>What the columns make of the roles. The JSON of a latest reading is written by \<open>json.dumps\<close>, which takes no Decimal.\<close>

definition number_column :: "nat \<Rightarrow> number option \<Rightarrow> number option result" where
  "number_column p x =
     (case x of None \<Rightarrow> Inr None
      | Some n \<Rightarrow> andthen (case n of PInt i \<Rightarrow> to_numeric p 6 (Fin (i < 0) \<bar>i\<bar> 0) | PDec d \<Rightarrow> to_numeric p 6 d) (Inr \<circ> Some \<circ> PDec))"

definition extreme_column :: "decimal option option \<Rightarrow> decimal option option result" where
  "extreme_column x = (case flatten x of None \<Rightarrow> Inr None | Some d \<Rightarrow> andthen (to_numeric 30 6 d) (Inr \<circ> Some \<circ> Some))"

definition count_column :: "int option \<Rightarrow> int option result" where
  "count_column x = (case x of None \<Rightarrow> Inr None | Some n \<Rightarrow> if n < - (2 ^ 63) \<or> 2 ^ 63 \<le> n then Inl DataError else Inr (Some n))"

definition histogram_column :: "nat list option \<Rightarrow> nat list option" where
  "histogram_column h = (case h of None \<Rightarrow> None | Some hs \<Rightarrow> if list_ex (\<lambda>x. x \<noteq> 0) hs then Some hs else None)"

definition latest_column :: "reading option option \<Rightarrow> reading option option result" where
  "latest_column l =
     (case flatten l of None \<Rightarrow> Inr None
      | Some (t, None) \<Rightarrow> Inr (Some (Some (t, None)))
      | Some (t, Some v) \<Rightarrow> Inl TypeError)"

definition store_roles :: "role_bucket \<Rightarrow> role_bucket result" where
  "store_roles b =
     andthen (number_column 30 (b_sum b)) (\<lambda>s. andthen (count_column (b_count b)) (\<lambda>c.
     andthen (number_column 40 (b_sum_sq b)) (\<lambda>q. andthen (extreme_column (b_min b)) (\<lambda>lo.
     andthen (extreme_column (b_max b)) (\<lambda>hi. andthen (latest_column (b_latest b)) (\<lambda>l.
       Inr \<lparr>b_sum = s, b_count = c, b_sum_sq = q, b_min = lo, b_max = hi, b_hist = histogram_column (b_hist b),
         b_sketch = b_sketch b, b_latest = l\<rparr>))))))"

definition store_rollup :: "rollup \<Rightarrow> rollup result" where
  "store_rollup r =
     (if \<not> list_all (\<lambda>v. case v of None \<Rightarrow> True | Some s \<Rightarrow> length s \<le> 128) (ru_dims r) \<or> 64 < length (ru_measure r) then Inl DataError
      else andthen (store_roles (ru_roles r)) (\<lambda>b. Inr (r\<lparr>ru_roles := b\<rparr>)))"

definition store_rollups :: "rollup list \<Rightarrow> rollup list result" where
  "store_rollups rows = fold_result (\<lambda>r out. andthen (store_rollup r) (\<lambda>r'. Inr (out @ [r']))) rows []"

type_synonym rollup_id = "string \<times> uuid \<times> string \<times> int \<times> dims"

definition rollup_key :: "rollup \<Rightarrow> rollup_id" where
  "rollup_key r = (ru_customer r, ru_definition r, ru_measure r, ru_bucket r, ru_dims r)"

definition in_buckets :: "string \<Rightarrow> uuid \<Rightarrow> int list \<Rightarrow> rollup \<Rightarrow> bool" where
  "in_buckets cc def buckets r \<longleftrightarrow> ru_customer r = cc \<and> ru_definition r = def \<and> ru_bucket r \<in> set buckets"

definition replace :: "string \<Rightarrow> uuid \<Rightarrow> int list \<Rightarrow> rollup list \<Rightarrow> rollup list \<Rightarrow> rollup list result" where
  "replace cc def buckets rows lev =
     (if buckets = [] then Inr lev
      else andthen (store_rollups rows) (\<lambda>new.
        let after = filter (\<lambda>r. \<not> in_buckets cc def buckets r) lev @ new
        in if distinct (map rollup_key after) then Inr after else Inl IntegrityError))"

subsection \<open>Merging a level from the one below\<close>

definition merge_row :: "(rollup \<Rightarrow> int option) \<Rightarrow> rollup \<Rightarrow> folds \<Rightarrow> folds result" where
  "merge_row bucket_at r out =
     (case bucket_at r of
        None \<Rightarrow> Inr out
      | Some b \<Rightarrow>
          (let key = (b, ru_dims r); inner = (case map_of out key of None \<Rightarrow> [] | Some f \<Rightarrow> f)
           in andthen (add_roles (roles_of inner (ru_measure r)) (ru_roles r)) (\<lambda>m.
                Inr (AList.update key (AList.update (ru_measure r) m inner) out))))"

definition day_holding :: "zone \<Rightarrow> int list \<Rightarrow> instant \<Rightarrow> int option" where
  "day_holding z days t =
     find (\<lambda>day. case local_day_span z day of None \<Rightarrow> False | Some (lo, hi) \<Rightarrow> lo \<le> t \<and> t < hi) days"

text \<open>The query reads the span from the first midnight to the last; a row in none of the days is skipped.\<close>

definition span_of_days :: "zone \<Rightarrow> int list \<Rightarrow> instant \<times> instant" where
  "span_of_days z days =
     (let spans = List.map_filter (local_day_span z) days
      in (Min (set (map fst spans)), Max (set (map snd spans))))"

definition fold_daily_from_hourly :: "string \<Rightarrow> uuid \<Rightarrow> zone \<Rightarrow> instant \<Rightarrow> int list \<Rightarrow> rollup_db \<Rightarrow> rollup_db result" where
  "fold_daily_from_hourly cc def z now days db =
     (if days = [] then Inr db
      else let (lo, hi) = span_of_days z days;
               below = filter (\<lambda>r. ru_customer r = cc \<and> ru_definition r = def \<and> lo \<le> ru_bucket r \<and> ru_bucket r < hi) (hourly db)
           in andthen (fold_result (merge_row (\<lambda>r. day_holding z days (ru_bucket r))) below []) (\<lambda>folded.
                andthen (replace cc def days (rows_for cc def now folded) (daily db)) (\<lambda>lev. Inr (db\<lparr>daily := lev\<rparr>))))"

definition fold_monthly :: "string \<Rightarrow> uuid \<Rightarrow> instant \<Rightarrow> int list \<Rightarrow> rollup_db \<Rightarrow> rollup_db result" where
  "fold_monthly cc def now months db =
     (if months = [] then Inr db
      else let below = filter (\<lambda>r. ru_customer r = cc \<and> ru_definition r = def \<and> Min (set months) \<le> ru_bucket r
                 \<and> ru_bucket r \<le> month_end (Max (set months))) (daily db)
           in andthen (fold_result (merge_row (\<lambda>r. if month_of (ru_bucket r) \<in> set months then Some (month_of (ru_bucket r)) else None)) below [])
                (\<lambda>folded. andthen (replace cc def months (rows_for cc def now folded) (monthly db)) (\<lambda>lev. Inr (db\<lparr>monthly := lev\<rparr>))))"

subsection \<open>The cascade\<close>

definition route_dates :: "metric \<Rightarrow> zone \<Rightarrow> int \<Rightarrow> int list \<Rightarrow> int list \<times> int list" where
  "route_dates d z today dates =
     (if ''hourly'' \<notin> set (d_grains d) then ([], dates)
      else (filter (daily_derivable z today) dates, filter (\<lambda>day. \<not> daily_derivable z today day) dates))"

definition hour_bucket :: "instant list \<Rightarrow> foldable \<Rightarrow> int option" where
  "hour_bucket hours r = (case fo_event r of None \<Rightarrow> None | Some t \<Rightarrow> if hour_of t \<in> set hours then Some (hour_of t) else None)"

definition day_bucket :: "int list \<Rightarrow> foldable \<Rightarrow> int option" where
  "day_bucket days r = (case fo_day r of None \<Rightarrow> None | Some day \<Rightarrow> if day \<in> set days then Some day else None)"

definition fold_hours :: "(string \<Rightarrow> 64 word) \<Rightarrow> string \<Rightarrow> uuid \<Rightarrow> metric \<Rightarrow> instant \<Rightarrow> instant list \<Rightarrow> foldable list \<Rightarrow> rollup_db \<Rightarrow> rollup_db result" where
  "fold_hours hash64 cc def d now hours facts db =
     (if ''hourly'' \<notin> set (d_grains d) then Inr db
      else andthen (group_fold hash64 d (hour_bucket hours) facts) (\<lambda>folded.
        andthen (replace cc def hours (rows_for cc def now folded) (hourly db)) (\<lambda>lev. Inr (db\<lparr>hourly := lev\<rparr>))))"

definition fold_days_from_facts :: "(string \<Rightarrow> 64 word) \<Rightarrow> string \<Rightarrow> uuid \<Rightarrow> metric \<Rightarrow> instant \<Rightarrow> int list \<Rightarrow> foldable list \<Rightarrow> rollup_db \<Rightarrow> rollup_db result" where
  "fold_days_from_facts hash64 cc def d now days facts db =
     (if days = [] then Inr db
      else andthen (group_fold hash64 d (day_bucket days) facts) (\<lambda>folded.
        andthen (replace cc def days (rows_for cc def now folded) (daily db)) (\<lambda>lev. Inr (db\<lparr>daily := lev\<rparr>))))"

definition fold_days :: "(string \<Rightarrow> 64 word) \<Rightarrow> string \<Rightarrow> uuid \<Rightarrow> metric \<Rightarrow> zone \<Rightarrow> instant \<Rightarrow> int list \<Rightarrow> int list \<Rightarrow> foldable list \<Rightarrow> rollup_db \<Rightarrow> rollup_db result" where
  "fold_days hash64 cc def d z now derivable by_fact facts db =
     (if ''daily'' \<notin> set (d_grains d) then Inr db
      else andthen (fold_days_from_facts hash64 cc def d now by_fact facts db) (\<lambda>db'.
        if derivable = [] then Inr db' else fold_daily_from_hourly cc def z now derivable db'))"

definition fold_grains ::
    "(string \<Rightarrow> 64 word) \<Rightarrow> string \<Rightarrow> uuid \<Rightarrow> metric \<Rightarrow> zone \<Rightarrow> instant \<Rightarrow> instant list \<Rightarrow> int list \<Rightarrow> int list \<Rightarrow> foldable list \<Rightarrow> rollup_db \<Rightarrow> rollup_db result" where
  "fold_grains hash64 cc def d z now hours dates derivable facts db =
     andthen (fold_hours hash64 cc def d now hours facts db) (\<lambda>db.
     andthen (fold_days hash64 cc def d z now derivable (filter (\<lambda>day. day \<notin> set derivable) dates) facts db) (\<lambda>db.
       if ''monthly'' \<notin> set (d_grains d) then Inr db
       else fold_monthly cc def now (remdups (map month_of dates)) db))"

text \<open>The one read: two ranges or-ed, the show switch and the instant the metric starts at.\<close>

definition dirty_row :: "instant list \<Rightarrow> int list \<Rightarrow> foldable \<Rightarrow> bool" where
  "dirty_row hours dates r \<longleftrightarrow>
     hours \<noteq> [] \<and> (case fo_event r of None \<Rightarrow> False | Some t \<Rightarrow> Min (set hours) \<le> t \<and> t < Max (set hours) + hour_us)
     \<or> dates \<noteq> [] \<and> (case fo_day r of None \<Rightarrow> False | Some day \<Rightarrow> Min (set dates) \<le> day \<and> day \<le> Max (set dates))"

definition shown :: "string list \<Rightarrow> foldable \<Rightarrow> bool" where
  "shown hidden r = (hidden = [] \<or> (case fo_name r of None \<Rightarrow> True | Some n \<Rightarrow> n \<notin> set hidden))"

definition since_gate :: "instant option \<Rightarrow> foldable \<Rightarrow> bool" where
  "since_gate since r = (case since of None \<Rightarrow> True | Some s \<Rightarrow> (case fo_event r of None \<Rightarrow> False | Some t \<Rightarrow> s \<le> t))"

definition read_dirty :: "instant list \<Rightarrow> int list \<Rightarrow> string list \<Rightarrow> instant option \<Rightarrow> foldable list \<Rightarrow> foldable list" where
  "read_dirty hours dates hidden since rows =
     (if hours = [] \<and> dates = [] then []
      else filter (\<lambda>r. dirty_row hours dates r \<and> shown hidden r \<and> since_gate since r) rows)"

definition read_dirty_facts :: "string \<Rightarrow> instant list \<Rightarrow> int list \<Rightarrow> string list \<Rightarrow> instant option \<Rightarrow> stored_fact list \<Rightarrow> foldable list" where
  "read_dirty_facts cc hours dates hidden since rows =
     read_dirty hours dates hidden since (map fact_foldable (filter (\<lambda>r. sf_customer r = cc) rows))"

definition read_dirty_record_facts :: "string \<Rightarrow> instant list \<Rightarrow> int list \<Rightarrow> string list \<Rightarrow> instant option \<Rightarrow> record_fact list \<Rightarrow> foldable list" where
  "read_dirty_record_facts cc hours dates hidden since rows =
     read_dirty hours dates hidden since (map record_foldable (filter (\<lambda>f. rf_customer f = cc) rows))"

text \<open>\<open>recompute\<close>: one definition, reading for itself.\<close>

definition recompute ::
    "(string \<Rightarrow> 64 word) \<Rightarrow> string \<Rightarrow> uuid \<Rightarrow> metric \<Rightarrow> zone \<Rightarrow> instant \<Rightarrow> instant list \<Rightarrow> int list \<Rightarrow> string list
     \<Rightarrow> stored_fact list \<Rightarrow> rollup_db \<Rightarrow> rollup_db result" where
  "recompute hash64 cc def d z now hours dates hidden rows db =
     (if hours = [] \<and> dates = [] then Inr db
      else let (derivable, by_fact) = route_dates d z (now div day_us) dates
           in fold_grains hash64 cc def d z now hours dates derivable (read_dirty_facts cc hours by_fact hidden (d_from d) rows) db)"

definition recompute_records ::
    "(string \<Rightarrow> 64 word) \<Rightarrow> string \<Rightarrow> uuid \<Rightarrow> metric \<Rightarrow> zone \<Rightarrow> instant \<Rightarrow> instant list \<Rightarrow> int list \<Rightarrow> string list
     \<Rightarrow> record_fact list \<Rightarrow> rollup_db \<Rightarrow> rollup_db result" where
  "recompute_records hash64 cc def d z now hours dates hidden rows db =
     (if hours = [] \<and> dates = [] then Inr db
      else let (derivable, by_fact) = route_dates d z (now div day_us) dates
           in fold_grains hash64 cc def d z now hours dates derivable (read_dirty_record_facts cc hours by_fact hidden (d_from d) rows) db)"

record roll_stats =
  rs_definitions :: nat
  rs_skipped :: nat
  rs_buckets :: nat

definition since_rows :: "instant option \<Rightarrow> foldable list \<Rightarrow> foldable list" where
  "since_rows since facts = filter (since_gate since) facts"

text \<open>One source: one read for every definition, each folded from it.\<close>

definition fold_definition ::
    "(string \<Rightarrow> 64 word) \<Rightarrow> string \<Rightarrow> zone \<Rightarrow> instant \<Rightarrow> instant list \<Rightarrow> int list \<Rightarrow> foldable list \<Rightarrow> uuid \<times> metric \<Rightarrow> rollup_db \<Rightarrow> rollup_db result" where
  "fold_definition hash64 cc z now hours dates facts dd db =
     (case dd of (def, d) \<Rightarrow>
        fold_grains hash64 cc def d z now hours dates (fst (route_dates d z (now div day_us) dates)) (since_rows (d_from d) facts) db)"

definition one_source ::
    "(string \<Rightarrow> 64 word) \<Rightarrow> string \<Rightarrow> zone \<Rightarrow> instant \<Rightarrow> instant list \<Rightarrow> int list \<Rightarrow> (instant list \<Rightarrow> int list \<Rightarrow> foldable list)
     \<Rightarrow> (uuid \<times> metric) list \<Rightarrow> rollup_db \<Rightarrow> rollup_db result" where
  "one_source hash64 cc z now hours dates reader defs db =
     (if defs = [] \<or> hours = [] \<and> dates = [] then Inr db
      else let by_fact_all = concat (map (\<lambda>dd. snd (route_dates (snd dd) z (now div day_us) dates)) defs)
           in fold_result (fold_definition hash64 cc z now hours dates (reader hours by_fact_all)) defs db)"

definition metric_skipped :: "changed option \<Rightarrow> uuid \<times> metric \<Rightarrow> bool" where
  "metric_skipped ch dd \<longleftrightarrow> d_source (snd dd) \<noteq> ''record'' \<and> (case ch of None \<Rightarrow> False | Some c \<Rightarrow> \<not> concerns (snd dd) c)"

definition fold_all ::
    "(string \<Rightarrow> 64 word) \<Rightarrow> string \<Rightarrow> (uuid \<times> metric) list \<Rightarrow> instant list \<Rightarrow> int list \<Rightarrow> instant list \<Rightarrow> int list \<Rightarrow> string list \<Rightarrow> zone
     \<Rightarrow> instant \<Rightarrow> changed option \<Rightarrow> stored_fact list \<Rightarrow> record_fact list \<Rightarrow> rollup_db \<Rightarrow> (roll_stats \<times> rollup_db) result" where
  "fold_all hash64 cc defs hours dates rec_hours rec_dates hidden z now ch facts recs db =
     (let record_defs = filter (\<lambda>dd. d_source (snd dd) = ''record'') defs;
          transaction_defs = filter (\<lambda>dd. d_source (snd dd) \<noteq> ''record'' \<and> \<not> metric_skipped ch dd) defs;
          ran = (\<lambda>ds hs ts. if ds = [] \<or> hs = [] \<and> ts = [] then 0 else length ds)
      in andthen (one_source hash64 cc z now hours dates (\<lambda>hs ds. read_dirty_facts cc hs ds hidden None facts) transaction_defs db) (\<lambda>db.
         andthen (one_source hash64 cc z now rec_hours rec_dates (\<lambda>hs ds. read_dirty_record_facts cc hs ds hidden None recs) record_defs db) (\<lambda>db.
           Inr (\<lparr>rs_definitions = ran transaction_defs hours dates + ran record_defs rec_hours rec_dates,
                 rs_skipped = length (filter (metric_skipped ch) defs),
                 rs_buckets = length (remdups (hours @ rec_hours)) + length (remdups (dates @ rec_dates))\<rparr>, db))))"

end
