(* ===== verification/MetricTypes.thy ===== *)
theory MetricTypes
  imports Metrics
begin

text \<open>
  Type soundness of metric definitions: a definition that \<open>validate\<close> accepts, with measures of different names,
  folds any rows without a TypeError, an AttributeError or a KeyError. What can still be raised is the arithmetic of
  \<open>decimal\<close> on special or huge numbers.
\<close>

subsection \<open>Results that raise nothing but given errors\<close>

definition safe :: "py_error set \<Rightarrow> ('a \<Rightarrow> bool) \<Rightarrow> 'a result \<Rightarrow> bool" where
  "safe E P r \<longleftrightarrow> (case r of Inl e \<Rightarrow> e \<in> E | Inr x \<Rightarrow> P x)"

named_theorems safe_rules

lemma safe_Inr [simp]: "safe E P (Inr x) \<longleftrightarrow> P x"
  by (simp add: safe_def)

lemma safe_Inl [simp]: "safe E P (Inl e) \<longleftrightarrow> e \<in> E"
  by (simp add: safe_def)

lemma safe_andthen: "safe E P r \<Longrightarrow> (\<And>x. P x \<Longrightarrow> safe E Q (f x)) \<Longrightarrow> safe E Q (andthen r f)"
  by (cases r) (auto simp: andthen_def)

lemma safe_mono: "safe E P r \<Longrightarrow> (\<And>x. P x \<Longrightarrow> Q x) \<Longrightarrow> safe E Q r"
  by (auto simp: safe_def split: sum.splits)

lemma safe_fold_result:
  "(\<And>x s. x \<in> set xs \<Longrightarrow> P s \<Longrightarrow> safe E P (f x s)) \<Longrightarrow> P s \<Longrightarrow> safe E P (fold_result f xs s)"
proof (induction xs arbitrary: s)
  case (Cons x xs)
  have "safe E P (andthen (f x s) (fold_result f xs))"
    by (rule safe_andthen [where P = P]) (use Cons in auto)
  then show ?case by simp
qed simp

definition arith_errors :: "py_error set" where
  "arith_errors = {InvalidOperation, Overflow, ValueError}"

abbreviation anything :: "'a \<Rightarrow> bool" where "anything \<equiv> \<lambda>x. True"

lemma arith_members [simp]: "InvalidOperation \<in> arith_errors" "Overflow \<in> arith_errors" "ValueError \<in> arith_errors"
  by (simp_all add: arith_errors_def)

lemma safe_fix [safe_rules]: "safe arith_errors anything (dec_fix s c e)"
  by (simp add: dec_fix_def Let_def split: prod.splits)

lemma safe_dec_add [safe_rules]: "safe arith_errors anything (dec_add x y)"
  by (cases "(x, y)" rule: dec_add.cases) (simp_all add: Let_def safe_fix)

lemma safe_dec_sub [safe_rules]: "safe arith_errors anything (dec_sub x y)"
  by (simp add: dec_sub_def safe_dec_add)

lemma safe_dec_mul [safe_rules]: "safe arith_errors anything (dec_mul x y)"
  by (cases "(x, y)" rule: dec_mul.cases) (simp_all add: safe_fix)

lemma safe_dec_less [safe_rules]: "safe arith_errors anything (dec_less x y)"
  by (cases "(x, y)" rule: dec_less.cases) simp_all

lemma safe_dec_min [safe_rules]: "safe arith_errors anything (dec_min x y)"
  unfolding dec_min_def by (rule safe_andthen [OF safe_dec_less]) simp

lemma safe_dec_max [safe_rules]: "safe arith_errors anything (dec_max x y)"
  unfolding dec_max_def by (rule safe_andthen [OF safe_dec_less]) simp

lemma safe_num_add [safe_rules]: "safe arith_errors anything (num_add x y)"
  by (cases "(x, y)" rule: num_add.cases) (auto intro: safe_andthen [OF safe_dec_add])

lemma safe_decimal_band [safe_rules]: "safe arith_errors anything (decimal_band x)"
  by (cases x) simp_all

lemma safe_integral [safe_rules]: "safe arith_errors anything (is_integral x)"
  by (cases x) simp_all

lemma safe_normalize [safe_rules]: "safe arith_errors anything (dec_normalize x)"
  by (cases x) (auto intro: safe_andthen [OF safe_fix] split: decimal.splits prod.splits)

lemma safe_normal_key [safe_rules]: "safe arith_errors anything (normal_key n)"
  unfolding normal_key_def by (rule safe_andthen [OF safe_normalize]) simp

lemma safe_distinct_key [safe_rules]: "safe arith_errors anything (distinct_key v)"
proof -
  have "safe arith_errors anything (number_key v)" for v
    unfolding number_key_def by (auto intro!: safe_andthen [OF safe_integral] simp: safe_normal_key split: option.splits)
  moreover have "safe arith_errors anything (text_key s)" for s
    unfolding text_key_def Let_def
    by (auto intro!: safe_andthen [OF safe_integral] simp: safe_normal_key split: option.splits)
  ultimately show ?thesis by (cases v) simp_all
qed

subsection \<open>The shape of a role_bucket\<close>

definition has_role :: "measure \<Rightarrow> role \<Rightarrow> 'a option \<Rightarrow> bool" where
  "has_role m r x \<longleftrightarrow> (x \<noteq> None \<longleftrightarrow> r \<in> set (roles_for (m_agg m)))"

definition shaped :: "measure \<Rightarrow> role_bucket \<Rightarrow> bool" where
  "shaped m b \<longleftrightarrow> has_role m Sum_value (b_sum b) \<and> has_role m Count_value (b_count b) \<and> has_role m Sum_sq (b_sum_sq b)
     \<and> has_role m Min_value (b_min b) \<and> has_role m Max_value (b_max b) \<and> has_role m Histogram (b_hist b)
     \<and> has_role m Distinct_sketch (b_sketch b) \<and> has_role m Latest (b_latest b)"

lemma has_role_simps [simp]:
  "has_role m r (Some x) \<longleftrightarrow> r \<in> set (roles_for (m_agg m))" "has_role m r None \<longleftrightarrow> r \<notin> set (roles_for (m_agg m))"
  "has_role m r (map_option f y) = has_role m r y"
  by (simp_all add: has_role_def)

lemma shaped_empty [simp]: "shaped m (empty_roles m)"
  by (simp add: shaped_def empty_roles_def Let_def role_value_def)

text \<open>What validation leaves of a measure.\<close>

definition well_typed :: "measure \<Rightarrow> bool" where
  "well_typed m \<longleftrightarrow> (m_agg m = Agg_count \<or> given (m_field m))
     \<and> (given (m_minus m) \<longrightarrow> given (m_field m) \<and> m_agg m \<noteq> Agg_count \<and> m_agg m \<noteq> Agg_distinct)"

lemma validated_measure:
  assumes "validate d known kinds = []" and "m \<in> set (d_measures d)"
  shows "well_typed m"
proof -
  have "field_problems d known m = []" "minus_problems d known m = []"
    using assms by (auto simp: validate_def)
  then show ?thesis
    by (auto simp: field_problems_def minus_problems_def well_typed_def split: if_splits option.splits)
qed

definition clocked :: "row \<Rightarrow> bool" where
  "clocked r \<longleftrightarrow> (case cols r ''event_time'' of VNone \<Rightarrow> True | VTime t \<Rightarrow> True | _ \<Rightarrow> False)"

definition fits :: "measure \<Rightarrow> decimal option \<Rightarrow> bool" where
  "fits m v \<longleftrightarrow> v \<noteq> None \<or> m_agg m = Agg_count"

lemma safe_measured:
  "well_typed m \<Longrightarrow> safe arith_errors (\<lambda>x. \<forall>v. x = Some v \<longrightarrow> fits m v) (measured r m)"
  by (auto simp: measured_def Let_def well_typed_def fits_def split: option.splits intro!: safe_andthen [OF safe_dec_sub])

lemma shaped_count_only: "shaped m b \<Longrightarrow> m_agg m = Agg_count \<Longrightarrow>
    b_sum b = None \<and> b_sum_sq b = None \<and> b_min b = None \<and> b_max b = None \<and> b_hist b = None \<and> b_latest b = None"
  by (simp add: shaped_def has_role_def)

lemma shaped_observe_count: "shaped m b \<Longrightarrow> shaped m (observe_count b)"
  by (simp add: shaped_def observe_count_def)

lemma safe_with_value: "(\<And>x. v = Some x \<Longrightarrow> safe E P (f x)) \<Longrightarrow> v \<noteq> None \<Longrightarrow> safe E P (with_value v f)"
  by (auto simp: with_value_def split: option.splits)

lemma safe_pick_extreme:
  "(\<And>x y. safe arith_errors anything (f x y)) \<Longrightarrow> v \<noteq> None \<Longrightarrow> safe arith_errors anything (pick_extreme f cur v)"
  unfolding pick_extreme_def
  by (cases cur) (auto intro!: safe_with_value safe_andthen [where P = anything])

lemma safe_observe_value:
  assumes "shaped m b" and "v \<noteq> None" and "clocked r"
  shows "safe arith_errors (shaped m) (observe_value r v b)"
proof -
  have sum: "safe arith_errors (shaped m) (observe_sum v b)" if "shaped m b" for b
    using that assms(2) unfolding observe_sum_def
    by (auto split: option.splits simp: shaped_def intro!: safe_with_value safe_andthen [OF safe_num_add])
  have sq: "safe arith_errors (shaped m) (observe_sum_sq v b)" if "shaped m b" for b
    using that assms(2) unfolding observe_sum_sq_def
    by (auto split: option.splits simp: shaped_def
        intro!: safe_with_value safe_andthen [OF safe_num_add] safe_andthen [OF safe_dec_mul])
  have lo: "safe arith_errors (shaped m) (observe_min v b)" if "shaped m b" for b
    using that assms(2) unfolding observe_min_def
    by (auto split: option.splits simp: shaped_def safe_dec_min
        intro!: safe_andthen [OF safe_pick_extreme])
  have hi: "safe arith_errors (shaped m) (observe_max v b)" if "shaped m b" for b
    using that assms(2) unfolding observe_max_def
    by (auto split: option.splits simp: shaped_def safe_dec_max
        intro!: safe_andthen [OF safe_pick_extreme])
  have hist: "safe arith_errors (shaped m) (observe_hist v b)" if "shaped m b" for b
    using that assms(2) unfolding observe_hist_def
    by (auto split: option.splits simp: shaped_def intro!: safe_with_value safe_andthen [OF safe_decimal_band])
  have lat: "safe arith_errors (shaped m) (observe_latest r v b)" if "shaped m b" for b
    using that assms(3) unfolding observe_latest_def
    by (auto split: option.splits val.splits simp: shaped_def clocked_def)
  show ?thesis unfolding observe_value_def
    by (intro safe_andthen [OF sum] safe_andthen [OF sq] safe_andthen [OF lo] safe_andthen [OF hi] safe_andthen [OF hist] lat
        shaped_observe_count assms(1))
qed

lemma observe_value_count_only:
  "shaped m b \<Longrightarrow> m_agg m = Agg_count \<Longrightarrow> observe_value r v b = Inr (observe_count b)"
  using shaped_count_only [of m "observe_count b"] shaped_observe_count [of m b]
  by (simp add: observe_value_def observe_sum_def observe_sum_sq_def observe_min_def observe_max_def observe_hist_def
      observe_latest_def andthen_def)

lemma safe_observe_row:
  assumes "well_typed m" and "shaped m b" and "clocked r"
  shows "safe arith_errors (shaped m) (observe_row hash64 r m b)"
proof (cases "b_sketch b")
  case None
  have "safe arith_errors (shaped m) (observe_value r v b)" if "fits m v" for v
    using that assms safe_observe_value observe_value_count_only by (cases "v = None") (auto simp: fits_def shaped_observe_count)
  then show ?thesis
    using None assms(2) unfolding observe_row_def
    by (auto intro!: safe_andthen [OF safe_measured [OF assms(1)]] split: option.splits)
next
  case (Some sk)
  then have agg: "m_agg m = Agg_distinct" using assms(2) by (cases "m_agg m") (auto simp: shaped_def)
  then obtain f where "m_field m = Some f" using assms(1) by (auto simp: well_typed_def given_def split: option.splits)
  then show ?thesis
    using Some assms(2) agg unfolding observe_row_def observe_key_def
    by (auto intro!: safe_andthen [OF safe_distinct_key] split: option.splits simp: shaped_def observe_count_def)
qed

subsection \<open>The fold\<close>

definition shaped_fold :: "metric \<Rightarrow> folded \<Rightarrow> bool" where
  "shaped_fold d out \<longleftrightarrow> list_all (\<lambda>m. \<exists>b. map_of out (m_name m) = Some b \<and> shaped m b) (d_measures d)"

lemma shaped_fold_update:
  assumes "shaped_fold d out" and "m \<in> set (d_measures d)" and "distinct (map m_name (d_measures d))" and "shaped m b"
  shows "shaped_fold d (AList.update (m_name m) b out)"
proof -
  have "m' = m" if "m' \<in> set (d_measures d)" "m_name m' = m_name m" for m'
    using that assms(2,3) by (simp add: distinct_map inj_on_def)
  then show ?thesis using assms(1,4) by (auto simp: shaped_fold_def list_all_iff dict_simps)
qed

lemma map_of_empty_fold:
  "distinct (map m_name (d_measures d)) \<Longrightarrow> m \<in> set (d_measures d) \<Longrightarrow> map_of (empty_fold d) (m_name m) = Some (empty_roles m)"
proof -
  assume dist: "distinct (map m_name (d_measures d))" and m: "m \<in> set (d_measures d)"
  define kvs where "kvs = map (\<lambda>m. (m_name m, empty_roles m)) (d_measures d)"
  have "empty_fold d = fold (\<lambda>(k, v). AList.update k v) kvs []" by (simp add: empty_fold_def kvs_def fold_map comp_def)
  moreover have "map_of (rev kvs) (m_name m) = Some (empty_roles m)"
    using dist m by (intro map_of_is_SomeI) (auto simp: kvs_def comp_def rev_map [symmetric])
  ultimately show ?thesis by (simp add: od.lookup_fold_store)
qed

lemma shaped_fold_empty: "distinct (map m_name (d_measures d)) \<Longrightarrow> shaped_fold d (empty_fold d)"
  by (simp add: shaped_fold_def list_all_iff map_of_empty_fold)

lemma safe_metric_fold:
  assumes "validate d known kinds = []" and "distinct (map m_name (d_measures d))" and "list_all clocked rows"
  shows "safe arith_errors (shaped_fold d) (metric_fold hash64 rows d)"
proof -
  have one: "safe arith_errors (shaped_fold d) (fold_measure hash64 d r m out)"
    if m: "m \<in> set (d_measures d)" and out: "shaped_fold d out" and r: "clocked r" for r m out
  proof -
    obtain b where b: "map_of out (m_name m) = Some b" "shaped m b" using m out by (auto simp: shaped_fold_def list_all_iff)
    show ?thesis using m out r b assms(2) validated_measure [OF assms(1) m] unfolding fold_measure_def
      by (auto intro!: safe_andthen [OF safe_observe_row] shaped_fold_update)
  qed
  show ?thesis unfolding metric_fold_def
  proof (rule safe_fold_result)
    fix r out
    assume r: "r \<in> set rows" "shaped_fold d out"
    then have "clocked r" using assms(3) by (auto simp: list_all_iff)
    then show "safe arith_errors (shaped_fold d) (fold_row hash64 d r out)"
      unfolding fold_row_def by (intro safe_fold_result one r)
  qed (rule shaped_fold_empty [OF assms(2)])
qed

text \<open>C25: A metric definition without problems, with measures of different names, never makes the fold raise a
  TypeError, an AttributeError or a KeyError, whatever the rows hold: the only errors left are those of decimal
  arithmetic on NaN, infinities and overflow.\<close>

theorem validated_metric_folds_without_type_error:
  assumes "validate d known kinds = []" and "distinct (map m_name (d_measures d))" and "list_all clocked rows"
    and "metric_fold hash64 rows d = Inl e"
  shows "e \<in> {InvalidOperation, Overflow, ValueError}"
  using safe_metric_fold [OF assms(1-3), of hash64] assms(4) by (simp add: arith_errors_def)

definition sample_pick :: "decimal \<Rightarrow> row" where
  "sample_pick q = \<lparr>cols = (\<lambda>n. VNone)(''method'' := VStr ''ConfirmPickLine'', ''quantity'' := VDec q, ''status'' := VStr ''success'',
     ''quantity_classification'' := VStr ''pick'', ''event_time'' := VTime 1000), bag = None\<rparr>"

theorem validated_metric_folds_without_type_error_witness:
  "metric_fold (\<lambda>s. 0) [sample_pick (Fin False 30 0), sample_pick (NaN True)] consumption = Inl InvalidOperation
   \<and> InvalidOperation \<in> {InvalidOperation, Overflow, ValueError}"
proof -
  have v: "validate consumption [] (\<lambda>k. None) = []" by code_simp
  have c: "list_all clocked [sample_pick (Fin False 30 0), sample_pick (NaN True)]" by code_simp
  have d: "distinct (map m_name (d_measures consumption))" by code_simp
  have f: "metric_fold (\<lambda>s. 0) [sample_pick (Fin False 30 0), sample_pick (NaN True)] consumption = Inl InvalidOperation"
    by code_simp
  show ?thesis using validated_metric_folds_without_type_error [OF v d c f] f by blast
qed

text \<open>Validation does not ask for different names: a count and a sum of one name pass it, and the fold raises.\<close>

definition twice_named :: metric where
  "twice_named = consumption\<lparr>d_measures := [plain_measure ''n'' Agg_count None [] [], plain_measure ''n'' Agg_sum (Some ''quantity'') [] []]\<rparr>"

lemma twice_named_raises:
  "validate twice_named [] (\<lambda>k. None) = []" "metric_fold (\<lambda>s. 0) [sample_pick (Fin False 30 0)] twice_named = Inl TypeError"
  by code_simp+

end
