(* ===== verification/MetricProperties.thy ===== *)
theory MetricProperties
  imports MetricTypes
begin

text \<open>
  What a fold computes. \<open>stats_of\<close> is the specification: the exact statistics of the contributions of a measure, in
  rational arithmetic. \<open>meaning\<close> reads a bucket as such statistics. The fold of rows has the statistics of their
  contributions, and \<open>add_roles\<close> merges statistics as if the rows had been folded together, as long as the numbers
  lie on a grid of \<open>k\<close> decimal places on which no sum needs more than 28 digits.
\<close>

subsection \<open>The specification\<close>

datatype contribution = Value "decimal option" "string option" | Key string

definition row_moment :: "row \<Rightarrow> string option" where
  "row_moment r = (case cols r ''event_time'' of VTime t \<Rightarrow> Some (iso_utc t) | _ \<Rightarrow> None)"

definition contribution :: "metric \<Rightarrow> measure \<Rightarrow> row \<Rightarrow> contribution option" where
  "contribution d m r =
     (if \<not> contributes r d m then None
      else if m_agg m = Agg_distinct
      then (case distinct_key (resolve_field r (the_name (m_field m))) of Inr k \<Rightarrow> map_option Key k | Inl e \<Rightarrow> None)
      else (case measured r m of Inr (Some v) \<Rightarrow> Some (Value v (row_moment r)) | _ \<Rightarrow> None))"

definition contributions :: "metric \<Rightarrow> measure \<Rightarrow> row list \<Rightarrow> contribution list" where
  "contributions d m rows = List.map_filter (contribution d m) rows"

fun c_value :: "contribution \<Rightarrow> rat option" where
  "c_value (Value v t) = map_option dec_val v"
| "c_value (Key k) = None"

fun c_key :: "contribution \<Rightarrow> string option" where
  "c_key (Value v t) = None"
| "c_key (Key k) = Some k"

fun c_reading :: "contribution \<Rightarrow> (string \<times> rat option) option" where
  "c_reading (Value v t) = map_option (\<lambda>moment. (moment, map_option dec_val v)) t"
| "c_reading (Key k) = None"

definition values_of :: "contribution list \<Rightarrow> rat list" where
  "values_of cs = List.map_filter c_value cs"

definition keys_of :: "contribution list \<Rightarrow> string list" where
  "keys_of cs = List.map_filter c_key cs"

definition readings_of :: "contribution list \<Rightarrow> (string \<times> rat option) list" where
  "readings_of cs = List.map_filter c_reading cs"

record role_stats =
  s_sum :: "rat option"
  s_count :: "int option"
  s_sum_sq :: "rat option"
  s_min :: "rat option option"
  s_max :: "rat option option"
  s_hist :: "nat list option"
  s_sketch :: "nat list option"
  s_latest :: "(string \<times> rat option) option option"

definition extreme_of :: "(rat set \<Rightarrow> rat) \<Rightarrow> rat list \<Rightarrow> rat option" where
  "extreme_of f xs = (if xs = [] then None else Some (f (set xs)))"

definition band_counts :: "rat list \<Rightarrow> nat list" where
  "band_counts xs = map (\<lambda>i. length (filter (\<lambda>v. band_of (fl v) = i) xs)) [0..<bands]"

definition latest_of :: "(string \<times> rat option) list \<Rightarrow> (string \<times> rat option) option" where
  "latest_of rs = foldl later None (map Some rs)"

definition stats_of :: "(string \<Rightarrow> 64 word) \<Rightarrow> measure \<Rightarrow> contribution list \<Rightarrow> role_stats" where
  "stats_of hash64 m cs =
     (let v = roles_for (m_agg m); xs = values_of cs in
      \<lparr>s_sum = role_value v Sum_value (sum_list xs), s_count = role_value v Count_value (int (length cs)),
       s_sum_sq = role_value v Sum_sq (sum_list (map (\<lambda>x. x * x) xs)),
       s_min = role_value v Min_value (extreme_of Min xs), s_max = role_value v Max_value (extreme_of Max xs),
       s_hist = role_value v Histogram (band_counts xs),
       s_sketch = role_value v Distinct_sketch (hll_from_values hash64 (keys_of cs)),
       s_latest = role_value v Latest (latest_of (readings_of cs))\<rparr>)"

subsection \<open>Summaries that merge\<close>

text \<open>A role is a summary of a list that a merge can put together; its cascade then is one summary.\<close>

locale mergeable =
  fixes summary :: "'x list \<Rightarrow> 'a" and merge :: "'a \<Rightarrow> 'a \<Rightarrow> 'a"
  assumes summary_append: "summary (xs @ ys) = merge (summary xs) (summary ys)"
begin

lemma summary_snoc: "summary (xs @ [x]) = merge (summary xs) (summary [x])"
  by (rule summary_append)

lemma summary_concat: "summary (xs @ concat xss) = foldl merge (summary xs) (map summary xss)"
proof (induction xss arbitrary: xs)
  case (Cons ys xss)
  then show ?case using Cons [of "xs @ ys"] by (simp add: summary_append [of xs ys])
qed simp

end

definition opt_merge :: "('a \<Rightarrow> 'a \<Rightarrow> 'a) \<Rightarrow> 'a option \<Rightarrow> 'a option \<Rightarrow> 'a option" where
  "opt_merge f x y = (case x of None \<Rightarrow> y | Some a \<Rightarrow> (case y of None \<Rightarrow> x | Some b \<Rightarrow> Some (f a b)))"

lemma opt_merge_simps [simp]:
  "opt_merge f None y = y" "opt_merge f x None = x" "opt_merge f (Some a) (Some b) = Some (f a b)"
  by (simp_all add: opt_merge_def split: option.splits)

lemma opt_merge_role [simp]: "opt_merge f (role_value v r x) (role_value v r y) = role_value v r (f x y)"
  by (simp add: role_value_def)

interpretation total: mergeable "sum_list :: rat list \<Rightarrow> rat" "(+)"
  by unfold_locales simp

lemma extreme_append:
  "xs \<noteq> [] \<Longrightarrow> ys \<noteq> [] \<Longrightarrow> Min (set (xs @ ys)) = min (Min (set xs)) (Min (set ys :: rat set))"
  "xs \<noteq> [] \<Longrightarrow> ys \<noteq> [] \<Longrightarrow> Max (set (xs @ ys)) = max (Max (set xs)) (Max (set ys :: rat set))"
  by (simp_all add: Min_Un Max_Un)

interpretation lowest: mergeable "extreme_of Min" "opt_merge min"
  by unfold_locales (simp add: extreme_of_def extreme_append del: set_append)

interpretation highest: mergeable "extreme_of Max" "opt_merge max"
  by unfold_locales (simp add: extreme_of_def extreme_append del: set_append)

lemma length_band_counts [simp]: "length (band_counts xs) = bands"
  by (simp add: band_counts_def)

lemma add_histograms_nth: "length h = n \<Longrightarrow> length g = n \<Longrightarrow> add_histograms h g = map (\<lambda>i. h ! i + g ! i) [0..<n]"
  by (auto simp: add_histograms_def histogram_at_def intro!: nth_equalityI)

interpretation band_roll: mergeable band_counts add_histograms
  by unfold_locales (auto simp: add_histograms_nth [of _ bands] intro!: nth_equalityI simp: band_counts_def)

interpretation sketch_roll: mergeable "hll_from_values hash64" hll_union
  by unfold_locales (rule hll_from_values_append)

lemma later_simps [simp]: "later None y = y" "later x None = x"
  by (simp_all add: later_def split: option.splits)

lemma later_assoc: "later (later x y) z = later x (later y z)"
  by (auto simp: later_def split: option.splits)

lemma foldl_later: "foldl later x ys = later x (foldl later None ys)"
proof (induction ys arbitrary: x)
  case (Cons y ys)
  have "foldl later x (y # ys) = later (later x y) (foldl later None ys)" using Cons [of "later x y"] by simp
  also have "\<dots> = later x (foldl later None (y # ys))" using Cons [of y] by (simp add: later_assoc)
  finally show ?case .
qed simp

interpretation latest_roll: mergeable latest_of later
  by unfold_locales (simp add: latest_of_def foldl_later [of "foldl later None (map Some _)"])

definition merge_role_stats :: "role_stats \<Rightarrow> role_stats \<Rightarrow> role_stats" where
  "merge_role_stats a b =
     \<lparr>s_sum = opt_merge (+) (s_sum a) (s_sum b), s_count = opt_merge (+) (s_count a) (s_count b),
      s_sum_sq = opt_merge (+) (s_sum_sq a) (s_sum_sq b), s_min = opt_merge (opt_merge min) (s_min a) (s_min b),
      s_max = opt_merge (opt_merge max) (s_max a) (s_max b), s_hist = opt_merge add_histograms (s_hist a) (s_hist b),
      s_sketch = opt_merge hll_union (s_sketch a) (s_sketch b), s_latest = opt_merge later (s_latest a) (s_latest b)\<rparr>"

lemma map_filter_append: "List.map_filter f (xs @ ys) = List.map_filter f xs @ List.map_filter f ys"
  by (simp add: List.map_filter_def)

interpretation stats_roll: mergeable "stats_of hash64 m" merge_role_stats
  by unfold_locales
    (simp add: stats_of_def merge_role_stats_def Let_def values_of_def keys_of_def readings_of_def map_filter_append
      lowest.summary_append highest.summary_append band_roll.summary_append sketch_roll.summary_append
      latest_roll.summary_append)

subsection \<open>Reading a role_bucket as statistics\<close>

fun num_dec :: "number \<Rightarrow> decimal" where
  "num_dec (PInt i) = Fin (i < 0) \<bar>i\<bar> 0"
| "num_dec (PDec d) = d"

definition num_val :: "number \<Rightarrow> rat" where
  "num_val n = dec_val (num_dec n)"

definition meaning :: "role_bucket \<Rightarrow> role_stats" where
  "meaning b =
     \<lparr>s_sum = map_option num_val (b_sum b), s_count = b_count b, s_sum_sq = map_option num_val (b_sum_sq b),
      s_min = map_option (map_option dec_val) (b_min b), s_max = map_option (map_option dec_val) (b_max b),
      s_hist = b_hist b, s_sketch = b_sketch b,
      s_latest = map_option (map_option (map_prod id (map_option dec_val))) (b_latest b)\<rparr>"

text \<open>Buckets whose sums are exact: on a grid of \<open>k\<close> decimal places, at most \<open>A\<close> and \<open>Q\<close> units large.\<close>

definition exact_bucket :: "nat \<Rightarrow> int \<Rightarrow> int \<Rightarrow> role_bucket \<Rightarrow> bool" where
  "exact_bucket k A Q b \<longleftrightarrow>
     pred_option (\<lambda>n. on_grid k A (num_dec n)) (b_sum b) \<and> pred_option (\<lambda>n. on_grid (2 * k) Q (num_dec n)) (b_sum_sq b)
     \<and> pred_option (pred_option finite_dec) (b_min b) \<and> pred_option (pred_option finite_dec) (b_max b)
     \<and> pred_option (\<lambda>h. length h = bands) (b_hist b) \<and> pred_option (\<lambda>sk. length sk = hll_registers) (b_sketch b)"

lemma num_add_exact:
  assumes "on_grid k A (num_dec x)" and "on_grid k B (num_dec y)" and "A + B < 10 ^ 28" and "k \<le> 1000026"
  shows "\<exists>r. num_add x y = Inr r \<and> on_grid k (A + B) (num_dec r) \<and> num_val r = num_val x + num_val y"
proof -
  obtain r where r: "dec_add (num_dec x) (num_dec y) = Inr r" "on_grid k (A + B) r" "dec_val r = num_val x + num_val y"
    using dec_add_on_grid [OF assms] by (auto simp: num_val_def)
  show ?thesis
  proof (cases "\<exists>i j. x = PInt i \<and> y = PInt j")
    case True
    then obtain i j where ij: "x = PInt i" "y = PInt j" by blast
    have v: "num_val (PInt n) = of_int n" for n by (simp add: num_val_def)
    have "on_grid k (A + B) (num_dec (PInt (i + j)))"
    proof -
      obtain s c e z where "r = Fin s c e" "dec_val r * 10 ^ k = of_int z" "\<bar>z\<bar> \<le> A + B" using r(2) by (elim on_gridE)
      moreover have "dec_val r = dec_val (num_dec (PInt (i + j)))" using r(3) v [of "i + j"] by (simp add: ij v num_val_def [symmetric])
      ultimately show ?thesis by (intro on_gridI [of "num_dec (PInt (i + j))" "i + j < 0" "\<bar>i + j\<bar>" 0 k z]) auto
    qed
    then show ?thesis by (simp add: ij v)
  next
    case False
    then have "num_add x y = Inr (PDec r)" using r(1) by (cases x; cases y) (simp_all add: andthen_def)
    then show ?thesis using r by (simp add: num_val_def)
  qed
qed

lemma num_val_simps [simp]: "num_val (PDec d) = dec_val d"
  by (simp add: num_val_def)

lemma count_band_add: "length h = bands \<Longrightarrow> b < bands \<Longrightarrow> count_band h b = add_histograms h (map (\<lambda>i. if b = i then 1 else 0) [0..<bands])"
  by (auto simp: add_histograms_nth [of _ bands] count_band_def Let_def nth_list_update intro!: nth_equalityI)

lemma decimal_band_finite: "finite_dec x \<Longrightarrow> decimal_band x = Inr (band_of (fl (dec_val x)))"
  by (cases x) simp_all

text \<open>Each role observes one value as a merge with the statistics of that value.\<close>

lemma observe_sum_exact:
  assumes "pred_option (\<lambda>n. on_grid k A (num_dec n)) (b_sum b)" and "on_grid k N x" and "A + N < 10 ^ 28" and "k \<le> 1000026"
  shows "\<exists>s. observe_sum (Some x) b = Inr (b\<lparr>b_sum := s\<rparr>) \<and> pred_option (\<lambda>n. on_grid k (A + N) (num_dec n)) s
    \<and> map_option num_val s = map_option (\<lambda>n. num_val n + dec_val x) (b_sum b)"
proof (cases "b_sum b")
  case (Some n)
  then obtain r where "num_add n (PDec x) = Inr r" "on_grid k (A + N) (num_dec r)" "num_val r = num_val n + dec_val x"
    using num_add_exact [of k A n N "PDec x"] assms by auto
  then show ?thesis using Some by (intro exI [of _ "Some r"]) (simp add: observe_sum_def with_value_def andthen_def)
qed (auto simp: observe_sum_def intro!: exI [of _ None])

lemma observe_sum_sq_exact:
  assumes "pred_option (\<lambda>n. on_grid (2 * k) Q (num_dec n)) (b_sum_sq b)" and "on_grid k N x" and "Q + N * N < 10 ^ 28"
    and "0 \<le> Q" and "2 * k \<le> 1000026"
  shows "\<exists>s. observe_sum_sq (Some x) b = Inr (b\<lparr>b_sum_sq := s\<rparr>) \<and> pred_option (\<lambda>n. on_grid (2 * k) (Q + N * N) (num_dec n)) s
    \<and> map_option num_val s = map_option (\<lambda>n. num_val n + dec_val x * dec_val x) (b_sum_sq b)"
proof (cases "b_sum_sq b")
  case (Some n)
  obtain sq where sq: "dec_mul x x = Inr sq" "on_grid (2 * k) (N * N) sq" "dec_val sq = dec_val x * dec_val x"
    using dec_mul_on_grid [of k N x N x] assms by auto
  then obtain r where "num_add n (PDec sq) = Inr r" "on_grid (2 * k) (Q + N * N) (num_dec r)" "num_val r = num_val n + dec_val sq"
    using num_add_exact [of "2 * k" Q n "N * N" "PDec sq"] assms Some by auto
  then show ?thesis using Some sq by (intro exI [of _ "Some r"]) (simp add: observe_sum_sq_def with_value_def andthen_def)
qed (auto simp: observe_sum_sq_def intro!: exI [of _ None])

lemma pick_extreme_exact:
  assumes "\<And>y. finite_dec y \<Longrightarrow> \<exists>r. f y x = Inr r \<and> finite_dec r \<and> dec_val r = g (dec_val y) (dec_val x)"
    and "pred_option finite_dec cur" and "finite_dec x"
  shows "\<exists>r. pick_extreme f cur (Some x) = Inr (Some r) \<and> finite_dec r
    \<and> Some (dec_val r) = opt_merge g (map_option dec_val cur) (Some (dec_val x))"
  using assms by (cases cur) (fastforce simp: pick_extreme_def with_value_def andthen_def)+

lemma observe_min_exact:
  assumes "pred_option (pred_option finite_dec) (b_min b)" and "finite_dec x"
  shows "\<exists>s. observe_min (Some x) b = Inr (b\<lparr>b_min := s\<rparr>) \<and> pred_option (pred_option finite_dec) s
    \<and> map_option (map_option dec_val) s = map_option (\<lambda>c. opt_merge min (map_option dec_val c) (Some (dec_val x))) (b_min b)"
proof (cases "b_min b")
  case (Some c)
  then obtain r where "pick_extreme dec_min c (Some x) = Inr (Some r)" "finite_dec r"
    "Some (dec_val r) = opt_merge min (map_option dec_val c) (Some (dec_val x))"
    using pick_extreme_exact [of dec_min x min c] dec_min_finite [of _ x] assms by auto
  then show ?thesis using Some by (intro exI [of _ "Some (Some r)"]) (simp add: observe_min_def andthen_def)
qed (auto simp: observe_min_def intro!: exI [of _ None])

lemma observe_max_exact:
  assumes "pred_option (pred_option finite_dec) (b_max b)" and "finite_dec x"
  shows "\<exists>s. observe_max (Some x) b = Inr (b\<lparr>b_max := s\<rparr>) \<and> pred_option (pred_option finite_dec) s
    \<and> map_option (map_option dec_val) s = map_option (\<lambda>c. opt_merge max (map_option dec_val c) (Some (dec_val x))) (b_max b)"
proof (cases "b_max b")
  case (Some c)
  then obtain r where "pick_extreme dec_max c (Some x) = Inr (Some r)" "finite_dec r"
    "Some (dec_val r) = opt_merge max (map_option dec_val c) (Some (dec_val x))"
    using pick_extreme_exact [of dec_max x max c] dec_max_finite [of _ x] assms by auto
  then show ?thesis using Some by (intro exI [of _ "Some (Some r)"]) (simp add: observe_max_def andthen_def)
qed (auto simp: observe_max_def intro!: exI [of _ None])

lemma observe_hist_exact:
  assumes "pred_option (\<lambda>h. length h = bands) (b_hist b)" and "finite_dec x"
  shows "observe_hist (Some x) b = Inr (b\<lparr>b_hist := map_option (\<lambda>h. add_histograms h (band_counts [dec_val x])) (b_hist b)\<rparr>)"
proof (cases "b_hist b")
  case (Some h)
  then have "count_band h (band_of (fl (dec_val x))) = add_histograms h (band_counts [dec_val x])"
    using assms(1) band_of_less count_band_add by (auto simp: band_counts_def intro!: arg_cong2 [where f = add_histograms])
  then show ?thesis using Some by (simp add: observe_hist_def with_value_def decimal_band_finite assms(2) andthen_def)
qed (simp add: observe_hist_def)

lemma observe_latest_exact:
  assumes "clocked r"
  shows "\<exists>s. observe_latest r (Some x) b = Inr (b\<lparr>b_latest := s\<rparr>)
    \<and> map_option (map_option (map_prod id (map_option dec_val))) s
      = map_option (\<lambda>c. later (map_option (map_prod id (map_option dec_val)) c) (map_option (\<lambda>t. (t, Some (dec_val x))) (row_moment r)))
          (b_latest b)"
proof (cases "b_latest b")
  case None
  then show ?thesis by (intro exI [of _ None]) (simp add: observe_latest_def)
next
  case (Some c)
  show ?thesis
  proof (cases "cols r ''event_time''")
    case VNone
    then show ?thesis using Some by (intro exI [of _ "Some c"]) (simp add: observe_latest_def row_moment_def)
  next
    case (VTime t)
    have "map_option (map_prod id (map_option dec_val)) (later c (Some (iso_utc t, Some x)))
        = later (map_option (map_prod id (map_option dec_val)) c) (Some (iso_utc t, Some (dec_val x)))"
      by (cases c) (auto simp: later_def)
    then show ?thesis using Some VTime
      by (intro exI [of _ "Some (later c (Some (iso_utc t, Some x)))"]) (simp add: observe_latest_def row_moment_def)
  qed (use assms in \<open>simp_all add: clocked_def\<close>)
qed

lemma merge_with_role:
  "has_role m r x \<Longrightarrow> opt_merge f (map_option g x) (role_value (roles_for (m_agg m)) r y) = map_option (\<lambda>n. f (g n) y) x"
  by (cases x) (simp_all add: role_value_def)

lemmas merge_with_role_id = merge_with_role [where g = "\<lambda>x. x", simplified option.map_ident]

lemma exact_bucket_count [simp]: "exact_bucket k A Q (observe_count b) = exact_bucket k A Q b"
  by (simp add: exact_bucket_def observe_count_def)

lemma exact_bucket_mono: "exact_bucket k A Q b \<Longrightarrow> A \<le> A' \<Longrightarrow> Q \<le> Q' \<Longrightarrow> exact_bucket k A' Q' b"
  by (cases "b_sum b"; cases "b_sum_sq b") (auto simp: exact_bucket_def intro: on_grid_mono)

definition small_sums :: "nat \<Rightarrow> int \<Rightarrow> int \<Rightarrow> bool" where
  "small_sums k A Q \<longleftrightarrow> int k \<le> 500000 \<and> A < 10 ^ 28 \<and> Q < 10 ^ 28"

lemma observe_value_exact:
  assumes b: "shaped m b" "exact_bucket k A Q b" and x: "on_grid k N x" and r: "clocked r"
    and small: "small_sums k (A + N) (Q + N * N)" "0 \<le> Q" and agg: "m_agg m \<noteq> Agg_distinct"
  shows "\<exists>b'. observe_value r (Some x) b = Inr b' \<and> exact_bucket k (A + N) (Q + N * N) b'
    \<and> meaning b' = merge_role_stats (meaning b) (stats_of hash64 m [Value (Some x) (row_moment r)])"
proof -
  note small = small [unfolded small_sums_def]
  have fin: "finite_dec x" using x by (rule on_grid_finite)
  let ?c = "observe_count b"
  have c: "b_sum ?c = b_sum b" "b_sum_sq ?c = b_sum_sq b" "b_min ?c = b_min b" "b_max ?c = b_max b" "b_hist ?c = b_hist b"
    "b_latest ?c = b_latest b" "b_sketch ?c = b_sketch b" "b_count ?c = map_option (\<lambda>n. n + 1) (b_count b)"
    by (simp_all add: observe_count_def)
  note e = b(2) [unfolded exact_bucket_def]
  obtain s where s: "observe_sum (Some x) ?c = Inr (?c\<lparr>b_sum := s\<rparr>)" "pred_option (\<lambda>n. on_grid k (A + N) (num_dec n)) s"
    "map_option num_val s = map_option (\<lambda>n. num_val n + dec_val x) (b_sum b)"
    using observe_sum_exact [of k A ?c N x] e x small c by auto
  let ?c1 = "?c\<lparr>b_sum := s\<rparr>"
  obtain q where q: "observe_sum_sq (Some x) ?c1 = Inr (?c1\<lparr>b_sum_sq := q\<rparr>)"
    "pred_option (\<lambda>n. on_grid (2 * k) (Q + N * N) (num_dec n)) q"
    "map_option num_val q = map_option (\<lambda>n. num_val n + dec_val x * dec_val x) (b_sum_sq b)"
    using observe_sum_sq_exact [of k Q ?c1 N x] e x small c by auto
  let ?c2 = "?c1\<lparr>b_sum_sq := q\<rparr>"
  obtain lo where lo: "observe_min (Some x) ?c2 = Inr (?c2\<lparr>b_min := lo\<rparr>)" "pred_option (pred_option finite_dec) lo"
    "map_option (map_option dec_val) lo = map_option (\<lambda>c. opt_merge min (map_option dec_val c) (Some (dec_val x))) (b_min b)"
    using observe_min_exact [of ?c2 x] e fin c by auto
  let ?c3 = "?c2\<lparr>b_min := lo\<rparr>"
  obtain hi where hi: "observe_max (Some x) ?c3 = Inr (?c3\<lparr>b_max := hi\<rparr>)" "pred_option (pred_option finite_dec) hi"
    "map_option (map_option dec_val) hi = map_option (\<lambda>c. opt_merge max (map_option dec_val c) (Some (dec_val x))) (b_max b)"
    using observe_max_exact [of ?c3 x] e fin c by auto
  let ?c4 = "?c3\<lparr>b_max := hi\<rparr>"
  define h where "h = map_option (\<lambda>h. add_histograms h (band_counts [dec_val x])) (b_hist b)"
  have hist: "observe_hist (Some x) ?c4 = Inr (?c4\<lparr>b_hist := h\<rparr>)"
    using observe_hist_exact [of ?c4 x] e fin c by (simp add: h_def)
  let ?c5 = "?c4\<lparr>b_hist := h\<rparr>"
  obtain l where l: "observe_latest r (Some x) ?c5 = Inr (?c5\<lparr>b_latest := l\<rparr>)"
    "map_option (map_option (map_prod id (map_option dec_val))) l
      = map_option (\<lambda>c. later (map_option (map_prod id (map_option dec_val)) c) (map_option (\<lambda>t. (t, Some (dec_val x))) (row_moment r)))
          (b_latest b)"
    using observe_latest_exact [OF r, of x ?c5] c by auto
  let ?b' = "?c5\<lparr>b_latest := l\<rparr>"
  have run: "observe_value r (Some x) b = Inr ?b'"
    by (simp add: observe_value_def andthen_def s(1) q(1) lo(1) hi(1) hist l(1))
  have exact: "exact_bucket k (A + N) (Q + N * N) ?b'"
    using s(2) q(2) lo(2) hi(2) e c by (cases "b_hist b") (auto simp: exact_bucket_def h_def add_histograms_nth [of _ bands])
  have sk: "b_sketch b = None" using b(1) agg by (cases "m_agg m") (auto simp: shaped_def has_role_def)
  have no_sketch: "role_value (roles_for (m_agg m)) Distinct_sketch y = None" for y :: "nat list"
    using agg by (cases "m_agg m") (simp_all add: role_value_def)
  have "meaning ?b' = merge_role_stats (meaning b) (stats_of hash64 m [Value (Some x) (row_moment r)])"
    using b(1) agg sk
    by (simp add: no_sketch meaning_def merge_role_stats_def stats_of_def Let_def s(3) q(3) lo(3) hi(3) l(2) c h_def shaped_def
        merge_with_role merge_with_role_id values_of_def readings_of_def keys_of_def List.map_filter_def extreme_of_def
        latest_of_def option.map_comp comp_def)
  then show ?thesis using run exact by blast
qed

lemma observe_key_exact:
  assumes b: "shaped m b" "exact_bucket k A Q b" and agg: "m_agg m = Agg_distinct" and f: "m_field m = Some f"
    and key: "distinct_key (resolve_field r f) = Inr (Some key)" and sk: "b_sketch b = Some sk"
  shows "\<exists>b'. observe_key hash64 r m sk b = Inr b' \<and> exact_bucket k A Q b' \<and> meaning b' = merge_role_stats (meaning b) (stats_of hash64 m [Key key])"
proof -
  have len: "length sk = hll_registers" using b(2) sk by (simp add: exact_bucket_def)
  have add: "hll_add hash64 sk key = hll_union sk (hll_from_values hash64 [key])"
    using len hll_union_observe [of sk hll_empty hash64 key] by (simp add: hll_add_observe hll_from_values_def)
  have none: "b_sum b = None" "b_sum_sq b = None" "b_min b = None" "b_max b = None" "b_hist b = None" "b_latest b = None"
    using b(1) agg by (auto simp: shaped_def has_role_def)
  obtain n where n: "b_count b = Some n" using b(1) agg by (auto simp: shaped_def has_role_def)
  let ?b' = "observe_count (b\<lparr>b_sketch := Some (hll_add hash64 sk key)\<rparr>)"
  have "observe_key hash64 r m sk b = Inr ?b'" by (simp add: observe_key_def f key andthen_def)
  moreover have "exact_bucket k A Q ?b'" using b(2) len by (simp add: exact_bucket_def observe_count_def hll_add_observe)
  moreover have "meaning ?b' = merge_role_stats (meaning b) (stats_of hash64 m [Key key])"
    by (simp add: meaning_def merge_role_stats_def stats_of_def Let_def none n sk agg role_value_def keys_of_def List.map_filter_def
        add observe_count_def)
  ultimately show ?thesis by blast
qed

subsection \<open>Rows the fold reads exactly\<close>

text \<open>A row whose value, when it has one, lies on the grid.\<close>

definition exact_row :: "nat \<Rightarrow> int \<Rightarrow> metric \<Rightarrow> measure \<Rightarrow> row \<Rightarrow> bool" where
  "exact_row k N d m r \<longleftrightarrow> clocked r \<and> (contributes r d m \<longrightarrow>
     (if m_agg m = Agg_distinct
      then (case distinct_key (resolve_field r (the_name (m_field m))) of Inl e \<Rightarrow> False | Inr x \<Rightarrow> True)
      else (case measured r m of
              Inl e \<Rightarrow> False
            | Inr x \<Rightarrow> (case x of Some (Some v) \<Rightarrow> on_grid k N v | _ \<Rightarrow> True))))"

definition step :: "(string \<Rightarrow> 64 word) \<Rightarrow> metric \<Rightarrow> measure \<Rightarrow> row \<Rightarrow> role_bucket \<Rightarrow> role_bucket result" where
  "step hash64 d m r b = (if contributes r d m then observe_row hash64 r m b else Inr b)"

lemma merge_no_contribution: "shaped m b \<Longrightarrow> exact_bucket k A Q b \<Longrightarrow> merge_role_stats (meaning b) (stats_of hash64 m []) = meaning b"
proof -
  assume b: "shaped m b" "exact_bucket k A Q b"
  have h: "map_option (\<lambda>h. add_histograms h (band_counts [])) (b_hist b) = b_hist b"
    using b(2) by (cases "b_hist b") (auto simp: exact_bucket_def add_histograms_nth [of _ bands] band_counts_def intro!: nth_equalityI)
  have sk: "hll_from_values hash64 [] = hll_empty" by (simp add: hll_from_values_def)
  show ?thesis using b(1)
    by (simp add: meaning_def merge_role_stats_def stats_of_def Let_def shaped_def merge_with_role merge_with_role_id values_of_def
        readings_of_def keys_of_def List.map_filter_def extreme_of_def latest_of_def h sk option.map_ident option.map_comp comp_def)
qed

lemma observe_exact:
  assumes b: "shaped m b" "exact_bucket k A Q b" and m: "well_typed m" and r: "exact_row k N d m r"
    and small: "small_sums k (A + N) (Q + N * N)" "0 \<le> Q" "0 \<le> N"
  shows "\<exists>b'. step hash64 d m r b = Inr b' \<and> shaped m b' \<and> exact_bucket k (A + N) (Q + N * N) b'
    \<and> meaning b' = merge_role_stats (meaning b) (stats_of hash64 m (contributions d m [r]))"
proof -
  have grow: "exact_bucket k (A + N) (Q + N * N) x" if "exact_bucket k A Q x" for x
    using that small(3) by (elim exact_bucket_mono) auto
  note keep = grow [OF b(2)]
  have skip: "contribution d m r = None \<Longrightarrow> merge_role_stats (meaning b) (stats_of hash64 m (contributions d m [r])) = meaning b"
    using merge_no_contribution [OF b] by (simp add: contributions_def List.map_filter_def)
  have one: "contribution d m r = Some c \<Longrightarrow> contributions d m [r] = [c]" for c
    by (simp add: contributions_def List.map_filter_def)
  have clock: "clocked r" using r by (simp add: exact_row_def)
  have shape: "shaped m b'" if "step hash64 d m r b = Inr b'" for b'
    using safe_observe_row [OF m b(1) clock, of hash64] that b(1) by (auto simp: step_def split: if_splits)
  have "\<exists>b'. step hash64 d m r b = Inr b' \<and> exact_bucket k (A + N) (Q + N * N) b'
    \<and> meaning b' = merge_role_stats (meaning b) (stats_of hash64 m (contributions d m [r]))"
  proof (cases "contributes r d m")
    case False
    then show ?thesis using skip keep by (simp add: step_def contribution_def)
  next
    case con: True
    show ?thesis
    proof (cases "m_agg m = Agg_distinct")
      case True
      then obtain f where f: "m_field m = Some f" using m by (auto simp: well_typed_def given_def split: option.splits)
      obtain sk where sk: "b_sketch b = Some sk" using b(1) True by (auto simp: shaped_def has_role_def)
      obtain key where key: "distinct_key (resolve_field r f) = Inr key"
        using r con True f by (auto simp: exact_row_def the_name_def split: sum.splits)
      show ?thesis
      proof (cases key)
        case None
        then show ?thesis using con True f sk key skip keep
          by (simp add: step_def observe_row_def observe_key_def andthen_def contribution_def the_name_def)
      next
        case (Some t)
        then have "contribution d m r = Some (Key t)" using con True f key by (simp add: contribution_def the_name_def)
        then show ?thesis
          using observe_key_exact [OF b True f key [unfolded Some] sk, of hash64] con sk one grow
          by (auto simp: step_def observe_row_def)
      qed
    next
      case False
      then have nosk: "b_sketch b = None" using b(1) by (cases "m_agg m") (auto simp: shaped_def has_role_def)
      obtain x where x: "measured r m = Inr x" using r con False by (auto simp: exact_row_def split: sum.splits)
      consider "x = None" | "x = Some None" | v where "x = Some (Some v)" by (cases x) auto
      then show ?thesis
      proof cases
        case 1
        then show ?thesis using con False nosk x skip keep by (simp add: step_def observe_row_def andthen_def contribution_def)
      next
        case 2
        then have agg: "m_agg m = Agg_count" using safe_measured [OF m, of r] x by (simp add: fits_def)
        have c: "contribution d m r = Some (Value None (row_moment r))" using con False x 2 by (simp add: contribution_def)
        have "step hash64 d m r b = Inr (observe_count b)"
          using con nosk x 2 observe_value_count_only [OF b(1) agg] by (simp add: step_def observe_row_def andthen_def)
        moreover have "meaning (observe_count b) = merge_role_stats (meaning b) (stats_of hash64 m [Value None (row_moment r)])"
          using b(1) shaped_count_only [OF b(1) agg] agg nosk
          by (auto simp: meaning_def merge_role_stats_def stats_of_def Let_def observe_count_def role_value_def shaped_def has_role_def)
        ultimately show ?thesis using keep one [OF c] by simp
      next
        case (3 v)
        then have c: "contribution d m r = Some (Value (Some v) (row_moment r))" and v: "on_grid k N v"
          using con False x r by (simp_all add: contribution_def exact_row_def)
        obtain b' where "observe_value r (Some v) b = Inr b'" "exact_bucket k (A + N) (Q + N * N) b'"
          "meaning b' = merge_role_stats (meaning b) (stats_of hash64 m [Value (Some v) (row_moment r)])"
          using observe_value_exact [OF b v clock small(1,2) False] by blast
        then show ?thesis using con nosk x 3 one [OF c] by (simp add: step_def observe_row_def andthen_def)
      qed
    qed
  qed
  then show ?thesis using shape by blast
qed

subsection \<open>One measure over many rows\<close>

lemma fold_result_append: "fold_result f (xs @ ys) s = andthen (fold_result f xs s) (fold_result f ys)"
  by (induction xs arbitrary: s) (auto simp: andthen_def split: sum.splits)

lemma meaning_empty: "meaning (empty_roles m) = stats_of hash64 m []"
  by (simp add: meaning_def empty_roles_def stats_of_def Let_def role_value_def values_of_def keys_of_def readings_of_def
      List.map_filter_def extreme_of_def latest_of_def dec_zero_def band_counts_def empty_histogram_def hll_from_values_def
      map_replicate_const)

lemma exact_empty: "exact_bucket k 0 0 (empty_roles m)"
  by (simp add: exact_bucket_def empty_roles_def Let_def role_value_def dec_zero_def empty_histogram_def)

text \<open>The number of rows times the largest value decides whether the sums stay exact.\<close>

definition fits_rows :: "nat \<Rightarrow> int \<Rightarrow> nat \<Rightarrow> bool" where
  "fits_rows k N n \<longleftrightarrow> 0 \<le> N \<and> small_sums k (int n * N) (int n * (N * N))"

lemma contributions_append: "contributions d m (xs @ ys) = contributions d m xs @ contributions d m ys"
  by (simp add: contributions_def map_filter_append)

lemma fits_rows_mono: "fits_rows k N n \<Longrightarrow> i \<le> n \<Longrightarrow> fits_rows k N i"
proof -
  assume n: "fits_rows k N n" and "i \<le> n"
  then have "int i * N \<le> int n * N" "int i * (N * N) \<le> int n * (N * N)" by (auto simp: fits_rows_def intro!: mult_right_mono)
  then show ?thesis using n by (auto simp: fits_rows_def small_sums_def)
qed

lemma step_rows:
  assumes m: "well_typed m" and rows: "list_all (exact_row k N d m) rows" and fit: "fits_rows k N (length rows)"
  shows "\<exists>b. fold_result (step hash64 d m) rows (empty_roles m) = Inr b \<and> shaped m b
    \<and> exact_bucket k (int (length rows) * N) (int (length rows) * (N * N)) b
    \<and> meaning b = stats_of hash64 m (contributions d m rows)"
  using rows fit
proof (induction rows rule: rev_induct)
  case Nil
  then show ?case using exact_empty meaning_empty by (simp add: contributions_def List.map_filter_def)
next
  case (snoc r rows)
  define n where "n = int (length rows)"
  have N: "0 \<le> N" "0 \<le> n * (N * N)" using snoc.prems(2) by (simp_all add: fits_rows_def n_def)
  have n1: "int (length (rows @ [r])) * x = n * x + x" for x by (simp add: n_def distrib_right)
  have small: "small_sums k (n * N + N) (n * (N * N) + N * N)"
    using snoc.prems(2) unfolding fits_rows_def n1 by blast
  have "fits_rows k N (length rows)" using snoc.prems(2) by (rule fits_rows_mono) simp
  then obtain b where b: "fold_result (step hash64 d m) rows (empty_roles m) = Inr b" "shaped m b" "exact_bucket k (n * N) (n * (N * N)) b"
    "meaning b = stats_of hash64 m (contributions d m rows)"
    using snoc by (auto simp: n_def)
  have r: "exact_row k N d m r" using snoc.prems(1) by simp
  obtain b' where b': "step hash64 d m r b = Inr b'" "shaped m b'" "exact_bucket k (n * N + N) (n * (N * N) + N * N) b'"
    "meaning b' = merge_role_stats (meaning b) (stats_of hash64 m (contributions d m [r]))"
    using observe_exact [OF b(2,3) m r small N(2) N(1), of hash64] by blast
  then show ?case
    using b(1,4) unfolding n1 by (simp add: fold_result_append andthen_def contributions_append stats_roll.summary_append)
qed

subsection \<open>Every measure at once\<close>

text \<open>With different names the buckets do not interfere.\<close>

lemma fold_measures_apart:
  assumes "distinct (map m_name ms)" and "\<And>m. m \<in> set ms \<Longrightarrow> map_of out (m_name m) = Some (B m)"
    and "\<And>m. m \<in> set ms \<Longrightarrow> step hash64 d m r (B m) = Inr (B' m)"
  shows "\<exists>out'. fold_result (fold_measure hash64 d r) ms out = Inr out' \<and> (\<forall>m \<in> set ms. map_of out' (m_name m) = Some (B' m))
    \<and> (\<forall>n. n \<notin> m_name ` set ms \<longrightarrow> map_of out' n = map_of out n) \<and> map fst out' = map fst out"
  using assms
proof (induction ms arbitrary: out)
  case (Cons m ms)
  have m: "map_of out (m_name m) = Some (B m)" "step hash64 d m r (B m) = Inr (B' m)" using Cons.prems by auto
  define out1 where "out1 = (if contributes r d m then AList.update (m_name m) (B' m) out else out)"
  have one: "fold_measure hash64 d r m out = Inr out1"
    using m by (auto simp: fold_measure_def step_def andthen_def out1_def split: if_splits)
  have out1: "map_of out1 (m_name m) = Some (B' m)" "n \<noteq> m_name m \<Longrightarrow> map_of out1 n = map_of out n" "map fst out1 = map fst out" for n
    using m by (auto simp: out1_def step_def dict_simps update_keys split: if_splits) (metis map_of_eq_None_iff option.distinct(1))
  have "map_of out1 (m_name m') = Some (B m')" if "m' \<in> set ms" for m'
    using that Cons.prems(1,2) out1(2) [of "m_name m'"] by (force simp: image_iff)
  then obtain out' where "fold_result (fold_measure hash64 d r) ms out1 = Inr out'" "\<forall>m \<in> set ms. map_of out' (m_name m) = Some (B' m)"
    "\<forall>n. n \<notin> m_name ` set ms \<longrightarrow> map_of out' n = map_of out1 n" "map fst out' = map fst out1"
    using Cons.IH [of out1] Cons.prems(1,3) by auto
  then show ?case using one out1 Cons.prems(1) by (auto simp: andthen_def)
qed simp

lemma fold_rows_apart:
  assumes "distinct (map m_name (d_measures d))" and "\<And>m. m \<in> set (d_measures d) \<Longrightarrow> map_of out (m_name m) = Some (B m)"
    and "\<And>m. m \<in> set (d_measures d) \<Longrightarrow> fold_result (step hash64 d m) rows (B m) = Inr (B' m)"
  shows "\<exists>out'. fold_result (fold_row hash64 d) rows out = Inr out'
    \<and> (\<forall>m \<in> set (d_measures d). map_of out' (m_name m) = Some (B' m)) \<and> map fst out' = map fst out"
  using assms(2,3)
proof (induction rows arbitrary: out B)
  case (Cons r rows)
  define B1 where "B1 m = (case step hash64 d m r (B m) of Inr b \<Rightarrow> b | Inl e \<Rightarrow> B m)" for m
  have s: "step hash64 d m r (B m) = Inr (B1 m)" "fold_result (step hash64 d m) rows (B1 m) = Inr (B' m)"
    if "m \<in> set (d_measures d)" for m
    using Cons.prems(2) [OF that] by (auto simp: B1_def andthen_def split: sum.splits)
  obtain out1 where out1: "fold_row hash64 d r out = Inr out1" "\<forall>m \<in> set (d_measures d). map_of out1 (m_name m) = Some (B1 m)"
    "map fst out1 = map fst out"
    using fold_measures_apart [OF assms(1) Cons.prems(1) s(1)] unfolding fold_row_def by blast
  then show ?case using Cons.IH [of out1 B1] s(2) by (auto simp: andthen_def)
qed auto

lemma keys_empty_fold: "distinct (map m_name (d_measures d)) \<Longrightarrow> map fst (empty_fold d) = map m_name (d_measures d)"
proof -
  have "distinct (map m_name ms) \<Longrightarrow> set (map m_name ms) \<inter> set (map fst out) = {} \<Longrightarrow>
    map fst (fold (\<lambda>m. AList.update (m_name m) (empty_roles m)) ms out) = map fst out @ map m_name ms" for ms and out :: folded
  proof (induction ms arbitrary: out)
    case (Cons m ms)
    define out1 where "out1 = AList.update (m_name m) (empty_roles m) out"
    have k: "map fst out1 = map fst out @ [m_name m]" using Cons.prems(2) by (simp add: out1_def update_keys)
    have "set (map m_name ms) \<inter> set (map fst out1) = {}" using Cons.prems by (auto simp: k simp del: set_map)
    then show ?case using Cons.IH [of out1] Cons.prems(1) k by (simp add: out1_def)
  qed simp
  from this [of "d_measures d" "[]"] show "distinct (map m_name (d_measures d)) \<Longrightarrow> ?thesis" by (simp add: empty_fold_def)
qed

definition folds_exactly :: "nat \<Rightarrow> int \<Rightarrow> metric \<Rightarrow> row list \<Rightarrow> bool" where
  "folds_exactly k N d rows \<longleftrightarrow>
     fits_rows k N (length rows) \<and> list_all (\<lambda>m. list_all (exact_row k N d m) rows) (d_measures d)"

lemma metric_fold_exact:
  assumes "validate d known kinds = []" and dist: "distinct (map m_name (d_measures d))" and "folds_exactly k N d rows"
  shows "\<exists>out B. metric_fold hash64 rows d = Inr out \<and> map fst out = map m_name (d_measures d)
    \<and> (\<forall>m \<in> set (d_measures d). map_of out (m_name m) = Some (B m) \<and> shaped m (B m)
        \<and> exact_bucket k (int (length rows) * N) (int (length rows) * (N * N)) (B m)
        \<and> meaning (B m) = stats_of hash64 m (contributions d m rows))"
proof -
  have "\<forall>m. \<exists>b. m \<in> set (d_measures d) \<longrightarrow> fold_result (step hash64 d m) rows (empty_roles m) = Inr b \<and> shaped m b
      \<and> exact_bucket k (int (length rows) * N) (int (length rows) * (N * N)) b
      \<and> meaning b = stats_of hash64 m (contributions d m rows)"
    using step_rows [OF validated_measure [OF assms(1)], of _ k N d rows hash64] assms(3)
    by (auto simp: folds_exactly_def list_all_iff)
  then obtain B where B: "m \<in> set (d_measures d) \<Longrightarrow> fold_result (step hash64 d m) rows (empty_roles m) = Inr (B m) \<and> shaped m (B m)
      \<and> exact_bucket k (int (length rows) * N) (int (length rows) * (N * N)) (B m)
      \<and> meaning (B m) = stats_of hash64 m (contributions d m rows)" for m
    by metis
  obtain out where "metric_fold hash64 rows d = Inr out" "\<forall>m \<in> set (d_measures d). map_of out (m_name m) = Some (B m)"
    "map fst out = map fst (empty_fold d)"
    using fold_rows_apart [OF dist, of "empty_fold d" empty_roles hash64 rows B] B map_of_empty_fold [OF dist]
    unfolding metric_fold_def by auto
  then show ?thesis using B keys_empty_fold [OF dist] by auto
qed

text \<open>C23: Folding rows with a definition without problems gives, measure by measure, exactly the statistics of the rows
  that contribute: their number, sum, sum of squares, extremes, band counts, sketch and latest reading, as long as
  the values lie on a decimal grid on which no sum needs more than 28 digits.\<close>

theorem fold_computes_the_statistics:
  assumes "validate d known kinds = []" and "distinct (map m_name (d_measures d))" and "folds_exactly k N d rows"
  shows "\<exists>out. metric_fold hash64 rows d = Inr out \<and> map fst out = map m_name (d_measures d)
    \<and> list_all (\<lambda>m. map_option meaning (map_of out (m_name m)) = Some (stats_of hash64 m (contributions d m rows))) (d_measures d)"
  using metric_fold_exact [OF assms, of hash64] by (fastforce simp: list_all_iff)

lemma consumption_valid: "validate consumption [] (\<lambda>k. None) = []" "distinct (map m_name (d_measures consumption))"
  by code_simp+

theorem fold_computes_the_statistics_witness:
  "\<exists>out. metric_fold (\<lambda>s. 0) [sample_pick (Fin False 75 (- 1))] consumption = Inr out
    \<and> map_option s_sum (map_option meaning (map_of out ''quantity'')) = Some (Some (15 / 2))"
proof -
  have e: "folds_exactly 6 1000000000 consumption [sample_pick (Fin False 75 (- 1))]" by code_simp
  have s: "s_sum (stats_of (\<lambda>s. 0) (hd (d_measures consumption))
      (contributions consumption (hd (d_measures consumption)) [sample_pick (Fin False 75 (- 1))]))
      = Some (15 / 2)"
    by code_simp
  have h: "hd (d_measures consumption) \<in> set (d_measures consumption)" "m_name (hd (d_measures consumption)) = ''quantity''"
    by (simp_all add: consumption_def plain_measure_def)
  show ?thesis
    using fold_computes_the_statistics [OF consumption_valid e, of "\<lambda>s. 0"] s h by (auto simp: list_all_iff)
qed

subsection \<open>Merging two folds\<close>

lemma or_zero_exact:
  "on_grid k A (num_dec n) \<Longrightarrow> on_grid k A (num_dec (or_zero (Some n))) \<and> num_val (or_zero (Some n)) = num_val n"
proof (cases "num_truthy n")
  case False
  assume g: "on_grid k A (num_dec n)"
  then obtain s c e z where x: "num_dec n = Fin s c e" "\<bar>z\<bar> \<le> A" by (elim on_gridE)
  then have "dec_val (num_dec n) = 0" using False by (cases n) (auto simp: num_truthy_def)
  then show ?thesis using False x(2) by (simp add: or_zero_def num_val_def)
qed (simp add: or_zero_def)

lemma merge_sum_exact:
  assumes "pred_option (\<lambda>n. on_grid k A (num_dec n)) x" and "pred_option (\<lambda>n. on_grid k B (num_dec n)) y"
    and "x = None \<longleftrightarrow> y = None" and "A + B < 10 ^ 28" and "k \<le> 1000026"
  shows "\<exists>s. merge_role x y (num_add (or_zero x) (or_zero y)) = Inr s \<and> pred_option (\<lambda>n. on_grid k (A + B) (num_dec n)) s
    \<and> map_option num_val s = opt_merge (+) (map_option num_val x) (map_option num_val y)"
proof (cases x)
  case (Some n)
  then obtain n' where y: "y = Some n'" using assms(3) by auto
  obtain r where "num_add (or_zero x) (or_zero y) = Inr r" "on_grid k (A + B) (num_dec r)" "num_val r = num_val n + num_val n'"
    using num_add_exact [of k A "or_zero x" B "or_zero y"] or_zero_exact [of k A n] or_zero_exact [of k B n'] assms Some y by auto
  then show ?thesis using Some y by (intro exI [of _ "Some r"]) (simp add: merge_role_def andthen_def)
qed (use assms(3) in \<open>simp add: merge_role_def\<close>)

lemma merge_extreme_exact:
  assumes "\<And>u v. finite_dec u \<Longrightarrow> finite_dec v \<Longrightarrow> \<exists>r. f u v = Inr r \<and> finite_dec r \<and> dec_val r = g (dec_val u) (dec_val v)"
    and "pred_option (pred_option finite_dec) x" and "pred_option (pred_option finite_dec) y" and "x = None \<longleftrightarrow> y = None"
  shows "\<exists>s. merge_role x y (add_extreme f (flatten x) (flatten y)) = Inr s \<and> pred_option (pred_option finite_dec) s
    \<and> map_option (map_option dec_val) s
      = opt_merge (opt_merge g) (map_option (map_option dec_val) x) (map_option (map_option dec_val) y)"
proof (cases x)
  case (Some u)
  then obtain v where y: "y = Some v" using assms(4) by auto
  have "\<exists>r. add_extreme f u v = Inr r \<and> pred_option finite_dec r
      \<and> map_option dec_val r = opt_merge g (map_option dec_val u) (map_option dec_val v)"
    using assms(1-3) Some y by (cases u; cases v) (fastforce simp: add_extreme_def andthen_def)+
  then show ?thesis using Some y by (fastforce simp: merge_role_def flatten_def andthen_def)
qed (use assms(4) in \<open>simp add: merge_role_def\<close>)

lemma same_roles: "has_role m r x \<Longrightarrow> has_role m r y \<Longrightarrow> x = None \<longleftrightarrow> y = None"
  by (auto simp: has_role_def)

lemma or_list_length: "0 < n \<Longrightarrow> length h = n \<Longrightarrow> or_list d (Some h) = h"
  by (auto simp: or_list_def)

lemma add_roles_exact:
  assumes a: "shaped m a" "exact_bucket k A Q a" and b: "shaped m b" "exact_bucket k A' Q' b"
    and small: "small_sums k (A + A') (Q + Q')"
  shows "\<exists>c. add_roles a b = Inr c \<and> shaped m c \<and> exact_bucket k (A + A') (Q + Q') c
    \<and> meaning c = merge_role_stats (meaning a) (meaning b)"
proof -
  note ea = a(2) [unfolded exact_bucket_def] and eb = b(2) [unfolded exact_bucket_def] and small = small [unfolded small_sums_def]
  note roles = a(1) [unfolded shaped_def] b(1) [unfolded shaped_def]
  obtain s where s: "merge_role (b_sum a) (b_sum b) (num_add (or_zero (b_sum a)) (or_zero (b_sum b))) = Inr s"
    "pred_option (\<lambda>n. on_grid k (A + A') (num_dec n)) s" "map_option num_val s = opt_merge (+) (map_option num_val (b_sum a)) (map_option num_val (b_sum b))"
    using merge_sum_exact [of k A "b_sum a" A' "b_sum b"] ea eb small roles same_roles [of m Sum_value "b_sum a" "b_sum b"] by auto
  obtain q where q: "merge_role (b_sum_sq a) (b_sum_sq b) (num_add (or_zero (b_sum_sq a)) (or_zero (b_sum_sq b))) = Inr q"
    "pred_option (\<lambda>n. on_grid (2 * k) (Q + Q') (num_dec n)) q"
    "map_option num_val q = opt_merge (+) (map_option num_val (b_sum_sq a)) (map_option num_val (b_sum_sq b))"
    using merge_sum_exact [of "2 * k" Q "b_sum_sq a" Q' "b_sum_sq b"] ea eb small roles same_roles [of m Sum_sq "b_sum_sq a" "b_sum_sq b"] by auto
  obtain lo where lo: "merge_role (b_min a) (b_min b) (add_extreme dec_min (flatten (b_min a)) (flatten (b_min b))) = Inr lo"
    "pred_option (pred_option finite_dec) lo"
    "map_option (map_option dec_val) lo = opt_merge (opt_merge min) (map_option (map_option dec_val) (b_min a)) (map_option (map_option dec_val) (b_min b))"
    using merge_extreme_exact [of dec_min min "b_min a" "b_min b"] dec_min_finite ea eb roles same_roles [of m Min_value "b_min a" "b_min b"] by auto
  obtain hi where hi: "merge_role (b_max a) (b_max b) (add_extreme dec_max (flatten (b_max a)) (flatten (b_max b))) = Inr hi"
    "pred_option (pred_option finite_dec) hi"
    "map_option (map_option dec_val) hi = opt_merge (opt_merge max) (map_option (map_option dec_val) (b_max a)) (map_option (map_option dec_val) (b_max b))"
    using merge_extreme_exact [of dec_max max "b_max a" "b_max b"] dec_max_finite ea eb roles same_roles [of m Max_value "b_max a" "b_max b"] by auto
  have c: "merge_role (b_count a) (b_count b) (Inr (or_int (b_count a) + or_int (b_count b))) = Inr (opt_merge (+) (b_count a) (b_count b))"
    using roles same_roles [of m Count_value "b_count a" "b_count b"]
    by (cases "b_count a"; cases "b_count b") (auto simp: merge_role_def or_int_def andthen_def)
  have h: "merge_role (b_hist a) (b_hist b) (Inr (add_histograms (or_list [] (b_hist a)) (or_list [] (b_hist b))))
      = Inr (opt_merge add_histograms (b_hist a) (b_hist b))"
    using roles same_roles [of m Histogram "b_hist a" "b_hist b"] ea eb or_list_length [of bands]
    by (cases "b_hist a"; cases "b_hist b") (auto simp: merge_role_def andthen_def bands_def)
  have sk: "merge_role (b_sketch a) (b_sketch b) (Inr (hll_union (or_list hll_empty (b_sketch a)) (or_list hll_empty (b_sketch b))))
      = Inr (opt_merge hll_union (b_sketch a) (b_sketch b))"
    using roles same_roles [of m Distinct_sketch "b_sketch a" "b_sketch b"] ea eb or_list_length [of hll_registers]
    by (cases "b_sketch a"; cases "b_sketch b") (auto simp: merge_role_def andthen_def hll_registers_def)
  have l: "merge_role (b_latest a) (b_latest b) (Inr (later (flatten (b_latest a)) (flatten (b_latest b))))
      = Inr (opt_merge later (b_latest a) (b_latest b))"
    using roles same_roles [of m Latest "b_latest a" "b_latest b"]
    by (cases "b_latest a"; cases "b_latest b") (auto simp: merge_role_def flatten_def andthen_def)
  let ?c = "\<lparr>b_sum = s, b_count = opt_merge (+) (b_count a) (b_count b), b_sum_sq = q, b_min = lo, b_max = hi,
    b_hist = opt_merge add_histograms (b_hist a) (b_hist b), b_sketch = opt_merge hll_union (b_sketch a) (b_sketch b),
    b_latest = opt_merge later (b_latest a) (b_latest b)\<rparr>"
  have run: "add_roles a b = Inr ?c"
    unfolding add_roles_def s(1) q(1) lo(1) hi(1) c h sk l by (simp add: andthen_def)
  have keep: "has_role m r (opt_merge f x y)" if "has_role m r x" "has_role m r y" for r f and x y :: "'z option"
    using that by (cases x; cases y) auto
  have role: "has_role m r x = has_role m r (map_option g x)" for r g and x :: "'z option" by simp
  have shape: "shaped m ?c"
    using roles unfolding shaped_def
    by (simp add: keep role [of _ s num_val] role [of _ q num_val] role [of _ lo "map_option dec_val"] role [of _ hi "map_option dec_val"]
        s(3) q(3) lo(3) hi(3))
  have exact: "exact_bucket k (A + A') (Q + Q') ?c"
    using s(2) q(2) lo(2) hi(2) ea eb
    by (cases "b_hist a"; cases "b_hist b"; cases "b_sketch a"; cases "b_sketch b") (auto simp: exact_bucket_def add_histograms_nth [of _ bands])
  have "map_option (map_option (map_prod id (map_option dec_val))) (opt_merge later x y)
      = opt_merge later (map_option (map_option (map_prod id (map_option dec_val))) x) (map_option (map_option (map_prod id (map_option dec_val))) y)" for x y
    by (cases x; cases y) (auto simp: later_def split: option.splits)
  then have "meaning ?c = merge_role_stats (meaning a) (meaning b)"
    by (simp add: meaning_def merge_role_stats_def s(3) q(3) lo(3) hi(3))
  then show ?thesis using run shape exact by blast
qed

lemma fold_result_stores:
  assumes "distinct ns" and "\<And>n. n \<in> set ns \<Longrightarrow> f n = Inr (C n)"
  shows "\<exists>out'. fold_result (\<lambda>n out. andthen (f n) (\<lambda>r. Inr (AList.update n r out))) ns out = Inr out'
    \<and> (\<forall>n. map_of out' n = (if n \<in> set ns then Some (C n) else map_of out n))"
  using assms
proof (induction ns arbitrary: out)
  case (Cons n ns)
  then obtain out' where "fold_result (\<lambda>n out. andthen (f n) (\<lambda>r. Inr (AList.update n r out))) ns (AList.update n (C n) out) = Inr out'"
    "\<forall>i. map_of out' i = (if i \<in> set ns then Some (C i) else map_of (AList.update n (C n) out) i)"
    by (meson distinct.simps(2) list.set_intros(2))
  then show ?case using Cons.prems by (intro exI [of _ out']) (auto simp: andthen_def dict_simps)
qed simp

lemma add_folds_exact:
  assumes dist: "distinct (map m_name ms)" and keys: "map fst a = map m_name ms" "map fst b = map m_name ms"
    and a: "\<And>m. m \<in> set ms \<Longrightarrow> map_of a (m_name m) = Some (B m) \<and> shaped m (B m) \<and> exact_bucket k A Q (B m)"
    and b: "\<And>m. m \<in> set ms \<Longrightarrow> map_of b (m_name m) = Some (B' m) \<and> shaped m (B' m) \<and> exact_bucket k A' Q' (B' m)"
    and small: "small_sums k (A + A') (Q + Q')"
  shows "\<exists>c C. add_folds a b = Inr c \<and> (\<forall>m \<in> set ms. map_of c (m_name m) = Some (C m) \<and> shaped m (C m)
    \<and> exact_bucket k (A + A') (Q + Q') (C m) \<and> meaning (C m) = merge_role_stats (meaning (B m)) (meaning (B' m)))"
proof -
  have "\<forall>m. \<exists>c. m \<in> set ms \<longrightarrow> add_roles (B m) (B' m) = Inr c \<and> shaped m c \<and> exact_bucket k (A + A') (Q + Q') c
      \<and> meaning c = merge_role_stats (meaning (B m)) (meaning (B' m))"
    using add_roles_exact [of _ _ k A Q _ A' Q'] a b small by blast
  then obtain C where C: "m \<in> set ms \<Longrightarrow> add_roles (B m) (B' m) = Inr (C m) \<and> shaped m (C m) \<and> exact_bucket k (A + A') (Q + Q') (C m)
      \<and> meaning (C m) = merge_role_stats (meaning (B m)) (meaning (B' m))" for m
    by metis
  define pick where "pick n = C (the (map_of (map (\<lambda>m. (m_name m, m)) ms) n))" for n
  have named: "map_of (map (\<lambda>m. (m_name m, m)) ms) (m_name m) = Some m" if "m \<in> set ms" for m
    using that dist by (intro map_of_is_SomeI) (auto simp: comp_def)
  define ns where "ns = remdups (map fst a @ map fst b)"
  have ns: "distinct ns" "set ns = m_name ` set ms" by (simp_all add: ns_def keys)
  have "add_roles (roles_of a n) (roles_of b n) = Inr (pick n)" if "n \<in> set ns" for n
    using that ns(2) a b C named by (auto simp: roles_of_def pick_def)
  from fold_result_stores [OF ns(1), of "\<lambda>n. add_roles (roles_of a n) (roles_of b n)" pick "[]", OF this]
  obtain c where "add_folds a b = Inr c" "\<forall>n. map_of c n = (if n \<in> set ns then Some (pick n) else map_of [] n)"
    unfolding add_folds_def ns_def by blast
  then show ?thesis using ns(2) named C by (intro exI [of _ c] exI [of _ C]) (auto simp: pick_def)
qed

definition same_statistics :: "metric \<Rightarrow> folded \<Rightarrow> folded \<Rightarrow> bool" where
  "same_statistics d a b \<longleftrightarrow>
     list_all (\<lambda>m. map_option meaning (map_of a (m_name m)) = map_option meaning (map_of b (m_name m))) (d_measures d)"

lemma fits_rows_sum: "fits_rows k N (n + n') \<Longrightarrow> small_sums k (int n * N + int n' * N) (int n * (N * N) + int n' * (N * N))"
  by (simp add: fits_rows_def distrib_right)

text \<open>C24: Rollups compose: folding two batches of rows apart and adding the folds gives, for every measure, the same
  count, sums, extremes, bands, sketch and latest reading as folding all the rows at once. This is what lets a day be
  the sum of its hours.\<close>

theorem folds_compose:
  assumes "validate d known kinds = []" and "distinct (map m_name (d_measures d))" and "folds_exactly k N d (xs @ ys)"
  shows "\<exists>a b ab c. metric_fold hash64 xs d = Inr a \<and> metric_fold hash64 ys d = Inr b \<and> add_folds a b = Inr ab
    \<and> metric_fold hash64 (xs @ ys) d = Inr c \<and> same_statistics d ab c"
proof -
  have "folds_exactly k N d xs" "folds_exactly k N d ys"
    using assms(3) fits_rows_mono by (auto simp: folds_exactly_def list_all_iff)
  note ex = metric_fold_exact [OF assms(1,2) this(1), of hash64] and ey = metric_fold_exact [OF assms(1,2) this(2), of hash64]
    and exy = metric_fold_exact [OF assms, of hash64]
  have small: "small_sums k (int (length xs) * N + int (length ys) * N) (int (length xs) * (N * N) + int (length ys) * (N * N))"
    using assms(3) by (intro fits_rows_sum) (simp add: folds_exactly_def)
  from ex obtain a A where a: "metric_fold hash64 xs d = Inr a" "map fst a = map m_name (d_measures d)"
    "m \<in> set (d_measures d) \<Longrightarrow> map_of a (m_name m) = Some (A m) \<and> shaped m (A m)
      \<and> exact_bucket k (int (length xs) * N) (int (length xs) * (N * N)) (A m)"
    "m \<in> set (d_measures d) \<Longrightarrow> meaning (A m) = stats_of hash64 m (contributions d m xs)" for m by blast
  from ey obtain b B where b: "metric_fold hash64 ys d = Inr b" "map fst b = map m_name (d_measures d)"
    "m \<in> set (d_measures d) \<Longrightarrow> map_of b (m_name m) = Some (B m) \<and> shaped m (B m)
      \<and> exact_bucket k (int (length ys) * N) (int (length ys) * (N * N)) (B m)"
    "m \<in> set (d_measures d) \<Longrightarrow> meaning (B m) = stats_of hash64 m (contributions d m ys)" for m by blast
  from exy obtain c C where c: "metric_fold hash64 (xs @ ys) d = Inr c"
    "m \<in> set (d_measures d) \<Longrightarrow> map_of c (m_name m) = Some (C m)"
    "m \<in> set (d_measures d) \<Longrightarrow> meaning (C m) = stats_of hash64 m (contributions d m (xs @ ys))" for m by blast
  from add_folds_exact [OF assms(2) a(2) b(2) a(3) b(3) small]
  obtain ab where "add_folds a b = Inr ab"
    "\<forall>m \<in> set (d_measures d). map_option meaning (map_of ab (m_name m)) = Some (merge_role_stats (meaning (A m)) (meaning (B m)))" by auto
  then have "same_statistics d ab c"
    using a(4) b(4) c(2,3) by (simp add: same_statistics_def list_all_iff contributions_append stats_roll.summary_append)
  then show ?thesis using a(1) b(1) c(1) \<open>add_folds a b = Inr ab\<close> by blast
qed

theorem folds_compose_witness:
  "\<exists>a b ab c. metric_fold (\<lambda>s. 0) [sample_pick (Fin False 30 0)] consumption = Inr a
    \<and> metric_fold (\<lambda>s. 0) [sample_pick (Fin True 5 (- 1))] consumption = Inr b \<and> add_folds a b = Inr ab
    \<and> metric_fold (\<lambda>s. 0) [sample_pick (Fin False 30 0), sample_pick (Fin True 5 (- 1))] consumption = Inr c
    \<and> same_statistics consumption ab c"
proof -
  have e: "folds_exactly 6 1000000000 consumption ([sample_pick (Fin False 30 0)] @ [sample_pick (Fin True 5 (- 1))])" by code_simp
  show ?thesis using folds_compose [OF consumption_valid e, of "\<lambda>s. 0"] by simp
qed

end
