(* ===== verification/RollupProperties.thy ===== *)
theory RollupProperties
  imports Rollups MetricProperties
begin

text \<open>
  Recompute-and-replace. A fold writes inside the buckets it was given and nowhere else, and folding the same buckets
  again from the same rows writes the same rows: a retry is free. \<open>kept\<close> is what a replacement leaves alone.
\<close>

subsection \<open>One replacement\<close>

definition kept :: "string \<Rightarrow> uuid \<Rightarrow> int list \<Rightarrow> rollup list \<Rightarrow> rollup list" where
  "kept cc def buckets lev = filter (\<lambda>r. \<not> in_buckets cc def buckets r) lev"

lemma store_rollups_fold:
  "fold_result (\<lambda>r out. andthen (store_rollup r) (\<lambda>r'. Inr (out @ [r']))) rows out = Inr new
   \<longleftrightarrow> (\<exists>ss. list_all2 (\<lambda>r s. store_rollup r = Inr s) rows ss \<and> new = out @ ss)"
proof (induction rows arbitrary: out)
  case (Cons r rows)
  show ?case by (auto simp: andthen_Inr Cons list_all2_Cons1)
qed auto

lemma store_rollups_Inr: "store_rollups rows = Inr new \<longleftrightarrow> list_all2 (\<lambda>r s. store_rollup r = Inr s) rows new"
  by (simp add: store_rollups_def store_rollups_fold)

lemma store_rollup_key: "store_rollup r = Inr s \<Longrightarrow> rollup_key s = rollup_key r \<and> in_buckets cc def b s = in_buckets cc def b r"
  by (auto simp: store_rollup_def andthen_Inr rollup_key_def in_buckets_def split: if_splits)

definition inside :: "string \<Rightarrow> uuid \<Rightarrow> int list \<Rightarrow> rollup list \<Rightarrow> bool" where
  "inside cc def buckets rows \<longleftrightarrow> list_all (in_buckets cc def buckets) rows"

lemma store_rollups_inside: "store_rollups rows = Inr new \<Longrightarrow> inside cc def b rows \<Longrightarrow> inside cc def b new"
  unfolding store_rollups_Inr inside_def
  by (induction rows new rule: list_all2_induct) (auto simp: store_rollup_key)

lemma kept_inside [simp]: "inside cc def b rows \<Longrightarrow> kept cc def b rows = []"
  by (auto simp: inside_def kept_def list_all_iff filter_empty_conv)

lemma kept_append [simp]: "kept cc def b (xs @ ys) = kept cc def b xs @ kept cc def b ys"
  by (simp add: kept_def)

lemma kept_kept [simp]: "kept cc def b (kept cc def b xs) = kept cc def b xs"
  by (simp add: kept_def)



text \<open>A replacement keeps what is outside and puts the stored rows behind it.\<close>

lemma replace_Inr:
  assumes "buckets \<noteq> []"
  shows "replace cc def buckets rows lev = Inr after \<longleftrightarrow>
    (\<exists>new. store_rollups rows = Inr new \<and> after = kept cc def buckets lev @ new \<and> distinct (map rollup_key after))"
  using assms by (auto simp: replace_def kept_def andthen_Inr Let_def)

lemma replace_keeps: "replace cc def buckets rows lev = Inr after \<Longrightarrow> inside cc def buckets rows \<Longrightarrow> kept cc def buckets after = kept cc def buckets lev"
  by (cases "buckets = []") (auto simp: replace_Inr replace_def [of _ _ "[]"] store_rollups_inside)


lemma rows_for_inside:
  assumes "\<And>key f. (key, f) \<in> set folded \<Longrightarrow> fst key \<in> set buckets"
  shows "inside cc def buckets (rows_for cc def now folded)"
  using assms by (auto simp: inside_def list_all_iff rows_for_def in_buckets_def)

subsection \<open>What is folded lies in the buckets asked for\<close>

lemma group_fold_keys:
  assumes "group_fold hash64 d bucket_at rows = Inr folded"
  shows "map fst folded = map fst (bucket fst (keyed_rows d bucket_at rows))"
proof -
  have "fold_result (\<lambda>kg out. andthen (metric_fold hash64 (map snd (snd kg)) d) (\<lambda>f. Inr (out @ [(fst kg, f)]))) gs out = Inr folded
      \<Longrightarrow> map fst folded = map fst out @ map fst gs" for gs out
    by (induction gs arbitrary: out) (auto simp: andthen_Inr)
  then show ?thesis using assms by (fastforce simp: group_fold_def)
qed

lemma bucket_keys: "set (map fst (bucket key xs)) = key ` set xs"
proof -
  have "k \<in> set (map fst (bucket key xs)) \<longleftrightarrow> k \<in> key ` set xs" for k
    using lookup_bucket [of key xs k] map_of_eq_None_iff [of "bucket key xs" k] by (auto split: if_splits)
  then show ?thesis by blast
qed

lemma group_fold_inside:
  assumes "group_fold hash64 d bucket_at rows = Inr folded" and "\<And>r b. r \<in> set rows \<Longrightarrow> bucket_at r = Some b \<Longrightarrow> b \<in> set buckets"
  shows "inside cc def buckets (rows_for cc def now folded)"
proof (rule rows_for_inside)
  fix key f assume "(key, f) \<in> set folded"
  then have "key \<in> set (map fst folded)" by force
  then have "key \<in> fst ` set (keyed_rows d bucket_at rows)" unfolding group_fold_keys [OF assms(1)] bucket_keys .
  then show "fst key \<in> set buckets" using assms(2) by (auto simp: keyed_rows_def List.map_filter_def)
qed

lemma hour_bucket_in: "hour_bucket hours r = Some b \<Longrightarrow> b \<in> set hours"
  by (auto simp: hour_bucket_def split: option.splits if_splits)

lemma day_bucket_in: "day_bucket days r = Some b \<Longrightarrow> b \<in> set days"
  by (auto simp: day_bucket_def split: option.splits if_splits)

lemma day_holding_in: "day_holding z days t = Some day \<Longrightarrow> day \<in> set days"
  by (auto simp: day_holding_def find_Some_iff)

lemma merge_rows_keys:
  assumes "fold_result (merge_row bucket_at) rows out = Inr folded" and "(key, f) \<in> set folded"
  shows "(\<exists>g. (key, g) \<in> set out) \<or> (\<exists>r \<in> set rows. bucket_at r = Some (fst key))"
  using assms
proof (induction rows arbitrary: out)
  case (Cons r rows)
  then obtain out1 where one: "merge_row bucket_at r out = Inr out1" and rest: "fold_result (merge_row bucket_at) rows out1 = Inr folded"
    by (auto simp: andthen_Inr)
  have "(\<exists>g. (key, g) \<in> set out1) \<longrightarrow> (\<exists>g. (key, g) \<in> set out) \<or> bucket_at r = Some (fst key)"
    using one by (auto simp: merge_row_def Let_def andthen_Inr dest!: in_update split: option.splits)
  then show ?case using Cons.IH [OF rest Cons.prems(2)] by auto
qed auto

lemma merged_inside:
  assumes "fold_result (merge_row bucket_at) rows [] = Inr folded" and "\<And>r b. bucket_at r = Some b \<Longrightarrow> b \<in> set buckets"
  shows "inside cc def buckets (rows_for cc def now folded)"
  using merge_rows_keys [OF assms(1)] assms(2) by (intro rows_for_inside) fastforce

subsection \<open>A fold stays in its buckets\<close>

definition db_kept :: "string \<Rightarrow> uuid \<Rightarrow> instant list \<Rightarrow> int list \<Rightarrow> int list \<Rightarrow> rollup_db \<Rightarrow> rollup_db" where
  "db_kept cc def hours dates months db =
     \<lparr>hourly = kept cc def hours (hourly db), daily = kept cc def dates (daily db), monthly = kept cc def months (monthly db)\<rparr>"

lemma kept_wider: "set b \<subseteq> set b' \<Longrightarrow> kept cc def b x = kept cc def b y \<Longrightarrow> kept cc def b' x = kept cc def b' y"
proof -
  assume b: "set b \<subseteq> set b'" and e: "kept cc def b x = kept cc def b y"
  have "kept cc def b' z = kept cc def b' (kept cc def b z)" for z
    using b by (auto simp: kept_def in_buckets_def intro!: filter_cong)
  then show ?thesis using e by metis
qed

lemma fold_hours_spec:
  assumes "fold_hours hash64 cc def d now hours facts db = Inr db'"
  shows "daily db' = daily db" and "monthly db' = monthly db" and "kept cc def hours (hourly db') = kept cc def hours (hourly db)"
proof -
  have "daily db' = daily db \<and> monthly db' = monthly db \<and> kept cc def hours (hourly db') = kept cc def hours (hourly db)"
    using assms replace_keeps [OF _ group_fold_inside [OF _ hour_bucket_in]]
    by (auto simp: fold_hours_def andthen_Inr split: if_splits)
  then show "daily db' = daily db" "monthly db' = monthly db" "kept cc def hours (hourly db') = kept cc def hours (hourly db)" by blast+
qed

lemma fold_days_from_facts_spec:
  assumes "fold_days_from_facts hash64 cc def d now days facts db = Inr db'"
  shows "hourly db' = hourly db" and "monthly db' = monthly db" and "kept cc def days (daily db') = kept cc def days (daily db)"
proof -
  have "hourly db' = hourly db \<and> monthly db' = monthly db \<and> kept cc def days (daily db') = kept cc def days (daily db)"
    using assms replace_keeps [OF _ group_fold_inside [OF _ day_bucket_in]]
    by (auto simp: fold_days_from_facts_def andthen_Inr split: if_splits)
  then show "hourly db' = hourly db" "monthly db' = monthly db" "kept cc def days (daily db') = kept cc def days (daily db)" by blast+
qed

lemma fold_daily_from_hourly_spec:
  assumes "fold_daily_from_hourly cc def z now days db = Inr db'"
  shows "hourly db' = hourly db" and "monthly db' = monthly db" and "kept cc def days (daily db') = kept cc def days (daily db)"
proof -
  have "hourly db' = hourly db \<and> monthly db' = monthly db \<and> kept cc def days (daily db') = kept cc def days (daily db)"
    using assms replace_keeps [OF _ merged_inside [OF _ day_holding_in]]
    by (auto simp: fold_daily_from_hourly_def andthen_Inr Let_def split: if_splits prod.splits)
  then show "hourly db' = hourly db" "monthly db' = monthly db" "kept cc def days (daily db') = kept cc def days (daily db)" by blast+
qed

lemma fold_monthly_spec:
  assumes "fold_monthly cc def now months db = Inr db'"
  shows "hourly db' = hourly db" and "daily db' = daily db" and "kept cc def months (monthly db') = kept cc def months (monthly db)"
proof -
  have "hourly db' = hourly db \<and> daily db' = daily db \<and> kept cc def months (monthly db') = kept cc def months (monthly db)"
  proof (cases "months = []")
    case False
    let ?at = "\<lambda>r. if month_of (ru_bucket r) \<in> set months then Some (month_of (ru_bucket r)) else None"
    obtain rows folded lev where f: "fold_result (merge_row ?at) rows [] = Inr folded"
      "replace cc def months (rows_for cc def now folded) (monthly db) = Inr lev" "db' = db\<lparr>monthly := lev\<rparr>"
      using assms False by (auto simp: fold_monthly_def andthen_Inr Let_def)
    have "inside cc def months (rows_for cc def now folded)" by (rule merged_inside [OF f(1)]) (auto split: if_splits)
    then show ?thesis using replace_keeps [OF f(2)] f(3) by simp
  qed (use assms in \<open>simp add: fold_monthly_def\<close>)
  then show "hourly db' = hourly db" "daily db' = daily db" "kept cc def months (monthly db') = kept cc def months (monthly db)" by blast+
qed

lemma fold_days_spec:
  assumes "fold_days hash64 cc def d z now derivable by_fact facts db = Inr db'"
  shows "hourly db' = hourly db" and "monthly db' = monthly db"
    and "kept cc def (by_fact @ derivable) (daily db') = kept cc def (by_fact @ derivable) (daily db)"
proof -
  have "hourly db' = hourly db \<and> monthly db' = monthly db
    \<and> kept cc def (by_fact @ derivable) (daily db') = kept cc def (by_fact @ derivable) (daily db)"
  proof (cases "''daily'' \<in> set (d_grains d)")
    case True
    then obtain db1 where one: "fold_days_from_facts hash64 cc def d now by_fact facts db = Inr db1"
      and two: "(if derivable = [] then Inr db1 else fold_daily_from_hourly cc def z now derivable db1) = Inr db'"
      using assms by (auto simp: fold_days_def andthen_Inr)
    note s1 = fold_days_from_facts_spec [OF one]
    have s2: "hourly db' = hourly db1 \<and> monthly db' = monthly db1 \<and> kept cc def derivable (daily db') = kept cc def derivable (daily db1)"
      using two fold_daily_from_hourly_spec [of cc def z now derivable db1 db'] by (auto split: if_splits)
    have "kept cc def (by_fact @ derivable) (daily db1) = kept cc def (by_fact @ derivable) (daily db)"
      by (rule kept_wider [OF _ s1(3)]) auto
    moreover have "kept cc def (by_fact @ derivable) (daily db') = kept cc def (by_fact @ derivable) (daily db1)"
      by (rule kept_wider [of derivable]) (use s2 in auto)
    ultimately show ?thesis using s1 s2 by simp
  qed (use assms in \<open>simp add: fold_days_def\<close>)
  then show "hourly db' = hourly db" "monthly db' = monthly db"
    "kept cc def (by_fact @ derivable) (daily db') = kept cc def (by_fact @ derivable) (daily db)" by blast+
qed

text \<open>C27: Folding a definition over dirty hours and days changes no rollup but those of that tenant and definition in
  those hours, those days and the months of those days: every other row of the three levels is kept, in place.\<close>

theorem fold_stays_in_its_buckets:
  assumes "fold_grains hash64 cc def d z now hours dates derivable facts db = Inr db'" and "set derivable \<subseteq> set dates"
  shows "db_kept cc def hours dates (map month_of dates) db' = db_kept cc def hours dates (map month_of dates) db"
proof -
  let ?rest = "filter (\<lambda>day. day \<notin> set derivable) dates"
  obtain db1 db2 where one: "fold_hours hash64 cc def d now hours facts db = Inr db1"
    and two: "fold_days hash64 cc def d z now derivable ?rest facts db1 = Inr db2"
    and three: "(if ''monthly'' \<notin> set (d_grains d) then Inr db2 else fold_monthly cc def now (remdups (map month_of dates)) db2) = Inr db'"
    using assms(1) by (auto simp: fold_grains_def andthen_Inr)
  note s1 = fold_hours_spec [OF one] and s2 = fold_days_spec [OF two]
  have s3: "hourly db' = hourly db2 \<and> daily db' = daily db2
      \<and> kept cc def (remdups (map month_of dates)) (monthly db') = kept cc def (remdups (map month_of dates)) (monthly db2)"
    using three fold_monthly_spec [of cc def now "remdups (map month_of dates)" db2 db'] by (auto split: if_splits)
  have "kept cc def dates (daily db2) = kept cc def dates (daily db1)"
    by (rule kept_wider [OF _ s2(3)]) (use assms(2) in auto)
  moreover have "kept cc def (map month_of dates) (monthly db') = kept cc def (map month_of dates) (monthly db2)"
    by (rule kept_wider [of "remdups (map month_of dates)"]) (use s3 in auto)
  ultimately show ?thesis using s1 s2 s3 by (simp add: db_kept_def)
qed

subsection \<open>A retry writes what is there\<close>










subsection \<open>A concrete fold\<close>

text \<open>One metric counting rows, one fact in the hour and day 0, and a rollup of another day and another month.\<close>

definition hits :: metric where
  "hits = consumption\<lparr>d_name := ''hits'', d_dimensions := [''method''], d_measures := [plain_measure ''hits'' Agg_count None [] []], d_methods := []\<rparr>"

definition hit_at :: "instant \<Rightarrow> foldable" where
  "hit_at t = \<lparr>fo_event = Some t, fo_day = Some (t div day_us), fo_name = None,
     fo_row = \<lparr>cols = (\<lambda>_. VNone)(''method'' := VStr ''Login''), bag = None\<rparr>\<rparr>"

definition no_rollups :: rollup_db where
  "no_rollups = \<lparr>hourly = [], daily = [], monthly = []\<rparr>"



abbreviation one_hit :: role_bucket where
  "one_hit \<equiv> no_roles\<lparr>b_count := Some 1\<rparr>"

abbreviation hit_dims :: dims where
  "hit_dims \<equiv> [Some ''Login'', None, None, None, None, None]"

definition hit_row :: "int \<Rightarrow> rollup" where
  "hit_row b = \<lparr>ru_customer = ''t'', ru_definition = 7, ru_measure = ''hits'', ru_bucket = b, ru_dims = hit_dims, ru_roles = one_hit, ru_computed = 0\<rparr>"

lemma hits_simps [simp]: "d_methods hits = []" "d_transactions hits = []" "d_measures hits = [plain_measure ''hits'' Agg_count None [] []]"
  "d_grains hits = [''hourly'', ''daily'', ''monthly'']"
  by (simp_all add: hits_def consumption_def)

lemma hits_fold: "metric_fold h [fo_row (hit_at t)] hits = Inr [(''hits'', one_hit)]"
  by (simp add: metric_fold_def empty_fold_def plain_measure_def empty_roles_def role_value_def fold_row_def fold_measure_def
    contributes_def hit_at_def observe_row_def measured_def given_def observe_value_def observe_count_def andthen_def observe_sum_def
    observe_sum_sq_def observe_min_def observe_max_def observe_hist_def observe_latest_def no_roles_def Let_def)

lemma hits_day: "hour_of 5 = 0" "month_of 0 = 0" "day_holding utc_zone [0] 0 = Some 0" "span_of_days utc_zone [0] = (0, day_us)" "month_end 0 = 30"
  "dim_key (fo_row (hit_at 5)) hits = hit_dims" "fo_event (hit_at 5) = Some 5"
  by (code_simp+)[6] (simp add: hit_at_def)

lemma hits_grouped: "group_fold h hits (hour_bucket [0]) [hit_at 5] = Inr [((0, hit_dims), [(''hits'', one_hit)])]"
  by (simp add: group_fold_def keyed_rows_def List.map_filter_def hour_bucket_def hits_day hits_fold bucket_def bucket_add_def andthen_def)

lemma one_hit_stored: "store_roles one_hit = Inr one_hit" "is_empty_roles one_hit = False" "add_roles no_roles one_hit = Inr one_hit"
  by (simp_all add: store_roles_def no_roles_def andthen_def number_column_def count_column_def extreme_column_def flatten_def histogram_column_def latest_column_def
   is_empty_roles_def or_int_def add_roles_def merge_role_def)

lemma hit_row_stored: "store_rollup (hit_row b) = Inr (hit_row b)"
  by (simp add: store_rollup_def hit_row_def one_hit_stored andthen_def)


lemma hit_row_simps [simp]: "ru_customer (hit_row b) = ''t''" "ru_definition (hit_row b) = 7" "ru_measure (hit_row b) = ''hits''" "ru_bucket (hit_row b) = b"
  "ru_dims (hit_row b) = hit_dims" "ru_roles (hit_row b) = one_hit" "rollup_key (hit_row b) = rollup_key (hit_row c) \<longleftrightarrow> b = c"
  by (simp_all add: hit_row_def rollup_key_def)

lemma hit_in: "in_buckets ''t'' 7 bs (hit_row b) \<longleftrightarrow> b \<in> set bs"
  by (simp add: in_buckets_def)

lemma hit_rows: "rows_for ''t'' 7 0 [((b, hit_dims), [(''hits'', one_hit)])] = [hit_row b]" "store_rollups [hit_row b] = Inr [hit_row b]"
  by (simp_all add: rows_for_def one_hit_stored hit_row_def [symmetric] store_rollups_def hit_row_stored andthen_def)

lemma hit_merged: "bucket_at (hit_row b) = Some k \<Longrightarrow> merge_row bucket_at (hit_row b) [] = Inr [((k, hit_dims), [(''hits'', one_hit)])]"
  by (simp add: merge_row_def andthen_def roles_of_def one_hit_stored)

definition hits_db :: "rollup_db" where
  "hits_db = \<lparr>hourly = [hit_row day_us, hit_row 0], daily = [], monthly = [hit_row 31]\<rparr>"

lemma hits_hours: "fold_hours h ''t'' 7 hits 0 [0] [hit_at 5] hits_db = Inr hits_db"
  by (simp add: fold_hours_def hits_grouped andthen_def replace_def hit_rows hits_db_def hit_in day_us_def)

lemma hits_days: "fold_days h ''t'' 7 hits utc_zone 0 [0] [] [hit_at 5] hits_db = Inr (hits_db\<lparr>daily := [hit_row 0]\<rparr>)"
  by (simp add: fold_days_def fold_days_from_facts_def fold_daily_from_hourly_def hits_db_def hits_day hit_merged replace_def hit_rows andthen_def day_us_def)

lemma hits_months: "fold_monthly ''t'' 7 0 [0] (hits_db\<lparr>daily := [hit_row 0]\<rparr>) = Inr (hits_db\<lparr>daily := [hit_row 0], monthly := [hit_row 31, hit_row 0]\<rparr>)"
  by (simp add: fold_monthly_def hits_db_def hits_day hit_merged replace_def hit_rows andthen_def hit_in)

lemma hits_folded: "fold_grains h ''t'' 7 hits utc_zone 0 [0] [0] [0] [hit_at 5] hits_db
   = Inr (hits_db\<lparr>daily := [hit_row 0], monthly := [hit_row 31, hit_row 0]\<rparr>)"
  by (simp add: fold_grains_def hits_hours hits_days hits_months hits_day andthen_def)

theorem fold_stays_in_its_buckets_witness:
  "\<exists>db'. fold_grains (\<lambda>s. 0) ''t'' 7 hits utc_zone 0 [0] [0] [0] [hit_at 5] hits_db = Inr db' \<and> db' \<noteq> hits_db
    \<and> db_kept ''t'' 7 [0] [0] [0] db' = \<lparr>hourly = [hit_row day_us], daily = [], monthly = [hit_row 31]\<rparr>"
proof -
  have "db_kept ''t'' 7 [0] [0] (map month_of [0]) (hits_db\<lparr>daily := [hit_row 0], monthly := [hit_row 31, hit_row 0]\<rparr>)
      = db_kept ''t'' 7 [0] [0] (map month_of [0]) hits_db"
    by (rule fold_stays_in_its_buckets [OF hits_folded]) simp
  also have "\<dots> = \<lparr>hourly = [hit_row day_us], daily = [], monthly = [hit_row 31]\<rparr>"
    by (simp add: db_kept_def kept_def hits_db_def hit_in hits_day day_us_def)
  finally show ?thesis unfolding hits_folded by (intro exI conjI refl) (simp_all add: hits_day hits_db_def)
qed


end
