(* ===== verification/Cascade.thy ===== *)
theory Cascade
  imports RollupProperties
begin

text \<open>
  The cascade is exact. A rollup row is good for a list of contributions when it holds their statistics; storing it
  keeps it good, merging good rows gives a row good for all their contributions, and the order of contributions does
  not matter. All of it on a decimal grid that the columns hold: at most 3 places, so that squares fit 6.
\<close>

subsection \<open>What the columns keep\<close>

definition grid_value :: "nat \<Rightarrow> int \<Rightarrow> rat \<Rightarrow> bool" where
  "grid_value k N v \<longleftrightarrow> (\<exists>z. v * 10 ^ k = of_int z \<and> \<bar>z\<bar> \<le> N)"

lemma ten_powi_shift: "c * 10 powi e * (10::rat) ^ s = c * 10 powi (e + int s)"
  by (simp add: ten_powi_add)

lemma round_places_exact:
  assumes "of_int c * 10 powi (e + int s) = (of_int w :: rat)"
  shows "round_places s c e = w"
proof (cases "- int s \<le> e")
  case True
  then have "(of_int (c * 10 ^ nat (e + int s)) :: rat) = of_int w" using assms by (simp add: ten_powi_nat)
  then show ?thesis using True by (simp only: of_int_eq_iff round_places_def if_True)
next
  case False
  define j where "j = nat (- int s - e)"
  have j: "e + int s = - int j" using False by (simp add: j_def)
  have "10 powi - int j * (10::rat) ^ j = 1" using ten_powi_add [of "- int j" "int j"] by simp
  then have "of_int c = of_int c * 10 powi (e + int s) * (10::rat) ^ j" by (simp add: j)
  then have "(of_int c :: rat) = of_int (w * 10 ^ j)" using assms by simp
  then have c: "c = w * 10 ^ j" by (simp only: of_int_eq_iff)
  define m where "m = (10::int) ^ j"
  have "2 * c + m = m + w * (2 * m)" by (simp add: c m_def)
  then have "(2 * c + m) div (2 * m) = w + m div (2 * m)" by (simp only:) (simp add: m_def)
  also have "m div (2 * m) = 0" by (rule div_pos_pos_trivial) (simp_all add: m_def)
  finally show ?thesis using False by (simp add: round_places_def m_def j_def Let_def)
qed

lemma to_numeric_exact:
  assumes "finite_dec d" and v: "dec_val d * 10 ^ k = of_int z" and k: "k \<le> 6" and z: "\<bar>z\<bar> * 10 ^ (6 - k) < 10 ^ p"
  shows "\<exists>s n. to_numeric p 6 d = Inr (Fin s n (- 6)) \<and> dec_val (Fin s n (- 6)) = dec_val d \<and> (on_grid k N d \<longrightarrow> on_grid k N (Fin s n (- 6)))"
proof -
  obtain s c e where d: "d = Fin s c e" using assms(1) by (cases d) auto
  define w where "w = (if s then - z else z) * 10 ^ (6 - k)"
  have "(10::rat) ^ 6 = 10 ^ k * 10 ^ (6 - k)" using k power_add [of "10::rat" k "6 - k"] by simp
  then have "dec_val d * 10 ^ 6 = dec_val d * 10 ^ k * 10 ^ (6 - k)" by (simp only: mult.assoc)
  then have "dec_val d * 10 ^ 6 = of_int (z * 10 ^ (6 - k))" by (simp only: v) simp
  then have "of_int c * 10 powi (e + int 6) = (of_int w :: rat)"
    unfolding d w_def ten_powi_shift [symmetric] by (cases s) simp_all
  note w = round_places_exact [OF this] this
  have "w \<le> \<bar>z\<bar> * 10 ^ (6 - k)" unfolding w_def by (rule mult_right_mono) auto
  then have small: "\<not> 10 ^ p \<le> w" using z by linarith
  have "dec_val (Fin (s \<and> w \<noteq> 0) w (- 6)) = of_int (if s then - w else w) * 10 powi - 6" by auto
  also have "\<dots> = dec_val d"
  proof -
    have "(of_int w :: rat) * 10 powi - 6 = of_int c * 10 powi (e + int 6) * 10 powi (- 6 :: int)" using w(2) by simp
    also have "\<dots> = of_int c * 10 powi e" using ten_powi_add [of "e + 6" "- 6"] by simp
    finally show ?thesis by (cases s) (simp_all add: d)
  qed
  finally have val: "dec_val (Fin (s \<and> w \<noteq> 0) w (- 6)) = dec_val d" .
  have "on_grid k N (Fin (s \<and> w \<noteq> 0) w (- 6))" if "on_grid k N d"
  proof -
    have "0 \<le> c" using that by (simp add: d)
    then have "(0::rat) \<le> of_int w" using w(2) by (metis mult_nonneg_nonneg of_int_0_le_iff ten_powi_pos less_imp_le)
    then have "0 \<le> w" by simp
    then show ?thesis using that val by (simp add: d del: dec_val.simps)
  qed
  then show ?thesis using w(1) small val by (intro exI [of _ "s \<and> w \<noteq> 0"] exI [of _ w]) (simp add: d Let_def)
qed

definition grid_values :: "nat \<Rightarrow> int \<Rightarrow> contribution list \<Rightarrow> bool" where
  "grid_values k N cs \<longleftrightarrow> list_all (grid_value k N) (values_of cs)"

lemma number_column_exact:
  assumes "pred_option (\<lambda>n. on_grid k A (num_dec n)) x" and "k \<le> 6" and "A * 10 ^ (6 - k) < 10 ^ p"
  shows "\<exists>y. number_column p x = Inr y \<and> pred_option (\<lambda>n. on_grid k A (num_dec n)) y \<and> map_option num_val y = map_option num_val x"
proof (cases x)
  case (Some n)
  then have g: "on_grid k A (num_dec n)" using assms(1) by simp
  then obtain z where z: "dec_val (num_dec n) * 10 ^ k = of_int z" "\<bar>z\<bar> \<le> A" by (elim on_gridE)
  have "\<bar>z\<bar> * 10 ^ (6 - k) < 10 ^ p" by (rule le_less_trans [OF mult_right_mono [OF z(2)] assms(3)]) simp
  from to_numeric_exact [OF on_grid_finite [OF g] z(1) assms(2) this, of A] g
  obtain s c where d: "to_numeric p 6 (num_dec n) = Inr (Fin s c (- 6))" "dec_val (Fin s c (- 6)) = num_val n" "on_grid k A (Fin s c (- 6))"
    by (auto simp: num_val_def simp del: on_grid.simps dec_val.simps)
  then show ?thesis using Some
    by (intro exI [of _ "Some (PDec (Fin s c (- 6)))"]) (cases n, simp_all add: number_column_def andthen_def del: on_grid.simps dec_val.simps)
qed (simp add: number_column_def)

lemma extreme_column_exact:
  assumes "pred_option (pred_option finite_dec) x" and "k \<le> 6" and "N * 10 ^ (6 - k) < 10 ^ 30"
    and "\<And>d. x = Some (Some d) \<Longrightarrow> grid_value k N (dec_val d)" and "x \<noteq> Some None"
  shows "\<exists>y. extreme_column x = Inr y \<and> pred_option (pred_option finite_dec) y
    \<and> map_option (map_option dec_val) y = map_option (map_option dec_val) x"
proof (cases x)
  case (Some e)
  then obtain d where e: "x = Some (Some d)" using assms(5) by (cases e) auto
  then obtain z where z: "dec_val d * 10 ^ k = of_int z" "\<bar>z\<bar> \<le> N" using assms(4) by (auto simp: grid_value_def)
  have "\<bar>z\<bar> * 10 ^ (6 - k) < 10 ^ 30" by (rule le_less_trans [OF mult_right_mono [OF z(2)] assms(3)]) simp
  from to_numeric_exact [OF _ z(1) assms(2) this, of N] e assms(1)
  obtain s c where "to_numeric 30 6 d = Inr (Fin s c (- 6))" "dec_val (Fin s c (- 6)) = dec_val d" by (auto simp del: dec_val.simps on_grid.simps)
  then show ?thesis using e
    by (intro exI [of _ "Some (Some (Fin s c (- 6)))"]) (simp add: extreme_column_def flatten_def andthen_def del: dec_val.simps)
qed (simp add: extreme_column_def flatten_def)

lemma band_counts_some: "xs \<noteq> [] \<Longrightarrow> list_ex (\<lambda>n. n \<noteq> 0) (band_counts xs)"
proof -
  assume "xs \<noteq> []"
  then obtain v vs where "xs = v # vs" by (cases xs) auto
  then have "length (filter (\<lambda>u. band_of (fl u) = band_of (fl v)) xs) \<noteq> 0" by simp
  then show ?thesis using band_of_less [of "fl v"] by (auto simp: band_counts_def list_ex_iff)
qed

text \<open>The roles of a measure that is not a latest reading, with something to say.\<close>

lemma extreme_of_grid: "list_all (grid_value k N) xs \<Longrightarrow> extreme_of Min xs = Some v \<or> extreme_of Max xs = Some v \<Longrightarrow> grid_value k N v"
  by (auto simp: extreme_of_def list_all_iff split: if_splits)

definition holds :: "nat \<Rightarrow> int \<Rightarrow> int \<Rightarrow> bool" where
  "holds k N n \<longleftrightarrow> k \<le> 6 \<and> 0 \<le> N \<and> N < 10 ^ 24 \<and> n * N < 10 ^ 24 \<and> n * (N * N) < 10 ^ 28 \<and> n < 2 ^ 63"

lemma store_roles_exact:
  assumes b: "shaped m b" "exact_bucket k A Q b" "meaning b = stats_of hash64 m cs" and m: "m_agg m \<noteq> Agg_latest"
    and v: "grid_values k N cs" "m_agg m = Agg_percentile \<or> m_agg m = Agg_extent \<Longrightarrow> values_of cs \<noteq> []"
    and h: "k \<le> 6" "m_agg m = Agg_stats \<Longrightarrow> k \<le> 3" "N < 10 ^ 24" "A < 10 ^ 24" "Q < 10 ^ 28" "int (length cs) < 2 ^ 63"
  shows "\<exists>b'. store_roles b = Inr b' \<and> shaped m b' \<and> exact_bucket k A Q b' \<and> meaning b' = stats_of hash64 m cs"
proof -
  note e = b(2) [unfolded exact_bucket_def] and roles = b(1) [unfolded shaped_def]
  have up: "(10::int) ^ (6 - k) \<le> 10 ^ 6" "(10::int) ^ (6 - 2 * k) \<le> 10 ^ 6" by (rule power_increasing; simp)+
  have bound: "x * 10 ^ j < 10 ^ (y + 6)" if "x < 10 ^ y" "(10::int) ^ j \<le> 10 ^ 6" for x :: int and y j
  proof (cases "x \<le> 0")
    case True
    then have "x * 10 ^ j \<le> 0" by (simp add: mult_nonpos_nonneg)
    then show ?thesis by (smt (verit) zero_less_power)
  next
    case False
    then have "x * 10 ^ j \<le> x * 10 ^ 6" using that(2) by (intro mult_left_mono) auto
    also have "\<dots> < 10 ^ y * 10 ^ 6" using that(1) by (intro mult_strict_right_mono) auto
    finally show ?thesis by (simp only: power_add)
  qed
  have small: "A * 10 ^ (6 - k) < 10 ^ 30" "Q * 10 ^ (6 - 2 * k) < 10 ^ 40" "N * 10 ^ (6 - k) < 10 ^ 30"
    using bound [of A 24, OF h(4) up(1)] bound [of Q 28, OF h(5) up(2)] bound [of N 24, OF h(3) up(1)] by simp_all
  note k = h(1)
  obtain s where s: "number_column 30 (b_sum b) = Inr s" "pred_option (\<lambda>n. on_grid k A (num_dec n)) s" "map_option num_val s = map_option num_val (b_sum b)"
    using number_column_exact [OF _ k small(1), of "b_sum b"] e by blast
  obtain q where q: "number_column 40 (b_sum_sq b) = Inr q" "pred_option (\<lambda>n. on_grid (2 * k) Q (num_dec n)) q"
    "map_option num_val q = map_option num_val (b_sum_sq b)"
  proof (cases "m_agg m = Agg_stats")
    case True
    then have "2 * k \<le> 6" using h(2) by simp
    from number_column_exact [OF _ this small(2), of "b_sum_sq b"] e show ?thesis using that by blast
  next
    case False
    then have "b_sum_sq b = None" using roles by (cases "m_agg m") (auto simp: has_role_def)
    then show ?thesis using that [of None] by (simp add: number_column_def)
  qed
  have extreme: "map_option (map_option dec_val) (b_min b) = role_value (roles_for (m_agg m)) Min_value (extreme_of Min (values_of cs))"
    "map_option (map_option dec_val) (b_max b) = role_value (roles_for (m_agg m)) Max_value (extreme_of Max (values_of cs))"
    "b_hist b = role_value (roles_for (m_agg m)) Histogram (band_counts (values_of cs))"
    "b_count b = role_value (roles_for (m_agg m)) Count_value (int (length cs))"
    using arg_cong [OF b(3), of s_min] arg_cong [OF b(3), of s_max] arg_cong [OF b(3), of s_hist] arg_cong [OF b(3), of s_count]
    by (simp_all add: meaning_def stats_of_def Let_def)
  have lo_grid: "grid_value k N (dec_val d)" if "b_min b = Some (Some d)" for d
    using extreme(1) that v(1) extreme_of_grid [of k N "values_of cs" "dec_val d"] by (auto simp: role_value_def grid_values_def split: if_splits)
  have hi_grid: "grid_value k N (dec_val d)" if "b_max b = Some (Some d)" for d
    using extreme(2) that v(1) extreme_of_grid [of k N "values_of cs" "dec_val d"] by (auto simp: role_value_def grid_values_def split: if_splits)
  have ext: "b_min b \<noteq> Some None" "b_max b \<noteq> Some None"
    using extreme(1,2) v(2) by (cases "m_agg m"; auto simp: role_value_def extreme_of_def split: if_splits)+
  obtain lo where lo: "extreme_column (b_min b) = Inr lo" "pred_option (pred_option finite_dec) lo"
    "map_option (map_option dec_val) lo = map_option (map_option dec_val) (b_min b)"
    using extreme_column_exact [OF _ k small(3) lo_grid ext(1)] e by blast
  obtain hi where hi: "extreme_column (b_max b) = Inr hi" "pred_option (pred_option finite_dec) hi"
    "map_option (map_option dec_val) hi = map_option (map_option dec_val) (b_max b)"
    using extreme_column_exact [OF _ k small(3) hi_grid ext(2)] e by blast
  have c: "count_column (b_count b) = Inr (b_count b)"
    using extreme(4) h(6) by (auto simp: count_column_def role_value_def)
  have hist: "histogram_column (b_hist b) = b_hist b"
    using extreme(3) v(2) band_counts_some [of "values_of cs"] by (cases "m_agg m") (auto simp: histogram_column_def role_value_def)
  have latest: "b_latest b = None" using roles m by (cases "m_agg m") (auto simp: has_role_def)
  let ?b = "\<lparr>b_sum = s, b_count = b_count b, b_sum_sq = q, b_min = lo, b_max = hi, b_hist = b_hist b, b_sketch = b_sketch b, b_latest = b_latest b\<rparr>"
  have "store_roles b = Inr ?b"
    by (simp add: store_roles_def s(1) q(1) lo(1) hi(1) c hist latest latest_column_def flatten_def andthen_def)
  moreover have "shaped m ?b"
  proof -
    have role: "has_role m r x = has_role m r (map_option g x)" for r g and x :: "'z option" by simp
    show ?thesis using roles unfolding shaped_def
      by (simp add: role [of _ s num_val] role [of _ q num_val] role [of _ lo "map_option dec_val"] role [of _ hi "map_option dec_val"] s(3) q(3) lo(3) hi(3))
  qed
  moreover have "exact_bucket k A Q ?b" using e s(2) q(2) lo(2) hi(2) by (simp add: exact_bucket_def)
  moreover have "meaning ?b = meaning b" by (simp add: meaning_def s(3) q(3) lo(3) hi(3))
  ultimately show ?thesis using b(3) by metis
qed

subsection \<open>Order does not matter\<close>

lemma map_filter_mset: "mset xs = mset ys \<Longrightarrow> mset (List.map_filter f xs) = mset (List.map_filter f ys)"
proof -
  assume e: "mset xs = mset ys"
  then have "mset (filter P xs) = mset (filter P ys)" for P by (simp add: mset_filter)
  then show ?thesis by (simp add: List.map_filter_def)
qed

lemma stats_of_order:
  assumes "mset cs = mset ds" and "m_agg m \<noteq> Agg_latest"
  shows "stats_of hash64 m cs = stats_of hash64 m ds"
proof -
  have v: "mset (values_of cs) = mset (values_of ds)" and k: "mset (keys_of cs) = mset (keys_of ds)"
    unfolding values_of_def keys_of_def by (rule map_filter_mset [OF assms(1)])+
  have len: "length cs = length ds" by (rule mset_eq_length [OF assms(1)])
  have "sum_list (values_of cs) = sum_list (values_of ds)" "sum_list (map (\<lambda>x. x * x) (values_of cs)) = sum_list (map (\<lambda>x. x * x) (values_of ds))"
    using v mset_map [of "\<lambda>x. x * x"] by (metis sum_mset_sum_list)+
  moreover have "extreme_of f (values_of cs) = extreme_of f (values_of ds)" for f
    using mset_eq_setD [OF v] by (auto simp: extreme_of_def)
  moreover have "band_counts (values_of cs) = band_counts (values_of ds)"
  proof -
    have "length (filter P (values_of cs)) = length (filter P (values_of ds))" for P
      by (rule mset_eq_length) (simp add: v)
    then show ?thesis by (simp add: band_counts_def)
  qed
  moreover have "hll_from_values hash64 (keys_of cs) = hll_from_values hash64 (keys_of ds)"
    by (rule hll_from_values_set) (rule mset_eq_setD [OF k])
  moreover have "role_value (roles_for (m_agg m)) Latest x = None" for x :: "(string \<times> rat option) option"
    using assms(2) by (cases "m_agg m") (simp_all add: role_value_def)
  ultimately show ?thesis by (simp add: stats_of_def Let_def len)
qed

subsection \<open>Good rows\<close>

text \<open>A bucket that holds the statistics of its contributions, within bounds that the contributions alone give.\<close>

definition good :: "(string \<Rightarrow> 64 word) \<Rightarrow> nat \<Rightarrow> int \<Rightarrow> measure \<Rightarrow> contribution list \<Rightarrow> role_bucket \<Rightarrow> bool" where
  "good hash64 k N m cs b \<longleftrightarrow> shaped m b \<and> exact_bucket k (int (length cs) * N) (int (length cs) * (N * N)) b
     \<and> meaning b = stats_of hash64 m cs"

lemma good_order: "good hash64 k N m cs b \<Longrightarrow> mset cs = mset ds \<Longrightarrow> m_agg m \<noteq> Agg_latest \<Longrightarrow> good hash64 k N m ds b"
  using stats_of_order [of cs ds m hash64] mset_eq_length [of cs ds] by (simp add: good_def)

lemma length_values: "length (values_of cs) \<le> length cs"
  by (simp add: values_of_def List.map_filter_def)

lemma grid_sum: "list_all (grid_value k N) xs \<Longrightarrow> grid_value k (int (length xs) * N) (sum_list xs)"
proof (induction xs)
  case (Cons x xs)
  obtain z w where z: "x * 10 ^ k = of_int z" "\<bar>z\<bar> \<le> N" "sum_list xs * 10 ^ k = of_int w" "\<bar>w\<bar> \<le> int (length xs) * N"
    using Cons by (auto simp: grid_value_def)
  then show ?case by (auto simp: grid_value_def distrib_right intro!: exI [of _ "z + w"])
qed (simp add: grid_value_def)

lemma grid_square: "grid_value k N x \<Longrightarrow> grid_value (2 * k) (N * N) (x * x)"
proof -
  assume "grid_value k N x"
  then obtain z where z: "x * 10 ^ k = of_int z" "\<bar>z\<bar> \<le> N" by (auto simp: grid_value_def)
  have "x * x * 10 ^ (2 * k) = (x * 10 ^ k) * (x * 10 ^ k)" by (simp add: mult_2 power_add)
  then have "x * x * 10 ^ (2 * k) = of_int (z * z)" by (simp only: z(1) of_int_mult)
  moreover have "\<bar>z * z\<bar> \<le> N * N" unfolding abs_mult using z(2) by (intro mult_mono) auto
  ultimately show ?thesis unfolding grid_value_def by blast
qed

lemma on_grid_tight: "on_grid k A d \<Longrightarrow> grid_value k B (dec_val d) \<Longrightarrow> on_grid k B d"
proof (elim on_gridE)
  fix s c e z
  assume d: "d = Fin s c e" "0 \<le> c" and "grid_value k B (dec_val d)"
  then obtain w where "dec_val d * 10 ^ k = of_int w" "\<bar>w\<bar> \<le> B" by (auto simp: grid_value_def)
  then show "on_grid k B d" using d by (auto intro: on_gridI)
qed

lemma grid_value_mono: "grid_value k A v \<Longrightarrow> A \<le> B \<Longrightarrow> grid_value k B v"
  by (auto simp: grid_value_def)

lemma goodI:
  assumes "shaped m b" and e: "exact_bucket k A Q b" and s: "meaning b = stats_of hash64 m cs" and g: "grid_values k N cs" and "0 \<le> N"
  shows "good hash64 k N m cs b"
proof -
  let ?xs = "values_of cs"
  have len: "int (length ?xs) * N \<le> int (length cs) * N" "int (length ?xs) * (N * N) \<le> int (length cs) * (N * N)"
    using length_values [of cs] assms(5) by (auto intro!: mult_right_mono)
  have "grid_value k (int (length cs) * N) (sum_list ?xs)"
    using grid_value_mono [OF grid_sum len(1)] g by (simp add: grid_values_def)
  moreover have "list_all (grid_value (2 * k) (N * N)) (map (\<lambda>x. x * x) ?xs)" using g by (auto simp: grid_values_def list_all_iff grid_square)
  from grid_sum [OF this] have "grid_value (2 * k) (int (length cs) * (N * N)) (sum_list (map (\<lambda>x. x * x) ?xs))"
    using grid_value_mono [OF _ len(2)] by simp
  moreover have "map_option num_val (b_sum b) = role_value (roles_for (m_agg m)) Sum_value (sum_list ?xs)"
    "map_option num_val (b_sum_sq b) = role_value (roles_for (m_agg m)) Sum_sq (sum_list (map (\<lambda>x. x * x) ?xs))"
    using arg_cong [OF s, of s_sum] arg_cong [OF s, of s_sum_sq] by (simp_all add: meaning_def stats_of_def Let_def)
  moreover have known: "map_option num_val x = role_value v r y \<Longrightarrow> P y \<Longrightarrow> pred_option (\<lambda>n. P (num_val n)) x" for x v r y P
    by (cases x) (auto simp: role_value_def split: if_splits)
  ultimately have "pred_option (\<lambda>n. grid_value k (int (length cs) * N) (num_val n)) (b_sum b)"
    "pred_option (\<lambda>n. grid_value (2 * k) (int (length cs) * (N * N)) (num_val n)) (b_sum_sq b)" by blast+
  then have "exact_bucket k (int (length cs) * N) (int (length cs) * (N * N)) b"
    using e by (cases "b_sum b"; cases "b_sum_sq b") (auto simp: exact_bucket_def num_val_def intro: on_grid_tight)
  then show ?thesis using assms(1,3) by (simp add: good_def)
qed

lemma merge_nothing_sum:
  assumes "pred_option (\<lambda>n. on_grid k A (num_dec n)) y" and "A < 10 ^ 28" and "k \<le> 1000026"
  shows "\<exists>s. merge_role None y (num_add (or_zero None) (or_zero y)) = Inr s \<and> pred_option (\<lambda>n. on_grid k A (num_dec n)) s
    \<and> map_option num_val s = map_option num_val y"
proof (cases y)
  case (Some n)
  have z: "on_grid k 0 (num_dec (or_zero None))" "num_val (or_zero None) = 0" by (simp_all add: or_zero_def num_val_def)
  obtain r where "num_add (or_zero None) (or_zero y) = Inr r" "on_grid k A (num_dec r)" "num_val r = num_val n"
    using num_add_exact [OF z(1), of A "or_zero y"] or_zero_exact [of k A n] assms Some z(2) by auto
  then show ?thesis using Some by (intro exI [of _ "Some r"]) (simp add: merge_role_def andthen_def)
qed (simp add: merge_role_def)

text \<open>The first row of a merged bucket meets the empty dict.\<close>

lemma add_no_roles:
  assumes b: "shaped m b" "exact_bucket k A Q b" and small: "small_sums k A Q"
  shows "\<exists>c. add_roles no_roles b = Inr c \<and> shaped m c \<and> exact_bucket k A Q c \<and> meaning c = meaning b"
proof -
  note e = b(2) [unfolded exact_bucket_def] and roles = b(1) [unfolded shaped_def] and small = small [unfolded small_sums_def]
  obtain s where s: "merge_role None (b_sum b) (num_add (or_zero None) (or_zero (b_sum b))) = Inr s"
    "pred_option (\<lambda>n. on_grid k A (num_dec n)) s" "map_option num_val s = map_option num_val (b_sum b)"
    using merge_nothing_sum [of k A "b_sum b"] e small by auto
  obtain q where q: "merge_role None (b_sum_sq b) (num_add (or_zero None) (or_zero (b_sum_sq b))) = Inr q"
    "pred_option (\<lambda>n. on_grid (2 * k) Q (num_dec n)) q" "map_option num_val q = map_option num_val (b_sum_sq b)"
    using merge_nothing_sum [of "2 * k" Q "b_sum_sq b"] e small by auto
  have x: "merge_role None y (add_extreme f (flatten None) (flatten y)) = Inr y" for f y
    by (cases y) (simp_all add: merge_role_def add_extreme_def flatten_def andthen_def)
  have c: "merge_role None y (Inr (or_int None + or_int y)) = Inr y" for y
    by (cases y) (simp_all add: merge_role_def or_int_def andthen_def)
  have h: "merge_role None (b_hist b) (Inr (add_histograms (or_list [] None) (or_list [] (b_hist b)))) = Inr (b_hist b)"
    using e by (cases "b_hist b") (auto simp: merge_role_def or_list_def andthen_def add_histograms_def histogram_at_def bands_def intro!: nth_equalityI)
  have sk: "merge_role None (b_sketch b) (Inr (hll_union (or_list hll_empty None) (or_list hll_empty (b_sketch b)))) = Inr (b_sketch b)"
    using e or_list_length [of hll_registers] by (cases "b_sketch b") (auto simp: merge_role_def andthen_def hll_registers_def or_list_def)
  have l: "merge_role None y (Inr (later (flatten None) (flatten y))) = Inr y" for y :: "reading option option"
    by (cases y) (simp_all add: merge_role_def flatten_def andthen_def)
  let ?c = "b\<lparr>b_sum := s, b_sum_sq := q\<rparr>"
  have "add_roles no_roles b = Inr ?c"
    unfolding add_roles_def by (simp add: no_roles_def s(1) q(1) x c h sk l andthen_def)
  moreover have "shaped m ?c"
  proof -
    have role: "has_role m r x = has_role m r (map_option g x)" for r g and x :: "'z option" by simp
    show ?thesis using roles unfolding shaped_def by (simp add: role [of _ s num_val] role [of _ q num_val] s(3) q(3))
  qed
  moreover have "exact_bucket k A Q ?c" using e s(2) q(2) by (simp add: exact_bucket_def)
  moreover have "meaning ?c = meaning b" by (simp add: meaning_def s(3) q(3))
  ultimately show ?thesis by blast
qed

subsection \<open>Merging good rows\<close>

definition looked :: "folds \<Rightarrow> group_key \<Rightarrow> string \<Rightarrow> role_bucket option" where
  "looked out key name = (case map_of out key of None \<Rightarrow> None | Some f \<Rightarrow> map_of f name)"

definition well_keyed :: "folds \<Rightarrow> bool" where
  "well_keyed out \<longleftrightarrow> distinct (map fst out) \<and> list_all (\<lambda>kf. distinct (map fst (snd kf))) out"

definition bounded_by :: "nat \<Rightarrow> int \<Rightarrow> contribution list \<Rightarrow> bool" where
  "bounded_by k N cs \<longleftrightarrow> holds k N (int (length cs)) \<and> grid_values k N cs"

lemma holds_mono: "holds k N n \<Longrightarrow> i \<le> n \<Longrightarrow> holds k N i"
proof -
  assume h: "holds k N n" and "i \<le> n"
  then have "i * N \<le> n * N" "i * (N * N) \<le> n * (N * N)" by (auto simp: holds_def intro!: mult_right_mono)
  then show ?thesis using h \<open>i \<le> n\<close> by (auto simp: holds_def)
qed

lemma holds_small: "holds k N n \<Longrightarrow> small_sums k (n * N) (n * (N * N))"
  by (simp add: holds_def small_sums_def)

lemma values_append [simp]: "values_of (xs @ ys) = values_of xs @ values_of ys"
  by (simp add: values_of_def map_filter_append)

lemma bounded_append: "bounded_by k N (xs @ ys) \<Longrightarrow> bounded_by k N xs \<and> bounded_by k N ys"
  by (auto simp: bounded_by_def grid_values_def intro: holds_mono)

lemma merge_good:
  assumes "good hash64 k N m cs b" and "good hash64 k N m ds c" and "bounded_by k N (cs @ ds)"
  shows "\<exists>r. add_roles b c = Inr r \<and> good hash64 k N m (cs @ ds) r"
proof -
  have e: "int (length (cs @ ds)) * x = int (length cs) * x + int (length ds) * x" for x by (simp add: distrib_right)
  have "small_sums k (int (length (cs @ ds)) * N) (int (length (cs @ ds)) * (N * N))"
    using assms(3) by (intro holds_small) (simp add: bounded_by_def)
  then show ?thesis
    using add_roles_exact [of m b k _ _ c] assms(1,2) stats_roll.summary_append [of hash64 m cs ds] unfolding good_def e by metis
qed

lemma first_good: "good hash64 k N m cs b \<Longrightarrow> bounded_by k N cs \<Longrightarrow> \<exists>r. add_roles no_roles b = Inr r \<and> good hash64 k N m cs r"
  using add_no_roles [of m b k] holds_small [of k N "int (length cs)"] unfolding good_def bounded_by_def by metis

lemma looked_merge:
  assumes "bucket_at r = Some b" and "looked out (b, ru_dims r) (ru_measure r) = x" and "add_roles (case x of None \<Rightarrow> no_roles | Some y \<Rightarrow> y) (ru_roles r) = Inr m"
    and "well_keyed out"
  shows "\<exists>out'. merge_row bucket_at r out = Inr out' \<and> well_keyed out'
    \<and> (\<forall>key name. looked out' key name = (if key = (b, ru_dims r) \<and> name = ru_measure r then Some m else looked out key name))"
proof -
  define inner where "inner = (case map_of out (b, ru_dims r) of None \<Rightarrow> [] | Some f \<Rightarrow> f)"
  have in_d: "distinct (map fst inner)" using assms(4) by (auto simp: inner_def well_keyed_def list_all_iff split: option.splits dest!: map_of_SomeD)
  have roles: "roles_of inner (ru_measure r) = (case x of None \<Rightarrow> no_roles | Some y \<Rightarrow> y)"
    using assms(2) by (auto simp: roles_of_def looked_def inner_def split: option.splits)
  have "merge_row bucket_at r out = Inr (AList.update (b, ru_dims r) (AList.update (ru_measure r) m inner) out)"
    using assms(1,3) roles by (simp add: merge_row_def inner_def Let_def andthen_def)
  moreover have "well_keyed (AList.update (b, ru_dims r) (AList.update (ru_measure r) m inner) out)"
    using assms(4) in_d by (auto simp: well_keyed_def list_all_iff distinct_update dest!: in_update)
  moreover have "looked (AList.update (b, ru_dims r) (AList.update (ru_measure r) m inner) out) key name
      = (if key = (b, ru_dims r) \<and> name = ru_measure r then Some m else looked out key name)" for key name
    by (auto simp: looked_def inner_def dict_simps split: option.splits)
  ultimately show ?thesis by blast
qed

definition picked :: "(rollup \<Rightarrow> int option) \<Rightarrow> group_key \<Rightarrow> string \<Rightarrow> rollup list \<Rightarrow> rollup list" where
  "picked bucket_at key name rows = filter (\<lambda>r. bucket_at r = Some (fst key) \<and> ru_dims r = snd key \<and> ru_measure r = name) rows"

lemma picked_snoc: "picked f key name (rows @ [r]) = picked f key name rows @ (if f r = Some (fst key) \<and> ru_dims r = snd key \<and> ru_measure r = name then [r] else [])"
  by (simp add: picked_def)

lemma merge_rows_good:
  assumes ms: "distinct (map m_name ms)" and row: "\<And>r. r \<in> set rows \<Longrightarrow> \<exists>m \<in> set ms. ru_measure r = m_name m \<and> good hash64 k N m (C r) (ru_roles r)"
    and fit: "\<And>m key. m \<in> set ms \<Longrightarrow> bounded_by k N (concat (map C (picked bucket_at key (m_name m) rows)))"
  shows "\<exists>out. fold_result (merge_row bucket_at) rows [] = Inr out \<and> well_keyed out
    \<and> (\<forall>m \<in> set ms. \<forall>key. if picked bucket_at key (m_name m) rows = [] then looked out key (m_name m) = None
         else \<exists>b. looked out key (m_name m) = Some b \<and> good hash64 k N m (concat (map C (picked bucket_at key (m_name m) rows))) b)"
  using row fit
proof (induction rows rule: rev_induct)
  case Nil
  then show ?case by (simp add: picked_def looked_def well_keyed_def)
next
  case (snoc r rows)
  let ?says = "\<lambda>rows out m key. if picked bucket_at key (m_name m) rows = [] then looked out key (m_name m) = None
         else \<exists>b. looked out key (m_name m) = Some b \<and> good hash64 k N m (concat (map C (picked bucket_at key (m_name m) rows))) b"
  have fit: "bounded_by k N (concat (map C (picked bucket_at key (m_name m) rows)))" if "m \<in> set ms" for m key
    using snoc.prems(2) [OF that, of key] bounded_append [of k N "concat (map C (picked bucket_at key (m_name m) rows))" "C r"]
    by (simp add: picked_snoc split: if_splits)
  have row: "\<exists>m \<in> set ms. ru_measure r = m_name m \<and> good hash64 k N m (C r) (ru_roles r)" if "r \<in> set rows" for r
    using snoc.prems(1) [of r] that by simp
  obtain out where out: "fold_result (merge_row bucket_at) rows [] = Inr out" "well_keyed out" and says: "\<forall>m \<in> set ms. \<forall>key. ?says rows out m key"
    by atomize_elim (rule snoc.IH; erule row fit)
  have said: "?says rows out m key" if "m \<in> set ms" for m key by (rule bspec [OF says that, THEN spec])
  show ?case
  proof (cases "bucket_at r")
    case None
    then have "fold_result (merge_row bucket_at) (rows @ [r]) [] = Inr out"
      by (simp add: fold_result_append out(1) andthen_def merge_row_def)
    then show ?thesis using out(2) said None by (intro exI [of _ out]) (simp add: picked_snoc)
  next
    case (Some b)
    obtain m where m: "m \<in> set ms" "ru_measure r = m_name m" "good hash64 k N m (C r) (ru_roles r)"
      using snoc.prems(1) [of r] by auto
    let ?key = "(b, ru_dims r)"
    have new: "picked bucket_at ?key (m_name m) (rows @ [r]) = picked bucket_at ?key (m_name m) rows @ [r]"
      using Some m(2) by (simp add: picked_snoc)
    have bnd: "bounded_by k N (concat (map C (picked bucket_at ?key (m_name m) rows)) @ C r)"
      using snoc.prems(2) [OF m(1), of ?key] unfolding new by simp
    have "\<exists>x c. looked out ?key (m_name m) = x \<and> add_roles (case x of None \<Rightarrow> no_roles | Some y \<Rightarrow> y) (ru_roles r) = Inr c
        \<and> good hash64 k N m (concat (map C (picked bucket_at ?key (m_name m) rows)) @ C r) c"
    proof (cases "picked bucket_at ?key (m_name m) rows = []")
      case True
      then show ?thesis using said [OF m(1), of ?key] first_good [OF m(3)] bnd by auto
    next
      case False
      then obtain y where "looked out ?key (m_name m) = Some y" "good hash64 k N m (concat (map C (picked bucket_at ?key (m_name m) rows))) y"
        using said [OF m(1), of ?key] by auto
      then show ?thesis using merge_good [OF _ m(3) bnd] by auto
    qed
    then obtain x c where x: "looked out ?key (ru_measure r) = x" "add_roles (case x of None \<Rightarrow> no_roles | Some y \<Rightarrow> y) (ru_roles r) = Inr c"
      "good hash64 k N m (concat (map C (picked bucket_at ?key (m_name m) (rows @ [r])))) c"
      unfolding new m(2) by auto
    obtain out' where out': "merge_row bucket_at r out = Inr out'" "well_keyed out'"
      "\<And>key name. looked out' key name = (if key = ?key \<and> name = ru_measure r then Some c else looked out key name)"
      using looked_merge [of bucket_at r b out x c, OF Some x(1,2) out(2)] by blast
    have "?says (rows @ [r]) out' m' key" if m': "m' \<in> set ms" for m' key
    proof (cases "key = ?key \<and> m_name m' = ru_measure r")
      case True
      then have "m' = m" using m' m(1,2) ms by (simp add: distinct_map inj_on_def)
      then show ?thesis using True x(3) new by (auto simp: out'(3))
    next
      case False
      then have "picked bucket_at key (m_name m') (rows @ [r]) = picked bucket_at key (m_name m') rows"
        using Some by (cases key) (auto simp: picked_snoc)
      then show ?thesis using False said [OF m', of key] by (auto simp: out'(3))
    qed
    then have "\<forall>m \<in> set ms. \<forall>key. ?says (rows @ [r]) out' m key" by (intro ballI allI)
    moreover have "fold_result (merge_row bucket_at) (rows @ [r]) [] = Inr out'"
      by (simp add: fold_result_append out(1) andthen_def out'(1))
    ultimately show ?thesis using out'(2) by (intro exI [of _ out'] conjI)
  qed
qed

subsection \<open>Writing what was folded\<close>

text \<open>A fold shows the contributions \<open>CS m key\<close> when it holds their statistics, and has nothing where there are none.\<close>

definition fold_shows :: "(string \<Rightarrow> 64 word) \<Rightarrow> nat \<Rightarrow> int \<Rightarrow> measure list \<Rightarrow> (measure \<Rightarrow> group_key \<Rightarrow> contribution list) \<Rightarrow> folds \<Rightarrow> bool" where
  "fold_shows hash64 k N ms CS out \<longleftrightarrow> well_keyed out
     \<and> (\<forall>m \<in> set ms. \<forall>key. case looked out key (m_name m) of None \<Rightarrow> CS m key = [] | Some b \<Rightarrow> good hash64 k N m (CS m key) b)
     \<and> (\<forall>key f name b. (key, f) \<in> set out \<longrightarrow> (name, b) \<in> set f \<longrightarrow> name \<in> m_name ` set ms)"

lemma fold_showsD:
  assumes "fold_shows hash64 k N ms CS out"
  shows "well_keyed out" "m \<in> set ms \<Longrightarrow> case looked out key (m_name m) of None \<Rightarrow> CS m key = [] | Some b \<Rightarrow> good hash64 k N m (CS m key) b"
    "(key, f) \<in> set out \<Longrightarrow> (name, b) \<in> set f \<Longrightarrow> name \<in> m_name ` set ms"
  using assms unfolding fold_shows_def by blast+

text \<open>What the columns take: short names, no latest reading, and values where a measure needs them.\<close>

definition writable :: "nat \<Rightarrow> measure \<Rightarrow> bool" where
  "writable k m \<longleftrightarrow> m_agg m \<noteq> Agg_latest \<and> (m_agg m = Agg_stats \<longrightarrow> k \<le> 3) \<and> length (m_name m) \<le> 64"

definition short_dims :: "dims \<Rightarrow> bool" where
  "short_dims ds \<longleftrightarrow> list_all (\<lambda>v. case v of None \<Rightarrow> True | Some s \<Rightarrow> length s \<le> 128) ds"

definition valued :: "measure \<Rightarrow> contribution list \<Rightarrow> bool" where
  "valued m cs \<longleftrightarrow> (m_agg m \<noteq> Agg_count \<and> m_agg m \<noteq> Agg_distinct \<longrightarrow> length (values_of cs) = length cs)"

lemma good_is_empty:
  assumes "good hash64 k N m cs b" and "valued m cs" and "m_agg m \<noteq> Agg_latest"
  shows "is_empty_roles b \<longleftrightarrow> cs = []"
proof -
  have s: "meaning b = stats_of hash64 m cs" using assms(1) by (simp add: good_def)
  have "b_count b = role_value (roles_for (m_agg m)) Count_value (int (length cs))"
    "map_option (map_option dec_val) (b_min b) = role_value (roles_for (m_agg m)) Min_value (extreme_of Min (values_of cs))"
    "map_option (map_option dec_val) (b_max b) = role_value (roles_for (m_agg m)) Max_value (extreme_of Max (values_of cs))"
    using arg_cong [OF s, of s_count] arg_cong [OF s, of s_min] arg_cong [OF s, of s_max] by (simp_all add: meaning_def stats_of_def Let_def)
  moreover have "b_latest b = None" using assms(1,3) by (cases "m_agg m") (auto simp: good_def shaped_def has_role_def)
  ultimately show ?thesis using assms(2,3)
    by (cases "m_agg m") (auto simp: is_empty_roles_def role_value_def or_int_def flatten_def extreme_of_def valued_def split: if_splits)
qed

definition row_shows :: "(string \<Rightarrow> 64 word) \<Rightarrow> nat \<Rightarrow> int \<Rightarrow> measure \<Rightarrow> contribution list \<Rightarrow> rollup list \<Rightarrow> bool" where
  "row_shows hash64 k N m cs rows \<longleftrightarrow> (if cs = [] then rows = [] else \<exists>r. rows = [r] \<and> good hash64 k N m cs (ru_roles r))"

definition rows_at :: "string \<Rightarrow> uuid \<Rightarrow> string \<Rightarrow> group_key \<Rightarrow> rollup list \<Rightarrow> rollup list" where
  "rows_at cc def name key lev = filter (\<lambda>r. rollup_key r = (cc, def, name, key)) lev"

lemma filter_concat: "filter P (concat xss) = concat (map (filter P) xss)"
  by (induction xss) auto

text \<open>The rows of one measure and key are those of its bucket, when that is not empty.\<close>

lemma rows_for_at:
  assumes "well_keyed folded"
  shows "rows_at cc def name key (rows_for cc def now folded)
    = (case looked folded key name of None \<Rightarrow> []
       | Some b \<Rightarrow> if is_empty_roles b then []
         else [\<lparr>ru_customer = cc, ru_definition = def, ru_measure = name, ru_bucket = fst key, ru_dims = snd key, ru_roles = b, ru_computed = now\<rparr>])"
proof -
  let ?row = "\<lambda>k n b. \<lparr>ru_customer = cc, ru_definition = def, ru_measure = n, ru_bucket = fst k, ru_dims = snd k, ru_roles = b, ru_computed = now\<rparr>"
  have one: "filter (\<lambda>r. rollup_key r = (cc, def, name, key)) (map (\<lambda>(n, b). ?row k n b) (filter (\<lambda>(n, b). \<not> is_empty_roles b) f))
      = (if k = key then (case map_of f name of None \<Rightarrow> [] | Some b \<Rightarrow> if is_empty_roles b then [] else [?row key name b]) else [])"
    if "distinct (map fst f)" for k f
    using that
  proof (induction f)
    case (Cons nb f)
    obtain n b where nb: "nb = (n, b)" by force
    have "map_of f n = None" using Cons.prems nb by (simp add: map_of_eq_None_iff)
    then show ?case using Cons nb by (auto simp: rollup_key_def)
  qed simp
  have "filter (\<lambda>r. rollup_key r = (cc, def, name, key)) (concat (map (\<lambda>(k, f). map (\<lambda>(n, b). ?row k n b) (filter (\<lambda>(n, b). \<not> is_empty_roles b) f)) folded))
      = (case map_of folded key of None \<Rightarrow> [] | Some f \<Rightarrow> (case map_of f name of None \<Rightarrow> [] | Some b \<Rightarrow> if is_empty_roles b then [] else [?row key name b]))"
    using assms
  proof (induction folded)
    case (Cons kf folded)
    obtain k f where kf: "kf = (k, f)" by (metis surj_pair)
    have d: "distinct (map fst f)" "well_keyed folded" "map_of folded k = None"
      using Cons.prems kf by (auto simp: well_keyed_def map_of_eq_None_iff)
    show ?case using one [OF d(1), of k] Cons.IH [OF d(2)] d(3) kf by auto
  qed simp
  then show ?thesis by (auto simp: rows_at_def rows_for_def looked_def split: option.splits)
qed

lemma store_good:
  assumes "good hash64 k N m cs b" and "bounded_by k N cs" and "valued m cs" and "writable k m" and "cs \<noteq> []"
  shows "\<exists>b'. store_roles b = Inr b' \<and> good hash64 k N m cs b'"
proof -
  have v: "values_of cs \<noteq> []" if "m_agg m = Agg_percentile \<or> m_agg m = Agg_extent"
    using that assms(3,5) by (auto simp: valued_def)
  show ?thesis
    using store_roles_exact [of m b k "int (length cs) * N" "int (length cs) * (N * N)" hash64 cs N] v assms
    by (auto simp: good_def bounded_by_def holds_def writable_def)
qed

lemma distinct_by_filter: "(\<And>k. length (filter (\<lambda>x. f x = k) xs) \<le> 1) \<Longrightarrow> distinct (map f xs)"
proof (induction xs)
  case (Cons x xs)
  have "filter (\<lambda>y. f y = f x) xs = []" using Cons.prems [of "f x"] by simp
  moreover have "length (filter (\<lambda>y. f y = k) xs) \<le> 1" for k
    using Cons.prems [of k] by (cases "f x = k") auto
  ultimately show ?case using Cons.IH by (auto simp: filter_empty_conv)
qed simp

lemma list_all2_filter: "list_all2 R xs ys \<Longrightarrow> (\<And>x y. R x y \<Longrightarrow> P x = P y) \<Longrightarrow> list_all2 R (filter P xs) (filter P ys)"
  by (induction xs ys rule: list_all2_induct) auto

lemma rows_for_distinct: "well_keyed folded \<Longrightarrow> distinct (map rollup_key (rows_for cc def now folded))"
proof (rule distinct_by_filter)
  fix k :: rollup_id
  assume w: "well_keyed folded"
  obtain cc' def' name key where k: "k = (cc', def', name, key)" by (metis surj_pair)
  show "length (filter (\<lambda>r. rollup_key r = k) (rows_for cc def now folded)) \<le> 1"
  proof (cases "cc' = cc \<and> def' = def")
    case True
    then show ?thesis using rows_for_at [OF w, of cc def name key now] by (auto simp: rows_at_def k split: option.splits)
  next
    case False
    then have "filter (\<lambda>r. rollup_key r = k) (rows_for cc def now folded) = []"
      by (auto simp: filter_empty_conv rows_for_def rollup_key_def k)
    then show ?thesis by simp
  qed
qed

lemma rows_for_member:
  assumes "r \<in> set (rows_for cc def now folded)" and "well_keyed folded"
  shows "\<exists>key f name b. (key, f) \<in> set folded \<and> (name, b) \<in> set f \<and> looked folded key name = Some b \<and> \<not> is_empty_roles b
    \<and> r = \<lparr>ru_customer = cc, ru_definition = def, ru_measure = name, ru_bucket = fst key, ru_dims = snd key, ru_roles = b, ru_computed = now\<rparr>"
proof -
  obtain key f name b where r: "(key, f) \<in> set folded" "(name, b) \<in> set f" "\<not> is_empty_roles b"
    "r = \<lparr>ru_customer = cc, ru_definition = def, ru_measure = name, ru_bucket = fst key, ru_dims = snd key, ru_roles = b, ru_computed = now\<rparr>"
    using assms(1) by (auto simp: rows_for_def)
  have "distinct (map fst folded)" "distinct (map fst f)" using assms(2) r(1) by (auto simp: well_keyed_def list_all_iff)
  then have "looked folded key name = Some b" using r(1,2) by (simp add: looked_def)
  then show ?thesis using r by blast
qed

text \<open>A fold that is ready to be written into its buckets.\<close>

definition ready_fold :: "(string \<Rightarrow> 64 word) \<Rightarrow> nat \<Rightarrow> int \<Rightarrow> measure list \<Rightarrow> (measure \<Rightarrow> group_key \<Rightarrow> contribution list) \<Rightarrow> folds \<Rightarrow> int list \<Rightarrow> bool" where
  "ready_fold hash64 k N ms CS folded buckets \<longleftrightarrow> distinct (map m_name ms) \<and> fold_shows hash64 k N ms CS folded
     \<and> (\<forall>m key. m \<in> set ms \<longrightarrow> writable k m \<and> valued m (CS m key) \<and> bounded_by k N (CS m key))
     \<and> (\<forall>key f. (key, f) \<in> set folded \<longrightarrow> short_dims (snd key) \<and> fst key \<in> set buckets)"

lemma readyD:
  assumes "ready_fold hash64 k N ms CS folded buckets"
  shows "distinct (map m_name ms)" "fold_shows hash64 k N ms CS folded"
    "m \<in> set ms \<Longrightarrow> writable k m \<and> valued m (CS m key) \<and> bounded_by k N (CS m key)"
    "(key, f) \<in> set folded \<Longrightarrow> short_dims (snd key) \<and> fst key \<in> set buckets"
  using assms unfolding ready_fold_def by blast+

lemma ready_keyed: "ready_fold hash64 k N ms CS folded buckets \<Longrightarrow> well_keyed folded"
  using fold_showsD(1) [OF readyD(2)] .

lemma said: "ready_fold hash64 k N ms CS folded buckets \<Longrightarrow> m \<in> set ms \<Longrightarrow> looked folded key (m_name m) = Some b \<Longrightarrow> good hash64 k N m (CS m key) b \<and> (is_empty_roles b \<longleftrightarrow> CS m key = [])"
proof -
  assume ready: "ready_fold hash64 k N ms CS folded buckets" and m: "m \<in> set ms" and l: "looked folded key (m_name m) = Some b"
  note fold_showsD(2) [OF readyD(2) [OF ready] m, of key]
  then have "good hash64 k N m (CS m key) b" by (simp add: l)
  then show ?thesis using good_is_empty readyD(3) [OF ready m, of key] by (auto simp: writable_def)
qed

lemma unsaid: "ready_fold hash64 k N ms CS folded buckets \<Longrightarrow> m \<in> set ms \<Longrightarrow> looked folded key (m_name m) = None \<Longrightarrow> CS m key = []"
proof -
  assume ready: "ready_fold hash64 k N ms CS folded buckets" and m: "m \<in> set ms" and l: "looked folded key (m_name m) = None"
  note fold_showsD(2) [OF readyD(2) [OF ready] m, of key]
  then show ?thesis by (simp add: l)
qed

definition stored_as :: "(string \<Rightarrow> 64 word) \<Rightarrow> nat \<Rightarrow> int \<Rightarrow> measure list \<Rightarrow> (measure \<Rightarrow> group_key \<Rightarrow> contribution list) \<Rightarrow> int list \<Rightarrow> rollup \<Rightarrow> rollup \<Rightarrow> bool" where
  "stored_as hash64 k N ms CS buckets r s \<longleftrightarrow> store_rollup r = Inr s \<and> (\<exists>m \<in> set ms. ru_measure s = m_name m \<and> ru_bucket s \<in> set buckets
     \<and> good hash64 k N m (CS m (ru_bucket s, ru_dims s)) (ru_roles s))"

lemma row_stored:
  assumes ready: "ready_fold hash64 k N ms CS folded buckets" and r: "r \<in> set (rows_for cc def now folded)"
  shows "\<exists>s. stored_as hash64 k N ms CS buckets r s"
proof -
  obtain key f name b where r: "(key, f) \<in> set folded" "(name, b) \<in> set f" "looked folded key name = Some b" "\<not> is_empty_roles b"
    "r = \<lparr>ru_customer = cc, ru_definition = def, ru_measure = name, ru_bucket = fst key, ru_dims = snd key, ru_roles = b, ru_computed = now\<rparr>"
    using rows_for_member [OF r ready_keyed [OF ready]] by blast
  obtain m where m: "m \<in> set ms" "name = m_name m" using fold_showsD(3) [OF readyD(2) [OF ready] r(1,2)] by blast
  note g = said [OF ready m(1) r(3) [unfolded m(2)]]
  obtain b' where b': "store_roles b = Inr b'" "good hash64 k N m (CS m key) b'"
    using store_good [of hash64 k N m "CS m key" b] g readyD(3) [OF ready m(1), of key] r(4) by blast
  have "store_rollup r = Inr (r\<lparr>ru_roles := b'\<rparr>)"
    using readyD(4) [OF ready r(1)] readyD(3) [OF ready m(1)] b'(1) m(2)
    by (simp add: store_rollup_def r(5) short_dims_def writable_def andthen_def not_less)
  then show ?thesis using m b'(2) readyD(4) [OF ready r(1)] by (intro exI [of _ "r\<lparr>ru_roles := b'\<rparr>"]) (auto simp: stored_as_def r(5))
qed

lemma stored_key: "stored_as hash64 k N ms CS buckets r s \<Longrightarrow> rollup_key s = rollup_key r"
  using store_rollup_key by (auto simp: stored_as_def)

lemma all_stored: "ready_fold hash64 k N ms CS folded buckets \<Longrightarrow> \<exists>new. store_rollups (rows_for cc def now folded) = Inr new \<and> list_all2 (stored_as hash64 k N ms CS buckets) (rows_for cc def now folded) new"
proof -
  assume ready: "ready_fold hash64 k N ms CS folded buckets"
  have "\<forall>r \<in> set (rows_for cc def now folded). \<exists>s. stored_as hash64 k N ms CS buckets r s" using row_stored [OF ready] by blast
  then obtain S where "\<forall>r \<in> set (rows_for cc def now folded). stored_as hash64 k N ms CS buckets r (S r)" by metis
  then have "list_all2 (stored_as hash64 k N ms CS buckets) (rows_for cc def now folded) (map S (rows_for cc def now folded))"
    by (simp add: list_all2_map2 list.rel_refl_strong)
  moreover from this have "list_all2 (\<lambda>r s. store_rollup r = Inr s) (rows_for cc def now folded) (map S (rows_for cc def now folded))"
    by (rule list_all2_mono) (simp add: stored_as_def)
  ultimately show ?thesis unfolding store_rollups_Inr by blast
qed

lemma new_rows_show:
  assumes ready: "ready_fold hash64 k N ms CS folded buckets" and new: "list_all2 (stored_as hash64 k N ms CS buckets) (rows_for cc def now folded) new" and m: "m \<in> set ms"
  shows "row_shows hash64 k N m (CS m key) (rows_at cc def (m_name m) key new)"
proof -
  have at: "list_all2 (stored_as hash64 k N ms CS buckets) (rows_at cc def (m_name m) key (rows_for cc def now folded)) (rows_at cc def (m_name m) key new)"
    unfolding rows_at_def by (rule list_all2_filter [OF new]) (simp add: stored_key)
  show ?thesis
  proof (cases "CS m key = []")
    case True
    then have "rows_at cc def (m_name m) key (rows_for cc def now folded) = []"
      using said [OF ready m, of key] by (auto simp: rows_for_at [OF ready_keyed [OF ready]] split: option.splits)
    then show ?thesis using at True by (simp add: row_shows_def)
  next
    case False
    then obtain b where b: "looked folded key (m_name m) = Some b" using unsaid [OF ready m] by fastforce
    let ?r = "\<lparr>ru_customer = cc, ru_definition = def, ru_measure = m_name m, ru_bucket = fst key, ru_dims = snd key, ru_roles = b, ru_computed = now\<rparr>"
    have "rows_at cc def (m_name m) key (rows_for cc def now folded) = [?r]"
      using said [OF ready m b] False by (simp add: rows_for_at [OF ready_keyed [OF ready]] b)
    then obtain s where s: "rows_at cc def (m_name m) key new = [s]" "stored_as hash64 k N ms CS buckets ?r s" using at by (auto simp: list_all2_Cons1)
    obtain m' where m': "m' \<in> set ms" "ru_measure s = m_name m'" "good hash64 k N m' (CS m' (ru_bucket s, ru_dims s)) (ru_roles s)"
      using s(2) by (auto simp: stored_as_def)
    have "m_name m' = m_name m" "(ru_bucket s, ru_dims s) = key" using stored_key [OF s(2)] m'(2) by (auto simp: rollup_key_def)
    then have "m' = m" "(ru_bucket s, ru_dims s) = key" using m'(1) m readyD(1) [OF ready] by (auto simp: distinct_map inj_on_def)
    then show ?thesis using m'(3) s(1) False by (auto simp: row_shows_def)
  qed
qed

lemma replace_shows:
  assumes ready: "ready_fold hash64 k N ms CS folded buckets" and lev: "distinct (map rollup_key lev)"
  shows "\<exists>lev'. replace cc def buckets (rows_for cc def now folded) lev = Inr lev' \<and> distinct (map rollup_key lev')
    \<and> kept cc def buckets lev' = kept cc def buckets lev
    \<and> (\<forall>m \<in> set ms. \<forall>key. fst key \<in> set buckets \<longrightarrow> row_shows hash64 k N m (CS m key) (rows_at cc def (m_name m) key lev'))
    \<and> (\<forall>r \<in> set lev'. in_buckets cc def buckets r \<longrightarrow> ru_measure r \<in> m_name ` set ms)"
proof (cases "buckets = []")
  case True
  then show ?thesis using lev by (simp add: replace_def in_buckets_def)
next
  case False
  obtain new where new: "store_rollups (rows_for cc def now folded) = Inr new" "list_all2 (stored_as hash64 k N ms CS buckets) (rows_for cc def now folded) new"
    using all_stored [OF ready] by blast
  have in_rows: "inside cc def buckets (rows_for cc def now folded)" using readyD(4) [OF ready] by (intro rows_for_inside) auto
  have in_new: "inside cc def buckets new" by (rule store_rollups_inside [OF new(1) in_rows])
  have "map rollup_key new = map rollup_key (rows_for cc def now folded)"
    using new(2) by (induction rule: list_all2_induct) (simp_all add: stored_key)
  then have d: "distinct (map rollup_key new)" using rows_for_distinct [OF ready_keyed [OF ready]] by simp
  let ?lev = "kept cc def buckets lev @ new"
  have "rollup_key x \<noteq> rollup_key y" if "x \<in> set (kept cc def buckets lev)" "y \<in> set new" for x y
    using that in_new by (auto simp: kept_def inside_def list_all_iff in_buckets_def rollup_key_def)
  then have dist: "distinct (map rollup_key ?lev)"
    using lev d by (simp add: kept_def distinct_map_filter disjoint_iff image_iff) metis
  have "rows_at cc def name key (kept cc def buckets lev) = []" if "fst key \<in> set buckets" for name key
    using that by (auto simp: rows_at_def kept_def filter_empty_conv in_buckets_def rollup_key_def)
  then have "\<forall>m \<in> set ms. \<forall>key. fst key \<in> set buckets \<longrightarrow> row_shows hash64 k N m (CS m key) (rows_at cc def (m_name m) key ?lev)"
    using new_rows_show [OF ready new(2)] by (simp add: rows_at_def)
  moreover have "\<exists>x. stored_as hash64 k N ms CS buckets x s" if "s \<in> set new" for s
    using new(2) that by (auto simp: list_all2_conv_all_nth in_set_conv_nth)
  then have "\<forall>r \<in> set ?lev. in_buckets cc def buckets r \<longrightarrow> ru_measure r \<in> m_name ` set ms"
    by (fastforce simp: kept_def stored_as_def)
  moreover have "replace cc def buckets (rows_for cc def now folded) lev = Inr ?lev"
    using new(1) dist False by (auto simp: replace_Inr)
  ultimately show ?thesis using dist in_new by (intro exI [of _ ?lev]) simp
qed

end
