(* ===== verification/Calendar.thy ===== *)
theory Calendar
  imports Timestamps Rollups
begin

text \<open>
  The calendar. A day number and its year, month and day determine each other, so the first and the last day of a month
  enclose the days of that month and of no other.
\<close>

subsection \<open>The year of a day\<close>

text \<open>Days of the 400-year cycle before a year that begins in March.\<close>

definition year_start :: "int \<Rightarrow> int" where
  "year_start y = 365 * y + y div 4 - y div 100 + y div 400"

definition cycle_year :: "int \<Rightarrow> int" where
  "cycle_year doe = (doe - doe div 1460 + doe div 36524 - doe div 146096) div 365"

text \<open>A day of the cycle is so many centuries, so many four years and so many years after its start.\<close>

lemma cycle_parts:
  fixes doe :: int
  assumes "0 \<le> doe" and "doe < 146097"
  obtains c q s t where "0 \<le> c" "c \<le> 3" "0 \<le> q" "q \<le> 24" "0 \<le> s" "s \<le> 3" "0 \<le> t" "t \<le> 365"
    "t = 365 \<Longrightarrow> s = 3 \<and> (q < 24 \<or> c = 3)" "doe = 36524 * c + 1461 * q + 365 * s + t"
proof -
  define c where "c = min 3 (doe div 36524)"
  define r where "r = doe - 36524 * c"
  have c: "0 \<le> c" "c \<le> 3" using assms by (simp_all add: c_def)
  have "36524 * (doe div 36524) \<le> doe" "doe < 36524 * (doe div 36524) + 36524" by linarith+
  then have r: "0 \<le> r" "r \<le> 36524" "r = 36524 \<Longrightarrow> c = 3" using assms by (auto simp: r_def c_def min_def split: if_splits)
  define q u where "q = r div 1461" and "u = r mod 1461"
  have u: "r = 1461 * q + u" "0 \<le> u" "u \<le> 1460" by (auto simp: q_def u_def) 
  have q: "0 \<le> q" "q \<le> 24" using r u by linarith+
  define s where "s = min 3 (u div 365)"
  define t where "t = u - 365 * s"
  have s: "0 \<le> s" "s \<le> 3" using u by (simp_all add: s_def)
  have "365 * (u div 365) \<le> u" "u < 365 * (u div 365) + 365" by linarith+
  then have t: "0 \<le> t" "t \<le> 365" "t = 365 \<Longrightarrow> s = 3" using u by (auto simp: t_def s_def min_def split: if_splits)
  have "q < 24 \<or> c = 3" if "t = 365"
  proof (rule ccontr)
    assume "\<not> ?thesis"
    then have "q = 24" "r \<noteq> 36524" using q r(3) by auto
    then show False using t(3) [OF that] that r(2) u(1) by (simp add: t_def)
  qed
  moreover have "doe = 36524 * c + 1461 * q + 365 * s + t" using u(1) by (simp add: t_def r_def)
  ultimately show ?thesis using that c q s t by blast
qed

lemma year_start_parts:
  assumes "0 \<le> q" "q \<le> 24" "0 \<le> s" "s \<le> 3" "0 \<le> c" "c \<le> 3"
  shows "year_start (100 * c + 4 * q + s) = 36524 * c + 1461 * q + 365 * s"
proof -
  have "(100 * c + 4 * q + s) div 4 = 25 * c + q" using assms by linarith
  moreover have "(100 * c + 4 * q + s) div 100 = c" using assms by linarith
  moreover have "(100 * c + 4 * q + s) div 400 = 0" using assms by simp
  ultimately show ?thesis by (simp add: year_start_def)
qed

lemma cycle_year_parts:
  assumes "0 \<le> c" "c \<le> 3" "0 \<le> q" "q \<le> 24" "0 \<le> s" "s \<le> 3" "0 \<le> t" "t \<le> 365" "t = 365 \<Longrightarrow> s = 3 \<and> (q < 24 \<or> c = 3)"
  shows "cycle_year (36524 * c + 1461 * q + 365 * s + t) = 100 * c + 4 * q + s"
proof -
  let ?doe = "36524 * c + 1461 * q + 365 * s + t" and ?e = "24 * c + q + 365 * s + t"
  have e: "0 \<le> ?e" "?e < 2920" using assms by linarith+
  have four: "?doe div 1460 = 25 * c + q + ?e div 1460"
    using div_mult_self1 [of 1460 ?e "25 * c + q"] by (simp add: algebra_simps)
  have one: "?e div 1460 = (if 1460 \<le> ?e then 1 else 0)" using e by (auto simp: div_pos_geq)
  have last: "q = 24 \<and> s = 3 \<and> t = 365 \<longleftrightarrow> 36524 \<le> 1461 * q + 365 * s + t" using assms by linarith
  have "?doe div 36524 - ?doe div 146096 = c"
  proof (cases "q = 24 \<and> s = 3 \<and> t = 365")
    case True
    then have "c = 3" using assms(9) by auto
    then show ?thesis using True by simp
  next
    case False
    then have "?doe div 36524 = c" using last assms by linarith
    moreover have "?doe div 146096 = 0" using False last assms by simp
    ultimately show ?thesis by simp
  qed
  then have "?doe - ?doe div 1460 + ?doe div 36524 - ?doe div 146096 = 365 * (100 * c + 4 * q + s) + (t - ?e div 1460)"
    using four by simp
  moreover have "0 \<le> t - ?e div 1460 \<and> t - ?e div 1460 < 365"
    unfolding one using assms by (cases "t = 365") auto
  ultimately show ?thesis unfolding cycle_year_def by (metis int_div_pos_eq)
qed

lemma cycle_year_bounds:
  assumes "0 \<le> doe" and "doe < 146097"
  shows "0 \<le> doe - year_start (cycle_year doe) \<and> doe - year_start (cycle_year doe) \<le> 365
    \<and> (doe - year_start (cycle_year doe) = 365 \<longrightarrow> is_leap (cycle_year doe + 1)) \<and> 0 \<le> cycle_year doe \<and> cycle_year doe \<le> 399"
proof -
  obtain c q s t where p: "0 \<le> c" "c \<le> 3" "0 \<le> q" "q \<le> 24" "0 \<le> s" "s \<le> 3" "0 \<le> t" "t \<le> 365"
    "t = 365 \<Longrightarrow> s = 3 \<and> (q < 24 \<or> c = 3)" and doe: "doe = 36524 * c + 1461 * q + 365 * s + t"
    by (rule cycle_parts [OF assms]) blast
  have y: "cycle_year doe = 100 * c + 4 * q + s" unfolding doe by (rule cycle_year_parts) (use p in auto)
  have "doe - year_start (cycle_year doe) = t" unfolding y year_start_parts [OF p(3-6,1,2)] by (simp add: doe)
  moreover have "is_leap (cycle_year doe + 1)" if "t = 365"
  proof -
    have s: "s = 3" "q < 24 \<or> c = 3" using p(9) [OF that] by auto
    have "(100 * c + 4 * q + 3 + 1) mod 4 = 0" by presburger
    moreover have "(100 * c + 4 * q + 3 + 1) mod 100 \<noteq> 0 \<or> (100 * c + 4 * q + 3 + 1) mod 400 = 0"
    proof (cases "q = 24")
      case False
      have "(100 * c + 4 * q + 3 + 1) mod 100 = (4 * q + 4 + 100 * c) mod 100" by (simp add: algebra_simps)
      also have "\<dots> = 4 * q + 4" using False p(3,4) by simp
      finally show ?thesis using p(3) by simp
    qed (use s in simp)
    ultimately show ?thesis unfolding y s(1) is_leap_def by simp
  qed
  ultimately show ?thesis using p y by simp
qed

subsection \<open>The month of a day\<close>

definition month_slot :: "int \<Rightarrow> int" where
  "month_slot doy = (5 * doy + 2) div 153"

definition day_slot :: "int \<Rightarrow> int" where
  "day_slot doy = doy - (153 * month_slot doy + 2) div 5 + 1"

text \<open>The months from March on: their first days and lengths.\<close>

definition month_starts :: "int list" where
  "month_starts = [0, 31, 61, 92, 122, 153, 184, 214, 245, 275, 306, 337]"

lemma month_slots:
  assumes "0 \<le> doy" and "doy \<le> 365"
  shows "0 \<le> month_slot doy" and "month_slot doy \<le> 11" and "day_slot doy = doy - month_starts ! nat (month_slot doy) + 1"
    and "1 \<le> day_slot doy" and "day_slot doy \<le> [31, 30, 31, 30, 31, 31, 30, 31, 30, 31, 31, 29] ! nat (month_slot doy)"
    and "month_slot doy = 11 \<Longrightarrow> day_slot doy = 29 \<Longrightarrow> doy = 365"
proof -
  define j where "j = month_slot doy"
  have j: "153 * j \<le> 5 * doy + 2" "5 * doy + 2 < 153 * j + 153" by (simp_all add: j_def month_slot_def)
  then have r: "0 \<le> j" "j \<le> 11" using assms by linarith+
  then show "0 \<le> month_slot doy" "month_slot doy \<le> 11" by (simp_all add: j_def)
  have d: "day_slot doy = doy - (153 * j + 2) div 5 + 1" by (simp add: day_slot_def j_def)
  consider "j = 0" | "j = 1" | "j = 2" | "j = 3" | "j = 4" | "j = 5" | "j = 6" | "j = 7" | "j = 8" | "j = 9" | "j = 10" | "j = 11" using r by atomize_elim presburger
  then have "day_slot doy = doy - month_starts ! nat j + 1 \<and> 1 \<le> day_slot doy
    \<and> day_slot doy \<le> [31, 30, 31, 30, 31, 31, 30, 31, 30, 31, 31, 29] ! nat j \<and> (j = 11 \<longrightarrow> day_slot doy = 29 \<longrightarrow> doy = 365)"
    by cases (use j assms d in \<open>simp_all add: month_starts_def eval_nat_numeral\<close>)
  then show "day_slot doy = doy - month_starts ! nat (month_slot doy) + 1" "1 \<le> day_slot doy"
    "day_slot doy \<le> [31, 30, 31, 30, 31, 31, 30, 31, 30, 31, 31, 29] ! nat (month_slot doy)"
    "month_slot doy = 11 \<Longrightarrow> day_slot doy = 29 \<Longrightarrow> doy = 365" by (simp_all add: j_def)
qed

lemma civil_slots:
  "civil z0 = (let z = z0 + 719468; yoe = cycle_year (z mod 146097); doy = z mod 146097 - year_start yoe;
     m = (if month_slot doy < 10 then month_slot doy + 3 else month_slot doy - 9)
   in (yoe + z div 146097 * 400 + (if m \<le> 2 then 1 else 0), m, day_slot doy))"
proof -
  have e: "z - z div 146097 * 146097 = z mod 146097" for z :: int by (simp add: minus_div_mult_eq_mod)
  have y: "year_start yoe = 365 * yoe + yoe div 4 - yoe div 100" if "yoe = cycle_year (z mod 146097)" for yoe z
    using cycle_year_bounds [of "z mod 146097"] that by (simp add: year_start_def)
  show ?thesis unfolding civil_def Let_def e cycle_year_def [symmetric] y [OF refl] month_slot_def [symmetric] day_slot_def [symmetric] by (rule refl)
qed

subsection \<open>The date of a day\<close>

lemma days_before_cycle: "days_before_year (yoe + 400 * era + 1) = year_start yoe + 146097 * era"
proof -
  have "(yoe + 400 * era) div 4 = yoe div 4 + 100 * era" "(yoe + 400 * era) div 100 = yoe div 100 + 4 * era"
    "(yoe + 400 * era) div 400 = yoe div 400 + era" by linarith+
  then show ?thesis by (simp add: days_before_year_def year_start_def)
qed

lemma is_leap_cycle: "is_leap (y + 400 * era) = is_leap y"
proof -
  have "(y + 4 * (100 * era)) mod 4 = y mod 4" "(y + 100 * (4 * era)) mod 100 = y mod 100" by (rule mod_mult_self2)+
  then show ?thesis by (simp add: is_leap_def)
qed

lemma days_from_civil_year: "days_from_civil y m d = days_before_year y + sum_list (take (m - 1) (month_days y)) + d - 719163"
  by (simp only: days_from_civil_def days_before_year_def)

text \<open>A civil date is valid and counts back to its day.\<close>

lemma civil_valid:
  obtains y m d where "civil day = (y, int m, d)" "valid_date y m d" "days_from_civil y m d = day"
proof -
  define z era doe yoe doy where "z = day + 719468" and "era = z div 146097" and "doe = z mod 146097" and "yoe = cycle_year doe" and "doy = doe - year_start yoe"
  define j where "j = month_slot doy"
  have doe: "0 \<le> doe" "doe < 146097" "z = 146097 * era + doe" by (simp_all add: doe_def era_def)
  note b = cycle_year_bounds [OF doe(1,2), folded yoe_def doy_def]
  have doy: "0 \<le> doy" "doy \<le> 365" "doy = 365 \<Longrightarrow> is_leap (yoe + 1)" using b by (auto simp: doy_def yoe_def)
  note s = month_slots [OF doy(1,2), folded j_def]
  have day: "day = days_before_year (yoe + 400 * era + 1) + doy - 719468"
    using doe(3) by (simp add: days_before_cycle doy_def z_def)
  show ?thesis
  proof (cases "j < 10")
    case True
    define y m where "y = yoe + 400 * era" and "m = nat j + 3"
    have c: "civil day = (y, int m, day_slot doy)"
      using True s(1) by (simp add: civil_slots Let_def z_def [symmetric] era_def [symmetric] doe_def [symmetric] yoe_def [symmetric] doy_def [symmetric]
        j_def [symmetric] y_def m_def)
    have before: "days_before_year (y + 1) = days_before_year y + (if is_leap y then 366 else 365)" by (rule year_length)
    consider "j = 0" | "j = 1" | "j = 2" | "j = 3" | "j = 4" | "j = 5" | "j = 6" | "j = 7" | "j = 8" | "j = 9" using s(1) True by atomize_elim presburger
    then have "valid_date y m (day_slot doy) \<and> days_from_civil y m (day_slot doy) = day"
      by cases (use s day before in \<open>simp_all add: m_def valid_date_def month_days_def month_starts_def days_from_civil_year
        y_def [symmetric] eval_nat_numeral\<close>)
    then show ?thesis using that c by blast
  next
    case False
    define y m where "y = yoe + 400 * era + 1" and "m = nat (j - 9)"
    have c: "civil day = (y, int m, day_slot doy)"
      using False s(1,2) by (simp add: civil_slots Let_def z_def [symmetric] era_def [symmetric] doe_def [symmetric] yoe_def [symmetric] doy_def [symmetric]
        j_def [symmetric] y_def m_def)
    have leap: "doy = 365 \<Longrightarrow> is_leap y" using doy(3) is_leap_cycle [of "yoe + 1" era] by (simp add: y_def algebra_simps)
    have "j = 10 \<or> j = 11" using False s(2) by presburger
    then have "valid_date y m (day_slot doy) \<and> days_from_civil y m (day_slot doy) = day"
    proof
      assume "j = 11"
      moreover have "day_slot doy \<le> (if is_leap y then 29 else 28)" using s leap \<open>j = 11\<close> by (cases "day_slot doy = 29") auto
      ultimately show ?thesis using s(3,4) day
        by (simp add: m_def valid_date_def month_days_def month_starts_def days_from_civil_year y_def [symmetric] eval_nat_numeral)
    qed (use s day in \<open>simp add: m_def valid_date_def month_days_def month_starts_def days_from_civil_year y_def [symmetric] eval_nat_numeral\<close>)
    then show ?thesis using that c by blast
  qed
qed

lemma civil_unique:
  assumes "valid_date y m d"
  shows "civil (days_from_civil y m d) = (y, int m, d)"
proof -
  obtain y' m' d' where c: "civil (days_from_civil y m d) = (y', int m', d')" "valid_date y' m' d'" "days_from_civil y' m' d' = days_from_civil y m d"
    by (rule civil_valid)
  have "\<not> (y < y' \<or> y = y' \<and> (m < m' \<or> m = m' \<and> d < d'))" "\<not> (y' < y \<or> y' = y \<and> (m' < m \<or> m' = m \<and> d' < d))"
    using days_increase [OF assms c(2)] days_increase [OF c(2) assms] c(3) by auto
  then have "y = y' \<and> m = m' \<and> d = d'" by linarith
  then show ?thesis using c(1) by simp
qed

subsection \<open>The month of a day\<close>

definition next_month :: "int \<Rightarrow> nat \<Rightarrow> int \<times> nat" where
  "next_month y m = (y + int m div 12, nat (int m mod 12 + 1))"

lemma next_month_simps: "1 \<le> m \<Longrightarrow> m \<le> 12 \<Longrightarrow> next_month y m = (if m = 12 then (y + 1, 1) else (y, m + 1))"
  by (auto simp: next_month_def nat_add_distrib zdiv_int [symmetric])

lemma first_valid: "1 \<le> m \<Longrightarrow> m \<le> 12 \<Longrightarrow> valid_date y m 1"
  using month_days_facts(1,3) [of y] nth_mem [of "m - 1" "month_days y"] by (fastforce simp: valid_date_def)

lemma month_first:
  assumes "civil day = (y, int m, d)" and "valid_date y m d" and "days_from_civil y m d = day"
  shows "month_of day = days_from_civil y m 1" and "month_end (month_of day) = days_from_civil (fst (next_month y m)) (snd (next_month y m)) 1 - 1"
proof -
  show first: "month_of day = days_from_civil y m 1"
    using assms(3) by (simp add: month_of_def assms(1) days_from_civil_def)
  have "valid_date y m 1" using assms(2) by (intro first_valid) (simp_all add: valid_date_def)
  then show "month_end (month_of day) = days_from_civil (fst (next_month y m)) (snd (next_month y m)) 1 - 1"
    unfolding first month_end_def by (simp add: civil_unique next_month_def)
qed

lemma next_month_valid: "1 \<le> m \<Longrightarrow> m \<le> 12 \<Longrightarrow> valid_date (fst (next_month y m)) (snd (next_month y m)) 1"
  by (rule first_valid) (auto simp: next_month_simps)

text \<open>A month holds its days, and a day before another month's days is before its first.\<close>

lemma month_holds: "month_of day \<le> day" "day \<le> month_end (month_of day)" "month_of (month_of day) = month_of day"
proof -
  obtain y m d where c: "civil day = (y, int m, d)" "valid_date y m d" "days_from_civil y m d = day" by (rule civil_valid)
  note f = month_first [OF c]
  have v: "1 \<le> m" "m \<le> 12" "1 \<le> d" using c(2) by (simp_all add: valid_date_def)
  then show "month_of day \<le> day" using f(1) c(3) by (simp add: days_from_civil_def)
  have "days_from_civil y m d < days_from_civil (fst (next_month y m)) (snd (next_month y m)) 1"
    by (rule days_increase [OF c(2) next_month_valid]) (use v in \<open>auto simp: next_month_simps\<close>)
  then show "day \<le> month_end (month_of day)" using f(2) c(3) by simp
  have "civil (days_from_civil y m 1) = (y, int m, 1)" by (rule civil_unique) (use v in \<open>simp add: first_valid\<close>)
  then have "month_of (days_from_civil y m 1) = days_from_civil y m 1" by (simp add: month_of_def)
  then show "month_of (month_of day) = month_of day" unfolding f(1) .
qed

lemma month_before:
  assumes "month_of a < month_of b"
  shows "a < month_of b"
proof -
  obtain y m d where c: "civil a = (y, int m, d)" "valid_date y m d" "days_from_civil y m d = a" by (rule civil_valid)
  obtain y' m' d' where c': "civil b = (y', int m', d')" "valid_date y' m' d'" "days_from_civil y' m' d' = b" by (rule civil_valid)
  have v: "valid_date y m 1" "valid_date y' m' 1"
    using c(2) c'(2) by (auto simp: valid_date_def intro: first_valid [unfolded valid_date_def, THEN conjunct2, THEN conjunct2, THEN conjunct2])
  have "y < y' \<or> y = y' \<and> m < m'"
  proof (rule ccontr)
    assume "\<not> ?thesis"
    then have "y' < y \<or> y' = y \<and> (m' < m \<or> m' = m)" by auto
    then have "days_from_civil y' m' 1 \<le> days_from_civil y m 1" using days_increase [OF v(2,1)] by auto
    then show False using assms month_first(1) [OF c] month_first(1) [OF c'] by simp
  qed
  then have "days_from_civil y m d < days_from_civil y' m' 1" by (intro days_increase [OF c(2) v(2)]) auto
  then show ?thesis using c(3) month_first(1) [OF c'] by simp
qed

lemma months_span:
  assumes "months = map month_of dates" and "month_of day \<in> set months"
  shows "Min (set months) \<le> day" and "day \<le> month_end (Max (set months))"
proof -
  have "Min (set months) \<le> month_of day" using assms(2) by simp
  then show "Min (set months) \<le> day" using month_holds(1) [of day] by simp
  have top: "month_of day \<le> Max (set months)" using assms(2) by simp
  have "Max (set months) \<in> set months" using assms(2) by (intro Max_in) auto
  then obtain b where b: "Max (set months) = month_of b" by (auto simp: assms(1))
  show "day \<le> month_end (Max (set months))"
  proof (cases "month_of day = Max (set months)")
    case True
    then show ?thesis using month_holds(2) [of day] by simp
  next
    case False
    then have "month_of day < month_of b" using top b by linarith
    then have "day < month_of b" by (rule month_before)
    also have "\<dots> \<le> month_end (month_of b)" by (rule month_holds(2) [of "month_of b", unfolded month_holds(3)])
    finally show ?thesis by (simp add: b)
  qed
qed

lemma month_after:
  assumes "month_of a < month_of b"
  shows "month_end (month_of a) < month_of b"
proof -
  obtain y m d where c: "civil a = (y, int m, d)" "valid_date y m d" "days_from_civil y m d = a" by (rule civil_valid)
  obtain y' m' d' where c': "civil b = (y', int m', d')" "valid_date y' m' d'" "days_from_civil y' m' d' = b" by (rule civil_valid)
  have v: "1 \<le> m" "m \<le> 12" "1 \<le> m'" "m' \<le> 12" using c(2) c'(2) by (simp_all add: valid_date_def)
  have "\<not> (y' < y \<or> y' = y \<and> m' \<le> m)"
  proof
    assume "y' < y \<or> y' = y \<and> m' \<le> m"
    then have "y' = y \<and> m' = m \<or> y' < y \<or> y' = y \<and> m' < m" by auto
    then have "days_from_civil y' m' 1 \<le> days_from_civil y m 1" using days_increase [OF first_valid [OF v(3,4), of y'] first_valid [OF v(1,2), of y]] by auto
    then show False using assms month_first(1) [OF c] month_first(1) [OF c'] by simp
  qed
  then have "fst (next_month y m) < y' \<or> fst (next_month y m) = y' \<and> snd (next_month y m) \<le> m'"
    using v by (cases "m = 12") (simp_all add: next_month_simps, linarith+)
  then have "days_from_civil (fst (next_month y m)) (snd (next_month y m)) 1 \<le> days_from_civil y' m' 1"
    using days_increase [OF next_month_valid [OF v(1,2), of y] first_valid [OF v(3,4), of y']]
    by (cases "next_month y m = (y', m')") (auto simp: prod_eq_iff)
  then show ?thesis using month_first [OF c] month_first(1) [OF c'] by simp
qed

text \<open>The months divide the days: a day lies between the first and the last day of a month, as the monthly fold
  computes them, exactly when that month is the day's own. No day is in two months and none is in no month.
\<close>

theorem months_divide_the_days:
  "month_of day = month_of other \<longleftrightarrow> month_of other \<le> day \<and> day \<le> month_end (month_of other)"
proof (cases "month_of day = month_of other")
  case True
  then show ?thesis using month_holds [of day] by simp
next
  case False
  then consider "month_of day < month_of other" | "month_of other < month_of day" by linarith
  then show ?thesis
  proof cases
    case 1
    then show ?thesis using month_before by fastforce
  next
    case 2
    then show ?thesis using month_after [OF 2] month_holds(1) [of day] by auto
  qed
qed

end
