(* ===== verification/Levels.thy ===== *)
theory Levels
  imports Cascade Calendar
begin

text \<open>
  The levels of the cascade against the facts. A level shows the facts when every rollup of a definition holds the
  statistics of the facts of its bucket and dimensions, and a bucket without contributions has no rollup. Folding
  facts, merging hours into days and merging days into months all lead to levels that show the facts, so the way a day
  is routed does not change its numbers.
\<close>

subsection \<open>Facts that fold exactly\<close>

definition group_of :: "metric \<Rightarrow> (foldable \<Rightarrow> int option) \<Rightarrow> foldable list \<Rightarrow> group_key \<Rightarrow> row list" where
  "group_of d bucket_at facts key = map fo_row (filter (\<lambda>r. bucket_at r = Some (fst key) \<and> dim_key (fo_row r) d = snd key) facts)"

definition said_of :: "metric \<Rightarrow> (foldable \<Rightarrow> int option) \<Rightarrow> foldable list \<Rightarrow> measure \<Rightarrow> group_key \<Rightarrow> contribution list" where
  "said_of d bucket_at facts m key = contributions d m (group_of d bucket_at facts key)"

definition readable :: "nat \<Rightarrow> int \<Rightarrow> metric \<Rightarrow> foldable list \<Rightarrow> bool" where
  "readable k N d facts \<longleftrightarrow> distinct (map m_name (d_measures d)) \<and> list_all (writable k) (d_measures d) \<and> list_all well_typed (d_measures d)
     \<and> list_all (\<lambda>r. short_dims (dim_key (fo_row r) d) \<and> list_all (\<lambda>m. exact_row k N d m (fo_row r)) (d_measures d)) facts
     \<and> holds k N (int (length facts))"

lemma readable_measure: "readable k N d facts \<Longrightarrow> m \<in> set (d_measures d) \<Longrightarrow> writable k m \<and> well_typed m"
  by (auto simp: readable_def list_all_iff)

lemma contribution_valued:
  assumes "well_typed m" and "contribution d m r = Some c" and "m_agg m \<noteq> Agg_count" and "m_agg m \<noteq> Agg_distinct"
  shows "c_value c \<noteq> None"
proof -
  obtain v where v: "measured r m = Inr (Some v)" "c = Value v (row_moment r)"
    using assms(2,4) by (auto simp: contribution_def split: if_splits sum.splits option.splits)
  then have "v \<noteq> None" using safe_measured [OF assms(1), of r] assms(3) by (auto simp: fits_def)
  then show ?thesis using v(2) by auto
qed

lemma contributions_valued: "well_typed m \<Longrightarrow> valued m (contributions d m rows)"
proof -
  assume m: "well_typed m"
  have "length (values_of (contributions d m rows)) = length (contributions d m rows)"
    if agg: "m_agg m \<noteq> Agg_count" "m_agg m \<noteq> Agg_distinct"
  proof (induction rows)
    case (Cons r rows)
    show ?case
    proof (cases "contribution d m r")
      case (Some c)
      then obtain v where "c_value c = Some v" using contribution_valued [OF m Some agg] by auto
      then show ?thesis using Cons Some by (simp add: contributions_def values_of_def List.map_filter_def)
    qed (use Cons in \<open>simp add: contributions_def List.map_filter_def\<close>)
  qed (simp add: contributions_def values_of_def List.map_filter_def)
  then show ?thesis by (simp add: valued_def)
qed

lemma contribution_on_grid:
  assumes "exact_row k N d m r" and "contribution d m r = Some c" and "c_value c = Some v"
  shows "grid_value k N v"
proof -
  have agg: "m_agg m \<noteq> Agg_distinct" and con: "contributes r d m"
    using assms(2,3) by (auto simp: contribution_def split: if_splits sum.splits option.splits)
  obtain x where x: "measured r m = Inr (Some (Some x))" "v = dec_val x"
    using assms(2,3) agg con by (auto simp: contribution_def split: sum.splits option.splits)
  then have "on_grid k N x" using assms(1) agg con by (simp add: exact_row_def)
  then show ?thesis using x(2) by (elim on_gridE) (auto simp: grid_value_def)
qed

lemma contributions_length: "length (contributions d m rows) \<le> length rows"
  by (simp add: contributions_def List.map_filter_def)

lemma contributions_bounded:
  assumes "list_all (exact_row k N d m) rows" and "holds k N n" and "int (length rows) \<le> n"
  shows "bounded_by k N (contributions d m rows)"
proof -
  have "grid_values k N (contributions d m rows)"
    using assms(1) contribution_on_grid
    by (auto simp: grid_values_def list_all_iff values_of_def contributions_def List.map_filter_def)
  then show ?thesis using holds_mono [OF assms(2), of "int (length (contributions d m rows))"] contributions_length [of d m rows] assms(3)
    by (simp add: bounded_by_def)
qed

lemma group_exact:
  assumes "readable k N d facts" and "m \<in> set (d_measures d)"
  shows "list_all (exact_row k N d m) (group_of d bucket_at facts key)" and "length (group_of d bucket_at facts key) \<le> length facts"
  using assms by (auto simp: readable_def list_all_iff group_of_def)

lemma said_bounded:
  assumes "readable k N d facts" and "m \<in> set (d_measures d)"
  shows "writable k m \<and> valued m (said_of d bucket_at facts m key) \<and> bounded_by k N (said_of d bucket_at facts m key)"
  using readable_measure [OF assms] contributions_valued [of m] assms(1)
    contributions_bounded [OF group_exact(1) [OF assms], of "int (length facts)" bucket_at key] group_exact(2) [OF assms, of bucket_at key]
  by (auto simp: said_of_def readable_def)

subsection \<open>Folding facts\<close>

lemma fold_result_collect:
  assumes "\<And>x. x \<in> set xs \<Longrightarrow> \<exists>y. g x = Inr y"
  shows "\<exists>ys. fold_result (\<lambda>x out. andthen (g x) (\<lambda>y. Inr (out @ [(h x, y)]))) xs out = Inr (out @ ys)
    \<and> list_all2 (\<lambda>x (key, y). key = h x \<and> g x = Inr y) xs ys"
  using assms
proof (induction xs arbitrary: out)
  case (Cons x xs)
  obtain y where y: "g x = Inr y" using Cons.prems [of x] by auto
  obtain ys where "fold_result (\<lambda>x out. andthen (g x) (\<lambda>y. Inr (out @ [(h x, y)]))) xs (out @ [(h x, y)]) = Inr ((out @ [(h x, y)]) @ ys)"
    "list_all2 (\<lambda>x (key, y). key = h x \<and> g x = Inr y) xs ys"
    using Cons.IH [of "out @ [(h x, y)]"] Cons.prems by auto
  then show ?case using y by (intro exI [of _ "(h x, y) # ys"]) (simp add: andthen_def)
qed simp

lemma map_of_list_all2:
  assumes "list_all2 (\<lambda>x (key, y). key = fst x \<and> g (snd x) = Inr y) xs ys"
  shows "map_of ys key = (case map_of xs key of None \<Rightarrow> None | Some x \<Rightarrow> (case g x of Inr y \<Rightarrow> Some y | Inl e \<Rightarrow> None))"
  using assms by (induction xs ys rule: list_all2_induct) auto

lemma metric_fold_good:
  assumes "validate d approved kinds = []" and r: "readable k N d facts" and "set rows \<subseteq> fo_row ` set facts" and "length rows \<le> length facts"
  shows "\<exists>f. metric_fold hash64 rows d = Inr f \<and> map fst f = map m_name (d_measures d)
    \<and> (\<forall>m \<in> set (d_measures d). \<exists>b. map_of f (m_name m) = Some b \<and> good hash64 k N m (contributions d m rows) b)"
proof -
  have h: "holds k N (int (length rows))" using r assms(4) holds_mono by (auto simp: readable_def)
  have ex: "list_all (exact_row k N d m) rows" if "m \<in> set (d_measures d)" for m
    using r assms(3) that by (auto simp: readable_def list_all_iff)
  have "folds_exactly k N d rows"
    using ex h holds_small [OF h] by (auto simp: folds_exactly_def fits_rows_def list_all_iff holds_def)
  from metric_fold_exact [OF assms(1) _ this, of hash64] r
  obtain f B where f: "metric_fold hash64 rows d = Inr f" "map fst f = map m_name (d_measures d)"
    "\<forall>m \<in> set (d_measures d). map_of f (m_name m) = Some (B m) \<and> shaped m (B m)
      \<and> exact_bucket k (int (length rows) * N) (int (length rows) * (N * N)) (B m) \<and> meaning (B m) = stats_of hash64 m (contributions d m rows)"
    by (auto simp: readable_def)
  have "good hash64 k N m (contributions d m rows) (B m)" if "m \<in> set (d_measures d)" for m
    using f(3) that contributions_bounded [OF ex [OF that] h] h
    by (intro goodI [where A = "int (length rows) * N" and Q = "int (length rows) * (N * N)"]) (auto simp: bounded_by_def holds_def)
  then show ?thesis using f by blast
qed

lemma keyed_group: "map snd (filter (\<lambda>x. fst x = key) (keyed_rows d bucket_at facts)) = group_of d bucket_at facts key"
  by (induction facts) (auto simp: keyed_rows_def group_of_def List.map_filter_def split: option.splits)

lemma group_fold_ready:
  assumes "validate d approved kinds = []" and r: "readable k N d facts"
    and inside: "\<And>f b. f \<in> set facts \<Longrightarrow> bucket_at f = Some b \<Longrightarrow> b \<in> set buckets"
  shows "\<exists>folded. group_fold hash64 d bucket_at facts = Inr folded \<and> ready_fold hash64 k N (d_measures d) (said_of d bucket_at facts) folded buckets"
proof -
  let ?gs = "bucket fst (keyed_rows d bucket_at facts)"
  let ?fold = "\<lambda>g. metric_fold hash64 (map snd g) d"
  have at: "map_of ?gs key = (if key \<in> fst ` set (keyed_rows d bucket_at facts) then Some (filter (\<lambda>x. fst x = key) (keyed_rows d bucket_at facts)) else None)" for key
    by (rule lookup_bucket)
  have good: "\<exists>f. metric_fold hash64 (group_of d bucket_at facts key) d = Inr f \<and> map fst f = map m_name (d_measures d)
    \<and> (\<forall>m \<in> set (d_measures d). \<exists>b. map_of f (m_name m) = Some b \<and> good hash64 k N m (said_of d bucket_at facts m key) b)" for key
    unfolding said_of_def by (rule metric_fold_good [OF assms(1) r]) (auto simp: group_of_def)
  have "\<exists>y. ?fold (snd kg) = Inr y" if "kg \<in> set ?gs" for kg
  proof -
    have "map_of ?gs (fst kg) = Some (snd kg)" using that distinct_bucket by (metis map_of_is_SomeI prod.collapse)
    then have "map snd (snd kg) = group_of d bucket_at facts (fst kg)" using keyed_group [of "fst kg" d bucket_at facts] by (simp add: at split: if_splits)
    then show ?thesis using good [of "fst kg"] by auto
  qed
  from fold_result_collect [of ?gs "\<lambda>kg. ?fold (snd kg)" fst "[]", OF this]
  obtain folded where f: "group_fold hash64 d bucket_at facts = Inr folded"
    "list_all2 (\<lambda>kg (key, y). key = fst kg \<and> ?fold (snd kg) = Inr y) ?gs folded"
    by (auto simp: group_fold_def)
  note look = map_of_list_all2 [OF f(2)]
  have found: "map_of folded key = (if key \<in> fst ` set (keyed_rows d bucket_at facts)
      then (case metric_fold hash64 (group_of d bucket_at facts key) d of Inr y \<Rightarrow> Some y | Inl e \<Rightarrow> None) else None)" for key
    by (simp add: look at keyed_group)
  have keys: "map fst folded = map fst ?gs" using group_fold_keys [OF f(1)] .
  have d: "distinct (map fst folded)" using distinct_bucket by (simp add: keys)
  have entry: "map fst f = map m_name (d_measures d)" "key \<in> fst ` set (keyed_rows d bucket_at facts)" if "(key, f) \<in> set folded" for key f
  proof -
    have "map_of folded key = Some f" using that d by simp
    then show "map fst f = map m_name (d_measures d)" "key \<in> fst ` set (keyed_rows d bucket_at facts)"
      using good [of key] by (auto simp: found split: if_splits sum.splits)
  qed
  have names: "distinct (map m_name (d_measures d))" using r by (simp add: readable_def)
  have "well_keyed folded" using d entry(1) names by (auto simp: well_keyed_def list_all_iff)
  moreover have "case looked folded key (m_name m) of None \<Rightarrow> said_of d bucket_at facts m key = []
      | Some b \<Rightarrow> good hash64 k N m (said_of d bucket_at facts m key) b" if m: "m \<in> set (d_measures d)" for m key
  proof (cases "key \<in> fst ` set (keyed_rows d bucket_at facts)")
    case True
    then show ?thesis using good [of key] m by (auto simp: looked_def found)
  next
    case False
    then have "filter (\<lambda>x. fst x = key) (keyed_rows d bucket_at facts) = []" by (auto simp: filter_empty_conv)
    then have "group_of d bucket_at facts key = []" using keyed_group [of key d bucket_at facts] by simp
    then show ?thesis using False by (simp add: looked_def found said_of_def contributions_def List.map_filter_def)
  qed
  moreover have "name \<in> m_name ` set (d_measures d)" if "(key, f) \<in> set folded" "(name, b) \<in> set f" for key f name b
    using entry(1) [OF that(1)] that(2) by (metis fst_conv image_eqI list.set_map)
  ultimately have "fold_shows hash64 k N (d_measures d) (said_of d bucket_at facts) folded"
    unfolding fold_shows_def by blast
  moreover have "short_dims (snd key) \<and> fst key \<in> set buckets" if "(key, f) \<in> set folded" for key f
    using entry(2) [OF that] r inside by (auto simp: keyed_rows_def List.map_filter_def readable_def list_all_iff)
  ultimately have "ready_fold hash64 k N (d_measures d) (said_of d bucket_at facts) folded buckets"
    unfolding ready_fold_def using names said_bounded [OF r] by blast
  then show ?thesis using f(1) by blast
qed

subsection \<open>A level that shows the facts\<close>

definition level_shows ::
    "(string \<Rightarrow> 64 word) \<Rightarrow> nat \<Rightarrow> int \<Rightarrow> string \<Rightarrow> uuid \<Rightarrow> metric \<Rightarrow> (foldable \<Rightarrow> int option) \<Rightarrow> foldable list \<Rightarrow> (int \<Rightarrow> bool) \<Rightarrow> rollup list \<Rightarrow> bool" where
  "level_shows hash64 k N cc def d bucket_at facts P lev \<longleftrightarrow>
     (\<forall>m key. m \<in> set (d_measures d) \<longrightarrow> P (fst key) \<longrightarrow>
        row_shows hash64 k N m (said_of d bucket_at facts m key) (rows_at cc def (m_name m) key lev))
     \<and> (\<forall>r \<in> set lev. ru_customer r = cc \<longrightarrow> ru_definition r = def \<longrightarrow> P (ru_bucket r) \<longrightarrow> ru_measure r \<in> m_name ` set (d_measures d))"

lemma level_showsD:
  assumes "level_shows hash64 k N cc def d bucket_at facts P lev"
  shows "m \<in> set (d_measures d) \<Longrightarrow> P (fst key) \<Longrightarrow> row_shows hash64 k N m (said_of d bucket_at facts m key) (rows_at cc def (m_name m) key lev)"
    "r \<in> set lev \<Longrightarrow> ru_customer r = cc \<Longrightarrow> ru_definition r = def \<Longrightarrow> P (ru_bucket r) \<Longrightarrow> ru_measure r \<in> m_name ` set (d_measures d)"
  using assms unfolding level_shows_def by blast+

lemma level_shows_weaken: "level_shows hash64 k N cc def d bucket_at facts P lev \<Longrightarrow> (\<And>b. Q b \<Longrightarrow> P b) \<Longrightarrow> level_shows hash64 k N cc def d bucket_at facts Q lev"
  unfolding level_shows_def by blast

text \<open>What a key is told depends on the facts of its bucket only.\<close>

lemma said_of_cong:
  assumes "filter (\<lambda>r. bucket_at r = Some (fst key)) facts = filter (\<lambda>r. other_at r = Some (fst key)) others"
  shows "said_of d bucket_at facts m key = said_of d other_at others m key"
proof -
  have "map fo_row (filter (\<lambda>r. f r = Some (fst key) \<and> dim_key (fo_row r) d = snd key) xs)
      = map fo_row (filter (\<lambda>r. dim_key (fo_row r) d = snd key) (filter (\<lambda>r. f r = Some (fst key)) xs))" for f xs
    by (simp only: filter_filter conj_commute)
  note e = this
  show ?thesis unfolding said_of_def group_of_def e [of bucket_at] e [of other_at] assms by (rule refl)
qed

text \<open>Writing a fold into a level: inside its buckets the level shows what was folded, outside what it showed.\<close>

lemma rewrite_level:
  assumes old: "level_shows hash64 k N cc def d bucket_at old P lev" and lev: "distinct (map rollup_key lev)"
    and ready: "ready_fold hash64 k N (d_measures d) CS folded buckets"
    and inside: "\<And>m key. m \<in> set (d_measures d) \<Longrightarrow> fst key \<in> set buckets \<Longrightarrow> CS m key = said_of d bucket_at new m key"
    and outside: "\<And>b. P b \<Longrightarrow> b \<notin> set buckets \<Longrightarrow> filter (\<lambda>r. bucket_at r = Some b) old = filter (\<lambda>r. bucket_at r = Some b) new"
  shows "\<exists>lev'. replace cc def buckets (rows_for cc def now folded) lev = Inr lev' \<and> distinct (map rollup_key lev')
    \<and> level_shows hash64 k N cc def d bucket_at new (\<lambda>b. P b \<or> b \<in> set buckets) lev'"
proof -
  obtain lev' where r: "replace cc def buckets (rows_for cc def now folded) lev = Inr lev'" "distinct (map rollup_key lev')"
    "kept cc def buckets lev' = kept cc def buckets lev"
    "\<forall>m \<in> set (d_measures d). \<forall>key. fst key \<in> set buckets \<longrightarrow> row_shows hash64 k N m (CS m key) (rows_at cc def (m_name m) key lev')"
    "\<forall>r \<in> set lev'. in_buckets cc def buckets r \<longrightarrow> ru_measure r \<in> m_name ` set (d_measures d)"
    using replace_shows [OF ready lev] by blast
  have out: "rows_at cc def name key lev' = rows_at cc def name key lev" if "fst key \<notin> set buckets" for name key
  proof -
    have "rows_at cc def name key x = rows_at cc def name key (kept cc def buckets x)" for x
      using that by (auto simp: rows_at_def kept_def in_buckets_def rollup_key_def intro!: filter_cong)
    then show ?thesis using r(3) by metis
  qed
  have "row_shows hash64 k N m (said_of d bucket_at new m key) (rows_at cc def (m_name m) key lev')"
    if m: "m \<in> set (d_measures d)" and P: "P (fst key) \<or> fst key \<in> set buckets" for m key
  proof (cases "fst key \<in> set buckets")
    case True
    then show ?thesis using r(4) m inside [OF m True] by metis
  next
    case False
    then have "said_of d bucket_at old m key = said_of d bucket_at new m key" using P outside by (intro said_of_cong) auto
    then show ?thesis using level_showsD(1) [OF old m, of key] P False out by metis
  qed
  moreover have "ru_measure r \<in> m_name ` set (d_measures d)"
    if "r \<in> set lev'" "ru_customer r = cc" "ru_definition r = def" "P (ru_bucket r) \<or> ru_bucket r \<in> set buckets" for r
  proof (cases "ru_bucket r \<in> set buckets")
    case True
    then show ?thesis using r(5) that by (simp add: in_buckets_def)
  next
    case False
    then have "r \<in> set (kept cc def buckets lev')" using that(1) by (simp add: kept_def in_buckets_def)
    then have "r \<in> set lev" unfolding r(3) by (simp add: kept_def)
    then show ?thesis using level_showsD(2) [OF old] that False by blast
  qed
  ultimately have "level_shows hash64 k N cc def d bucket_at new (\<lambda>b. P b \<or> b \<in> set buckets) lev'"
    unfolding level_shows_def by blast
  then show ?thesis using r(1,2) by blast
qed

subsection \<open>Merging a level that shows the facts\<close>

lemma merge_rows_entries:
  assumes "fold_result (merge_row bucket_at) rows [] = Inr out" and "(key, f) \<in> set out"
  shows "(\<exists>r \<in> set rows. bucket_at r = Some (fst key) \<and> ru_dims r = snd key) \<and> fst ` set f \<subseteq> ru_measure ` set rows"
  using assms
proof (induction rows arbitrary: out key f rule: rev_induct)
  case (snoc r rows)
  then obtain out0 where one: "fold_result (merge_row bucket_at) rows [] = Inr out0" and last: "merge_row bucket_at r out0 = Inr out"
    by (auto simp: fold_result_append andthen_Inr)
  show ?case
  proof (cases "bucket_at r")
    case None
    then show ?thesis using snoc.IH [OF one, of key f] snoc.prems(2) last by (auto simp: merge_row_def)
  next
    case (Some b)
    define inner where "inner = (case map_of out0 (b, ru_dims r) of None \<Rightarrow> [] | Some f \<Rightarrow> f)"
    obtain m where out: "out = AList.update (b, ru_dims r) (AList.update (ru_measure r) m inner) out0"
      using last Some by (auto simp: merge_row_def Let_def andthen_Inr inner_def)
    consider "(key, f) \<in> set out0" | "key = (b, ru_dims r)" "f = AList.update (ru_measure r) m inner"
      using snoc.prems(2) unfolding out by (auto dest!: in_update)
    then show ?thesis
    proof cases
      case 1
      then show ?thesis using snoc.IH [OF one, of key f] by auto
    next
      case 2
      have "fst ` set inner \<subseteq> ru_measure ` set rows"
        using snoc.IH [OF one, of "(b, ru_dims r)"] by (cases "map_of out0 (b, ru_dims r)") (auto simp: inner_def dest!: map_of_SomeD)
      then have "fst ` set f \<subseteq> insert (ru_measure r) (ru_measure ` set rows)"
        unfolding 2(2) by (auto dest!: in_update)
      then show ?thesis using 2(1) Some by auto
    qed
  qed
qed simp

lemma map_filter_skip: "(\<And>x. x \<in> set xs \<Longrightarrow> Q x \<Longrightarrow> \<not> P x \<Longrightarrow> c x = None) \<Longrightarrow> (\<And>x. P x \<Longrightarrow> Q x) \<Longrightarrow>
    List.map_filter c (filter P xs) = List.map_filter c (filter Q xs)"
  by (induction xs) (auto simp: List.map_filter_simps split: option.splits)

lemma mset_map_filter_split:
  "(\<And>x. x \<in> set xs \<Longrightarrow> \<not> (P x \<and> Q x)) \<Longrightarrow>
    mset (List.map_filter c (filter P xs)) + mset (List.map_filter c (filter Q xs)) = mset (List.map_filter c (filter (\<lambda>x. P x \<or> Q x) xs))"
  by (induction xs) (auto simp: List.map_filter_simps split: option.splits)

text \<open>The contributions of the buckets of a list, put together.\<close>

lemma mset_buckets:
  assumes "distinct bs"
  shows "mset (concat (map (\<lambda>b. List.map_filter c (filter (\<lambda>r. f r = Some b \<and> R r) xs)) bs))
    = mset (List.map_filter c (filter (\<lambda>r. (\<exists>b \<in> set bs. f r = Some b) \<and> R r) xs))"
  using assms
proof (induction bs)
  case (Cons b bs)
  then have "mset (concat (map (\<lambda>b. List.map_filter c (filter (\<lambda>r. f r = Some b \<and> R r) xs)) (b # bs)))
      = mset (List.map_filter c (filter (\<lambda>r. f r = Some b \<and> R r) xs)) + mset (List.map_filter c (filter (\<lambda>r. (\<exists>b \<in> set bs. f r = Some b) \<and> R r) xs))"
    by simp
  also have "\<dots> = mset (List.map_filter c (filter (\<lambda>r. f r = Some b \<and> R r \<or> (\<exists>b \<in> set bs. f r = Some b) \<and> R r) xs))"
    by (rule mset_map_filter_split) (use Cons.prems in auto)
  also have "(\<lambda>r. f r = Some b \<and> R r \<or> (\<exists>b \<in> set bs. f r = Some b) \<and> R r) = (\<lambda>r. (\<exists>b \<in> set (b # bs). f r = Some b) \<and> R r)"
    by auto
  finally show ?case .
qed (simp add: List.map_filter_def)

lemma said_of_filter:
  "said_of d bucket_at facts m key
   = List.map_filter (contribution d m \<circ> fo_row) (filter (\<lambda>r. bucket_at r = Some (fst key) \<and> dim_key (fo_row r) d = snd key) facts)"
  by (simp add: said_of_def contributions_def group_of_def List.map_filter_def filter_map comp_def)

lemma bounded_order: "mset cs = mset ds \<Longrightarrow> bounded_by k N cs \<Longrightarrow> bounded_by k N ds"
proof -
  assume e: "mset cs = mset ds" and b: "bounded_by k N cs"
  have "set (values_of cs) = set (values_of ds)" unfolding values_of_def by (rule mset_eq_setD [OF map_filter_mset [OF e]])
  then show ?thesis using b mset_eq_length [OF e] by (simp add: bounded_by_def grid_values_def list_all_iff)
qed

text \<open>A rollup of a level that shows the facts is the one of its measure and key.\<close>

lemma shown_row:
  assumes "level_shows hash64 k N cc def d low facts P lev" and "r \<in> set lev" "ru_customer r = cc" "ru_definition r = def" "P (ru_bucket r)"
  shows "\<exists>m \<in> set (d_measures d). ru_measure r = m_name m \<and> good hash64 k N m (said_of d low facts m (ru_bucket r, ru_dims r)) (ru_roles r)
    \<and> said_of d low facts m (ru_bucket r, ru_dims r) \<noteq> []"
proof -
  obtain m where m: "m \<in> set (d_measures d)" "ru_measure r = m_name m" using level_showsD(2) [OF assms] by blast
  have "r \<in> set (rows_at cc def (m_name m) (ru_bucket r, ru_dims r) lev)"
    using assms(2-4) m(2) by (simp add: rows_at_def rollup_key_def)
  moreover have "row_shows hash64 k N m (said_of d low facts m (ru_bucket r, ru_dims r)) (rows_at cc def (m_name m) (ru_bucket r, ru_dims r) lev)"
    by (rule level_showsD(1) [OF assms(1) m(1)]) (simp add: assms(5))
  ultimately show ?thesis using m by (intro bexI [of _ m]) (auto simp: row_shows_def split: if_splits)
qed

lemma said_short: "readable k N d facts \<Longrightarrow> said_of d low facts m key \<noteq> [] \<Longrightarrow> short_dims (snd key)"
proof -
  assume r: "readable k N d facts" and "said_of d low facts m key \<noteq> []"
  then have "filter (\<lambda>r. low r = Some (fst key) \<and> dim_key (fo_row r) d = snd key) facts \<noteq> []"
    by (auto simp: said_of_filter List.map_filter_def filter_empty_conv)
  then obtain f where "f \<in> set facts" "dim_key (fo_row f) d = snd key" by (auto simp: filter_empty_conv)
  then show ?thesis using r by (auto simp: readable_def list_all_iff)
qed

lemma merge_ready:
  assumes r: "readable k N d facts" and lev: "level_shows hash64 k N cc def d low facts P lev" "distinct (map rollup_key lev)"
    and rows: "rows = filter (\<lambda>r. ru_customer r = cc \<and> ru_definition r = def \<and> R (ru_bucket r)) lev"
    and P: "\<And>b. R b \<Longrightarrow> P b" and up: "\<And>b x. up b = Some x \<Longrightarrow> x \<in> set buckets \<and> R b"
  shows "\<exists>folded. fold_result (merge_row (\<lambda>r. up (ru_bucket r))) rows [] = Inr folded
    \<and> ready_fold hash64 k N (d_measures d) (said_of d (\<lambda>r. Option.bind (low r) up) facts) folded buckets"
proof -
  let ?ms = "d_measures d" and ?at = "\<lambda>r. up (ru_bucket r)" and ?high = "\<lambda>r. Option.bind (low r) up"
  have names: "distinct (map m_name ?ms)" using r by (simp add: readable_def)
  define M where "M name = the (map_of (map (\<lambda>m. (m_name m, m)) ?ms) name)" for name
  have M: "M (m_name m) = m" if "m \<in> set ?ms" for m
  proof -
    have "map_of (map (\<lambda>m. (m_name m, m)) ?ms) (m_name m) = Some m"
      using that names by (intro map_of_is_SomeI) (auto simp: comp_def)
    then show ?thesis by (simp add: M_def)
  qed
  define C where "C r = said_of d low facts (M (ru_measure r)) (ru_bucket r, ru_dims r)" for r :: rollup
  have shown: "\<exists>m \<in> set ?ms. ru_measure r = m_name m \<and> good hash64 k N m (C r) (ru_roles r) \<and> C r \<noteq> []" if "r \<in> set rows" for r
    using shown_row [OF lev(1), of r] that P M by (fastforce simp: rows C_def)
  have told: "mset (concat (map C (picked ?at key (m_name m) rows))) = mset (said_of d ?high facts m key)" if m: "m \<in> set ?ms" for m key
  proof -
    let ?bs = "map ru_bucket (picked ?at key (m_name m) rows)" and ?c = "contribution d m \<circ> fo_row"
    let ?in = "\<lambda>r. dim_key (fo_row r) d = snd key"
    have "inj_on ru_bucket (set (picked ?at key (m_name m) rows))"
    proof (rule inj_onI)
      fix x y assume x: "x \<in> set (picked ?at key (m_name m) rows)" "y \<in> set (picked ?at key (m_name m) rows)" and "ru_bucket x = ru_bucket y"
      then have "rollup_key x = rollup_key y" by (auto simp: picked_def rows rollup_key_def)
      then show "x = y" using x lev(2) by (auto simp: picked_def rows distinct_map inj_on_def)
    qed
    moreover have "distinct (picked ?at key (m_name m) rows)" using lev(2) by (simp add: picked_def rows distinct_map)
    ultimately have bs: "distinct ?bs" by (simp add: distinct_map)
    have mapped: "map C (picked ?at key (m_name m) rows) = map (\<lambda>b. List.map_filter ?c (filter (\<lambda>r. low r = Some b \<and> ?in r) facts)) ?bs"
      by (auto simp: C_def picked_def M [OF m] said_of_filter intro!: map_cong)
    have "mset (concat (map C (picked ?at key (m_name m) rows))) = mset (List.map_filter ?c (filter (\<lambda>r. (\<exists>b \<in> set ?bs. low r = Some b) \<and> ?in r) facts))"
      unfolding mapped by (rule mset_buckets [OF bs])
    also have "List.map_filter ?c (filter (\<lambda>r. (\<exists>b \<in> set ?bs. low r = Some b) \<and> ?in r) facts) = said_of d ?high facts m key"
      unfolding said_of_filter
    proof (rule map_filter_skip)
      show "Option.bind (low x) up = Some (fst key) \<and> ?in x" if "(\<exists>b \<in> set ?bs. low x = Some b) \<and> ?in x" for x
        using that by (auto simp: picked_def)
      fix x assume x: "x \<in> set facts" "Option.bind (low x) up = Some (fst key) \<and> ?in x" "\<not> ((\<exists>b \<in> set ?bs. low x = Some b) \<and> ?in x)"
      then obtain b where b: "low x = Some b" "up b = Some (fst key)" "b \<notin> set ?bs" by (auto simp: bind_eq_Some_conv)
      show "?c x = None"
      proof (rule ccontr)
        assume "?c x \<noteq> None"
        then have "said_of d low facts m (b, snd key) \<noteq> []" using x(1,2) b(1) by (auto simp: said_of_filter List.map_filter_def filter_empty_conv)
        moreover have "row_shows hash64 k N m (said_of d low facts m (b, snd key)) (rows_at cc def (m_name m) (b, snd key) lev)"
          by (rule level_showsD(1) [OF lev(1) m]) (use P up [OF b(2)] in simp)
        ultimately obtain row where "rows_at cc def (m_name m) (b, snd key) lev = [row]" by (auto simp: row_shows_def)
        then have "row \<in> set (rows_at cc def (m_name m) (b, snd key) lev)" by simp
        then have "row \<in> set (picked ?at key (m_name m) rows)" "ru_bucket row = b"
          using up [OF b(2)] b(2) by (auto simp: rows_at_def picked_def rows rollup_key_def)
        then show False using b(3) by auto
      qed
    qed
    finally show ?thesis .
  qed
  have fit: "bounded_by k N (concat (map C (picked ?at key (m_name m) rows)))" if "m \<in> set ?ms" for m key
    using bounded_order [OF told [OF that, symmetric]] said_bounded [OF r that] by blast
  have row: "\<exists>m \<in> set ?ms. ru_measure r = m_name m \<and> good hash64 k N m (C r) (ru_roles r)" if "r \<in> set rows" for r
    using shown [OF that] by blast
  obtain out where out: "fold_result (merge_row ?at) rows [] = Inr out" "well_keyed out"
    and says: "\<forall>m \<in> set ?ms. \<forall>key. if picked ?at key (m_name m) rows = [] then looked out key (m_name m) = None
         else \<exists>b. looked out key (m_name m) = Some b \<and> good hash64 k N m (concat (map C (picked ?at key (m_name m) rows))) b"
    by atomize_elim (rule merge_rows_good [OF names]; erule row fit)
  have "case looked out key (m_name m) of None \<Rightarrow> said_of d ?high facts m key = [] | Some b \<Rightarrow> good hash64 k N m (said_of d ?high facts m key) b"
    if m: "m \<in> set ?ms" for m key
  proof (cases "picked ?at key (m_name m) rows = []")
    case True
    then have "said_of d ?high facts m key = []" using told [OF m, of key] by simp
    moreover have "looked out key (m_name m) = None" using bspec [OF says m, THEN spec, of key] True by simp
    ultimately show ?thesis by simp
  next
    case False
    then obtain b where b: "looked out key (m_name m) = Some b" "good hash64 k N m (concat (map C (picked ?at key (m_name m) rows))) b"
      using bspec [OF says m, THEN spec, of key] by auto
    have "m_agg m \<noteq> Agg_latest" using readable_measure [OF r m] by (simp add: writable_def)
    then show ?thesis using good_order [OF b(2) told [OF m]] b(1) by simp
  qed
  moreover have "name \<in> m_name ` set ?ms" if "(key, f) \<in> set out" "(name, b) \<in> set f" for key f name b
  proof -
    have "name \<in> ru_measure ` set rows" using merge_rows_entries [OF out(1) that(1)] that(2) by force
    then show ?thesis using shown by auto
  qed
  ultimately have fs: "fold_shows hash64 k N ?ms (said_of d ?high facts) out" using out(2) unfolding fold_shows_def by blast
  have "short_dims (snd key) \<and> fst key \<in> set buckets" if entry: "(key, f) \<in> set out" for key f
  proof -
    obtain x where x: "x \<in> set rows" "?at x = Some (fst key)" "ru_dims x = snd key" using merge_rows_entries [OF out(1) entry] by blast
    then show ?thesis using shown [OF x(1)] said_short [OF r] up [OF x(2)] by (metis C_def snd_conv)
  qed
  then have "ready_fold hash64 k N ?ms (said_of d ?high facts) out buckets"
    unfolding ready_fold_def using names fs said_bounded [OF r] by blast
  then show ?thesis using out(1) by blast
qed

end
