(* ===== verification/FactProperties.thy ===== *)
theory FactProperties
  imports Facts
begin

text \<open>
  What a range diff does to the fact table. The table is read through \<open>fact_at\<close>, one row per tenant and key;
  \<open>effect\<close> is what one verdict does to its key, and applying the verdicts of a diff is exactly their effects. From
  this: the range becomes its source, a second diff finds nothing, the ledger replays to the table, and the counters
  count rows.
\<close>

subsection \<open>The table as a mapping\<close>

definition row_key :: "stored_fact \<Rightarrow> string \<times> fact_key" where
  "row_key r = (sf_customer r, key_of (sf_fact r))"

definition keys_unique :: "stored_fact list \<Rightarrow> bool" where
  "keys_unique rows \<longleftrightarrow> distinct (map row_key rows)"

definition fact_at :: "stored_fact list \<Rightarrow> string \<Rightarrow> fact_key \<Rightarrow> stored_fact option" where
  "fact_at rows cc k = find (row_at cc k) rows"

lemma row_at_key: "row_at cc k r \<longleftrightarrow> row_key r = (cc, k)"
  by (auto simp: row_at_def row_key_def)

lemma find_append: "find P (xs @ ys) = (case find P xs of None \<Rightarrow> find P ys | Some x \<Rightarrow> Some x)"
  by (induction xs) auto

lemma fact_at_snoc: "fact_at (rows @ [r]) cc k = (case fact_at rows cc k of None \<Rightarrow> (if row_at cc k r then Some r else None) | Some x \<Rightarrow> Some x)"
  by (simp add: fact_at_def find_append split: option.split)

lemma fact_at_None: "fact_at rows cc k = None \<longleftrightarrow> \<not> list_ex (row_at cc k) rows"
  by (auto simp: fact_at_def find_None_iff list_ex_iff)

lemma fact_at_Some: "fact_at rows cc k = Some r \<Longrightarrow> r \<in> set rows \<and> row_at cc k r"
  by (auto simp: fact_at_def find_Some_iff)

lemma fact_at_iff:
  assumes "keys_unique rows"
  shows "fact_at rows cc k = Some r \<longleftrightarrow> r \<in> set rows \<and> row_at cc k r"
proof
  assume r: "r \<in> set rows \<and> row_at cc k r"
  then have "fact_at rows cc k \<noteq> None" by (auto simp: fact_at_None list_ex_iff)
  then obtain x where x: "fact_at rows cc k = Some x" by blast
  then have "row_key x = row_key r" "x \<in> set rows" using fact_at_Some [OF x] r by (auto simp: row_at_key)
  then have "x = r" using assms r by (auto simp: keys_unique_def distinct_map dest: inj_onD)
  then show "fact_at rows cc k = Some r" using x by simp
qed (rule fact_at_Some)

lemma fact_at_delete: "fact_at (delete_fact cc k rows) cc' k' = (if cc' = cc \<and> k' = k then None else fact_at rows cc' k')"
  by (induction rows) (auto simp: fact_at_def delete_fact_def row_at_key)

lemma keys_unique_delete: "keys_unique rows \<Longrightarrow> keys_unique (delete_fact cc k rows)"
  by (simp add: keys_unique_def delete_fact_def distinct_map_filter)

subsection \<open>Rows as the columns hold them\<close>

definition stored_form :: "fact \<Rightarrow> fact" where
  "stored_form f = (case to_columns f of Inl e \<Rightarrow> f | Inr g \<Rightarrow> g)"

lemma to_columns_facts:
  assumes "to_columns f = Inr g"
  shows "g = stored_form f" and "key_of g = key_of f" and "f_hash g = f_hash f" and "f_text g = f_text f" and "f_event g = f_event f"
  using assms by (auto simp: to_columns_def key_of_def andthen_def stored_form_def split: if_splits option.splits sum.splits)

definition storable :: "fact \<Rightarrow> bool" where
  "storable f \<longleftrightarrow> (case to_columns f of Inl e \<Rightarrow> False | Inr g \<Rightarrow> True)"

lemma storable_revision [simp]: "storable (f\<lparr>f_revision := n\<rparr>) = storable f"
  by (auto simp: storable_def to_columns_def andthen_def split: option.splits sum.splits if_splits)

lemma storable_columns: "storable f \<Longrightarrow> to_columns f = Inr (stored_form f)"
  by (auto simp: storable_def stored_form_def split: sum.splits)

subsection \<open>One verdict\<close>

definition effect :: "string \<Rightarrow> instant \<Rightarrow> fact_outcome \<Rightarrow> stored_fact option \<Rightarrow> stored_fact option" where
  "effect cc now o1 cur =
     (case o_action o1 of
        Unchanged \<Rightarrow> cur
      | Reverse \<Rightarrow> None
      | Insert \<Rightarrow> map_option (\<lambda>f. \<lparr>sf_customer = cc, sf_created = now, sf_fact = stored_form (f\<lparr>f_revision := 1\<rparr>)\<rparr>) (o_fact o1)
      | Update \<Rightarrow> (case (o_fact o1, o_stored o1) of
            (Some f, Some old) \<Rightarrow> map_option (\<lambda>r. r\<lparr>sf_fact := stored_form (f\<lparr>f_revision := next_revision old\<rparr>)\<rparr>) cur
          | _ \<Rightarrow> cur))"

text \<open>The verdict carries the rows of its key, and the table is as the verdict supposes.\<close>

definition sound_outcome :: "fact_outcome \<Rightarrow> bool" where
  "sound_outcome o1 \<longleftrightarrow>
     (o_action o1 \<noteq> Unchanged \<longrightarrow> pred_option (\<lambda>f. key_of f = o_key o1) (o_fact o1)) \<and>
     pred_option (\<lambda>f. key_of f = o_key o1) (o_stored o1) \<and>
     (o_action o1 = Insert \<or> o_action o1 = Update \<longrightarrow> o_fact o1 \<noteq> None) \<and>
     (o_action o1 = Reverse \<or> o_action o1 = Update \<longrightarrow> o_stored o1 \<noteq> None)"

lemma insert_fact_at:
  assumes "insert_fact cc now f rows = Inr rows'"
  shows "rows' = rows @ [\<lparr>sf_customer = cc, sf_created = now, sf_fact = stored_form f\<rparr>]" and "fact_at rows cc (key_of f) = None"
    and "fact_at rows' cc' k = (if cc' = cc \<and> k = key_of f then Some \<lparr>sf_customer = cc, sf_created = now, sf_fact = stored_form f\<rparr>
      else fact_at rows cc' k)"
    and "keys_unique rows \<Longrightarrow> keys_unique rows'"
proof -
  obtain g where g: "to_columns f = Inr g" "\<not> list_ex (row_at cc (key_of g)) rows"
    "rows' = rows @ [\<lparr>sf_customer = cc, sf_created = now, sf_fact = g\<rparr>]"
    using assms by (auto simp: insert_fact_def andthen_def split: sum.splits if_splits)
  note c = to_columns_facts [OF g(1)]
  show "rows' = rows @ [\<lparr>sf_customer = cc, sf_created = now, sf_fact = stored_form f\<rparr>]" using g(3) c(1) by simp
  have free: "fact_at rows cc (key_of f) = None" using g(2) c(2) by (simp add: fact_at_None)
  then show "fact_at rows cc (key_of f) = None" .
  show "fact_at rows' cc' k = (if cc' = cc \<and> k = key_of f then Some \<lparr>sf_customer = cc, sf_created = now, sf_fact = stored_form f\<rparr>
      else fact_at rows cc' k)"
    using free c(1,2) by (auto simp: g(3) fact_at_snoc row_at_def split: option.splits)
  show "keys_unique rows'" if "keys_unique rows"
    using that free c(2) by (auto simp: g(3) keys_unique_def fact_at_None list_ex_iff row_at_key row_key_def)
qed

lemma update_fact_at:
  assumes "update_fact cc k f rows = Inr rows'" and "key_of f = k"
  shows "fact_at rows' cc' k' = (if cc' = cc \<and> k' = k then map_option (\<lambda>r. r\<lparr>sf_fact := stored_form f\<rparr>) (fact_at rows cc' k') else fact_at rows cc' k')"
    and "map row_key rows' = map row_key rows" and "map sf_customer rows' = map sf_customer rows"
proof -
  obtain g where g: "to_columns f = Inr g" "rows' = map (\<lambda>r. if row_at cc k r then r\<lparr>sf_fact := g\<rparr> else r) rows"
    using assms by (auto simp: update_fact_def andthen_def split: sum.splits)
  have k: "key_of g = k" and s: "stored_form f = g" using to_columns_facts [OF g(1)] assms(2) by auto
  show "fact_at rows' cc' k' = (if cc' = cc \<and> k' = k then map_option (\<lambda>r. r\<lparr>sf_fact := stored_form f\<rparr>) (fact_at rows cc' k') else fact_at rows cc' k')"
    unfolding g(2) s by (induction rows) (auto simp: fact_at_def row_at_def k)
  show "map row_key rows' = map row_key rows" "map sf_customer rows' = map sf_customer rows"
    unfolding g(2) by (auto simp: row_key_def row_at_def k)
qed

lemma apply_outcome_at:
  assumes run: "apply_outcome cc now o1 (st, rows, log_rows) = Inr (st', rows', log_rows')" and sound: "sound_outcome o1"
  shows "fact_at rows' cc' k = (if cc' = cc \<and> k = o_key o1 then effect cc now o1 (fact_at rows cc' k) else fact_at rows cc' k)"
    and "keys_unique rows \<Longrightarrow> keys_unique rows'"
proof -
  note s = sound [unfolded sound_outcome_def]
  have "fact_at rows' cc' k = (if cc' = cc \<and> k = o_key o1 then effect cc now o1 (fact_at rows cc' k) else fact_at rows cc' k)
    \<and> (keys_unique rows \<longrightarrow> keys_unique rows')"
  proof (cases "o_action o1")
    case Insert
    then obtain f where f: "o_fact o1 = Some f" "key_of f = o_key o1" using s by auto
    then have i: "insert_fact cc now (f\<lparr>f_revision := 1\<rparr>) rows = Inr rows'"
      using run Insert by (auto simp: apply_outcome_def andthen_def split: sum.splits)
    have k: "key_of (f\<lparr>f_revision := 1\<rparr>) = o_key o1" using f(2) by (simp add: key_of_def)
    show ?thesis using insert_fact_at(3,4) [OF i] f(1) Insert unfolding k by (simp add: effect_def)
  next
    case Update
    then obtain f old where f: "o_fact o1 = Some f" "key_of f = o_key o1" "o_stored o1 = Some old" using s by auto
    then have u: "update_fact cc (o_key o1) (f\<lparr>f_revision := next_revision old\<rparr>) rows = Inr rows'"
      using run Update by (auto simp: apply_outcome_def andthen_def split: sum.splits)
    have k: "key_of (f\<lparr>f_revision := next_revision old\<rparr>) = o_key o1" using f(2) by (simp add: key_of_def)
    show ?thesis using update_fact_at [OF u k] f(1,3) Update by (simp add: effect_def keys_unique_def)
  next
    case Unchanged
    then show ?thesis using run by (auto simp: apply_outcome_def effect_def)
  next
    case Reverse
    then obtain old where "o_stored o1 = Some old" using s by auto
    then have "rows' = delete_fact cc (o_key o1) rows"
      using run Reverse by (auto simp: apply_outcome_def andthen_def split: sum.splits option.splits)
    then show ?thesis using Reverse by (simp add: effect_def fact_at_delete keys_unique_delete)
  qed
  then show "fact_at rows' cc' k = (if cc' = cc \<and> k = o_key o1 then effect cc now o1 (fact_at rows cc' k) else fact_at rows cc' k)"
    and "keys_unique rows \<Longrightarrow> keys_unique rows'" by blast+
qed

subsection \<open>All the verdicts of a diff\<close>

lemma fold_apply_at:
  assumes "fold_result (apply_outcome cc now) os (st, rows, log_rows) = Inr (st', rows', log_rows')"
    and "distinct (map o_key os)" and "list_all sound_outcome os"
  shows "fact_at rows' cc' k =
      (case find (\<lambda>o1. o_key o1 = k) os of
         Some o1 \<Rightarrow> if cc' = cc then effect cc now o1 (fact_at rows cc' k) else fact_at rows cc' k
       | None \<Rightarrow> fact_at rows cc' k)
    \<and> (keys_unique rows \<longrightarrow> keys_unique rows')"
  using assms
proof (induction os arbitrary: st rows log_rows)
  case (Cons o1 os)
  then obtain st1 rows1 log1 where one: "apply_outcome cc now o1 (st, rows, log_rows) = Inr (st1, rows1, log1)"
    and rest: "fold_result (apply_outcome cc now) os (st1, rows1, log1) = Inr (st', rows', log_rows')"
    by (auto simp: andthen_def split: sum.splits)
  note at1 = apply_outcome_at [OF one]
  have sound: "sound_outcome o1" "list_all sound_outcome os" "distinct (map o_key os)" using Cons.prems by auto
  have none: "find (\<lambda>o2. o_key o2 = k) os = None" if "k = o_key o1"
    using Cons.prems(2) that by (auto simp: find_None_iff image_iff)
  show ?case using Cons.IH [OF rest sound(3,2)] at1 [OF sound(1)] none
    by (auto split: option.splits)
qed simp

text \<open>Every verdict of a diff is sound, and knows the row of its key.\<close>

lemma diff_sound: "list_all sound_outcome (fact_diff stored source)"
proof -
  have "sound_outcome o1" if "o1 \<in> set (diff key_of f_hash stored source)" for o1
    using diff_outcome [OF that] by_key_in(2) [of key_of source "o_key o1"] by_key_in(2) [of key_of stored "o_key o1"]
    by (cases "o_action o1"; cases "o_stored o1") (auto simp: sound_outcome_def verdict_at_def split: option.splits if_splits)
  then show ?thesis by (simp add: list_all_iff fact_diff_def)
qed

lemma find_outcome: "find (\<lambda>o1. o_key o1 = k) os = Some o1 \<Longrightarrow> o1 \<in> set os \<and> o_key o1 = k"
  by (auto simp: find_Some_iff)

lemma find_diff_None: "find (\<lambda>o1. o_key o1 = k) (fact_diff stored source) = None \<longleftrightarrow> k \<notin> key_of ` set stored \<and> k \<notin> key_of ` set source"
proof -
  have "find (\<lambda>o1. o_key o1 = k) (fact_diff stored source) = None \<longleftrightarrow> k \<notin> set (map o_key (fact_diff stored source))"
    by (auto simp: find_None_iff)
  then show ?thesis using diff_keys [of key_of f_hash stored source] by (simp add: fact_diff_def)
qed

text \<open>What a diff leaves at a key: the stored row, its next version, a first version, or nothing.\<close>

definition settled :: "string \<Rightarrow> instant \<Rightarrow> fact option \<Rightarrow> fact option \<Rightarrow> stored_fact option \<Rightarrow> stored_fact option" where
  "settled cc now old new cur =
     (case (old, new) of
        (None, None) \<Rightarrow> cur
      | (Some x, None) \<Rightarrow> None
      | (None, Some f) \<Rightarrow> Some \<lparr>sf_customer = cc, sf_created = now, sf_fact = stored_form (f\<lparr>f_revision := 1\<rparr>)\<rparr>
      | (Some x, Some f) \<Rightarrow> (if f_hash x = f_hash f then cur
          else map_option (\<lambda>r. r\<lparr>sf_fact := stored_form (f\<lparr>f_revision := next_revision x\<rparr>)\<rparr>) cur))"

theorem apply_diff_at:
  assumes "apply_outcomes cc now (fact_diff stored source) db = Inr (st, db')"
  shows "fact_at (fact_rows db') cc' k =
      (if cc' = cc then settled cc now (map_of (by_key key_of stored) k) (map_of (by_key key_of source) k) (fact_at (fact_rows db) cc' k)
       else fact_at (fact_rows db) cc' k)"
    and "keys_unique (fact_rows db) \<Longrightarrow> keys_unique (fact_rows db')"
proof -
  let ?os = "fact_diff stored source"
  obtain rows log_rows where run: "fold_result (apply_outcome cc now) ?os (no_folds, fact_rows db, []) = Inr (st, rows, log_rows)"
    and db': "fact_rows db' = rows"
    using assms by (auto simp: apply_outcomes_def andthen_def split: sum.splits)
  have dist: "distinct (map o_key ?os)" by (simp add: fact_diff_def diff_keys_distinct)
  note at = fold_apply_at [OF run dist diff_sound]
  show "keys_unique (fact_rows db) \<Longrightarrow> keys_unique (fact_rows db')" using at db' by blast
  show "fact_at (fact_rows db') cc' k =
      (if cc' = cc then settled cc now (map_of (by_key key_of stored) k) (map_of (by_key key_of source) k) (fact_at (fact_rows db) cc' k)
       else fact_at (fact_rows db) cc' k)"
  proof (cases "find (\<lambda>o1. o_key o1 = k) ?os")
    case None
    then have "map_of (by_key key_of stored) k = None" "map_of (by_key key_of source) k = None"
      using find_diff_None [of k stored source] by (simp_all add: lookup_by_key)
    then show ?thesis using at [of cc' k] None by (simp add: db' settled_def)
  next
    case (Some o1)
    then have o1: "o1 \<in> set (diff key_of f_hash stored source)" "o_key o1 = k" using find_outcome [OF Some] by (auto simp: fact_diff_def)
    note v = diff_outcome [OF o1(1), unfolded o1(2)]
    have "effect cc now o1 cur = settled cc now (map_of (by_key key_of stored) k) (map_of (by_key key_of source) k) cur" for cur
      using v by (cases "o_action o1")
        (auto simp: effect_def settled_def verdict_at_def split: option.splits if_splits)
    then show ?thesis using at [of cc' k] Some by (simp add: db')
  qed
qed


subsection \<open>A diff of the stored range applies\<close>

text \<open>An update or a reversal has its row in the table; what is written fits the columns and inserts a free key.\<close>

definition backed :: "string \<Rightarrow> stored_fact list \<Rightarrow> fact_outcome \<Rightarrow> bool" where
  "backed cc rows o1 \<longleftrightarrow> (o_action o1 = Update \<or> o_action o1 = Reverse \<longrightarrow> fact_at rows cc (o_key o1) \<noteq> None)"

definition ready :: "string \<Rightarrow> stored_fact list \<Rightarrow> fact_outcome \<Rightarrow> bool" where
  "ready cc rows o1 \<longleftrightarrow>
     (case o_action o1 of
        Insert \<Rightarrow> pred_option storable (o_fact o1) \<and> fact_at rows cc (o_key o1) = None
      | Update \<Rightarrow> pred_option storable (o_fact o1)
      | Reverse \<Rightarrow> pred_option storable (o_stored o1)
      | Unchanged \<Rightarrow> True)"

lemma apply_outcome_ready:
  assumes "ready cc rows o1" and "sound_outcome o1"
  shows "\<exists>r. apply_outcome cc now o1 (st, rows, log_rows) = Inr r"
proof -
  have key: "key_of (stored_form f) = key_of f" if "storable f" for f
    using to_columns_facts(2) [OF storable_columns [OF that]] .
  have rev: "to_columns (f\<lparr>f_revision := n\<rparr>) = Inr (stored_form (f\<lparr>f_revision := n\<rparr>))"
      "key_of (f\<lparr>f_revision := n\<rparr>) = key_of f" if "storable f" for f n
    using that by (simp_all add: storable_columns key_of_def)
  show ?thesis
    using assms key rev
    by (cases "o_action o1"; cases "o_fact o1"; cases "o_stored o1")
      (auto simp: ready_def sound_outcome_def apply_outcome_def insert_fact_def update_fact_def make_ledger_row_def andthen_def fact_at_None)
qed

lemma elsewhere:
  assumes "apply_outcome cc now o1 (st, rows, log_rows) = Inr (st', rows', log_rows')" and "sound_outcome o1" and "o_key o2 \<noteq> o_key o1"
  shows "fact_at rows' cc (o_key o2) = fact_at rows cc (o_key o2)"
  using apply_outcome_at(1) [OF assms(1,2), of cc "o_key o2"] assms(3) by simp

lemma fold_apply_succeeds:
  assumes "distinct (map o_key os)" and "list_all sound_outcome os" and "list_all (ready cc rows) os"
  shows "\<exists>r. fold_result (apply_outcome cc now) os (st, rows, log_rows) = Inr r"
  using assms
proof (induction os arbitrary: st rows log_rows)
  case (Cons o1 os)
  have o1: "sound_outcome o1" "ready cc rows o1" using Cons.prems by auto
  obtain st1 rows1 log1 where one: "apply_outcome cc now o1 (st, rows, log_rows) = Inr (st1, rows1, log1)"
    using apply_outcome_ready [OF o1(2,1), of now st log_rows] by auto
  have "ready cc rows1 o2" if o2: "o2 \<in> set os" for o2
  proof -
    have key: "o_key o2 \<noteq> o_key o1" using Cons.prems(1) o2 by (auto simp: image_iff)
    have "ready cc rows o2" using Cons.prems(3) o2 by (simp add: list_all_iff)
    then show ?thesis using elsewhere [OF one o1(1) key] by (auto simp: ready_def split: action.splits)
  qed
  then have "list_all (ready cc rows1) os" by (simp add: list_all_iff)
  then show ?case using Cons.IH [of rows1 st1 log1] Cons.prems(1,2) one by (simp add: andthen_def)
qed simp

lemma fold_apply_induct:
  assumes run: "fold_result (apply_outcome cc now) os (st, rows, log_rows) = Inr (st', rows', log_rows')"
    and os: "distinct (map o_key os)" "list_all sound_outcome os" "list_all (backed cc rows) os"
    and start: "keys_unique rows" "P st rows log_rows"
    and step: "\<And>o1 st rows log_rows st' rows' log_rows'. sound_outcome o1 \<Longrightarrow> backed cc rows o1 \<Longrightarrow> keys_unique rows
      \<Longrightarrow> apply_outcome cc now o1 (st, rows, log_rows) = Inr (st', rows', log_rows') \<Longrightarrow> P st rows log_rows \<Longrightarrow> P st' rows' log_rows'"
  shows "P st' rows' log_rows'"
  using run os start
proof (induction os arbitrary: st rows log_rows)
  case (Cons o1 os)
  then obtain st1 rows1 log1 where one: "apply_outcome cc now o1 (st, rows, log_rows) = Inr (st1, rows1, log1)"
    and rest: "fold_result (apply_outcome cc now) os (st1, rows1, log1) = Inr (st', rows', log_rows')"
    by (auto simp: andthen_def split: sum.splits)
  have o1: "sound_outcome o1" "backed cc rows o1" using Cons.prems by auto
  have "backed cc rows1 o2" if o2: "o2 \<in> set os" for o2
  proof -
    have key: "o_key o2 \<noteq> o_key o1" using Cons.prems(2) o2 by (auto simp: image_iff)
    have "backed cc rows o2" using Cons.prems(4) o2 by (simp add: list_all_iff)
    then show ?thesis using elsewhere [OF one o1(1) key] by (simp add: backed_def)
  qed
  then have "list_all (backed cc rows1) os" by (simp add: list_all_iff)
  then show ?case
    using Cons.IH [OF rest] Cons.prems(2,3) apply_outcome_at(2) [OF one o1(1) Cons.prems(5)] step [OF o1 Cons.prems(5) one Cons.prems(6)]
    by simp
qed simp

text \<open>What the diff sees of the table.\<close>

definition in_scope :: "window \<Rightarrow> string list \<Rightarrow> fact \<Rightarrow> bool" where
  "in_scope w suppressed f \<longleftrightarrow> covers w True (f_event f) \<and> capture_gate suppressed (text_field f ''transaction_name'')"

lemma set_read_stored:
  "set (read_stored cc w suppressed db) = {sf_fact r | r. r \<in> set (fact_rows db) \<and> sf_customer r = cc \<and> in_scope w suppressed (sf_fact r)}"
  by (auto simp: read_stored_def in_scope_def)

lemma stored_at:
  assumes "keys_unique (fact_rows db)"
  shows "map_of (by_key key_of (read_stored cc w suppressed db)) k =
    (case fact_at (fact_rows db) cc k of
       Some r \<Rightarrow> if in_scope w suppressed (sf_fact r) then Some (sf_fact r) else None
     | None \<Rightarrow> None)"
proof -
  let ?m = "map_of (by_key key_of (read_stored cc w suppressed db)) k"
  have to: "fact_at (fact_rows db) cc k = Some r \<and> in_scope w suppressed (sf_fact r) \<and> sf_fact r = f"
    if "?m = Some f" "r \<in> set (fact_rows db)" "sf_customer r = cc" "in_scope w suppressed (sf_fact r)" "f = sf_fact r" for f r
    using that by_key_in(2) [OF that(1)] fact_at_iff [OF assms] by (simp add: row_at_def)
  show ?thesis
  proof (cases ?m)
    case (Some f)
    then obtain r where "r \<in> set (fact_rows db)" "sf_customer r = cc" "in_scope w suppressed (sf_fact r)" "f = sf_fact r"
      using by_key_in(1) [OF Some] by (auto simp: set_read_stored)
    then show ?thesis using to [OF Some] Some by auto
  next
    case None
    then have "k \<notin> key_of ` set (read_stored cc w suppressed db)" by (metis lookup_by_key option.distinct(1))
    then have "\<not> (r \<in> set (fact_rows db) \<and> row_at cc k r \<and> in_scope w suppressed (sf_fact r))" for r
      by (auto simp: set_read_stored row_at_def)
    then show ?thesis using None fact_at_iff [OF assms] by (auto split: option.splits)
  qed
qed

lemma diff_backed:
  assumes "keys_unique (fact_rows db)"
  shows "list_all (backed cc (fact_rows db)) (fact_diff (read_stored cc w suppressed db) source)"
proof -
  have "backed cc (fact_rows db) o1" if "o1 \<in> set (diff key_of f_hash (read_stored cc w suppressed db) source)" for o1
    using diff_outcome(1) [OF that] stored_at [OF assms, of cc w suppressed "o_key o1"]
    by (auto simp: backed_def verdict_at_def split: option.splits if_splits)
  then show ?thesis by (simp add: list_all_iff fact_diff_def)
qed

subsection \<open>The range becomes its source\<close>

text \<open>What the table keeps true: one row per tenant and key, every row as its columns hold it.\<close>

definition sound_table :: "stored_fact list \<Rightarrow> bool" where
  "sound_table rows \<longleftrightarrow> keys_unique rows \<and> list_all (\<lambda>r. storable (sf_fact r)) rows"

text \<open>The source of a range: one fact per key, inside the range, each of which fits its columns.\<close>

definition sound_source :: "window \<Rightarrow> string list \<Rightarrow> fact list \<Rightarrow> bool" where
  "sound_source w suppressed source \<longleftrightarrow>
     distinct (map key_of source) \<and> list_all (in_scope w suppressed) source \<and> list_all storable source"

text \<open>No row of the source hides behind the capture switch under another name.\<close>

definition none_hidden :: "string \<Rightarrow> window \<Rightarrow> string list \<Rightarrow> stored_fact list \<Rightarrow> fact list \<Rightarrow> bool" where
  "none_hidden cc w suppressed rows source \<longleftrightarrow>
     list_all (\<lambda>f. case fact_at rows cc (key_of f) of None \<Rightarrow> True | Some r \<Rightarrow> in_scope w suppressed (sf_fact r)) source"

definition identities :: "fact list \<Rightarrow> (fact_key \<times> string) set" where
  "identities fs = (\<lambda>f. (key_of f, f_hash f)) ` set fs"

lemma in_scope_stored: "storable f \<Longrightarrow> in_scope w suppressed (stored_form f) = in_scope w suppressed f"
  using to_columns_facts(4,5) [OF storable_columns, of f] by (simp add: in_scope_def text_field_def)

lemma diff_ready:
  assumes table: "sound_table (fact_rows db)" and source: "sound_source w suppressed source"
    and hidden: "none_hidden cc w suppressed (fact_rows db) source"
  shows "list_all (ready cc (fact_rows db)) (fact_diff (read_stored cc w suppressed db) source)"
proof -
  have unique: "keys_unique (fact_rows db)" using table by (simp add: sound_table_def)
  have "ready cc (fact_rows db) o1" if o1: "o1 \<in> set (diff key_of f_hash (read_stored cc w suppressed db) source)" for o1
  proof -
    let ?k = "o_key o1"
    note v = diff_outcome [OF o1] and at = stored_at [OF unique, of cc w suppressed ?k]
    have new: "storable f \<and> key_of f = ?k \<and> f \<in> set source" if "map_of (by_key key_of source) ?k = Some f" for f
      using by_key_in [OF that] source by (simp add: sound_source_def list_all_iff)
    have old: "storable f" if "map_of (by_key key_of (read_stored cc w suppressed db)) ?k = Some f" for f
      using by_key_in(1) [OF that] table by (auto simp: set_read_stored sound_table_def list_all_iff)
    have free: "fact_at (fact_rows db) cc ?k = None"
      if "map_of (by_key key_of source) ?k = Some f" "map_of (by_key key_of (read_stored cc w suppressed db)) ?k = None" for f
      using hidden new [OF that(1)] that(2) at by (auto simp: none_hidden_def list_all_iff split: option.splits if_splits)
    show ?thesis
      using v new old free by (cases "o_action o1") (auto simp: ready_def verdict_at_def split: option.splits if_splits)
  qed
  then show ?thesis by (simp add: list_all_iff fact_diff_def)
qed

lemma apply_succeeds:
  assumes "sound_table (fact_rows db)" and "sound_source w suppressed source" and "none_hidden cc w suppressed (fact_rows db) source"
  shows "\<exists>st db'. apply_outcomes cc now (fact_diff (read_stored cc w suppressed db) source) db = Inr (st, db')"
proof -
  have "distinct (map o_key (fact_diff (read_stored cc w suppressed db) source))" by (simp add: fact_diff_def diff_keys_distinct)
  from fold_apply_succeeds [OF this diff_sound diff_ready [OF assms], of now no_folds "[]"]
  show ?thesis by (auto simp: apply_outcomes_def andthen_def)
qed

text \<open>The table after the diff, key by key.\<close>

lemma after_diff:
  assumes table: "sound_table (fact_rows db)" and source: "sound_source w suppressed source"
    and hidden: "none_hidden cc w suppressed (fact_rows db) source"
    and run: "apply_outcomes cc now (fact_diff (read_stored cc w suppressed db) source) db = Inr (st, db')"
  shows "f \<in> set source \<Longrightarrow> \<exists>r. fact_at (fact_rows db') cc (key_of f) = Some r \<and> f_hash (sf_fact r) = f_hash f \<and> in_scope w suppressed (sf_fact r)"
    and "k \<notin> key_of ` set source \<Longrightarrow> fact_at (fact_rows db') cc k =
      (case fact_at (fact_rows db) cc k of Some r \<Rightarrow> if in_scope w suppressed (sf_fact r) then None else Some r | None \<Rightarrow> None)"
proof -
  have unique: "keys_unique (fact_rows db)" using table by (simp add: sound_table_def)
  note at = apply_diff_at(1) [OF run, of cc] and st = stored_at [OF unique, of cc w suppressed]
  show "\<exists>r. fact_at (fact_rows db') cc (key_of f) = Some r \<and> f_hash (sf_fact r) = f_hash f \<and> in_scope w suppressed (sf_fact r)"
    if f: "f \<in> set source"
  proof -
    have new: "map_of (by_key key_of source) (key_of f) = Some f"
      using f source by (intro by_key_unique) (simp_all add: sound_source_def)
    have f': "storable f" "in_scope w suppressed f" using f source by (simp_all add: sound_source_def list_all_iff)
    have hash: "f_hash (stored_form (f\<lparr>f_revision := n\<rparr>)) = f_hash f"
        "in_scope w suppressed (stored_form (f\<lparr>f_revision := n\<rparr>))" for n
      using f' to_columns_facts(3) [OF storable_columns, of "f\<lparr>f_revision := n\<rparr>"] in_scope_stored [of "f\<lparr>f_revision := n\<rparr>" w suppressed]
      by (simp_all add: in_scope_def text_field_def)
    have "\<And>r. fact_at (fact_rows db) cc (key_of f) = Some r \<Longrightarrow> in_scope w suppressed (sf_fact r)"
      using hidden f by (auto simp: none_hidden_def list_all_iff split: option.splits)
    then show ?thesis
      using at [of "key_of f"] st [of "key_of f"] new hash
      by (cases "fact_at (fact_rows db) cc (key_of f)") (auto simp: settled_def)
  qed
  show "fact_at (fact_rows db') cc k =
      (case fact_at (fact_rows db) cc k of Some r \<Rightarrow> if in_scope w suppressed (sf_fact r) then None else Some r | None \<Rightarrow> None)"
    if "k \<notin> key_of ` set source"
    using that at [of k] st [of k] by (auto simp: settled_def lookup_by_key split: option.splits)
qed

lemma identities_after:
  assumes "sound_table (fact_rows db)" and "sound_source w suppressed source"
    and "none_hidden cc w suppressed (fact_rows db) source"
    and run: "apply_outcomes cc now (fact_diff (read_stored cc w suppressed db) source) db = Inr (st, db')"
  shows "identities (read_stored cc w suppressed db') = identities source"
proof -
  note after = after_diff [OF assms]
  have unique: "keys_unique (fact_rows db')" using apply_diff_at(2) [OF run] assms(1) by (simp add: sound_table_def)
  show ?thesis
  proof (rule subset_antisym; rule subsetI)
    fix x assume "x \<in> identities (read_stored cc w suppressed db')"
    then obtain r where r: "r \<in> set (fact_rows db')" "sf_customer r = cc" "in_scope w suppressed (sf_fact r)"
      "x = (key_of (sf_fact r), f_hash (sf_fact r))"
      by (auto simp: identities_def set_read_stored)
    have fa: "fact_at (fact_rows db') cc (key_of (sf_fact r)) = Some r" using r by (simp add: fact_at_iff [OF unique] row_at_def)
    have "key_of (sf_fact r) \<in> key_of ` set source"
    proof (rule ccontr)
      assume "key_of (sf_fact r) \<notin> key_of ` set source"
      from after(2) [OF this] show False using fa r(3) by (auto split: option.splits if_splits)
    qed
    then obtain f where f: "f \<in> set source" "key_of f = key_of (sf_fact r)" by auto
    have "f_hash (sf_fact r) = f_hash f" using after(1) [OF f(1)] fa f(2) by simp
    then show "x \<in> identities source" using f r(4) by (auto simp: identities_def intro!: image_eqI [of _ _ f])
  next
    fix x assume "x \<in> identities source"
    then obtain f where f: "f \<in> set source" "x = (key_of f, f_hash f)" by (auto simp: identities_def)
    obtain r where r: "fact_at (fact_rows db') cc (key_of f) = Some r" "f_hash (sf_fact r) = f_hash f" "in_scope w suppressed (sf_fact r)"
      using after(1) [OF f(1)] by blast
    then have "r \<in> set (fact_rows db')" "sf_customer r = cc" "key_of (sf_fact r) = key_of f" using fact_at_Some [OF r(1)] by (auto simp: row_at_def)
    then show "x \<in> identities (read_stored cc w suppressed db')"
      using r f(2) by (auto simp: identities_def set_read_stored intro!: image_eqI [of _ _ "sf_fact r"])
  qed
qed

lemma same_identities_unchanged:
  assumes "identities stored = identities source" and "distinct (map key_of source)" and "distinct (map key_of stored)"
  shows "list_all (\<lambda>o1. o_action o1 = Unchanged) (fact_diff stored source)"
proof -
  have "o_action o1 = Unchanged" if "o1 \<in> set (diff key_of f_hash stored source)" for o1
  proof -
    have to: "\<exists>f'. map_of (by_key key_of b) k = Some f' \<and> f_hash f' = f_hash f"
      if "identities a = identities b" "distinct (map key_of b)" "map_of (by_key key_of a) k = Some f" for a b k f
    proof -
      have "(k, f_hash f) \<in> identities a" using by_key_in [OF that(3)] by (auto simp: identities_def)
      then have "(k, f_hash f) \<in> identities b" using that(1) by simp
      then obtain f' where "f' \<in> set b" "key_of f' = k" "f_hash f' = f_hash f" by (auto simp: identities_def)
      then show ?thesis using by_key_unique [OF that(2), of f'] by auto
    qed
    show ?thesis
      using diff_outcome(1) [OF that] to [OF assms(1,2)] to [OF assms(1) [symmetric] assms(3)]
      by (fastforce simp: verdict_at_def split: option.splits if_splits)
  qed
  then show ?thesis by (simp add: list_all_iff fact_diff_def)
qed

lemma distinct_read_stored: "keys_unique (fact_rows db) \<Longrightarrow> distinct (map key_of (read_stored cc w suppressed db))"
  by (auto simp: keys_unique_def read_stored_def distinct_map row_key_def inj_on_def)

lemma unchanged_writes_nothing:
  assumes "list_all (\<lambda>o1. o_action o1 = Unchanged) os"
  shows "apply_outcomes cc now os db = Inr (no_folds\<lparr>n_unchanged := length os\<rparr>, db)"
proof -
  have "fold_result (apply_outcome cc now) os (st, rows, log_rows) = Inr (st\<lparr>n_unchanged := n_unchanged st + length os\<rparr>, rows, log_rows)"
    for st rows log_rows
    using assms by (induction os arbitrary: st) (auto simp: apply_outcome_def andthen_def)
  then show ?thesis by (simp add: apply_outcomes_def andthen_def no_folds_def)
qed

text \<open>C17: Applying the range diff makes the range of a tenant its source. Every fact of the source is in the table with
  its fingerprint and nothing else of the range is, rows outside the range keep what they held, the tenant's other rows
  and the other tenants included, and a second diff of the same source finds every key unchanged and writes nothing. A
  merge, a split, a deletion and a retry are this one case.\<close>

theorem range_becomes_its_source:
  assumes "sound_table (fact_rows db)" and "sound_source w suppressed source"
    and "none_hidden cc w suppressed (fact_rows db) source"
  shows "\<exists>st db'. apply_outcomes cc now (fact_diff (read_stored cc w suppressed db) source) db = Inr (st, db')
    \<and> identities (read_stored cc w suppressed db') = identities source
    \<and> {r \<in> set (fact_rows db'). \<not> (sf_customer r = cc \<and> in_scope w suppressed (sf_fact r))}
      = {r \<in> set (fact_rows db). \<not> (sf_customer r = cc \<and> in_scope w suppressed (sf_fact r))}
    \<and> apply_outcomes cc later_on (fact_diff (read_stored cc w suppressed db') source) db' = Inr (no_folds\<lparr>n_unchanged := length source\<rparr>, db')"
proof -
  obtain st db' where run: "apply_outcomes cc now (fact_diff (read_stored cc w suppressed db) source) db = Inr (st, db')"
    using apply_succeeds [OF assms] by blast
  note ids = identities_after [OF assms run] and after = after_diff [OF assms run]
  have unique: "keys_unique (fact_rows db)" "keys_unique (fact_rows db')"
    using apply_diff_at(2) [OF run] assms(1) by (simp_all add: sound_table_def)
  have dist: "distinct (map key_of source)" using assms(2) by (simp add: sound_source_def)
  have outside: "(\<exists>k. fact_at (fact_rows db') c k = Some r) \<and> \<not> (c = cc \<and> in_scope w suppressed (sf_fact r))
      \<longleftrightarrow> (\<exists>k. fact_at (fact_rows db) c k = Some r) \<and> \<not> (c = cc \<and> in_scope w suppressed (sf_fact r))" for c r
  proof (cases "c = cc")
    case False
    then show ?thesis using apply_diff_at(1) [OF run] by simp
  next
    case True
    have hidden: "in_scope w suppressed (sf_fact x)" if "fact_at (fact_rows db) cc k = Some x" "k \<in> key_of ` set source" for x k
      using assms(3) that by (force simp: none_hidden_def list_all_iff)
    have "fact_at (fact_rows db') cc k = Some r \<longleftrightarrow> fact_at (fact_rows db) cc k = Some r" if out: "\<not> in_scope w suppressed (sf_fact r)" for k
    proof (cases "k \<in> key_of ` set source")
      case True
      then obtain f where f: "f \<in> set source" "k = key_of f" by auto
      have "fact_at (fact_rows db') cc k \<noteq> Some r" using after(1) [OF f(1)] f(2) out by auto
      moreover have "fact_at (fact_rows db) cc k \<noteq> Some r" using hidden True out by blast
      ultimately show ?thesis by blast
    next
      case False
      then show ?thesis using after(2) [OF False] out by (auto split: option.splits if_splits)
    qed
    then show ?thesis using True by blast
  qed
  have rows: "r \<in> set rows \<longleftrightarrow> (\<exists>k. fact_at rows (sf_customer r) k = Some r)" if "keys_unique rows" for r rows
    using fact_at_iff [OF that] by (auto simp: row_at_def)
  have "{r \<in> set (fact_rows db'). \<not> (sf_customer r = cc \<and> in_scope w suppressed (sf_fact r))}
      = {r \<in> set (fact_rows db). \<not> (sf_customer r = cc \<and> in_scope w suppressed (sf_fact r))}"
    using outside by (auto simp: rows [OF unique(1)] rows [OF unique(2)])
  moreover have "length (fact_diff (read_stored cc w suppressed db') source) = length source"
  proof -
    have same: "key_of ` set (read_stored cc w suppressed db') = key_of ` set source"
      using arg_cong [OF ids, of "image fst"] by (simp add: identities_def image_image)
    have "length (fact_diff (read_stored cc w suppressed db') source) = card (set (map o_key (fact_diff (read_stored cc w suppressed db') source)))"
      using distinct_card [OF diff_keys_distinct, of key_of f_hash] by (simp add: fact_diff_def del: set_map)
    also have "\<dots> = card (key_of ` set source)" using diff_keys [of key_of f_hash] same by (simp add: fact_diff_def)
    also have "\<dots> = length source" using dist distinct_card [of "map key_of source"] by simp
    finally show ?thesis .
  qed
  moreover note unchanged_writes_nothing [OF same_identities_unchanged [OF ids dist distinct_read_stored [OF unique(2)]], of cc later_on db']
  ultimately show ?thesis using run ids by auto
qed

subsection \<open>The ledger\<close>

definition ledger_says :: "ledger_row list \<Rightarrow> string \<Rightarrow> fact_key \<Rightarrow> fact option" where
  "ledger_says log_rows cc k =
     (let versions = filter (\<lambda>l. lr_customer l = cc \<and> key_of (lr_fact l) = k) log_rows; newest = last versions
      in if versions = [] \<or> lr_reason newest = ''reverse'' then None else Some (lr_fact newest))"

definition replays :: "stored_fact list \<Rightarrow> ledger_row list \<Rightarrow> bool" where
  "replays rows log_rows \<longleftrightarrow> (\<forall>cc k. map_option sf_fact (fact_at rows cc k) = ledger_says log_rows cc k)"

lemma ledger_says_snoc: "ledger_says (log_rows @ [l]) cc k =
    (if lr_customer l = cc \<and> key_of (lr_fact l) = k then (if lr_reason l = ''reverse'' then None else Some (lr_fact l))
     else ledger_says log_rows cc k)"
  by (simp add: ledger_says_def Let_def)

lemma ledger_row_fields:
  "make_ledger_row cc now reason n f = Inr l \<Longrightarrow>
    lr_customer l = cc \<and> lr_reason l = reason \<and> lr_fact l = stored_form (f\<lparr>f_revision := n\<rparr>) \<and> key_of (lr_fact l) = key_of f"
  using to_columns_facts(1,2) [of "f\<lparr>f_revision := n\<rparr>"] by (auto simp: make_ledger_row_def andthen_def key_of_def split: sum.splits)

lemma apply_outcome_replays:
  assumes run: "apply_outcome cc now o1 (st, rows, log_rows) = Inr (st', rows', log_rows')" and sound: "sound_outcome o1"
    and backed: "backed cc rows o1" and replays: "replays rows (base @ log_rows)"
  shows "replays rows' (base @ log_rows')"
proof -
  note at = apply_outcome_at(1) [OF run sound]
  show ?thesis
  proof (cases "o_action o1 = Unchanged")
    case True
    then show ?thesis using run replays by (auto simp: apply_outcome_def)
  next
    case False
    then obtain l where l: "log_rows' = log_rows @ [l]" "lr_customer l = cc" "key_of (lr_fact l) = o_key o1"
      "(if lr_reason l = ''reverse'' then None else Some (lr_fact l)) = map_option sf_fact (effect cc now o1 (fact_at rows cc (o_key o1)))"
      using run sound backed
      by (cases "o_action o1"; cases "o_fact o1"; cases "o_stored o1")
        (auto simp: apply_outcome_def sound_outcome_def backed_def effect_def andthen_def dest!: ledger_row_fields split: sum.splits)
    have before: "map_option sf_fact (fact_at rows c k) = ledger_says (base @ log_rows) c k" for c k
      using replays unfolding replays_def by blast
    show ?thesis
      unfolding replays_def
    proof (intro allI)
      fix c k
      show "map_option sf_fact (fact_at rows' c k) = ledger_says (base @ log_rows') c k"
        using at [of c k] l before [of c k] ledger_says_snoc [of "base @ log_rows" l c k] by auto
    qed
  qed
qed

lemma run_of_apply:
  assumes "apply_outcomes cc now os db = Inr (st, db')"
  shows "\<exists>log_rows. fold_result (apply_outcome cc now) os (no_folds, fact_rows db, []) = Inr (st, fact_rows db', log_rows)
    \<and> ledger db' = ledger db @ log_rows"
  using assms by (auto simp: apply_outcomes_def andthen_def split: sum.splits)

lemma ledger_kept:
  assumes "keys_unique (fact_rows db)" and "replays (fact_rows db) (ledger db)"
    and "apply_outcomes cc now (fact_diff (read_stored cc w suppressed db) source) db = Inr (st, db')"
  shows "keys_unique (fact_rows db') \<and> replays (fact_rows db') (ledger db')"
proof
  show "keys_unique (fact_rows db')" using apply_diff_at(2) [OF assms(3)] assms(1) by simp
  obtain log_rows where run: "fold_result (apply_outcome cc now) (fact_diff (read_stored cc w suppressed db) source) (no_folds, fact_rows db, []) =
      Inr (st, fact_rows db', log_rows)" and l: "ledger db' = ledger db @ log_rows"
    using run_of_apply [OF assms(3)] by blast
  have "distinct (map o_key (fact_diff (read_stored cc w suppressed db) source))" by (simp add: fact_diff_def diff_keys_distinct)
  from fold_apply_induct [OF run this diff_sound diff_backed [OF assms(1)] assms(1), where P = "\<lambda>st rows log_rows. replays rows (ledger db @ log_rows)"]
  show "replays (fact_rows db') (ledger db')" using assms(2) apply_outcome_replays l by auto
qed

text \<open>C18: The ledger replays to the table: for every tenant and key, the newest version the ledger holds is the row of the
  fact table, and there is no row exactly when there is no version or the newest one is a reversal. Whatever the source
  of a fold says, the writes of its diff keep this.\<close>

theorem ledger_replays_to_the_table:
  assumes "keys_unique (fact_rows db)" and "replays (fact_rows db) (ledger db)"
    and "apply_outcomes cc now (fact_diff (read_stored cc w suppressed db) source) db = Inr (st, db')"
  shows "keys_unique (fact_rows db') \<and> replays (fact_rows db') (ledger db')"
  using assms by (rule ledger_kept)

subsection \<open>The counters\<close>

definition rows_of :: "string \<Rightarrow> stored_fact list \<Rightarrow> nat" where
  "rows_of cc rows = length (filter (\<lambda>r. sf_customer r = cc) rows)"

lemma rows_of_map: "rows_of cc rows = length (filter (\<lambda>c. c = cc) (map sf_customer rows))"
  by (simp add: rows_of_def filter_map comp_def)

lemma rows_of_delete:
  assumes "keys_unique rows" and "fact_at rows cc k \<noteq> None"
  shows "Suc (rows_of cc (delete_fact cc k rows)) = rows_of cc rows"
proof -
  obtain r where r: "r \<in> set rows" "row_key r = (cc, k)" using assms(2) fact_at_Some by (fastforce simp: row_at_key)
  have "filter (row_at cc k) (filter (\<lambda>r. sf_customer r = cc) rows) = filter (\<lambda>x. row_key x = row_key r) rows"
    using r(2) by (auto simp: row_at_def row_key_def intro!: filter_cong)
  also have "\<dots> = [r]" by (rule filter_key_unique [OF assms(1) [unfolded keys_unique_def] r(1)])
  finally have one: "filter (row_at cc k) (filter (\<lambda>r. sf_customer r = cc) rows) = [r]" .
  show ?thesis
    using sum_length_filter_compl [of "row_at cc k" "filter (\<lambda>r. sf_customer r = cc) rows"] one
    by (simp add: rows_of_def delete_fact_def conj_commute)
qed

lemma apply_outcome_counts:
  assumes run: "apply_outcome cc now o1 (st, rows, log_rows) = Inr (st', rows', log_rows')" and sound: "sound_outcome o1"
    and backed: "backed cc rows o1" and unique: "keys_unique rows" and n: "rows_of cc rows + n_reversed st = base + n_inserted st"
  shows "rows_of cc rows' + n_reversed st' = base + n_inserted st'"
proof (cases "o_action o1")
  case Insert
  then obtain f where f: "o_fact o1 = Some f" using sound by (auto simp: sound_outcome_def)
  then obtain i where "insert_fact cc now (f\<lparr>f_revision := 1\<rparr>) rows = Inr rows'" "st' = st\<lparr>n_inserted := Suc (n_inserted st)\<rparr>"
    using run Insert by (auto simp: apply_outcome_def andthen_def split: sum.splits)
  then show ?thesis using insert_fact_at(1) n by (fastforce simp: rows_of_def)
next
  case Update
  then obtain f old where f: "o_fact o1 = Some f" "o_stored o1 = Some old" "key_of f = o_key o1" using sound by (auto simp: sound_outcome_def)
  then have u: "update_fact cc (o_key o1) (f\<lparr>f_revision := next_revision old\<rparr>) rows = Inr rows'" "st' = st\<lparr>n_updated := Suc (n_updated st)\<rparr>"
    using run Update by (auto simp: apply_outcome_def andthen_def split: sum.splits)
  have "map sf_customer rows' = map sf_customer rows" using update_fact_at(3) [OF u(1)] f(3) by (simp add: key_of_def)
  then have "rows_of cc rows' = rows_of cc rows"
    by (simp add: rows_of_map)
  then show ?thesis using n u(2) by simp
next
  case Unchanged
  then show ?thesis using run n by (auto simp: apply_outcome_def)
next
  case Reverse
  then have "rows' = delete_fact cc (o_key o1) rows" "st' = st\<lparr>n_reversed := Suc (n_reversed st)\<rparr>"
    using run sound by (auto simp: sound_outcome_def apply_outcome_def andthen_def split: sum.splits option.splits)
  then show ?thesis using rows_of_delete [OF unique, of cc "o_key o1"] backed Reverse n by (auto simp: backed_def)
qed

text \<open>The increment \<open>facts_total\<close> gets from a fold is exact.\<close>

lemma counters_count_rows:
  assumes "keys_unique (fact_rows db)"
    and "apply_outcomes cc now (fact_diff (read_stored cc w suppressed db) source) db = Inr (st, db')"
  shows "rows_of cc (fact_rows db') + n_reversed st = rows_of cc (fact_rows db) + n_inserted st"
proof -
  obtain log_rows where run: "fold_result (apply_outcome cc now) (fact_diff (read_stored cc w suppressed db) source) (no_folds, fact_rows db, []) =
      Inr (st, fact_rows db', log_rows)"
    using run_of_apply [OF assms(2)] by blast
  have "distinct (map o_key (fact_diff (read_stored cc w suppressed db) source))" by (simp add: fact_diff_def diff_keys_distinct)
  from fold_apply_induct [OF run this diff_sound diff_backed [OF assms(1)] assms(1),
      where P = "\<lambda>st rows log_rows. rows_of cc rows + n_reversed st = rows_of cc (fact_rows db) + n_inserted st"]
  show ?thesis using apply_outcome_counts by (auto simp: no_folds_def)
qed

subsection \<open>Samples\<close>

definition sample_fact :: "uuid \<Rightarrow> string \<Rightarrow> string \<Rightarrow> fact" where
  "sample_fact i h name = \<lparr>f_txn = i, f_started = Some 5, f_hash = h, f_revision = 1, f_event = Some 5, f_day = Some 0,
     f_duration = None, f_class = ''pick'', f_quantity = Some (Fin False 30 0), f_text = [(''transaction_name'', Some name)], f_attrs = []\<rparr>"

definition sample_facts :: fact_db where
  "sample_facts = \<lparr>fact_rows = [\<lparr>sf_customer = ''acme'', sf_created = 1, sf_fact = sample_fact 1 ''a'' ''Pick''\<rparr>,
     \<lparr>sf_customer = ''acme'', sf_created = 1, sf_fact = sample_fact 3 ''a'' ''Pick''\<rparr>], ledger = []\<rparr>"

definition whole_line :: window where
  "whole_line = \<lparr>w_start = None, w_end = None\<rparr>"

definition sample_range :: "fact list" where
  "sample_range = [sample_fact 1 ''b'' ''Pick'', sample_fact 2 ''c'' ''Pick'']"

lemma fact_sample_ids: "uuid_str 1 = ''00000000-0000-0000-0000-000000000001''" "uuid_str 2 = ''00000000-0000-0000-0000-000000000002''"
  "uuid_str 3 = ''00000000-0000-0000-0000-000000000003''" "uuid_str (Suc 0) = ''00000000-0000-0000-0000-000000000001''"
  by code_simp+

lemma sample_columns: "to_columns (sample_fact i ''a'' ''Pick'') = Inr (sample_fact i ''a'' ''Pick''\<lparr>f_quantity := Some (Fin False 30000000 (- 6))\<rparr>)"
  "to_columns (sample_fact i ''b'' ''Pick'') = Inr (sample_fact i ''b'' ''Pick''\<lparr>f_quantity := Some (Fin False 30000000 (- 6))\<rparr>)"
  "to_columns (sample_fact i ''c'' ''Pick'') = Inr (sample_fact i ''c'' ''Pick''\<lparr>f_quantity := Some (Fin False 30000000 (- 6))\<rparr>)"
  by (simp_all add: to_columns_def sample_fact_def fits_text_def fact_str_limits_def round_places_def andthen_def)

lemma sample_simps: "key_of (sample_fact i h n) = (uuid_str i, Some 5)" "f_hash (sample_fact i h n) = h" "f_event (sample_fact i h n) = Some 5"
  "text_field (sample_fact i h n) ''transaction_name'' = Some n" "f_revision (sample_fact i h n) = 1"
  "in_scope whole_line [] (sample_fact i h n)"
  by (simp_all add: sample_fact_def key_of_def text_field_def in_scope_def covers_def range_ok_def whole_line_def capture_gate_def)

theorem range_becomes_its_source_witness:
  "\<exists>st db'. apply_outcomes ''acme'' 7 (fact_diff (read_stored ''acme'' whole_line [] sample_facts) sample_range) sample_facts = Inr (st, db')
    \<and> identities (read_stored ''acme'' whole_line [] db') = identities sample_range
    \<and> apply_outcomes ''acme'' 8 (fact_diff (read_stored ''acme'' whole_line [] db') sample_range) db' = Inr (no_folds\<lparr>n_unchanged := 2\<rparr>, db')"
proof -
  have "sound_table (fact_rows sample_facts)" "sound_source whole_line [] sample_range"
    "none_hidden ''acme'' whole_line [] (fact_rows sample_facts) sample_range" "length sample_range = 2"
    by (simp_all add: sound_table_def keys_unique_def row_key_def sample_facts_def sample_range_def sample_simps fact_sample_ids storable_def
        sample_columns sound_source_def none_hidden_def fact_at_def row_at_def)
  then show ?thesis using range_becomes_its_source [of sample_facts whole_line "[]" sample_range "''acme''" 7 8] by auto
qed

theorem ledger_replays_to_the_table_witness:
  "\<exists>st db'. apply_outcomes ''acme'' 7 (fact_diff (read_stored ''acme'' whole_line [] \<lparr>fact_rows = [], ledger = []\<rparr>) sample_range)
      \<lparr>fact_rows = [], ledger = []\<rparr> = Inr (st, db')
    \<and> identities (map sf_fact (fact_rows db')) = identities sample_range \<and> keys_unique (fact_rows db') \<and> replays (fact_rows db') (ledger db')"
proof -
  let ?db = "\<lparr>fact_rows = [], ledger = []\<rparr>" and ?run = "\<lambda>db. apply_outcomes ''acme'' 7 (fact_diff (read_stored ''acme'' whole_line [] db) sample_range) db"
  have "(case ?run ?db of Inr (st, db') \<Rightarrow> identities (map sf_fact (fact_rows db')) = identities sample_range | _ \<Rightarrow> False)"
    by (simp add: read_stored_def fact_diff_def diff_def by_key_def sample_range_def sample_simps fact_sample_ids judge_def apply_outcomes_def
        apply_outcome_def insert_fact_def make_ledger_row_def andthen_def no_folds_def key_of_def to_columns_def fits_text_def fact_str_limits_def
        round_places_def row_at_def identities_def sample_fact_def)
  then obtain st db' where r: "?run ?db = Inr (st, db')" "identities (map sf_fact (fact_rows db')) = identities sample_range"
    by (auto split: sum.splits)
  have "keys_unique (fact_rows ?db)" "replays (fact_rows ?db) (ledger ?db)"
    by (simp_all add: keys_unique_def replays_def fact_at_def ledger_says_def)
  then show ?thesis using ledger_replays_to_the_table [OF _ _ r(1)] r by blast
qed

text \<open>A stored fact whose transaction was renamed out of a suppressed name is invisible to the stored read and present in
  the source: the diff inserts it and the unique constraint of the table fails the run.
\<close>

lemma renamed_out_of_suppression_conflicts:
  "apply_outcomes ''acme'' 7 (fact_diff (read_stored ''acme'' whole_line [''Pick''] sample_facts) [sample_fact 1 ''b'' ''Move'']) sample_facts
   = Inl IntegrityError"
  by (simp add: read_stored_def sample_facts_def fact_diff_def diff_def by_key_def sample_simps fact_sample_ids judge_def apply_outcomes_def
      apply_outcome_def insert_fact_def andthen_def no_folds_def key_of_def to_columns_def fits_text_def fact_str_limits_def
      round_places_def row_at_def covers_def whole_line_def range_ok_def capture_gate_def sample_fact_def text_field_def)

subsection \<open>Normalised facts fit their columns\<close>

lemma fits_cap_text: "fits_text (cap_text kt)"
proof (cases kt)
  case (Pair k t)
  then show ?thesis by (cases t; cases "map_of fact_str_limits k") (simp_all add: fits_text_def cap_text_def)
qed

text \<open>C29: A normalised fact is never refused by a text column: every promoted text is cut to the width of its column, so
  the only value the fact table can refuse is a quantity that does not fit NUMERIC(20, 6).\<close>

theorem normalised_fact_is_refused_only_for_its_quantity:
  assumes "normalise sha offset response r = Inr (Inr f)" and "\<And>s. length (sha s) \<le> 64" and "to_columns f = Inl e"
  shows "\<exists>q. f_quantity f = Some q \<and> to_numeric 20 6 q = Inl e \<and> e = DataError"
proof -
  obtain attributes quantity cls where b: "build_fact sha offset r attributes quantity cls = Inr f"
    using assms(1) by (auto simp: normalise_def Let_def andthen_def split: option.splits sum.splits if_splits)
  have "list_all fits_text (f_text f)" "length (f_class f) \<le> 16"
    using b by (auto simp: build_fact_def Let_def cap_fact_def andthen_def list_all_iff fits_cap_text cap_class_def split: sum.splits)
  moreover have "length (f_hash f) \<le> 64"
    using b assms(2) by (auto simp: build_fact_def fact_fingerprint_def Let_def andthen_def digest_def split: sum.splits)
  moreover have "to_numeric 20 6 q = Inl x \<Longrightarrow> x = DataError" for q x
    by (cases "(20 :: nat, 6 :: nat, q)" rule: to_numeric.cases) (auto simp: Let_def split: if_splits)
  ultimately show ?thesis using assms(3)
    by (auto simp: to_columns_def andthen_def split: option.splits sum.splits if_splits)
qed

definition sample_row :: "string \<Rightarrow> txn_row" where
  "sample_row quantity =
     \<lparr>row_id = 1, row_values = \<lparr>v_job = 1, v_started = Some 5, v_ended = Some 9, v_date = Some 0, v_duration = Some 0, v_status = Success,
        v_entry_count = 1, v_mi_count = 0, v_attributes = [(''QuantityPicked'', JStr quantity)],
        v_text = [(''customer_code'', Some ''acme''), (''method'', Some ''ConfirmPickLine''), (''transaction_name'', Some ''Pick'')]\<rparr>,
      row_sealed = True, row_created = 1, row_updated = 1, row_fp = Some ''fp'', row_members_fp = None\<rparr>"

lemma infinite_quantity: "(case normalise (\<lambda>s. []) (\<lambda>t. 0) [] (sample_row ''Infinity'') of Inr (Inr f) \<Rightarrow> to_columns f = Inl DataError | _ \<Rightarrow> False)"
proof -
  have q: "quantity_field (Some ''ConfirmPickLine'') = Some ''QuantityPicked''" "parse_quantity (VStr ''Infinity'') = Some (Infinite False)"
    "classify_quantity (Some ''ConfirmPickLine'') (Some (Infinite False)) = Inr Pick" "as_text (Some ''ConfirmPickLine'') = Some ''ConfirmPickLine''"
    by code_simp+
  have n: "plain_number (Infinite False) = Inr ''Infinity''" by code_simp
  show ?thesis
    by (simp add: normalise_def sample_row_def text_column_def dict_update_def jget_def q build_fact_def Let_def cap_fact_def fact_fingerprint_def
        n andthen_def digest_def to_columns_def list_all_iff fits_cap_text cap_class_def)
qed

text \<open>A quantity that reads as infinite is a pick like any other until the table refuses it, and with it the run.\<close>

theorem normalised_fact_is_refused_only_for_its_quantity_witness:
  "\<exists>f q. normalise (\<lambda>s. []) (\<lambda>t. 0) [] (sample_row ''Infinity'') = Inr (Inr f) \<and> f_quantity f = Some q \<and> to_numeric 20 6 q = Inl DataError"
proof -
  obtain f where f: "normalise (\<lambda>s. []) (\<lambda>t. 0) [] (sample_row ''Infinity'') = Inr (Inr f)" "to_columns f = Inl DataError"
    using infinite_quantity by (auto split: sum.splits)
  show ?thesis using normalised_fact_is_refused_only_for_its_quantity [OF f(1) _ f(2)] f(1) by auto
qed

end
