(* ===== verification/CascadeProperties.thy ===== *)
theory CascadeProperties
  imports Levels FactProperties
begin

text \<open>
  The rollups follow the facts. When every level showed the facts as they were and only dirty buckets changed, the
  cascade leads to levels that show the facts as they are: hours and days folded from facts, days merged from hours and
  months merged from days alike.
\<close>

subsection \<open>Zones\<close>

lemma hour_floor: "hour_of t \<le> t" "t < hour_of t + hour_us" "lo = hour_of lo \<Longrightarrow> lo \<le> t \<Longrightarrow> lo \<le> hour_of t"
  "hi = hour_of hi \<Longrightarrow> hour_of t < hi \<Longrightarrow> t < hi"
proof -
  have e: "hour_of x = hour_us * (x div hour_us)" for x by (simp add: hour_of_def minus_mod_eq_mult_div)
  have m: "0 \<le> t mod hour_us" "t mod hour_us < hour_us" by (simp_all add: hour_us_def)
  then show a: "hour_of t \<le> t" "t < hour_of t + hour_us" by (simp_all add: hour_of_def)
  show "lo \<le> hour_of t" if "lo = hour_of lo" "lo \<le> t"
  proof -
    have "lo div hour_us \<le> t div hour_us" using that(2) by (rule zdiv_mono1) (simp add: hour_us_def)
    then show ?thesis using that(1) e [of lo] e [of t] by (simp add: hour_us_def)
  qed
  show "t < hi" if "hi = hour_of hi" "hour_of t < hi"
  proof -
    have "t div hour_us < hi div hour_us" using that e [of t] e [of hi] by (simp add: hour_us_def)
    then have "hour_us * (t div hour_us + 1) \<le> hour_us * (hi div hour_us)" by (intro mult_left_mono) (simp_all add: hour_us_def)
    then show ?thesis using a(2) that(1) e [of t] e [of hi] by (simp add: distrib_left)
  qed
qed

text \<open>What the cascade asks of a zone: a local day is the instants from its midnight to the next.\<close>

locale zone_calendar =
  fixes z :: zone
  assumes day_span: "local_day (z_offset z) t = day \<longleftrightarrow> z_midnight z day \<le> t \<and> t < z_midnight z (day + 1)"
begin

lemma in_day: "local_day_span z day = Some (lo, hi) \<Longrightarrow> lo \<le> t \<and> t < hi \<longleftrightarrow> local_day (z_offset z) t = day"
  using day_span by (auto simp: local_day_span_def Let_def split: if_splits)

text \<open>The day that holds an hour is the local day of every instant in the hour.\<close>

lemma hour_in_day:
  assumes "local_day_span z day = Some (lo, hi)"
  shows "lo \<le> hour_of t \<and> hour_of t < hi \<longleftrightarrow> local_day (z_offset z) t = day"
proof -
  have a: "lo = hour_of lo" "hi = hour_of hi" using assms by (auto simp: local_day_span_def Let_def split: if_splits)
  show ?thesis unfolding in_day [OF assms, of t, symmetric] using hour_floor(1) [of t] hour_floor(3) [OF a(1), of t] hour_floor(4) [OF a(2), of t]
    by linarith
qed

lemma day_holding_hour:
  assumes "\<And>x. x \<in> set days \<Longrightarrow> local_day_span z x \<noteq> None"
  shows "day_holding z days (hour_of t) = Some day \<longleftrightarrow> day \<in> set days \<and> local_day (z_offset z) t = day"
proof -
  let ?P = "\<lambda>day. case local_day_span z day of None \<Rightarrow> False | Some (lo, hi) \<Rightarrow> lo \<le> hour_of t \<and> hour_of t < hi"
  have P: "?P x \<longleftrightarrow> local_day (z_offset z) t = x" if "x \<in> set days" for x
    using assms [OF that] hour_in_day [of x _ _ t] by (auto split: option.splits)
  show ?thesis
  proof
    assume "day_holding z days (hour_of t) = Some day"
    then have "day \<in> set days" "?P day" by (auto simp: day_holding_def find_Some_iff)
    then show "day \<in> set days \<and> local_day (z_offset z) t = day" using P by blast
  next
    assume d: "day \<in> set days \<and> local_day (z_offset z) t = day"
    then have "find ?P days \<noteq> None" using P by (auto simp: find_None_iff)
    then obtain x where x: "find ?P days = Some x" by auto
    then have "x \<in> set days" "?P x" by (auto simp: find_Some_iff)
    then show "day_holding z days (hour_of t) = Some day" using d P x by (simp add: day_holding_def)
  qed
qed

end

definition fixed_zone :: "duration \<Rightarrow> zone" where
  "fixed_zone off = \<lparr>z_midnight = (\<lambda>d. d * day_us - off), z_offset = (\<lambda>t. off)\<rparr>"

lemma div_day: "t div day_us = day \<longleftrightarrow> day * day_us \<le> t \<and> t < (day + 1) * day_us"
proof -
  have "t = day_us * (t div day_us) + t mod day_us" "0 \<le> t mod day_us" "t mod day_us < day_us" by (simp_all add: day_us_def)
  then show ?thesis by (auto simp: day_us_def)
qed

interpretation fixed: zone_calendar "fixed_zone off" for off
  using div_day by unfold_locales (auto simp: fixed_zone_def local_day_def seconds_def day_us_def)

interpretation utc: zone_calendar utc_zone
  using div_day by unfold_locales (auto simp: utc_zone_def local_day_def seconds_def day_us_def)

subsection \<open>One level after the other\<close>

definition fact_hour :: "foldable \<Rightarrow> int option" where
  "fact_hour r = map_option hour_of (fo_event r)"

definition fact_month :: "foldable \<Rightarrow> int option" where
  "fact_month r = map_option month_of (fo_day r)"

definition dated :: "zone \<Rightarrow> foldable \<Rightarrow> bool" where
  "dated z r \<longleftrightarrow> fo_day r = map_option (local_day (z_offset z)) (fo_event r)"

text \<open>The facts outside given buckets, and two lists of facts that agree there.\<close>

definition outside :: "(foldable \<Rightarrow> int option) \<Rightarrow> int list \<Rightarrow> foldable \<Rightarrow> bool" where
  "outside f buckets r = (case f r of None \<Rightarrow> False | Some b \<Rightarrow> b \<notin> set buckets)"

definition same_outside :: "(foldable \<Rightarrow> int option) \<Rightarrow> int list \<Rightarrow> foldable list \<Rightarrow> foldable list \<Rightarrow> bool" where
  "same_outside f buckets old new \<longleftrightarrow> filter (outside f buckets) old = filter (outside f buckets) new"

lemma same_outside_at: "same_outside f buckets old new \<Longrightarrow> b \<notin> set buckets \<Longrightarrow> filter (\<lambda>r. f r = Some b) old = filter (\<lambda>r. f r = Some b) new"
proof -
  assume s: "same_outside f buckets old new" and b: "b \<notin> set buckets"
  have "filter (\<lambda>r. f r = Some b) xs = filter (\<lambda>r. f r = Some b) (filter (outside f buckets) xs)" for xs
    using b by (auto simp: outside_def intro!: filter_cong)
  then show ?thesis using s unfolding same_outside_def by metis
qed

lemma same_outside_months: "same_outside fo_day dates old new \<Longrightarrow> same_outside fact_month (map month_of dates) old new"
proof -
  assume s: "same_outside fo_day dates old new"
  have "filter (outside fact_month (map month_of dates)) xs = filter (outside fact_month (map month_of dates)) (filter (outside fo_day dates) xs)" for xs
    by (auto simp: outside_def fact_month_def intro!: filter_cong split: option.splits)
  then show ?thesis using s unfolding same_outside_def by metis
qed

text \<open>Folding facts into a level, whatever its buckets are called.\<close>

lemma facts_into_level:
  assumes v: "validate d approved kinds = []" and r: "readable k N d read"
    and old: "level_shows hash64 k N cc def d f old P lev" "distinct (map rollup_key lev)" and same: "\<And>b. P b \<Longrightarrow> b \<notin> set buckets \<Longrightarrow> filter (\<lambda>r. f r = Some b) old = filter (\<lambda>r. f r = Some b) new"
    and at: "\<And>r b. bucket_at r = Some b \<longleftrightarrow> f r = Some b \<and> b \<in> set buckets"
    and all: "\<And>b. b \<in> set buckets \<Longrightarrow> filter (\<lambda>r. f r = Some b) read = filter (\<lambda>r. f r = Some b) new"
  shows "\<exists>folded lev'. group_fold hash64 d bucket_at read = Inr folded \<and> replace cc def buckets (rows_for cc def now folded) lev = Inr lev'
    \<and> distinct (map rollup_key lev') \<and> level_shows hash64 k N cc def d f new (\<lambda>b. P b \<or> b \<in> set buckets) lev'"
proof -
  obtain folded where g: "group_fold hash64 d bucket_at read = Inr folded" "ready_fold hash64 k N (d_measures d) (said_of d bucket_at read) folded buckets"
    using group_fold_ready [OF v r, of bucket_at buckets hash64] at by blast
  have "said_of d bucket_at read m key = said_of d f new m key" if "fst key \<in> set buckets" for m key
    by (rule said_of_cong) (simp add: at that all [OF that])
  then show ?thesis using rewrite_level [OF old g(2) _ same, of now] g(1) by blast
qed

lemma fold_hours_shows:
  assumes v: "validate d approved kinds = []" and r: "readable k N d read" and grain: "''hourly'' \<in> set (d_grains d)"
    and old: "level_shows hash64 k N cc def d fact_hour old P (hourly db)" "distinct (map rollup_key (hourly db))"
    and same: "\<And>b. P b \<Longrightarrow> b \<notin> set hours \<Longrightarrow> filter (\<lambda>r. fact_hour r = Some b) old = filter (\<lambda>r. fact_hour r = Some b) new"
    and all: "\<And>b. b \<in> set hours \<Longrightarrow> filter (\<lambda>r. fact_hour r = Some b) read = filter (\<lambda>r. fact_hour r = Some b) new"
  shows "\<exists>lev. fold_hours hash64 cc def d now hours read db = Inr (db\<lparr>hourly := lev\<rparr>) \<and> distinct (map rollup_key lev)
    \<and> level_shows hash64 k N cc def d fact_hour new P lev"
proof -
  have at: "hour_bucket hours r = Some b \<longleftrightarrow> fact_hour r = Some b \<and> b \<in> set hours" for r b
    by (auto simp: hour_bucket_def fact_hour_def split: option.splits)
  obtain folded lev where f: "group_fold hash64 d (hour_bucket hours) read = Inr folded" "replace cc def hours (rows_for cc def now folded) (hourly db) = Inr lev"
    "distinct (map rollup_key lev)" "level_shows hash64 k N cc def d fact_hour new (\<lambda>b. P b \<or> b \<in> set hours) lev"
    using facts_into_level [OF v r old same at all, of now] by blast
  have "fold_hours hash64 cc def d now hours read db = Inr (db\<lparr>hourly := lev\<rparr>)"
    using f(1,2) grain by (simp add: fold_hours_def andthen_def)
  then show ?thesis using f(3) level_shows_weaken [OF f(4)] by blast
qed

lemma fold_days_from_facts_shows:
  assumes v: "validate d approved kinds = []" and r: "readable k N d read"
    and old: "level_shows hash64 k N cc def d fo_day old P (daily db)" "distinct (map rollup_key (daily db))"
    and same: "\<And>b. P b \<Longrightarrow> b \<notin> set days \<Longrightarrow> filter (\<lambda>r. fo_day r = Some b) old = filter (\<lambda>r. fo_day r = Some b) new"
    and all: "\<And>b. b \<in> set days \<Longrightarrow> filter (\<lambda>r. fo_day r = Some b) read = filter (\<lambda>r. fo_day r = Some b) new"
  shows "\<exists>lev. fold_days_from_facts hash64 cc def d now days read db = Inr (db\<lparr>daily := lev\<rparr>) \<and> distinct (map rollup_key lev)
    \<and> level_shows hash64 k N cc def d fo_day new (\<lambda>b. P b \<or> b \<in> set days) lev"
proof -
  have at: "day_bucket days r = Some b \<longleftrightarrow> fo_day r = Some b \<and> b \<in> set days" for r b
    by (auto simp: day_bucket_def split: option.splits)
  obtain folded lev where f: "group_fold hash64 d (day_bucket days) read = Inr folded" "replace cc def days (rows_for cc def now folded) (daily db) = Inr lev"
    "distinct (map rollup_key lev)" "level_shows hash64 k N cc def d fo_day new (\<lambda>b. P b \<or> b \<in> set days) lev"
    using facts_into_level [OF v r old same at all, of now] by blast
  have "fold_days_from_facts hash64 cc def d now days read db = Inr (db\<lparr>daily := lev\<rparr>)"
    using f(1,2) by (cases "days = []") (simp_all add: fold_days_from_facts_def andthen_def replace_def [of _ _ "[]"])
  then show ?thesis using f(3,4) by blast
qed

lemma merge_into_level:
  assumes r: "readable k N d new" and low: "level_shows hash64 k N cc def d f new Q below" "distinct (map rollup_key below)"
    and high: "level_shows hash64 k N cc def d g old P lev" "distinct (map rollup_key lev)" 
    and same: "\<And>b. P b \<Longrightarrow> b \<notin> set buckets \<Longrightarrow> filter (\<lambda>r. g r = Some b) old = filter (\<lambda>r. g r = Some b) new"
    and R: "\<And>b. R b \<Longrightarrow> Q b" and up: "\<And>b x. up b = Some x \<Longrightarrow> x \<in> set buckets \<and> R b"
    and fits: "\<And>r b. r \<in> set new \<Longrightarrow> b \<in> set buckets \<Longrightarrow> Option.bind (f r) up = Some b \<longleftrightarrow> g r = Some b"
  shows "\<exists>folded lev'. fold_result (merge_row (\<lambda>r. up (ru_bucket r))) (filter (\<lambda>r. ru_customer r = cc \<and> ru_definition r = def \<and> R (ru_bucket r)) below) [] = Inr folded
    \<and> replace cc def buckets (rows_for cc def now folded) lev = Inr lev' \<and> distinct (map rollup_key lev')
    \<and> level_shows hash64 k N cc def d g new (\<lambda>b. P b \<or> b \<in> set buckets) lev'"
proof -
  obtain folded where m: "fold_result (merge_row (\<lambda>r. up (ru_bucket r))) (filter (\<lambda>r. ru_customer r = cc \<and> ru_definition r = def \<and> R (ru_bucket r)) below) [] = Inr folded"
    "ready_fold hash64 k N (d_measures d) (said_of d (\<lambda>r. Option.bind (f r) up) new) folded buckets"
    using merge_ready [where R = R and P = Q and up = up and buckets = buckets, OF r low refl] R up by blast
  have "said_of d (\<lambda>r. Option.bind (f r) up) new m key = said_of d g new m key" if "fst key \<in> set buckets" for m key
    by (rule said_of_cong, rule filter_cong [OF refl]) (use fits that in blast)
  then show ?thesis using rewrite_level [OF high m(2) _ same, of now] m(1) by blast
qed

text \<open>A day is folded from the facts or merged from its hours; either way it shows the facts.\<close>

lemma span_holds:
  assumes "day_holding z days t = Some day"
  shows "fst (span_of_days z days) \<le> t \<and> t < snd (span_of_days z days)"
proof -
  obtain lo hi where d: "day \<in> set days" "local_day_span z day = Some (lo, hi)" "lo \<le> t" "t < hi"
    using assms by (auto simp: day_holding_def find_Some_iff split: option.splits)
  then have "(lo, hi) \<in> set (List.map_filter (local_day_span z) days)" by (force simp: List.map_filter_def)
  then have "Min (set (map fst (List.map_filter (local_day_span z) days))) \<le> lo" "hi \<le> Max (set (map snd (List.map_filter (local_day_span z) days)))"
    by (force intro!: Min_le Max_ge)+
  then show ?thesis using d(3,4) by (simp add: span_of_days_def Let_def)
qed

lemma span_starts:
  assumes "days \<noteq> []" and "\<And>day. day \<in> set days \<Longrightarrow> local_day_span z day \<noteq> None \<and> horizon \<le> z_midnight z day"
  shows "horizon \<le> fst (span_of_days z days)"
proof -
  let ?spans = "List.map_filter (local_day_span z) days"
  obtain s where "local_day_span z (hd days) = Some s" using assms(2) [of "hd days"] assms(1) by (auto simp del: not_None_eq simp: hd_in_set)
  then have "?spans \<noteq> []" using assms(1) by (cases days) (auto simp: List.map_filter_simps)
  moreover have "horizon \<le> lo" if "lo \<in> set (map fst ?spans)" for lo
    using that assms(2) by (force simp: List.map_filter_def local_day_span_def Let_def split: if_splits)
  ultimately show ?thesis by (simp add: span_of_days_def Let_def)
qed

lemma fold_daily_from_hourly_shows:
  assumes z: "zone_calendar z" and r: "readable k N d new" and dated: "list_all (dated z) new"
    and low: "level_shows hash64 k N cc def d fact_hour new (\<lambda>b. horizon \<le> b) (hourly db)" "distinct (map rollup_key (hourly db))"
    and high: "level_shows hash64 k N cc def d fo_day new P (daily db)" "distinct (map rollup_key (daily db))"
    and days: "\<And>day. day \<in> set days \<Longrightarrow> local_day_span z day \<noteq> None \<and> horizon \<le> z_midnight z day"
  shows "\<exists>lev. fold_daily_from_hourly cc def z now days db = Inr (db\<lparr>daily := lev\<rparr>) \<and> distinct (map rollup_key lev)
    \<and> level_shows hash64 k N cc def d fo_day new (\<lambda>b. P b \<or> b \<in> set days) lev"
proof (cases "days = []")
  case True
  then show ?thesis using high by (intro exI [of _ "daily db"]) (simp add: fold_daily_from_hourly_def)
next
  case False
  let ?R = "\<lambda>b. fst (span_of_days z days) \<le> b \<and> b < snd (span_of_days z days)"
  have R: "horizon \<le> b" if "?R b" for b using span_starts [OF False days] that by fastforce
  have up: "x \<in> set days \<and> ?R b" if "day_holding z days b = Some x" for b x
    using day_holding_in [OF that] span_holds [OF that] by blast
  have fits: "Option.bind (fact_hour f) (day_holding z days) = Some b \<longleftrightarrow> fo_day f = Some b" if "f \<in> set new" "b \<in> set days" for f b
  proof -
    have "fo_day f = map_option (local_day (z_offset z)) (fo_event f)" using dated that(1) by (simp add: list_all_iff dated_def)
    then show ?thesis using zone_calendar.day_holding_hour [OF z, of days] days that(2) by (cases "fo_event f") (auto simp: fact_hour_def)
  qed
  obtain folded lev where f: "fold_result (merge_row (\<lambda>r. day_holding z days (ru_bucket r))) (filter (\<lambda>r. ru_customer r = cc \<and> ru_definition r = def \<and> ?R (ru_bucket r)) (hourly db)) [] = Inr folded"
    "replace cc def days (rows_for cc def now folded) (daily db) = Inr lev" "distinct (map rollup_key lev)"
    "level_shows hash64 k N cc def d fo_day new (\<lambda>b. P b \<or> b \<in> set days) lev"
    using merge_into_level [where R = ?R and up = "day_holding z days" and now = now, OF r low high refl R up fits] by blast
  have "fold_daily_from_hourly cc def z now days db = Inr (db\<lparr>daily := lev\<rparr>)"
    using f(1,2) False by (simp add: fold_daily_from_hourly_def andthen_def case_prod_beta)
  then show ?thesis using f(3,4) by blast
qed

lemma fold_days_shows:
  assumes z: "zone_calendar z" and v: "validate d approved kinds = []" and r: "readable k N d read" "readable k N d new" and dated: "list_all (dated z) new"
    and grain: "''daily'' \<in> set (d_grains d)"
    and low: "derivable \<noteq> [] \<Longrightarrow> level_shows hash64 k N cc def d fact_hour new (\<lambda>b. horizon \<le> b) (hourly db)" "distinct (map rollup_key (hourly db))"
    and high: "level_shows hash64 k N cc def d fo_day old (\<lambda>b. True) (daily db)" "distinct (map rollup_key (daily db))"
    and same: "\<And>b. b \<notin> set derivable \<Longrightarrow> b \<notin> set by_fact \<Longrightarrow> filter (\<lambda>r. fo_day r = Some b) old = filter (\<lambda>r. fo_day r = Some b) new"
    and all: "\<And>b. b \<in> set by_fact \<Longrightarrow> filter (\<lambda>r. fo_day r = Some b) read = filter (\<lambda>r. fo_day r = Some b) new"
    and days: "\<And>day. day \<in> set derivable \<Longrightarrow> local_day_span z day \<noteq> None \<and> horizon \<le> z_midnight z day"
  shows "\<exists>lev. fold_days hash64 cc def d z now derivable by_fact read db = Inr (db\<lparr>daily := lev\<rparr>) \<and> distinct (map rollup_key lev)
    \<and> level_shows hash64 k N cc def d fo_day new (\<lambda>b. True) lev"
proof -
  have high': "level_shows hash64 k N cc def d fo_day old (\<lambda>b. b \<notin> set derivable) (daily db)" using high(1) by (rule level_shows_weaken) simp
  obtain lev where one: "fold_days_from_facts hash64 cc def d now by_fact read db = Inr (db\<lparr>daily := lev\<rparr>)" "distinct (map rollup_key lev)"
    "level_shows hash64 k N cc def d fo_day new (\<lambda>b. b \<notin> set derivable \<or> b \<in> set by_fact) lev"
    using fold_days_from_facts_shows [where now = now, OF v r(1) high' high(2) same all] by blast
  show ?thesis
  proof (cases "derivable = []")
    case True
    then show ?thesis using one grain by (intro exI [of _ lev]) (auto simp: fold_days_def andthen_def elim: level_shows_weaken)
  next
    case False
    have "level_shows hash64 k N cc def d fo_day new (\<lambda>b. b \<notin> set derivable) lev" using one(3) by (rule level_shows_weaken) simp
    then obtain lev' where "fold_daily_from_hourly cc def z now derivable (db\<lparr>daily := lev\<rparr>) = Inr (db\<lparr>daily := lev'\<rparr>)" "distinct (map rollup_key lev')"
      "level_shows hash64 k N cc def d fo_day new (\<lambda>b. b \<notin> set derivable \<or> b \<in> set derivable) lev'"
      using fold_daily_from_hourly_shows [OF z r(2) dated, of hash64 cc def horizon "db\<lparr>daily := lev\<rparr>" "\<lambda>b. b \<notin> set derivable" derivable now]
        low(1) [OF False] low(2) one(2) days by auto
    then show ?thesis using one(1) grain False by (intro exI [of _ lev']) (simp add: fold_days_def andthen_def)
  qed
qed

lemma fold_monthly_shows:
  assumes r: "readable k N d new" and months: "set months = month_of ` set dates"
    and low: "level_shows hash64 k N cc def d fo_day new (\<lambda>b. True) (daily db)" "distinct (map rollup_key (daily db))"
    and high: "level_shows hash64 k N cc def d fact_month old (\<lambda>b. True) (monthly db)" "distinct (map rollup_key (monthly db))"
    and same: "\<And>b. b \<notin> set months \<Longrightarrow> filter (\<lambda>r. fact_month r = Some b) old = filter (\<lambda>r. fact_month r = Some b) new"
  shows "\<exists>lev. fold_monthly cc def now months db = Inr (db\<lparr>monthly := lev\<rparr>) \<and> distinct (map rollup_key lev)
    \<and> level_shows hash64 k N cc def d fact_month new (\<lambda>b. True) lev"
proof -
  let ?R = "\<lambda>b. months \<noteq> [] \<and> Min (set months) \<le> b \<and> b \<le> month_end (Max (set months))"
  let ?up = "\<lambda>b. if month_of b \<in> set months then Some (month_of b) else None"
  have up: "x \<in> set months \<and> ?R b" if "?up b = Some x" for b x
    using that months_span [of "map month_of dates" dates b] months by (auto split: if_splits)
  have fits: "Option.bind (fo_day f) ?up = Some b \<longleftrightarrow> fact_month f = Some b" if "b \<in> set months" for f b
    using that by (cases "fo_day f") (auto simp: fact_month_def)
  obtain folded lev where f: "fold_result (merge_row (\<lambda>r. ?up (ru_bucket r))) (filter (\<lambda>r. ru_customer r = cc \<and> ru_definition r = def \<and> ?R (ru_bucket r)) (daily db)) [] = Inr folded"
    "replace cc def months (rows_for cc def now folded) (monthly db) = Inr lev" "distinct (map rollup_key lev)"
    "level_shows hash64 k N cc def d fact_month new (\<lambda>b. True \<or> b \<in> set months) lev"
    using merge_into_level [where R = ?R and Q = "\<lambda>b. True" and up = ?up and now = now, OF r low high same TrueI up fits] by blast
  have "fold_monthly cc def now months db = Inr (db\<lparr>monthly := lev\<rparr>)"
    using f(1,2) by (cases "months = []") (simp_all add: fold_monthly_def andthen_def replace_def [of _ _ "[]"])
  then show ?thesis using f(3) level_shows_weaken [OF f(4)] by blast
qed

subsection \<open>The cascade of one definition\<close>

text \<open>Hourly rows before \<open>horizon\<close> may have been dropped by retention; the other levels are kept for good.\<close>

definition db_shows :: "(string \<Rightarrow> 64 word) \<Rightarrow> nat \<Rightarrow> int \<Rightarrow> string \<Rightarrow> uuid \<Rightarrow> metric \<Rightarrow> instant \<Rightarrow> foldable list \<Rightarrow> rollup_db \<Rightarrow> bool" where
  "db_shows hash64 k N cc def d horizon facts db \<longleftrightarrow>
     distinct (map rollup_key (hourly db)) \<and> distinct (map rollup_key (daily db)) \<and> distinct (map rollup_key (monthly db))
     \<and> (''hourly'' \<in> set (d_grains d) \<longrightarrow> level_shows hash64 k N cc def d fact_hour facts (\<lambda>b. horizon \<le> b) (hourly db))
     \<and> (''daily'' \<in> set (d_grains d) \<longrightarrow> level_shows hash64 k N cc def d fo_day facts (\<lambda>b. True) (daily db))
     \<and> (''monthly'' \<in> set (d_grains d) \<longrightarrow> level_shows hash64 k N cc def d fact_month facts (\<lambda>b. True) (monthly db))"

text \<open>The facts a fold is given: all of them in the buckets it folds from facts.\<close>

definition covers_buckets :: "(foldable \<Rightarrow> int option) \<Rightarrow> int list \<Rightarrow> foldable list \<Rightarrow> foldable list \<Rightarrow> bool" where
  "covers_buckets f buckets read new \<longleftrightarrow> (\<forall>b \<in> set buckets. filter (\<lambda>r. f r = Some b) read = filter (\<lambda>r. f r = Some b) new)"

lemma covers_bucketsD: "covers_buckets f buckets read new \<Longrightarrow> b \<in> set buckets \<Longrightarrow> filter (\<lambda>r. f r = Some b) read = filter (\<lambda>r. f r = Some b) new"
  by (simp add: covers_buckets_def)

lemma fold_grains_shows:
  assumes z: "zone_calendar z" and v: "validate d approved kinds = []" and r: "readable k N d read" "readable k N d new" and dated: "list_all (dated z) new"
    and grains: "''monthly'' \<in> set (d_grains d) \<longrightarrow> ''daily'' \<in> set (d_grains d)" and grained: "derivable \<noteq> [] \<longrightarrow> ''hourly'' \<in> set (d_grains d)"
    and days: "\<And>day. day \<in> set derivable \<Longrightarrow> local_day_span z day \<noteq> None \<and> horizon \<le> z_midnight z day"
    and sub: "set derivable \<subseteq> set dates" and old: "db_shows hash64 k N cc def d horizon old db"
    and same: "same_outside fact_hour hours old new" "same_outside fo_day dates old new"
    and read: "covers_buckets fact_hour hours read new" "covers_buckets fo_day (filter (\<lambda>day. day \<notin> set derivable) dates) read new"
  shows "\<exists>db'. fold_grains hash64 cc def d z now hours dates derivable read db = Inr db' \<and> db_shows hash64 k N cc def d horizon new db'"
proof -
  let ?rest = "filter (\<lambda>day. day \<notin> set derivable) dates" and ?months = "remdups (map month_of dates)"
  note o = old [unfolded db_shows_def]
  have "\<exists>lev. fold_hours hash64 cc def d now hours read db = Inr (db\<lparr>hourly := lev\<rparr>) \<and> distinct (map rollup_key lev)
    \<and> (''hourly'' \<in> set (d_grains d) \<longrightarrow> level_shows hash64 k N cc def d fact_hour new (\<lambda>b. horizon \<le> b) lev)"
  proof (cases "''hourly'' \<in> set (d_grains d)")
    case True
    have high: "level_shows hash64 k N cc def d fact_hour old (\<lambda>b. horizon \<le> b) (hourly db)" "distinct (map rollup_key (hourly db))" using o True by simp_all
    show ?thesis
      using fold_hours_shows [where now = now, OF v r(1) True high same_outside_at [OF same(1)] covers_bucketsD [OF read(1)]] by blast
  qed (use o in \<open>auto simp: fold_hours_def intro!: exI [of _ "hourly db"]\<close>)
  then obtain h where h: "fold_hours hash64 cc def d now hours read db = Inr (db\<lparr>hourly := h\<rparr>)" "distinct (map rollup_key h)"
    "''hourly'' \<in> set (d_grains d) \<Longrightarrow> level_shows hash64 k N cc def d fact_hour new (\<lambda>b. horizon \<le> b) h" by blast
  let ?db1 = "db\<lparr>hourly := h\<rparr>"
  have "\<exists>lev. fold_days hash64 cc def d z now derivable ?rest read ?db1 = Inr (?db1\<lparr>daily := lev\<rparr>) \<and> distinct (map rollup_key lev)
    \<and> (''daily'' \<in> set (d_grains d) \<longrightarrow> level_shows hash64 k N cc def d fo_day new (\<lambda>b. True) lev)"
  proof (cases "''daily'' \<in> set (d_grains d)")
    case True
    have low: "derivable \<noteq> [] \<Longrightarrow> level_shows hash64 k N cc def d fact_hour new (\<lambda>b. horizon \<le> b) (hourly ?db1)" "distinct (map rollup_key (hourly ?db1))"
      using h grained by simp_all
    have high: "level_shows hash64 k N cc def d fo_day old (\<lambda>b. True) (daily ?db1)" "distinct (map rollup_key (daily ?db1))" using o True by simp_all
    have same': "filter (\<lambda>r. fo_day r = Some b) old = filter (\<lambda>r. fo_day r = Some b) new" if "b \<notin> set derivable" "b \<notin> set ?rest" for b
      by (rule same_outside_at [OF same(2)]) (use that in auto)
    show ?thesis
      using fold_days_shows [where now = now, OF z v r dated True low high same' covers_bucketsD [OF read(2)] days] by blast
  qed (use o in \<open>auto simp: fold_days_def intro!: exI [of _ "daily db"]\<close>)
  then obtain l where l: "fold_days hash64 cc def d z now derivable ?rest read ?db1 = Inr (?db1\<lparr>daily := l\<rparr>)" "distinct (map rollup_key l)"
    "''daily'' \<in> set (d_grains d) \<Longrightarrow> level_shows hash64 k N cc def d fo_day new (\<lambda>b. True) l" by blast
  let ?db2 = "?db1\<lparr>daily := l\<rparr>"
  have "\<exists>lev. (if ''monthly'' \<notin> set (d_grains d) then Inr ?db2 else fold_monthly cc def now ?months ?db2) = Inr (?db2\<lparr>monthly := lev\<rparr>)
    \<and> distinct (map rollup_key lev) \<and> (''monthly'' \<in> set (d_grains d) \<longrightarrow> level_shows hash64 k N cc def d fact_month new (\<lambda>b. True) lev)"
  proof (cases "''monthly'' \<in> set (d_grains d)")
    case True
    have low: "level_shows hash64 k N cc def d fo_day new (\<lambda>b. True) (daily ?db2)" "distinct (map rollup_key (daily ?db2))" using l grains True by simp_all
    have high: "level_shows hash64 k N cc def d fact_month old (\<lambda>b. True) (monthly ?db2)" "distinct (map rollup_key (monthly ?db2))" using o True by simp_all
    have same': "filter (\<lambda>r. fact_month r = Some b) old = filter (\<lambda>r. fact_month r = Some b) new" if "b \<notin> set ?months" for b
      by (rule same_outside_at [OF same_outside_months [OF same(2)]]) (use that in simp)
    show ?thesis using fold_monthly_shows [where now = now and dates = dates, OF r(2) _ low high same'] True by auto
  qed (use o in \<open>auto intro!: exI [of _ "monthly db"]\<close>)
  then obtain mo where mo: "(if ''monthly'' \<notin> set (d_grains d) then Inr ?db2 else fold_monthly cc def now ?months ?db2) = Inr (?db2\<lparr>monthly := mo\<rparr>)"
    "distinct (map rollup_key mo)" "''monthly'' \<in> set (d_grains d) \<Longrightarrow> level_shows hash64 k N cc def d fact_month new (\<lambda>b. True) mo" by blast
  have "fold_grains hash64 cc def d z now hours dates derivable read db = Inr (?db2\<lparr>monthly := mo\<rparr>)"
    using h(1) l(1) mo(1) by (simp add: fold_grains_def andthen_def)
  moreover have "db_shows hash64 k N cc def d horizon new (?db2\<lparr>monthly := mo\<rparr>)"
    using h(2,3) l(2,3) mo(2,3) by (simp add: db_shows_def)
  ultimately show ?thesis by blast
qed

subsection \<open>Reading the dirty facts\<close>

text \<open>The facts a metric reads of a tenant: its rows behind the show switch, from the instant the metric starts at.\<close>

definition seen :: "string \<Rightarrow> metric \<Rightarrow> string list \<Rightarrow> stored_fact list \<Rightarrow> foldable list" where
  "seen cc d hidden rows = filter (\<lambda>r. shown hidden r \<and> since_gate (d_from d) r) (map fact_foldable (filter (\<lambda>r. sf_customer r = cc) rows))"

lemma read_dirty_seen:
  "read_dirty_facts cc hours dates hidden (d_from d) rows
   = (if hours = [] \<and> dates = [] then [] else filter (dirty_row hours dates) (seen cc d hidden rows))"
  by (simp add: read_dirty_facts_def read_dirty_def seen_def conj_ac)

lemma dirty_row_hour: "fact_hour r = Some b \<Longrightarrow> b \<in> set hours \<Longrightarrow> dirty_row hours dates r"
proof -
  assume h: "fact_hour r = Some b" and b: "b \<in> set hours"
  then obtain t where t: "fo_event r = Some t" "hour_of t = b" by (auto simp: fact_hour_def)
  have "Min (set hours) \<le> b" "b \<le> Max (set hours)" using b by auto
  then have "Min (set hours) \<le> t" "t < Max (set hours) + hour_us" using hour_floor(1,2) [of t] t(2) by linarith+
  then show ?thesis using b t(1) by (auto simp: dirty_row_def)
qed

lemma dirty_row_day: "fo_day r = Some b \<Longrightarrow> b \<in> set dates \<Longrightarrow> dirty_row hours dates r"
  by (auto simp: dirty_row_def)

lemma filter_within: "(\<And>r. P r \<Longrightarrow> Q r) \<Longrightarrow> filter P (filter Q xs) = filter P xs"
  by (auto intro!: filter_cong)

lemma read_covers:
  "covers_buckets fact_hour hours (read_dirty_facts cc hours dates hidden (d_from d) rows) (seen cc d hidden rows)"
  "covers_buckets fo_day dates (read_dirty_facts cc hours dates hidden (d_from d) rows) (seen cc d hidden rows)"
proof -
  have "filter (\<lambda>r. fact_hour r = Some b) (filter (dirty_row hours dates) xs) = filter (\<lambda>r. fact_hour r = Some b) xs" if "b \<in> set hours" for b xs
    by (rule filter_within) (rule dirty_row_hour [OF _ that])
  then show "covers_buckets fact_hour hours (read_dirty_facts cc hours dates hidden (d_from d) rows) (seen cc d hidden rows)"
    by (auto simp: covers_buckets_def read_dirty_seen)
  have "filter (\<lambda>r. fo_day r = Some b) (filter (dirty_row hours dates) xs) = filter (\<lambda>r. fo_day r = Some b) xs" if "b \<in> set dates" for b xs
    by (rule filter_within) (rule dirty_row_day [OF _ that])
  then show "covers_buckets fo_day dates (read_dirty_facts cc hours dates hidden (d_from d) rows) (seen cc d hidden rows)"
    by (auto simp: covers_buckets_def read_dirty_seen)
qed

lemma readable_filter: "readable k N d facts \<Longrightarrow> readable k N d (filter P facts)"
  using holds_mono [of k N "int (length facts)" "int (length (filter P facts))"] by (auto simp: readable_def list_all_iff)

lemma readable_read: "readable k N d (seen cc d hidden rows) \<Longrightarrow> readable k N d (read_dirty_facts cc hours dates hidden (d_from d) rows)"
  using readable_filter [of k N d "seen cc d hidden rows" "\<lambda>r. False"] by (simp add: read_dirty_seen readable_filter)

lemma route_dates_facts:
  assumes "route_dates d z today dates = (derivable, by_fact)"
  shows "set derivable \<subseteq> set dates" and "derivable \<noteq> [] \<Longrightarrow> ''hourly'' \<in> set (d_grains d)"
    and "day \<in> set derivable \<Longrightarrow> local_day_span z day \<noteq> None" and "set (filter (\<lambda>day. day \<notin> set derivable) dates) = set by_fact"
  using assms by (auto simp: route_dates_def daily_derivable_def split: if_splits)

lemma db_shows_same:
  assumes "db_shows hash64 k N cc def d horizon old db" and "same_outside fact_hour [] old new" and "same_outside fo_day [] old new"
  shows "db_shows hash64 k N cc def d horizon new db"
proof -
  have "level_shows hash64 k N cc def d f new P lev" if "level_shows hash64 k N cc def d f old P lev" "same_outside f [] old new" for f P lev
  proof -
    have "said_of d f old m key = said_of d f new m key" for m key by (rule said_of_cong) (rule same_outside_at [OF that(2)], simp)
    then show ?thesis using that(1) by (simp add: level_shows_def)
  qed
  then show ?thesis using assms same_outside_months [OF assms(3)] unfolding db_shows_def by simp
qed

lemma recompute_shows:
  assumes z: "zone_calendar z" and v: "validate d approved kinds = []"
    and grains: "''monthly'' \<in> set (d_grains d) \<longrightarrow> ''daily'' \<in> set (d_grains d)"
    and new: "readable k N d (seen cc d hidden rows')" "list_all (dated z) (seen cc d hidden rows')"
    and old: "db_shows hash64 k N cc def d horizon (seen cc d hidden rows) db"
    and same: "same_outside fact_hour hours (seen cc d hidden rows) (seen cc d hidden rows')"
      "same_outside fo_day dates (seen cc d hidden rows) (seen cc d hidden rows')"
    and kept: "list_all (\<lambda>day. horizon \<le> z_midnight z day) (fst (route_dates d z (now div day_us) dates))"
  shows "\<exists>db'. recompute hash64 cc def d z now hours dates hidden rows' db = Inr db'
    \<and> db_shows hash64 k N cc def d horizon (seen cc d hidden rows') db'"
proof (cases "hours = [] \<and> dates = []")
  case True
  then show ?thesis using db_shows_same [OF old] same by (simp add: recompute_def)
next
  case False
  obtain derivable by_fact where route: "route_dates d z (now div day_us) dates = (derivable, by_fact)" by force
  note rd = route_dates_facts [OF route]
  let ?read = "read_dirty_facts cc hours by_fact hidden (d_from d) rows'"
  have days: "local_day_span z day \<noteq> None \<and> horizon \<le> z_midnight z day" if "day \<in> set derivable" for day
    using rd(3) [OF that] kept that by (simp add: route list_all_iff)
  have cover: "covers_buckets fo_day (filter (\<lambda>day. day \<notin> set derivable) dates) ?read (seen cc d hidden rows')"
    using read_covers(2) [of by_fact cc hours hidden d rows'] rd(4) by (simp only: covers_buckets_def)
  have "\<exists>db'. fold_grains hash64 cc def d z now hours dates derivable ?read db = Inr db' \<and> db_shows hash64 k N cc def d horizon (seen cc d hidden rows') db'"
    using fold_grains_shows [where now = now, OF z v readable_read [OF new(1)] new grains _ days rd(1) old same read_covers(1) cover] rd(2) by blast
  then show ?thesis using False by (auto simp: recompute_def route)
qed

subsection \<open>What a diff leaves alone\<close>

text \<open>The verdict's stored side is the row of the table.\<close>

definition agrees :: "string \<Rightarrow> stored_fact list \<Rightarrow> fact_outcome \<Rightarrow> bool" where
  "agrees cc rows o1 \<longleftrightarrow> (o_action o1 = Update \<or> o_action o1 = Reverse \<longrightarrow> map_option sf_fact (fact_at rows cc (o_key o1)) = o_stored o1)"

lemma diff_agrees:
  assumes "keys_unique (fact_rows db)"
  shows "list_all (agrees cc (fact_rows db)) (fact_diff (read_stored cc w suppressed db) source)"
proof -
  have "agrees cc (fact_rows db) o1" if "o1 \<in> set (diff key_of f_hash (read_stored cc w suppressed db) source)" for o1
    using diff_outcome [OF that] stored_at [OF assms, of cc w suppressed "o_key o1"]
    by (auto simp: agrees_def verdict_at_def split: option.splits if_splits)
  then show ?thesis by (simp add: list_all_iff fact_diff_def)
qed

text \<open>A row is like a fact when they lie in the same buckets and carry the same texts.\<close>

definition like :: "fact \<Rightarrow> stored_fact \<Rightarrow> bool" where
  "like f r \<longleftrightarrow> f_event (sf_fact r) = f_event f \<and> f_day (sf_fact r) = f_day f \<and> f_text (sf_fact r) = f_text f"

lemma like_stored: "like f \<lparr>sf_customer = cc, sf_created = t, sf_fact = stored_form (f\<lparr>f_revision := n\<rparr>)\<rparr>"
  by (auto simp: like_def stored_form_def to_columns_def andthen_def split: sum.splits if_splits option.splits)

lemma outcome_untouched:
  assumes run: "apply_outcome cc now o1 (st, rows, log_rows) = Inr (st', rows', log_rows')"
    and o1: "sound_outcome o1" "agrees cc rows o1" and unique: "keys_unique rows"
    and Q: "\<And>f r. writes o1 \<Longrightarrow> o_stored o1 = Some f \<or> o_fact o1 = Some f \<Longrightarrow> like f r \<Longrightarrow> \<not> Q r"
  shows "filter Q rows' = filter Q rows"
proof (cases "o_action o1")
  case Unchanged
  then show ?thesis using run by (simp add: apply_outcome_def)
next
  case Reverse
  then obtain old where old: "o_stored o1 = Some old" using o1(1) by (auto simp: sound_outcome_def)
  have rows: "rows' = delete_fact cc (o_key o1) rows"
    using run Reverse old by (auto simp: apply_outcome_def andthen_def split: sum.splits option.splits)
  have "\<not> Q r" if "r \<in> set rows" "row_at cc (o_key o1) r" for r
  proof (rule Q)
    have "fact_at rows cc (o_key o1) = Some r" using that fact_at_iff [OF unique] by blast
    then show "like old r" using o1(2) Reverse old by (simp add: agrees_def like_def)
  qed (use Reverse old in \<open>simp_all add: writes_def\<close>)
  then show ?thesis by (auto simp: rows delete_fact_def intro!: filter_cong)
next
  case Insert
  then obtain new where new: "o_fact o1 = Some new" using o1(1) by (auto simp: sound_outcome_def)
  have "insert_fact cc now (new\<lparr>f_revision := 1\<rparr>) rows = Inr rows'"
    using run Insert new by (auto simp: apply_outcome_def andthen_def split: sum.splits option.splits)
  then have rows: "rows' = rows @ [\<lparr>sf_customer = cc, sf_created = now, sf_fact = stored_form (new\<lparr>f_revision := 1\<rparr>)\<rparr>]"
    by (rule insert_fact_at(1))
  have "\<not> Q \<lparr>sf_customer = cc, sf_created = now, sf_fact = stored_form (new\<lparr>f_revision := 1\<rparr>)\<rparr>"
    by (rule Q [OF _ _ like_stored]) (use Insert new in \<open>simp_all add: writes_def\<close>)
  then show ?thesis by (simp add: rows)
next
  case Update
  then obtain new old where new: "o_fact o1 = Some new" and old: "o_stored o1 = Some old" using o1(1) by (auto simp: sound_outcome_def)
  let ?f = "new\<lparr>f_revision := next_revision old\<rparr>"
  have "update_fact cc (o_key o1) ?f rows = Inr rows'"
    using run Update new old by (auto simp: apply_outcome_def andthen_def split: sum.splits option.splits)
  then obtain g where g: "to_columns ?f = Inr g" "rows' = map (\<lambda>r. if row_at cc (o_key o1) r then r\<lparr>sf_fact := g\<rparr> else r) rows"
    by (auto simp: update_fact_def andthen_def split: sum.splits)
  have g': "g = stored_form ?f" by (rule to_columns_facts(1) [OF g(1)])
  have w: "writes o1" using Update by (simp add: writes_def)
  have "\<not> Q r \<and> \<not> Q (r\<lparr>sf_fact := g\<rparr>)" if "r \<in> set rows" "row_at cc (o_key o1) r" for r
  proof
    have "fact_at rows cc (o_key o1) = Some r" using that fact_at_iff [OF unique] by blast
    then have "like old r" using o1(2) Update old by (simp add: agrees_def like_def)
    then show "\<not> Q r" using Q [OF w] old by blast
    have "like new (r\<lparr>sf_fact := g\<rparr>)" using like_stored [of new cc now "next_revision old"] by (simp add: like_def g')
    then show "\<not> Q (r\<lparr>sf_fact := g\<rparr>)" using Q [OF w] new by blast
  qed
  then show ?thesis unfolding g(2) by (induction rows) auto
qed

lemma outcomes_untouched:
  assumes "fold_result (apply_outcome cc now) os (st, rows, log_rows) = Inr (st', rows', log_rows')"
    and "distinct (map o_key os)" "list_all sound_outcome os" "list_all (agrees cc rows) os" "keys_unique rows"
    and "\<And>o1 f r. o1 \<in> set os \<Longrightarrow> writes o1 \<Longrightarrow> o_stored o1 = Some f \<or> o_fact o1 = Some f \<Longrightarrow> like f r \<Longrightarrow> \<not> Q r"
  shows "filter Q rows' = filter Q rows"
  using assms
proof (induction os arbitrary: st rows log_rows)
  case (Cons o1 os)
  obtain st1 rows1 log1 where one: "apply_outcome cc now o1 (st, rows, log_rows) = Inr (st1, rows1, log1)"
    and rest: "fold_result (apply_outcome cc now) os (st1, rows1, log1) = Inr (st', rows', log_rows')"
    using Cons.prems(1) by (auto simp: andthen_def split: sum.splits)
  have o1: "sound_outcome o1" "agrees cc rows o1" using Cons.prems(3,4) by simp_all
  have "agrees cc rows1 o2" if o2: "o2 \<in> set os" for o2
  proof -
    have "o_key o2 \<noteq> o_key o1" using Cons.prems(2) o2 by (auto simp: image_iff)
    from elsewhere [OF one o1(1) this] show ?thesis using Cons.prems(4) o2 by (simp add: agrees_def list_all_iff)
  qed
  then have "list_all (agrees cc rows1) os" by (simp add: list_all_iff)
  moreover have "keys_unique rows1" by (rule apply_outcome_at(2) [OF one o1(1) Cons.prems(5)])
  moreover have "distinct (map o_key os)" "list_all sound_outcome os" using Cons.prems(2,3) by simp_all
  ultimately have "filter Q rows' = filter Q rows1" using Cons.IH [OF rest] Cons.prems(6) by (meson list.set_intros(2))
  also have "filter Q rows1 = filter Q rows" using outcome_untouched [OF one o1 Cons.prems(5), of Q] Cons.prems(6) by (meson list.set_intros(1))
  finally show ?case .
qed simp

text \<open>Both sides of every writing verdict lie in the dirty buckets, so outside them the facts are the same.\<close>

lemma sides_dirty:
  assumes "o1 \<in> set os" and "writes o1" and "o_stored o1 = Some f \<or> o_fact o1 = Some f"
  shows "f \<in> set (sides os)" and "f_event f = Some t \<Longrightarrow> hour_of t \<in> set (fst (dirty_buckets os))" and "f_day f = Some day \<Longrightarrow> day \<in> set (snd (dirty_buckets os))"
proof -
  show s: "f \<in> set (sides os)" using assms by (force simp: sides_def List.map_filter_def)
  show "f_event f = Some t \<Longrightarrow> hour_of t \<in> set (fst (dirty_buckets os))"
    using s by (force simp: dirty_buckets_def List.map_filter_def)
  show "f_day f = Some day \<Longrightarrow> day \<in> set (snd (dirty_buckets os))"
    using s by (force simp: dirty_buckets_def List.map_filter_def)
qed

lemma seen_filter: "filter P (seen cc d hidden rows)
    = map fact_foldable (filter (\<lambda>r. sf_customer r = cc \<and> shown hidden (fact_foldable r) \<and> since_gate (d_from d) (fact_foldable r) \<and> P (fact_foldable r)) rows)"
  by (simp add: seen_def filter_map comp_def conj_ac)

lemma diff_same_outside:
  assumes "apply_outcomes cc now (fact_diff (read_stored cc w suppressed fdb) source) fdb = Inr (st, fdb')" and "keys_unique (fact_rows fdb)"
    and "dirty_buckets (fact_diff (read_stored cc w suppressed fdb) source) = (hours, dates)"
  shows "same_outside fact_hour hours (seen cc d hidden (fact_rows fdb)) (seen cc d hidden (fact_rows fdb'))"
    and "same_outside fo_day dates (seen cc d hidden (fact_rows fdb)) (seen cc d hidden (fact_rows fdb'))"
proof -
  let ?os = "fact_diff (read_stored cc w suppressed fdb) source"
  obtain st0 log_rows where run: "fold_result (apply_outcome cc now) ?os (no_folds, fact_rows fdb, []) = Inr (st0, fact_rows fdb', log_rows)"
    using assms(1) by (auto simp: apply_outcomes_def andthen_def split: sum.splits prod.splits)
  have keys: "distinct (map o_key ?os)" by (simp add: fact_diff_def diff_keys_distinct)
  note untouched = outcomes_untouched [OF run keys diff_sound diff_agrees [OF assms(2)] assms(2)]
  have hour: "\<not> outside fact_hour hours (fact_foldable r)"
    if "o1 \<in> set ?os" "writes o1" "o_stored o1 = Some f \<or> o_fact o1 = Some f" "like f r" for o1 f r
    using sides_dirty(2) [OF that(1-3)] that(4) assms(3)
    by (auto simp: outside_def fact_hour_def fact_foldable_def Let_def like_def split: option.splits)
  have day: "\<not> outside fo_day dates (fact_foldable r)"
    if "o1 \<in> set ?os" "writes o1" "o_stored o1 = Some f \<or> o_fact o1 = Some f" "like f r" for o1 f r
    using sides_dirty(3) [OF that(1-3)] that(4) assms(3)
    by (auto simp: outside_def fact_foldable_def Let_def like_def split: option.splits)
  show "same_outside fact_hour hours (seen cc d hidden (fact_rows fdb)) (seen cc d hidden (fact_rows fdb'))"
    unfolding same_outside_def seen_filter by (rule arg_cong [where f = "map fact_foldable"], rule sym, rule untouched) (use hour in blast)
  show "same_outside fo_day dates (seen cc d hidden (fact_rows fdb)) (seen cc d hidden (fact_rows fdb'))"
    unfolding same_outside_def seen_filter by (rule arg_cong [where f = "map fact_foldable"], rule sym, rule untouched) (use day in blast)
qed

text \<open>C16: A day merged from its hours is the day folded from its facts. When the hourly rows show the facts, the two ways
  route_dates chooses between lead to daily rows with the same statistics for every measure and every combination of
  dimensions: the same buckets exist and their counts, sums, extremes, bands and sketches agree. This is for readable
  facts: definitions without a latest measure, names and dimension values within their columns, and values on at most six
  decimals (three for a statistics measure, whose squares the column rounds to six).\<close>

theorem merged_day_is_the_folded_day:
  assumes "zone_calendar z" and "validate d approved kinds = []" and "readable k N d facts" and "list_all (dated z) facts"
    and "level_shows hash64 k N cc def d fact_hour facts (\<lambda>b. horizon \<le> b) (hourly db)"
    and "distinct (map rollup_key (hourly db))" and "distinct (map rollup_key (daily db))"
    and "list_all (\<lambda>day. local_day_span z day \<noteq> None \<and> horizon \<le> z_midnight z day) days"
    and "m \<in> set (d_measures d)" and "day \<in> set days"
  shows "\<exists>db1 db2. fold_daily_from_hourly cc def z now days db = Inr db1 \<and> fold_days_from_facts hash64 cc def d now days facts db = Inr db2
    \<and> map (meaning \<circ> ru_roles) (rows_at cc def (m_name m) (day, dims) (daily db1))
      = map (meaning \<circ> ru_roles) (rows_at cc def (m_name m) (day, dims) (daily db2))"
proof -
  have vacuous: "level_shows hash64 k N cc def d fo_day facts (\<lambda>b. False) (daily db)" by (simp add: level_shows_def)
  have days: "\<And>day. day \<in> set days \<Longrightarrow> local_day_span z day \<noteq> None \<and> horizon \<le> z_midnight z day" using assms(8) by (simp add: list_all_iff)
  obtain lev1 where one: "fold_daily_from_hourly cc def z now days db = Inr (db\<lparr>daily := lev1\<rparr>)"
    "level_shows hash64 k N cc def d fo_day facts (\<lambda>b. False \<or> b \<in> set days) lev1"
    using fold_daily_from_hourly_shows [where now = now, OF assms(1,3,4,5,6) vacuous assms(7) days] by blast
  obtain lev2 where two: "fold_days_from_facts hash64 cc def d now days facts db = Inr (db\<lparr>daily := lev2\<rparr>)"
    "level_shows hash64 k N cc def d fo_day facts (\<lambda>b. False \<or> b \<in> set days) lev2"
    using fold_days_from_facts_shows [where now = now, OF assms(2,3) vacuous assms(7) refl refl] by blast
  have "map (meaning \<circ> ru_roles) rows = (if cs = [] then [] else [stats_of hash64 m cs])" if "row_shows hash64 k N m cs rows" for cs rows
    using that by (auto simp: row_shows_def good_def split: if_splits)
  note shown = this [OF level_showsD(1) [OF one(2) assms(9), of "(day, dims)"]] this [OF level_showsD(1) [OF two(2) assms(9), of "(day, dims)"]]
  show ?thesis using one(1) two(1) shown assms(10) by simp
qed

text \<open>C15: The rollups follow the facts. When they show a tenant's facts, and a range diff is applied to the facts, then
  recomputing a definition over the dirty hours and days of the diff succeeds and the rollups show the facts as they
  are now, at every grain: inserts, updates that move a fact to another bucket or dimension, and reversals included.
  Untouched buckets need no fold, and hours older than the retention horizon are not asked for. The facts after the diff
  must be readable: no latest measure in the definition, whose recomputation the code fails; names and dimension
  values within their columns; values on at most six decimals (three for a statistics measure). A definition with
  monthly rollups has daily ones, since months are merged from days.\<close>

theorem rollups_follow_the_facts:
  assumes "zone_calendar z" and "validate d approved kinds = []" and "''monthly'' \<in> set (d_grains d) \<longrightarrow> ''daily'' \<in> set (d_grains d)"
    and "keys_unique (fact_rows fdb)" and "apply_outcomes cc now (fact_diff (read_stored cc w suppressed fdb) source) fdb = Inr (st, fdb')"
    and "dirty_buckets (fact_diff (read_stored cc w suppressed fdb) source) = (hours, dates)"
    and "readable k N d (seen cc d hidden (fact_rows fdb'))" and "list_all (dated z) (seen cc d hidden (fact_rows fdb'))"
    and "list_all (\<lambda>day. horizon \<le> z_midnight z day) (fst (route_dates d z (later_now div day_us) dates))"
    and "db_shows hash64 k N cc def d horizon (seen cc d hidden (fact_rows fdb)) db"
  shows "\<exists>db'. recompute hash64 cc def d z later_now hours dates hidden (fact_rows fdb') db = Inr db'
    \<and> db_shows hash64 k N cc def d horizon (seen cc d hidden (fact_rows fdb')) db'"
  by (rule recompute_shows [OF assms(1-3,7,8,10) diff_same_outside [OF assms(5,4,6)] assms(9)])

subsection \<open>Metrics a change does not concern\<close>

lemma unconcerned:
  assumes "\<not> concerns d (changed_of os)" and "f \<in> set (sides os)" and "like f r"
  shows "\<not> contributes (fo_row (fact_foldable r)) d m"
proof -
  have t: "text_field (sf_fact r) n = text_field f n" for n using assms(3) by (simp add: like_def text_field_def)
  have c: "cols (fo_row (fact_foldable r)) ''method'' = val_option VStr (text_field f ''method'')"
    "cols (fo_row (fact_foldable r)) ''transaction_name'' = val_option VStr (text_field f ''transaction_name'')"
    by (simp_all add: fact_foldable_def Let_def row_of_def fact_column_def t)
  have s: "text_field f ''method'' \<in> set (c_methods (changed_of os))" "text_field f ''transaction_name'' \<in> set (c_names (changed_of os))"
    using assms(2) by (simp_all add: changed_of_def)
  have in_names: "val_in (val_option VStr t) names \<Longrightarrow> \<exists>n. t = Some n \<and> n \<in> set names" for t names
    by (cases t) (auto simp: val_in_def val_option_def)
  show ?thesis
    using assms(1) s in_names [of "text_field f ''method''" "d_methods d"] in_names [of "text_field f ''transaction_name''" "d_transactions d"]
    by (auto simp: concerns_def contributes_def c list_ex_iff split: if_splits)
qed

text \<open>C28: Skipping a metric that a change does not concern is safe. When no fact of either side of a diff has a method or a
  transaction name the definition asks for, the rollups of the definition show the facts after the diff as they are,
  without a fold.\<close>

theorem skipped_metric_stays_true:
  assumes "keys_unique (fact_rows fdb)" and "apply_outcomes cc now (fact_diff (read_stored cc w suppressed fdb) source) fdb = Inr (st, fdb')"
    and "\<not> concerns d (changed_of (fact_diff (read_stored cc w suppressed fdb) source))"
    and "db_shows hash64 k N cc def d horizon (seen cc d hidden (fact_rows fdb)) db"
  shows "db_shows hash64 k N cc def d horizon (seen cc d hidden (fact_rows fdb')) db"
proof -
  let ?os = "fact_diff (read_stored cc w suppressed fdb) source"
  obtain st0 log_rows where run: "fold_result (apply_outcome cc now) ?os (no_folds, fact_rows fdb, []) = Inr (st0, fact_rows fdb', log_rows)"
    using assms(2) by (auto simp: apply_outcomes_def andthen_def split: sum.splits prod.splits)
  have keys: "distinct (map o_key ?os)" by (simp add: fact_diff_def diff_keys_distinct)
  note untouched = outcomes_untouched [OF run keys diff_sound diff_agrees [OF assms(1)] assms(1)]
  have silent: "contribution d m (fo_row (fact_foldable r)) = None"
    if "o1 \<in> set ?os" "writes o1" "o_stored o1 = Some f \<or> o_fact o1 = Some f" "like f r" for o1 f r m
    using unconcerned [OF assms(3) sides_dirty(1) [OF that(1-3)] that(4), of m] by (simp add: contribution_def)
  have said: "said_of d f (seen cc d hidden (fact_rows fdb)) m key = said_of d f (seen cc d hidden (fact_rows fdb')) m key" for f m key
  proof -
    let ?speaks = "\<lambda>r. contribution d m (fo_row r) \<noteq> None \<and> f r = Some (fst key) \<and> dim_key (fo_row r) d = snd key"
    have "said_of d f facts m key = List.map_filter (contribution d m \<circ> fo_row) (filter ?speaks facts)" for facts
      unfolding said_of_filter by (rule map_filter_skip [symmetric]) auto
    moreover have "filter ?speaks (seen cc d hidden (fact_rows fdb')) = filter ?speaks (seen cc d hidden (fact_rows fdb))"
      unfolding seen_filter by (rule arg_cong [where f = "map fact_foldable"], rule untouched) (use silent in auto)
    ultimately show ?thesis by simp
  qed
  show ?thesis using assms(4) by (simp add: db_shows_def level_shows_def said)
qed

subsection \<open>Samples\<close>

lemma hits_valid: "validate hits [] (\<lambda>k. None) = []"
  by code_simp

lemma hits_contribution: "contribution hits (plain_measure ''hits'' Agg_count None [] []) r = Some (Value None (row_moment r))"
  by (simp add: contribution_def contributes_def plain_measure_def measured_def given_def)

lemma hits_readable:
  assumes "list_all (\<lambda>r. short_dims (dim_key (fo_row r) hits) \<and> clocked (fo_row r)) facts" and "length facts < 1000"
  shows "readable 6 1000 hits facts"
  using assms
  by (auto simp: readable_def writable_def well_typed_def exact_row_def contributes_def plain_measure_def measured_def given_def holds_def list_all_iff)

lemma hits_said: "said_of hits f facts (plain_measure ''hits'' Agg_count None [] []) key
    = map (\<lambda>r. Value None (row_moment (fo_row r))) (filter (\<lambda>r. f r = Some (fst key) \<and> dim_key (fo_row r) hits = snd key) facts)"
  by (simp add: said_of_filter List.map_filter_def hits_contribution comp_def)

lemma hit_facts: "clocked (fo_row (hit_at t))" "fact_hour (hit_at 5) = Some 0" "m_name (plain_measure n a f o1 st) = n"
  by (simp_all add: clocked_def hit_at_def fact_hour_def hour_of_def hour_us_def plain_measure_def)

lemma one_hit_good: "good h 6 1000 (plain_measure ''hits'' Agg_count None [] []) [Value None t] one_hit"
  by (simp add: good_def shaped_def has_role_def plain_measure_def exact_bucket_def no_roles_def meaning_def stats_of_def Let_def role_value_def)

lemma hits_level: "level_shows h 6 1000 ''t'' 7 hits fact_hour [hit_at 5] (\<lambda>b. 0 \<le> b) [hit_row 0]"
proof -
  have "row_shows h 6 1000 (plain_measure ''hits'' Agg_count None [] []) (said_of hits fact_hour [hit_at 5] (plain_measure ''hits'' Agg_count None [] []) key)
      (rows_at ''t'' 7 (m_name (plain_measure ''hits'' Agg_count None [] [])) key [hit_row 0])" for key
  proof (cases "key = (0, hit_dims)")
    case True
    then show ?thesis using one_hit_good by (simp add: row_shows_def hits_said hit_facts hits_day rows_at_def rollup_key_def)
  next
    case False
    have "rollup_key (hit_row 0) = (''t'', 7, ''hits'', 0, hit_dims)" by (simp add: rollup_key_def)
    then show ?thesis using False by (cases key) (auto simp: row_shows_def hits_said hit_facts hits_day rows_at_def)
  qed
  then show ?thesis by (simp add: level_shows_def hit_facts)
qed

theorem merged_day_is_the_folded_day_witness:
  "\<exists>db1 db2. fold_daily_from_hourly ''t'' 7 utc_zone 9 [0] (hits_db\<lparr>hourly := [hit_row 0]\<rparr>) = Inr db1
    \<and> fold_days_from_facts (\<lambda>s. 0) ''t'' 7 hits 9 [0] [hit_at 5] (hits_db\<lparr>hourly := [hit_row 0]\<rparr>) = Inr db2
    \<and> map (meaning \<circ> ru_roles) (rows_at ''t'' 7 ''hits'' (0, hit_dims) (daily db1)) = map (meaning \<circ> ru_roles) (rows_at ''t'' 7 ''hits'' (0, hit_dims) (daily db2))"
proof -
  let ?db = "hits_db\<lparr>hourly := [hit_row 0]\<rparr>" and ?m = "plain_measure ''hits'' Agg_count None [] []"
  have r: "readable 6 1000 hits [hit_at 5]" by (rule hits_readable) (simp_all add: hits_day short_dims_def hit_facts)
  have d: "list_all (dated utc_zone) [hit_at 5]" by (simp add: dated_def hit_at_def utc_zone_def local_day_def seconds_def day_us_def)
  have l: "level_shows (\<lambda>s. 0) 6 1000 ''t'' 7 hits fact_hour [hit_at 5] (\<lambda>b. 0 \<le> b) (hourly ?db)" using hits_level by simp
  have days: "list_all (\<lambda>day. local_day_span utc_zone day \<noteq> None \<and> 0 \<le> z_midnight utc_zone day) [0]" by code_simp
  have k: "distinct (map rollup_key (hourly ?db))" "distinct (map rollup_key (daily ?db))" "?m \<in> set (d_measures hits)" "0 \<in> set [0::int]" "m_name ?m = ''hits''"
    by (simp_all add: hits_db_def hit_facts)
  show ?thesis using merged_day_is_the_folded_day [OF utc.zone_calendar_axioms hits_valid r d l k(1,2) days k(3,4)] k(5) by simp
qed

text \<open>Two new facts of one hour, folded into empty rollups.\<close>

definition no_facts :: fact_db where
  "no_facts = \<lparr>fact_rows = [], ledger = []\<rparr>"

definition no_rollups :: rollup_db where
  "no_rollups = \<lparr>hourly = [], daily = [], monthly = []\<rparr>"

abbreviation sample_outcomes :: "fact_outcome list" where
  "sample_outcomes \<equiv> fact_diff (read_stored ''acme'' whole_line [] no_facts) sample_range"

definition sample_stored :: "stored_fact list" where
  "sample_stored = map (\<lambda>f. \<lparr>sf_customer = ''acme'', sf_created = 7, sf_fact = f\<lparr>f_quantity := Some (Fin False 30000000 (- 6))\<rparr>\<rparr>) sample_range"

lemma sample_applied: "map_sum id (fact_rows \<circ> snd) (apply_outcomes ''acme'' 7 sample_outcomes no_facts) = Inr sample_stored"
  by (simp add: read_stored_def no_facts_def fact_diff_def diff_def by_key_def sample_range_def sample_simps fact_sample_ids judge_def apply_outcomes_def
      apply_outcome_def insert_fact_def make_ledger_row_def andthen_def to_columns_def fits_text_def fact_str_limits_def
      round_places_def row_at_def sample_fact_def key_of_def sample_stored_def)

lemma sample_dirty: "dirty_buckets sample_outcomes = ([0], [0])"
  by (simp add: read_stored_def no_facts_def fact_diff_def diff_def by_key_def sample_range_def sample_simps fact_sample_ids judge_def
      dirty_buckets_def sides_def writes_def List.map_filter_def sample_fact_def hour_of_def hour_us_def)

lemma sample_seen: "seen ''acme'' hits [] sample_stored = map fact_foldable sample_stored"
  by (simp add: seen_def sample_stored_def sample_range_def shown_def since_gate_def hits_def consumption_def)

lemma sample_folds: "r \<in> set (map fact_foldable sample_stored) \<Longrightarrow>
    fo_event r = Some 5 \<and> fo_day r = Some 0 \<and> cols (fo_row r) ''event_time'' = VTime 5 \<and> cols (fo_row r) ''method'' = VNone"
  by (auto simp: sample_stored_def sample_range_def fact_foldable_def Let_def sample_fact_def row_of_def fact_column_def text_field_def val_option_def)

theorem rollups_follow_the_facts_witness:
  "\<exists>st fdb' db'. apply_outcomes ''acme'' 7 sample_outcomes no_facts = Inr (st, fdb') \<and> fact_rows fdb' = sample_stored
    \<and> recompute (\<lambda>s. 0) ''acme'' 7 hits utc_zone 9 [0] [0] [] (fact_rows fdb') no_rollups = Inr db'
    \<and> db_shows (\<lambda>s. 0) 6 1000 ''acme'' 7 hits 0 (seen ''acme'' hits [] (fact_rows fdb')) db'"
proof -
  obtain st fdb' where run: "apply_outcomes ''acme'' 7 sample_outcomes no_facts = Inr (st, fdb')" and rows: "fact_rows fdb' = sample_stored"
    using sample_applied by (cases "apply_outcomes ''acme'' 7 sample_outcomes no_facts") auto
  have dims: "dim_key (fo_row r) hits = [None, None, None, None, None, None]" if "cols (fo_row r) ''method'' = VNone" for r
    using that by (simp add: dim_key_def hits_def dimension_slots_def resolve_field_def is_attr_path_def attr_prefix_def starts_with_def dimension_value_def eval_nat_numeral)
  have r: "readable 6 1000 hits (seen ''acme'' hits [] (fact_rows fdb'))"
    unfolding rows sample_seen
  proof (rule hits_readable)
    show "list_all (\<lambda>r. short_dims (dim_key (fo_row r) hits) \<and> clocked (fo_row r)) (map fact_foldable sample_stored)"
      unfolding list_all_iff
    proof
      fix r assume "r \<in> set (map fact_foldable sample_stored)"
      from sample_folds [OF this] show "short_dims (dim_key (fo_row r) hits) \<and> clocked (fo_row r)"
        by (simp add: dims short_dims_def clocked_def)
    qed
    show "length (map fact_foldable sample_stored) < 1000" by (simp add: sample_stored_def sample_range_def)
  qed
  have d: "list_all (dated utc_zone) (seen ''acme'' hits [] (fact_rows fdb'))"
    unfolding rows sample_seen list_all_iff
  proof
    fix r assume "r \<in> set (map fact_foldable sample_stored)"
    from sample_folds [OF this] show "dated utc_zone r" by (simp add: dated_def utc_zone_def local_day_def seconds_def)
  qed
  have g: "''monthly'' \<in> set (d_grains hits) \<longrightarrow> ''daily'' \<in> set (d_grains hits)" "keys_unique (fact_rows no_facts)"
    by (simp_all add: keys_unique_def no_facts_def)
  have k: "list_all (\<lambda>day. 0 \<le> z_midnight utc_zone day) (fst (route_dates hits utc_zone (9 div day_us) [0]))"
    by (simp add: route_dates_def utc_zone_def)
  have old: "db_shows (\<lambda>s. 0) 6 1000 ''acme'' 7 hits 0 (seen ''acme'' hits [] (fact_rows no_facts)) no_rollups"
    by (simp add: db_shows_def no_rollups_def no_facts_def seen_def level_shows_def said_of_def group_of_def contributions_def List.map_filter_def row_shows_def rows_at_def)
  show ?thesis
    using rollups_follow_the_facts [OF utc.zone_calendar_axioms hits_valid g run sample_dirty r d k old] run rows by blast
qed

text \<open>A metric of other methods is not concerned by the two picks.\<close>

theorem skipped_metric_stays_true_witness:
  "\<exists>st fdb'. apply_outcomes ''acme'' 7 sample_outcomes no_facts = Inr (st, fdb') \<and> fact_rows fdb' = sample_stored
    \<and> db_shows (\<lambda>s. 0) 6 1000 ''acme'' 7 (hits\<lparr>d_methods := [''Login'']\<rparr>) 0 (seen ''acme'' (hits\<lparr>d_methods := [''Login'']\<rparr>) [] (fact_rows fdb')) no_rollups"
proof -
  let ?d = "hits\<lparr>d_methods := [''Login'']\<rparr>"
  obtain st fdb' where run: "apply_outcomes ''acme'' 7 sample_outcomes no_facts = Inr (st, fdb')" and rows: "fact_rows fdb' = sample_stored"
    using sample_applied by (cases "apply_outcomes ''acme'' 7 sample_outcomes no_facts") auto
  have g: "keys_unique (fact_rows no_facts)" by (simp add: keys_unique_def no_facts_def)
  have c: "\<not> concerns ?d (changed_of sample_outcomes)"
    by (simp add: concerns_def changed_of_def sides_def writes_def read_stored_def no_facts_def fact_diff_def diff_def by_key_def sample_range_def
        sample_simps fact_sample_ids judge_def List.map_filter_def sample_fact_def text_field_def)
  have old: "db_shows (\<lambda>s. 0) 6 1000 ''acme'' 7 ?d 0 (seen ''acme'' ?d [] (fact_rows no_facts)) no_rollups"
    by (simp add: db_shows_def no_rollups_def no_facts_def seen_def level_shows_def said_of_def group_of_def contributions_def List.map_filter_def row_shows_def rows_at_def)
  show ?thesis using skipped_metric_stays_true [OF g run c old] run rows by blast
qed

end
