(* ===== verification/Registry.thy ===== *)
theory Registry
  imports Facts
begin

text \<open>
  The metric registry (\<open>analytics/registry.py\<close> over \<open>analytics_metric.py\<close>): a definition as a stored row and back, the
  active definitions of a tenant, the seed and the marker of the backfill. The lists and objects of a row are JSON.
  Names in them are text; where a list holds anything else the Python goes on with that value and the model raises
  \<open>AttributeError\<close>, as validation does for a dimension: such rows are outside the model. A row that cannot be read for
  a missing key or an unknown word is skipped, any other exception ends the run.
\<close>

record metric_row =
  mr_id :: uuid
  mr_customer :: string
  mr_name :: string
  mr_dimensions :: json
  mr_measures :: json
  mr_filter :: json
  mr_source :: string
  mr_grains :: json
  mr_status :: string
  mr_backfilled :: "int option"
  mr_from :: "instant option"
  mr_created_by :: "string option"

subsection \<open>Words\<close>

fun aggregation_str :: "aggregation \<Rightarrow> string" where
  "aggregation_str Agg_sum = ''sum''"
| "aggregation_str Agg_count = ''count''"
| "aggregation_str Agg_average = ''average''"
| "aggregation_str Agg_stats = ''stats''"
| "aggregation_str Agg_extent = ''extent''"
| "aggregation_str Agg_percentile = ''percentile''"
| "aggregation_str Agg_distinct = ''distinct''"
| "aggregation_str Agg_latest = ''latest''"

definition aggregations :: "aggregation list" where
  "aggregations = [Agg_sum, Agg_count, Agg_average, Agg_stats, Agg_extent, Agg_percentile, Agg_distinct, Agg_latest]"

fun metric_status_str :: "metric_status \<Rightarrow> string" where
  "metric_status_str Draft = ''draft''"
| "metric_status_str Active = ''active''"
| "metric_status_str Inactive = ''inactive''"

text \<open>\<open>Enum(value)\<close>: the member with that value, a ValueError for any other.\<close>

definition member_of :: "('a \<Rightarrow> string) \<Rightarrow> 'a list \<Rightarrow> string \<Rightarrow> 'a result" where
  "member_of str members s = (case find (\<lambda>m. str m = s) members of None \<Rightarrow> Inl ValueError | Some m \<Rightarrow> Inr m)"

definition aggregation_of :: "string \<Rightarrow> aggregation result" where
  "aggregation_of = member_of aggregation_str aggregations"

definition metric_status_of :: "string \<Rightarrow> metric_status result" where
  "metric_status_of = member_of metric_status_str [Draft, Active, Inactive]"

definition classifications :: "classification list" where
  "classifications = [Pick, Attempt, Correction, Non_quantity, Unusable]"

definition classification_of :: "string \<Rightarrow> classification result" where
  "classification_of = member_of classification_str classifications"

subsection \<open>A definition as a row\<close>

definition json_names :: "string list \<Rightarrow> json" where
  "json_names names = JList (map JStr names)"

text \<open>A frozenset is the list of its members; a stored one is sorted.\<close>

definition sorted_names :: "string list \<Rightarrow> string list" where
  "sorted_names names = sort (remdups names)"

definition measure_to_json :: "measure \<Rightarrow> json" where
  "measure_to_json m = JObj
     ([(''name'', JStr (m_name m)), (''aggregation'', JStr (aggregation_str (m_agg m))), (''field'', opt_str (m_field m)),
       (''only'', json_names (sorted_names (m_only m))), (''statuses'', json_names (sorted_names (m_statuses m)))]
      @ (if given (m_unit m) then [(''unit'', opt_str (m_unit m))] else [])
      @ (if given (m_minus m) then [(''minus'', opt_str (m_minus m))] else []))"

definition metric_to_row :: "string \<Rightarrow> uuid \<Rightarrow> string option \<Rightarrow> metric \<Rightarrow> metric_row" where
  "metric_to_row cc new_id by d =
     \<lparr>mr_id = new_id, mr_customer = cc, mr_name = d_name d, mr_dimensions = json_names (d_dimensions d),
      mr_measures = JList (map measure_to_json (d_measures d)),
      mr_filter = JObj [(''methods'', json_names (d_methods d)), (''transactions'', json_names (d_transactions d))],
      mr_source = d_source d, mr_grains = json_names (d_grains d), mr_status = metric_status_str (d_status d),
      mr_backfilled = None, mr_from = d_from d, mr_created_by = by\<rparr>"

subsection \<open>A row as a definition\<close>

text \<open>Iterating a JSON value: an object gives its keys, a text its characters.\<close>

fun py_iter :: "json \<Rightarrow> json list result" where
  "py_iter (JList xs) = Inr xs"
| "py_iter (JObj kvs) = Inr (map (JStr \<circ> fst) kvs)"
| "py_iter (JStr s) = Inr (map (\<lambda>c. JStr [c]) s)"
| "py_iter _ = Inl TypeError"

definition or_empty :: "json \<Rightarrow> json list result" where
  "or_empty v = (if truthy v then py_iter v else Inr [])"

definition collect :: "('a \<Rightarrow> 'b result) \<Rightarrow> 'a list \<Rightarrow> 'b list result" where
  "collect f xs = fold_result (\<lambda>x out. andthen (f x) (\<lambda>y. Inr (out @ [y]))) xs []"

definition json_text :: "json \<Rightarrow> string result" where
  "json_text v = (case v of JStr s \<Rightarrow> Inr s | _ \<Rightarrow> Inl AttributeError)"

definition names_of :: "json \<Rightarrow> string list result" where
  "names_of v = andthen (or_empty v) (collect json_text)"

definition optional_text :: "json \<Rightarrow> string option result" where
  "optional_text v = (if v = JNull then Inr None else andthen (json_text v) (Inr \<circ> Some))"

text \<open>\<open>raw[k]\<close> and \<open>raw.get(k)\<close>.\<close>

definition item :: "json \<Rightarrow> string \<Rightarrow> json result" where
  "item raw k = (case raw of JObj kvs \<Rightarrow> (case map_of kvs k of None \<Rightarrow> Inl KeyError | Some v \<Rightarrow> Inr v) | _ \<Rightarrow> Inl TypeError)"

definition get_item :: "json \<Rightarrow> string \<Rightarrow> json result" where
  "get_item raw k = (case raw of JObj kvs \<Rightarrow> Inr (jget kvs k) | _ \<Rightarrow> Inl AttributeError)"

definition classification_names :: "json \<Rightarrow> string list result" where
  "classification_names v = andthen (or_empty v) (collect (\<lambda>x. case x of
     JStr s \<Rightarrow> andthen (classification_of s) (Inr \<circ> classification_str) | _ \<Rightarrow> Inl ValueError))"

definition trimmed :: "json \<Rightarrow> string option" where
  "trimmed v = (if v = JNull then None else none_if_empty (strip (py_str v)))"

definition measure_from_json :: "json \<Rightarrow> measure result" where
  "measure_from_json raw =
     andthen (andthen (item raw ''name'') json_text) (\<lambda>name.
     andthen (andthen (item raw ''aggregation'') (\<lambda>a. case a of JStr s \<Rightarrow> aggregation_of s | _ \<Rightarrow> Inl ValueError)) (\<lambda>agg.
     andthen (andthen (get_item raw ''field'') optional_text) (\<lambda>field.
     andthen (andthen (get_item raw ''only'') classification_names) (\<lambda>only.
     andthen (andthen (get_item raw ''statuses'') names_of) (\<lambda>statuses.
     andthen (get_item raw ''unit'') (\<lambda>unit. andthen (get_item raw ''minus'') (\<lambda>minus.
       Inr \<lparr>m_name = name, m_agg = agg, m_field = field, m_only = only, m_statuses = statuses,
         m_unit = trimmed unit, m_minus = trimmed minus\<rparr>)))))))"

definition filter_names :: "metric_row \<Rightarrow> string \<Rightarrow> string list result" where
  "filter_names r k = andthen (if truthy (mr_filter r) then get_item (mr_filter r) k else Inr JNull) names_of"

definition metric_from_row :: "metric_row \<Rightarrow> metric result" where
  "metric_from_row r =
     andthen (names_of (mr_dimensions r)) (\<lambda>dims.
     andthen (andthen (or_empty (mr_measures r)) (collect measure_from_json)) (\<lambda>measures.
     andthen (names_of (mr_grains r)) (\<lambda>grains.
     andthen (filter_names r ''methods'') (\<lambda>methods. andthen (filter_names r ''transactions'') (\<lambda>transactions.
     andthen (metric_status_of (mr_status r)) (\<lambda>status.
       Inr \<lparr>d_name = mr_name r, d_dimensions = dims, d_measures = measures, d_grains = grains, d_methods = methods,
         d_transactions = transactions, d_status = status,
         d_source = (if mr_source r = [] then ''transaction'' else mr_source r), d_from = mr_from r\<rparr>))))))"

subsection \<open>What the fold asks the registry\<close>

text \<open>A row that cannot be read, and a definition with problems, is left out. Kinds of fields are not consulted here.\<close>

definition readable_rows :: "metric_row list \<Rightarrow> (uuid \<times> metric) list result" where
  "readable_rows rows =
     fold_result (\<lambda>r out. case metric_from_row r of
         Inr d \<Rightarrow> Inr (out @ [(mr_id r, d)])
       | Inl e \<Rightarrow> if e = KeyError \<or> e = ValueError then Inr out else Inl e) rows []"

definition active_definitions :: "string \<Rightarrow> string list \<Rightarrow> metric_row list \<Rightarrow> (uuid \<times> metric) list result" where
  "active_definitions cc approved rows =
     andthen (readable_rows (filter (\<lambda>r. mr_customer r = cc \<and> mr_status r = ''active'') rows)) (\<lambda>ds.
       Inr (filter (\<lambda>(i, d). validate d approved (\<lambda>k. None) = []) ds))"

definition advance_backfilled_through :: "string \<Rightarrow> instant \<Rightarrow> metric_row list \<Rightarrow> metric_row list" where
  "advance_backfilled_through cc range_end rows =
     (let through = range_end div day_us - 1
      in map (\<lambda>r. if mr_customer r = cc \<and> mr_status r = ''active'' \<and> (case mr_from r of None \<Rightarrow> True | Some t \<Rightarrow> t \<le> range_end)
           then r\<lparr>mr_backfilled := Some (max (case mr_backfilled r of None \<Rightarrow> through | Some b \<Rightarrow> b) through)\<rparr> else r) rows)"

definition ensure_seed :: "string \<Rightarrow> uuid \<Rightarrow> metric_row list \<Rightarrow> uuid \<times> metric_row list" where
  "ensure_seed cc new_id rows =
     (case find (\<lambda>r. mr_customer r = cc \<and> mr_name r = d_name consumption) rows of
        Some r \<Rightarrow> (mr_id r, rows)
      | None \<Rightarrow> (new_id, rows @ [metric_to_row cc new_id (Some ''system:seed'') (consumption\<lparr>d_status := Active\<rparr>)]))"

subsection \<open>Reading back what was stored\<close>

definition stored_measure :: "measure \<Rightarrow> measure" where
  "stored_measure m = m\<lparr>m_only := sorted_names (m_only m), m_statuses := sorted_names (m_statuses m)\<rparr>"

definition stored_metric :: "metric \<Rightarrow> metric" where
  "stored_metric d = d\<lparr>d_measures := map stored_measure (d_measures d)\<rparr>"

text \<open>What a row can say: known classifications, trimmed texts, a named source.\<close>

definition plain_text :: "string option \<Rightarrow> bool" where
  "plain_text t = (case t of None \<Rightarrow> True | Some s \<Rightarrow> s \<noteq> [] \<and> strip s = s)"

definition storable_measure :: "measure \<Rightarrow> bool" where
  "storable_measure m \<longleftrightarrow> set (m_only m) \<subseteq> classification_str ` set classifications \<and> plain_text (m_unit m) \<and> plain_text (m_minus m)"

definition storable_metric :: "metric \<Rightarrow> bool" where
  "storable_metric d \<longleftrightarrow> list_all storable_measure (d_measures d) \<and> d_source d \<noteq> []"

lemma collect_map: "list_all (\<lambda>x. f (c x) = Inr (g x)) xs \<Longrightarrow> collect f (map c xs) = Inr (map g xs)"
proof -
  have "list_all (\<lambda>x. f (c x) = Inr (g x)) xs \<Longrightarrow>
    fold_result (\<lambda>x out. andthen (f x) (\<lambda>y. Inr (out @ [y]))) (map c xs) acc = Inr (acc @ map g xs)" for acc
    by (induction xs arbitrary: acc) (auto simp: andthen_def)
  then show "list_all (\<lambda>x. f (c x) = Inr (g x)) xs \<Longrightarrow> ?thesis" by (simp add: collect_def)
qed

lemma or_empty_list [simp]: "or_empty (JList xs) = Inr xs"
  by (simp add: or_empty_def)

lemma names_of_json_names [simp]: "names_of (json_names names) = Inr names"
  using collect_map [of json_text JStr "\<lambda>s. s" names] by (simp add: names_of_def json_names_def andthen_def json_text_def list_all_iff)

lemma classification_of_str: "classification_of (classification_str c) = Inr c"
  by (cases c) (simp_all add: classification_of_def member_of_def classifications_def)

lemma aggregation_of_str: "aggregation_of (aggregation_str a) = Inr a"
  by (cases a) (simp_all add: aggregation_of_def member_of_def aggregations_def)

lemma metric_status_of_str: "metric_status_of (metric_status_str s) = Inr s"
  by (cases s) (simp_all add: metric_status_of_def member_of_def)

lemma classification_names_json:
  assumes "set names \<subseteq> classification_str ` set classifications"
  shows "classification_names (json_names names) = Inr names"
proof -
  have "collect (\<lambda>x. case x of JStr s \<Rightarrow> andthen (classification_of s) (Inr \<circ> classification_str) | _ \<Rightarrow> Inl ValueError) (map JStr names)
      = Inr (map (\<lambda>s. s) names)"
    using assms by (intro collect_map) (auto simp: list_all_iff classification_of_str andthen_def)
  then show ?thesis by (simp add: classification_names_def json_names_def andthen_def [of "Inr _"])
qed

lemma trimmed_text: "plain_text t \<Longrightarrow> trimmed (opt_str t) = t"
  by (cases t) (simp_all add: plain_text_def trimmed_def opt_str_def none_if_empty_def)

lemma plain_given: "plain_text t \<Longrightarrow> \<not> given t \<longleftrightarrow> t = None"
  by (cases t) (simp_all add: plain_text_def given_def)

lemma measure_roundtrip:
  assumes "storable_measure m"
  shows "measure_from_json (measure_to_json m) = Inr (stored_measure m)"
proof -
  note m = assms [unfolded storable_measure_def]
  obtain kvs where o: "measure_to_json m = JObj kvs" by (simp add: measure_to_json_def)
  then have kvs: "JObj kvs = measure_to_json m" by simp
  have get: "map_of kvs ''name'' = Some (JStr (m_name m))" "map_of kvs ''aggregation'' = Some (JStr (aggregation_str (m_agg m)))"
    "jget kvs ''field'' = opt_str (m_field m)" "jget kvs ''only'' = json_names (sorted_names (m_only m))"
    "jget kvs ''statuses'' = json_names (sorted_names (m_statuses m))"
    "jget kvs ''unit'' = (if given (m_unit m) then opt_str (m_unit m) else JNull)"
    "jget kvs ''minus'' = (if given (m_minus m) then opt_str (m_minus m) else JNull)"
    using kvs by (simp_all add: measure_to_json_def jget_def)
  have f: "optional_text (opt_str (m_field m)) = Inr (m_field m)"
    by (cases "m_field m") (simp_all add: optional_text_def opt_str_def json_text_def andthen_def)
  have only: "classification_names (json_names (sorted_names (m_only m))) = Inr (sorted_names (m_only m))"
    using m by (intro classification_names_json) (simp add: sorted_names_def)
  have t: "trimmed (if given t then opt_str t else JNull) = t" if "plain_text t" for t
    using that plain_given [of t] trimmed_text [of t] by (auto simp: trimmed_def)
  show ?thesis
    using m by (simp add: measure_from_json_def o item_def get_item_def get andthen_def json_text_def aggregation_of_str f only t stored_measure_def)
qed

lemma stored_definition_reads_back:
  assumes "storable_metric d"
  shows "metric_from_row (metric_to_row cc i by d) = Inr (stored_metric d)"
proof -
  have "collect measure_from_json (map measure_to_json (d_measures d)) = Inr (map stored_measure (d_measures d))"
    using assms by (intro collect_map) (auto simp: list_all_iff storable_metric_def measure_roundtrip)
  then show ?thesis
    using assms by (simp add: metric_from_row_def metric_to_row_def andthen_def filter_names_def get_item_def jget_def metric_status_of_str
        stored_metric_def storable_metric_def)
qed

subsection \<open>The stored definition is the saved one\<close>

lemma contributes_stored: "contributes r d' (stored_measure m) = contributes r d m"
  if "d_methods d' = d_methods d" "d_transactions d' = d_transactions d"
proof -
  have "val_in v (sorted_names names) = val_in v names" "sorted_names names = [] \<longleftrightarrow> names = []" for v names
    by (cases v) (auto simp: val_in_def sorted_names_def dest: arg_cong [where f = set])
  then show ?thesis using that by (simp add: contributes_def stored_measure_def)
qed

lemma fold_measure_stored: "fold_measure hash64 (stored_metric d) r (stored_measure m) out = fold_measure hash64 d r m out"
proof -
  have c: "contributes r (stored_metric d) (stored_measure m) = contributes r d m"
    by (rule contributes_stored) (simp_all add: stored_metric_def)
  have sel: "m_field (stored_measure m) = m_field m" "m_minus (stored_measure m) = m_minus m" by (simp_all add: stored_measure_def)
  have "observe_row hash64 r (stored_measure m) b = observe_row hash64 r m b" for b
    by (simp only: observe_row_def observe_key_def measured_def sel)
  moreover have "m_name (stored_measure m) = m_name m" by (simp add: stored_measure_def)
  ultimately show ?thesis by (simp only: fold_measure_def c)
qed

lemma fold_result_map: "fold_result f (map g xs) s = fold_result (f \<circ> g) xs s"
  by (induction xs arbitrary: s) (simp_all add: andthen_def split: sum.split)

lemma metric_fold_stored: "metric_fold hash64 rows (stored_metric d) = metric_fold hash64 rows d"
proof -
  have "d_measures (stored_metric d) = map stored_measure (d_measures d)" by (simp add: stored_metric_def)
  then have "fold_row hash64 (stored_metric d) = fold_row hash64 d"
    by (intro ext) (simp add: fold_row_def fold_result_map comp_def fold_measure_stored [THEN ext])
  moreover have "empty_fold (stored_metric d) = empty_fold d"
    by (simp add: empty_fold_def stored_metric_def fold_map comp_def stored_measure_def empty_roles_def)
  ultimately show ?thesis by (simp add: metric_fold_def)
qed

text \<open>C35: A stored definition is the saved one. Read back from its row a definition has the same name, dimensions, measures,
  filters, grains, source and status, the classification and status filters sorted; it folds any rows into the same
  buckets; and storing it again writes the same row.\<close>

theorem stored_definition_is_the_saved_one:
  assumes "storable_metric d"
  shows "metric_from_row (metric_to_row cc i by d) = Inr (stored_metric d)
    \<and> metric_fold hash64 rows (stored_metric d) = metric_fold hash64 rows d
    \<and> metric_to_row cc i by (stored_metric d) = metric_to_row cc i by d"
proof -
  have "sorted_names (sorted_names names) = sorted_names names" for names
    by (simp add: sorted_names_def distinct_remdups_id sorted_sort_id)
  then have "measure_to_json (stored_measure m) = measure_to_json m" for m
    by (simp add: measure_to_json_def stored_measure_def)
  then have "metric_to_row cc i by (stored_metric d) = metric_to_row cc i by d"
    by (simp add: metric_to_row_def stored_metric_def)
  then show ?thesis by (simp add: stored_definition_reads_back [OF assms] metric_fold_stored)
qed

definition measured_in_cases :: metric where
  "measured_in_cases = consumption\<lparr>d_measures := [plain_measure ''moved'' Agg_sum (Some ''quantity'') [''pick'', ''attempt''] [''success'', ''soft'']
     \<lparr>m_unit := Some ''cases''\<rparr>]\<rparr>"

theorem stored_definition_is_the_saved_one_witness:
  "metric_from_row (metric_to_row ''acme'' 7 None measured_in_cases) = Inr (stored_metric measured_in_cases)
    \<and> m_only (hd (d_measures (stored_metric measured_in_cases))) = [''attempt'', ''pick'']"
proof -
  have "storable_metric measured_in_cases" by code_simp
  from stored_definition_is_the_saved_one [OF this, of "''acme''" 7 None] show ?thesis by (auto, code_simp)
qed

subsection \<open>The seed, and rows that cannot be read\<close>

lemma seed_once: "ensure_seed cc j (snd (ensure_seed cc i rows)) = (fst (ensure_seed cc i rows), snd (ensure_seed cc i rows))"
proof (cases "find (\<lambda>r. mr_customer r = cc \<and> mr_name r = d_name consumption) rows")
  case None
  then have "find (\<lambda>r. mr_customer r = cc \<and> mr_name r = d_name consumption) (rows @ [r']) = (if mr_customer r' = cc \<and> mr_name r' = d_name consumption then Some r' else None)" for r'
    by (induction rows) (auto split: if_splits)
  then show ?thesis using None by (simp add: ensure_seed_def metric_to_row_def)
qed (simp add: ensure_seed_def)

text \<open>A row without a name in a measure is left out; a measure that is a text ends the run of the tenant.\<close>

definition bad_row :: "json \<Rightarrow> metric_row" where
  "bad_row m = (metric_to_row ''acme'' 8 None measured_in_cases)\<lparr>mr_measures := JList [m]\<rparr>"

lemma nameless_measure_is_skipped: "map_sum id (map fst) (readable_rows [bad_row (JObj []), metric_to_row ''acme'' 7 None measured_in_cases]) = Inr [7]"
  by code_simp

lemma text_measure_stops_the_tenant: "readable_rows [bad_row (JStr ''moved''), metric_to_row ''acme'' 7 None measured_in_cases] = Inl TypeError"
  by code_simp

lemma seed_is_valid: "validate (consumption\<lparr>d_status := Active\<rparr>) approved kinds = []"
  by (simp add: validate_def consumption_def bad_field_def is_attr_path_def attr_prefix_def starts_with_def record_grain_def
      fact_fields_def grain_names_def plain_measure_def field_problems_def given_def the_name_def minus_problems_def kind_problems_def
      kind_of_def refuses_def refused_by_kind_def filter_problems_def completed_def known_statuses_def quantity_fields_def
      carries_quantity_def quantity_field_def)

end
