(* ===== verification/Lookup.thy ===== *)
theory Lookup
  imports Registry Rollups
begin

text \<open>
  Key to attribute lookups (\<open>analytics/lookup.py\<close>): declarations, what the fold observes, and how a key is resolved when
  somebody reads. A row is a mapping from names: its columns and its bag of attributes. Problems are the constructors
  of a datatype instead of texts. Buckets are values: an hour is an instant, a day or a month a date.
\<close>

subsection \<open>Paths\<close>

definition lookup_prefix :: string where "lookup_prefix = ''lookup:''"

definition is_lookup_path :: "string \<Rightarrow> bool" where
  "is_lookup_path name = starts_with lookup_prefix name"

text \<open>\<open>str.partition\<close> at the first dot.\<close>

definition partition_dot :: "string \<Rightarrow> string \<times> bool \<times> string" where
  "partition_dot s =
     (let a = takeWhile (\<lambda>c. c \<noteq> CHR ''.'') s; b = dropWhile (\<lambda>c. c \<noteq> CHR ''.'') s
      in (a, b \<noteq> [], tl b))"

definition split_path :: "string \<Rightarrow> (string \<times> string) result" where
  "split_path name =
     (if \<not> is_lookup_path name then Inl ValueError
      else case partition_dot (drop (length lookup_prefix) name) of (l, dot, a) \<Rightarrow>
             (if \<not> dot \<or> l = [] \<or> a = [] then Inl ValueError else Inr (l, a)))"

definition lookup_path :: "string \<Rightarrow> string \<Rightarrow> string" where
  "lookup_path l a = lookup_prefix @ l @ ''.'' @ a"

subsection \<open>Declarations\<close>

record lk_source =
  ls_method :: string
  ls_key :: string
  ls_value :: string
  ls_list :: bool

record lk_attribute =
  la_name :: string
  la_sources :: "lk_source list"
  la_stable :: bool
  la_conflict :: string

record lk_lookup =
  lu_name :: string
  lu_key :: string
  lu_attributes :: "lk_attribute list"

definition conflict_rules :: "string list" where
  "conflict_rules = [''first_wins'', ''latest_wins'', ''all_values'']"

definition make_attribute :: "string \<Rightarrow> lk_source list \<Rightarrow> bool \<Rightarrow> string \<Rightarrow> lk_attribute result" where
  "make_attribute name sources is_stable conflict =
     (if conflict \<notin> set conflict_rules then Inl ValueError
      else Inr \<lparr>la_name = name, la_sources = sources, la_stable = is_stable, la_conflict = conflict\<rparr>)"

definition attribute_named :: "lk_lookup \<Rightarrow> string \<Rightarrow> lk_attribute option" where
  "attribute_named l name = find (\<lambda>a. la_name a = name) (lu_attributes l)"

definition named_sources :: "lk_lookup \<Rightarrow> (string \<times> lk_source) list" where
  "named_sources l = concat (map (\<lambda>a. map (\<lambda>s. (la_name a, s)) (la_sources a)) (lu_attributes l))"

definition sources_by_method :: "lk_lookup \<Rightarrow> (string, (string \<times> lk_source) list) odict" where
  "sources_by_method l = bucket (\<lambda>ns. ls_method (snd ns)) (named_sources l)"

datatype lk_problem =
    Lookup_without_name
  | Dotted_lookup string
  | Unticked_key string
  | Key_not_a_field string
  | Lookup_without_attributes string
  | Attribute_without_source string
  | Dotted_attribute string

definition validate_lookup :: "lk_lookup \<Rightarrow> string list \<Rightarrow> string list \<Rightarrow> lk_problem list" where
  "validate_lookup l names approved =
     (if lu_name l = [] then [Lookup_without_name] else [])
     @ (if CHR ''.'' \<in> set (lu_name l) then [Dotted_lookup (lu_name l)] else [])
     @ (if is_attr_path (lu_key l) then (if attr_key (lu_key l) \<notin> set approved then [Unticked_key (lu_key l)] else [])
        else if lu_key l \<notin> set names then [Key_not_a_field (lu_key l)] else [])
     @ (if lu_attributes l = [] then [Lookup_without_attributes (lu_name l)] else [])
     @ concat (map (\<lambda>a. (if la_sources a = [] then [Attribute_without_source (la_name a)] else [])
         @ (if CHR ''.'' \<in> set (la_name a) then [Dotted_attribute (la_name a)] else [])) (lu_attributes l))"

subsection \<open>Values kept together\<close>

definition combined_sep :: string where "combined_sep = '' | ''"

function split_sep :: "string \<Rightarrow> string \<Rightarrow> string list" where
  "split_sep sep s =
     (if s = [] then [[]]
      else if sep \<noteq> [] \<and> starts_with sep s then [] # split_sep sep (drop (length sep) s)
      else (let r = split_sep sep (tl s) in (hd s # hd r) # tl r))"
  by pat_completeness auto
termination
  by (relation "measure (\<lambda>(sep, s). length s)") auto

declare split_sep.simps [simp del]

definition combined_parts :: "string \<Rightarrow> string list" where
  "combined_parts s = filter (\<lambda>p. p \<noteq> []) (map strip (split_sep combined_sep s))"

definition combine_values :: "string \<Rightarrow> string \<Rightarrow> string" where
  "combine_values current new = join combined_sep (sorted_names (combined_parts current @ [strip new]))"

definition is_combined :: "string option \<Rightarrow> bool" where
  "is_combined value = (case value of None \<Rightarrow> False | Some s \<Rightarrow> s \<noteq> [] \<and> has_substring combined_sep s)"

subsection \<open>Harvesting\<close>

record lk_row =
  lr_columns :: "string \<Rightarrow> val"
  lr_bag :: attrs

definition fact_lk_row :: "fact \<Rightarrow> lk_row" where
  "fact_lk_row f = \<lparr>lr_columns = fact_column f, lr_bag = f_attrs f\<rparr>"

record observation =
  ob_lookup :: string
  ob_key :: string
  ob_attribute :: string
  ob_value :: string
  ob_at :: instant
  ob_method :: string

text \<open>\<open>_text\<close>: blanks say nothing, lists and objects are no text.\<close>

definition json_lk_text :: "json \<Rightarrow> string option" where
  "json_lk_text v = (case v of JNull \<Rightarrow> None | JList xs \<Rightarrow> None | JObj kvs \<Rightarrow> None | _ \<Rightarrow> none_if_empty (strip (py_str v)))"

definition val_lk_text :: "val \<Rightarrow> string option" where
  "val_lk_text v = (if v = VNone then None else none_if_empty (strip (val_str v)))"

definition read_text :: "lk_row \<Rightarrow> string \<Rightarrow> string option" where
  "read_text r name =
     (let n = (if is_attr_path name then attr_key name else name)
      in case map_of (lr_bag r) n of Some v \<Rightarrow> json_lk_text v | None \<Rightarrow> val_lk_text (lr_columns r n))"

definition row_method :: "lk_row \<Rightarrow> string option" where
  "row_method r = (case lr_columns r ''method'' of VStr m \<Rightarrow> Some m | _ \<Rightarrow> None)"

definition row_time :: "lk_row \<Rightarrow> instant option" where
  "row_time r = (case lr_columns r ''event_time'' of VTime t \<Rightarrow> Some t | _ \<Rightarrow> None)"

definition seen_pair :: "string \<Rightarrow> string \<Rightarrow> string \<Rightarrow> instant \<Rightarrow> string option \<Rightarrow> string option \<Rightarrow> observation list" where
  "seen_pair l a m t key value =
     (case (key, value) of
        (Some k, Some v) \<Rightarrow> [\<lparr>ob_lookup = l, ob_key = k, ob_attribute = a, ob_value = v, ob_at = t, ob_method = m\<rparr>]
      | _ \<Rightarrow> [])"

definition sources_for :: "lk_lookup \<Rightarrow> string \<Rightarrow> (string \<times> lk_source) list" where
  "sources_for l m = (case map_of (sources_by_method l) m of None \<Rightarrow> [] | Some ns \<Rightarrow> ns)"

definition harvest_row :: "lk_lookup list \<Rightarrow> lk_row \<Rightarrow> observation list" where
  "harvest_row lookups r =
     (case (row_time r, row_method r) of
        (Some t, Some m) \<Rightarrow>
          concat (map (\<lambda>l. concat (map (\<lambda>(a, s). seen_pair (lu_name l) a m t (read_text r (ls_key s)) (read_text r (ls_value s)))
            (filter (\<lambda>(a, s). \<not> ls_list s) (sources_for l m)))) lookups)
      | _ \<Rightarrow> [])"

definition harvest :: "lk_row list \<Rightarrow> lk_lookup list \<Rightarrow> observation list" where
  "harvest rows lookups = concat (map (harvest_row lookups) rows)"

text \<open>The elements of a list response; \<open>entries\<close> are those of the transaction of the row.\<close>

definition list_elements :: "response_entry list \<Rightarrow> attrs list" where
  "list_elements es =
     concat (map (\<lambda>(et, f). if et = ''response'' \<and> is_obj f
         then (case jget (obj_of f) ''response'' of JList xs \<Rightarrow> map obj_of (filter is_obj xs) | _ \<Rightarrow> []) else []) es)"

definition list_sources :: "lk_lookup list \<Rightarrow> string \<Rightarrow> (string \<times> string \<times> lk_source) list" where
  "list_sources lookups m =
     concat (map (\<lambda>l. map (\<lambda>(a, s). (lu_name l, a, s)) (filter (\<lambda>(a, s). ls_list s) (sources_for l m))) lookups)"

definition harvest_list_row :: "lk_lookup list \<Rightarrow> lk_row \<times> response_entry list \<Rightarrow> observation list" where
  "harvest_list_row lookups re =
     (case (row_time (fst re), row_method (fst re)) of
        (Some t, Some m) \<Rightarrow>
          concat (map (\<lambda>e. concat (map (\<lambda>(l, a, s). seen_pair l a m t (json_lk_text (jget e (ls_key s))) (json_lk_text (jget e (ls_value s))))
            (list_sources lookups m))) (list_elements (snd re)))
      | _ \<Rightarrow> [])"

definition harvest_lists :: "(lk_row \<times> response_entry list) list \<Rightarrow> lk_lookup list \<Rightarrow> observation list" where
  "harvest_lists rows lookups = concat (map (harvest_list_row lookups) rows)"

subsection \<open>Resolving\<close>

text \<open>\<open>BEGINNING\<close> is the epoch, the zero of instants.\<close>

definition beginning :: instant where "beginning = 0"

record period =
  pe_value :: string
  pe_from :: instant
  pe_to :: "instant option"

definition period_covers :: "period \<Rightarrow> instant \<Rightarrow> bool" where
  "period_covers p t = (if t < pe_from p then False else case pe_to p of None \<Rightarrow> True | Some e \<Rightarrow> t < e)"

type_synonym lk_key = "string \<times> string \<times> string"
type_synonym resolver = "(lk_key, period list) odict"

definition add_period :: "lk_key \<Rightarrow> period \<Rightarrow> resolver \<Rightarrow> resolver" where
  "add_period k p rs = AList.update k ((case map_of rs k of None \<Rightarrow> [] | Some ps \<Rightarrow> ps) @ [p]) rs"

definition as_datetime :: "val \<Rightarrow> instant option" where
  "as_datetime v = (case v of VTime t \<Rightarrow> Some t | VDate d \<Rightarrow> Some (d * day_us) | _ \<Rightarrow> None)"

text \<open>Latest start first; equal starts keep their order.\<close>

definition latest_first :: "period list \<Rightarrow> period list" where
  "latest_first ps = sort_key (\<lambda>p. - pe_from p) ps"

definition value_at :: "period list \<Rightarrow> instant \<Rightarrow> string option" where
  "value_at ps t = map_option pe_value (find (\<lambda>p. period_covers p t) (latest_first ps))"

definition resolve_value :: "resolver \<Rightarrow> string \<Rightarrow> string option \<Rightarrow> string \<Rightarrow> val \<Rightarrow> string option" where
  "resolve_value rs l key a v =
     (case key of None \<Rightarrow> None
      | Some k \<Rightarrow> (case map_of rs (l, k, a) of
            None \<Rightarrow> None
          | Some [] \<Rightarrow> None
          | Some (p # ps) \<Rightarrow> (case as_datetime v of None \<Rightarrow> Some (pe_value p) | Some t \<Rightarrow> value_at (p # ps) t)))"

subsection \<open>Grouping by a looked-up attribute\<close>

record lk_plan =
  pl_requested :: "string list"
  pl_stored :: "string list"
  pl_steps :: "(string \<times> string) option list"

definition plan_step :: "(string, lk_lookup) odict \<Rightarrow> string \<Rightarrow> (string \<times> (string \<times> string) option) result" where
  "plan_step lookups name =
     (if \<not> is_lookup_path name then Inr (name, None)
      else andthen (split_path name) (\<lambda>(l, a).
        case map_of lookups l of
          None \<Rightarrow> Inl ValueError
        | Some lu \<Rightarrow> if attribute_named lu a = None then Inl ValueError else Inr (lu_key lu, Some (l, a))))"

definition plan :: "string list \<Rightarrow> (string, lk_lookup) odict \<Rightarrow> lk_plan result" where
  "plan group_by lookups =
     andthen (collect (plan_step lookups) group_by) (\<lambda>steps.
       Inr \<lparr>pl_requested = group_by, pl_stored = map fst steps, pl_steps = map snd steps\<rparr>)"

definition translates :: "lk_plan \<Rightarrow> bool" where
  "translates p \<longleftrightarrow> list_ex (\<lambda>s. s \<noteq> None) (pl_steps p)"

type_synonym point = "(val \<times> dims) \<times> role_bucket"

definition keys_needed :: "lk_plan \<Rightarrow> point list \<Rightarrow> (string \<times> string) list" where
  "keys_needed p points =
     remdups (concat (map (\<lambda>((b, dims), roles).
       List.map_filter (\<lambda>(step, v). case (step, v) of (Some (l, a), Some k) \<Rightarrow> Some (l, k) | _ \<Rightarrow> None) (zip (pl_steps p) dims)) points))"

definition translate_dims :: "lk_plan \<Rightarrow> resolver \<Rightarrow> val \<Rightarrow> dims \<Rightarrow> dims" where
  "translate_dims p rs b dims =
     map (\<lambda>(i, step). let v = (if i < length dims then dims ! i else None)
          in case step of None \<Rightarrow> v | Some (l, a) \<Rightarrow> resolve_value rs l v a b) (enumerate 0 (pl_steps p))"

definition translate_point :: "lk_plan \<Rightarrow> resolver \<Rightarrow> point \<Rightarrow> (val \<times> dims, role_bucket) odict \<Rightarrow> (val \<times> dims, role_bucket) odict result" where
  "translate_point p rs pt out =
     (case pt of ((b, dims), roles) \<Rightarrow>
        let key = (b, translate_dims p rs b dims)
        in andthen (add_roles (case map_of out key of None \<Rightarrow> no_roles | Some r \<Rightarrow> r) roles) (\<lambda>r. Inr (AList.update key r out)))"

definition translate :: "point list \<Rightarrow> lk_plan \<Rightarrow> resolver \<Rightarrow> point list result" where
  "translate points p rs = (if \<not> translates p then Inr points else fold_result (translate_point p rs) points [])"

end
