(* ===== verification/LookupStore.thy ===== *)
theory LookupStore
  imports Lookup
begin

text \<open>
  The lookup tables (\<open>analytics/lookup_store.py\<close> over \<open>analytics_lookup.py\<close>): declarations as rows and back, what the fold
  observed written as periods of values, and the periods an answer needs. The rows of the session are the rows of the
  table; a period opened in a batch is a row yet to be inserted, and the object the loop goes on with is another one.
  The id of a stored fact is not kept, so a declaration cannot name it.
\<close>

subsection \<open>Declarations\<close>

record lookup_row =
  dr_customer :: string
  dr_name :: string
  dr_key :: string
  dr_attributes :: json
  dr_enabled :: bool

definition source_to_json :: "lk_source \<Rightarrow> json" where
  "source_to_json s = JObj ([(''method'', JStr (ls_method s)), (''key_field'', JStr (ls_key s)), (''value_field'', JStr (ls_value s))]
     @ (if ls_list s then [(''list'', JBool True)] else []))"

definition attribute_to_json :: "lk_attribute \<Rightarrow> json" where
  "attribute_to_json a = JObj [(''name'', JStr (la_name a)), (''stable'', JBool (la_stable a)), (''on_conflict'', JStr (la_conflict a)),
     (''sources'', JList (map source_to_json (la_sources a)))]"

definition lookup_to_json :: "lk_lookup \<Rightarrow> json" where
  "lookup_to_json l = JList (map attribute_to_json (sort_key la_name (lu_attributes l)))"

definition source_from_json :: "json \<Rightarrow> lk_source result" where
  "source_from_json s =
     andthen (andthen (item s ''method'') json_text) (\<lambda>m. andthen (andthen (item s ''key_field'') json_text) (\<lambda>k.
     andthen (andthen (item s ''value_field'') json_text) (\<lambda>v.
       Inr \<lparr>ls_method = m, ls_key = k, ls_value = v, ls_list = truthy (jget (obj_of s) ''list'')\<rparr>)))"

definition attribute_from_json :: "json \<Rightarrow> lk_attribute result" where
  "attribute_from_json raw =
     andthen (andthen (andthen (get_item raw ''sources'') or_empty) (collect source_from_json)) (\<lambda>sources.
     andthen (andthen (item raw ''name'') json_text) (\<lambda>name.
     andthen (let c = jget (obj_of raw) ''on_conflict'' in if truthy c then json_text c else Inr ''first_wins'') (\<lambda>conflict.
       make_attribute name sources (case map_of (obj_of raw) ''stable'' of None \<Rightarrow> True | Some b \<Rightarrow> truthy b) conflict)))"

definition lookup_from_row :: "lookup_row \<Rightarrow> lk_lookup result" where
  "lookup_from_row r =
     andthen (andthen (or_empty (dr_attributes r)) (collect attribute_from_json)) (\<lambda>attributes.
       Inr \<lparr>lu_name = dr_name r, lu_key = dr_key r, lu_attributes = sort_key la_name attributes\<rparr>)"

definition load_lookups :: "string \<Rightarrow> bool \<Rightarrow> lookup_row list \<Rightarrow> (string, lk_lookup) odict result" where
  "load_lookups cc enabled_only rows =
     fold_result (\<lambda>r out. andthen (lookup_from_row r) (\<lambda>l. Inr (AList.update (dr_name r) l out)))
       (filter (\<lambda>r. dr_customer r = cc \<and> (enabled_only \<longrightarrow> dr_enabled r)) rows) []"

subsection \<open>Observations\<close>

record lookup_value =
  lv_customer :: string
  lv_key :: lk_key
  lv_value :: string
  lv_from :: instant
  lv_to :: "instant option"
  lv_origin :: string
  lv_method :: "string option"
  lv_count :: int
  lv_first :: instant
  lv_last :: instant

definition ob_id :: "observation \<Rightarrow> lk_key" where
  "ob_id ob = (ob_lookup ob, ob_key ob, ob_attribute ob)"

record lk_stats =
  lk_observed :: nat
  lk_inserted :: nat
  lk_extended :: nat
  lk_changed :: nat
  lk_conflicts :: nat

definition reduce :: "observation list \<Rightarrow> (lk_key \<times> observation list) list" where
  "reduce obs = map (\<lambda>(k, os). (k, sort_key ob_at os)) (bucket ob_id obs)"

text \<open>How an attribute settles a disagreement; an attribute nobody declares is stable and keeps its first value.\<close>

record conflict_rule =
  cr_stable :: bool
  cr_latest :: bool
  cr_all :: bool

definition rule_for :: "(string, lk_lookup) odict \<Rightarrow> lk_key \<Rightarrow> conflict_rule" where
  "rule_for lookups k =
     (case k of (l, key, a) \<Rightarrow>
        (case (case map_of lookups l of None \<Rightarrow> None | Some lu \<Rightarrow> attribute_named lu a) of
           None \<Rightarrow> \<lparr>cr_stable = True, cr_latest = False, cr_all = False\<rparr>
         | Some x \<Rightarrow> \<lparr>cr_stable = la_stable x, cr_latest = la_conflict x = ''latest_wins'', cr_all = la_conflict x = ''all_values''\<rparr>))"

definition new_value :: "string \<Rightarrow> lk_key \<Rightarrow> string \<Rightarrow> instant \<Rightarrow> string \<Rightarrow> int \<Rightarrow> instant \<Rightarrow> instant \<Rightarrow> lookup_value" where
  "new_value cc k v start m n first_at last_at =
     \<lparr>lv_customer = cc, lv_key = k, lv_value = v, lv_from = start, lv_to = None, lv_origin = ''observed'', lv_method = Some m,
      lv_count = n, lv_first = first_at, lv_last = last_at\<rparr>"

definition first_period :: "string \<Rightarrow> conflict_rule \<Rightarrow> lk_key \<Rightarrow> observation list \<Rightarrow> lookup_value" where
  "first_period cc rule k seen =
     (let chosen = (if cr_latest rule then last seen else hd seen);
          v = (if cr_all rule then fold (\<lambda>ob c. combine_values c (ob_value ob)) seen (ob_value chosen) else ob_value chosen)
      in new_value cc k v beginning (ob_method chosen) (int (length seen)) (ob_at (hd seen)) (ob_at (last seen)))"

text \<open>The period the loop holds: the row of the table, or the one it has just opened, whose row is among the new ones.\<close>

record open_period =
  op_row :: lookup_value
  op_pending :: "lookup_value option"
  op_fresh :: "lookup_value list"
  op_stats :: lk_stats

definition begin_group :: "lookup_value \<Rightarrow> lk_stats \<Rightarrow> open_period" where
  "begin_group r stats = \<lparr>op_row = r, op_pending = None, op_fresh = [], op_stats = stats\<rparr>"

definition held :: "open_period \<Rightarrow> lookup_value" where
  "held op = (case op_pending op of None \<Rightarrow> op_row op | Some p \<Rightarrow> p)"

definition set_held :: "lookup_value \<Rightarrow> open_period \<Rightarrow> open_period" where
  "set_held v op = (case op_pending op of None \<Rightarrow> op\<lparr>op_row := v\<rparr> | Some p \<Rightarrow> op\<lparr>op_pending := Some v\<rparr>)"

definition count_stat :: "((nat \<Rightarrow> nat) \<Rightarrow> lk_stats \<Rightarrow> lk_stats) \<Rightarrow> open_period \<Rightarrow> open_period" where
  "count_stat upd op = op\<lparr>op_stats := upd Suc (op_stats op)\<rparr>"

definition seen_again :: "observation \<Rightarrow> lookup_value \<Rightarrow> lookup_value" where
  "seen_again ob v = v\<lparr>lv_count := lv_count v + 1, lv_last := max (lv_last v) (ob_at ob)\<rparr>"

definition observe_value_of :: "string \<Rightarrow> conflict_rule \<Rightarrow> observation \<Rightarrow> open_period \<Rightarrow> open_period" where
  "observe_value_of cc rule ob op =
     (let cur = held op
      in if cr_all rule then
           (let combined = combine_values (lv_value cur) (ob_value ob)
            in if combined \<noteq> lv_value cur then count_stat lk_conflicts_update (set_held (seen_again ob (cur\<lparr>lv_value := combined\<rparr>)) op)
               else count_stat lk_extended_update (set_held (seen_again ob cur) op))
         else if ob_value ob = lv_value cur then count_stat lk_extended_update (set_held (seen_again ob cur) op)
         else if cr_stable rule then
           count_stat lk_conflicts_update (if cr_latest rule
             then set_held (cur\<lparr>lv_value := ob_value ob, lv_method := Some (ob_method ob), lv_last := max (lv_last cur) (ob_at ob)\<rparr>) op else op)
         else if lv_to cur = None \<and> lv_from cur < ob_at ob then
           (let fresh = new_value cc (lv_key cur) (ob_value ob) (ob_at ob) (ob_method ob) 1 (ob_at ob) (ob_at ob);
                closed = set_held (cur\<lparr>lv_to := Some (ob_at ob)\<rparr>) op
            in count_stat lk_changed_update (closed\<lparr>op_pending := Some fresh, op_fresh := op_fresh op @ [fresh]\<rparr>))
         else op)"

definition value_id :: "lookup_value \<Rightarrow> string \<times> lk_key \<times> instant" where
  "value_id v = (lv_customer v, lv_key v, lv_from v)"

definition periods_of :: "string \<Rightarrow> lk_key \<Rightarrow> lookup_value list \<Rightarrow> lookup_value list" where
  "periods_of cc k rows = filter (\<lambda>r. lv_customer r = cc \<and> lv_key r = k) rows"

type_synonym record_state = "lk_stats \<times> lookup_value list \<times> lookup_value list"

definition record_group :: "string \<Rightarrow> (string, lk_lookup) odict \<Rightarrow> lk_key \<times> observation list \<Rightarrow> record_state \<Rightarrow> record_state" where
  "record_group cc lookups kg st =
     (case (kg, st) of ((k, seen), (stats, rows, fresh)) \<Rightarrow>
        (let rule = rule_for lookups k; periods = sort_key lv_from (periods_of cc k rows)
         in if periods = [] then
              (let torn = cr_stable rule \<and> length (remdups (map ob_value seen)) > 1
               in (stats\<lparr>lk_inserted := Suc (lk_inserted stats), lk_conflicts := lk_conflicts stats + (if torn then 1 else 0)\<rparr>,
                   rows, fresh @ [first_period cc rule k seen]))
            else
              (let op = fold (observe_value_of cc rule) seen (begin_group (last periods) stats)
               in (op_stats op, map (\<lambda>r. if value_id r = value_id (last periods) then op_row op else r) rows, fresh @ op_fresh op))))"

definition fits_value :: "lookup_value \<Rightarrow> bool" where
  "fits_value v \<longleftrightarrow> (case lv_key v of (l, k, a) \<Rightarrow> length l \<le> 64 \<and> length k \<le> 128 \<and> length a \<le> 64)
     \<and> length (lv_value v) \<le> 512 \<and> (case lv_method v of None \<Rightarrow> True | Some m \<Rightarrow> length m \<le> 128)"

text \<open>\<open>ON CONFLICT DO NOTHING\<close>.\<close>

definition insert_value :: "lookup_value \<Rightarrow> lookup_value list \<Rightarrow> lookup_value list" where
  "insert_value v rows = (if list_ex (\<lambda>r. value_id r = value_id v) rows then rows else rows @ [v])"

definition no_lk_stats :: "nat \<Rightarrow> lk_stats" where
  "no_lk_stats n = \<lparr>lk_observed = n, lk_inserted = 0, lk_extended = 0, lk_changed = 0, lk_conflicts = 0\<rparr>"

definition record_values :: "string \<Rightarrow> observation list \<Rightarrow> (string, lk_lookup) odict \<Rightarrow> lookup_value list \<Rightarrow> (lk_stats \<times> lookup_value list) result" where
  "record_values cc obs lookups rows =
     (case fold (record_group cc lookups) (reduce obs) (no_lk_stats (length obs), rows, []) of (stats, rows', fresh) \<Rightarrow>
        (if list_all fits_value (filter (\<lambda>r. r \<notin> set rows) rows') \<and> list_all fits_value fresh
         then Inr (stats, fold insert_value fresh rows') else Inl DataError))"

subsection \<open>The periods an answer needs\<close>

definition period_of :: "lookup_value \<Rightarrow> period" where
  "period_of v = \<lparr>pe_value = lv_value v, pe_from = lv_from v, pe_to = lv_to v\<rparr>"

definition resolver_for :: "string \<Rightarrow> (string \<times> string) list \<Rightarrow> (string \<times> string) list \<Rightarrow> lookup_value list \<Rightarrow> resolver" where
  "resolver_for cc needed attributes rows =
     fold (\<lambda>r. add_period (lv_key r) (period_of r))
       (concat (map (\<lambda>l. filter (\<lambda>r. lv_customer r = cc \<and> (case lv_key r of (l', k, a) \<Rightarrow> l' = l \<and> (l, k) \<in> set needed
            \<and> (attributes = [] \<or> a \<in> snd ` set attributes))) rows) (remdups (map fst needed)))) []"

subsection \<open>Backfill\<close>

definition stored_lk_row :: "stored_fact \<Rightarrow> lk_row" where
  "stored_lk_row r = \<lparr>lr_columns = (\<lambda>k. if k = ''customer_code'' then VStr (sf_customer r) else if k = ''created_at'' then VTime (sf_created r)
       else fact_column (sf_fact r) k), lr_bag = f_attrs (sf_fact r)\<rparr>"

definition entry_pair :: "log_entry \<Rightarrow> response_entry" where
  "entry_pair e = ((case entry_type e of Response \<Rightarrow> ''response'' | MiResult \<Rightarrow> ''mi_result'' | _ \<Rightarrow> ''other''), JObj (entry_fields e))"

definition response_entries :: "store \<Rightarrow> string \<Rightarrow> uuid \<Rightarrow> response_entry list" where
  "response_entries s cc t =
     map (\<lambda>(e, x). entry_pair e) (filter (\<lambda>(e, x). entry_type e = Response)
       (concat (map (joined s) (filter (\<lambda>a. a_customer a = cc \<and> a_txn a = t) (assigns s)))))"

definition harvest_lists_from_entries :: "store \<Rightarrow> string \<Rightarrow> lk_lookup \<Rightarrow> stored_fact list \<Rightarrow> observation list" where
  "harvest_lists_from_entries s cc l facts =
     (let methods = map (\<lambda>(a, x). ls_method x) (filter (\<lambda>(a, x). ls_list x) (named_sources l));
          rows = filter (\<lambda>r. case text_field (sf_fact r) ''method'' of None \<Rightarrow> False | Some m \<Rightarrow> m \<in> set methods) facts
      in harvest_lists (map (\<lambda>r. (fact_lk_row (sf_fact r), response_entries s cc (f_txn (sf_fact r)))) rows) [l])"

definition backfill_lookup ::
    "store \<Rightarrow> string \<Rightarrow> instant \<Rightarrow> int \<Rightarrow> lk_lookup \<Rightarrow> stored_fact list \<Rightarrow> lookup_value list \<Rightarrow> (lk_stats \<times> lookup_value list) result" where
  "backfill_lookup s cc now days l facts rows =
     (let methods = map fst (sources_by_method l);
          read = sort_key (\<lambda>r. ts_or_0 (f_event (sf_fact r))) (filter (\<lambda>r. sf_customer r = cc
            \<and> (case text_field (sf_fact r) ''method'' of None \<Rightarrow> False | Some m \<Rightarrow> m \<in> set methods)
            \<and> (case f_event (sf_fact r) of None \<Rightarrow> False | Some t \<Rightarrow> now - days * day_us \<le> t)) facts);
          obs = harvest (map stored_lk_row read) [l]
            @ (if list_ex (\<lambda>(a, x). ls_list x) (named_sources l) then harvest_lists_from_entries s cc l read else [])
      in if methods = [] then Inr (no_lk_stats 0, rows) else record_values cc obs [(lu_name l, l)] rows)"

end
