(* ===== verification/LookupProperties.thy ===== *)
theory LookupProperties
  imports LookupStore
begin

text \<open>
  What the lookup table says after a batch of observations. The table is read through \<open>says\<close>, the value of one key of a
  tenant at an instant. A batch touches a key only through the observations of that key, in the order of their
  instants: the first one is true from the beginning, a stable attribute never changes, and an attribute that is not
  stable says what was last observed.
\<close>

definition says :: "string \<Rightarrow> lk_key \<Rightarrow> lookup_value list \<Rightarrow> instant \<Rightarrow> string option" where
  "says cc k rows t = value_at (map period_of (periods_of cc k rows)) t"

definition ids_unique :: "lookup_value list \<Rightarrow> bool" where
  "ids_unique rows \<longleftrightarrow> distinct (map value_id rows)"

definition seen_of :: "lk_key \<Rightarrow> observation list \<Rightarrow> observation list" where
  "seen_of k obs = sort_key ob_at (filter (\<lambda>ob. ob_id ob = k) obs)"

subsection \<open>One key at a time\<close>

lemma periods_of_append: "periods_of cc k (xs @ ys) = periods_of cc k xs @ periods_of cc k ys"
  by (simp add: periods_of_def)

lemma insert_value_periods: "periods_of cc k (insert_value v rows) =
    (if lv_customer v = cc \<and> lv_key v = k then insert_value v (periods_of cc k rows) else periods_of cc k rows)"
  by (auto simp: insert_value_def periods_of_def list_ex_iff value_id_def)

lemma fold_insert_periods: "periods_of cc k (fold insert_value fresh rows) = fold insert_value (periods_of cc k fresh) (periods_of cc k rows)"
  by (induction fresh arbitrary: rows) (simp_all add: insert_value_periods, simp_all add: periods_of_def)

lemma list_ex_id: "list_ex (\<lambda>r. value_id r = x) rows \<longleftrightarrow> x \<in> value_id ` set rows"
  by (induction rows) auto

lemma fold_insert_new:
  "distinct (map value_id (rows @ fresh)) \<Longrightarrow> fold insert_value fresh rows = rows @ fresh"
proof (induction fresh arbitrary: rows)
  case (Cons v fresh)
  then have "\<not> list_ex (\<lambda>r. value_id r = value_id v) rows" by (auto simp: list_ex_id)
  then show ?case using Cons.IH [of "rows @ [v]"] Cons.prems by (simp add: insert_value_def)
qed simp

definition belongs :: "lookup_value \<Rightarrow> open_period \<Rightarrow> bool" where
  "belongs r op \<longleftrightarrow> value_id (op_row op) = value_id r \<and> lv_key (held op) = lv_key r
     \<and> list_all (\<lambda>v. lv_key v = lv_key r \<and> lv_customer v = lv_customer r) (op_fresh op)"

lemma held_simps: "op_pending op = None \<Longrightarrow> held op = op_row op" "op_pending op = Some p \<Longrightarrow> held op = p"
  by (simp_all add: held_def)

lemma belongs_step: "belongs r op \<Longrightarrow> belongs r (observe_value_of (lv_customer r) rule ob op)"
  by (cases "op_pending op") (simp_all add: observe_value_of_def Let_def belongs_def held_def set_held_def count_stat_def seen_again_def
      value_id_def new_value_def)

lemma belongs_fold: "belongs r op \<Longrightarrow> belongs r (fold (observe_value_of (lv_customer r) rule) obs op)"
  by (induction obs arbitrary: op) (simp_all add: belongs_step)

lemma belongs_start: "belongs r (begin_group r stats)"
  by (simp add: belongs_def begin_group_def held_def)

text \<open>What one group does to its key, and that it leaves every other key alone.\<close>

definition key_effect :: "string \<Rightarrow> conflict_rule \<Rightarrow> lk_key \<Rightarrow> lk_stats \<Rightarrow> lookup_value list \<Rightarrow> observation list \<Rightarrow> lookup_value list \<times> lookup_value list" where
  "key_effect cc rule k stats ps seen =
     (let sorted_ps = sort_key lv_from ps
      in if ps = [] then ([], [first_period cc rule k seen])
         else let r = last sorted_ps; op = fold (observe_value_of cc rule) seen (begin_group r stats)
              in (map (\<lambda>x. if value_id x = value_id r then op_row op else x) ps, op_fresh op))"

lemma stats_do_not_matter:
  "op_row (fold (observe_value_of cc rule) seen (begin_group r st1)) = op_row (fold (observe_value_of cc rule) seen (begin_group r st2))"
  "op_fresh (fold (observe_value_of cc rule) seen (begin_group r st1)) = op_fresh (fold (observe_value_of cc rule) seen (begin_group r st2))"
proof -
  define alike where "alike a b \<longleftrightarrow> op_row a = op_row b \<and> op_pending a = op_pending b \<and> op_fresh a = op_fresh b" for a b :: open_period
  have step: "alike a b \<Longrightarrow> alike (observe_value_of cc rule ob a) (observe_value_of cc rule ob b)" for ob a b
  proof -
    assume "alike a b"
    then have b: "b = a\<lparr>op_stats := op_stats b\<rparr>" by (simp add: alike_def)
    have held: "held (a\<lparr>op_stats := s\<rparr>) = held a" for s by (simp add: held_def split: option.split)
    have other: "alike (observe_value_of cc rule ob a) (observe_value_of cc rule ob (a\<lparr>op_stats := s\<rparr>))" for s
      unfolding observe_value_of_def Let_def held
      by (cases "op_pending a"; simp add: alike_def set_held_def count_stat_def)
    show ?thesis by (subst b) (rule other)
  qed
  have "alike a b \<Longrightarrow> alike (fold (observe_value_of cc rule) seen a) (fold (observe_value_of cc rule) seen b)" for a b
    by (induction seen arbitrary: a b) (simp_all add: step)
  then have "alike (fold (observe_value_of cc rule) seen (begin_group r st1)) (fold (observe_value_of cc rule) seen (begin_group r st2))"
    by (simp add: alike_def begin_group_def)
  then show "op_row (fold (observe_value_of cc rule) seen (begin_group r st1)) = op_row (fold (observe_value_of cc rule) seen (begin_group r st2))"
    "op_fresh (fold (observe_value_of cc rule) seen (begin_group r st1)) = op_fresh (fold (observe_value_of cc rule) seen (begin_group r st2))"
    by (simp_all add: alike_def)
qed

lemma key_effect_stats: "key_effect cc rule k st1 ps seen = key_effect cc rule k st2 ps seen"
  by (simp add: key_effect_def Let_def stats_do_not_matter [where ?st1.0 = st1 and ?st2.0 = st2])

lemma last_period_in: "ps \<noteq> [] \<Longrightarrow> last (sort_key lv_from ps) \<in> set ps"
  using last_in_set [of "sort_key lv_from ps"] by (metis set_sort sort_key_simps(1) length_sort length_0_conv)

lemma periods_of_replaced: "(\<And>x. lv_customer (g x) = lv_customer x \<and> lv_key (g x) = lv_key x) \<Longrightarrow> periods_of cc k (map g rows) = map g (periods_of cc k rows)"
  by (induction rows) (simp_all add: periods_of_def)

lemma periods_of_others: "list_all (\<lambda>v. lv_key v = k \<and> lv_customer v = cc) new \<Longrightarrow>
    periods_of c k' new = (if k' = k \<and> c = cc then new else [])"
  by (induction new) (auto simp: periods_of_def)

lemma record_group_shape:
  assumes "record_group cc lookups (k, seen) (stats, rows, fresh) = (stats', rows', fresh')"
    and "key_effect cc (rule_for lookups k) k stats (periods_of cc k rows) seen = (ps, new)"
  shows "periods_of c k' rows' = (if k' = k \<and> c = cc then ps else periods_of c k' rows)"
    and "periods_of c k' fresh' = periods_of c k' fresh @ (if k' = k \<and> c = cc then new else [])"
proof -
  let ?ps = "periods_of cc k rows" and ?rule = "rule_for lookups k"
  let ?r = "last (sort_key lv_from ?ps)"
  let ?op = "fold (observe_value_of cc ?rule) seen (begin_group ?r stats)"
  let ?g = "\<lambda>x. if value_id x = value_id ?r then op_row ?op else x"
  have "periods_of c k' rows' = (if k' = k \<and> c = cc then ps else periods_of c k' rows)
    \<and> periods_of c k' fresh' = periods_of c k' fresh @ (if k' = k \<and> c = cc then new else [])"
  proof (cases "?ps = []")
    case True
    then have eqs: "rows' = rows" "fresh' = fresh @ [first_period cc ?rule k seen]" "ps = []" "new = [first_period cc ?rule k seen]"
      using assms by (simp_all add: record_group_def key_effect_def Let_def)
    have "list_all (\<lambda>v. lv_key v = k \<and> lv_customer v = cc) [first_period cc ?rule k seen]"
      by (simp add: first_period_def Let_def new_value_def)
    from periods_of_others [OF this] show ?thesis using True by (simp add: eqs periods_of_append)
  next
    case False
    then have "sort_key lv_from ?ps \<noteq> []" by (metis length_0_conv length_sort)
    then have eqs: "rows' = map ?g rows" "fresh' = fresh @ op_fresh ?op" "ps = map ?g ?ps" "new = op_fresh ?op"
      using assms False by (simp_all add: record_group_def key_effect_def Let_def)
    have r: "?r \<in> set ?ps" by (rule last_period_in [OF False])
    then have cust: "lv_customer ?r = cc" "lv_key ?r = k" by (simp_all add: periods_of_def)
    have b: "belongs ?r ?op" using belongs_fold [OF belongs_start, of ?r ?rule seen stats] by (simp add: cust)
    then have g: "lv_customer (?g x) = lv_customer x \<and> lv_key (?g x) = lv_key x" for x
      by (auto simp: belongs_def value_id_def)
    have "list_all (\<lambda>v. lv_key v = k \<and> lv_customer v = cc) (op_fresh ?op)" using b by (simp add: belongs_def cust)
    from periods_of_others [OF this] have f: "periods_of c k' fresh' = periods_of c k' fresh @ (if k' = k \<and> c = cc then new else [])"
      by (simp add: eqs periods_of_append)
    have "map ?g (periods_of c k' rows) = periods_of c k' rows" if "\<not> (k' = k \<and> c = cc)"
    proof (rule map_idI)
      fix x assume "x \<in> set (periods_of c k' rows)"
      then have "lv_customer x = c" "lv_key x = k'" by (simp_all add: periods_of_def)
      then have "value_id x \<noteq> value_id ?r" using that cust by (auto simp: value_id_def)
      then show "?g x = x" by simp
    qed
    then show ?thesis using f by (auto simp: eqs periods_of_replaced [where g = ?g, OF g])
  qed
  then show "periods_of c k' rows' = (if k' = k \<and> c = cc then ps else periods_of c k' rows)"
    and "periods_of c k' fresh' = periods_of c k' fresh @ (if k' = k \<and> c = cc then new else [])" by blast+
qed

subsection \<open>A whole batch\<close>

lemma fold_groups_untouched:
  assumes "fold (record_group cc lookups) gs (stats, rows, fresh) = (stats', rows', fresh')" and "k \<notin> fst ` set gs"
  shows "periods_of cc k rows' = periods_of cc k rows \<and> periods_of cc k fresh' = periods_of cc k fresh"
  using assms
proof (induction gs arbitrary: stats rows fresh)
  case (Cons g gs)
  obtain kg seen where g: "g = (kg, seen)" by fastforce
  obtain st1 rows1 fresh1 where one: "record_group cc lookups (kg, seen) (stats, rows, fresh) = (st1, rows1, fresh1)" by (metis prod_cases3)
  obtain ps new where e: "key_effect cc (rule_for lookups kg) kg stats (periods_of cc kg rows) seen = (ps, new)" by fastforce
  have "periods_of cc k rows1 = periods_of cc k rows" "periods_of cc k fresh1 = periods_of cc k fresh"
    using record_group_shape [OF one e, of cc k] Cons.prems(2) by (auto simp: g)
  then show ?case using Cons.IH [of st1 rows1 fresh1] Cons.prems by (simp add: g one)
qed simp

lemma fold_groups_effect:
  assumes "fold (record_group cc lookups) gs (stats, rows, []) = (stats', rows', fresh')" and "distinct (map fst gs)" and "(k, seen) \<in> set gs"
    and "key_effect cc (rule_for lookups k) k stats0 (periods_of cc k rows) seen = (ps, new)"
  shows "periods_of cc k rows' = ps \<and> periods_of cc k fresh' = new"
proof -
  obtain as bs where gs: "gs = as @ (k, seen) # bs" using assms(3) by (meson split_list)
  then have k: "k \<notin> fst ` set as" "k \<notin> fst ` set bs" using assms(2) by auto
  obtain st1 rows1 fresh1 where a: "fold (record_group cc lookups) as (stats, rows, []) = (st1, rows1, fresh1)" by (metis prod_cases3)
  obtain st2 rows2 fresh2 where b: "record_group cc lookups (k, seen) (st1, rows1, fresh1) = (st2, rows2, fresh2)" by (metis prod_cases3)
  have c: "fold (record_group cc lookups) bs (st2, rows2, fresh2) = (stats', rows', fresh')" using assms(1) a b by (simp add: gs)
  have "periods_of cc k rows1 = periods_of cc k rows" "periods_of cc k fresh1 = []"
    using fold_groups_untouched [OF a k(1)] by (simp_all add: periods_of_def)
  moreover from this have e: "key_effect cc (rule_for lookups k) k st1 (periods_of cc k rows1) seen = (ps, new)"
    using assms(4) key_effect_stats by metis
  ultimately show ?thesis using record_group_shape [OF b e, of cc k] fold_groups_untouched [OF c k(2)] by simp
qed

lemma reduce_keys: "distinct (map fst (reduce obs))" "fst ` set (reduce obs) = ob_id ` set obs"
proof -
  have "map fst (reduce obs) = map fst (bucket ob_id obs)" by (auto simp: reduce_def)
  then show "distinct (map fst (reduce obs))" "fst ` set (reduce obs) = ob_id ` set obs"
    using distinct_bucket [of ob_id obs] set_keys_bucket [of ob_id obs] by (metis, metis set_map)
qed

lemma reduce_group: "k \<in> ob_id ` set obs \<Longrightarrow> (k, seen_of k obs) \<in> set (reduce obs)"
proof -
  assume "k \<in> ob_id ` set obs"
  then have "map_of (bucket ob_id obs) k = Some (filter (\<lambda>ob. ob_id ob = k) obs)" by (simp add: lookup_bucket)
  then have "(k, filter (\<lambda>ob. ob_id ob = k) obs) \<in> set (bucket ob_id obs)" by (rule map_of_SomeD)
  then show ?thesis by (force simp: reduce_def seen_of_def)
qed

lemma set_seen_of: "set (seen_of k obs) = {ob \<in> set obs. ob_id ob = k}"
  by (simp add: seen_of_def)

lemma seen_of_Nil: "seen_of k obs = [] \<longleftrightarrow> k \<notin> ob_id ` set obs"
proof -
  have "seen_of k obs = [] \<longleftrightarrow> set (seen_of k obs) = {}" by simp
  then show ?thesis unfolding set_seen_of by auto
qed

text \<open>The periods of a key after a batch.\<close>

lemma record_values_periods:
  assumes "record_values cc obs lookups rows = Inr (stats, rows')"
    and "key_effect cc (rule_for lookups k) k stats0 (periods_of cc k rows) (seen_of k obs) = (ps, new)"
  shows "periods_of cc k rows' = (if seen_of k obs = [] then periods_of cc k rows else fold insert_value new ps)"
proof -
  obtain st rows1 fresh where run: "fold (record_group cc lookups) (reduce obs) (no_lk_stats (length obs), rows, []) = (st, rows1, fresh)"
    by (metis prod_cases3)
  then have rows': "rows' = fold insert_value fresh rows1" using assms(1) by (simp add: record_values_def split: if_splits)
  show ?thesis
  proof (cases "seen_of k obs = []")
    case True
    then have "k \<notin> fst ` set (reduce obs)" by (simp add: seen_of_Nil reduce_keys)
    from fold_groups_untouched [OF run this] show ?thesis using True by (simp add: rows' fold_insert_periods) (simp add: periods_of_def)
  next
    case False
    then have "(k, seen_of k obs) \<in> set (reduce obs)" by (simp add: seen_of_Nil reduce_group)
    from fold_groups_effect [OF run reduce_keys(1) this assms(2)] show ?thesis using False by (simp add: rows' fold_insert_periods)
  qed
qed

subsection \<open>Reading periods\<close>

definition starts_increase :: "lookup_value list \<Rightarrow> bool" where
  "starts_increase vs \<longleftrightarrow> sorted_wrt (<) (map lv_from vs)"

definition active_at :: "instant \<Rightarrow> lookup_value \<Rightarrow> bool" where
  "active_at t v \<longleftrightarrow> lv_from v \<le> t \<and> (case lv_to v of None \<Rightarrow> True | Some e \<Rightarrow> t < e)"

lemma period_covers_of: "period_covers (period_of v) t = active_at t v"
  by (auto simp: period_covers_def period_of_def active_at_def)

lemma latest_first_rev:
  assumes "mset ps = mset vs" and "starts_increase vs"
  shows "latest_first (map period_of ps) = map period_of (rev vs)"
proof -
  have "sorted_wrt (\<lambda>a b. - lv_from a < - lv_from b) (rev vs)" using assms(2) by (simp add: starts_increase_def sorted_wrt_map sorted_wrt_rev)
  then have s: "sorted_wrt (\<lambda>a b. - pe_from a < - pe_from b) (map period_of (rev vs))" by (simp add: sorted_wrt_map period_of_def)
  then have "sorted (map (\<lambda>p. - pe_from p) (map period_of (rev vs)))"
    by (simp only: sorted_map) (rule sorted_wrt_mono_rel [OF _ s], simp)
  moreover have "inj_on (\<lambda>p. - pe_from p) (set (map period_of (rev vs)))"
  proof -
    have "sorted_wrt (<) (map (\<lambda>p. - pe_from p) (map period_of (rev vs)))" using s by (simp only: sorted_wrt_map)
    then have "distinct (map (\<lambda>p. - pe_from p) (map period_of (rev vs)))" by (simp only: strict_sorted_iff)
    then show ?thesis by (simp only: distinct_map)
  qed
  moreover have m: "mset (map period_of ps) = mset (map period_of (rev vs))" using assms(1) by simp
  ultimately have "inj_on (\<lambda>p. - pe_from p) (set (map period_of ps))" by (simp only: mset_eq_setD [OF m])
  then show ?thesis
    unfolding latest_first_def by (rule sort_key_inj_key_eq [OF m _ \<open>sorted (map (\<lambda>p. - pe_from p) (map period_of (rev vs)))\<close>])
qed

lemma value_of_periods:
  assumes "mset ps = mset vs" and "starts_increase vs"
  shows "value_at (map period_of ps) t = map_option lv_value (find (active_at t) (rev vs))"
proof -
  have "map_option pe_value (find (\<lambda>p. period_covers p t) (map period_of xs)) = map_option lv_value (find (active_at t) xs)" for xs
    by (induction xs) (simp_all add: period_covers_of, simp add: period_of_def)
  then show ?thesis by (simp add: value_at_def latest_first_rev [OF assms])
qed

lemma periods_sorted:
  assumes "ids_unique rows"
  shows "starts_increase (sort_key lv_from (periods_of cc k rows))" and "distinct (map lv_from (periods_of cc k rows))"
proof -
  let ?ps = "periods_of cc k rows"
  have "distinct (map value_id ?ps)" using assms by (simp add: periods_of_def ids_unique_def distinct_map_filter)
  moreover have "map value_id ?ps = map (\<lambda>x. (cc, k, x)) (map lv_from ?ps)" by (auto simp: periods_of_def value_id_def)
  ultimately have "distinct (map (\<lambda>x. (cc, k, x)) (map lv_from ?ps))" by (simp only:)
  then show d: "distinct (map lv_from ?ps)" by (simp only: distinct_map)
  have "distinct (map lv_from (sort_key lv_from ?ps))" using d by (metis mset_map mset_sort mset_eq_imp_distinct_iff)
  then show "starts_increase (sort_key lv_from ?ps)" by (simp add: starts_increase_def strict_sorted_iff)
qed

subsection \<open>The first value, and values that stay\<close>

abbreviation keeps_first :: "conflict_rule \<Rightarrow> bool" where
  "keeps_first rule \<equiv> cr_stable rule \<and> \<not> cr_latest rule \<and> \<not> cr_all rule"

lemma stable_step:
  assumes "keeps_first rule" and "op_pending op = None"
  shows "op_pending (observe_value_of cc rule ob op) = None" and "op_fresh (observe_value_of cc rule ob op) = op_fresh op"
    and "period_of (op_row (observe_value_of cc rule ob op)) = period_of (op_row op)"
  using assms by (simp_all add: observe_value_of_def Let_def held_def set_held_def count_stat_def seen_again_def period_of_def)

lemma stable_fold:
  assumes "keeps_first rule" and "op_pending op = None"
  shows "op_fresh (fold (observe_value_of cc rule) seen op) = op_fresh op
    \<and> period_of (op_row (fold (observe_value_of cc rule) seen op)) = period_of (op_row op)"
  using assms(2)
proof (induction seen arbitrary: op)
  case (Cons ob seen)
  note step = stable_step [OF assms(1) Cons.prems, of cc ob]
  show ?case using Cons.IH [OF step(1)] step(2,3) by simp
qed simp

lemma stable_effect:
  assumes "keeps_first rule" and "ids_unique ps" and "ps \<noteq> []" and "key_effect cc rule k stats ps seen = (ps', new)"
  shows "new = [] \<and> map period_of ps' = map period_of ps"
proof -
  let ?r = "last (sort_key lv_from ps)"
  let ?op = "fold (observe_value_of cc rule) seen (begin_group ?r stats)"
  have s: "op_fresh ?op = [] \<and> period_of (op_row ?op) = period_of ?r"
    using stable_fold [OF assms(1), of "begin_group ?r stats" cc seen] by (simp add: begin_group_def)
  have "period_of (if value_id x = value_id ?r then op_row ?op else x) = period_of x" if "x \<in> set ps" for x
  proof (cases "value_id x = value_id ?r")
    case True
    then have "x = ?r" using assms(2) that last_period_in [OF assms(3)] by (auto simp: ids_unique_def distinct_map dest: inj_onD)
    then show ?thesis using s by simp
  qed simp
  then show ?thesis using assms(3,4) s by (auto simp: key_effect_def Let_def)
qed

lemma periods_of_idem: "periods_of cc k (periods_of cc k rows) = periods_of cc k rows"
  by (simp add: periods_of_def)

lemma ids_unique_periods: "ids_unique rows \<Longrightarrow> ids_unique (periods_of cc k rows)"
  by (simp add: ids_unique_def periods_of_def distinct_map_filter)

text \<open>C36: The first value a key is told is true from the beginning, and a stable attribute never changes. After any batch the
  lookup of a stable attribute says at every instant what it said before; a key it knew nothing about has, from the
  beginning on, the value of the earliest observation of the batch, and a key nobody spoke of stays unknown.\<close>

theorem first_value_is_kept:
  assumes "record_values cc obs lookups rows = Inr (stats, rows')" and "ids_unique rows" and "keeps_first (rule_for lookups k)"
  shows "says cc k rows' t =
    (if periods_of cc k rows \<noteq> [] then says cc k rows t
     else if seen_of k obs = [] \<or> t < beginning then None else Some (ob_value (hd (seen_of k obs))))"
proof -
  obtain ps new where e: "key_effect cc (rule_for lookups k) k stats (periods_of cc k rows) (seen_of k obs) = (ps, new)" by fastforce
  note after = record_values_periods [OF assms(1) e]
  show ?thesis
  proof (cases "periods_of cc k rows = []")
    case True
    then have n: "ps = []" "new = [first_period cc (rule_for lookups k) k (seen_of k obs)]" using e by (simp_all add: key_effect_def)
    have "period_of (first_period cc (rule_for lookups k) k (seen_of k obs)) =
        \<lparr>pe_value = ob_value (hd (seen_of k obs)), pe_from = beginning, pe_to = None\<rparr>"
      using assms(3) by (simp add: first_period_def Let_def period_of_def new_value_def)
    then show ?thesis using True after
      by (simp add: says_def n insert_value_def value_at_def latest_first_def period_covers_def)
  next
    case False
    from stable_effect [OF assms(3) ids_unique_periods [OF assms(2)] False e] show ?thesis using False after by (simp add: says_def)
  qed
qed

subsection \<open>Values that change\<close>

abbreviation changes :: "conflict_rule \<Rightarrow> bool" where
  "changes rule \<equiv> \<not> cr_stable rule \<and> \<not> cr_all rule"

definition chain :: "open_period \<Rightarrow> lookup_value list" where
  "chain op = op_row op # op_fresh op"

definition chain_value :: "open_period \<Rightarrow> instant \<Rightarrow> string" where
  "chain_value op t = lv_value (last (filter (\<lambda>v. lv_from v \<le> t) (chain op)))"

definition last_said :: "string \<Rightarrow> observation list \<Rightarrow> instant \<Rightarrow> string" where
  "last_said v obs t = last (v # map ob_value (filter (\<lambda>ob. ob_at ob \<le> t) obs))"

text \<open>The state of the loop after the observations \<open>done_obs\<close>, opened on the row \<open>r\<close>.\<close>

definition follows :: "lookup_value \<Rightarrow> observation list \<Rightarrow> open_period \<Rightarrow> bool" where
  "follows r done_obs op \<longleftrightarrow>
     lv_from (op_row op) = lv_from r \<and> lv_value (op_row op) = lv_value r \<and> (op_pending op = None \<longleftrightarrow> op_fresh op = [])
     \<and> starts_increase (chain op)
     \<and> lv_value (held op) = lv_value (last (chain op)) \<and> lv_from (held op) = lv_from (last (chain op)) \<and> lv_to (held op) = None
     \<and> lv_to (op_row op) = (case op_fresh op of [] \<Rightarrow> None | v # vs \<Rightarrow> Some (lv_from v)) \<and> list_all (\<lambda>v. lv_to v = None) (op_fresh op)
     \<and> lv_from (last (chain op)) \<le> (if done_obs = [] then lv_from r else ob_at (last done_obs))
     \<and> (\<forall>t. lv_from r \<le> t \<longrightarrow> chain_value op t = last_said (lv_value r) done_obs t)"

lemma follows_start: "lv_to r = None \<Longrightarrow> follows r [] (begin_group r stats)"
  by (simp add: follows_def begin_group_def chain_def starts_increase_def held_def chain_value_def last_said_def)

lemma last_said_snoc: "last_said v (obs @ [ob]) t = (if ob_at ob \<le> t then ob_value ob else last_said v obs t)"
  by (simp add: last_said_def)

lemma starts_below_last: "starts_increase vs \<Longrightarrow> v \<in> set vs \<Longrightarrow> lv_from v \<le> lv_from (last vs)"
proof (induction vs rule: rev_induct)
  case (snoc x xs)
  then show ?case by (auto simp: starts_increase_def sorted_wrt_append)
qed simp

lemma chain_value_late:
  assumes "starts_increase (chain op)" and "lv_from (last (chain op)) \<le> t"
  shows "chain_value op t = lv_value (last (chain op))"
proof -
  have "filter (\<lambda>v. lv_from v \<le> t) (chain op) = chain op"
    using starts_below_last [OF assms(1)] assms(2) by (intro filter_True) force
  then show ?thesis by (simp add: chain_value_def)
qed

lemma follows_same:
  assumes f: "follows r obs op" and rule: "changes rule" and "ob_value ob = lv_value (held op)"
    and late: "(if obs = [] then lv_from r else ob_at (last obs)) < ob_at ob"
  shows "follows r (obs @ [ob]) (observe_value_of cc rule ob op)"
proof -
  let ?op = "observe_value_of cc rule ob op"
  have step: "?op = count_stat lk_extended_update (set_held (seen_again ob (held op)) op)"
    using rule assms(3) by (simp add: observe_value_of_def Let_def)
  have fields: "op_fresh ?op = op_fresh op" "op_pending ?op = None \<longleftrightarrow> op_pending op = None"
    "lv_from (op_row ?op) = lv_from (op_row op)" "lv_value (op_row ?op) = lv_value (op_row op)" "lv_to (op_row ?op) = lv_to (op_row op)"
    "lv_from (held ?op) = lv_from (held op)" "lv_value (held ?op) = lv_value (held op)" "lv_to (held ?op) = lv_to (held op)"
    by (cases "op_pending op"; simp add: step count_stat_def set_held_def seen_again_def held_def)+
  have last: "lv_from (last (chain ?op)) = lv_from (last (chain op))" "lv_value (last (chain ?op)) = lv_value (last (chain op))"
    by (simp_all add: chain_def fields)
  have froms: "map lv_from (chain ?op) = map lv_from (chain op)" by (simp add: chain_def fields)
  have same: "chain_value ?op t = chain_value op t" for t by (simp add: chain_value_def chain_def fields)
  have "chain_value op t = last_said (lv_value r) (obs @ [ob]) t" if "lv_from r \<le> t" for t
  proof (cases "ob_at ob \<le> t")
    case True
    have "lv_from (last (chain op)) \<le> t" using f late True by (simp add: follows_def split: if_splits)
    then show ?thesis using chain_value_late [of op t] f True assms(3) by (simp add: follows_def last_said_snoc)
  next
    case False
    then show ?thesis using f that by (simp add: follows_def last_said_snoc)
  qed
  moreover have "lv_from (last (chain op)) \<le> ob_at ob" using f late by (simp add: follows_def split: if_splits)
  ultimately show ?thesis using f by (simp add: follows_def fields last froms same starts_increase_def)
qed

lemma follows_change:
  assumes f: "follows r obs op" and rule: "changes rule" and other: "ob_value ob \<noteq> lv_value (held op)"
    and late: "(if obs = [] then lv_from r else ob_at (last obs)) < ob_at ob"
  shows "follows r (obs @ [ob]) (observe_value_of cc rule ob op)"
proof -
  let ?op = "observe_value_of cc rule ob op"
  define fresh where "fresh = new_value cc (lv_key (held op)) (ob_value ob) (ob_at ob) (ob_method ob) 1 (ob_at ob) (ob_at ob)"
  have before: "lv_from (held op) < ob_at ob" using f late by (simp add: follows_def split: if_splits)
  have step: "?op = count_stat lk_changed_update ((set_held (held op\<lparr>lv_to := Some (ob_at ob)\<rparr>) op)\<lparr>op_pending := Some fresh, op_fresh := op_fresh op @ [fresh]\<rparr>)"
    using rule other before f by (simp add: observe_value_of_def Let_def fresh_def follows_def set_held_def split: option.split)
  have new: "lv_value fresh = ob_value ob" "lv_from fresh = ob_at ob" "lv_to fresh = None" by (simp_all add: fresh_def new_value_def)
  have fields: "op_fresh ?op = op_fresh op @ [fresh]" "op_pending ?op = Some fresh" "held ?op = fresh"
    by (simp_all add: step count_stat_def held_def)
  have row: "lv_from (op_row ?op) = lv_from (op_row op)" "lv_value (op_row ?op) = lv_value (op_row op)"
    "lv_to (op_row ?op) = (if op_fresh op = [] then Some (ob_at ob) else lv_to (op_row op))"
    using f by (cases "op_pending op"; simp add: step count_stat_def set_held_def held_def follows_def)+
  have chain: "chain ?op = op_row ?op # op_fresh op @ [fresh]" by (simp add: chain_def fields)
  have le: "lv_from v < ob_at ob" if "v \<in> set (chain op)" for v
    using starts_below_last [of "chain op" v] that f before by (simp add: follows_def)
  moreover have "starts_increase (chain op)" using f by (simp add: follows_def)
  ultimately have inc: "starts_increase (chain ?op)"
    by (simp add: chain row chain_def [of op] starts_increase_def new sorted_wrt_append)
  have "chain_value ?op t = last_said (lv_value r) (obs @ [ob]) t" if "lv_from r \<le> t" for t
  proof (cases "ob_at ob \<le> t")
    case True
    then show ?thesis using chain_value_late [OF inc, of t] by (simp add: chain new last_said_snoc)
  next
    case False
    have "filter (\<lambda>v. lv_from v \<le> t) (op_fresh op @ [fresh]) = filter (\<lambda>v. lv_from v \<le> t) (op_fresh op)" using False by (simp add: new)
    then have "chain_value ?op t = chain_value op t" by (simp add: chain_value_def chain chain_def [of op] row)
    then show ?thesis using False f that by (simp add: follows_def last_said_snoc)
  qed
  moreover have "lv_to (op_row ?op) = (case op_fresh op @ [fresh] of [] \<Rightarrow> None | v # vs \<Rightarrow> Some (lv_from v))"
    using f by (cases "op_fresh op") (simp_all add: row new follows_def)
  ultimately show ?thesis using f inc by (simp add: follows_def fields row chain new)
qed

lemma follows_fold:
  assumes "changes rule" and "lv_to r = None" and "sorted_wrt (<) (lv_from r # map ob_at seen)"
  shows "follows r seen (fold (observe_value_of cc rule) seen (begin_group r stats))"
  using assms(3)
proof (induction seen rule: rev_induct)
  case Nil
  show ?case using follows_start [OF assms(2)] by simp
next
  case (snoc ob seen)
  have late: "(if seen = [] then lv_from r else ob_at (last seen)) < ob_at ob" using snoc.prems by (auto simp: sorted_wrt_append)
  have "sorted_wrt (<) (lv_from r # map ob_at seen)" using snoc.prems by (simp add: sorted_wrt_append)
  note f = snoc.IH [OF this]
  show ?case
    using follows_same [OF f assms(1) _ late, of cc] follows_change [OF f assms(1) _ late, of cc]
    by (cases "ob_value ob = lv_value (held (fold (observe_value_of cc rule) seen (begin_group r stats)))") simp_all
qed

text \<open>Reading a chain: the last period that has started.\<close>

lemma find_chain:
  assumes "starts_increase (x # vs)" and "lv_to x = (case vs of [] \<Rightarrow> None | v # ws \<Rightarrow> Some (lv_from v))" and "list_all (\<lambda>v. lv_to v = None) vs"
  shows "find (active_at t) (rev (x # vs)) = (if lv_from x \<le> t then Some (last (filter (\<lambda>v. lv_from v \<le> t) (x # vs))) else None)"
  using assms
proof (induction vs rule: rev_induct)
  case Nil
  then show ?case by (simp add: active_at_def)
next
  case (snoc v vs)
  show ?case
  proof (cases "lv_from v \<le> t")
    case True
    moreover have "lv_from x < lv_from v" using snoc.prems(1) by (simp add: starts_increase_def sorted_wrt_append)
    ultimately show ?thesis using snoc.prems(3) by (simp add: active_at_def)
  next
    case False
    have inc: "starts_increase (x # vs)" using snoc.prems(1) by (simp add: starts_increase_def sorted_wrt_append)
    have all: "list_all (\<lambda>v. lv_to v = None) vs" using snoc.prems(3) by simp
    have not: "\<not> active_at t v" using False by (simp add: active_at_def)
    show ?thesis
    proof (cases vs)
      case Nil
      then show ?thesis using snoc.prems(2) not False by (simp add: active_at_def)
    next
      case (Cons w ws)
      then show ?thesis using snoc.IH [OF inc _ all] snoc.prems(2) not False by simp
    qed
  qed
qed

lemma distinct_starts_ids: "distinct (map lv_from vs) \<Longrightarrow> distinct (map value_id vs)"
proof -
  assume "distinct (map lv_from vs)"
  then have "distinct (map (snd \<circ> snd) (map value_id vs))" by (simp add: comp_def value_id_def)
  then show ?thesis by (simp only: distinct_map)
qed

lemma changing_effect:
  assumes "changes rule" and "ids_unique ps" and "ps \<noteq> []" and e: "key_effect cc rule k stats ps seen = (ps', new)"
    and r: "r = last (sort_key lv_from ps)" "lv_to r = None" "sorted_wrt (<) (lv_from r # map ob_at seen)"
    and inc: "starts_increase (sort_key lv_from ps)"
  obtains op where "mset (fold insert_value new ps') = mset (butlast (sort_key lv_from ps) @ chain op)"
    and "starts_increase (butlast (sort_key lv_from ps) @ chain op)" and "follows r seen op"
proof -
  let ?S = "sort_key lv_from ps"
  define op where "op = fold (observe_value_of cc rule) seen (begin_group r stats)"
  define g where "g = (\<lambda>x. if value_id x = value_id r then op_row op else x)"
  have f: "follows r seen op" unfolding op_def by (rule follows_fold [OF assms(1) r(2,3)])
  have eqs: "ps' = map g ps" "new = op_fresh op" using e assms(3) by (auto simp: key_effect_def Let_def g_def op_def r(1))
  have "set ?S = set ps" by simp
  then have S: "?S = butlast ?S @ [r]" using assms(3) by (metis append_butlast_last_id list.set_sel(1) empty_iff empty_set r(1) hd_in_set)
  have inc': "starts_increase (butlast ?S @ [r])" using inc S by simp
  have "distinct (map lv_from ?S)" using inc by (simp add: starts_increase_def strict_sorted_iff)
  then have d: "distinct (map value_id ?S)" by (rule distinct_starts_ids)
  have "map g (butlast ?S) = butlast ?S"
  proof (rule map_idI)
    fix x assume x: "x \<in> set (butlast ?S)"
    have "distinct (map value_id (butlast ?S @ [r]))" using d S by simp
    then have "value_id r \<notin> value_id ` set (butlast ?S)" by simp
    then have "value_id x \<noteq> value_id r" using x by (metis imageI)
    then show "g x = x" by (simp add: g_def)
  qed
  then have "map g ?S = butlast ?S @ [op_row op]" using S by (metis (full_types) g_def list.simps(8,9) map_append)
  then have m: "mset (map g ps) = mset (butlast ?S @ [op_row op])" by (metis mset_map mset_sort)
  have "starts_increase (chain op)" "lv_from (op_row op) = lv_from r" using f by (simp_all add: follows_def)
  then have inc2: "starts_increase (butlast ?S @ chain op)"
    using inc' unfolding chain_def starts_increase_def by (simp add: sorted_wrt_append) (meson order.strict_trans)
  have m2: "mset (ps' @ new) = mset (butlast ?S @ chain op)" using m by (simp add: eqs chain_def)
  have "distinct (map lv_from (butlast ?S @ chain op))" using inc2 by (simp only: starts_increase_def strict_sorted_iff)
  then have "distinct (map value_id (butlast ?S @ chain op))" by (rule distinct_starts_ids)
  then have "distinct (map value_id (ps' @ new))" using m2 by (metis mset_map mset_eq_imp_distinct_iff)
  from fold_insert_new [OF this] have "mset (fold insert_value new ps') = mset (butlast ?S @ chain op)" using m2 by simp
  then show ?thesis using inc2 f that by blast
qed

text \<open>C37: An attribute that is not stable says what was last observed. For a key that is known, whose newest period is open,
  and observations later than its start and at different instants, the lookup says after the batch, at every instant,
  the value of the last observation made by then, and what it said before where none was made by then.\<close>

theorem changing_value_is_the_last_said:
  assumes "record_values cc obs lookups rows = Inr (stats, rows')" and "ids_unique rows" and "changes (rule_for lookups k)"
    and "periods_of cc k rows \<noteq> []" and "r = last (sort_key lv_from (periods_of cc k rows))" and "lv_to r = None"
    and "sorted_wrt (<) (lv_from r # map ob_at (seen_of k obs))"
  shows "says cc k rows' t = (case filter (\<lambda>ob. ob_at ob \<le> t) (seen_of k obs) of
      [] \<Rightarrow> says cc k rows t | os \<Rightarrow> Some (ob_value (last os)))"
proof (cases "seen_of k obs = []")
  case True
  obtain ps new where e: "key_effect cc (rule_for lookups k) k stats (periods_of cc k rows) (seen_of k obs) = (ps, new)" by fastforce
  then show ?thesis using record_values_periods [OF assms(1) e] True by (simp add: says_def)
next
  case False
  let ?ps = "periods_of cc k rows"
  let ?S = "sort_key lv_from ?ps"
  have inc: "starts_increase ?S" by (rule periods_sorted(1) [OF assms(2)])
  obtain ps new where e: "key_effect cc (rule_for lookups k) k stats ?ps (seen_of k obs) = (ps, new)" by fastforce
  obtain op where m: "mset (fold insert_value new ps) = mset (butlast ?S @ chain op)" and inc2: "starts_increase (butlast ?S @ chain op)"
    and f: "follows r (seen_of k obs) op"
    by (rule changing_effect [OF assms(3) ids_unique_periods [OF assms(2)] assms(4) e assms(5-7) inc])
  have S: "?S = butlast ?S @ [r]" unfolding assms(5) by (rule append_butlast_last_id [symmetric]) (metis assms(4) last_period_in set_sort empty_iff empty_set)
  have "mset ?ps = mset (butlast ?S @ [r])" using S by (metis mset_sort)
  moreover have "starts_increase (butlast ?S @ [r])" using inc S by simp
  ultimately have old: "says cc k rows t = map_option lv_value (find (active_at t) (r # rev (butlast ?S)))"
    using value_of_periods [of ?ps "butlast ?S @ [r]" t] by (simp add: says_def)
  have "periods_of cc k rows' = fold insert_value new ps" using record_values_periods [OF assms(1) e] False by simp
  then have "says cc k rows' t = map_option lv_value (find (active_at t) (rev (chain op) @ rev (butlast ?S)))"
    using value_of_periods [OF m inc2, of t] by (simp add: says_def)
  also have "\<dots> = (if lv_from r \<le> t then Some (chain_value op t) else map_option lv_value (find (active_at t) (rev (butlast ?S))))"
  proof -
    have "find (active_at t) (rev (chain op)) = (if lv_from r \<le> t then Some (last (filter (\<lambda>v. lv_from v \<le> t) (chain op))) else None)"
      using f find_chain [of "op_row op" "op_fresh op" t] by (simp add: follows_def chain_def)
    moreover have "find P (xs @ ys) = (case find P xs of None \<Rightarrow> find P ys | Some x \<Rightarrow> Some x)" for P :: "lookup_value \<Rightarrow> bool" and xs ys
      by (induction xs) auto
    ultimately show ?thesis by (simp add: chain_value_def)
  qed
  finally have new: "says cc k rows' t = (if lv_from r \<le> t then Some (last_said (lv_value r) (seen_of k obs) t)
      else map_option lv_value (find (active_at t) (rev (butlast ?S))))" using f by (simp add: follows_def)
  show ?thesis
  proof (cases "lv_from r \<le> t")
    case True
    then show ?thesis using new old assms(6) by (cases "filter (\<lambda>ob. ob_at ob \<le> t) (seen_of k obs)") (simp_all add: last_said_def active_at_def last_map)
  next
    case False
    then have "filter (\<lambda>ob. ob_at ob \<le> t) (seen_of k obs) = []" using assms(7) by (auto simp: filter_empty_conv)
    then show ?thesis using new old False by (simp add: active_at_def)
  qed
qed

subsection \<open>The unique constraint, and what a reader loads\<close>

lemma record_group_ids: "record_group cc lookups kg (stats, rows, fresh) = (stats', rows', fresh') \<Longrightarrow> map value_id rows' = map value_id rows"
proof -
  assume run: "record_group cc lookups kg (stats, rows, fresh) = (stats', rows', fresh')"
  obtain k seen where kg: "kg = (k, seen)" by fastforce
  let ?ps = "periods_of cc k rows"
  let ?r = "last (sort_key lv_from ?ps)"
  let ?op = "fold (observe_value_of cc (rule_for lookups k)) seen (begin_group ?r stats)"
  show ?thesis
  proof (cases "?ps = []")
    case False
    have "?r \<in> set ?ps" by (rule last_period_in [OF False])
    then have "lv_customer ?r = cc" by (simp add: periods_of_def)
    then have "value_id (op_row ?op) = value_id ?r"
      using belongs_fold [OF belongs_start, of ?r "rule_for lookups k" seen stats] by (simp add: belongs_def)
    moreover have "sort_key lv_from ?ps \<noteq> []" using last_period_in [OF False] False by (metis empty_set set_sort set_empty)
    ultimately show ?thesis using run by (auto simp: record_group_def kg Let_def)
  qed (use run in \<open>simp add: record_group_def kg Let_def\<close>)
qed

lemma record_groups_ids: "fold (record_group cc lookups) gs (stats, rows, fresh) = (stats', rows', fresh') \<Longrightarrow> map value_id rows' = map value_id rows"
proof (induction gs arbitrary: stats rows fresh)
  case (Cons g gs)
  obtain st1 rows1 fresh1 where one: "record_group cc lookups g (stats, rows, fresh) = (st1, rows1, fresh1)" by (metis prod_cases3)
  then show ?case using Cons.IH [of st1 rows1 fresh1] Cons.prems record_group_ids [OF one] by simp
qed simp

lemma insert_value_unique: "ids_unique rows \<Longrightarrow> ids_unique (insert_value v rows)"
  by (auto simp: insert_value_def ids_unique_def list_ex_id)

lemma record_keeps_ids_unique: "record_values cc obs lookups rows = Inr (stats, rows') \<Longrightarrow> ids_unique rows \<Longrightarrow> ids_unique rows'"
proof -
  assume a: "record_values cc obs lookups rows = Inr (stats, rows')" "ids_unique rows"
  obtain st rows1 fresh where run: "fold (record_group cc lookups) (reduce obs) (no_lk_stats (length obs), rows, []) = (st, rows1, fresh)"
    by (metis prod_cases3)
  then have "rows' = fold insert_value fresh rows1" using a(1) by (simp add: record_values_def split: if_splits)
  moreover have "ids_unique rows1" using a(2) record_groups_ids [OF run] by (simp add: ids_unique_def)
  then have "ids_unique (fold insert_value fresh rows1)" by (induction fresh arbitrary: rows1) (simp_all add: insert_value_unique)
  ultimately show ?thesis by simp
qed

lemma lookup_add_periods:
  "map_of (fold (\<lambda>r. add_period (lv_key r) (period_of r)) vs rs) k =
     (case filter (\<lambda>r. lv_key r = k) vs of [] \<Rightarrow> map_of rs k
      | ws \<Rightarrow> Some ((case map_of rs k of None \<Rightarrow> [] | Some ps \<Rightarrow> ps) @ map period_of ws))"
  by (induction vs arbitrary: rs) (auto simp: add_period_def od_laws split: option.splits list.splits)

text \<open>What a reader resolves is what the table says.\<close>

lemma resolver_says:
  assumes "(l, key) \<in> set needed" and "attributes = [] \<or> a \<in> snd ` set attributes"
  shows "resolve_value (resolver_for cc needed attributes rows) l (Some key) a (VTime t) = says cc (l, key, a) rows t"
proof -
  let ?sel = "\<lambda>l'. filter (\<lambda>r. lv_customer r = cc \<and> (case lv_key r of (l'', k, a) \<Rightarrow> l'' = l' \<and> (l', k) \<in> set needed
            \<and> (attributes = [] \<or> a \<in> snd ` set attributes))) rows"
  have sel: "filter (\<lambda>r. lv_key r = (l, key, a)) (?sel l') = (if l' = l then periods_of cc (l, key, a) rows else [])" for l'
    using assms by (induction rows) (auto simp: periods_of_def)
  have "distinct ls \<Longrightarrow> filter (\<lambda>r. lv_key r = (l, key, a)) (concat (map ?sel ls)) = (if l \<in> set ls then periods_of cc (l, key, a) rows else [])" for ls
    by (induction ls) (simp_all only: filter_append list.map concat.simps sel, auto)
  from this [OF distinct_remdups, of "map fst needed"]
  have f: "filter (\<lambda>r. lv_key r = (l, key, a)) (concat (map ?sel (remdups (map fst needed)))) = periods_of cc (l, key, a) rows"
    using assms(1) by force
  have "map_of (resolver_for cc needed attributes rows) (l, key, a) =
      (case periods_of cc (l, key, a) rows of [] \<Rightarrow> None | ws \<Rightarrow> Some (map period_of ws))"
    unfolding resolver_for_def lookup_add_periods f by (simp split: list.split)
  then show ?thesis
    by (cases "periods_of cc (l, key, a) rows") (simp_all add: resolve_value_def says_def value_at_def latest_first_def as_datetime_def)
qed

subsection \<open>Paths and declarations read back\<close>

lemma split_lookup_path: "l \<noteq> [] \<Longrightarrow> a \<noteq> [] \<Longrightarrow> CHR ''.'' \<notin> set l \<Longrightarrow> split_path (lookup_path l a) = Inr (l, a)"
proof -
  assume a: "l \<noteq> []" "a \<noteq> []" "CHR ''.'' \<notin> set l"
  have "partition_dot (l @ ''.'' @ a) = (l, True, a)"
    using a(3) by (auto simp: partition_dot_def takeWhile_append dropWhile_append Let_def)
  then show ?thesis using a by (simp add: split_path_def lookup_path_def is_lookup_path_def starts_with_def)
qed

lemma source_roundtrip: "source_from_json (source_to_json s) = Inr s"
  by (cases s) (simp add: source_from_json_def source_to_json_def item_def json_text_def andthen_def jget_def)

lemma attribute_roundtrip: "la_conflict a \<in> set conflict_rules \<Longrightarrow> attribute_from_json (attribute_to_json a) = Inr a"
proof -
  assume a: "la_conflict a \<in> set conflict_rules"
  have "collect source_from_json (map source_to_json (la_sources a)) = Inr (map (\<lambda>s. s) (la_sources a))"
    by (intro collect_map) (simp add: list_all_iff source_roundtrip)
  moreover have "la_conflict a \<noteq> []" using a by (auto simp: conflict_rules_def)
  ultimately show ?thesis using a
    by (cases a) (simp add: attribute_from_json_def attribute_to_json_def get_item_def item_def jget_def json_text_def andthen_def make_attribute_def)
qed

lemma declaration_roundtrip:
  assumes "list_all (\<lambda>a. la_conflict a \<in> set conflict_rules) (lu_attributes l)"
  shows "lookup_from_row \<lparr>dr_customer = cc, dr_name = lu_name l, dr_key = lu_key l, dr_attributes = lookup_to_json l, dr_enabled = b\<rparr>
    = Inr (l\<lparr>lu_attributes := sort_key la_name (lu_attributes l)\<rparr>)"
proof -
  have "collect attribute_from_json (map attribute_to_json (sort_key la_name (lu_attributes l))) = Inr (map (\<lambda>a. a) (sort_key la_name (lu_attributes l)))"
    using assms by (intro collect_map) (simp add: list_all_iff attribute_roundtrip)
  then show ?thesis by (cases l) (simp add: lookup_from_row_def lookup_to_json_def andthen_def sort_key_id_if_sorted)
qed

subsection \<open>Examples\<close>

definition said_name :: "string \<Rightarrow> instant \<Rightarrow> observation" where
  "said_name v t = \<lparr>ob_lookup = ''delivery'', ob_key = ''D1'', ob_attribute = ''customer'', ob_value = v, ob_at = t, ob_method = ''NewDeliveryPackage''\<rparr>"

definition customer_lookup :: "bool \<Rightarrow> (string, lk_lookup) odict" where
  "customer_lookup is_stable = [(''delivery'', \<lparr>lu_name = ''delivery'', lu_key = ''delivery_number'',
     lu_attributes = [\<lparr>la_name = ''customer'', la_sources = [], la_stable = is_stable, la_conflict = ''first_wins''\<rparr>]\<rparr>)]"

definition known_name :: lookup_value where
  "known_name = new_value ''acme'' (''delivery'', ''D1'', ''customer'') ''Smith'' beginning ''NewDeliveryPackage'' 1 10 10"

lemmas lookup_samples = record_values_def reduce_def bucket_def bucket_add_def said_name_def ob_id_def record_group_def rule_for_def
  customer_lookup_def attribute_named_def periods_of_def known_name_def new_value_def observe_value_of_def held_def set_held_def
  count_stat_def seen_again_def begin_group_def no_lk_stats_def value_id_def fits_value_def insert_value_def first_period_def Let_def

lemma sample_changed: "record_values ''acme'' [said_name ''Smith'' 20, said_name ''Jones'' 30] (customer_lookup False) [known_name]
    = Inr (\<lparr>lk_observed = 2, lk_inserted = 0, lk_extended = 1, lk_changed = 1, lk_conflicts = 0\<rparr>,
        [known_name\<lparr>lv_to := Some 30, lv_count := 2, lv_last := 20\<rparr>,
         new_value ''acme'' (''delivery'', ''D1'', ''customer'') ''Jones'' 30 ''NewDeliveryPackage'' 1 30 30])"
  by code_simp

theorem changing_value_is_the_last_said_witness:
  "\<exists>stats rows'. record_values ''acme'' [said_name ''Smith'' 20, said_name ''Jones'' 30] (customer_lookup False) [known_name] = Inr (stats, rows')
    \<and> says ''acme'' (''delivery'', ''D1'', ''customer'') rows' 40 = Some ''Jones''"
proof -
  let ?k = "(''delivery'', ''D1'', ''customer'')" and ?obs = "[said_name ''Smith'' 20, said_name ''Jones'' 30]"
  have u: "ids_unique [known_name]" by (simp add: ids_unique_def)
  have c: "changes (rule_for (customer_lookup False) ?k)" by code_simp
  have p: "periods_of ''acme'' ?k [known_name] \<noteq> []" "known_name = last (sort_key lv_from (periods_of ''acme'' ?k [known_name]))"
    "lv_to known_name = None" "lv_from known_name = 0"
    by (simp_all add: periods_of_def known_name_def new_value_def beginning_def)
  have s: "seen_of ?k ?obs = ?obs" by (simp add: seen_of_def ob_id_def said_name_def)
  then have o: "sorted_wrt (<) (lv_from known_name # map ob_at (seen_of ?k ?obs))" by (simp add: p(4) said_name_def)
  show ?thesis using changing_value_is_the_last_said [OF sample_changed u c p(1,2,3) o, of 40] sample_changed unfolding s by (simp add: said_name_def)
qed

theorem first_value_is_kept_witness:
  "\<exists>stats rows'. record_values ''acme'' [said_name ''Jones'' 30, said_name ''Smith'' 20] (customer_lookup True) [] = Inr (stats, rows')
    \<and> says ''acme'' (''delivery'', ''D1'', ''customer'') rows' 5 = Some ''Smith''"
proof -
  let ?k = "(''delivery'', ''D1'', ''customer'')" and ?obs = "[said_name ''Jones'' 30, said_name ''Smith'' 20]"
  have "(case record_values ''acme'' ?obs (customer_lookup True) [] of Inl e \<Rightarrow> False | Inr x \<Rightarrow> True)" by code_simp
  then obtain stats rows' where run: "record_values ''acme'' ?obs (customer_lookup True) [] = Inr (stats, rows')"
    by (auto split: sum.splits)
  have c: "keeps_first (rule_for (customer_lookup True) ?k)" by code_simp
  have s: "seen_of ?k ?obs = [said_name ''Smith'' 20, said_name ''Jones'' 30]" by (simp add: seen_of_def ob_id_def said_name_def)
  have "ids_unique []" by (simp add: ids_unique_def)
  from first_value_is_kept [OF run this c, of 5] show ?thesis using run unfolding s by (simp add: periods_of_def beginning_def said_name_def)
qed

text \<open>A second change in one batch closes the period in hand and not its new row: two rows stay open.\<close>

lemma second_change_leaves_two_open:
  "map_sum id (map lv_to \<circ> snd) (record_values ''acme'' [said_name ''Jones'' 30, said_name ''Brown'' 40] (customer_lookup False) [known_name])
   = Inr [Some 30, None, None]"
  by code_simp

text \<open>A change inside the first batch of a key is lost, although the attribute is not stable.\<close>

lemma change_in_the_first_batch_is_lost:
  "map_sum id (\<lambda>x. says ''acme'' (''delivery'', ''D1'', ''customer'') (snd x) 50)
     (record_values ''acme'' [said_name ''Smith'' 20, said_name ''Jones'' 30] (customer_lookup False) []) = Inr (Some ''Smith'')"
  by code_simp

end
