(* ===== verification/Partitions.thy ===== *)
theory Partitions
  imports Calendar
begin

text \<open>
  The partitioned tables and their arithmetic (\<open>persistence/partitioning.py\<close>): which tables are cut on which column, how
  wide a partition is, what it is called, what span it covers and when it has expired. Days are counted from 1970-01-01.
  The catalog of the database is a list of partitions; a statement the database refuses poisons the transaction, so every
  later statement of it fails and its commit keeps nothing.
\<close>

subsection \<open>Grains\<close>

datatype grain = Daily | Monthly | Yearly

record partitioned_table =
  pt_table :: string
  pt_key :: string
  pt_grain :: grain

definition PARTITIONED :: "partitioned_table list" where
  "PARTITIONED =
     [\<lparr>pt_table = ''log_entries'', pt_key = ''timestamp'', pt_grain = Daily\<rparr>,
      \<lparr>pt_table = ''log_transactions'', pt_key = ''started_at'', pt_grain = Daily\<rparr>,
      \<lparr>pt_table = ''log_entry_assignment'', pt_key = ''entry_ts'', pt_grain = Daily\<rparr>,
      \<lparr>pt_table = ''analytics_facts'', pt_key = ''event_time'', pt_grain = Monthly\<rparr>,
      \<lparr>pt_table = ''analytics_fact_ledger'', pt_key = ''recorded_at'', pt_grain = Monthly\<rparr>,
      \<lparr>pt_table = ''analytics_hourly_rollups'', pt_key = ''bucket_start'', pt_grain = Daily\<rparr>,
      \<lparr>pt_table = ''analytics_daily_rollups'', pt_key = ''business_date'', pt_grain = Yearly\<rparr>,
      \<lparr>pt_table = ''analytics_record_facts'', pt_key = ''event_time'', pt_grain = Monthly\<rparr>,
      \<lparr>pt_table = ''analytics_quality_issues'', pt_key = ''detected_at'', pt_grain = Monthly\<rparr>]"

definition by_table :: "(string \<times> partitioned_table) list" where
  "by_table = map (\<lambda>t. (pt_table t, t)) PARTITIONED"

definition grain_of :: "string \<Rightarrow> grain result" where
  "grain_of table = (case map_of by_table table of Some t \<Rightarrow> Inr (pt_grain t) | None \<Rightarrow> Inl KeyError)"

fun period_start :: "grain \<Rightarrow> int \<Rightarrow> int" where
  "period_start Daily day = day"
| "period_start Monthly day = month_of day"
| "period_start Yearly day = (case civil day of (y, m, d) \<Rightarrow> days_from_civil y 1 1)"

definition next_period_start :: "grain \<Rightarrow> int \<Rightarrow> int" where
  "next_period_start g day =
     (let start = period_start g day in
      case g of
        Daily \<Rightarrow> start + 1
      | Monthly \<Rightarrow> (case civil start of (y, m, d) \<Rightarrow> days_from_civil (y + m div 12) (nat (m mod 12 + 1)) 1)
      | Yearly \<Rightarrow> (case civil start of (y, m, d) \<Rightarrow> days_from_civil (y + 1) 1 1))"

definition period_end :: "grain \<Rightarrow> int \<Rightarrow> int" where
  "period_end g day = next_period_start g day - 1"

lemma next_month_start: "next_period_start Monthly day = month_end (month_of day) + 1"
  by (simp add: next_period_start_def month_end_def split: prod.split)

lemma year_holds:
  obtains y where "period_start Yearly day = days_from_civil y 1 1" "next_period_start Yearly day = days_from_civil (y + 1) 1 1"
    "days_from_civil y 1 1 \<le> day" "day < days_from_civil (y + 1) 1 1"
proof -
  obtain y m d where c: "civil day = (y, int m, d)" "valid_date y m d" "days_from_civil y m d = day" by (rule civil_valid)
  have f: "valid_date y 1 1" "valid_date (y + 1) 1 1" by (simp_all add: first_valid)
  have s: "period_start Yearly day = days_from_civil y 1 1" by (simp add: c(1))
  then have n: "next_period_start Yearly day = days_from_civil (y + 1) 1 1"
    using civil_unique [OF f(1)] by (simp add: next_period_start_def)
  have v: "1 \<le> m" "1 \<le> d" using c(2) by (simp_all add: valid_date_def)
  have "days_from_civil y 1 1 \<le> day"
    using days_increase [OF f(1) c(2)] v c(3) by (cases "m = 1"; cases "d = 1") (auto simp: less_le)
  moreover have "day < days_from_civil (y + 1) 1 1" using days_increase [OF c(2) f(2)] c(3) by simp
  ultimately show ?thesis by (rule that [OF s n])
qed

text \<open>A period holds the day that names it, and every day of it names it.\<close>

lemma period_holds: "period_start g day \<le> day" "day < next_period_start g day"
proof -
  show "period_start g day \<le> day" by (cases g) (simp, simp add: month_holds, rule year_holds [of day], simp del: period_start.simps)
  show "day < next_period_start g day"
    by (cases g) (simp add: next_period_start_def, use month_holds(2) [of day] in \<open>simp add: next_month_start\<close>, rule year_holds [of day], simp del: period_start.simps)
qed

lemma years_apart:
  assumes "days_from_civil y 1 1 < days_from_civil (z + 1) 1 1"
  shows "y \<le> z"
proof (rule ccontr)
  assume "\<not> y \<le> z"
  then have "z + 1 = y \<or> z + 1 < y" by linarith
  then have "days_from_civil (z + 1) 1 1 \<le> days_from_civil y 1 1"
    using days_increase [OF first_valid first_valid, of 1 1 "z + 1" y] by auto
  then show False using assms by simp
qed

lemma period_same:
  assumes "period_start g a \<le> b" and "b < next_period_start g a"
  shows "period_start g b = period_start g a"
proof (cases g)
  case Monthly
  have "\<not> month_of b < month_of a" using month_before [of b a] assms(1) Monthly by auto
  moreover have "\<not> month_of a < month_of b" using month_after [of a b] month_holds(1) [of b] assms(2) Monthly by (auto simp: next_month_start)
  ultimately show ?thesis using Monthly by simp
next
  case Yearly
  obtain y where y: "period_start Yearly a = days_from_civil y 1 1" "next_period_start Yearly a = days_from_civil (y + 1) 1 1" by (rule year_holds)
  obtain z where z: "period_start Yearly b = days_from_civil z 1 1" "days_from_civil z 1 1 \<le> b" "b < days_from_civil (z + 1) 1 1" by (rule year_holds)
  have "y \<le> z" by (rule years_apart) (use assms y z Yearly in \<open>simp del: period_start.simps\<close>)
  moreover have "z \<le> y" by (rule years_apart) (use assms y z Yearly in \<open>simp del: period_start.simps\<close>)
  ultimately show ?thesis using y z Yearly by (simp del: period_start.simps)
qed (use assms in \<open>simp_all add: next_period_start_def\<close>)

lemma period_start_same [simp]: "period_start g (period_start g a) = period_start g a"
  by (rule period_same) (use period_holds [where g = g and day = a] in auto)

lemma next_of_start [simp]: "next_period_start g (period_start g a) = next_period_start g a"
  by (simp add: next_period_start_def)

lemma next_is_start: "period_start g (next_period_start g a) = next_period_start g a"
proof (rule antisym)
  let ?n = "next_period_start g a"
  show "period_start g ?n \<le> ?n" by (rule period_holds)
  show "?n \<le> period_start g ?n"
  proof (rule ccontr)
    assume "\<not> ?n \<le> period_start g ?n"
    then have "period_start g (?n - 1) = period_start g ?n"
      using period_holds(2) [of ?n g] by (intro period_same) auto
    moreover have "period_start g (?n - 1) = period_start g a" using period_holds [where g = g and day = a] by (intro period_same) auto
    ultimately have "next_period_start g ?n = ?n" by (metis next_of_start)
    then show False using period_holds(2) [of ?n g] by simp
  qed
qed

lemma period_advances: "cur < next_period_start g cur"
  by (rule period_holds)

subsection \<open>Ranges of days\<close>

function periods_from :: "grain \<Rightarrow> int \<Rightarrow> int \<Rightarrow> int list" where
  "periods_from g cur stop = (if cur \<le> stop then cur # periods_from g (next_period_start g cur) stop else [])"
  by pat_completeness auto
termination
proof (relation "measure (\<lambda>(g, cur, stop). nat (stop + 1 - cur))")
  fix g cur stop :: int and gr :: grain
  assume "cur \<le> stop"
  then show "((gr, next_period_start gr cur, stop), gr, cur, stop) \<in> measure (\<lambda>(g, cur, stop). nat (stop + 1 - cur))"
    using period_advances [of cur gr] by simp
qed simp

declare periods_from.simps [simp del]

definition periods_covering :: "grain \<Rightarrow> int \<Rightarrow> int \<Rightarrow> int list result" where
  "periods_covering g lo hi = (if hi < lo then Inl ValueError else Inr (periods_from g (period_start g lo) (period_start g hi)))"

definition days_between :: "int \<Rightarrow> int \<Rightarrow> int list result" where
  "days_between lo hi = (if hi < lo then Inl ValueError else Inr [lo..hi])"

definition coverage_days :: "int \<Rightarrow> int \<Rightarrow> int list result" where
  "coverage_days today ahead = days_between today (today + ahead)"

definition migration_days :: "int option \<Rightarrow> int option \<Rightarrow> int \<Rightarrow> int \<Rightarrow> int \<Rightarrow> int list result" where
  "migration_days lo hi today ahead max_span =
     (let a = (case lo of Some d \<Rightarrow> min d today | None \<Rightarrow> today);
          b = (case hi of Some d \<Rightarrow> max d (today + ahead) | None \<Rightarrow> today + ahead)
      in if max_span < b - a + 1 then Inl ValueError else days_between a b)"

definition expired_days :: "int list \<Rightarrow> int \<Rightarrow> int \<Rightarrow> grain \<Rightarrow> int list" where
  "expired_days covered today retention g = sort (filter (\<lambda>s. period_end g s < today - retention) covered)"

definition day_start :: "int \<Rightarrow> instant" where
  "day_start day = day * day_us"

definition day_end :: "int \<Rightarrow> instant" where
  "day_end day = day_start (day + 1)"

subsection \<open>Names\<close>

text \<open>\<open>%Y\<close> of a date; a year has four digits where it is not before 1000.\<close>

fun period_suffix :: "grain \<Rightarrow> int \<Rightarrow> string" where
  "period_suffix Daily start = (case civil start of (y, m, d) \<Rightarrow> int_str y @ ''_'' @ pad_int 2 m @ ''_'' @ pad_int 2 d)"
| "period_suffix Monthly start = (case civil start of (y, m, d) \<Rightarrow> int_str y @ ''_'' @ pad_int 2 m)"
| "period_suffix Yearly start = (case civil start of (y, m, d) \<Rightarrow> int_str y)"

definition partition_name :: "string \<Rightarrow> int \<Rightarrow> string result" where
  "partition_name table day =
     andthen (grain_of table) (\<lambda>g.
       let name = table @ ''_'' @ period_suffix g (period_start g day)
       in if 63 < length name then Inl ValueError else Inr name)"

definition bound :: "int \<Rightarrow> string" where
  "bound day = (case civil day of (y, m, d) \<Rightarrow>
     [CHR 0x27] @ int_str y @ ''-'' @ pad_int 2 m @ ''-'' @ pad_int 2 d @ '' 00:00:00+00'' @ [CHR 0x27])"

definition create_partition_sql :: "string \<Rightarrow> int \<Rightarrow> string result" where
  "create_partition_sql table day =
     andthen (grain_of table) (\<lambda>g. let start = period_start g day in
       andthen (partition_name table start) (\<lambda>name.
         Inr (''CREATE TABLE IF NOT EXISTS '' @ name @ '' PARTITION OF '' @ table @ '' FOR VALUES FROM ('' @ bound start
           @ '') TO ('' @ bound (next_period_start g start) @ '')'')))"

definition drop_partition_sql :: "string \<Rightarrow> int \<Rightarrow> string result" where
  "drop_partition_sql table day = andthen (partition_name table day) (\<lambda>name. Inr (''DROP TABLE IF EXISTS '' @ name))"

subsection \<open>The catalog and the transaction\<close>

record partition =
  pa_name :: string
  pa_table :: string
  pa_from :: int
  pa_to :: int

record catalog =
  ca_parts :: "partition list"
  ca_aborted :: bool

text \<open>What the database is asked: a statement, or one of the reads of the worker.\<close>

datatype question = Today | Statement string | Exists string | Covered string | Open_windows | Live_cursors | Tenant_health

record db_env =
  db_refuses :: "question \<Rightarrow> string option"
  db_aborted :: string
  db_error_text :: "py_error \<Rightarrow> string"

type_synonym 'a txn = "catalog \<Rightarrow> (string + 'a) \<times> catalog"

definition ask :: "db_env \<Rightarrow> question \<Rightarrow> (partition list \<Rightarrow> 'a \<times> partition list) \<Rightarrow> 'a txn" where
  "ask env q f c =
     (if ca_aborted c then (Inl (db_aborted env), c)
      else case db_refuses env q of
          Some e \<Rightarrow> (Inl e, c\<lparr>ca_aborted := True\<rparr>)
        | None \<Rightarrow> (case f (ca_parts c) of (x, ps) \<Rightarrow> (Inr x, c\<lparr>ca_parts := ps\<rparr>)))"

definition then_do :: "'a txn \<Rightarrow> ('a \<Rightarrow> 'b txn) \<Rightarrow> 'b txn" where
  "then_do m f c = (case m c of (Inl e, c') \<Rightarrow> (Inl e, c') | (Inr x, c') \<Rightarrow> f x c')"

definition give :: "'a \<Rightarrow> 'a txn" where
  "give x c = (Inr x, c)"

definition raising :: "db_env \<Rightarrow> 'a result \<Rightarrow> 'a txn" where
  "raising env r c = (case r of Inl e \<Rightarrow> (Inl (db_error_text env e), c) | Inr x \<Rightarrow> (Inr x, c))"

fun each_do :: "('x \<Rightarrow> 's \<Rightarrow> 's txn) \<Rightarrow> 'x list \<Rightarrow> 's \<Rightarrow> 's txn" where
  "each_do f [] s = give s"
| "each_do f (x # xs) s = then_do (f x s) (each_do f xs)"

subsection \<open>Reading and extending the catalog\<close>

definition covered_starts :: "string \<Rightarrow> partition list \<Rightarrow> int list" where
  "covered_starts table ps = sort (map pa_from (filter (\<lambda>p. pa_table p = table) ps))"

definition covered_days :: "db_env \<Rightarrow> string \<Rightarrow> int list txn" where
  "covered_days env table = ask env (Covered table) (\<lambda>ps. (covered_starts table ps, ps))"

definition create_partition :: "string \<Rightarrow> grain \<Rightarrow> string \<Rightarrow> int \<Rightarrow> partition list \<Rightarrow> unit \<times> partition list" where
  "create_partition table g name start ps =
     ((), if list_ex (\<lambda>p. pa_name p = name) ps then ps
          else ps @ [\<lparr>pa_name = name, pa_table = table, pa_from = start, pa_to = next_period_start g start\<rparr>])"

definition ensure_period :: "db_env \<Rightarrow> partitioned_table \<Rightarrow> int \<Rightarrow> nat \<Rightarrow> nat txn" where
  "ensure_period env t start created =
     then_do (raising env (partition_name (pt_table t) start)) (\<lambda>name.
     then_do (ask env (Exists name) (\<lambda>ps. (list_ex (\<lambda>p. pa_name p = name) ps, ps))) (\<lambda>there.
       if there then give created
       else then_do (raising env (create_partition_sql (pt_table t) start)) (\<lambda>sql.
            then_do (ask env (Statement sql) (create_partition (pt_table t) (pt_grain t) name start)) (\<lambda>_. give (Suc created)))))"

definition ensure_table :: "db_env \<Rightarrow> int list \<Rightarrow> partitioned_table \<Rightarrow> nat \<Rightarrow> nat txn" where
  "ensure_table env days t = each_do (ensure_period env t) (sort (remdups (map (period_start (pt_grain t)) days)))"

text \<open>\<open>tables\<close> restricts the tables; one that is not registered is a KeyError.\<close>

definition selected_tables :: "string list option \<Rightarrow> partitioned_table list result" where
  "selected_tables tables =
     (case tables of
        None \<Rightarrow> Inr PARTITIONED
      | Some names \<Rightarrow> (case those (map (map_of by_table) names) of Some ts \<Rightarrow> Inr ts | None \<Rightarrow> Inl KeyError))"

definition ensure_coverage :: "db_env \<Rightarrow> int list \<Rightarrow> string list option \<Rightarrow> nat txn" where
  "ensure_coverage env days tables =
     then_do (raising env (selected_tables tables)) (\<lambda>ts. each_do (ensure_table env days) ts 0)"

end
