(* ===== verification/Cursors.thy ===== *)
theory Cursors
  imports Partitions
begin

text \<open>
  How far each incremental reader has come (\<open>services/consumer_cursors.py\<close>): one row per consumer, its position and when it
  last reported. Retention waits for the slowest consumer that still reports; one that has stopped no longer counts.
\<close>

record cursor =
  cu_consumer :: string
  cu_position :: instant
  cu_updated :: instant

definition report_cursor :: "instant \<Rightarrow> string \<Rightarrow> instant \<Rightarrow> cursor list \<Rightarrow> cursor list" where
  "report_cursor now consumer position rows =
     (if list_ex (\<lambda>c. cu_consumer c = consumer) rows
      then map (\<lambda>c. if cu_consumer c = consumer then c\<lparr>cu_position := position, cu_updated := now\<rparr> else c) rows
      else rows @ [\<lparr>cu_consumer = consumer, cu_position = position, cu_updated = now\<rparr>])"

subsection \<open>What blocks a partition\<close>

definition blocks_until :: "instant \<Rightarrow> instant option \<Rightarrow> bool" where
  "blocks_until hi min_position = (case min_position of None \<Rightarrow> False | Some p \<Rightarrow> p < hi)"

definition blocks :: "int \<Rightarrow> instant option \<Rightarrow> bool" where
  "blocks day min_position = blocks_until (day_end day) min_position"

definition is_live :: "int \<Rightarrow> instant \<Rightarrow> instant \<Rightarrow> bool" where
  "is_live stale_after now updated \<longleftrightarrow> total_seconds (now - updated) \<le> of_int stale_after"

definition split_by_liveness :: "int \<Rightarrow> instant \<Rightarrow> cursor list \<Rightarrow> cursor list \<times> cursor list" where
  "split_by_liveness stale_after now rows =
     fold (\<lambda>r (live, gone). if is_live stale_after now (cu_updated r) then (live @ [r], gone) else (live, gone @ [r])) rows ([], [])"

text \<open>The least position of a live consumer, and the consumers announced as gone.\<close>

definition min_live_position :: "int \<Rightarrow> instant \<Rightarrow> cursor list \<Rightarrow> instant option \<times> cursor list" where
  "min_live_position stale_after now rows =
     (case split_by_liveness stale_after now rows of (live, gone) \<Rightarrow> (min_of (map cu_position live), gone))"

subsection \<open>Notifications\<close>

record notification_rule =
  nr_customer :: string
  nr_status :: string
  nr_cursor :: "instant option"

text \<open>\<open>enabled\<close>: the codes of the customers with notifications switched on (\<open>tenant_gate.enabled\<close>).\<close>

definition notifications_position :: "string list \<Rightarrow> notification_rule list \<Rightarrow> instant option" where
  "notifications_position enabled rules =
     min_of (known (map nr_cursor (filter (\<lambda>r. nr_status r = ''active'' \<and> nr_cursor r \<noteq> None \<and> nr_customer r \<in> set enabled) rules)))"

definition report_notifications :: "instant \<Rightarrow> string list \<Rightarrow> notification_rule list \<Rightarrow> cursor list \<Rightarrow> cursor list" where
  "report_notifications now enabled rules rows =
     (case notifications_position enabled rules of None \<Rightarrow> rows | Some p \<Rightarrow> report_cursor now ''notifications'' p rows)"

subsection \<open>The slowest live reader\<close>

lemma split_by_liveness_filter:
  "split_by_liveness stale_after now rows =
     (filter (\<lambda>r. is_live stale_after now (cu_updated r)) rows, filter (\<lambda>r. \<not> is_live stale_after now (cu_updated r)) rows)"
proof -
  have "fold (\<lambda>r (live, gone). if is_live stale_after now (cu_updated r) then (live @ [r], gone) else (live, gone @ [r])) rows (as, bs) =
      (as @ filter (\<lambda>r. is_live stale_after now (cu_updated r)) rows, bs @ filter (\<lambda>r. \<not> is_live stale_after now (cu_updated r)) rows)" for as bs
    by (induction rows arbitrary: as bs) auto
  then show ?thesis by (simp add: split_by_liveness_def)
qed

lemma min_of_Min: "min_of (x # xs) = Some (Min (set (x # xs)))"
  by (simp only: min_of.simps Min.set_eq_fold)

lemma blocked_by_a_live_reader:
  "blocks_until hi (fst (min_live_position stale_after now rows)) \<longleftrightarrow>
    (\<exists>c \<in> set rows. is_live stale_after now (cu_updated c) \<and> cu_position c < hi)"
proof -
  let ?live = "filter (\<lambda>r. is_live stale_after now (cu_updated r)) rows"
  have "blocks_until hi (min_of (map cu_position ?live)) \<longleftrightarrow> (\<exists>c \<in> set ?live. cu_position c < hi)"
  proof (cases "map cu_position ?live")
    case (Cons x xs)
    have "blocks_until hi (min_of (map cu_position ?live)) \<longleftrightarrow> Min (set (map cu_position ?live)) < hi"
      unfolding Cons min_of_Min by (simp add: blocks_until_def)
    also have "\<dots> \<longleftrightarrow> (\<exists>p \<in> set (map cu_position ?live). p < hi)" using Cons by (intro Min_less_iff) (auto simp del: set_map)
    finally show ?thesis by auto
  qed (auto simp: blocks_until_def)
  then show ?thesis by (auto simp: min_live_position_def split_by_liveness_filter)
qed

text \<open>The row a consumer reported last.\<close>

lemma reported: "map_option cu_position (find (\<lambda>c. cu_consumer c = x) (report_cursor now x p rows)) = Some p"
  by (induction rows) (auto simp: report_cursor_def)

end
