(* ===== verification/Consume.thy ===== *)
theory Consume
  imports LookupStore Cursors
begin

text \<open>
  The analytics cycle (\<open>analytics/consume.py\<close>): the tickets of a tenant become disjoint runs, each slice of a run is one
  transaction that reads the source, rebuilds the facts of its range, applies the diff, and brings the registries, the
  lookups, the record facts, the rollups and the state of the tenant along. The tables are one \<open>warehouse\<close>; a slice
  is a function from it to the one it commits, or an error, after which the old one stands. One clock serves a pass.
  The settlements a slice also writes (\<open>settle_store.settle_touched\<close>) are a table nothing here reads and are left out;
  what it or the database raises is a fault, a parameter. A slice ensures its partitions in a transaction of its own before
  it starts; here only their days are computed. A published ticket of \<open>Store\<close> has the columns the cycle keeps on it.
\<close>

subsection \<open>Tables\<close>

record work_ticket = ticket +
  wt_id :: uuid
  wt_available :: instant
  wt_attempts :: nat
  wt_error :: "string option"
  wt_last :: "instant option"
  wt_consumed :: "instant option"
  wt_abandoned :: "instant option"

definition new_ticket :: "uuid \<Rightarrow> instant \<Rightarrow> ticket \<Rightarrow> work_ticket" where
  "new_ticket i clock t =
     \<lparr>tk_customer = tk_customer t, tk_start = tk_start t, tk_end = tk_end t, tk_refold = tk_refold t, wt_id = i, wt_available = clock,
      wt_attempts = 0, wt_error = None, wt_last = None, wt_consumed = None, wt_abandoned = None\<rparr>"

definition ticket_due :: "instant \<Rightarrow> work_ticket \<Rightarrow> bool" where
  "ticket_due clock t \<longleftrightarrow> wt_consumed t = None \<and> wt_abandoned t = None \<and> wt_available t \<le> clock"

record tenant_state =
  ts_customer :: string
  ts_watermark :: "instant option"
  ts_source :: "instant option"
  ts_history :: "instant option"
  ts_frontier :: "instant option"
  ts_share :: "decimal option"
  ts_oldest :: "instant option"
  ts_open :: nat
  ts_dead :: nat
  ts_quarantined :: int
  ts_records :: int
  ts_facts :: int
  ts_revision :: int
  ts_last :: "instant option"
  ts_error :: "string option"

record stored_issue =
  si_customer :: string
  si_detected :: instant
  si_issue :: issue

record warehouse =
  wh_store :: store
  wh_zones :: "(string \<times> string option) list"
  wh_names :: "transaction_row list"
  wh_fields :: "field_row list"
  wh_facts :: fact_db
  wh_records :: "record_fact list"
  wh_issues :: "stored_issue list"
  wh_rollups :: rollup_db
  wh_metrics :: "metric_row list"
  wh_lookups :: "lookup_row list"
  wh_values :: "lookup_value list"
  wh_states :: "tenant_state list"
  wh_cursors :: "cursor list"
  wh_tickets :: "work_ticket list"

record fold_settings =
  fs_max_window :: int
  fs_max_attempts :: nat
  fs_backoff_base :: rat
  fs_backoff_cap :: rat
  fs_display_zone :: string

text \<open>The surroundings: digests, zones, fresh ids, faults of a slice and of recording a failure, texts of exceptions, jitter.\<close>

datatype fold_site = At_slice span | At_failure "uuid list"

record fold_env =
  fe_settings :: fold_settings
  fe_sha :: "string \<Rightarrow> string"
  fe_hash64 :: "string \<Rightarrow> 64 word"
  fe_zones :: "string \<Rightarrow> zone option"
  fe_seed :: "string \<Rightarrow> uuid"
  fe_fault :: "fold_site \<Rightarrow> exn option"
  fe_message :: "py_error \<Rightarrow> string"
  fe_jitter :: "uuid \<Rightarrow> rat"

definition tenant_timezone :: "fold_env \<Rightarrow> string \<Rightarrow> warehouse \<Rightarrow> string option" where
  "tenant_timezone env cc wh =
     (case map_of (wh_zones wh) cc of Some (Some z) \<Rightarrow> Some (if z = [] then fs_display_zone (fe_settings env) else z)
      | _ \<Rightarrow> Some (fs_display_zone (fe_settings env)))"

definition tenant_zone :: "fold_env \<Rightarrow> string option \<Rightarrow> zone" where
  "tenant_zone env tz = zone_named (fe_zones env) tz"

text \<open>The days a run needs partitions for.\<close>

definition destination_days :: "instant \<Rightarrow> instant \<Rightarrow> instant \<Rightarrow> int list" where
  "destination_days now lo hi = sort (remdups ([(lo - day_us) div day_us .. (hi + day_us) div day_us] @ [now div day_us]))"

subsection \<open>What a slice reads\<close>

definition src_fp_key :: string where "src_fp_key = ''__src_fp''"
definition norm_v_key :: string where "norm_v_key = ''__norm_v''"
definition mi_records_key :: string where "mi_records_key = ''__mi_records''"
definition exp_v_key :: string where "exp_v_key = ''_exp_v''"
definition normalise_version :: int where "normalise_version = 2"

definition needs_entries :: "txn_row \<Rightarrow> fact option \<Rightarrow> bool" where
  "needs_entries r prior =
     (case prior of
        None \<Rightarrow> True
      | Some f \<Rightarrow> (case row_fp r of
            None \<Rightarrow> True
          | Some fp \<Rightarrow> jget (f_attrs f) src_fp_key \<noteq> JStr fp \<or> jget (f_attrs f) norm_v_key \<noteq> JInt normalise_version))"

text \<open>\<open>by_txn.get(id, ())\<close> of \<open>_read_response_entries\<close>.\<close>

definition entries_of :: "store \<Rightarrow> string \<Rightarrow> window \<Rightarrow> uuid list \<Rightarrow> uuid \<Rightarrow> response_entry list" where
  "entries_of s cc w only t =
     (if t \<notin> set only then []
      else map (\<lambda>(e, x). entry_pair e) (filter (\<lambda>(e, x). entry_type e \<in> {Response, MiResult})
        (concat (map (joined s) (sort_key a_seq
          (filter (\<lambda>a. a_customer a = cc \<and> a_txn a = t \<and> covers w True (a_ts a)) (assigns s)))))))"

definition expansion_version :: "(string \<Rightarrow> string) \<Rightarrow> string list \<Rightarrow> string" where
  "expansion_version sha approved = take 16 (sha (''v1:'' @ join '','' (sorted_names approved)))"

text \<open>\<open>int(raw or 0)\<close>; a value it raises TypeError or ValueError for counts as none.\<close>

definition int_text :: "string \<Rightarrow> int option" where
  "int_text s =
     (case split_sign (strip s) of (neg, t) \<Rightarrow>
        if list_all (\<lambda>p. p \<noteq> [] \<and> list_all is_digit p) (split_on (CHR ''_'') t)
        then (let n = digits_int (filter (\<lambda>c. c \<noteq> CHR ''_'') t) in Some (if neg then - n else n)) else None)"

definition record_count_of :: "json \<Rightarrow> int option" where
  "record_count_of v =
     (if \<not> truthy v then Some 0
      else case v of JInt i \<Rightarrow> Some i | JBool b \<Rightarrow> Some 1 | JStr s \<Rightarrow> int_text s
        | JFloat t \<Rightarrow> (case parse_decimal t of Some (Fin neg c e) \<Rightarrow> Some (trunc (dec_val (Fin neg c e))) | _ \<Rightarrow> None)
        | _ \<Rightarrow> None)"

definition predicts_records :: "fact \<Rightarrow> bool" where
  "predicts_records f =
     (let raw = jget (f_attrs f) mi_records_key; v = (if raw = JNull then jget (f_attrs f) ''mi.record_count'' else raw)
      in case record_count_of v of None \<Rightarrow> False | Some n \<Rightarrow> 0 < n)"

definition named_in :: "string list \<Rightarrow> fact \<Rightarrow> bool" where
  "named_in names f = (case text_field f ''transaction_name'' of None \<Rightarrow> False | Some n \<Rightarrow> n \<in> set names)"

text \<open>The least version of the record rows of a transaction; the cycle writes a text in every row.\<close>

definition version_of :: "record_fact \<Rightarrow> string option" where
  "version_of r = (case jget (rf_attrs r) exp_v_key of JStr s \<Rightarrow> Some s | _ \<Rightarrow> None)"

definition present_version :: "string \<Rightarrow> window \<Rightarrow> record_fact list \<Rightarrow> uuid \<Rightarrow> string option" where
  "present_version cc w recs t =
     (case List.map_filter version_of (filter (\<lambda>r. rf_customer r = cc \<and> rf_txn r = t \<and> covers w True (rf_event r)) recs) of
        [] \<Rightarrow> None | v # vs \<Rightarrow> Some (fold min vs v))"

definition needing_expansion :: "string \<Rightarrow> window \<Rightarrow> string list \<Rightarrow> (uuid, fact) odict \<Rightarrow> string \<Rightarrow> record_fact list \<Rightarrow> uuid list" where
  "needing_expansion cc w expanded known_facts version recs =
     (if expanded = [] then []
      else map fst (filter (\<lambda>(t, f). named_in expanded f \<and> predicts_records f \<and> present_version cc w recs t \<noteq> Some version) known_facts))"

subsection \<open>Registering what was seen\<close>

type_synonym sightings = "(string option, string list) odict"

definition note_names :: "string option \<Rightarrow> string list \<Rightarrow> sightings \<Rightarrow> sightings" where
  "note_names m names d =
     (if names = [] then d else AList.update m ((case map_of d m of None \<Rightarrow> [] | Some ns \<Rightarrow> ns) @ names) d)"

definition source_method :: "txn_row \<Rightarrow> string option" where
  "source_method r = text_column (row_values r) ''method''"

definition source_name :: "txn_row \<Rightarrow> string option" where
  "source_name r = text_column (row_values r) ''transaction_name''"

definition sent_names :: "txn_row list \<Rightarrow> sightings" where
  "sent_names rows =
     fold (\<lambda>r. note_names (source_method r) (filter (\<lambda>k. \<not> is_bookkeeping k) (map fst (v_attributes (row_values r))))) rows []"

definition discovered_names :: "(txn_row \<times> attrs) list \<Rightarrow> sightings" where
  "discovered_names seen = fold (\<lambda>(r, observed). note_names (source_method r) (map fst observed)) seen []"

text \<open>One statement for all rows: the columns are narrow, and \<open>ON CONFLICT DO UPDATE\<close> takes no row twice.\<close>

definition new_fields :: "string \<Rightarrow> instant \<Rightarrow> string option \<Rightarrow> sightings \<Rightarrow> field_row list" where
  "new_fields cc now source seen = concat (map (\<lambda>(m, names). map (seen_field cc now source m) (sort (remdups names))) seen)"

definition fits_field :: "field_row \<Rightarrow> bool" where
  "fits_field r \<longleftrightarrow> length (fr_method r) \<le> 128 \<and> length (fr_field r) \<le> 128"

definition register_fields :: "string \<Rightarrow> instant \<Rightarrow> string option \<Rightarrow> sightings \<Rightarrow> field_row list \<Rightarrow> field_row list result" where
  "register_fields cc now source seen rows =
     (let new = new_fields cc now source seen
      in if list_all fits_field new \<and> distinct (map (\<lambda>r. (fr_method r, fr_source r, fr_field r)) new)
         then Inr (observe_fields cc now source seen rows) else Inl DataError)"

subsection \<open>Building the facts of a slice\<close>

record fold_input =
  fi_source :: "txn_row list"
  fi_stored :: "fact list"
  fi_known :: "(uuid, fact) odict"
  fi_expanded :: "string list"
  fi_version :: string
  fi_refresh :: "uuid list"
  fi_needs :: "uuid list"
  fi_entries :: "uuid \<Rightarrow> response_entry list"
  fi_observed :: "(txn_row \<times> attrs) list"

definition read_input :: "(string \<Rightarrow> string) \<Rightarrow> string \<Rightarrow> window \<Rightarrow> warehouse \<Rightarrow> fold_input" where
  "read_input sha cc w wh =
     (let suppressed = suppressed_names cc (wh_names wh);
          source = read_source cc w suppressed (wh_store wh);
          stored = read_stored cc w suppressed (wh_facts wh);
          known_facts = by_key f_txn stored;
          expanded = expanded_names cc (wh_names wh);
          version = expansion_version sha (approved_record_fields cc (wh_fields wh));
          refresh = needing_expansion cc w expanded known_facts version (wh_records wh);
          needs = map row_id (filter (\<lambda>r. needs_entries r (map_of known_facts (row_id r))) source) @ refresh;
          es = entries_of (wh_store wh) cc w needs;
          mi_on = mi_names cc (wh_names wh)
      in \<lparr>fi_source = source, fi_stored = stored, fi_known = known_facts, fi_expanded = expanded, fi_version = version,
          fi_refresh = refresh, fi_needs = needs, fi_entries = es,
          fi_observed = map (\<lambda>r. (r, extract_all (es (row_id r)) (case source_name r of None \<Rightarrow> False | Some n \<Rightarrow> n \<in> set mi_on))) source\<rparr>)"

definition stamp_fact :: "(string \<Rightarrow> string) \<Rightarrow> string option \<Rightarrow> nat \<Rightarrow> fact \<Rightarrow> fact result" where
  "stamp_fact sha fp n f =
     (let f' = f\<lparr>f_attrs := dict_update [(src_fp_key, opt_str fp), (norm_v_key, JInt normalise_version), (mi_records_key, JInt (int n))] (f_attrs f)\<rparr>
      in andthen (fact_fingerprint sha f') (\<lambda>h. Inr (f'\<lparr>f_hash := h\<rparr>)))"

definition carried :: "fold_input \<Rightarrow> txn_row \<Rightarrow> fact option" where
  "carried i r = (if row_id r \<in> set (fi_needs i) then None else map_of (fi_known i) (row_id r))"

definition build_row :: "(string \<Rightarrow> string) \<Rightarrow> (instant \<Rightarrow> duration) \<Rightarrow> string list \<Rightarrow> fold_input \<Rightarrow> txn_row \<times> attrs \<Rightarrow> (issue + fact) result" where
  "build_row sha offset approved i ro =
     (case ro of (r, observed) \<Rightarrow>
        (case carried i r of
           Some f \<Rightarrow> Inr (Inr f)
         | None \<Rightarrow> andthen (normalise sha offset (fst (select observed approved)) r) (\<lambda>x. case x of
               Inl q \<Rightarrow> Inr (Inl q)
             | Inr f \<Rightarrow> andthen (stamp_fact sha (row_fp r) (record_total (fi_entries i (row_id r))) f) (Inr \<circ> Inr))))"

definition build_rows :: "(string \<Rightarrow> string) \<Rightarrow> (instant \<Rightarrow> duration) \<Rightarrow> string list \<Rightarrow> fold_input \<Rightarrow> (issue + fact) list result" where
  "build_rows sha offset approved i = collect (build_row sha offset approved i) (fi_observed i)"

definition facts_of :: "(issue + fact) list \<Rightarrow> fact list" where
  "facts_of xs = List.map_filter (\<lambda>x. case x of Inr f \<Rightarrow> Some f | Inl q \<Rightarrow> None) xs"

definition issues_of :: "(issue + fact) list \<Rightarrow> issue list" where
  "issues_of xs = List.map_filter (\<lambda>x. case x of Inl q \<Rightarrow> Some q | Inr f \<Rightarrow> None) xs"

subsection \<open>The lookups\<close>

text \<open>A source row as \<open>harvest_lists\<close> sees it: the columns the slice selected.\<close>

definition source_lk_row :: "txn_row \<Rightarrow> lk_row" where
  "source_lk_row r =
     (let v = row_values r in
      \<lparr>lr_columns = (\<lambda>k.
         if k = ''id'' then VOther (uuid_str (row_id r)) else if k = ''started_at'' then val_option VTime (v_started v)
         else if k = ''duration_ms'' then val_option VInt (v_duration v) else if k = ''status'' then VStr (status_value (v_status v))
         else if k = ''sealed'' then VBool (row_sealed r) else if k = ''updated_at'' then VTime (row_updated r)
         else if k = ''row_fingerprint'' then val_option VStr (row_fp r) else if k = ''members_fingerprint'' then val_option VStr (row_members_fp r)
         else if k \<in> set [''method'', ''transaction_name'', ''transaction_type'', ''item_number'', ''order_number'', ''delivery_number'',
              ''warehouse'', ''warehouse_id'', ''user_name'', ''device_id'', ''device_name''] then val_option VStr (text_column v k)
         else VNone), lr_bag = v_attributes v\<rparr>)"

definition fold_lookups :: "string \<Rightarrow> fold_input \<Rightarrow> fact list \<Rightarrow> warehouse \<Rightarrow> warehouse result" where
  "fold_lookups cc i facts wh =
     andthen (load_lookups cc True (wh_lookups wh)) (\<lambda>lookups.
       if lookups = [] then Inr wh
       else andthen (record_values cc (harvest (map fact_lk_row facts) (map snd lookups)
           @ harvest_lists (map (\<lambda>r. (source_lk_row r, fi_entries i (row_id r))) (fi_source i)) (map snd lookups)) lookups (wh_values wh))
         (\<lambda>(stats, vs). Inr (wh\<lparr>wh_values := vs\<rparr>)))"

subsection \<open>Expanding records\<close>

record record_stats =
  xs_records :: nat
  xs_deleted :: nat
  xs_hours :: "instant list"
  xs_days :: "int list"

definition no_records :: record_stats where
  "no_records = \<lparr>xs_records = 0, xs_deleted = 0, xs_hours = [], xs_days = []\<rparr>"

definition record_at :: "string \<Rightarrow> uuid \<Rightarrow> instant option \<Rightarrow> record_fact \<Rightarrow> bool" where
  "record_at cc t ev r \<longleftrightarrow> rf_customer r = cc \<and> rf_txn r = t \<and> rf_event r = ev"

definition drop_records :: "string \<Rightarrow> uuid \<Rightarrow> instant option \<Rightarrow> record_fact list \<Rightarrow> record_fact list" where
  "drop_records cc t ev recs = filter (\<lambda>r. \<not> record_at cc t ev r) recs"

definition count_at :: "string \<Rightarrow> uuid \<Rightarrow> instant option \<Rightarrow> record_fact list \<Rightarrow> nat" where
  "count_at cc t ev recs = length (filter (record_at cc t ev) recs)"

text \<open>The buckets a fact marks: its own instant and its day.\<close>

definition mark_buckets :: "fact \<Rightarrow> record_stats \<Rightarrow> record_stats" where
  "mark_buckets f xs =
     xs\<lparr>xs_hours := xs_hours xs @ (case f_event f of None \<Rightarrow> [] | Some t \<Rightarrow> [t]),
        xs_days := xs_days xs @ (case f_day f of None \<Rightarrow> [] | Some d \<Rightarrow> [d])\<rparr>"

definition reverse_records :: "string \<Rightarrow> fact_outcome \<Rightarrow> record_stats \<times> record_fact list \<Rightarrow> record_stats \<times> record_fact list" where
  "reverse_records cc o1 st =
     (case (o_action o1, o_stored o1, st) of
        (Reverse, Some old, (xs, recs)) \<Rightarrow>
          (let n = count_at cc (f_txn old) (f_event old) recs
           in if n = 0 then st
              else (mark_buckets old (xs\<lparr>xs_deleted := xs_deleted xs + n\<rparr>), drop_records cc (f_txn old) (f_event old) recs))
      | _ \<Rightarrow> st)"

definition column_text :: "nat \<Rightarrow> json \<Rightarrow> string option result" where
  "column_text n v = (case v of JNull \<Rightarrow> Inr None | JStr s \<Rightarrow> if length s \<le> n then Inr (Some s) else Inl DataError | _ \<Rightarrow> Inl DataError)"

definition record_row :: "string \<Rightarrow> instant \<Rightarrow> string \<Rightarrow> string list \<Rightarrow> fact \<Rightarrow> nat \<times> m3_record \<Rightarrow> record_fact result" where
  "record_row cc now version approved f ir =
     andthen (column_text 64 (rec_program (snd ir))) (\<lambda>program.
     andthen (column_text 64 (rec_transaction (snd ir))) (\<lambda>transaction.
       Inr \<lparr>rf_customer = cc, rf_txn = f_txn f, rf_started = f_started f, rf_index = fst ir, rf_event = f_event f, rf_day = f_day f,
         rf_method = text_field f ''method'', rf_name = text_field f ''transaction_name'', rf_program = program, rf_transaction = transaction,
         rf_attrs = dict_update [(exp_v_key, JStr version)] (fst (select (rec_attributes (snd ir)) approved)), rf_created = now\<rparr>))"

definition expandable :: "fold_input \<Rightarrow> fact_outcome list \<Rightarrow> fact list" where
  "expandable i os =
     (let changed_facts = List.map_filter (\<lambda>o1. if o_action o1 \<in> {Insert, Update} then o_fact o1 else None) os;
          done_ids = map f_txn changed_facts
      in changed_facts @ List.map_filter (\<lambda>t. if t \<in> set done_ids then None else map_of (fi_known i) t) (fi_refresh i))"

text \<open>The facts with records, and those records; the rows of each are deleted before the new ones go in.\<close>

definition with_records :: "fold_input \<Rightarrow> fact_outcome list \<Rightarrow> (fact \<times> m3_record list) list" where
  "with_records i os =
     filter (\<lambda>(f, rs). rs \<noteq> [])
       (map (\<lambda>f. (f, records (fi_entries i (f_txn f)))) (filter (named_in (fi_expanded i)) (expandable i os)))"

definition drop_for :: "string \<Rightarrow> fact \<Rightarrow> record_stats \<times> record_fact list \<Rightarrow> record_stats \<times> record_fact list" where
  "drop_for cc f st =
     (case st of (xs, recs) \<Rightarrow>
        (xs\<lparr>xs_deleted := xs_deleted xs + count_at cc (f_txn f) (f_event f) recs\<rparr>, drop_records cc (f_txn f) (f_event f) recs))"

definition record_key :: "record_fact \<Rightarrow> uuid \<times> nat \<times> instant option" where
  "record_key r = (rf_txn r, rf_index r, rf_event r)"

definition expand_records ::
    "string \<Rightarrow> instant \<Rightarrow> string list \<Rightarrow> fold_input \<Rightarrow> fact_outcome list \<Rightarrow> record_fact list \<Rightarrow> (record_stats \<times> record_fact list) result" where
  "expand_records cc now approved i os recs =
     (let (xs, kept) = fold (reverse_records cc) os (no_records, recs)
      in if fi_expanded i = [] then Inr (xs, kept)
         else let grown = with_records i os;
                  (xs, kept) = fold (drop_for cc \<circ> fst) grown (fold (mark_buckets \<circ> fst) grown xs, kept)
              in andthen (collect (\<lambda>(f, ir). record_row cc now (fi_version i) approved f ir)
                     (concat (map (\<lambda>(f, rs). map (Pair f) (enumerate 0 rs)) grown))) (\<lambda>rows.
                   if distinct (map record_key (kept @ rows))
                   then Inr (xs\<lparr>xs_records := length rows\<rparr>, kept @ rows) else Inl IntegrityError))"

definition record_names :: "fold_input \<Rightarrow> fact_outcome list \<Rightarrow> sightings \<Rightarrow> sightings" where
  "record_names i os seen =
     (if fi_expanded i = [] then seen
      else fold (\<lambda>(f, rs). fold (\<lambda>r. note_names (text_field f ''method'') (map fst (rec_attributes r))) rs) (with_records i os) seen)"

subsection \<open>Rollups of a slice\<close>

definition refold_buckets :: "zone \<Rightarrow> span option \<Rightarrow> fact_outcome list \<Rightarrow> instant list \<times> int list \<times> changed option" where
  "refold_buckets z refold os =
     (case (dirty_buckets os, refold) of
        ((hours, dates), None) \<Rightarrow> (hours, dates, Some (changed_of os))
      | ((hours, dates), Some (lo, hi)) \<Rightarrow> (remdups (hours @ hours_in lo hi), remdups (dates @ local_dates_in z lo hi), None))"

definition no_rolls :: roll_stats where
  "no_rolls = \<lparr>rs_definitions = 0, rs_skipped = 0, rs_buckets = 0\<rparr>"

definition roll_up ::
    "fold_env \<Rightarrow> string \<Rightarrow> zone \<Rightarrow> instant \<Rightarrow> fact_outcome list \<Rightarrow> record_stats \<Rightarrow> span option \<Rightarrow> warehouse \<Rightarrow> (roll_stats \<times> warehouse) result" where
  "roll_up env cc z now os xs refold wh =
     (case refold_buckets z refold os of (hours, dates, ch) \<Rightarrow>
        (let rec_hours = remdups (hours @ xs_hours xs); rec_dates = remdups (dates @ xs_days xs)
         in if rec_hours = [] \<and> rec_dates = [] then Inr (no_rolls, wh)
            else let metrics = snd (ensure_seed cc (fe_seed env cc) (wh_metrics wh))
                 in andthen (active_definitions cc (approved_attributes cc (wh_fields wh)) metrics) (\<lambda>defs.
                    andthen (fold_all (fe_hash64 env) cc defs hours dates rec_hours rec_dates (hidden_names cc (wh_names wh)) z now ch
                        (fact_rows (wh_facts wh)) (wh_records wh) (wh_rollups wh)) (\<lambda>(rolls, db).
                      Inr (rolls, wh\<lparr>wh_metrics := metrics, wh_rollups := db\<rparr>)))))"

subsection \<open>The state of a tenant\<close>

definition quantize5 :: "decimal \<Rightarrow> decimal" where
  "quantize5 d = (case d of
      Fin s c e \<Rightarrow> Fin s (if - 5 \<le> e then c * 10 ^ nat (e + 5) else half_even c (10 ^ nat (- 5 - e))) (- 5)
    | _ \<Rightarrow> d)"

definition settledness :: "txn_row list \<Rightarrow> (decimal option \<times> instant option) result" where
  "settledness source =
     (if source = [] then Inr (None, None)
      else let unsealed = filter (\<lambda>r. \<not> row_sealed r) source
           in andthen (dec_div_count (Fin False (int (length unsealed)) 0) (int (length source))) (\<lambda>q.
                Inr (Some (quantize5 q), min_of (known (map row_started unsealed)))))"

definition source_watermark :: "string \<Rightarrow> store \<Rightarrow> instant option" where
  "source_watermark cc s = max_of (known (map row_started (filter (\<lambda>r. row_customer r = cc) (txns s))))"

text \<open>SQL's \<open>greatest\<close> and \<open>least\<close> pass over NULL.\<close>

definition greatest :: "instant option \<Rightarrow> instant option \<Rightarrow> instant option" where
  "greatest a b = max_of (known [a, b])"

definition least :: "instant option \<Rightarrow> instant option \<Rightarrow> instant option" where
  "least a b = min_of (known [a, b])"

record state_update =
  su_folds :: fold_stats
  su_quarantined :: nat
  su_records :: int
  su_watermark :: "instant option"
  su_history :: "instant option"
  su_source :: "instant option"
  su_frontier :: "instant option"
  su_share :: "decimal option"
  su_oldest :: "instant option"

definition net_facts :: "fold_stats \<Rightarrow> int" where
  "net_facts st = int (n_inserted st) - int (n_reversed st)"

definition fresh_state :: "string \<Rightarrow> instant \<Rightarrow> state_update \<Rightarrow> tenant_state" where
  "fresh_state cc now u =
     \<lparr>ts_customer = cc, ts_watermark = su_watermark u, ts_source = su_source u, ts_history = su_history u, ts_frontier = su_frontier u,
      ts_share = su_share u, ts_oldest = su_oldest u, ts_open = 0, ts_dead = 0, ts_quarantined = int (su_quarantined u),
      ts_records = max (su_records u) 0, ts_facts = max (net_facts (su_folds u)) 0, ts_revision = 1, ts_last = Some now, ts_error = None\<rparr>"

definition move_state :: "instant \<Rightarrow> state_update \<Rightarrow> tenant_state \<Rightarrow> tenant_state" where
  "move_state now u t =
     t\<lparr>ts_watermark := greatest (ts_watermark t) (su_watermark u), ts_history := least (ts_history t) (su_history u),
       ts_source := su_source u, ts_frontier := greatest (ts_frontier t) (su_frontier u), ts_share := su_share u, ts_oldest := su_oldest u,
       ts_facts := ts_facts t + net_facts (su_folds u), ts_records := ts_records t + su_records u,
       ts_quarantined := ts_quarantined t + int (su_quarantined u), ts_revision := ts_revision t + 1, ts_last := Some now, ts_error := None\<rparr>"

definition update_state :: "string \<Rightarrow> instant \<Rightarrow> state_update \<Rightarrow> tenant_state list \<Rightarrow> tenant_state list" where
  "update_state cc now u rows =
     (if list_ex (\<lambda>t. ts_customer t = cc) rows then map (\<lambda>t. if ts_customer t = cc then move_state now u t else t) rows
      else rows @ [fresh_state cc now u])"

definition refresh_counts :: "string \<Rightarrow> work_ticket list \<Rightarrow> tenant_state list \<Rightarrow> tenant_state list" where
  "refresh_counts cc ts rows =
     (let open_n = length (filter (\<lambda>q. tk_customer q = cc \<and> wt_consumed q = None \<and> wt_abandoned q = None) ts);
          dead_n = length (filter (\<lambda>q. tk_customer q = cc \<and> wt_abandoned q \<noteq> None) ts)
      in map (\<lambda>t. if ts_customer t = cc then t\<lparr>ts_open := open_n, ts_dead := dead_n\<rparr> else t) rows)"

definition analytics_consumer :: string where "analytics_consumer = ''analytics:warehouse-v1''"

definition retention_position :: "tenant_state list \<Rightarrow> instant option" where
  "retention_position rows = (if list_ex (\<lambda>t. ts_frontier t = None) rows then None else min_of (known (map ts_frontier rows)))"

definition publish_retention_position :: "instant \<Rightarrow> warehouse \<Rightarrow> warehouse" where
  "publish_retention_position now wh =
     (case retention_position (wh_states wh) of
        None \<Rightarrow> wh
      | Some p \<Rightarrow> wh\<lparr>wh_cursors := report_cursor now analytics_consumer p (wh_cursors wh)\<rparr>)"

subsection \<open>One slice\<close>

record run_stats =
  rt_folds :: fold_stats
  rt_quarantined :: nat
  rt_source :: nat
  rt_consumed :: nat
  rt_rolls :: roll_stats
  rt_records :: nat
  rt_deleted :: nat

text \<open>The registries before the facts: what the responses and the requests name, then the approvals.\<close>

definition register_seen :: "string \<Rightarrow> instant \<Rightarrow> fold_input \<Rightarrow> warehouse \<Rightarrow> warehouse result" where
  "register_seen cc now i wh =
     andthen (register_fields cc now None (discovered_names (fi_observed i)) (wh_fields wh)) (\<lambda>rows.
     andthen (register_fields cc now (Some ''request'') (sent_names (fi_source i)) rows) (\<lambda>rows.
       Inr (wh\<lparr>wh_fields := rows\<rparr>)))"

definition quarantine :: "string \<Rightarrow> instant \<Rightarrow> issue list \<Rightarrow> warehouse \<Rightarrow> warehouse" where
  "quarantine cc now issues wh =
     wh\<lparr>wh_issues := wh_issues wh @ map (\<lambda>q. \<lparr>si_customer = cc, si_detected = now, si_issue = q\<rparr>) issues\<rparr>"

definition apply_facts :: "string \<Rightarrow> instant \<Rightarrow> fact_outcome list \<Rightarrow> warehouse \<Rightarrow> (fold_stats \<times> warehouse) result" where
  "apply_facts cc now os wh =
     andthen (apply_outcomes cc now os (wh_facts wh)) (\<lambda>(folds, db). Inr (folds, wh\<lparr>wh_facts := db\<rparr>))"

definition apply_records :: "string \<Rightarrow> instant \<Rightarrow> fold_input \<Rightarrow> fact_outcome list \<Rightarrow> warehouse \<Rightarrow> (record_stats \<times> warehouse) result" where
  "apply_records cc now i os wh =
     andthen (expand_records cc now (approved_attributes cc (wh_fields wh)) i os (wh_records wh)) (\<lambda>(xs, recs).
     andthen (register_fields cc now (Some ''record'') (record_names i os (discovered_names (fi_observed i))) (wh_fields wh)) (\<lambda>rows.
       Inr (xs, wh\<lparr>wh_records := recs, wh_fields := rows\<rparr>)))"

definition state_of_run :: "string \<Rightarrow> fold_input \<Rightarrow> fact list \<Rightarrow> issue list \<Rightarrow> fold_stats \<Rightarrow> record_stats \<Rightarrow> store \<Rightarrow> state_update result" where
  "state_of_run cc i facts issues folds xs s =
     andthen (settledness (fi_source i)) (\<lambda>(share, oldest).
       Inr \<lparr>su_folds = folds, su_quarantined = length issues, su_records = int (xs_records xs) - int (xs_deleted xs),
         su_watermark = max_of (known (map f_event facts)), su_history = min_of (known (map f_event facts)),
         su_source = source_watermark cc s, su_frontier = max_of (map row_updated (fi_source i)), su_share = share, su_oldest = oldest\<rparr>)"

definition stamp_consumed :: "instant \<Rightarrow> uuid list \<Rightarrow> work_ticket \<Rightarrow> work_ticket" where
  "stamp_consumed now ids t = (if wt_id t \<in> set ids then t\<lparr>wt_consumed := Some now, wt_last := Some now, wt_error := None\<rparr> else t)"

text \<open>The end of a slice: the state, the marker of the definitions, the tickets, the counts, the position for retention.\<close>

definition close_slice :: "string \<Rightarrow> instant \<Rightarrow> instant \<Rightarrow> work_ticket list \<Rightarrow> state_update \<Rightarrow> warehouse \<Rightarrow> warehouse" where
  "close_slice cc now hi claim u wh =
     (let stamped = map (stamp_consumed now (map wt_id claim)) (wh_tickets wh)
      in publish_retention_position now (wh\<lparr>wh_metrics := advance_backfilled_through cc hi (wh_metrics wh), wh_tickets := stamped,
           wh_states := refresh_counts cc stamped (update_state cc now u (wh_states wh))\<rparr>))"

text \<open>What follows the reads, with the facts and issues they gave.\<close>

definition write_slice ::
    "fold_env \<Rightarrow> string \<Rightarrow> zone \<Rightarrow> instant \<Rightarrow> span \<Rightarrow> work_ticket list \<Rightarrow> bool \<Rightarrow> fold_input \<Rightarrow> fact list \<Rightarrow> issue list \<Rightarrow> warehouse
     \<Rightarrow> (run_stats \<times> warehouse) result" where
  "write_slice env cc z now w claim refold i facts issues wh =
     (let os = fact_diff (fi_stored i) facts;
          named = wh\<lparr>wh_names := observe_names cc now (map source_name (fi_source i)) (wh_names wh)\<rparr>
      in andthen (apply_facts cc now os named) (\<lambda>(folds, wh).
         andthen (fold_lookups cc i facts wh) (\<lambda>wh.
         andthen (apply_records cc now i os wh) (\<lambda>(xs, wh).
         andthen (roll_up env cc z now os xs (if refold then Some w else None) (quarantine cc now issues wh)) (\<lambda>(rolls, wh).
         andthen (state_of_run cc i facts issues folds xs (wh_store wh)) (\<lambda>u.
           Inr (\<lparr>rt_folds = folds, rt_quarantined = length issues, rt_source = length (fi_source i), rt_consumed = length claim,
                  rt_rolls = rolls, rt_records = xs_records xs, rt_deleted = xs_deleted xs\<rparr>,
                close_slice cc now (snd w) claim u wh)))))))"

definition span_window :: "span \<Rightarrow> window" where
  "span_window w = \<lparr>w_start = Some (fst w), w_end = Some (snd w)\<rparr>"

definition consume_run ::
    "fold_env \<Rightarrow> string \<Rightarrow> string option \<Rightarrow> instant \<Rightarrow> span \<Rightarrow> work_ticket list \<Rightarrow> bool \<Rightarrow> warehouse \<Rightarrow> (run_stats \<times> warehouse) result" where
  "consume_run env cc tz now w claim refold wh =
     (let i = read_input (fe_sha env) cc (span_window w) wh; z = tenant_zone env tz
      in andthen (register_seen cc now i wh) (\<lambda>wh.
         andthen (build_rows (fe_sha env) (z_offset z) (approved_attributes cc (wh_fields wh)) i) (\<lambda>built.
           write_slice env cc z now w claim refold i (facts_of built) (issues_of built) wh)))"

subsection \<open>Failures\<close>

text \<open>The delay is written with three decimals of a second.\<close>

definition delay_us :: "rat \<Rightarrow> duration" where
  "delay_us secs = round_even (secs * 1000) * 1000"

definition fail_work :: "fold_env \<Rightarrow> instant \<Rightarrow> string \<Rightarrow> work_ticket \<Rightarrow> work_ticket" where
  "fail_work env clock err t =
     (let st = fe_settings env; attempts = Suc (wt_attempts t)
      in t\<lparr>wt_attempts := attempts, wt_error := Some (take 2000 err), wt_last := Some clock,
           wt_available := clock + delay_us (backoff_seconds (fe_jitter env (wt_id t)) attempts (fs_backoff_base st) (fs_backoff_cap st)),
           wt_abandoned := (if fs_max_attempts st \<le> attempts then Some clock else None)\<rparr>)"

text \<open>Its own transaction; where that fails too, nothing is recorded.\<close>

definition record_failure :: "fold_env \<Rightarrow> instant \<Rightarrow> work_ticket list \<Rightarrow> string \<Rightarrow> warehouse \<Rightarrow> nat \<times> warehouse" where
  "record_failure env clock rows err wh =
     (case fe_fault env (At_failure (map wt_id rows)) of
        Some e \<Rightarrow> (0, wh)
      | None \<Rightarrow> (length (filter (\<lambda>t. fs_max_attempts (fe_settings env) \<le> Suc (wt_attempts t)) rows),
                 wh\<lparr>wh_tickets := map (\<lambda>t. if wt_id t \<in> set (map wt_id rows) then fail_work env clock err t else t) (wh_tickets wh)\<rparr>))"

subsection \<open>One tenant\<close>

record pass_stats =
  ps_runs :: nat
  ps_slices :: nat
  ps_failed :: nat
  ps_abandoned :: nat
  ps_done :: "run_stats list"

definition no_pass :: pass_stats where
  "no_pass = \<lparr>ps_runs = 0, ps_slices = 0, ps_failed = 0, ps_abandoned = 0, ps_done = []\<rparr>"

definition attempt_slice ::
    "fold_env \<Rightarrow> string \<Rightarrow> string option \<Rightarrow> instant \<Rightarrow> span \<Rightarrow> work_ticket list \<Rightarrow> bool \<Rightarrow> warehouse \<Rightarrow> string + run_stats \<times> warehouse" where
  "attempt_slice env cc tz now w claim refold wh =
     (case fe_fault env (At_slice w) of
        Some e \<Rightarrow> Inl (exn_text e)
      | None \<Rightarrow> map_sum (fe_message env) id (consume_run env cc tz now w claim refold wh))"

text \<open>The last slice claims the tickets; after a failure the rest of the run is left to the retry.\<close>

fun consume_slices ::
    "fold_env \<Rightarrow> string \<Rightarrow> string option \<Rightarrow> instant \<Rightarrow> work_ticket list \<Rightarrow> bool \<Rightarrow> span list \<Rightarrow> pass_stats \<times> warehouse \<Rightarrow> pass_stats \<times> warehouse" where
  "consume_slices env cc tz now rows refold [] st = st"
| "consume_slices env cc tz now rows refold (w # ws) (ps, wh) =
     (let ps = ps\<lparr>ps_slices := Suc (ps_slices ps)\<rparr>
      in case attempt_slice env cc tz now w (if ws = [] then rows else []) refold wh of
           Inr (rs, wh') \<Rightarrow> consume_slices env cc tz now rows refold ws (ps\<lparr>ps_done := ps_done ps @ [rs]\<rparr>, wh')
         | Inl err \<Rightarrow> (let (n, wh') = record_failure env now rows err wh
                      in (ps\<lparr>ps_failed := Suc (ps_failed ps), ps_abandoned := ps_abandoned ps + n\<rparr>, wh')))"

definition consume_coalesced ::
    "fold_env \<Rightarrow> string \<Rightarrow> string option \<Rightarrow> instant \<Rightarrow> span \<times> work_ticket list \<Rightarrow> pass_stats \<times> warehouse \<Rightarrow> pass_stats \<times> warehouse" where
  "consume_coalesced env cc tz now run st =
     (case (run, st) of (((lo, hi), rows), (ps, wh)) \<Rightarrow>
        consume_slices env cc tz now rows (list_ex tk_refold rows) (split_run lo hi (fs_max_window (fe_settings env)))
          (ps\<lparr>ps_runs := Suc (ps_runs ps)\<rparr>, wh))"

definition due_for :: "string \<Rightarrow> instant \<Rightarrow> warehouse \<Rightarrow> work_ticket list" where
  "due_for cc clock wh = filter (\<lambda>t. tk_customer t = cc \<and> ticket_due clock t) (wh_tickets wh)"

definition consume_tenant :: "fold_env \<Rightarrow> string \<Rightarrow> instant \<Rightarrow> warehouse \<Rightarrow> pass_stats \<times> warehouse" where
  "consume_tenant env cc clock wh =
     fold (consume_coalesced env cc (tenant_timezone env cc wh) clock) (coalesce_pending tk_start tk_end 0 (due_for cc clock wh)) (no_pass, wh)"

end
