(* ===== verification/Retention.thy ===== *)
theory Retention
  imports Consume
begin

text \<open>
  The partition worker (\<open>services/workers/log_partition_worker.py\<close>): one cycle extends every partitioned table ahead of
  ingestion and drops what is past retention and held by nobody. A hold is an open stitch window, a live reader that has
  not passed the partition, or a tenant whose analytics are broken. Everything of a cycle is one transaction.
\<close>

subsection \<open>Policy\<close>

definition LAG_ONE_DAY :: "string list" where
  "LAG_ONE_DAY = [''log_entries'', ''log_entry_assignment'']"

definition KEEP_FOREVER :: "string list" where
  "KEEP_FOREVER = [''analytics_facts'', ''analytics_fact_ledger'', ''analytics_daily_rollups'', ''analytics_record_facts'']"

definition RETENTION_DAYS :: "(string \<times> int) list" where
  "RETENTION_DAYS = [(''analytics_hourly_rollups'', 90), (''analytics_quality_issues'', 365)]"

record retention_settings =
  rs_retention :: int
  rs_precreate :: int
  rs_stale_after :: int
  rs_gate :: bool
  rs_hold_max :: int

definition retention_days_for :: "retention_settings \<Rightarrow> string \<Rightarrow> int option" where
  "retention_days_for st table =
     (if table \<in> set KEEP_FOREVER then None
      else Some ((case map_of RETENTION_DAYS table of Some n \<Rightarrow> n | None \<Rightarrow> rs_retention st) + (if table \<in> set LAG_ONE_DAY then 1 else 0)))"

definition droppable_days :: "retention_settings \<Rightarrow> string \<Rightarrow> int list \<Rightarrow> int \<Rightarrow> int list result" where
  "droppable_days st table covered today =
     (case retention_days_for st table of
        None \<Rightarrow> Inr []
      | Some n \<Rightarrow> andthen (grain_of table) (\<lambda>g. Inr (expired_days covered today n g)))"

subsection \<open>Holds\<close>

type_synonym retention_period = "string \<times> int"

definition period_bounds :: "retention_period \<Rightarrow> span result" where
  "period_bounds p =
     andthen (grain_of (fst p)) (\<lambda>g. let start = period_start g (snd p) in
       Inr (day_start start, day_start (next_period_start g start)))"

definition overlaps :: "span \<Rightarrow> instant \<Rightarrow> instant \<Rightarrow> bool" where
  "overlaps b lo hi \<longleftrightarrow> lo < snd b \<and> fst b \<le> hi"

definition window_open :: "regroup_ticket \<Rightarrow> bool" where
  "window_open q \<longleftrightarrow> q_consumed q = None \<and> q_abandoned q = None"

text \<open>One read over the whole candidate span, then partition by partition.\<close>

definition windows_read :: "span list \<Rightarrow> store \<Rightarrow> regroup_ticket list" where
  "windows_read bounds s =
     (case (min_of (map fst bounds), max_of (map snd bounds)) of
        (Some lo, Some hi) \<Rightarrow> filter (\<lambda>q. window_open q \<and> q_start q < hi \<and> lo \<le> q_end q) (queue s)
      | _ \<Rightarrow> [])"

definition periods_blocked_by_pending :: "db_env \<Rightarrow> warehouse \<Rightarrow> retention_period list \<Rightarrow> retention_period list txn" where
  "periods_blocked_by_pending env wh periods =
     (if periods = [] then give []
      else then_do (raising env (collect period_bounds periods)) (\<lambda>bounds.
           then_do (ask env Open_windows (\<lambda>ps. (windows_read bounds (wh_store wh), ps))) (\<lambda>rows.
             give (map fst (filter (\<lambda>(p, b). list_ex (\<lambda>q. overlaps b (q_start q) (q_end q)) rows) (zip periods bounds))))))"

definition periods_blocked_by_consumers ::
    "db_env \<Rightarrow> retention_settings \<Rightarrow> instant \<Rightarrow> warehouse \<Rightarrow> retention_period list \<Rightarrow> retention_period list txn" where
  "periods_blocked_by_consumers env st now wh periods =
     (if periods = [] then give []
      else then_do (ask env Live_cursors (\<lambda>ps. (fst (min_live_position (rs_stale_after st) now (wh_cursors wh)), ps))) (\<lambda>low.
           then_do (raising env (collect period_bounds periods)) (\<lambda>bounds.
             give (map fst (filter (\<lambda>(p, b). blocks_until (snd b) low) (zip periods bounds))))))"

definition HEALTH_GATED :: "string list" where
  "HEALTH_GATED = [''log_entries'', ''log_transactions'', ''log_entry_assignment'']"

record analytics_health =
  ah_holding :: bool
  ah_reason :: string
  ah_unhealthy :: "string list"
  ah_expired :: "string list"

text \<open>What is wrong with a tenant, and whether its hold has run out.\<close>

definition complaints :: "string list \<Rightarrow> tenant_state \<Rightarrow> string list" where
  "complaints dead t =
     (if ts_customer t \<in> set dead then [''abandoned ticket(s)''] else [])
     @ (case ts_error t of Some (c # s) \<Rightarrow> [''last cycle failed''] | _ \<Rightarrow> [])"

definition hold_expired :: "retention_settings \<Rightarrow> instant \<Rightarrow> tenant_state \<Rightarrow> bool" where
  "hold_expired st now t = (case ts_last t of None \<Rightarrow> False | Some l \<Rightarrow> rs_hold_max st * day_us < now - l)"

definition analytics_health_of :: "retention_settings \<Rightarrow> instant \<Rightarrow> warehouse \<Rightarrow> analytics_health" where
  "analytics_health_of st now wh =
     (if wh_states wh = [] then \<lparr>ah_holding = False, ah_reason = ''no analytics state: the platform is unused here'', ah_unhealthy = [], ah_expired = []\<rparr>
      else let dead = map tk_customer (filter (\<lambda>q. wt_abandoned q \<noteq> None) (wh_tickets wh));
               ill = filter (\<lambda>t. complaints dead t \<noteq> []) (wh_states wh);
               held = filter (\<lambda>t. \<not> hold_expired st now t) ill
           in \<lparr>ah_holding = held \<noteq> [],
               ah_reason = (if held = [] then ''all tenants healthy''
                 else join ''; '' (map (\<lambda>t. ts_customer t @ '': '' @ join '', '' (complaints dead t)) held)),
               ah_unhealthy = sort (map ts_customer held),
               ah_expired = sort (map ts_customer (filter (hold_expired st now) ill))\<rparr>)"

text \<open>An error in reading the health holds every candidate.\<close>

definition periods_blocked_by_analytics ::
    "db_env \<Rightarrow> retention_settings \<Rightarrow> instant \<Rightarrow> warehouse \<Rightarrow> retention_period list \<Rightarrow> retention_period list txn" where
  "periods_blocked_by_analytics env st now wh periods c =
     (let candidates = filter (\<lambda>p. fst p \<in> set HEALTH_GATED) periods
      in if periods = [] \<or> \<not> rs_gate st \<or> candidates = [] then (Inr [], c)
         else case ask env Tenant_health (\<lambda>ps. (analytics_health_of st now wh, ps)) c of
             (Inl e, c') \<Rightarrow> (Inr candidates, c')
           | (Inr h, c') \<Rightarrow> (Inr (if ah_holding h then candidates else []), c'))"

definition periods_blocked ::
    "db_env \<Rightarrow> retention_settings \<Rightarrow> instant \<Rightarrow> warehouse \<Rightarrow> retention_period list \<Rightarrow> retention_period list txn" where
  "periods_blocked env st now wh periods =
     then_do (periods_blocked_by_pending env wh periods) (\<lambda>a.
     then_do (periods_blocked_by_consumers env st now wh periods) (\<lambda>b.
     then_do (periods_blocked_by_analytics env st now wh periods) (\<lambda>d. give (a @ b @ d))))"

subsection \<open>One cycle\<close>

definition create_runway :: "db_env \<Rightarrow> retention_settings \<Rightarrow> int \<Rightarrow> nat txn" where
  "create_runway env st today =
     then_do (raising env (coverage_days today (rs_precreate st))) (\<lambda>days. ensure_coverage env days None)"

definition expired_candidates :: "db_env \<Rightarrow> retention_settings \<Rightarrow> int \<Rightarrow> (string \<times> int list) list txn" where
  "expired_candidates env st today =
     each_do (\<lambda>t out. then_do (covered_days env (pt_table t)) (\<lambda>covered.
       then_do (raising env (droppable_days st (pt_table t) covered today)) (\<lambda>starts. give (out @ [(pt_table t, starts)])))) PARTITIONED []"

definition drop_one :: "db_env \<Rightarrow> retention_period list \<Rightarrow> retention_period \<Rightarrow> string list \<Rightarrow> string list txn" where
  "drop_one env blocked p names =
     (if p \<in> set blocked then give names
      else then_do (raising env (drop_partition_sql (fst p) (snd p))) (\<lambda>sql.
           then_do (raising env (partition_name (fst p) (snd p))) (\<lambda>name.
           then_do (ask env (Statement sql) (\<lambda>ps. ((), filter (\<lambda>q. pa_name q \<noteq> name) ps))) (\<lambda>_. give (names @ [name])))))"

definition candidate_periods :: "(string \<times> int list) list \<Rightarrow> retention_period list" where
  "candidate_periods candidates = concat (map (\<lambda>(t, starts). map (Pair t) starts) candidates)"

definition drop_each :: "db_env \<Rightarrow> (string \<times> int list) list \<Rightarrow> retention_period list \<Rightarrow> string list txn" where
  "drop_each env candidates blocked = each_do (drop_one env blocked) (candidate_periods candidates) []"

definition drop_expired :: "db_env \<Rightarrow> retention_settings \<Rightarrow> instant \<Rightarrow> warehouse \<Rightarrow> int \<Rightarrow> string list txn" where
  "drop_expired env st now wh today =
     then_do (expired_candidates env st today) (\<lambda>candidates.
     then_do (periods_blocked env st now wh (remdups (candidate_periods candidates))) (drop_each env candidates))"

record cycle_stats =
  cy_today :: int
  cy_created :: nat
  cy_dropped :: "string list"
  cy_errors :: "string list"
  cy_days_ahead :: int

text \<open>Both halves run; then the commit, which a refused statement has turned into a rollback.\<close>

definition extend_and_drop ::
    "db_env \<Rightarrow> retention_settings \<Rightarrow> instant \<Rightarrow> warehouse \<Rightarrow> int \<Rightarrow> partition list \<Rightarrow> (nat \<times> string list \<times> string list) \<times> partition list" where
  "extend_and_drop env st now wh today ps =
     (case create_runway env st today \<lparr>ca_parts = ps, ca_aborted = False\<rparr> of (r1, c1) \<Rightarrow>
        (case drop_expired env st now wh today c1 of (r2, c2) \<Rightarrow>
           ((case r1 of Inr n \<Rightarrow> n | Inl e \<Rightarrow> 0, case r2 of Inr names \<Rightarrow> names | Inl e \<Rightarrow> [],
             (case r1 of Inl e \<Rightarrow> [''create: '' @ e] | Inr n \<Rightarrow> []) @ (case r2 of Inl e \<Rightarrow> [''drop: '' @ e] | Inr names \<Rightarrow> [])),
            if ca_aborted c2 then ps else ca_parts c2)))"

definition runway_of :: "grain \<Rightarrow> int \<Rightarrow> int list \<Rightarrow> int" where
  "runway_of g today covered =
     (let future = filter (\<lambda>e. today \<le> e) (map (period_end g) covered)
      in case max_of future of None \<Rightarrow> - 1 | Some e \<Rightarrow> e - today)"

definition runway_for :: "db_env \<Rightarrow> int \<Rightarrow> partitioned_table \<Rightarrow> int list \<Rightarrow> int list txn" where
  "runway_for env today t out =
     then_do (covered_days env (pt_table t)) (\<lambda>covered. give (out @ [runway_of (pt_grain t) today covered]))"

definition days_of_runway :: "db_env \<Rightarrow> int \<Rightarrow> int txn" where
  "days_of_runway env today =
     then_do (each_do (runway_for env today) PARTITIONED []) (\<lambda>ns. give (case min_of ns of None \<Rightarrow> - 1 | Some n \<Rightarrow> n))"

text \<open>The days of the cycle are those of the clock of the database; liveness is a matter of the worker's own clock.\<close>

definition run_once ::
    "db_env \<Rightarrow> retention_settings \<Rightarrow> instant \<Rightarrow> instant \<Rightarrow> warehouse \<Rightarrow> partition list \<Rightarrow> (string + cycle_stats) \<times> partition list" where
  "run_once env st db_now now wh ps =
     (let today = db_now div day_us in
      case ask env Today (\<lambda>ps. (today, ps)) \<lparr>ca_parts = ps, ca_aborted = False\<rparr> of
        (Inl e, c) \<Rightarrow> (Inl e, ps)
      | (Inr day, c) \<Rightarrow>
          (case extend_and_drop env st now wh day ps of ((created, dropped, errors), ps') \<Rightarrow>
            (map_sum id (\<lambda>n. \<lparr>cy_today = day, cy_created = created, cy_dropped = dropped, cy_errors = errors, cy_days_ahead = n\<rparr>)
               (fst (days_of_runway env day \<lparr>ca_parts = ps', ca_aborted = False\<rparr>)), ps')))"

text \<open>The daily views.\<close>

definition days_blocked_by_pending :: "db_env \<Rightarrow> warehouse \<Rightarrow> int list \<Rightarrow> int list txn" where
  "days_blocked_by_pending env wh days =
     then_do (periods_blocked_by_pending env wh (map (Pair ''log_entries'') days)) (\<lambda>ps. give (map snd ps))"

definition days_blocked_by_consumers :: "db_env \<Rightarrow> retention_settings \<Rightarrow> instant \<Rightarrow> warehouse \<Rightarrow> int list \<Rightarrow> int list txn" where
  "days_blocked_by_consumers env st now wh days =
     then_do (periods_blocked_by_consumers env st now wh (map (Pair ''log_entries'') days)) (\<lambda>ps. give (map snd ps))"

end
