(* ===== verification/PartitionProperties.thy ===== *)
theory PartitionProperties
  imports Partitions
begin

text \<open>
  The partitions of a table tile time and are told apart by their names, so a catalog in which every partition is what its
  name says never holds two for one instant, and what extends it leaves no requested day without its partition.
\<close>

subsection \<open>Tiling\<close>

lemma periods_from_starts:
  assumes "p \<in> set (periods_from g cur stop)" and "period_start g cur = cur"
  shows "period_start g p = p \<and> cur \<le> p \<and> p \<le> stop"
  using assms
proof (induction g cur stop rule: periods_from.induct)
  case (1 g cur stop)
  have n: "period_start g (next_period_start g cur) = next_period_start g cur" by (rule next_is_start)
  show ?case using 1 n period_advances [of cur g] by (subst (asm) periods_from.simps) (auto split: if_splits)
qed

lemma periods_from_cover:
  assumes "period_start g cur = cur" and "cur \<le> d" and "d \<le> hi"
  shows "period_start g d \<in> set (periods_from g cur (period_start g hi))"
  using assms
proof (induction g cur "period_start g hi" rule: periods_from.induct)
  case (1 g cur)
  have le: "cur \<le> period_start g hi"
  proof (rule ccontr)
    assume "\<not> cur \<le> period_start g hi"
    then have "period_start g cur = period_start g hi"
      using 1(3,4) period_holds(2) [of hi g] by (intro period_same) auto
    then show False using 1(2) \<open>\<not> cur \<le> period_start g hi\<close> by simp
  qed
  show ?case
  proof (cases "d < next_period_start g cur")
    case True
    then have "period_start g d = period_start g cur" using 1(2,3) by (intro period_same) simp_all
    then show ?thesis using le 1(2) by (subst periods_from.simps) simp
  next
    case False
    then have "period_start g d \<in> set (periods_from g (next_period_start g cur) (period_start g hi))"
      using 1(1) [OF le next_is_start _ 1(4)] by simp
    then show ?thesis using le by (subst periods_from.simps) simp
  qed
qed

lemma periods_from_sorted: "sorted_wrt (<) (periods_from g cur stop)"
proof (induction g cur stop rule: periods_from.induct)
  case (1 g cur stop)
  have "cur < p" if "p \<in> set (periods_from g (next_period_start g cur) stop)" for p
    using periods_from_starts [OF that next_is_start] period_advances [of cur g] by linarith
  then show ?case using 1 by (subst periods_from.simps) auto
qed

text \<open>The partitions a range of days needs tile it. They come in ascending order without repetition, each day of the
  range lies in one of them and each of them reaches into the range, and the spans of two periods of a grain are the same
  or disjoint, whatever the lengths of months and years.\<close>

theorem periods_tile_the_range:
  assumes "periods_covering g lo hi = Inr ps"
  shows "sorted_wrt (<) ps \<and> (\<forall>d \<in> {lo..hi}. \<exists>p \<in> set ps. p \<le> d \<and> d < next_period_start g p)
    \<and> (\<forall>p \<in> set ps. p \<le> hi \<and> lo < next_period_start g p)
    \<and> (period_start g a = period_start g b \<or> next_period_start g a \<le> period_start g b \<or> next_period_start g b \<le> period_start g a)"
proof -
  have ps: "ps = periods_from g (period_start g lo) (period_start g hi)" and "lo \<le> hi"
    using assms by (auto simp: periods_covering_def split: if_splits)
  have "\<exists>p \<in> set ps. p \<le> d \<and> d < next_period_start g p" if "d \<in> {lo..hi}" for d
  proof -
    have "period_start g d \<in> set ps"
      using that period_holds(1) [of g lo] unfolding ps by (intro periods_from_cover) auto
    then show ?thesis using period_holds [where g = g and day = d] by (intro bexI [of _ "period_start g d"]) auto
  qed
  moreover have "p \<le> hi \<and> lo < next_period_start g p" if "p \<in> set ps" for p
  proof -
    have p: "period_start g p = p" "period_start g lo \<le> p" "p \<le> period_start g hi"
      using periods_from_starts [OF that [unfolded ps]] by simp_all
    have "lo < next_period_start g p"
    proof (rule ccontr)
      assume "\<not> lo < next_period_start g p"
      then have "period_start g p = period_start g lo"
        using p(2) period_advances [of p g] period_holds(2) [of lo g] by (intro period_same) auto
      then have "next_period_start g p = next_period_start g lo" by (metis next_of_start)
      then show False using \<open>\<not> lo < next_period_start g p\<close> period_holds(2) [of lo g] by simp
    qed
    then show ?thesis using p(3) period_holds(1) [of g hi] by linarith
  qed
  moreover have "period_start g a = period_start g b \<or> next_period_start g a \<le> period_start g b \<or> next_period_start g b \<le> period_start g a"
    using period_same [of g a "period_start g b"] period_same [of g b "period_start g a"] by (metis linorder_not_less period_start_same le_cases)
  moreover have "sorted_wrt (<) ps" unfolding ps by (rule periods_from_sorted)
  ultimately show ?thesis by blast
qed

subsection \<open>Names tell partitions apart\<close>

lemma digits_snoc: "digits_nat (s @ [c]) = 10 * digits_nat s + nat (of_char c - 48)"
  by (simp add: digits_nat_def)

lemma digit_char_value: "n < 10 \<Longrightarrow> nat (of_char (digit_char n) - (48 :: int)) = n"
  by (simp add: digit_char_def)

lemma nat_str_value: "digits_nat (nat_str n) = n"
proof (induction n rule: nat_str.induct)
  case (1 n)
  then show ?case
    using digits_snoc [of "[]"] digit_char_value [of n] digit_char_value [of "n mod 10"]
    by (subst nat_str.simps) (auto simp: digits_snoc digits_nat_def [of "[]"])
qed

lemma nat_str_digits: "list_all is_digit (nat_str n)"
proof (induction n rule: nat_str.induct)
  case (1 n)
  have "is_digit (digit_char k)" if "k < 10" for k using that by (simp add: is_digit_def digit_char_def Let_def)
  then show ?case using 1 by (subst nat_str.simps) auto
qed

lemma nat_str_nonempty: "nat_str n \<noteq> []"
  by (subst nat_str.simps) simp

lemma int_str_inj: "int_str i = int_str j \<Longrightarrow> i = j"
proof -
  have minus: "nat_str n \<noteq> CHR ''-'' # s" for n s using nat_str_digits [of n] by (auto simp: is_digit_def Let_def)
  assume "int_str i = int_str j"
  moreover have "nat a = nat b" if "nat_str (nat a) = nat_str (nat b)" for a b using that nat_str_value by metis
  ultimately show ?thesis using minus minus [symmetric] by (fastforce simp: int_str_def split: if_splits)
qed

lemma padded_value: "0 \<le> i \<Longrightarrow> digits_nat (pad_int w i) = nat i"
proof -
  have "digits_nat (replicate k CHR ''0'' @ s) = digits_nat s" for k s
    by (induction k) (simp_all add: digits_nat_def)
  then show "0 \<le> i \<Longrightarrow> ?thesis" by (simp add: pad_int_def int_str_def nat_str_value Let_def)
qed

lemma padded_length: "0 \<le> i \<Longrightarrow> i < 100 \<Longrightarrow> length (pad_int 2 i) = 2"
proof -
  assume i: "0 \<le> i" "i < 100"
  have "length (nat_str (nat i)) \<le> 2"
  proof (cases "nat i < 10")
    case False
    then have "nat i div 10 < 10" using i by auto
    then show ?thesis using False by (subst nat_str.simps, subst nat_str.simps) simp
  qed (subst nat_str.simps, simp)
  moreover have "nat_str (nat i) \<noteq> []" by (rule nat_str_nonempty)
  ultimately show ?thesis using i by (simp add: pad_int_def int_str_def Let_def)
qed

lemma padded_inj: "0 \<le> i \<Longrightarrow> 0 \<le> j \<Longrightarrow> pad_int 2 i = pad_int 2 j \<Longrightarrow> i = j"
  using padded_value [of i 2] padded_value [of j 2] by (metis eq_nat_nat_iff)

lemma civil_parts:
  obtains y m d where "civil day = (y, m, d)" "1 \<le> m" "m \<le> 12" "1 \<le> d" "d < 100" "days_from_civil y (nat m) d = day"
proof -
  obtain y m d where c: "civil day = (y, int m, d)" "valid_date y m d" "days_from_civil y m d = day" by (rule civil_valid)
  have v: "1 \<le> m" "m \<le> 12" "1 \<le> d" "d \<le> month_days y ! (m - 1)" using c(2) by (simp_all add: valid_date_def)
  have "month_days y ! k \<le> 31" if "k < 12" for k
  proof -
    have "month_days y ! k \<in> set (month_days y)" using that by (intro nth_mem) (simp add: month_days_def)
    then show ?thesis by (auto simp: month_days_def split: if_splits)
  qed
  from this [of "m - 1"] have "d < 100" using v by linarith
  then show ?thesis using that [of y "int m" d] c v by simp
qed

text \<open>A day that begins its month or its year.\<close>

lemma month_first_day: "month_of a = a \<Longrightarrow> civil a = (y, m, d) \<Longrightarrow> d = 1"
  by (simp add: month_of_def)

lemma year_first_day: "period_start Yearly a = a \<Longrightarrow> civil a = (y, m, d) \<Longrightarrow> a = days_from_civil y 1 1"
  by simp

lemma suffix_inj:
  assumes "period_start g a = a" and "period_start g b = b" and "period_suffix g a = period_suffix g b"
  shows "a = b"
proof -
  obtain y m d where a: "civil a = (y, m, d)" "1 \<le> m" "m \<le> 12" "1 \<le> d" "d < 100" "days_from_civil y (nat m) d = a" by (rule civil_parts)
  obtain y' m' d' where b: "civil b = (y', m', d')" "1 \<le> m'" "m' \<le> 12" "1 \<le> d'" "d' < 100" "days_from_civil y' (nat m') d' = b" by (rule civil_parts)
  have l: "length (pad_int 2 m) = 2" "length (pad_int 2 m') = 2" "length (pad_int 2 d) = 2" "length (pad_int 2 d') = 2"
    using a b by (simp_all add: padded_length)
  have same: "m = m'" if "pad_int 2 m = pad_int 2 m'" using that a b by (intro padded_inj) auto
  have same_d: "d = d'" if "pad_int 2 d = pad_int 2 d'" using that a b by (intro padded_inj) auto
  show ?thesis
  proof (cases g)
    case Daily
    then have "int_str y = int_str y' \<and> pad_int 2 m = pad_int 2 m' \<and> pad_int 2 d = pad_int 2 d'"
      using assms(3) a(1) b(1) l by (simp add: append_eq_append_conv)
    then show ?thesis using int_str_inj same same_d a(6) b(6) by auto
  next
    case Monthly
    then have "int_str y = int_str y' \<and> pad_int 2 m = pad_int 2 m'"
      using assms(3) a(1) b(1) l by (simp add: append_eq_append_conv)
    moreover have "d = 1" "d' = 1" using month_first_day [OF _ a(1)] month_first_day [OF _ b(1)] assms(1,2) Monthly by auto
    ultimately show ?thesis using int_str_inj same a(6) b(6) by auto
  next
    case Yearly
    then have "y = y'" using assms(3) a(1) b(1) int_str_inj by simp
    then show ?thesis using year_first_day [OF _ a(1)] year_first_day [OF _ b(1)] assms(1,2) Yearly by metis
  qed
qed

text \<open>What a suffix is written with; no table ends in it.\<close>

definition suffix_char :: "char \<Rightarrow> bool" where
  "suffix_char c \<longleftrightarrow> is_digit c \<or> c = CHR ''_'' \<or> c = CHR ''-''"

lemma int_str_chars: "list_all suffix_char (int_str i)"
  using nat_str_digits by (auto simp: int_str_def suffix_char_def list_all_iff)

lemma pad_int_chars: "list_all suffix_char (pad_int w i)"
  using int_str_chars [of i] by (auto simp: pad_int_def suffix_char_def list_all_iff is_digit_def Let_def)

lemma suffix_chars: "list_all suffix_char (CHR ''_'' # period_suffix g a)"
  using int_str_chars pad_int_chars by (cases g) (auto simp: suffix_char_def split: prod.split)

lemma table_of_name:
  assumes "table \<in> set (map pt_table PARTITIONED)"
  shows "rev (dropWhile suffix_char (rev (table @ CHR ''_'' # period_suffix g a))) = table"
proof -
  have "dropWhile suffix_char (rev (CHR ''_'' # period_suffix g a) @ rev table) = dropWhile suffix_char (rev table)"
    using suffix_chars [of g a] by (intro dropWhile_append2) (auto simp: list_all_iff)
  moreover have "dropWhile suffix_char (rev table) = rev table"
    using assms by (auto simp: PARTITIONED_def suffix_char_def is_digit_def Let_def)
  ultimately show ?thesis by simp
qed

lemma partition_names_tell:
  assumes "partition_name table day = Inr name" and "partition_name table' day' = Inr name"
  shows "table = table' \<and> (\<exists>g. grain_of table = Inr g \<and> period_start g day = period_start g day')"
proof -
  obtain g where g: "grain_of table = Inr g" "name = table @ CHR ''_'' # period_suffix g (period_start g day)"
    using assms(1) by (auto simp: partition_name_def andthen_def Let_def split: sum.splits if_splits)
  obtain g' where g': "grain_of table' = Inr g'" "name = table' @ CHR ''_'' # period_suffix g' (period_start g' day')"
    using assms(2) by (auto simp: partition_name_def andthen_def Let_def split: sum.splits if_splits)
  have reg: "t \<in> set (map pt_table PARTITIONED)" if "grain_of t = Inr gr" for t gr
    using that by (auto simp: grain_of_def by_table_def dest!: map_of_SomeD split: option.splits)
  have "table = table'" using table_of_name [OF reg [OF g(1)]] table_of_name [OF reg [OF g'(1)]] g(2) g'(2) by metis
  then show ?thesis using g g' suffix_inj [of g "period_start g day" "period_start g day'"] by auto
qed

subsection \<open>A sound catalog\<close>

definition well_named :: "partition \<Rightarrow> bool" where
  "well_named p \<longleftrightarrow> (\<exists>t \<in> set PARTITIONED. pa_table p = pt_table t \<and> period_start (pt_grain t) (pa_from p) = pa_from p
     \<and> pa_to p = next_period_start (pt_grain t) (pa_from p) \<and> partition_name (pa_table p) (pa_from p) = Inr (pa_name p))"

definition sound_catalog :: "partition list \<Rightarrow> bool" where
  "sound_catalog ps \<longleftrightarrow> list_all well_named ps \<and> distinct (map pa_name ps)"

lemma registered:
  assumes "t \<in> set PARTITIONED"
  shows "grain_of (pt_table t) = Inr (pt_grain t)" and "map_of by_table (pt_table t) = Some t"
proof -
  have "list_all (\<lambda>t. grain_of (pt_table t) = Inr (pt_grain t) \<and> map_of by_table (pt_table t) = Some t) PARTITIONED" by code_simp
  then show "grain_of (pt_table t) = Inr (pt_grain t)" "map_of by_table (pt_table t) = Some t" using assms by (simp_all add: list_all_iff)
qed

lemma then_raise [simp]: "then_do (raising env (Inr x)) f = f x"
  by (rule ext) (simp add: then_do_def raising_def)

lemma then_doE:
  assumes "then_do m f c = (r, c')"
  obtains e where "m c = (Inl e, c')" "r = Inl e" | x c1 where "m c = (Inr x, c1)" "f x c1 = (r, c')"
  using assms by (auto simp: then_do_def split: prod.splits sum.splits)

lemma each_do_keeps:
  assumes "each_do f xs s c = (r, c')" and "P c" and "\<And>x s c r c'. x \<in> set xs \<Longrightarrow> P c \<Longrightarrow> f x s c = (r, c') \<Longrightarrow> P c'"
  shows "P c'"
  using assms
proof (induction xs arbitrary: s c)
  case (Cons x xs)
  from Cons.prems(1) have "then_do (f x s) (each_do f xs) c = (r, c')" by simp
  then show ?case
  proof (cases rule: then_doE)
    case (1 e)
    then show ?thesis using Cons.prems(3) [OF _ Cons.prems(2), of x s r c'] by simp
  next
    case (2 s1 c1)
    then show ?thesis using Cons.IH [OF 2(2)] Cons.prems(2,3) by (metis list.set_intros)
  qed
qed (simp add: give_def)

lemma each_do_reaches:
  assumes "each_do f xs s c = (Inr r, c')" and "P c"
    and step: "\<And>x s c r c'. x \<in> set xs \<Longrightarrow> P c \<Longrightarrow> f x s c = (Inr r, c') \<Longrightarrow> P c' \<and> Q x c'"
    and stays: "\<And>x y s c r c'. x \<in> set xs \<Longrightarrow> P c \<Longrightarrow> Q y c \<Longrightarrow> f x s c = (Inr r, c') \<Longrightarrow> Q y c'"
  shows "P c' \<and> (\<forall>x \<in> set xs. Q x c')"
proof -
  have "P c' \<and> (\<forall>x \<in> seen \<union> set ys. Q x c')" if "each_do f ys s c = (Inr r, c')" "P c" "\<forall>x \<in> seen. Q x c" "set ys \<subseteq> set xs" for ys seen s c
    using that
  proof (induction ys arbitrary: s c seen)
    case (Cons y ys)
    from Cons.prems(1) have "then_do (f y s) (each_do f ys) c = (Inr r, c')" by simp
    then obtain s1 c1 where f: "f y s c = (Inr s1, c1)" "each_do f ys s1 c1 = (Inr r, c')" by (cases rule: then_doE) auto
    have "P c1 \<and> Q y c1" using step [OF _ Cons.prems(2) f(1)] Cons.prems(4) by auto
    moreover have "\<forall>x \<in> seen. Q x c1" using stays [OF _ Cons.prems(2) _ f(1)] Cons.prems(3,4) by auto
    ultimately show ?case using Cons.IH [OF f(2), of "insert y seen"] Cons.prems(4) by auto
  qed (auto simp: give_def)
  from this [of xs s c "{}"] show ?thesis using assms(1,2) by simp
qed

definition has_period :: "partitioned_table \<Rightarrow> int \<Rightarrow> partition list \<Rightarrow> bool" where
  "has_period t start ps \<longleftrightarrow> (\<exists>p \<in> set ps. pa_table p = pt_table t \<and> pa_from p = start)"

text \<open>A question either leaves the catalog alone or does what it is for.\<close>

lemma askE:
  assumes "ask env q f c = (r, c')"
  obtains e where "r = Inl e" "ca_parts c' = ca_parts c" | x ps where "r = Inr x" "f (ca_parts c) = (x, ps)" "c' = c\<lparr>ca_parts := ps\<rparr>"
proof (cases "ca_aborted c")
  case True
  then show ?thesis using assms that(1) by (auto simp: ask_def)
next
  case False
  show ?thesis
  proof (cases "db_refuses env q")
    case None
    obtain x ps where "f (ca_parts c) = (x, ps)" by (cases "f (ca_parts c)")
    then show ?thesis using assms that(2) [of x ps] None False by (auto simp: ask_def)
  next
    case (Some e)
    then show ?thesis using assms that(1) False by (auto simp: ask_def)
  qed
qed

lemma found_is_asked:
  assumes "sound_catalog ps" and "t \<in> set PARTITIONED" and "period_start (pt_grain t) start = start"
    and "partition_name (pt_table t) start = Inr name"
  shows "list_ex (\<lambda>p. pa_name p = name) ps \<longleftrightarrow> has_period t start ps"
proof
  assume "list_ex (\<lambda>p. pa_name p = name) ps"
  then obtain p where p: "p \<in> set ps" "pa_name p = name" by (auto simp: list_ex_iff)
  then obtain t' where t': "t' \<in> set PARTITIONED" "pa_table p = pt_table t'" "period_start (pt_grain t') (pa_from p) = pa_from p"
      "partition_name (pa_table p) (pa_from p) = Inr name"
    using assms(1) by (auto simp: sound_catalog_def list_all_iff well_named_def)
  obtain g where g: "pa_table p = pt_table t" "grain_of (pa_table p) = Inr g" "period_start g (pa_from p) = period_start g start"
    using partition_names_tell [OF t'(4) assms(4)] by blast
  have "g = pt_grain t" "pt_grain t' = pt_grain t" using g t'(1,2) registered [OF assms(2)] registered [OF t'(1)] by auto
  then show "has_period t start ps" using p(1) g t'(3) assms(3) by (auto simp: has_period_def)
next
  assume "has_period t start ps"
  then obtain p where p: "p \<in> set ps" "pa_table p = pt_table t" "pa_from p = start" by (auto simp: has_period_def)
  then have "pa_name p = name" using assms(1,4) by (auto simp: sound_catalog_def list_all_iff well_named_def)
  then show "list_ex (\<lambda>p. pa_name p = name) ps" using p(1) by (auto simp: list_ex_iff)
qed

lemma ensure_period_effect:
  assumes t: "t \<in> set PARTITIONED" and start: "period_start (pt_grain t) start = start" and c: "sound_catalog (ca_parts c)"
    and run: "ensure_period env t start n c = (r, c')"
  shows "sound_catalog (ca_parts c') \<and> set (ca_parts c) \<subseteq> set (ca_parts c') \<and> (\<forall>k. r = Inr k \<longrightarrow> has_period t start (ca_parts c'))"
proof (cases "partition_name (pt_table t) start")
  case (Inl e)
  then show ?thesis using run c by (auto simp: ensure_period_def then_do_def raising_def)
next
  case (Inr name)
  let ?there = "list_ex (\<lambda>p. pa_name p = name) (ca_parts c)"
  note found = found_is_asked [OF c t start Inr]
  obtain sql where sql: "create_partition_sql (pt_table t) start = Inr sql"
    using Inr by (auto simp: create_partition_sql_def registered [OF t] andthen_def Let_def start)
  have run': "then_do (ask env (Exists name) (\<lambda>ps. (list_ex (\<lambda>p. pa_name p = name) ps, ps))) (\<lambda>there.
       if there then give n else then_do (ask env (Statement sql) (create_partition (pt_table t) (pt_grain t) name start)) (\<lambda>_. give (Suc n))) c = (r, c')"
    using run unfolding ensure_period_def Inr sql then_raise .
  have new: "well_named \<lparr>pa_name = name, pa_table = pt_table t, pa_from = start, pa_to = next_period_start (pt_grain t) start\<rparr>"
    using t start Inr by (auto simp: well_named_def)
  from run' show ?thesis
  proof (cases rule: then_doE)
    case (1 e)
    then show ?thesis using c by (auto elim: askE)
  next
    case (2 there c1)
    from 2(1) have c1: "ca_parts c1 = ca_parts c" "there = ?there" by (auto elim: askE)
    show ?thesis
    proof (cases there)
      case True
      then show ?thesis using 2(2) c1 c found by (auto simp: give_def)
    next
      case False
      from 2(2) False have "then_do (ask env (Statement sql) (create_partition (pt_table t) (pt_grain t) name start)) (\<lambda>_. give (Suc n)) c1 = (r, c')" by simp
      then show ?thesis
      proof (cases rule: then_doE)
        case (1 e)
        then show ?thesis using c c1 by (auto elim: askE)
      next
        case (2 u c2)
        from 2(1) have "ca_parts c2 = ca_parts c @ [\<lparr>pa_name = name, pa_table = pt_table t, pa_from = start, pa_to = next_period_start (pt_grain t) start\<rparr>]"
          using c1 False by (auto simp: create_partition_def elim: askE)
        then show ?thesis using 2(2) c c1 False new
          by (auto simp: give_def sound_catalog_def has_period_def list_ex_iff)
      qed
    qed
  qed
qed

lemma has_period_grows: "set ps \<subseteq> set ps' \<Longrightarrow> has_period t d ps \<Longrightarrow> has_period t d ps'"
  by (auto simp: has_period_def)

lemma ensure_table_effect:
  assumes t: "t \<in> set PARTITIONED" and c: "sound_catalog (ca_parts c)" and run: "ensure_table env days t n c = (r, c')"
  shows "sound_catalog (ca_parts c') \<and> set (ca_parts c) \<subseteq> set (ca_parts c')
    \<and> (\<forall>k. r = Inr k \<longrightarrow> (\<forall>d \<in> set days. has_period t (period_start (pt_grain t) d) (ca_parts c')))"
proof -
  let ?starts = "sort (remdups (map (period_start (pt_grain t)) days))"
  let ?P = "\<lambda>c'. sound_catalog (ca_parts c') \<and> set (ca_parts c) \<subseteq> set (ca_parts c')"
  have run': "each_do (ensure_period env t) ?starts n c = (r, c')" using run by (simp add: ensure_table_def)
  have start: "period_start (pt_grain t) s = s" if "s \<in> set ?starts" for s using that by auto
  have step: "?P c2 \<and> set (ca_parts c1) \<subseteq> set (ca_parts c2) \<and> (\<forall>k. x = Inr k \<longrightarrow> has_period t s (ca_parts c2))"
    if "s \<in> set ?starts" "?P c1" "ensure_period env t s m c1 = (x, c2)" for s m c1 x c2
    using ensure_period_effect [OF t start [OF that(1)] _ that(3)] that(2) by blast
  have "?P c'" by (rule each_do_keeps [where P = ?P, OF run']) (use c step in blast)+
  moreover have "\<forall>d \<in> set days. has_period t (period_start (pt_grain t) d) (ca_parts c')" if r: "r = Inr k" for k
  proof -
    have "?P c' \<and> (\<forall>s \<in> set ?starts. has_period t s (ca_parts c'))"
    proof (rule each_do_reaches [where P = ?P and Q = "\<lambda>s c'. has_period t s (ca_parts c')", OF run' [unfolded r]])
      fix s m c1 k1 c2 assume "s \<in> set ?starts" "?P c1" "ensure_period env t s m c1 = (Inr k1, c2)"
      then show "?P c2 \<and> has_period t s (ca_parts c2)" using step by blast
    next
      fix s y m c1 k1 c2 assume "s \<in> set ?starts" "?P c1" and y: "has_period t y (ca_parts c1)" and "ensure_period env t s m c1 = (Inr k1, c2)"
      then have "set (ca_parts c1) \<subseteq> set (ca_parts c2)" using step by blast
      then show "has_period t y (ca_parts c2)" using y by (rule has_period_grows)
    qed (use c in simp)
    then show ?thesis by auto
  qed
  ultimately show ?thesis by blast
qed

lemma ensure_coverage_effect:
  assumes c: "sound_catalog (ca_parts c)" and run: "ensure_coverage env days None c = (r, c')"
  shows "sound_catalog (ca_parts c') \<and> set (ca_parts c) \<subseteq> set (ca_parts c')
    \<and> (\<forall>k. r = Inr k \<longrightarrow> (\<forall>t \<in> set PARTITIONED. \<forall>d \<in> set days. has_period t (period_start (pt_grain t) d) (ca_parts c')))"
proof -
  let ?P = "\<lambda>c'. sound_catalog (ca_parts c') \<and> set (ca_parts c) \<subseteq> set (ca_parts c')"
  let ?Q = "\<lambda>t c'. \<forall>d \<in> set days. has_period t (period_start (pt_grain t) d) (ca_parts c')"
  have run': "each_do (ensure_table env days) PARTITIONED 0 c = (r, c')"
    using run unfolding ensure_coverage_def selected_tables_def option.case then_raise .
  have step: "?P c2 \<and> set (ca_parts c1) \<subseteq> set (ca_parts c2) \<and> (\<forall>k. x = Inr k \<longrightarrow> ?Q t c2)"
    if "t \<in> set PARTITIONED" "?P c1" "ensure_table env days t m c1 = (x, c2)" for t m c1 x c2
    using ensure_table_effect [OF that(1) _ that(3)] that(2) by blast
  have "?P c'" by (rule each_do_keeps [where P = ?P, OF run']) (use c step in blast)+
  moreover have "\<forall>t \<in> set PARTITIONED. ?Q t c'" if r: "r = Inr k" for k
  proof -
    have "?P c' \<and> (\<forall>t \<in> set PARTITIONED. ?Q t c')"
    proof (rule each_do_reaches [where P = ?P and Q = ?Q, OF run' [unfolded r]])
      fix t m c1 k1 c2 assume "t \<in> set PARTITIONED" "?P c1" "ensure_table env days t m c1 = (Inr k1, c2)"
      then show "?P c2 \<and> ?Q t c2" using step by blast
    next
      fix t y m c1 k1 c2 assume "t \<in> set PARTITIONED" "?P c1" and y: "?Q y c1" and "ensure_table env days t m c1 = (Inr k1, c2)"
      then have grows: "set (ca_parts c1) \<subseteq> set (ca_parts c2)" using step by blast
      show "?Q y c2" using y by (blast intro: has_period_grows [OF grows])
    qed (use c in simp)
    then show ?thesis by auto
  qed
  ultimately show ?thesis by blast
qed

text \<open>Two partitions of a table that share an instant are one.\<close>

lemma partitions_disjoint:
  assumes "sound_catalog ps" and "p \<in> set ps" and "q \<in> set ps" and "pa_table p = pa_table q"
    and "pa_from p \<le> d" and "d < pa_to p" and "pa_from q \<le> d" and "d < pa_to q"
  shows "p = q"
proof -
  have w: "well_named p" "well_named q" using assms(1-3) by (auto simp: sound_catalog_def list_all_iff)
  obtain t where t: "t \<in> set PARTITIONED" "pa_table p = pt_table t" "period_start (pt_grain t) (pa_from p) = pa_from p"
      "pa_to p = next_period_start (pt_grain t) (pa_from p)" "partition_name (pa_table p) (pa_from p) = Inr (pa_name p)"
    using w(1) by (auto simp: well_named_def)
  obtain t' where t': "t' \<in> set PARTITIONED" "pa_table q = pt_table t'" "period_start (pt_grain t') (pa_from q) = pa_from q"
      "pa_to q = next_period_start (pt_grain t') (pa_from q)" "partition_name (pa_table q) (pa_from q) = Inr (pa_name q)"
    using w(2) by (auto simp: well_named_def)
  have "t = t'" using registered(2) [OF t(1)] registered(2) [OF t'(1)] t(2) t'(2) assms(4) by auto
  then have "pa_from p = pa_from q" using period_same [of "pt_grain t" "pa_from p" d] period_same [of "pt_grain t" "pa_from q" d] t t' assms(5-8) by simp
  then have "pa_name p = pa_name q" using t(5) t'(5) assms(4) by simp
  then show ?thesis using assms(1-3) by (auto simp: sound_catalog_def distinct_map dest: inj_onD)
qed

end
