(* ===== verification/TicketQueue.thy ===== *)
theory TicketQueue
  imports WindowProperties
begin

text \<open>
  Queues whose tickets are decided in turns. A turn decides the tickets that are its own and leaves the others alone;
  when no ticket belongs to two turns, any list of them decides every ticket that is somebody's, once. The locale is
  interpreted for the runs of a pass over the analytics queue.
\<close>

locale ticket_queue =
  fixes table :: "'s \<Rightarrow> 't list"
    and mine :: "'r \<Rightarrow> 't \<Rightarrow> bool"
    and turn :: "'r \<Rightarrow> 's \<Rightarrow> 's"
    and decided_as :: "'t \<Rightarrow> 't \<Rightarrow> bool"
    and sound :: "'s \<Rightarrow> bool"
  assumes turn_decides: "sound s \<Longrightarrow> \<exists>g. table (turn r s) = map (\<lambda>q. if mine r q then g q else q) (table s)
      \<and> (\<forall>q \<in> set (table s). mine r q \<longrightarrow> decided_as q (g q))"
    and turn_sound: "sound s \<Longrightarrow> sound (turn r s)"
    and stays_foreign: "decided_as q q' \<Longrightarrow> mine r q \<Longrightarrow> \<not> mine r' q \<Longrightarrow> \<not> mine r' q'"
begin

lemma turns_sound: "sound s \<Longrightarrow> sound (fold turn rs s)"
  by (induction rs arbitrary: s) (auto simp: turn_sound)

lemma turns_decide:
  assumes "sound s" and "sorted_wrt (\<lambda>r r'. \<forall>q. \<not> (mine r q \<and> mine r' q)) rs"
  shows "\<exists>f. table (fold turn rs s) = map f (table s)
    \<and> (\<forall>q \<in> set (table s). if \<exists>r \<in> set rs. mine r q then decided_as q (f q) else f q = q)"
  using assms
proof (induction rs arbitrary: s)
  case Nil
  show ?case by (auto intro!: exI [of _ id])
next
  case (Cons r rs)
  obtain g where g: "table (turn r s) = map (\<lambda>q. if mine r q then g q else q) (table s)"
    and dec: "\<forall>q \<in> set (table s). mine r q \<longrightarrow> decided_as q (g q)"
    using turn_decides [OF Cons.prems(1), of r] by blast
  have apart: "\<not> mine r' q" if "mine r q" "r' \<in> set rs" for r' q using Cons.prems(2) that by auto
  have rest: "sorted_wrt (\<lambda>r r'. \<forall>q. \<not> (mine r q \<and> mine r' q)) rs" using Cons.prems(2) by simp
  obtain f where f: "table (fold turn rs (turn r s)) = map f (table (turn r s))"
    and fd: "\<forall>q \<in> set (table (turn r s)). if \<exists>r' \<in> set rs. mine r' q then decided_as q (f q) else f q = q"
    using Cons.IH [OF turn_sound [OF Cons.prems(1)] rest] by blast
  define h where "h q = f (if mine r q then g q else q)" for q
  have "if \<exists>r' \<in> set (r # rs). mine r' q then decided_as q (h q) else h q = q" if q: "q \<in> set (table s)" for q
  proof (cases "mine r q")
    case True
    then have d: "decided_as q (g q)" using dec q by blast
    have "\<not> mine r' (g q)" if "r' \<in> set rs" for r' using stays_foreign [OF d True] apart [OF True that] by blast
    moreover have "g q \<in> set (table (turn r s))" using q True by (force simp: g)
    ultimately have "f (g q) = g q" using fd by auto
    then show ?thesis using True d by (simp add: h_def)
  next
    case False
    then have "q \<in> set (table (turn r s))" using q by (force simp: g)
    then show ?thesis using fd False by (auto simp: h_def)
  qed
  moreover have "table (fold turn (r # rs) s) = map h (table s)" by (simp add: f g h_def)
  ultimately show ?case by blast
qed

end

text \<open>Rows found in a table again after a partition of some of them.\<close>

lemma partitioned_ids:
  assumes "mset (concat rows) = mset (filter P xs)" and "distinct (map key xs)" and "x \<in> set xs"
  shows "(\<exists>r \<in> set rows. key x \<in> key ` set r) \<longleftrightarrow> P x"
proof -
  have s: "set (concat rows) = {y \<in> set xs. P y}" using arg_cong [OF assms(1), of set_mset] by (simp only: set_mset_mset set_filter)
  have "(\<exists>r \<in> set rows. key x \<in> key ` set r) \<longleftrightarrow> key x \<in> key ` set (concat rows)" by auto
  also have "\<dots> \<longleftrightarrow> P x" unfolding s using assms(2,3) by (auto simp: distinct_map dest: inj_onD)
  finally show ?thesis .
qed

lemma partition_apart:
  assumes "mset (concat rows) = mset (filter P xs)" and "distinct (map key xs)"
  shows "sorted_wrt (\<lambda>r r'. key ` set r \<inter> key ` set r' = {}) rows"
proof -
  have "mset (map key (concat rows)) = mset (map key (filter P xs))" using assms(1) by (simp add: mset_map)
  moreover have "distinct (map key (filter P xs))" by (rule distinct_map_filter [OF assms(2)])
  ultimately have "distinct (map key (concat rows))" by (metis mset_eq_imp_distinct_iff)
  then show ?thesis by (induction rows) auto
qed

end
