(* ===== verification/ConsumeProperties.thy ===== *)
theory ConsumeProperties
  imports Consume FactProperties TicketQueue
begin

text \<open>
  What a pass over the analytics queue promises. A slice commits everything or nothing: \<open>committed\<close> takes a successful
  one apart into the stages whose effects the lemmas compose. From them: every due ticket is decided and no other, the
  counters of a tenant count its rows, and the position published for retention speaks for the slowest tenant.
\<close>

subsection \<open>A committed slice\<close>

lemma andthen_InrE:
  assumes "andthen r f = Inr y"
  obtains x where "r = Inr x" "f x = Inr y"
  using assms by (auto simp: andthen_Inr)

lemma andthen_pairE:
  assumes "andthen r (\<lambda>(a, b). f a b) = Inr y"
  obtains a b where "r = Inr (a, b)" "f a b = Inr y"
  using assms by (auto simp: andthen_Inr)

text \<open>The stages of a slice, one after the other.\<close>

definition built_for :: "fold_env \<Rightarrow> string \<Rightarrow> string option \<Rightarrow> instant \<Rightarrow> span \<Rightarrow> warehouse \<Rightarrow> (issue + fact) list result" where
  "built_for env cc tz now w wh =
     (let i = read_input (fe_sha env) cc (span_window w) wh
      in andthen (register_seen cc now i wh) (\<lambda>wh.
           build_rows (fe_sha env) (z_offset (tenant_zone env tz)) (approved_attributes cc (wh_fields wh)) i))"

definition slice_facts :: "fold_env \<Rightarrow> string \<Rightarrow> string option \<Rightarrow> instant \<Rightarrow> span \<Rightarrow> warehouse \<Rightarrow> fact list" where
  "slice_facts env cc tz now w wh = (case built_for env cc tz now w wh of Inr xs \<Rightarrow> facts_of xs | Inl e \<Rightarrow> [])"

definition slice_issues :: "fold_env \<Rightarrow> string \<Rightarrow> string option \<Rightarrow> instant \<Rightarrow> span \<Rightarrow> warehouse \<Rightarrow> issue list" where
  "slice_issues env cc tz now w wh = (case built_for env cc tz now w wh of Inr xs \<Rightarrow> issues_of xs | Inl e \<Rightarrow> [])"

lemma committed:
  assumes "consume_run env cc tz now w claim refold wh = Inr (rs, wh')"
  defines "i \<equiv> read_input (fe_sha env) cc (span_window w) wh" and "facts \<equiv> slice_facts env cc tz now w wh"
    and "issues \<equiv> slice_issues env cc tz now w wh"
  obtains db folds xs recs u metrics vs seen fields names rolls rdb where
    "apply_outcomes cc now (fact_diff (fi_stored i) facts) (wh_facts wh) = Inr (folds, db)"
    and "expand_records cc now (approved_attributes cc seen) i (fact_diff (fi_stored i) facts) (wh_records wh) = Inr (xs, recs)"
    and "state_of_run cc i facts issues folds xs (wh_store wh) = Inr u"
    and "roll_up env cc (tenant_zone env tz) now (fact_diff (fi_stored i) facts) xs (if refold then Some w else None)
       (quarantine cc now issues (wh\<lparr>wh_names := names, wh_fields := fields, wh_facts := db, wh_records := recs, wh_values := vs\<rparr>))
       = Inr (rolls, quarantine cc now issues (wh\<lparr>wh_names := names, wh_fields := fields, wh_facts := db,
       wh_records := recs, wh_rollups := rdb, wh_metrics := metrics, wh_values := vs\<rparr>))"
    and "wh' = close_slice cc now (snd w) claim u (quarantine cc now issues (wh\<lparr>wh_names := names, wh_fields := fields, wh_facts := db,
       wh_records := recs, wh_rollups := rdb, wh_metrics := metrics, wh_values := vs\<rparr>))"
    and "rt_folds rs = folds" and "rt_source rs = length (fi_source i)" and "rt_consumed rs = length claim"
    and "rt_records rs = xs_records xs" and "rt_deleted rs = xs_deleted xs" and "names = observe_names cc now (map source_name (fi_source i)) (wh_names wh)"
proof -
  let ?os = "fact_diff (fi_stored i) facts"
  obtain wh1 where r1: "register_seen cc now i wh = Inr wh1" using assms(1)
    by (auto simp: consume_run_def Let_def andthen_Inr i_def)
  then obtain built where b: "build_rows (fe_sha env) (z_offset (tenant_zone env tz)) (approved_attributes cc (wh_fields wh1)) i = Inr built"
    and w: "write_slice env cc (tenant_zone env tz) now w claim refold i (facts_of built) (issues_of built) wh1 = Inr (rs, wh')"
    using assms(1) by (auto simp: consume_run_def Let_def andthen_Inr i_def)
  have "built_for env cc tz now w wh = Inr built" using r1 b by (simp add: built_for_def Let_def andthen_def i_def)
  then have fi: "facts_of built = facts" "issues_of built = issues" by (simp_all add: facts_def issues_def slice_facts_def slice_issues_def)
  obtain f1 where wh1: "wh1 = wh\<lparr>wh_fields := f1\<rparr>" using r1 by (auto simp: register_seen_def andthen_Inr)
  obtain folds wh2 where a: "apply_facts cc now ?os (wh1\<lparr>wh_names := observe_names cc now (map source_name (fi_source i)) (wh_names wh1)\<rparr>) = Inr (folds, wh2)"
    and w2: "andthen (fold_lookups cc i facts wh2) (\<lambda>wh. andthen (apply_records cc now i ?os wh) (\<lambda>(xs, wh).
         andthen (roll_up env cc (tenant_zone env tz) now ?os xs (if refold then Some w else None) (quarantine cc now issues wh)) (\<lambda>(rolls, wh).
         andthen (state_of_run cc i facts issues folds xs (wh_store wh)) (\<lambda>u.
           Inr (\<lparr>rt_folds = folds, rt_quarantined = length issues, rt_source = length (fi_source i), rt_consumed = length claim,
                  rt_rolls = rolls, rt_records = xs_records xs, rt_deleted = xs_deleted xs\<rparr>,
                close_slice cc now (snd w) claim u wh))))) = Inr (rs, wh')"
    using w by (auto simp: write_slice_def Let_def andthen_Inr fi simp del: fact_diff_def)
  obtain db where db: "apply_outcomes cc now ?os (wh_facts wh) = Inr (folds, db)"
    and wh2: "wh2 = wh\<lparr>wh_fields := f1, wh_names := observe_names cc now (map source_name (fi_source i)) (wh_names wh), wh_facts := db\<rparr>"
    using a by (auto simp: apply_facts_def andthen_Inr wh1)
  obtain wh3 where l: "fold_lookups cc i facts wh2 = Inr wh3"
    and w3: "andthen (apply_records cc now i ?os wh3) (\<lambda>(xs, wh).
         andthen (roll_up env cc (tenant_zone env tz) now ?os xs (if refold then Some w else None) (quarantine cc now issues wh)) (\<lambda>(rolls, wh).
         andthen (state_of_run cc i facts issues folds xs (wh_store wh)) (\<lambda>u.
           Inr (\<lparr>rt_folds = folds, rt_quarantined = length issues, rt_source = length (fi_source i), rt_consumed = length claim,
                  rt_rolls = rolls, rt_records = xs_records xs, rt_deleted = xs_deleted xs\<rparr>,
                close_slice cc now (snd w) claim u wh)))) = Inr (rs, wh')"
    by (rule andthen_InrE [OF w2])
  obtain vs where wh3: "wh3 = wh2\<lparr>wh_values := vs\<rparr>"
  proof -
    have "wh3 = wh2\<lparr>wh_values := wh_values wh3\<rparr>" using l by (auto simp: fold_lookups_def andthen_Inr split: if_splits)
    then show ?thesis using that by blast
  qed
  obtain xs wh4 where e: "apply_records cc now i ?os wh3 = Inr (xs, wh4)"
    and w4: "andthen (roll_up env cc (tenant_zone env tz) now ?os xs (if refold then Some w else None) (quarantine cc now issues wh4)) (\<lambda>(rolls, wh).
         andthen (state_of_run cc i facts issues folds xs (wh_store wh)) (\<lambda>u.
           Inr (\<lparr>rt_folds = folds, rt_quarantined = length issues, rt_source = length (fi_source i), rt_consumed = length claim,
                  rt_rolls = rolls, rt_records = xs_records xs, rt_deleted = xs_deleted xs\<rparr>,
                close_slice cc now (snd w) claim u wh))) = Inr (rs, wh')"
    by (rule andthen_pairE [OF w3])
  obtain recs f2 where ex: "expand_records cc now (approved_attributes cc f1) i ?os (wh_records wh) = Inr (xs, recs)"
    and wh4: "wh4 = wh3\<lparr>wh_records := recs, wh_fields := f2\<rparr>"
    using e by (auto simp: apply_records_def andthen_Inr wh3 wh2)
  obtain rolls wh5 where ro: "roll_up env cc (tenant_zone env tz) now ?os xs (if refold then Some w else None) (quarantine cc now issues wh4) = Inr (rolls, wh5)"
    and w5: "andthen (state_of_run cc i facts issues folds xs (wh_store wh5)) (\<lambda>u.
           Inr (\<lparr>rt_folds = folds, rt_quarantined = length issues, rt_source = length (fi_source i), rt_consumed = length claim,
                  rt_rolls = rolls, rt_records = xs_records xs, rt_deleted = xs_deleted xs\<rparr>,
                close_slice cc now (snd w) claim u wh5)) = Inr (rs, wh')"
    by (rule andthen_pairE [OF w4])
  have "\<exists>m r. wh5 = (quarantine cc now issues wh4)\<lparr>wh_metrics := m, wh_rollups := r\<rparr>"
  proof -
    have "wh5 = (quarantine cc now issues wh4)\<lparr>wh_metrics := wh_metrics wh5, wh_rollups := wh_rollups wh5\<rparr>"
      using ro by (auto simp: roll_up_def Let_def andthen_Inr split: prod.splits if_splits)
    then show ?thesis by blast
  qed
  then obtain m r where wh5: "wh5 = (quarantine cc now issues wh4)\<lparr>wh_metrics := m, wh_rollups := r\<rparr>" by blast
  have "wh_store wh5 = wh_store wh" by (simp add: wh5 wh4 wh3 wh2 quarantine_def)
  then obtain u where u: "state_of_run cc i facts issues folds xs (wh_store wh) = Inr u" and wh': "wh' = close_slice cc now (snd w) claim u wh5"
    and st: "rt_folds rs = folds" "rt_source rs = length (fi_source i)" "rt_consumed rs = length claim" "rt_records rs = xs_records xs" "rt_deleted rs = xs_deleted xs"
    using w5 unfolding andthen_Inr by auto
  have wh2n: "wh_names wh2 = observe_names cc now (map source_name (fi_source i)) (wh_names wh)" by (simp add: wh2)
  have q: "wh5 = quarantine cc now issues (wh\<lparr>wh_names := wh_names wh2, wh_fields := f2, wh_facts := db,
       wh_records := recs, wh_rollups := r, wh_metrics := m, wh_values := vs\<rparr>)"
    by (simp add: wh5 wh4 wh3 wh2 quarantine_def)
  have q4: "quarantine cc now issues wh4 = quarantine cc now issues (wh\<lparr>wh_names := wh_names wh2, wh_fields := f2, wh_facts := db,
       wh_records := recs, wh_values := vs\<rparr>)"
    by (cases wh) (simp add: wh4 wh3 wh2)
  show thesis by (rule that [OF db ex u ro [unfolded q4 q] wh' [unfolded q] st wh2n])
qed

subsection \<open>Tickets\<close>

lemma publish_keeps [simp]:
  "wh_tickets (publish_retention_position now wh) = wh_tickets wh" "wh_store (publish_retention_position now wh) = wh_store wh"
  "wh_zones (publish_retention_position now wh) = wh_zones wh" "wh_states (publish_retention_position now wh) = wh_states wh"
  "wh_facts (publish_retention_position now wh) = wh_facts wh" "wh_records (publish_retention_position now wh) = wh_records wh"
  "wh_issues (publish_retention_position now wh) = wh_issues wh" "wh_rollups (publish_retention_position now wh) = wh_rollups wh"
  "wh_metrics (publish_retention_position now wh) = wh_metrics wh" "wh_names (publish_retention_position now wh) = wh_names wh"
  by (simp_all add: publish_retention_position_def split: option.split)

lemma close_keeps [simp]:
  "wh_tickets (close_slice cc now hi claim u wh) = map (stamp_consumed now (map wt_id claim)) (wh_tickets wh)"
  "wh_store (close_slice cc now hi claim u wh) = wh_store wh" "wh_zones (close_slice cc now hi claim u wh) = wh_zones wh"
  "wh_facts (close_slice cc now hi claim u wh) = wh_facts wh" "wh_records (close_slice cc now hi claim u wh) = wh_records wh"
  "wh_issues (close_slice cc now hi claim u wh) = wh_issues wh" "wh_rollups (close_slice cc now hi claim u wh) = wh_rollups wh"
  "wh_names (close_slice cc now hi claim u wh) = wh_names wh"
  by (simp_all add: close_slice_def Let_def)

lemma committed_tickets:
  assumes "consume_run env cc tz now w claim refold wh = Inr (rs, wh')"
  shows "wh_tickets wh' = map (stamp_consumed now (map wt_id claim)) (wh_tickets wh) \<and> wh_store wh' = wh_store wh \<and> wh_zones wh' = wh_zones wh"
  using assms by (rule committed) (simp add: quarantine_def)

text \<open>What a pass makes of a ticket: consumed, failed once more, or left as it was where recording the failure failed.\<close>

definition decided_work :: "fold_env \<Rightarrow> instant \<Rightarrow> work_ticket \<Rightarrow> work_ticket \<Rightarrow> bool" where
  "decided_work env now t t' \<longleftrightarrow>
     t' = t\<lparr>wt_consumed := Some now, wt_last := Some now, wt_error := None\<rparr>
     \<or> (\<exists>err delay. t' = t\<lparr>wt_attempts := Suc (wt_attempts t), wt_error := Some err, wt_last := Some now, wt_available := now + delay,
          wt_abandoned := (if fs_max_attempts (fe_settings env) \<le> Suc (wt_attempts t) then Some now else None)\<rparr>)
     \<or> t' = t \<and> (\<exists>ids. wt_id t \<in> set ids \<and> fe_fault env (At_failure ids) \<noteq> None)"

lemma consumed_or_failed: "decided_work env now t (stamp_consumed now [wt_id t] t)" "decided_work env now t (fail_work env now err t)"
  by (auto simp: decided_work_def stamp_consumed_def fail_work_def Let_def)

lemma decided_work_keeps: "decided_work env now t t' \<Longrightarrow> wt_id t' = wt_id t \<and> tk_customer t' = tk_customer t"
  by (auto simp: decided_work_def)

lemma stamp_in: "wt_id t \<in> set ids \<Longrightarrow> stamp_consumed now ids t = stamp_consumed now [wt_id t] t"
  by (simp add: stamp_consumed_def)

lemma stamp_none [simp]: "stamp_consumed now [] t = t"
  by (simp add: stamp_consumed_def)

lemma map_sum_Inr: "map_sum f id x = Inr y \<longleftrightarrow> x = Inr y"
  by (cases x) auto

lemma attempted:
  "attempt_slice env cc tz now w claim refold wh = Inr r \<longleftrightarrow>
     fe_fault env (At_slice w) = None \<and> consume_run env cc tz now w claim refold wh = Inr r"
  by (auto simp: attempt_slice_def map_sum_Inr split: option.split)

lemma slices_decide:
  assumes "ws \<noteq> []"
  shows "\<exists>g. wh_tickets (snd (consume_slices env cc tz now rows refold ws (ps, wh))) =
      map (\<lambda>t. if wt_id t \<in> set (map wt_id rows) then g t else t) (wh_tickets wh)
    \<and> (\<forall>t. wt_id t \<in> set (map wt_id rows) \<longrightarrow> decided_work env now t (g t))"
  using assms
proof (induction ws arbitrary: ps wh)
  case (Cons w ws)
  let ?claim = "if ws = [] then rows else []"
  show ?case
  proof (cases "attempt_slice env cc tz now w ?claim refold wh")
    case (Inl err)
    show ?thesis
    proof (cases "fe_fault env (At_failure (map wt_id rows))")
      case None
      then show ?thesis using Inl by (auto simp: record_failure_def consumed_or_failed intro!: exI [of _ "fail_work env now err"])
    next
      case (Some e)
      then show ?thesis using Inl by (auto simp: record_failure_def decided_work_def map_idI intro!: exI [of _ id] exI [of _ "map wt_id rows"])
    qed
  next
    case (Inr r)
    obtain rs wh' where r: "r = (rs, wh')" by (cases r)
    then have run: "consume_run env cc tz now w ?claim refold wh = Inr (rs, wh')"
      using Inr by (simp add: attempted)
    note t = committed_tickets [OF run]
    show ?thesis
    proof (cases "ws = []")
      case True
      then show ?thesis using Inr t
        by (auto simp: r stamp_consumed_def decided_work_def intro!: exI [of _ "\<lambda>t. stamp_consumed now [wt_id t] t"])
    next
      case False
      then have "wh_tickets wh' = wh_tickets wh" using t by (simp add: map_idI)
      then show ?thesis using Cons.IH [OF False, of "ps\<lparr>ps_slices := Suc (ps_slices ps), ps_done := ps_done ps @ [rs]\<rparr>" wh'] Inr
        by (simp add: r Let_def)
    qed
  qed
qed simp

lemma split_run_nonempty: "split_run lo hi m \<noteq> []"
proof -
  have "split_from lo hi (seconds m) \<noteq> []" if "\<not> m \<le> 0" "lo < hi" using that by (subst split_from.simps) (simp add: seconds_def)
  moreover have "\<not> total_seconds (hi - lo) \<le> of_int m \<Longrightarrow> \<not> m \<le> 0 \<Longrightarrow> lo < hi"
  proof (rule ccontr)
    assume a: "\<not> total_seconds (hi - lo) \<le> of_int m" "\<not> m \<le> 0" "\<not> lo < hi"
    then have "(of_int (hi - lo) :: rat) / 1000000 \<le> 0" by simp
    then have "total_seconds (hi - lo) \<le> 0" unfolding total_seconds_def fdiv_def by (rule fl_nonpos)
    moreover have "0 \<le> (of_int m :: rat)" using a(2) by simp
    ultimately show False using a(1) by linarith
  qed
  ultimately show ?thesis by (auto simp: split_run_def)
qed


interpretation pass: ticket_queue "wh_tickets \<circ> snd" "\<lambda>(run :: span \<times> work_ticket list) t. wt_id t \<in> wt_id ` set (snd run)"
    "consume_coalesced env cc tz now" "decided_work env now" "\<lambda>s. True"
  for env cc tz now
proof unfold_locales
  fix s :: "pass_stats \<times> warehouse" and r :: "span \<times> work_ticket list"
  obtain lo hi rows ps wh where rs: "r = ((lo, hi), rows)" "s = (ps, wh)" by (metis prod.exhaust)
  obtain g where "wh_tickets (snd (consume_coalesced env cc tz now r s)) =
      map (\<lambda>t. if wt_id t \<in> set (map wt_id rows) then g t else t) (wh_tickets wh)"
    "\<forall>t. wt_id t \<in> set (map wt_id rows) \<longrightarrow> decided_work env now t (g t)"
    using slices_decide [OF split_run_nonempty] unfolding consume_coalesced_def rs by (simp del: set_map) blast
  then show "\<exists>g. (wh_tickets \<circ> snd) (consume_coalesced env cc tz now r s) =
      map (\<lambda>q. if wt_id q \<in> wt_id ` set (snd r) then g q else q) ((wh_tickets \<circ> snd) s)
    \<and> (\<forall>q \<in> set ((wh_tickets \<circ> snd) s). wt_id q \<in> wt_id ` set (snd r) \<longrightarrow> decided_work env now q (g q))"
    by (auto simp: rs)
qed (auto dest: decided_work_keeps)

text \<open>C39: A pass over the analytics queue of a tenant decides every due ticket of that tenant and touches no other. A due
  ticket is consumed, or its attempt is counted with the error, and it waits out its backoff or is abandoned; it is left
  as it was only where the transaction that records a failure fails itself. No failing run keeps another from being
  decided, whatever the database does.\<close>

theorem every_due_analytics_ticket_is_decided:
  assumes "distinct (map wt_id (wh_tickets wh))"
  shows "\<exists>f. wh_tickets (snd (consume_tenant env cc clock wh)) = map f (wh_tickets wh)
    \<and> (\<forall>t \<in> set (wh_tickets wh). if tk_customer t = cc \<and> ticket_due clock t then decided_work env clock t (f t) else f t = t)"
proof -
  let ?runs = "coalesce_pending tk_start tk_end 0 (due_for cc clock wh)"
  have m: "mset (concat (map snd ?runs)) = mset (filter (\<lambda>t. tk_customer t = cc \<and> ticket_due clock t) (wh_tickets wh))"
    using coalesced_runs [of tk_start tk_end 0 "due_for cc clock wh"] by (simp add: due_for_def)
  have "sorted_wrt (\<lambda>r r'. wt_id ` set r \<inter> wt_id ` set r' = {}) (map snd ?runs)" by (rule partition_apart [OF m assms])
  then have "sorted_wrt (\<lambda>r r'. \<forall>q. \<not> (wt_id q \<in> wt_id ` set (snd r) \<and> wt_id q \<in> wt_id ` set (snd r'))) ?runs"
    unfolding sorted_wrt_map by (rule sorted_wrt_mono_rel [rotated]) blast
  from pass.turns_decide [OF TrueI this, where env = env and cc = cc and tz = "tenant_timezone env cc wh" and now = clock and s = "(no_pass, wh)"]
  obtain f where f: "wh_tickets (snd (consume_tenant env cc clock wh)) = map f (wh_tickets wh)"
    and d: "\<forall>q \<in> set (wh_tickets wh). if \<exists>r \<in> set ?runs. wt_id q \<in> wt_id ` set (snd r) then decided_work env clock q (f q) else f q = q"
    by (auto simp: consume_tenant_def)
  have "(\<exists>r \<in> set ?runs. wt_id q \<in> wt_id ` set (snd r)) \<longleftrightarrow> tk_customer q = cc \<and> ticket_due clock q" if "q \<in> set (wh_tickets wh)" for q
    using partitioned_ids [OF m assms that] by simp
  then show ?thesis using f d by auto
qed

subsection \<open>The counters of a tenant\<close>

lemma fold_result_induct:
  assumes "fold_result f xs s = Inr s'" and "P s" and "\<And>x s s'. x \<in> set xs \<Longrightarrow> P s \<Longrightarrow> f x s = Inr s' \<Longrightarrow> P s'"
  shows "P s'"
  using assms
proof (induction xs arbitrary: s)
  case (Cons x xs)
  then obtain s1 where "f x s = Inr s1" "fold_result f xs s1 = Inr s'" by (auto simp: andthen_Inr)
  then show ?case using Cons.IH Cons.prems by (metis list.set_intros)
qed simp

lemma apply_outcome_elsewhere:
  assumes "apply_outcome cc now o1 (st, rows, log_rows) = Inr (st', rows', log_rows')" and "c \<noteq> cc"
  shows "rows_of c rows' = rows_of c rows"
proof -
  have up: "rows_of c rows' = rows_of c rows" if "update_fact cc k f rows = Inr rows'" for k f rows'
  proof -
    from that obtain g where "rows' = map (\<lambda>r. if row_at cc k r then r\<lparr>sf_fact := g\<rparr> else r) rows"
      by (auto simp: update_fact_def andthen_Inr)
    then have "map sf_customer rows' = map sf_customer rows" by simp
    then show ?thesis by (simp add: rows_of_map)
  qed
  have del: "rows_of c (delete_fact cc k rows) = rows_of c rows" for k
    using assms(2) by (simp add: rows_of_def delete_fact_def row_at_def) (metis (mono_tags, lifting) filter_cong)
  have ins: "rows_of c rows' = rows_of c rows" if "insert_fact cc now f rows = Inr rows'" for f rows'
    using that assms(2) by (auto simp: insert_fact_def andthen_Inr rows_of_def split: if_splits)
  show ?thesis
    using assms(1) by (auto simp: apply_outcome_def andthen_Inr del dest: up ins split: action.splits option.splits)
qed

lemma apply_outcomes_elsewhere:
  assumes "apply_outcomes cc now os db = Inr (st, db')" and "c \<noteq> cc"
  shows "rows_of c (fact_rows db') = rows_of c (fact_rows db)"
proof -
  obtain log_rows where run: "fold_result (apply_outcome cc now) os (no_folds, fact_rows db, []) = Inr (st, fact_rows db', log_rows)"
    using run_of_apply [OF assms(1)] by blast
  have "case (st, fact_rows db', log_rows) of (st, rows, l) \<Rightarrow> rows_of c rows = rows_of c (fact_rows db)"
    by (rule fold_result_induct [OF run]) (auto dest: apply_outcome_elsewhere [OF _ assms(2)])
  then show ?thesis by simp
qed

definition records_of :: "string \<Rightarrow> record_fact list \<Rightarrow> nat" where
  "records_of cc recs = length (filter (\<lambda>r. rf_customer r = cc) recs)"

lemma records_of_drop:
  "records_of c (drop_records cc t ev recs) + (if c = cc then count_at cc t ev recs else 0) = records_of c recs"
  by (induction recs) (auto simp: records_of_def drop_records_def count_at_def record_at_def)

definition balanced :: "string \<Rightarrow> string \<Rightarrow> nat \<Rightarrow> record_stats \<times> record_fact list \<Rightarrow> bool" where
  "balanced c cc n st \<longleftrightarrow> records_of c (snd st) + (if c = cc then xs_deleted (fst st) else 0) = n"

lemma mark_keeps [simp]: "xs_deleted (mark_buckets f xs) = xs_deleted xs"
  by (simp add: mark_buckets_def)

lemma reverse_balanced: "balanced c cc n st \<Longrightarrow> balanced c cc n (reverse_records cc o1 st)"
  using records_of_drop [of c cc] by (auto simp: balanced_def reverse_records_def Let_def split: action.splits option.splits prod.splits)

lemma reverse_unwritten: "xs_records (fst st) = 0 \<Longrightarrow> xs_records (fst (reverse_records cc o1 st)) = 0"
  by (auto simp: reverse_records_def mark_buckets_def Let_def split: action.splits option.splits prod.splits)

lemma drop_balanced: "balanced c cc n st \<Longrightarrow> balanced c cc n (drop_for cc f st)"
  using records_of_drop [of c cc "f_txn f" "f_event f" "snd st"] by (cases st) (auto simp: balanced_def drop_for_def split: if_splits)

lemma collect_all:
  assumes "collect f xs = Inr ys" and "\<And>x y. x \<in> set xs \<Longrightarrow> f x = Inr y \<Longrightarrow> P y"
  shows "\<forall>y \<in> set ys. P y"
  by (rule fold_result_induct [OF assms(1) [unfolded collect_def]]) (auto simp: andthen_Inr dest: assms(2))

lemma fold_keeps: "(\<And>x s. P s \<Longrightarrow> P (f x s)) \<Longrightarrow> P s \<Longrightarrow> P (fold f xs s)"
  by (induction xs arbitrary: s) auto

lemma expand_counts:
  assumes "expand_records cc now approved i os recs = Inr (xs, recs')"
  shows "records_of c recs' + (if c = cc then xs_deleted xs else 0) = records_of c recs + (if c = cc then xs_records xs else 0)"
proof -
  obtain xs1 kept1 where r: "fold (reverse_records cc) os (no_records, recs) = (xs1, kept1)" by fastforce
  have "balanced c cc (records_of c recs) (fold (reverse_records cc) os (no_records, recs))"
    by (rule fold_keeps [where P = "balanced c cc (records_of c recs)", OF reverse_balanced]) (simp_all add: balanced_def no_records_def)
  then have b1: "balanced c cc (records_of c recs) (xs1, kept1)" by (simp add: r)
  have "xs_records (fst (fold (reverse_records cc) os (no_records, recs))) = 0"
    by (rule fold_keeps [where P = "\<lambda>st. xs_records (fst st) = 0", OF reverse_unwritten]) (simp_all add: no_records_def)
  then have zero: "xs_records xs1 = 0" by (simp add: r)
  show ?thesis
  proof (cases "fi_expanded i = []")
    case True
    then show ?thesis using assms b1 zero r by (auto simp: expand_records_def balanced_def)
  next
    case False
    let ?grown = "with_records i os"
    obtain xs2 kept2 where d: "fold (drop_for cc \<circ> fst) ?grown (fold (mark_buckets \<circ> fst) ?grown xs1, kept1) = (xs2, kept2)" by fastforce
    have m: "xs_deleted (fold (mark_buckets \<circ> fst) g x) = xs_deleted x" for g :: "(fact \<times> m3_record list) list" and x
      by (induction g arbitrary: x) simp_all
    have "balanced c cc (records_of c recs) (fold (drop_for cc \<circ> fst) ?grown (fold (mark_buckets \<circ> fst) ?grown xs1, kept1))"
      by (rule fold_keeps [where P = "balanced c cc (records_of c recs)"]) (simp add: drop_balanced, use b1 m in \<open>auto simp: balanced_def split: if_splits\<close>)
    then have b2: "balanced c cc (records_of c recs) (xs2, kept2)" by (simp add: d)
    obtain rows where rows: "collect (\<lambda>(f, ir). record_row cc now (fi_version i) approved f ir)
        (concat (map (\<lambda>(f, rs). map (Pair f) (enumerate 0 rs)) ?grown)) = Inr rows"
      and xs: "xs = xs2\<lparr>xs_records := length rows\<rparr>" "recs' = kept2 @ rows"
      using assms False by (auto simp: expand_records_def r d andthen_Inr Let_def split: if_splits)
    have "\<forall>y \<in> set rows. rf_customer y = cc"
      by (rule collect_all [OF rows]) (auto simp: record_row_def andthen_Inr)
    then have "records_of c rows = (if c = cc then length rows else 0)" by (auto simp: records_of_def filter_empty_conv)
    then show ?thesis using b2 by (auto simp: xs balanced_def records_of_def split: if_splits)
  qed
qed

definition issues_count :: "string \<Rightarrow> stored_issue list \<Rightarrow> nat" where
  "issues_count cc qs = length (filter (\<lambda>q. si_customer q = cc) qs)"

text \<open>The row of a tenant in the state table, and what it has to say.\<close>

definition state_of :: "string \<Rightarrow> warehouse \<Rightarrow> tenant_state option" where
  "state_of cc wh = find (\<lambda>t. ts_customer t = cc) (wh_states wh)"

definition books_balance :: "warehouse \<Rightarrow> bool" where
  "books_balance wh \<longleftrightarrow> keys_unique (fact_rows (wh_facts wh)) \<and> (\<forall>c.
     (case state_of c wh of None \<Rightarrow> (0, 0, 0) | Some t \<Rightarrow> (ts_facts t, ts_records t, ts_quarantined t)) =
     (int (rows_of c (fact_rows (wh_facts wh))), int (records_of c (wh_records wh)), int (issues_count c (wh_issues wh))))"

lemma find_map_same: "(\<And>x. P (f x) = P x) \<Longrightarrow> find P (map f xs) = map_option f (find P xs)"
  by (induction xs) auto

lemma find_holds: "find P xs = Some x \<Longrightarrow> P x"
  by (auto simp: find_Some_iff)

lemma find_none_ex: "find P xs = None \<longleftrightarrow> \<not> list_ex P xs"
  by (auto simp: find_None_iff list_ex_iff)

lemma state_after_update:
  "find (\<lambda>t. ts_customer t = c) (update_state cc now u rows) =
    (if c = cc then Some (case find (\<lambda>t. ts_customer t = cc) rows of None \<Rightarrow> fresh_state cc now u | Some t \<Rightarrow> move_state now u t)
     else find (\<lambda>t. ts_customer t = c) rows)"
proof (cases "list_ex (\<lambda>t. ts_customer t = cc) rows")
  case True
  have keep: "ts_customer (move_state now u t) = ts_customer t" for t by (simp add: move_state_def)
  have "find (\<lambda>t. ts_customer t = c) (map (\<lambda>t. if ts_customer t = cc then move_state now u t else t) rows)
      = map_option (\<lambda>t. if ts_customer t = cc then move_state now u t else t) (find (\<lambda>t. ts_customer t = c) rows)"
    by (rule find_map_same) (simp add: keep)
  moreover have "find (\<lambda>t. ts_customer t = cc) rows \<noteq> None" using True find_none_ex [of "\<lambda>t. ts_customer t = cc"] by blast
  moreover have "map_option (\<lambda>t. if ts_customer t = cc then move_state now u t else t) (find (\<lambda>t. ts_customer t = c) rows)
      = (if c = cc then map_option (move_state now u) else id) (find (\<lambda>t. ts_customer t = c) rows)"
    by (cases "find (\<lambda>t. ts_customer t = c) rows") (auto dest: find_holds)
  ultimately show ?thesis using True by (auto simp: update_state_def split: option.splits)
next
  case False
  then show ?thesis
    using find_none_ex [of "\<lambda>t. ts_customer t = cc" rows]
    by (auto simp: update_state_def find_append fresh_state_def split: option.split)
qed

lemma state_after_counts:
  "find (\<lambda>t. ts_customer t = c) (refresh_counts cc ts rows) =
    map_option (\<lambda>t. if c = cc then t\<lparr>ts_open := length (filter (\<lambda>q. tk_customer q = cc \<and> wt_consumed q = None \<and> wt_abandoned q = None) ts),
       ts_dead := length (filter (\<lambda>q. tk_customer q = cc \<and> wt_abandoned q \<noteq> None) ts)\<rparr> else t) (find (\<lambda>t. ts_customer t = c) rows)"
  by (induction rows) (auto simp: refresh_counts_def Let_def)

lemma state_of_run_fields:
  assumes "state_of_run cc i facts issues folds xs s = Inr u"
  shows "su_folds u = folds" and "su_quarantined u = length issues" and "su_records u = int (xs_records xs) - int (xs_deleted xs)"
    and "su_frontier u = max_of (map row_updated (fi_source i))"
  using assms by (auto simp: state_of_run_def andthen_Inr)

lemma committed_books:
  assumes run: "consume_run env cc tz now w claim refold wh = Inr (rs, wh')" and books: "books_balance wh"
  shows "books_balance wh'"
proof (rule committed [OF run])
  let ?i = "read_input (fe_sha env) cc (span_window w) wh" and ?facts = "slice_facts env cc tz now w wh" and ?issues = "slice_issues env cc tz now w wh"
  fix db folds xs recs u metrics vs seen fields names rolls rdb
  assume a: "apply_outcomes cc now (fact_diff (fi_stored ?i) ?facts) (wh_facts wh) = Inr (folds, db)"
    and e: "expand_records cc now (approved_attributes cc seen) ?i (fact_diff (fi_stored ?i) ?facts) (wh_records wh) = Inr (xs, recs)"
    and u: "state_of_run cc ?i ?facts ?issues folds xs (wh_store wh) = Inr u"
    and wh': "wh' = close_slice cc now (snd w) claim u (quarantine cc now ?issues (wh\<lparr>wh_names := names, wh_fields := fields, wh_facts := db,
       wh_records := recs, wh_rollups := rdb, wh_metrics := metrics, wh_values := vs\<rparr>))"
  have stored: "fi_stored ?i = read_stored cc (span_window w) (suppressed_names cc (wh_names wh)) (wh_facts wh)"
    by (simp add: read_input_def Let_def)
  note a' = a [unfolded stored]
  have unique: "keys_unique (fact_rows (wh_facts wh))" using books by (simp add: books_balance_def)
  have facts: "int (rows_of c (fact_rows db)) = int (rows_of c (fact_rows (wh_facts wh))) + (if c = cc then net_facts folds else 0)" for c
    using counters_count_rows [OF unique a'] apply_outcomes_elsewhere [OF a] by (auto simp: net_facts_def)
  have records: "int (records_of c recs) = int (records_of c (wh_records wh)) + (if c = cc then int (xs_records xs) - int (xs_deleted xs) else 0)" for c
    using expand_counts [OF e, of c] by (auto split: if_splits)
  have issues: "issues_count c (wh_issues wh') = issues_count c (wh_issues wh) + (if c = cc then length ?issues else 0)" for c
    by (simp add: wh' quarantine_def issues_count_def filter_empty_conv)
  define ts where "ts = map (stamp_consumed now (map wt_id claim)) (wh_tickets wh)"
  define n where "n = length (filter (\<lambda>q. tk_customer q = cc \<and> wt_consumed q = None \<and> wt_abandoned q = None) ts)"
  define d where "d = length (filter (\<lambda>q. tk_customer q = cc \<and> wt_abandoned q \<noteq> None) ts)"
  have states: "state_of c wh' = map_option (\<lambda>t. if c = cc then t\<lparr>ts_open := n, ts_dead := d\<rparr> else t)
      (if c = cc then Some (case state_of cc wh of None \<Rightarrow> fresh_state cc now u | Some t \<Rightarrow> move_state now u t) else state_of c wh)" for c
    by (simp add: wh' state_of_def close_slice_def Let_def state_after_counts state_after_update quarantine_def ts_def [symmetric] n_def d_def)
  note su = state_of_run_fields [OF u]
  have old: "(case state_of c wh of None \<Rightarrow> (0, 0, 0) | Some t \<Rightarrow> (ts_facts t, ts_records t, ts_quarantined t)) =
     (int (rows_of c (fact_rows (wh_facts wh))), int (records_of c (wh_records wh)), int (issues_count c (wh_issues wh)))" for c
    using books unfolding books_balance_def by blast
  have "(case state_of c wh' of None \<Rightarrow> (0, 0, 0) | Some t \<Rightarrow> (ts_facts t, ts_records t, ts_quarantined t)) =
     (int (rows_of c (fact_rows db)), int (records_of c recs), int (issues_count c (wh_issues wh')))" for c
  proof (cases "c = cc")
    case False
    then show ?thesis using old [of c] states [of c] facts [of c] records [of c] issues [of c] by (cases "state_of c wh") auto
  next
    case True
    have f: "0 \<le> int (rows_of cc (fact_rows db))" "0 \<le> int (records_of cc recs)" by simp_all
    show ?thesis
    proof (cases "state_of cc wh")
      case None
      then show ?thesis using True old [of cc] states [of cc] facts [of cc] records [of cc] issues [of cc] su f
        by (auto simp: fresh_state_def)
    next
      case (Some t)
      then show ?thesis using True old [of cc] states [of cc] facts [of cc] records [of cc] issues [of cc] su
        by (auto simp: move_state_def)
    qed
  qed
  moreover have "keys_unique (fact_rows db)" using apply_diff_at(2) [OF a' unique] .
  moreover have "wh_facts wh' = db" "wh_records wh' = recs" by (simp_all add: wh' quarantine_def)
  ultimately show "books_balance wh'" by (simp add: books_balance_def)
qed

subsection \<open>Whatever every committed slice keeps\<close>

lemma slices_keep:
  assumes run: "\<And>w claim wh rs wh'. P wh \<Longrightarrow> consume_run env cc tz now w claim refold wh = Inr (rs, wh') \<Longrightarrow> P wh'"
    and tickets: "\<And>ts wh. P wh \<Longrightarrow> P (wh\<lparr>wh_tickets := ts\<rparr>)" and "P wh"
  shows "P (snd (consume_slices env cc tz now rows refold ws (ps, wh)))"
  using assms(3)
proof (induction ws arbitrary: ps wh)
  case (Cons w ws)
  show ?case
  proof (cases "attempt_slice env cc tz now w (if ws = [] then rows else []) refold wh")
    case (Inl err)
    then show ?thesis using Cons.prems by (auto simp: record_failure_def tickets split: option.split)
  next
    case (Inr r)
    obtain rs wh' where r: "r = (rs, wh')" by (cases r)
    then have "consume_run env cc tz now w (if ws = [] then rows else []) refold wh = Inr (rs, wh')" using Inr by (simp add: attempted)
    then have "P wh'" by (rule run [OF Cons.prems])
    then show ?thesis using Cons.IH Inr by (simp add: r Let_def)
  qed
qed simp

lemma tenant_keeps:
  assumes run: "\<And>tz w claim refold wh rs wh'. P wh \<Longrightarrow> consume_run env cc tz clock w claim refold wh = Inr (rs, wh') \<Longrightarrow> P wh'"
    and tickets: "\<And>ts wh. P wh \<Longrightarrow> P (wh\<lparr>wh_tickets := ts\<rparr>)" and "P wh"
  shows "P (snd (consume_tenant env cc clock wh))"
proof -
  have "P (snd (fold (consume_coalesced env cc tz clock) runs st))" if "P (snd st)" for tz runs st
    using that
  proof (induction runs arbitrary: st)
    case (Cons r runs)
    obtain lo hi rows ps wh where rs: "r = ((lo, hi), rows)" "st = (ps, wh)" by (metis prod.exhaust)
    have "P (snd (consume_coalesced env cc tz clock r st))"
      unfolding consume_coalesced_def rs prod.case by (rule slices_keep [where P = P]) (use Cons.prems in \<open>auto simp: rs intro: run tickets\<close>)
    then show ?case using Cons.IH by simp
  qed simp
  then show ?thesis using assms(3) by (simp add: consume_tenant_def)
qed

text \<open>How the tables come about: from none of the cycle's own rows, by passes, with everything around them changing at will.\<close>

definition own_cursor :: "cursor list \<Rightarrow> cursor option" where
  "own_cursor = find (\<lambda>c. cu_consumer c = analytics_consumer)"

inductive warehouse_of :: "fold_env \<Rightarrow> warehouse \<Rightarrow> bool" for env where
  first: "fact_rows (wh_facts wh) = [] \<Longrightarrow> ledger (wh_facts wh) = [] \<Longrightarrow> wh_records wh = [] \<Longrightarrow> wh_issues wh = [] \<Longrightarrow> wh_states wh = []
    \<Longrightarrow> warehouse_of env wh"
| pass: "warehouse_of env wh \<Longrightarrow> warehouse_of env (snd (consume_tenant env cc clock wh))"
| around: "warehouse_of env wh \<Longrightarrow> own_cursor cs = own_cursor (wh_cursors wh) \<Longrightarrow>
    warehouse_of env (wh\<lparr>wh_store := s, wh_zones := zs, wh_names := ns, wh_fields := fs, wh_rollups := rs,
      wh_metrics := ms, wh_lookups := ls, wh_values := vs, wh_cursors := cs, wh_tickets := ts\<rparr>)"

lemma warehouse_keeps:
  assumes "warehouse_of env wh"
    and none: "\<And>wh. fact_rows (wh_facts wh) = [] \<Longrightarrow> ledger (wh_facts wh) = [] \<Longrightarrow> wh_records wh = [] \<Longrightarrow> wh_issues wh = [] \<Longrightarrow> wh_states wh = [] \<Longrightarrow> P wh"
    and run: "\<And>cc tz now w claim refold wh rs wh'. P wh \<Longrightarrow> consume_run env cc tz now w claim refold wh = Inr (rs, wh') \<Longrightarrow> P wh'"
    and outside: "\<And>wh s zs ns fs rs ms ls vs cs ts. P wh \<Longrightarrow> own_cursor cs = own_cursor (wh_cursors wh) \<Longrightarrow>
      P (wh\<lparr>wh_store := s, wh_zones := zs, wh_names := ns, wh_fields := fs, wh_rollups := rs,
        wh_metrics := ms, wh_lookups := ls, wh_values := vs, wh_cursors := cs, wh_tickets := ts\<rparr>)"
  shows "P wh"
  using assms(1)
proof (induction rule: warehouse_of.induct)
  case (pass wh cc clock)
  have tickets: "P (w\<lparr>wh_tickets := ts\<rparr>)" if "P w" for w ts
  proof (cases w)
    case (fields s zs ns fs fb rc iss rs ms ls vs st cs t)
    show ?thesis using outside [OF that, where s = s and zs = zs and ns = ns and fs = fs and rs = rs and ms = ms and ls = ls and vs = vs and cs = cs and ts = ts]
      by (simp add: fields)
  qed
  show ?case by (rule tenant_keeps [where P = P]) ((erule (1) run | erule tickets | rule pass.IH)+)
qed (simp_all add: none outside)

lemma warehouse_balances: "warehouse_of env wh \<Longrightarrow> books_balance wh"
  by (erule warehouse_keeps [where P = books_balance], erule_tac [2] committed_books)
    (simp_all add: books_balance_def state_of_def keys_unique_def rows_of_def records_of_def issues_count_def)

text \<open>C40: The counters of a tenant count its rows. Whatever passes have run, over whatever source, registries and tickets,
  with whatever failures in between, the state row of a tenant says exactly how many facts, record facts and quarantined rows
  the warehouse holds for it, and a tenant with no state row has none.\<close>

theorem counters_count_the_rows:
  assumes "warehouse_of env wh"
  shows "(case state_of cc wh of None \<Rightarrow> (0, 0, 0) | Some t \<Rightarrow> (ts_facts t, ts_records t, ts_quarantined t)) =
    (int (rows_of cc (fact_rows (wh_facts wh))), int (records_of cc (wh_records wh)), int (issues_count cc (wh_issues wh)))"
  using warehouse_balances [OF assms] unfolding books_balance_def by blast

subsection \<open>The ledger\<close>

definition ledger_complete :: "warehouse \<Rightarrow> bool" where
  "ledger_complete wh \<longleftrightarrow> keys_unique (fact_rows (wh_facts wh)) \<and> replays (fact_rows (wh_facts wh)) (ledger (wh_facts wh))"

lemma committed_ledger:
  assumes run: "consume_run env cc tz now w claim refold wh = Inr (rs, wh')" and "ledger_complete wh"
  shows "ledger_complete wh'"
proof (rule committed [OF run])
  fix db folds xs recs u metrics vs seen fields names rolls rdb
  assume a: "apply_outcomes cc now (fact_diff (fi_stored (read_input (fe_sha env) cc (span_window w) wh)) (slice_facts env cc tz now w wh))
      (wh_facts wh) = Inr (folds, db)"
    and wh': "wh' = close_slice cc now (snd w) claim u (quarantine cc now (slice_issues env cc tz now w wh) (wh\<lparr>wh_names := names,
      wh_fields := fields, wh_facts := db, wh_records := recs, wh_rollups := rdb, wh_metrics := metrics, wh_values := vs\<rparr>))"
  have "fi_stored (read_input (fe_sha env) cc (span_window w) wh) =
      read_stored cc (span_window w) (suppressed_names cc (wh_names wh)) (wh_facts wh)" by (simp add: read_input_def Let_def)
  with a have "keys_unique (fact_rows db) \<and> replays (fact_rows db) (ledger db)"
    using ledger_kept [of "wh_facts wh"] assms(2) by (simp add: ledger_complete_def)
  then show "ledger_complete wh'" by (simp add: ledger_complete_def wh' quarantine_def)
qed

text \<open>The ledger holds the history of the warehouse and replays to it. Whatever passes have run, failed and been retried,
  and however the source and the registries have changed, the newest version the ledger holds for a key of a tenant is the
  row of the fact table, and there is no row exactly when there is no version or the newest one is a reversal.\<close>

theorem ledger_replays_to_the_warehouse:
  assumes "warehouse_of env wh"
  shows "map_option sf_fact (fact_at (fact_rows (wh_facts wh)) cc k) = ledger_says (ledger (wh_facts wh)) cc k"
proof -
  have "ledger_complete wh" using assms
    by (rule warehouse_keeps [where P = ledger_complete], erule_tac [2] committed_ledger)
      (simp_all add: ledger_complete_def keys_unique_def replays_def fact_at_def ledger_says_def)
  then show ?thesis unfolding ledger_complete_def replays_def by blast
qed

subsection \<open>The position for retention\<close>

definition cursor_speaks :: "warehouse \<Rightarrow> bool" where
  "cursor_speaks wh \<longleftrightarrow> (\<forall>p. retention_position (wh_states wh) = Some p \<longrightarrow>
     map_option cu_position (own_cursor (wh_cursors wh)) = Some p)"

lemma publish_speaks: "cursor_speaks (publish_retention_position now wh)"
  using reported [of analytics_consumer now _ "wh_cursors wh"]
  by (simp add: cursor_speaks_def own_cursor_def publish_retention_position_def split: option.split)

lemma committed_speaks:
  assumes "consume_run env cc tz now w claim refold wh = Inr (rs, wh')"
  shows "cursor_speaks wh'"
  by (rule committed [OF assms]) (simp add: close_slice_def Let_def publish_speaks)

lemma no_position [simp]: "retention_position [] = None"
  by (simp add: retention_position_def)

lemma retention_position_least:
  assumes "retention_position rows = Some p"
  shows "\<forall>t \<in> set rows. \<exists>f. ts_frontier t = Some f \<and> p \<le> f"
proof
  fix t assume t: "t \<in> set rows"
  have "ts_frontier t \<noteq> None" and m: "min_of (known (map ts_frontier rows)) = Some p"
    using assms t by (auto simp: retention_position_def list_ex_iff split: if_splits)
  then obtain f where f: "ts_frontier t = Some f" by blast
  then have "f \<in> set (known (map ts_frontier rows))" using t known_in [of f "map ts_frontier rows"] by force
  then have "p \<le> f" using m by (cases "known (map ts_frontier rows)") (auto simp: min_of_Min simp del: min_of.simps)
  then show "\<exists>f. ts_frontier t = Some f \<and> p \<le> f" using f by blast
qed

lemma warehouse_speaks: "warehouse_of env wh \<Longrightarrow> cursor_speaks wh"
  by (erule warehouse_keeps [where P = cursor_speaks], erule_tac [2] committed_speaks) (simp_all add: cursor_speaks_def)

lemma published_position:
  assumes "warehouse_of env wh" and "retention_position (wh_states wh) = Some p"
  shows "\<exists>c. own_cursor (wh_cursors wh) = Some c \<and> cu_position c = p"
  using warehouse_speaks [OF assms(1)] assms(2) by (auto simp: cursor_speaks_def)

text \<open>What the analytics cycle tells retention speaks for its slowest tenant. In every state the passes lead to, once each
  tenant with a state row has read something, the position published for the analytics consumer is the least of their
  frontiers, so no source row a tenant has not been past is released.\<close>

theorem published_position_is_the_slowest_frontier:
  assumes "warehouse_of env wh" and "retention_position (wh_states wh) = Some p"
  shows "(\<exists>c. own_cursor (wh_cursors wh) = Some c \<and> cu_position c = p)
    \<and> (\<forall>t \<in> set (wh_states wh). \<exists>f. ts_frontier t = Some f \<and> p \<le> f)"
  using published_position [OF assms] retention_position_least [OF assms(2)] by blast

subsection \<open>A slice and its source\<close>

lemma collected_length:
  assumes "collect f xs = Inr ys"
  shows "length ys = length xs"
proof -
  have "length ys' = length ys + length xs" if "fold_result (\<lambda>x out. andthen (f x) (\<lambda>y. Inr (out @ [y]))) xs ys = Inr ys'" for ys ys'
    using that by (induction xs arbitrary: ys) (fastforce simp: andthen_Inr)+
  then show ?thesis using assms by (fastforce simp: collect_def)
qed

lemma every_row_is_built: "length (facts_of built) + length (issues_of built) = length built"
  by (induction built) (auto simp: facts_of_def issues_of_def List.map_filter_simps split: sum.split)

text \<open>A committed slice accounts for its source. Every source row of the range becomes one fact or one quarantined row,
  the facts the tenant has in the range afterwards are those facts, with their fingerprints, and no others, and the claimed
  tickets are consumed.\<close>

theorem committed_slice_is_its_source:
  assumes "consume_run env cc tz now w claim refold wh = Inr (rs, wh')" and "sound_table (fact_rows (wh_facts wh))"
    and "sound_source (span_window w) (suppressed_names cc (wh_names wh)) (slice_facts env cc tz now w wh)"
    and "none_hidden cc (span_window w) (suppressed_names cc (wh_names wh)) (fact_rows (wh_facts wh)) (slice_facts env cc tz now w wh)"
  shows "identities (read_stored cc (span_window w) (suppressed_names cc (wh_names wh)) (wh_facts wh')) = identities (slice_facts env cc tz now w wh)
    \<and> length (slice_facts env cc tz now w wh) + length (slice_issues env cc tz now w wh) = rt_source rs
    \<and> wh_tickets wh' = map (stamp_consumed now (map wt_id claim)) (wh_tickets wh)"
proof (rule committed [OF assms(1)])
  let ?i = "read_input (fe_sha env) cc (span_window w) wh"
  fix db folds xs recs u metrics vs seen fields names rolls rdb
  assume a: "apply_outcomes cc now (fact_diff (fi_stored ?i) (slice_facts env cc tz now w wh)) (wh_facts wh) = Inr (folds, db)"
    and wh': "wh' = close_slice cc now (snd w) claim u (quarantine cc now (slice_issues env cc tz now w wh) (wh\<lparr>wh_names := names,
      wh_fields := fields, wh_facts := db, wh_records := recs, wh_rollups := rdb, wh_metrics := metrics, wh_values := vs\<rparr>))"
    and src: "rt_source rs = length (fi_source ?i)"
  have "fi_stored ?i = read_stored cc (span_window w) (suppressed_names cc (wh_names wh)) (wh_facts wh)" by (simp add: read_input_def Let_def)
  then have "identities (read_stored cc (span_window w) (suppressed_names cc (wh_names wh)) db) = identities (slice_facts env cc tz now w wh)"
    using identities_after [OF assms(2-4)] a by simp
  moreover obtain built where b: "built_for env cc tz now w wh = Inr built"
    using assms(1) by (auto simp: consume_run_def built_for_def Let_def andthen_Inr)
  have "length built = length (fi_observed ?i)" using b by (auto simp: built_for_def Let_def andthen_Inr build_rows_def dest: collected_length)
  then have "length (slice_facts env cc tz now w wh) + length (slice_issues env cc tz now w wh) = length (fi_source ?i)"
    using every_row_is_built [of built] by (simp add: slice_facts_def slice_issues_def b read_input_def Let_def)
  ultimately show ?thesis using committed_tickets [OF assms(1)] by (simp add: wh' quarantine_def src)
qed

text \<open>A source row has no column \<open>event_time\<close>, so the cycle harvests nothing from the lists of the responses. And the instants
  a fact with records marks are not truncated to their hours: the hour of such an instant is asked for only where the
  instant is that hour, and record rows written without their fact moving leave the hourly rollups as they were.\<close>

lemma source_row_untimed: "row_time (source_lk_row r) = None"
  by (simp add: row_time_def source_lk_row_def Let_def as_datetime_def)

lemma lists_are_not_harvested: "harvest_lists (map (\<lambda>r. (source_lk_row r, es r)) rows) lookups = []"
  by (simp add: harvest_lists_def harvest_list_row_def source_row_untimed comp_def)

lemma hour_of_hours: "hour_of t mod hour_us = 0"
  by (simp add: hour_of_def minus_mod_eq_mult_div)

lemma record_hour_is_missed:
  assumes "\<forall>t \<in> set hours. t mod hour_us \<noteq> 0"
  shows "hour_bucket hours r = None"
  using assms hour_of_hours by (auto simp: hour_bucket_def split: option.split)

subsection \<open>A pass at work\<close>

text \<open>One tenant with a pick whose quantity does not read, one due ticket, one that waits, and one of another tenant.\<close>

definition sample_fold_env :: fold_env where
  "sample_fold_env = \<lparr>fe_settings = \<lparr>fs_max_window = 86400, fs_max_attempts = 5, fs_backoff_base = 30, fs_backoff_cap = 1800, fs_display_zone = ''UTC''\<rparr>,
     fe_sha = (\<lambda>s. s), fe_hash64 = (\<lambda>s. 0), fe_zones = (\<lambda>z. None), fe_seed = (\<lambda>s. 1), fe_fault = (\<lambda>s. None),
     fe_message = (\<lambda>e. ''failed''), fe_jitter = (\<lambda>i. 1 / 2)\<rparr>"

definition sample_work :: "uuid \<Rightarrow> string \<Rightarrow> instant \<Rightarrow> work_ticket" where
  "sample_work i cc due = new_ticket i due \<lparr>tk_customer = cc, tk_start = 0, tk_end = 10, tk_refold = False\<rparr>"

definition sample_warehouse :: warehouse where
  "sample_warehouse = \<lparr>wh_store = empty_store\<lparr>txns := [sample_row ''many'']\<rparr>, wh_zones = [], wh_names = [], wh_fields = [],
     wh_facts = \<lparr>fact_rows = [], ledger = []\<rparr>, wh_records = [], wh_issues = [], wh_rollups = \<lparr>hourly = [], daily = [], monthly = []\<rparr>, wh_metrics = [], wh_lookups = [],
     wh_values = [], wh_states = [], wh_cursors = [],
     wh_tickets = [sample_work 1 ''acme'' 20, sample_work 2 ''other'' 20, sample_work 3 ''acme'' 500]\<rparr>"


abbreviation "sample_input \<equiv> read_input (\<lambda>s. s) ''acme'' (span_window (0, 10)) sample_warehouse"


lemma sample_quarantined: "\<exists>q. build_rows (\<lambda>s. s) offset approved sample_input = Inr [Inl q]"
proof -
  have o: "fi_observed sample_input = [(sample_row ''many'', [])]" by code_simp
  have q: "quantity_field (Some ''ConfirmPickLine'') = Some ''QuantityPicked''" "parse_quantity (VStr ''many'') = None"
    "as_text (Some ''ConfirmPickLine'') = Some ''ConfirmPickLine''" by code_simp+
  have c: "carried sample_input (sample_row ''many'') = None" by code_simp
  have s: "fst (select [] approved) = []" by (simp add: select_def)
  have "\<exists>q. normalise (\<lambda>s. s) offset [] (sample_row ''many'') = Inr (Inl q)"
    by (simp add: normalise_def sample_row_def text_column_def dict_update_def jget_def q Let_def)
  then show ?thesis by (auto simp: build_rows_def o build_row_def c s collect_def andthen_def)
qed

lemma sample_read: "fi_stored sample_input = []" "fi_expanded sample_input = []" "map row_updated (fi_source sample_input) = [1]"
    "settledness (fi_source sample_input) = Inr (Some (Fin False 0 (- 5)), None)" "isl (register_seen ''acme'' 100 sample_input sample_warehouse) = False"
  by code_simp+

lemma sample_committed:
  "\<exists>rs wh. consume_run sample_fold_env ''acme'' (Some ''UTC'') 100 (0, 10) [sample_work 1 ''acme'' 20] False sample_warehouse = Inr (rs, wh)
    \<and> map (\<lambda>t. (ts_customer t, ts_frontier t, ts_quarantined t)) (wh_states wh) = [(''acme'', Some 1, 1)]
    \<and> map wt_consumed (wh_tickets wh) = [Some 100, None, None]"
proof -
  obtain wh where r: "register_seen ''acme'' 100 sample_input sample_warehouse = Inr wh" using sample_read(5) by (cases "register_seen ''acme'' 100 sample_input sample_warehouse") auto
  then obtain fs where wh: "wh = sample_warehouse\<lparr>wh_fields := fs\<rparr>" by (auto simp: register_seen_def andthen_Inr)
  obtain q where q: "build_rows (\<lambda>s. s) (z_offset (tenant_zone sample_fold_env (Some ''UTC''))) (approved_attributes ''acme'' fs) sample_input = Inr [Inl q]"
    using sample_quarantined by blast
  have f: "fact_diff [] [] = []" by (simp add: fact_diff_def diff_def by_key_def)
  have sha: "fe_sha sample_fold_env = (\<lambda>s. s)" by (simp add: sample_fold_env_def)
  have l: "wh_lookups sample_warehouse = []" "wh_facts sample_warehouse = \<lparr>fact_rows = [], ledger = []\<rparr>" "wh_states sample_warehouse = []"
    "wh_records sample_warehouse = []" "wh_tickets sample_warehouse = [sample_work 1 ''acme'' 20, sample_work 2 ''other'' 20, sample_work 3 ''acme'' 500]"
    by (simp_all add: sample_warehouse_def)
  have fr: "register_fields ''acme'' 100 (Some ''record'') (discovered_names (fi_observed sample_input)) fs' = Inr fs'" for fs'
  proof -
    have "discovered_names (fi_observed sample_input) = []" by code_simp
    then show ?thesis by (simp add: register_fields_def new_fields_def observe_fields_def)
  qed
  have b: "fold (reverse_records ''acme'') [] (no_records, []) = (no_records, [])" by simp
  have d: "refold_buckets z None [] = ([], [], Some (changed_of []))" for z by (simp add: refold_buckets_def dirty_buckets_def sides_def)
  have x: "expand_records ''acme'' 100 ap sample_input [] [] = Inr (no_records, [])" for ap by (simp add: expand_records_def sample_read)
  have n: "record_names sample_input [] seen = seen" for seen by (simp add: record_names_def sample_read)
  have ap: "apply_outcomes ''acme'' 100 [] db = Inr (no_folds, db)" for db by (simp add: apply_outcomes_def andthen_def)
  have ro: "roll_up env ''acme'' z 100 [] no_records None w = Inr (no_rolls, w)" for env z w by (simp add: roll_up_def d no_records_def)
  have lk: "fold_lookups ''acme'' i facts w = Inr w" if "wh_lookups w = []" for i facts w
    by (simp add: fold_lookups_def load_lookups_def that andthen_def)
  have st: "state_of_run ''acme'' sample_input [] [q] no_folds no_records s = Inr \<lparr>su_folds = no_folds, su_quarantined = 1, su_records = 0,
      su_watermark = None, su_history = None, su_source = source_watermark ''acme'' s, su_frontier = Some 1, su_share = Some (Fin False 0 (- 5)), su_oldest = None\<rparr>"
    for s using sample_read(3) by (simp add: state_of_run_def sample_read andthen_def no_records_def)
  show ?thesis
    by (simp add: consume_run_def sha r wh q facts_of_def issues_of_def map_filter_def write_slice_def Let_def sample_read f apply_facts_def ap lk apply_records_def x n fr ro st andthen_def l quarantine_def close_slice_def
       update_state_def fresh_state_def refresh_counts_def sample_work_def new_ticket_def stamp_consumed_def)
qed

lemma sample_pass:
  "\<exists>rs wh. consume_tenant sample_fold_env ''acme'' 100 sample_warehouse = (no_pass\<lparr>ps_runs := 1, ps_slices := 1, ps_done := [rs]\<rparr>, wh)
    \<and> map (\<lambda>t. (ts_customer t, ts_frontier t, ts_quarantined t)) (wh_states wh) = [(''acme'', Some 1, 1)]
    \<and> map wt_consumed (wh_tickets wh) = [Some 100, None, None]"
proof -
  have c: "coalesce_pending tk_start tk_end 0 (due_for ''acme'' 100 sample_warehouse) = [((0, 10), [sample_work 1 ''acme'' 20])]"
    by (simp add: due_for_def sample_warehouse_def sample_work_def new_ticket_def ticket_due_def coalesce_pending_def pending_step_def)
  have s: "split_run 0 10 86400 = [(0, 10)]" by code_simp
  have z: "tenant_timezone sample_fold_env ''acme'' sample_warehouse = Some ''UTC''"
    by (simp add: tenant_timezone_def sample_warehouse_def sample_fold_env_def)
  have m: "fs_max_window (fe_settings sample_fold_env) = 86400" "list_ex tk_refold [sample_work 1 ''acme'' 20] = False"
    by (simp_all add: sample_fold_env_def sample_work_def new_ticket_def)
  obtain rs wh where r: "consume_run sample_fold_env ''acme'' (Some ''UTC'') 100 (0, 10) [sample_work 1 ''acme'' 20] False sample_warehouse = Inr (rs, wh)"
      "map (\<lambda>t. (ts_customer t, ts_frontier t, ts_quarantined t)) (wh_states wh) = [(''acme'', Some 1, 1)]"
      "map wt_consumed (wh_tickets wh) = [Some 100, None, None]"
    using sample_committed by (elim exE conjE)
  then have a: "attempt_slice sample_fold_env ''acme'' (Some ''UTC'') 100 (0, 10) [sample_work 1 ''acme'' 20] False sample_warehouse = Inr (rs, wh)"
    by (simp add: attempted) (simp add: sample_fold_env_def)
  have "consume_tenant sample_fold_env ''acme'' 100 sample_warehouse = (no_pass\<lparr>ps_runs := 1, ps_slices := 1, ps_done := [rs]\<rparr>, wh)"
    using a m by (simp add: consume_tenant_def c z consume_coalesced_def s Let_def no_pass_def del: One_nat_def)
  then show ?thesis using r(2,3) by (intro exI conjI)
qed

theorem every_due_analytics_ticket_is_decided_witness:
  "\<exists>f. wh_tickets (snd (consume_tenant sample_fold_env ''acme'' 100 sample_warehouse)) = map f (wh_tickets sample_warehouse)
    \<and> decided_work sample_fold_env 100 (sample_work 1 ''acme'' 20) (f (sample_work 1 ''acme'' 20))
    \<and> f (sample_work 2 ''other'' 20) = sample_work 2 ''other'' 20 \<and> f (sample_work 3 ''acme'' 500) = sample_work 3 ''acme'' 500"
proof -
  have d: "distinct (map wt_id (wh_tickets sample_warehouse))"
    by (simp add: sample_warehouse_def sample_work_def new_ticket_def)
  have m: "sample_work 1 ''acme'' 20 \<in> set (wh_tickets sample_warehouse)" "sample_work 2 ''other'' 20 \<in> set (wh_tickets sample_warehouse)"
      "sample_work 3 ''acme'' 500 \<in> set (wh_tickets sample_warehouse)"
    by (simp_all add: sample_warehouse_def)
  have due: "tk_customer (sample_work 1 ''acme'' 20) = ''acme'' \<and> ticket_due 100 (sample_work 1 ''acme'' 20)" "tk_customer (sample_work 2 ''other'' 20) \<noteq> ''acme''"
      "\<not> ticket_due 100 (sample_work 3 ''acme'' 500)"
    by (simp_all add: sample_work_def new_ticket_def ticket_due_def)
  obtain f where f: "wh_tickets (snd (consume_tenant sample_fold_env ''acme'' 100 sample_warehouse)) = map f (wh_tickets sample_warehouse)"
    and all: "\<forall>t \<in> set (wh_tickets sample_warehouse). if tk_customer t = ''acme'' \<and> ticket_due 100 t then decided_work sample_fold_env 100 t (f t) else f t = t"
    using every_due_analytics_ticket_is_decided [OF d, of sample_fold_env "''acme''" 100] by blast
  then show ?thesis using bspec [OF all m(1)] bspec [OF all m(2)] bspec [OF all m(3)] due by auto
qed

lemma sample_reached: "warehouse_of sample_fold_env (snd (consume_tenant sample_fold_env ''acme'' 100 sample_warehouse))"
  by (rule pass, rule first) (simp_all add: sample_warehouse_def)

theorem counters_count_the_rows_witness:
  "map ts_quarantined (wh_states (snd (consume_tenant sample_fold_env ''acme'' 100 sample_warehouse))) = [1]
    \<and> issues_count ''acme'' (wh_issues (snd (consume_tenant sample_fold_env ''acme'' 100 sample_warehouse))) = 1"
proof -
  obtain t where t: "wh_states (snd (consume_tenant sample_fold_env ''acme'' 100 sample_warehouse)) = [t]" "ts_customer t = ''acme''" "ts_quarantined t = 1"
    using sample_pass by auto
  then have "state_of ''acme'' (snd (consume_tenant sample_fold_env ''acme'' 100 sample_warehouse)) = Some t" by (simp add: state_of_def)
  then show ?thesis using counters_count_the_rows [OF sample_reached, of "''acme''"] t by simp
qed

theorem ledger_replays_to_the_warehouse_witness:
  "map_option sf_fact (fact_at (fact_rows (wh_facts (snd (consume_tenant sample_fold_env ''acme'' 100 sample_warehouse)))) ''acme'' (''x'', Some 5)) =
    ledger_says (ledger (wh_facts (snd (consume_tenant sample_fold_env ''acme'' 100 sample_warehouse)))) ''acme'' (''x'', Some 5)"
  by (rule ledger_replays_to_the_warehouse [OF sample_reached])

theorem published_position_is_the_slowest_frontier_witness:
  "\<exists>c. own_cursor (wh_cursors (snd (consume_tenant sample_fold_env ''acme'' 100 sample_warehouse))) = Some c \<and> cu_position c = 1"
proof -
  obtain t where "wh_states (snd (consume_tenant sample_fold_env ''acme'' 100 sample_warehouse)) = [t]" "ts_frontier t = Some 1" using sample_pass by auto
  then have "retention_position (wh_states (snd (consume_tenant sample_fold_env ''acme'' 100 sample_warehouse))) = Some 1"
    by (simp add: retention_position_def)
  from published_position_is_the_slowest_frontier [OF sample_reached this] show ?thesis by blast
qed

theorem committed_slice_is_its_source_witness:
  "\<exists>rs wh. consume_run sample_fold_env ''acme'' (Some ''UTC'') 100 (0, 10) [sample_work 1 ''acme'' 20] False sample_warehouse = Inr (rs, wh)
    \<and> identities (read_stored ''acme'' (span_window (0, 10)) (suppressed_names ''acme'' (wh_names sample_warehouse)) (wh_facts wh)) = {}
    \<and> length (slice_issues sample_fold_env ''acme'' (Some ''UTC'') 100 (0, 10) sample_warehouse) = rt_source rs"
proof -
  obtain rs wh where r: "consume_run sample_fold_env ''acme'' (Some ''UTC'') 100 (0, 10) [sample_work 1 ''acme'' 20] False sample_warehouse = Inr (rs, wh)"
    using sample_committed by (elim exE conjE)
  have sha: "fe_sha sample_fold_env = (\<lambda>s. s)" by (simp add: sample_fold_env_def)
  obtain wh1 where "register_seen ''acme'' 100 sample_input sample_warehouse = Inr wh1"
    using sample_read(5) by (cases "register_seen ''acme'' 100 sample_input sample_warehouse") auto
  moreover obtain q where "build_rows (\<lambda>s. s) (z_offset (tenant_zone sample_fold_env (Some ''UTC''))) (approved_attributes ''acme'' (wh_fields wh1)) sample_input = Inr [Inl q]"
    using sample_quarantined by blast
  ultimately have "built_for sample_fold_env ''acme'' (Some ''UTC'') 100 (0, 10) sample_warehouse = Inr [Inl q]"
    by (simp add: built_for_def sha andthen_def)
  then have none: "slice_facts sample_fold_env ''acme'' (Some ''UTC'') 100 (0, 10) sample_warehouse = []"
    by (simp add: slice_facts_def facts_of_def map_filter_def)
  have "sound_table (fact_rows (wh_facts sample_warehouse))"
    by (simp add: sample_warehouse_def sound_table_def keys_unique_def)
  from committed_slice_is_its_source [OF r this] r none show ?thesis
    by (auto simp: sound_source_def none_hidden_def identities_def)
qed

end
