(* ===== verification/RetentionProperties.thy ===== *)
theory RetentionProperties
  imports Retention PartitionProperties ConsumeProperties
begin

text \<open>
  What retention may destroy and what it must leave: a partition goes only when its policy lets it, Stage 2 has written it,
  every live reader has passed it and no broken tenant needs it, and a cycle without errors leaves every table provisioned
  for the days to come.
\<close>

subsection \<open>The holds\<close>

lemma collected:
  assumes "collect f xs = Inr ys"
  shows "list_all2 (\<lambda>x y. f x = Inr y) xs ys"
proof -
  have "\<exists>zs. ys' = ys @ zs \<and> list_all2 (\<lambda>x y. f x = Inr y) xs zs"
    if "fold_result (\<lambda>x out. andthen (f x) (\<lambda>y. Inr (out @ [y]))) xs ys = Inr ys'" for ys ys'
    using that
  proof (induction xs arbitrary: ys)
    case (Cons x xs)
    then obtain y where y: "f x = Inr y" "fold_result (\<lambda>x out. andthen (f x) (\<lambda>y. Inr (out @ [y]))) xs (ys @ [y]) = Inr ys'"
      by (auto simp: andthen_Inr)
    from Cons.IH [OF this(2)] obtain zs where "ys' = ys @ y # zs" "list_all2 (\<lambda>x y. f x = Inr y) xs zs" by auto
    then show ?case using y(1) by (intro exI [of _ "y # zs"]) simp
  qed simp
  then show ?thesis using assms by (fastforce simp: collect_def)
qed

lemma collected_zip:
  assumes "collect f xs = Inr ys" and "x \<in> set xs" and "f x = Inr y"
  shows "(x, y) \<in> set (zip xs ys)"
proof -
  have all: "list_all2 (\<lambda>x y. f x = Inr y) xs ys" by (rule collected [OF assms(1)])
  obtain i where i: "i < length xs" "xs ! i = x" using assms(2) by (auto simp: in_set_conv_nth)
  then have "ys ! i = y" "i < length ys" using all assms(3) by (auto simp: list_all2_conv_all_nth)
  then show ?thesis using i by (auto simp: set_zip)
qed

lemma bounds_of:
  "period_bounds (table, start) = Inr (lo, hi) \<longleftrightarrow>
    (\<exists>g. grain_of table = Inr g \<and> lo = day_start (period_start g start) \<and> hi = day_start (next_period_start g start))"
  by (auto simp: period_bounds_def andthen_def Let_def split: sum.splits)

text \<open>The one read over all candidates finds every window that overlaps one of them.\<close>

lemma windows_read_enough:
  assumes "b \<in> set bounds" and "q \<in> set (queue s)" and "window_open q" and "overlaps b (q_start q) (q_end q)"
  shows "q \<in> set (windows_read bounds s)"
proof -
  obtain x xs where f: "map fst bounds = x # xs" using assms(1) by (cases bounds) auto
  obtain y ys where l: "map snd bounds = y # ys" using assms(1) by (cases bounds) auto
  have lo: "min_of (map fst bounds) = Some (Min (set (map fst bounds)))" unfolding f by (rule min_of_Min)
  have hi: "max_of (map snd bounds) = Some (Max (set (map snd bounds)))" unfolding l by (simp only: max_of.simps Max.set_eq_fold)
  have "Min (set (map fst bounds)) \<le> fst b" "snd b \<le> Max (set (map snd bounds))" using assms(1) by (auto intro: Min_le Max_ge)
  then show ?thesis using assms(2-4) unfolding windows_read_def lo hi by (simp add: overlaps_def)
qed

lemma pending_holds:
  assumes "periods_blocked_by_pending env wh periods c = (Inr kept, c')" and "p \<in> set periods" and "p \<notin> set kept"
    and "period_bounds p = Inr b" and "q \<in> set (queue (wh_store wh))" and "window_open q"
  shows "\<not> overlaps b (q_start q) (q_end q)"
proof
  assume o: "overlaps b (q_start q) (q_end q)"
  have "periods \<noteq> []" using assms(2) by auto
  then have "then_do (raising env (collect period_bounds periods)) (\<lambda>bounds.
       then_do (ask env Open_windows (\<lambda>ps. (windows_read bounds (wh_store wh), ps))) (\<lambda>rows.
         give (map fst (filter (\<lambda>(p, b). list_ex (\<lambda>q. overlaps b (q_start q) (q_end q)) rows) (zip periods bounds))))) c = (Inr kept, c')"
    using assms(1) by (simp add: periods_blocked_by_pending_def)
  then show False
  proof (cases rule: then_doE)
    case (2 bounds c1)
    then have bs: "collect period_bounds periods = Inr bounds" by (auto simp: raising_def split: sum.splits)
    note z = collected_zip [OF bs assms(2,4)]
    from 2(2) show False
    proof (cases rule: then_doE)
      case (2 rows c2)
      then have "rows = windows_read bounds (wh_store wh)" by (auto elim: askE)
      moreover have "q \<in> set (windows_read bounds (wh_store wh))"
        using windows_read_enough [OF _ assms(5,6) o] z by (auto dest: set_zip_rightD)
      ultimately show False using 2(2) z o assms(3) by (force simp: give_def list_ex_iff)
    qed simp
  qed simp
qed

lemma consumers_hold:
  assumes "periods_blocked_by_consumers env st now wh periods c = (Inr kept, c')" and "p \<in> set periods" and "p \<notin> set kept"
    and "period_bounds p = Inr b" and "r \<in> set (wh_cursors wh)" and "is_live (rs_stale_after st) now (cu_updated r)"
  shows "snd b \<le> cu_position r"
proof (rule ccontr)
  assume o: "\<not> snd b \<le> cu_position r"
  let ?low = "fst (min_live_position (rs_stale_after st) now (wh_cursors wh))"
  have blocked: "blocks_until (snd b) ?low" unfolding blocked_by_a_live_reader using assms(5,6) o by auto
  have "periods \<noteq> []" using assms(2) by auto
  then have "then_do (ask env Live_cursors (\<lambda>ps. (?low, ps))) (\<lambda>low.
       then_do (raising env (collect period_bounds periods)) (\<lambda>bounds.
         give (map fst (filter (\<lambda>(p, b). blocks_until (snd b) low) (zip periods bounds))))) c = (Inr kept, c')"
    using assms(1) by (simp add: periods_blocked_by_consumers_def)
  then show False
  proof (cases rule: then_doE)
    case (2 low c1)
    then have low: "low = ?low" by (auto elim: askE)
    from 2(2) show False
    proof (cases rule: then_doE)
      case (2 bounds c2)
      then have bs: "collect period_bounds periods = Inr bounds" by (auto simp: raising_def split: sum.splits)
      show False using 2(2) collected_zip [OF bs assms(2,4)] blocked assms(3) by (force simp: give_def low)
    qed simp
  qed simp
qed

lemma health_holds:
  assumes "periods_blocked_by_analytics env st now wh periods c = (Inr kept, c')" and "p \<in> set periods" and "p \<notin> set kept"
    and "rs_gate st" and "fst p \<in> set HEALTH_GATED"
  shows "\<not> ah_holding (analytics_health_of st now wh)"
proof -
  have "filter (\<lambda>p. fst p \<in> set HEALTH_GATED) periods \<noteq> []" "periods \<noteq> []" using assms(2,5) by (auto simp: filter_empty_conv)
  then show ?thesis using assms
    by (cases "ask env Tenant_health (\<lambda>ps. (analytics_health_of st now wh, ps)) c")
      (auto simp: periods_blocked_by_analytics_def Let_def elim!: askE split: sum.splits if_splits)
qed

text \<open>What a partition must be to go: out of policy, and wanted by no writer, no reader and no repair.\<close>

definition out_of_policy :: "retention_settings \<Rightarrow> int \<Rightarrow> partition \<Rightarrow> bool" where
  "out_of_policy st today p \<longleftrightarrow> (\<exists>n. retention_days_for st (pa_table p) = Some n \<and> pa_to p - 1 < today - n)"

definition unwanted :: "retention_settings \<Rightarrow> instant \<Rightarrow> warehouse \<Rightarrow> partition \<Rightarrow> bool" where
  "unwanted st now wh p \<longleftrightarrow>
     (\<forall>q \<in> set (queue (wh_store wh)). window_open q \<longrightarrow> \<not> (q_start q < day_start (pa_to p) \<and> day_start (pa_from p) \<le> q_end q))
     \<and> (\<forall>r \<in> set (wh_cursors wh). is_live (rs_stale_after st) now (cu_updated r) \<longrightarrow> day_start (pa_to p) \<le> cu_position r)
     \<and> (rs_gate st \<and> pa_table p \<in> set HEALTH_GATED \<longrightarrow> \<not> ah_holding (analytics_health_of st now wh))"

lemma unblocked_is_unwanted:
  assumes "periods_blocked env st now wh periods c = (Inr kept, c')" and "(pa_table p, pa_from p) \<in> set periods"
    and "(pa_table p, pa_from p) \<notin> set kept" and "well_named p"
  shows "unwanted st now wh p"
proof -
  obtain t where t: "t \<in> set PARTITIONED" "pa_table p = pt_table t" "period_start (pt_grain t) (pa_from p) = pa_from p"
      "pa_to p = next_period_start (pt_grain t) (pa_from p)"
    using assms(4) by (auto simp: well_named_def)
  have b: "period_bounds (pa_table p, pa_from p) = Inr (day_start (pa_from p), day_start (pa_to p))"
    unfolding bounds_of using registered(1) [OF t(1)] t by auto
  from assms(1) obtain k1 c1 where a: "periods_blocked_by_pending env wh periods c = (Inr k1, c1)"
    and rest: "then_do (periods_blocked_by_consumers env st now wh periods) (\<lambda>b.
      then_do (periods_blocked_by_analytics env st now wh periods) (\<lambda>d. give (k1 @ b @ d))) c1 = (Inr kept, c')"
    unfolding periods_blocked_def by (cases rule: then_doE) auto
  from rest obtain k2 c2 where bb: "periods_blocked_by_consumers env st now wh periods c1 = (Inr k2, c2)"
    and rest2: "then_do (periods_blocked_by_analytics env st now wh periods) (\<lambda>d. give (k1 @ k2 @ d)) c2 = (Inr kept, c')"
    by (cases rule: then_doE) auto
  from rest2 obtain k3 c3 where d: "periods_blocked_by_analytics env st now wh periods c2 = (Inr k3, c3)" and k: "kept = k1 @ k2 @ k3"
    by (cases rule: then_doE) (auto simp: give_def)
  have out: "(pa_table p, pa_from p) \<notin> set k1" "(pa_table p, pa_from p) \<notin> set k2" "(pa_table p, pa_from p) \<notin> set k3"
    using assms(3) by (simp_all add: k)
  show ?thesis
    unfolding unwanted_def
    using pending_holds [OF a assms(2) out(1) b] consumers_hold [OF bb assms(2) out(2) b] health_holds [OF d assms(2) out(3)] by (auto simp: overlaps_def)
qed

subsection \<open>The candidates\<close>

lemma each_do_result:
  assumes "each_do f xs s c = (Inr s', c')" and "P s c"
    and "\<And>x s c s' c'. x \<in> set xs \<Longrightarrow> P s c \<Longrightarrow> f x s c = (Inr s', c') \<Longrightarrow> P s' c'"
  shows "P s' c'"
  using assms
proof (induction xs arbitrary: s c)
  case (Cons x xs)
  from Cons.prems(1) have "then_do (f x s) (each_do f xs) c = (Inr s', c')" by simp
  then obtain s1 c1 where f: "f x s c = (Inr s1, c1)" "each_do f xs s1 c1 = (Inr s', c')" by (cases rule: then_doE) auto
  have "P s1 c1" using Cons.prems(3) [OF _ Cons.prems(2) f(1)] by simp
  from Cons.IH [OF f(2) this] Cons.prems(3) show ?case by (meson list.set_intros(2))
qed (simp add: give_def)

definition candidates_of :: "retention_settings \<Rightarrow> int \<Rightarrow> partition list \<Rightarrow> (string \<times> int list) list \<Rightarrow> bool" where
  "candidates_of st today ps out \<longleftrightarrow>
     (\<forall>(table, starts) \<in> set out. \<exists>t \<in> set PARTITIONED. table = pt_table t \<and> droppable_days st table (covered_starts table ps) today = Inr starts)"

lemma ask_reads: "ask env q (\<lambda>ps. (f ps, ps)) c = (r, c') \<Longrightarrow> ca_parts c' = ca_parts c \<and> (\<forall>x. r = Inr x \<longrightarrow> x = f (ca_parts c))"
  by (auto elim: askE)

text \<open>Transactions that only read.\<close>

definition reads_only :: "'a txn \<Rightarrow> bool" where
  "reads_only m \<longleftrightarrow> (\<forall>c r c'. m c = (r, c') \<longrightarrow> ca_parts c' = ca_parts c)"

lemma reads:
  "reads_only (give x)" "reads_only (raising env y)" "reads_only (ask env q (\<lambda>ps. (f ps, ps)))"
  by (auto simp: reads_only_def give_def raising_def dest: ask_reads split: sum.splits)

lemma then_reads: "reads_only m \<Longrightarrow> (\<And>x. reads_only (f x)) \<Longrightarrow> reads_only (then_do m f)"
  by (auto simp: reads_only_def elim!: then_doE)

lemma covered_reads: "covered_days env table c = (r, c') \<Longrightarrow> ca_parts c' = ca_parts c \<and> (\<forall>x. r = Inr x \<longrightarrow> x = covered_starts table (ca_parts c))"
  unfolding covered_days_def by (rule ask_reads)

lemma one_candidate:
  assumes "then_do (covered_days env (pt_table t)) (\<lambda>covered.
       then_do (raising env (droppable_days st (pt_table t) covered today)) (\<lambda>starts. give (out @ [(pt_table t, starts)]))) c = (r, c')"
  shows "ca_parts c' = ca_parts c \<and> (\<forall>out'. r = Inr out' \<longrightarrow> (\<exists>starts. out' = out @ [(pt_table t, starts)]
    \<and> droppable_days st (pt_table t) (covered_starts (pt_table t) (ca_parts c)) today = Inr starts))"
  using assms
proof (cases rule: then_doE)
  case (2 covered c1)
  have c1: "ca_parts c1 = ca_parts c" "covered = covered_starts (pt_table t) (ca_parts c)" using covered_reads [OF 2(1)] by auto
  from 2(2) show ?thesis
    by (cases rule: then_doE) (use c1 in \<open>auto simp: raising_def give_def split: sum.splits\<close>)
qed (auto dest: covered_reads)

lemma expired_candidates_effect:
  assumes "expired_candidates env st today c = (r, c')"
  shows "ca_parts c' = ca_parts c \<and> (\<forall>out. r = Inr out \<longrightarrow> candidates_of st today (ca_parts c) out)"
proof
  note run = assms [unfolded expired_candidates_def]
  show "ca_parts c' = ca_parts c"
    by (rule each_do_keeps [where P = "\<lambda>x. ca_parts x = ca_parts c", OF run refl]) (auto dest!: one_candidate)
  show "\<forall>out. r = Inr out \<longrightarrow> candidates_of st today (ca_parts c) out"
  proof (intro allI impI)
    fix out assume r: "r = Inr out"
    have "candidates_of st today (ca_parts c) out \<and> ca_parts c' = ca_parts c"
      by (rule each_do_result [where P = "\<lambda>out x. candidates_of st today (ca_parts c) out \<and> ca_parts x = ca_parts c", OF run [unfolded r]])
        (fastforce simp: candidates_of_def dest!: one_candidate)+
    then show "candidates_of st today (ca_parts c) out" by blast
  qed
qed

lemma candidate_is_out_of_policy:
  assumes "candidates_of st today ps out" and "(pa_table p, pa_from p) \<in> set (candidate_periods out)" and "well_named p"
  shows "out_of_policy st today p"
proof -
  obtain starts where s: "(pa_table p, starts) \<in> set out" "pa_from p \<in> set starts" using assms(2) by (auto simp: candidate_periods_def)
  then obtain t where t: "t \<in> set PARTITIONED" "pa_table p = pt_table t"
      "droppable_days st (pa_table p) (covered_starts (pa_table p) ps) today = Inr starts"
    using assms(1) by (fastforce simp: candidates_of_def)
  obtain t' where t': "t' \<in> set PARTITIONED" "pa_table p = pt_table t'" "pa_to p = next_period_start (pt_grain t') (pa_from p)"
    using assms(3) by (auto simp: well_named_def)
  have "t' = t" using registered(2) [OF t(1)] registered(2) [OF t'(1)] t(2) t'(2) by simp
  then show ?thesis using t s(2) t'(3) registered(1) [OF t(1)]
    by (auto simp: droppable_days_def out_of_policy_def expired_days_def period_end_def andthen_def split: option.splits)
qed

lemma candidate_is_covered:
  assumes "candidates_of st today ps out" and "x \<in> set (candidate_periods out)"
  shows "\<exists>q \<in> set ps. pa_table q = fst x \<and> pa_from q = snd x"
proof -
  obtain starts where s: "(fst x, starts) \<in> set out" "snd x \<in> set starts" using assms(2) by (auto simp: candidate_periods_def)
  then have "\<exists>t \<in> set PARTITIONED. fst x = pt_table t \<and> droppable_days st (fst x) (covered_starts (fst x) ps) today = Inr starts"
    using assms(1) by (fastforce simp: candidates_of_def)
  then have "snd x \<in> set (covered_starts (fst x) ps)" using s(2)
    by (auto simp: droppable_days_def expired_days_def andthen_def split: option.splits sum.splits)
  then show ?thesis by (auto simp: covered_starts_def)
qed

subsection \<open>Dropping\<close>

lemma drop_one_effect:
  assumes "drop_one env blocked x names c = (r, c')"
  shows "ca_parts c' = ca_parts c \<or> x \<notin> set blocked \<and> (\<exists>name. partition_name (fst x) (snd x) = Inr name
    \<and> ca_parts c' = filter (\<lambda>q. pa_name q \<noteq> name) (ca_parts c))"
proof (cases "x \<in> set blocked")
  case True
  then show ?thesis using assms by (simp add: drop_one_def give_def)
next
  case False
  then have "then_do (raising env (drop_partition_sql (fst x) (snd x))) (\<lambda>sql.
           then_do (raising env (partition_name (fst x) (snd x))) (\<lambda>name.
           then_do (ask env (Statement sql) (\<lambda>ps. ((), filter (\<lambda>q. pa_name q \<noteq> name) ps))) (\<lambda>_. give (names @ [name])))) c = (r, c')"
    using assms by (simp add: drop_one_def)
  then show ?thesis
  proof (cases rule: then_doE)
    case (2 sql c1)
    then have c1: "c1 = c" by (auto simp: raising_def split: sum.splits)
    from 2(2) show ?thesis
    proof (cases rule: then_doE)
      case (2 name c2)
      then have c2: "c2 = c" "partition_name (fst x) (snd x) = Inr name" using c1 by (auto simp: raising_def split: sum.splits)
      from 2(2) show ?thesis
        by (cases rule: then_doE) (use c2 False in \<open>auto elim!: askE simp: give_def\<close>)
    qed (use c1 in \<open>auto simp: raising_def split: sum.splits\<close>)
  qed (auto simp: raising_def split: sum.splits)
qed

lemma drop_each_effect:
  assumes "drop_each env candidates blocked c = (r, c')" and "sound_catalog (ca_parts c)"
  shows "sound_catalog (ca_parts c') \<and> set (ca_parts c') \<subseteq> set (ca_parts c) \<and> (\<forall>p \<in> set (ca_parts c) - set (ca_parts c').
    \<exists>x \<in> set (candidate_periods candidates) - set blocked. partition_name (fst x) (snd x) = Inr (pa_name p))"
    (is "?P c'")
proof (rule each_do_keeps [where P = ?P, OF assms(1) [unfolded drop_each_def]])
  fix x names c1 r c2
  assume x: "x \<in> set (candidate_periods candidates)" and p: "?P c1" and run: "drop_one env blocked x names c1 = (r, c2)"
  from drop_one_effect [OF run] show "?P c2"
  proof
    assume "x \<notin> set blocked \<and> (\<exists>name. partition_name (fst x) (snd x) = Inr name \<and> ca_parts c2 = filter (\<lambda>q. pa_name q \<noteq> name) (ca_parts c1))"
    then obtain name where n: "x \<notin> set blocked" "partition_name (fst x) (snd x) = Inr name" "ca_parts c2 = filter (\<lambda>q. pa_name q \<noteq> name) (ca_parts c1)" by blast
    then have "sound_catalog (ca_parts c2)" using p by (auto simp: sound_catalog_def list_all_iff distinct_map_filter)
    then show ?thesis using p x n by auto
  qed (use p in simp)
qed (use assms(2) in simp)

lemma blocked_reads: "reads_only (periods_blocked env st now wh periods)"
proof -
  have a: "reads_only (periods_blocked_by_pending env wh periods)"
    unfolding periods_blocked_by_pending_def by (auto intro!: reads then_reads)
  have b: "reads_only (periods_blocked_by_consumers env st now wh periods)"
    unfolding periods_blocked_by_consumers_def by (auto intro!: reads then_reads)
  have "ask env Tenant_health (\<lambda>ps. (analytics_health_of st now wh, ps)) c = (r, c') \<Longrightarrow> ca_parts c' = ca_parts c" for r c c'
    using reads(3) [of env Tenant_health "\<lambda>ps. analytics_health_of st now wh"] by (auto simp: reads_only_def)
  then have "reads_only (periods_blocked_by_analytics env st now wh periods)"
    by (auto simp: reads_only_def periods_blocked_by_analytics_def Let_def split: prod.splits sum.splits)
  then show ?thesis unfolding periods_blocked_def by (intro reads then_reads a b)
qed

lemma drop_expired_effect:
  assumes "drop_expired env st now wh today c = (r, c')" and sound: "sound_catalog (ca_parts c)"
  shows "sound_catalog (ca_parts c') \<and> set (ca_parts c') \<subseteq> set (ca_parts c)
    \<and> (\<forall>p \<in> set (ca_parts c) - set (ca_parts c'). out_of_policy st today p \<and> unwanted st now wh p)"
  using assms(1) unfolding drop_expired_def
proof (cases rule: then_doE)
  case (1 e)
  then show ?thesis using expired_candidates_effect [OF 1(1)] sound by simp
next
  case (2 cands c1)
  note e = expired_candidates_effect [OF 2(1)]
  from 2(2) show ?thesis
  proof (cases rule: then_doE)
    case (1 e)
    then have "ca_parts c' = ca_parts c1" using blocked_reads by (auto simp: reads_only_def)
    then show ?thesis using e sound by simp
  next
    case (2 blocked c2)
    have c2: "ca_parts c2 = ca_parts c" using 2(1) blocked_reads e by (fastforce simp: reads_only_def)
    note d = drop_each_effect [OF 2(2)]
    have "out_of_policy st today p \<and> unwanted st now wh p" if p: "p \<in> set (ca_parts c) - set (ca_parts c')" for p
    proof -
      obtain x where x: "x \<in> set (candidate_periods cands) - set blocked" "partition_name (fst x) (snd x) = Inr (pa_name p)"
        using d p unfolding c2 using sound by blast
      have w: "well_named p" using p sound by (auto simp: sound_catalog_def list_all_iff)
      then obtain t where t: "t \<in> set PARTITIONED" "pa_table p = pt_table t" "period_start (pt_grain t) (pa_from p) = pa_from p"
          "partition_name (pa_table p) (pa_from p) = Inr (pa_name p)"
        by (auto simp: well_named_def)
      obtain g where g: "fst x = pa_table p" "grain_of (fst x) = Inr g" "period_start g (snd x) = period_start g (pa_from p)"
        using partition_names_tell [OF x(2) t(4)] by blast
      have "candidates_of st today (ca_parts c) cands" using e by simp
      then obtain q where q: "q \<in> set (ca_parts c)" "pa_table q = fst x" "pa_from q = snd x"
        using candidate_is_covered x(1) by (metis DiffD1)
      then obtain t' where t': "t' \<in> set PARTITIONED" "pa_table q = pt_table t'" "period_start (pt_grain t') (pa_from q) = pa_from q"
        using sound by (auto simp: sound_catalog_def list_all_iff well_named_def)
      have "pt_table t' = pt_table t" "grain_of (pt_table t) = Inr g" using t(2) t'(2) q(2) g(1,2) by simp_all
      then have "t' = t" "g = pt_grain t" using registered [OF t(1)] registered [OF t'(1)] by simp_all
      then have "snd x = pa_from p" using t(3) t'(3) q(3) g(3) by simp
      then have "(pa_table p, pa_from p) \<in> set (candidate_periods cands)" "(pa_table p, pa_from p) \<notin> set blocked"
        using x(1) g(1) by (metis DiffD1 prod.collapse, metis DiffD2 prod.collapse)
      then show ?thesis
        using candidate_is_out_of_policy [OF _ _ w] unblocked_is_unwanted [OF 2(1) _ _ w] e by auto
    qed
    then show ?thesis using d c2 sound by auto
  qed
qed

lemma create_runway_effect:
  assumes "create_runway env st today c = (r, c')" and "sound_catalog (ca_parts c)"
  shows "sound_catalog (ca_parts c') \<and> set (ca_parts c) \<subseteq> set (ca_parts c')
    \<and> (\<forall>k. r = Inr k \<longrightarrow> (\<forall>t \<in> set PARTITIONED. \<forall>d. today \<le> d \<and> d \<le> today + rs_precreate st \<longrightarrow>
         has_period t (period_start (pt_grain t) d) (ca_parts c')))"
  using assms(1) unfolding create_runway_def
proof (cases rule: then_doE)
  case (1 e)
  then show ?thesis using assms(2) by (auto simp: raising_def split: sum.splits)
next
  case (2 days c1)
  then have "c1 = c" "days = [today..today + rs_precreate st]"
    by (auto simp: raising_def coverage_days_def days_between_def split: sum.splits if_splits)
  then show ?thesis using ensure_coverage_effect [OF assms(2)] 2(2) by auto
qed

lemma dropped_was_released:
  assumes "sound_catalog ps" and "extend_and_drop env st now wh today ps = (out, ps')"
  shows "sound_catalog ps' \<and> (\<forall>p \<in> set ps - set ps'. out_of_policy st today p \<and> unwanted st now wh p)"
proof -
  obtain r1 c1 where c1: "create_runway env st today \<lparr>ca_parts = ps, ca_aborted = False\<rparr> = (r1, c1)" by fastforce
  obtain r2 c2 where c2: "drop_expired env st now wh today c1 = (r2, c2)" by fastforce
  have ps': "ps' = (if ca_aborted c2 then ps else ca_parts c2)" using assms(2) by (simp add: extend_and_drop_def c1 c2)
  have a: "sound_catalog (ca_parts c1)" "set ps \<subseteq> set (ca_parts c1)" using create_runway_effect [OF c1] assms(1) by auto
  show ?thesis using drop_expired_effect [OF c2 a(1)] a(2) assms(1) by (auto simp: ps')
qed

text \<open>C38: Retention destroys nothing that is still needed. A partition that a cycle makes disappear belongs to a table that has
  a retention at all, its last day is past it, no open stitch window touches its span, every consumer that still reports has
  passed its end, and, where it holds source rows and the gate is on, no tenant's analytics are broken. Whatever the
  database refuses in between, nothing else is lost, and no two partitions of a table come to overlap.\<close>

theorem dropped_partition_was_released:
  assumes "sound_catalog ps" and "extend_and_drop env st now wh today ps = (out, ps')"
  shows "sound_catalog ps' \<and> (\<forall>p \<in> set ps - set ps'. out_of_policy st today p \<and> unwanted st now wh p)"
  by (rule dropped_was_released [OF assms])

text \<open>No source is destroyed before the analytics of every tenant have read it. While the analytics cycle still reports,
  and every tenant with a state has read something, a partition that disappears ends before the frontier of each of them.\<close>

theorem dropped_partition_was_folded:
  assumes "warehouse_of fenv wh" and "retention_position (wh_states wh) = Some m"
    and "own_cursor (wh_cursors wh) = Some c" and "is_live (rs_stale_after st) now (cu_updated c)"
    and "sound_catalog ps" and "extend_and_drop env st now wh today ps = (out, ps')"
  shows "\<forall>p \<in> set ps - set ps'. \<forall>t \<in> set (wh_states wh). \<exists>f. ts_frontier t = Some f \<and> day_start (pa_to p) \<le> f"
proof (intro ballI)
  fix p t assume p: "p \<in> set ps - set ps'" and t: "t \<in> set (wh_states wh)"
  have "c \<in> set (wh_cursors wh)" using assms(3) by (auto simp: own_cursor_def find_Some_iff)
  then have "day_start (pa_to p) \<le> cu_position c" using dropped_was_released [OF assms(5,6)] p assms(4) by (auto simp: unwanted_def)
  moreover have "cu_position c = m" using published_position [OF assms(1,2)] assms(3) by simp
  ultimately show "\<exists>f. ts_frontier t = Some f \<and> day_start (pa_to p) \<le> f"
    using retention_position_least [OF assms(2)] t by (meson order_trans)
qed

subsection \<open>The runway\<close>

text \<open>Transactions that succeed only while the database refuses nothing.\<close>

definition careful :: "'a txn \<Rightarrow> bool" where
  "careful m \<longleftrightarrow> (\<forall>c x c'. m c = (Inr x, c') \<longrightarrow> ca_aborted c' = ca_aborted c)"

lemma careful_basics: "careful (give x)" "careful (raising env y)" "careful (ask env q f)"
  by (auto simp: careful_def give_def raising_def split: sum.splits elim!: askE)

lemma careful_then: "careful m \<Longrightarrow> (\<And>x. careful (f x)) \<Longrightarrow> careful (then_do m f)"
  by (auto simp: careful_def elim!: then_doE)

lemma careful_each: "(\<And>x s. careful (f x s)) \<Longrightarrow> careful (each_do f xs s)"
  by (induction xs arbitrary: s) (auto intro: careful_basics careful_then)

lemmas careful_steps = careful_basics careful_then careful_each

lemma runway_careful: "careful (create_runway env st today)"
  unfolding create_runway_def ensure_coverage_def ensure_table_def ensure_period_def by (auto intro!: careful_steps)

lemma health_careful:
  assumes "db_refuses env Tenant_health = None"
  shows "careful (periods_blocked_by_analytics env st now wh periods)"
  unfolding careful_def
proof (intro allI impI)
  fix c x c' assume "periods_blocked_by_analytics env st now wh periods c = (Inr x, c')"
  then show "ca_aborted c' = ca_aborted c"
    by (cases "ca_aborted c") (auto simp: periods_blocked_by_analytics_def Let_def ask_def assms split: if_splits)
qed

lemma drop_careful:
  assumes "db_refuses env Tenant_health = None"
  shows "careful (drop_expired env st now wh today)"
proof -
  have "careful (periods_blocked env st now wh periods)" for periods
    unfolding periods_blocked_def periods_blocked_by_pending_def periods_blocked_by_consumers_def
    by (auto intro!: careful_steps health_careful assms)
  then show ?thesis
    unfolding drop_expired_def expired_candidates_def covered_days_def drop_each_def drop_one_def by (auto intro!: careful_steps)
qed

lemma retention_nonneg: "0 \<le> rs_retention st \<Longrightarrow> retention_days_for st table = Some n \<Longrightarrow> 0 \<le> n"
  by (auto simp: retention_days_for_def RETENTION_DAYS_def split: if_splits)

lemma runway_reaches:
  assumes "p \<in> set ps" and "pa_table p = table" and "period_end g (pa_from p) \<ge> d" and "today \<le> d"
  shows "d - today \<le> runway_of g today (covered_starts table ps)"
proof -
  let ?future = "filter (\<lambda>e. today \<le> e) (map (period_end g) (covered_starts table ps))"
  have e: "period_end g (pa_from p) \<in> set ?future" using assms by (auto simp: covered_starts_def)
  then obtain x xs where f: "?future = x # xs" by (cases ?future) auto
  then have m: "max_of ?future = Some (Max (set ?future))" by (simp only: max_of.simps Max.set_eq_fold)
  have "period_end g (pa_from p) \<le> Max (set ?future)" using e by (intro Max_ge) auto
  then show ?thesis using assms(3) unfolding runway_of_def Let_def m by simp
qed

lemma named_table:
  assumes "sound_catalog ps" and "p \<in> set ps"
  shows "\<exists>t \<in> set PARTITIONED. pa_table p = pt_table t \<and> pa_to p = next_period_start (pt_grain t) (pa_from p)"
  using assms by (auto simp: sound_catalog_def list_all_iff well_named_def)

text \<open>A cycle without errors leaves ingestion its runway. Where the health of the tenants could be read, every table, at its
  own grain, has afterwards a partition for today and for each day of the precreate window, whatever was dropped, and the
  runway reported for it is at least that long.\<close>

theorem cycle_leaves_a_runway:
  assumes "sound_catalog ps" and "extend_and_drop env st now wh today ps = ((n, dropped, []), ps')"
    and "db_refuses env Tenant_health = None" and "0 \<le> rs_retention st" and "0 \<le> rs_precreate st" and "t \<in> set PARTITIONED"
  shows "(\<forall>d \<in> {today..today + rs_precreate st}. \<exists>p \<in> set ps'. pa_table p = pt_table t \<and> pa_from p \<le> d \<and> d < pa_to p)
    \<and> rs_precreate st \<le> runway_of (pt_grain t) today (covered_starts (pt_table t) ps')"
proof -
  let ?c0 = "\<lparr>ca_parts = ps, ca_aborted = False\<rparr>"
  obtain r1 c1 where c1: "create_runway env st today ?c0 = (r1, c1)" by fastforce
  obtain r2 c2 where c2: "drop_expired env st now wh today c1 = (r2, c2)" by fastforce
  obtain k1 k2 where r: "r1 = Inr k1" "r2 = Inr k2"
    using assms(2) by (cases r1; cases r2) (auto simp: extend_and_drop_def c1 c2)
  have "\<not> ca_aborted c1" using runway_careful c1 r(1) by (fastforce simp: careful_def)
  then have "\<not> ca_aborted c2" using drop_careful [OF assms(3)] c2 r(2) by (fastforce simp: careful_def)
  then have ps': "ps' = ca_parts c2" using assms(2) by (simp add: extend_and_drop_def c1 c2)
  note cr = create_runway_effect [OF c1] and dr = drop_expired_effect [OF c2]
  have a: "sound_catalog (ca_parts c1)" using cr assms(1) by simp
  have covered: "\<exists>p \<in> set ps'. pa_table p = pt_table t \<and> pa_from p \<le> d \<and> d < pa_to p \<and> period_end (pt_grain t) (pa_from p) = pa_to p - 1"
    if d: "today \<le> d" "d \<le> today + rs_precreate st" for d
  proof -
    have "has_period t (period_start (pt_grain t) d) (ca_parts c1)" using cr assms(1,6) d r(1) by simp
    then obtain p where p: "p \<in> set (ca_parts c1)" "pa_table p = pt_table t" "pa_from p = period_start (pt_grain t) d"
      by (auto simp: has_period_def)
    then obtain t' where t': "t' \<in> set PARTITIONED" "pa_table p = pt_table t'" "pa_to p = next_period_start (pt_grain t') (pa_from p)"
      using named_table [OF a p(1)] by blast
    have "pt_table t' = pt_table t" using p(2) t'(2) by (rule trans [OF sym, rotated])
    then have "t' = t" using registered(2) [OF t'(1)] registered(2) [OF assms(6)] by (metis option.inject)
    then have span: "pa_from p \<le> d" "d < pa_to p" "period_end (pt_grain t) (pa_from p) = pa_to p - 1"
      using p(3) t'(3) period_holds [where g = "pt_grain t" and day = d] by (simp_all add: period_end_def)
    have "p \<in> set (ca_parts c2)"
    proof (rule ccontr)
      assume "p \<notin> set (ca_parts c2)"
      then have "out_of_policy st today p" using dr a p(1) by auto
      then obtain n where "0 \<le> n" "pa_to p - 1 < today - n" using retention_nonneg [OF assms(4)] by (auto simp: out_of_policy_def)
      then show False using span(2) d(1) by linarith
    qed
    then show ?thesis using p(2) span ps' by auto
  qed
  obtain p where p: "p \<in> set ps'" "pa_table p = pt_table t" "today + rs_precreate st < pa_to p" "period_end (pt_grain t) (pa_from p) = pa_to p - 1"
    using covered [of "today + rs_precreate st"] assms(5) by auto
  have "(today + rs_precreate st) - today \<le> runway_of (pt_grain t) today (covered_starts (pt_table t) ps')"
    by (rule runway_reaches [OF p(1,2)]) (use p assms(5) in auto)
  then show ?thesis using covered by fastforce
qed

subsection \<open>A cycle at work\<close>

text \<open>The transactions of 1969-12-31 on day 100, with sixty days of retention. The settings ask for no day ahead, so the half that
  creates raises; the half that drops runs all the same.\<close>

definition sample_db :: db_env where
  "sample_db = \<lparr>db_refuses = (\<lambda>q. None), db_aborted = ''aborted'', db_error_text = (\<lambda>e. ''error'')\<rparr>"

definition sample_policy :: retention_settings where
  "sample_policy = \<lparr>rs_retention = 60, rs_precreate = - 1, rs_stale_after = 86400, rs_gate = True, rs_hold_max = 14\<rparr>"

definition old_partition :: partition where
  "old_partition = \<lparr>pa_name = ''log_transactions_1969_12_31'', pa_table = ''log_transactions'', pa_from = - 1, pa_to = 0\<rparr>"

definition old_catalog :: catalog where
  "old_catalog = \<lparr>ca_parts = [old_partition], ca_aborted = False\<rparr>"

definition old_expired :: "partitioned_table \<Rightarrow> int list" where
  "old_expired t = (if pt_table t = ''log_transactions'' then [- 1] else [])"

lemma old_sound: "sound_catalog [old_partition]"
proof -
  have "\<lparr>pt_table = ''log_transactions'', pt_key = ''started_at'', pt_grain = Daily\<rparr> \<in> set PARTITIONED" by (simp add: PARTITIONED_def)
  moreover have "partition_name ''log_transactions'' (- 1) = Inr ''log_transactions_1969_12_31''" by code_simp
  ultimately show ?thesis by (force simp: sound_catalog_def well_named_def old_partition_def next_period_start_def)
qed

lemma each_do_collects: "(\<And>x out. x \<in> set xs \<Longrightarrow> f x out c = (Inr (out @ [g x]), c)) \<Longrightarrow> each_do f xs out c = (Inr (out @ map g xs), c)"
  by (induction xs arbitrary: out) (simp_all add: give_def then_do_def)

lemma old_candidates: "expired_candidates sample_db sample_policy 100 old_catalog = (Inr (map (\<lambda>t. (pt_table t, old_expired t)) PARTITIONED), old_catalog)"
proof -
  have "list_all (\<lambda>t. covered_days sample_db (pt_table t) old_catalog = (Inr (old_expired t), old_catalog)) PARTITIONED"
    "list_all (\<lambda>t. droppable_days sample_policy (pt_table t) (old_expired t) 100 = Inr (old_expired t)) PARTITIONED" by code_simp+
  then have "t \<in> set PARTITIONED \<Longrightarrow> then_do (covered_days sample_db (pt_table t)) (\<lambda>covered.
       then_do (raising sample_db (droppable_days sample_policy (pt_table t) covered 100)) (\<lambda>starts. give (out @ [(pt_table t, starts)]))) old_catalog
    = (Inr (out @ [(pt_table t, old_expired t)]), old_catalog)" for t out
    by (auto simp: list_all_iff then_do_def raising_def give_def)
  then show ?thesis
    unfolding expired_candidates_def by (subst each_do_collects [where g = "\<lambda>t. (pt_table t, old_expired t)"]) simp_all
qed

lemma old_dropped: "extend_and_drop sample_db sample_policy 100 sample_warehouse 100 [old_partition]
  = ((0, [''log_transactions_1969_12_31''], [''create: error'']), [])"
proof -
  have "create_runway sample_db sample_policy 100 old_catalog = (Inl ''error'', old_catalog)"
    "candidate_periods (map (\<lambda>t. (pt_table t, old_expired t)) PARTITIONED) = [(''log_transactions'', - 1)]"
    "periods_blocked sample_db sample_policy 100 sample_warehouse [(''log_transactions'', - 1)] old_catalog = (Inr [], old_catalog)"
    "drop_one sample_db [] (''log_transactions'', - 1) [] old_catalog = (Inr [''log_transactions_1969_12_31''], old_catalog\<lparr>ca_parts := []\<rparr>)"
    "\<not> ca_aborted old_catalog" by code_simp+
  then show ?thesis using old_candidates
    by (simp add: extend_and_drop_def drop_expired_def drop_each_def then_do_def give_def flip: old_catalog_def)
qed

lemma dropped_partition_was_released_witness:
  "snd (extend_and_drop sample_db sample_policy 100 sample_warehouse 100 [old_partition]) = []
   \<and> out_of_policy sample_policy 100 old_partition \<and> unwanted sample_policy 100 sample_warehouse old_partition"
  using dropped_partition_was_released [OF old_sound old_dropped] old_dropped by simp

end
