(* ===== verification/Spec2Isabelle.thy ===== *)
theory Spec2Isabelle
  imports GrouperProperties TxnProperties WindowProperties SystemProperties Reclassify
    RetryPolicy CascadeProperties LookupProperties RetentionProperties
begin

text \<open>
  The log pipeline of the repository: a server log is parsed and stored once (Stage 1), its lines are stitched into
  transactions (Stage 2), the analytics cycle folds the transactions into facts and rollups, and background workers keep
  the parts in step and retire what nobody needs. Paths below are under \<open>src/app/\<close>.

  \<^bold>\<open>The parts and how they meet.\<close> \<open>run_log_parse_insert\<close> parses a file with \<open>M3DotNetLogParser\<close>, inserts the lines into
  \<open>log_entries\<close> (deduplicated by tenant, content hash and instant) and writes one ticket for the range it touched. The
  stitch worker takes tenants with due tickets, leaves out those being rebuilt, and hands each to
  \<open>finalize_pending\<close>, which coalesces tickets into runs and rebuilds their windows, by the head lane where it applies and
  by \<open>regroup_window\<close> otherwise. A rebuild reads the lines of a padded window, groups them (\<open>_group\<close>), gives each group an
  identity that survives rebuilds (\<open>Continuity\<close>), computes its columns (\<open>_TxnBuilder.compute\<close>), and writes rows and
  assignments (\<open>_persist\<close>), publishing tickets for analytics. The sealer marks what can no longer change. The analytics
  cycle takes these tickets: a slice of a run reads its transactions, normalises them into facts, applies the difference to
  the fact table and its ledger, recomputes the dirty buckets of the active metrics, and publishes how far it has read.
  The partition worker extends the partitioned tables and drops what is past retention and held by no writer or reader.

  \<^bold>\<open>Theories: ingest and stitching.\<close>
  \<^item> \<open>Prelude\<close>: Python's dicts as association lists (a locale, interpreted for \<open>AList\<close>), buckets, \<open>max(key=)\<close>, first and
    last pops, a locale of state machines whose runs keep an invariant, text.
  \<^item> \<open>Entries\<close>: JSON, the row \<open>LogEntry\<close>, what Stage 2 reads off a line (\<open>derive_transactions.py\<close>, \<open>_entry_*\<close>), stream places.
  \<^item> \<open>Grouper\<close>: \<open>_group\<close> with all its nested functions: builders live in a heap because one builder can sit in two slots;
    one definition per branch of the loop. \<open>GrouperInvariant\<close> is the invariant of the state and its preservation by
    every step, \<open>GrouperConservation\<close> the multiset of lines, \<open>GrouperSource\<close> that lines come from the seed or the
    stream, \<open>GrouperProperties\<close> the claims. \<open>Samples\<close> holds lines for examples.
  \<^item> \<open>Floats\<close>, \<open>TxnCompute\<close>, \<open>TxnProperties\<close>: IEEE doubles by exact rounding of rationals; the columns, the anchor, the seal
    rule and the column caps.
  \<^item> \<open>Fingerprints\<close> (\<open>pipeline/fingerprints.py\<close>), \<open>Windows\<close> (\<open>pipeline/time_bounds.py\<close>, \<open>_coalesce*\<close>, \<open>_split_run\<close>), \<open>WindowProperties\<close>,
    \<open>Continuity\<close> (\<open>pipeline/continuity.py\<close>).
  \<^item> \<open>Store\<close>: the tables as lists of records, \<open>pipeline/assignments.py\<close>, \<open>analytics/pending_windows.py\<close>. \<open>Persist\<close> is \<open>_persist\<close>;
    \<open>Ownership\<close> is the locale of tables that own each line at most once, interpreted on the assignment table;
    \<open>PersistProperties\<close> has the refinement: after a write the table holds what the grouping says.
  \<^item> \<open>StreamState\<close> (\<open>pipeline/stream_state.py\<close>), \<open>Regroup\<close> and \<open>RegroupProperties\<close>: the rebuilds and the shadow comparison;
    the position of an open stream is kept as it was saved.
  \<^item> \<open>HeadLane\<close>, \<open>HeadProperties\<close> (\<open>pipeline/head_lane.py\<close>); \<open>RetryPolicy\<close> (\<open>queueing/retry_policy.py\<close>, \<open>io_errors.py\<close>).
  \<^item> \<open>Finalize\<close>, \<open>FinalizeProperties\<close>: the stitch queue as a state machine; \<open>Sealer\<close> (\<open>pipeline/sealer.py\<close>).
  \<^item> \<open>Parser\<close>, \<open>ParserProperties\<close>, \<open>Timestamps\<close> (\<open>parsers/m3_dotnet_parser.py\<close>); \<open>Ingest\<close>, \<open>IngestProperties\<close>
    (\<open>pipeline/parse_insert.py\<close>); \<open>Reclassify\<close> (\<open>pipeline/reclassify.py\<close>).
  \<^item> \<open>Worker\<close> (\<open>workers/log_stitch_worker.py\<close>, \<open>pipeline/maintenance.py\<close>), \<open>SystemProperties\<close>: jobs and ticks in any order.

  \<^bold>\<open>Theories: analytics\<close> (files of \<open>services/analytics/\<close>).
  \<^item> \<open>FloatOrder\<close>, \<open>Sketches\<close> (\<open>histogram.py\<close>, \<open>hll.py\<close>), \<open>Decimals\<close>: Python's decimals with 28 digits, half even, and their errors.
  \<^item> \<open>Contract\<close> (\<open>contract.py\<close>); \<open>Metrics\<close>, \<open>MetricTypes\<close>, \<open>MetricProperties\<close> (\<open>definition.py\<close>): metric definitions, their
    validation, the fold of rows and the merge of folds, measured against independent statistics of the contributions.
  \<^item> \<open>Payload\<close> (\<open>payload.py\<close>, \<open>capture.py\<close>), \<open>RangeDiff\<close> (\<open>diff.py\<close>), \<open>Facts\<close> (\<open>normalizer.py\<close>, the reads and writes of
    \<open>consume.py\<close>), \<open>FactProperties\<close>: facts, the diff and its application, the ledger.
  \<^item> \<open>Calendar\<close>, \<open>Rollups\<close> (\<open>rollups.py\<close>), \<open>RollupProperties\<close>, \<open>Cascade\<close>, \<open>Levels\<close>, \<open>CascadeProperties\<close>: hours, days
    and months; what it means that rollups show the facts, and that folding keeps it.
  \<^item> \<open>Registry\<close> (\<open>registry.py\<close>), \<open>Lookup\<close> (\<open>lookup.py\<close>), \<open>LookupStore\<close> (\<open>lookup_store.py\<close>), \<open>LookupProperties\<close>.
  \<^item> \<open>TicketQueue\<close>: the locale of queues decided in turns; \<open>Consume\<close> (\<open>consume.py\<close>): one tenant's pass over its tickets as
    a function on a \<open>warehouse\<close> of all its tables; \<open>ConsumeProperties\<close> interprets the locale and has the invariants of
    every warehouse the passes lead to.

  \<^bold>\<open>Theories: retention.\<close>
  \<^item> \<open>Cursors\<close> (\<open>services/consumer_cursors.py\<close>), \<open>Partitions\<close>, \<open>PartitionProperties\<close> (\<open>persistence/partitioning.py\<close>): statements
    against a catalog of partitions, any of which the database may refuse; a refused one aborts the transaction.
  \<^item> \<open>Retention\<close>, \<open>RetentionProperties\<close> (\<open>workers/log_partition_worker.py\<close>): one cycle, what it may drop, what it leaves.

  \<^bold>\<open>Conventions.\<close> Instants and durations are microseconds (integers, as in Python and PostgreSQL). A transaction of the
  database is a function from the store to the store it commits; a rollback keeps the old one. An exception is an
  \<open>Inl\<close> value, and what a fault of the database does to a step is a parameter (\<open>o_fault\<close>, \<open>i_fault\<close>, \<open>fe_fault\<close>, \<open>db_refuses\<close>),
  so the claims hold for every pattern of faults. Hash functions, \<open>uuid4\<close>, \<open>uuid5\<close>, the time-zone database, \<open>json.loads\<close>, the
  decoding of UTF-8, the jitter of the backoff and the texts of exceptions are parameters. A claim that needs more of one of
  them says so: digests that agree only on equal contents, a text for every exception where describing a fault would raise.
  Text is Latin-1. Advisory locks, statement timeouts and log messages have no effect on a single run and are left out.

  \<^bold>\<open>Termination.\<close> No definition uses fuel: every loop of the source is structural recursion, a fold, or a \<open>function\<close> with a
  measure (\<open>split_from\<close>, \<open>chunk_tickets\<close>, \<open>splitlines\<close>, \<open>decode_runs\<close>, \<open>periods_from\<close>). A worker's endless loop is the
  closure of its tick.

  \<^bold>\<open>What the claims show.\<close> Lines are neither lost nor duplicated from the file to the table and through grouping; no
  conversation mixes servers, and a response closes the latest open one of its user or server; identities are inherited
  safely; a rebuild that changes nothing writes nothing; the in-place rebuild reads, and the SQL of the sealer seals, what
  the code they replaced did; the head lane takes no line from another transaction and refuses a stale plan; due tickets
  are decided and none is retried for ever, in the stitch queue and in the analytics queue; the log is append-only in every
  reachable state. Folds compute the statistics of their rows and compose; rollups follow the facts over diffs; the
  ledger replays to the fact table; the counters of a tenant count its rows; a dropped partition was released by all that
  could still need it. The findings name where the code falls short; their lemmas are in \<open>GrouperProperties\<close>,
  \<open>HeadProperties\<close>, \<open>FinalizeProperties\<close>, \<open>IngestProperties\<close>, \<open>Registry\<close>, \<open>LookupProperties\<close> and \<open>ConsumeProperties\<close>.

  \<^bold>\<open>Not modelled.\<close> Of analytics: reading for charts, reconciliation, previews and synthetic definitions, settlements, the
  suggestion of lookup sources, and the worker loop over tenants (\<open>drain_once\<close>); forecasts, at-risk scoring and machine
  learning. The HTTP API, authentication and middleware; remote fetching over SSH and the directory watcher (pure I/O
  around Stage 1); the notification pipeline beyond the event a rebuild enqueues and its cursor; document ingestion,
  chunking, embeddings and search; the language-model agents and Teams; schema migrations and configuration.
\<close>

end
